(* ===== verification/Rust_Prelude.thy ===== *)
theory Rust_Prelude
  imports Main "HOL-Library.Word" "HOL-Library.List_Lexorder" "HOL-Library.Char_ord"
    "HOL-Library.Sublist"
begin

text \<open>
  What every component of the development uses of the Rust language and its standard library:
  results with panics, the ordered collections \<open>BTreeMap\<close> and \<open>BTreeSet\<close> as strictly sorted
  lists, saturating machine arithmetic, and the operations on UTF-8 strings.
  The laws of the ordered map are the locale \<open>ordered_map\<close>, interpreted on the sorted
  association list; those of a saturating counter are the locale \<open>token_pool\<close>, interpreted on
  words of any width.
\<close>

named_theorems rust_defs \<open>definitions the component proofs unfold\<close>
named_theorems outcome_simps \<open>case analysis on results\<close>

section \<open>Results\<close>

text \<open>
  A Rust function returns \<open>Ok\<close> or \<open>Err\<close>; an \<open>expect\<close> on \<open>None\<close>, an index out of range or an
  unsigned subtraction below zero ends the call in \<open>Panic\<close>.
\<close>

datatype ('e, 'a) outcome = Ok 'a | Err 'e | Panic

fun bind :: "('e, 'a) outcome \<Rightarrow> ('a \<Rightarrow> ('e, 'b) outcome) \<Rightarrow> ('e, 'b) outcome" where
  "bind (Ok a) f = f a"
| "bind (Err e) f = Err e"
| "bind Panic f = Panic"

fun map_err :: "('e \<Rightarrow> 'f) \<Rightarrow> ('e, 'a) outcome \<Rightarrow> ('f, 'a) outcome" where
  "map_err f (Ok a) = Ok a"
| "map_err f (Err e) = Err (f e)"
| "map_err f Panic = Panic"

fun ok_or :: "'e \<Rightarrow> 'a option \<Rightarrow> ('e, 'a) outcome" where
  "ok_or e None = Err e"
| "ok_or e (Some a) = Ok a"

text \<open>A loop whose body may return early with \<open>?\<close>.\<close>

fun for_each :: "('a \<Rightarrow> ('e, unit) outcome) \<Rightarrow> 'a list \<Rightarrow> ('e, unit) outcome" where
  "for_each f [] = Ok ()"
| "for_each f (x # xs) = bind (f x) (\<lambda>_. for_each f xs)"

lemma bind_eq_Ok [outcome_simps]: "bind r f = Ok b \<longleftrightarrow> (\<exists>a. r = Ok a \<and> f a = Ok b)"
  by (cases r) auto

lemma bind_eq_Err [outcome_simps]:
  "bind r f = Err e \<longleftrightarrow> r = Err e \<or> (\<exists>a. r = Ok a \<and> f a = Err e)"
  by (cases r) auto

lemma bind_eq_Panic [outcome_simps]:
  "bind r f = Panic \<longleftrightarrow> r = Panic \<or> (\<exists>a. r = Ok a \<and> f a = Panic)"
  by (cases r) auto

lemma map_err_eq_Ok [outcome_simps, simp]: "map_err f r = Ok a \<longleftrightarrow> r = Ok a"
  by (cases r) auto

lemma map_err_eq_Panic [outcome_simps, simp]: "map_err f r = Panic \<longleftrightarrow> r = Panic"
  by (cases r) auto

lemma for_each_Ok: "for_each f xs = Ok () \<longleftrightarrow> (\<forall>x \<in> set xs. f x = Ok ())"
  by (induction xs) (auto simp: outcome_simps)

lemma for_each_ErrD:
  "for_each f xs = Err e \<Longrightarrow>
     \<exists>ys x zs. xs = ys @ x # zs \<and> (\<forall>y \<in> set ys. f y = Ok ()) \<and> f x = Err e"
proof (induction xs)
  case (Cons a xs)
  show ?case
  proof (cases "f a = Err e")
    case True
    then have "a # xs = [] @ a # xs \<and> (\<forall>y \<in> set []. f y = Ok ()) \<and> f a = Err e" by simp
    then show ?thesis by blast
  next
    case False
    with Cons.prems have a: "f a = Ok ()" and "for_each f xs = Err e"
      by (auto simp: outcome_simps)
    with Cons.IH obtain ys x zs
      where "xs = ys @ x # zs" "\<forall>y \<in> set ys. f y = Ok ()" "f x = Err e" by blast
    with a have "a # xs = (a # ys) @ x # zs \<and> (\<forall>y \<in> set (a # ys). f y = Ok ()) \<and> f x = Err e"
      by simp
    then show ?thesis by blast
  qed
qed simp

lemma for_each_Panic:
  "for_each f xs = Panic \<Longrightarrow> \<exists>x \<in> set xs. f x = Panic"
  by (induction xs) (auto simp: outcome_simps)

lemma find_SomeD: "find P xs = Some x \<Longrightarrow> x \<in> set xs \<and> P x"
  by (auto simp: find_Some_iff)

section \<open>Ordered maps\<close>

text \<open>
  \<open>BTreeMap<K, V>\<close> is an association list in strictly increasing key order, so that iteration
  is the list itself. \<open>get\<close> is \<open>map_of\<close>, \<open>insert\<close> replaces or inserts in order, \<open>remove\<close>
  and \<open>retain\<close> filter, and an update through \<open>get_mut\<close> maps in place.
\<close>

type_synonym ('k, 'v) btmap = "('k \<times> 'v) list"

fun bt_insert :: "'k::linorder \<Rightarrow> 'v \<Rightarrow> ('k, 'v) btmap \<Rightarrow> ('k, 'v) btmap" where
  "bt_insert k v [] = [(k, v)]"
| "bt_insert k v ((k', v') # m) =
     (if k < k' then (k, v) # (k', v') # m
      else if k = k' then (k, v) # m
      else (k', v') # bt_insert k v m)"

definition bt_remove :: "'k \<Rightarrow> ('k, 'v) btmap \<Rightarrow> ('k, 'v) btmap" where
  "bt_remove k m = filter (\<lambda>(k', _). k' \<noteq> k) m"

definition bt_modify :: "'k \<Rightarrow> ('v \<Rightarrow> 'v) \<Rightarrow> ('k, 'v) btmap \<Rightarrow> ('k, 'v) btmap" where
  "bt_modify k f m = map (\<lambda>(k', v). (k', if k' = k then f v else v)) m"

definition bt_keys :: "('k, 'v) btmap \<Rightarrow> 'k list" where
  "bt_keys m = map fst m"

definition bt_contains :: "('k, 'v) btmap \<Rightarrow> 'k \<Rightarrow> bool" where
  "bt_contains m k \<longleftrightarrow> (case map_of m k of None \<Rightarrow> False | Some _ \<Rightarrow> True)"

definition bt_wf :: "('k::linorder, 'v) btmap \<Rightarrow> bool" where
  "bt_wf m \<longleftrightarrow> sorted_wrt (<) (map fst m)"

text \<open>\<open>map.entry(k).or_default().insert(x)\<close> on a map of sets.\<close>

definition bt_set_insert ::
  "'k::linorder \<Rightarrow> 'a::linorder \<Rightarrow> ('k, 'a list) btmap \<Rightarrow> ('k, 'a list) btmap" where
  "bt_set_insert k x m =
     bt_insert k (insort_insert x (case map_of m k of None \<Rightarrow> [] | Some s \<Rightarrow> s)) m"

text \<open>\<open>map.entry(k).or_default()\<close> on a map of collections.\<close>

definition bt_or_default :: "'k::linorder \<Rightarrow> ('k, 'a list) btmap \<Rightarrow> ('k, 'a list) btmap" where
  "bt_or_default k m = (case map_of m k of None \<Rightarrow> bt_insert k [] m | Some _ \<Rightarrow> m)"

lemma map_of_bt_insert [simp]: "map_of (bt_insert k v m) = (map_of m)(k \<mapsto> v)"
  by (induction m) (auto simp: fun_upd_twist)

lemma map_of_bt_remove [simp]: "map_of (bt_remove k m) = (map_of m)(k := None)"
  by (induction m) (auto simp: bt_remove_def)

lemma map_of_bt_modify [simp]:
  "map_of (bt_modify k f m) x = (if x = k then map_option f (map_of m x) else map_of m x)"
  by (induction m) (auto simp: bt_modify_def)

lemma bt_keys_modify [simp]: "bt_keys (bt_modify k f m) = bt_keys m"
  by (induction m) (auto simp: bt_modify_def bt_keys_def)

lemma set_bt_keys: "set (bt_keys m) = dom (map_of m)"
  by (simp add: bt_keys_def dom_map_of_conv_image_fst)

lemma bt_contains_iff [simp]: "bt_contains m k \<longleftrightarrow> k \<in> dom (map_of m)"
  by (auto simp: bt_contains_def split: option.splits)

lemma fst_set_bt_insert: "fst ` set (bt_insert k v m) = insert k (fst ` set m)"
  by (metis dom_fun_upd dom_map_of_conv_image_fst map_of_bt_insert option.distinct(1))

lemma bt_wf_Nil [simp]: "bt_wf []"
  by (simp add: bt_wf_def)

lemma bt_wf_insert [simp]: "bt_wf m \<Longrightarrow> bt_wf (bt_insert k v m)"
  unfolding bt_wf_def
proof (induction m)
  case (Cons p m)
  obtain k' v' where "p = (k', v')" by fastforce
  with Cons show ?case by (auto simp: fst_set_bt_insert)
qed simp

lemma bt_wf_remove [simp]: "bt_wf m \<Longrightarrow> bt_wf (bt_remove k m)"
  unfolding bt_wf_def bt_remove_def by (induction m) auto

lemma bt_wf_modify [simp]: "bt_wf (bt_modify k f m) \<longleftrightarrow> bt_wf m"
  unfolding bt_wf_def bt_modify_def by (simp add: comp_def case_prod_beta)

lemma bt_wf_distinct: "bt_wf m \<Longrightarrow> distinct (map fst m)"
  unfolding bt_wf_def by (induction m) auto

lemma bt_wf_sorted: "bt_wf m \<Longrightarrow> sorted (map fst m)"
  unfolding bt_wf_def by (induction m) (auto simp: less_imp_le)

lemma bt_wf_lookup: "bt_wf m \<Longrightarrow> (k, v) \<in> set m \<longleftrightarrow> map_of m k = Some v"
  by (simp add: bt_wf_distinct)

lemma bt_wf_map_filter: "bt_wf m \<Longrightarrow> bt_wf (filter P m)"
  unfolding bt_wf_def by (induction m) auto

lemma bt_wf_map_values: "bt_wf m \<Longrightarrow> bt_wf (map (\<lambda>(k, v). (k, f k v)) m)"
  unfolding bt_wf_def by (simp add: comp_def case_prod_beta)

lemma map_of_bt_set_insert:
  "map_of (bt_set_insert k x m) k' =
     (if k' = k then Some (insort_insert x (case map_of m k of None \<Rightarrow> [] | Some s \<Rightarrow> s))
      else map_of m k')"
  by (simp add: bt_set_insert_def)

lemma bt_wf_set_insert [simp]: "bt_wf m \<Longrightarrow> bt_wf (bt_set_insert k x m)"
  by (simp add: bt_set_insert_def)

lemma map_of_bt_or_default:
  "map_of (bt_or_default k m) k' =
     (if k' = k then Some (case map_of m k of None \<Rightarrow> [] | Some s \<Rightarrow> s) else map_of m k')"
  by (auto simp: bt_or_default_def split: option.splits)

lemma bt_wf_or_default [simp]: "bt_wf m \<Longrightarrow> bt_wf (bt_or_default k m)"
  by (auto simp: bt_or_default_def split: option.splits)

text \<open>
  The interface the components rely on: after an insertion the key reads back the value and
  every other key is as before; iteration visits the domain in strictly increasing order.
\<close>

locale ordered_map =
  fixes empty :: "'m"
    and ins :: "'k::linorder \<Rightarrow> 'v \<Rightarrow> 'm \<Rightarrow> 'm"
    and del :: "'k \<Rightarrow> 'm \<Rightarrow> 'm"
    and look :: "'m \<Rightarrow> 'k \<Rightarrow> 'v option"
    and keys :: "'m \<Rightarrow> 'k list"
    and invar :: "'m \<Rightarrow> bool"
  assumes look_empty: "look empty k = None"
    and look_ins: "look (ins k v m) k' = (if k' = k then Some v else look m k')"
    and look_del: "look (del k m) k' = (if k' = k then None else look m k')"
    and set_keys: "set (keys m) = {k. look m k \<noteq> None}"
    and keys_sorted: "invar m \<Longrightarrow> sorted_wrt (<) (keys m)"
    and invar_empty: "invar empty"
    and invar_ins: "invar m \<Longrightarrow> invar (ins k v m)"
    and invar_del: "invar m \<Longrightarrow> invar (del k m)"
begin

text \<open>Building a map in a loop: a key reads the last value stored for it.\<close>

lemma look_fold:
  "look (fold (\<lambda>x. ins (f x) (g x)) xs m) k =
     (case find (\<lambda>x. f x = k) (rev xs) of Some x \<Rightarrow> Some (g x) | None \<Rightarrow> look m k)"
proof (induction xs arbitrary: m)
  case Nil
  show ?case by simp
next
  case (Cons a xs)
  have "find P (ys @ [a]) = (case find P ys of None \<Rightarrow> (if P a then Some a else None) | s \<Rightarrow> s)"
    for P ys
    by (induction ys) auto
  with Cons.IH [of "ins (f a) (g a) m"] show ?case
    by (auto simp: look_ins split: option.splits)
qed

lemma invar_fold: "invar m \<Longrightarrow> invar (fold (\<lambda>x. ins (f x) (g x)) xs m)"
  by (induction xs arbitrary: m) (auto simp: invar_ins)

text \<open>With one value per key the order of the loop does not matter.\<close>

lemma look_fold_fun:
  "look (fold (\<lambda>x. ins x (g x)) xs m) k = (if k \<in> set xs then Some (g k) else look m k)"
  by (induction xs arbitrary: m) (auto simp: look_ins)

lemma look_fold_rel:
  assumes "\<And>p q. p \<in> set xs \<Longrightarrow> q \<in> set xs \<Longrightarrow> f p = f q \<Longrightarrow> g p = g q"
  shows "look (fold (\<lambda>x. ins (f x) (g x)) xs empty) k = Some v \<longleftrightarrow> (\<exists>x \<in> set xs. f x = k \<and> g x = v)"
proof (cases "find (\<lambda>x. f x = k) (rev xs)")
  case None
  then have "\<forall>x \<in> set xs. f x \<noteq> k" by (auto simp: find_None_iff)
  with None show ?thesis by (auto simp: look_fold look_empty)
next
  case (Some x)
  then have "x \<in> set (rev xs)" and "f x = k" by (auto dest: find_SomeD)
  then have "(\<exists>x' \<in> set xs. f x' = k \<and> g x' = v) \<longleftrightarrow> g x = v"
    by (metis assms set_rev)
  with Some show ?thesis by (simp add: look_fold)
qed

lemma keys_fold_fun:
  "set (keys (fold (\<lambda>x. ins x (g x)) xs m)) = set xs \<union> set (keys m)"
  by (auto simp: set_keys look_fold_fun split: if_splits)

end

interpretation btm: ordered_map "[]" bt_insert bt_remove map_of bt_keys bt_wf
proof unfold_locales
  show "set (bt_keys m) = {k. map_of m k \<noteq> None}" for m :: "('a, 'b) btmap"
    by (simp add: set_bt_keys dom_def)
  show "bt_wf m \<Longrightarrow> sorted_wrt (<) (bt_keys m)" for m :: "('a, 'b) btmap"
    by (simp add: bt_wf_def bt_keys_def)
qed auto

lemma bt_keys_eqI:
  assumes "bt_wf m" and "bt_wf n" and "dom (map_of m) = dom (map_of n)"
  shows "bt_keys m = bt_keys n"
  using assms strict_sorted_equal [of "bt_keys m" "bt_keys n"]
  by (simp add: bt_wf_def bt_keys_def dom_map_of_conv_image_fst)

text \<open>\<open>into_iter().map(...).collect()\<close> from one ordered map to another with the same keys.\<close>

definition bt_map :: "('a \<Rightarrow> 'b) \<Rightarrow> ('k::linorder, 'a) btmap \<Rightarrow> ('k, 'b) btmap" where
  "bt_map f m = fold (\<lambda>(k, v). bt_insert k (f v)) m []"

lemma map_snd_keys: "distinct (map fst m) \<Longrightarrow> m = map (\<lambda>k. (k, the (map_of m k))) (map fst m)"
  by (auto simp: map_idI intro!: map_idI [symmetric])

lemma map_ext_Some: "(\<And>k v. m k = Some v \<longleftrightarrow> n k = Some v) \<Longrightarrow> m = n"
  by (rule ext) (metis not_Some_eq)

lemma bt_wf_ext:
  assumes "bt_wf m" "bt_wf n" "map_of m = map_of n"
  shows "m = n"
proof -
  have keys: "map fst m = map fst n" using bt_keys_eqI [OF assms(1,2)] assms(3) by (simp add: bt_keys_def)
  have "m = map (\<lambda>k. (k, the (map_of m k))) (map fst m)" by (rule map_snd_keys [OF bt_wf_distinct [OF assms(1)]])
  also have "\<dots> = n" unfolding keys assms(3) by (rule map_snd_keys [OF bt_wf_distinct [OF assms(2)], symmetric])
  finally show ?thesis .
qed

lemma bt_map_eq:
  assumes "bt_wf m"
  shows "bt_map f m = map (\<lambda>(k, v). (k, f v)) m"
proof -
  have "bt_map f m = fold (\<lambda>x. bt_insert (fst x) (f (snd x))) m []"
    unfolding bt_map_def by (rule fold_cong) auto
  moreover have "map_of (fold (\<lambda>x. bt_insert (fst x) (f (snd x))) m []) k = Some v \<longleftrightarrow>
      map_of (map (\<lambda>(k, v). (k, f v)) m) k = Some v" for k v
  proof -
    have "f (snd x) = f (snd y)" if xy: "x \<in> set m" "y \<in> set m" "fst x = fst y" for x y
    proof -
      obtain k v l w where "x = (k, v)" "y = (l, w)" by fastforce
      with xy have "map_of m k = Some v" "map_of m k = Some w" by (simp_all add: bt_wf_lookup [OF assms, symmetric])
      with \<open>x = (k, v)\<close> \<open>y = (l, w)\<close> show ?thesis by simp
    qed
    then have "map_of (fold (\<lambda>x. bt_insert (fst x) (f (snd x))) m []) k = Some v \<longleftrightarrow> (\<exists>x \<in> set m. fst x = k \<and> f (snd x) = v)"
      by (rule btm.look_fold_rel)
    also have "\<dots> \<longleftrightarrow> map_of (map (\<lambda>(k, v). (k, f v)) m) k = Some v"
      unfolding bt_wf_lookup [OF bt_wf_map_values [OF assms, of "\<lambda>_. f"], symmetric] by force
    finally show ?thesis .
  qed
  then have "map_of (fold (\<lambda>x. bt_insert (fst x) (f (snd x))) m []) = map_of (map (\<lambda>(k, v). (k, f v)) m)"
    by (rule map_ext_Some)
  ultimately show ?thesis
    using btm.invar_fold [of "[]"] bt_wf_map_values [OF assms, of "\<lambda>_. f"] by (intro bt_wf_ext) auto
qed

section \<open>Ordered sets\<close>

text \<open>
  \<open>BTreeSet<T>\<close> is a strictly increasing list: \<open>insert\<close> is the library's
  \<open>insort_insert\<close>, \<open>remove\<close> is \<open>removeAll\<close>, iteration is the list.
\<close>

abbreviation bs_wf :: "'a::linorder list \<Rightarrow> bool" where
  "bs_wf xs \<equiv> sorted_wrt (<) xs"

lemma bs_wf_sorted_distinct: "bs_wf xs \<longleftrightarrow> sorted xs \<and> distinct xs"
  by (metis strict_sorted_iff)

lemma bs_wf_insert [simp]: "bs_wf xs \<Longrightarrow> bs_wf (insort_insert x xs)"
  by (simp add: bs_wf_sorted_distinct sorted_insort_insert distinct_insort_insert)

lemma bs_wf_filter [simp]: "bs_wf xs \<Longrightarrow> bs_wf (filter P xs)"
  by (simp add: sorted_wrt_filter)

lemma bs_wf_remove [simp]: "bs_wf xs \<Longrightarrow> bs_wf (removeAll x xs)"
  by (simp add: removeAll_filter_not_eq sorted_wrt_filter)

lemma bs_wf_distinct [dest]: "bs_wf xs \<Longrightarrow> distinct xs"
  by (simp add: bs_wf_sorted_distinct)

definition bs_of_list :: "'a::linorder list \<Rightarrow> 'a list" where
  "bs_of_list xs = fold insort_insert xs []"

lemma set_fold_insort_insert: "set (fold insort_insert xs acc) = set xs \<union> set acc"
  by (induction xs arbitrary: acc) (auto simp: set_insort_insert)

lemma bs_wf_fold_insort_insert: "bs_wf acc \<Longrightarrow> bs_wf (fold insort_insert xs acc)"
  by (induction xs arbitrary: acc) auto

lemma set_bs_of_list [simp]: "set (bs_of_list xs) = set xs"
  by (simp add: bs_of_list_def set_fold_insort_insert)

lemma bs_wf_of_list [simp]: "bs_wf (bs_of_list xs)"
  by (simp add: bs_of_list_def bs_wf_fold_insort_insert)

lemma bs_wf_hd_le: "bs_wf xs \<Longrightarrow> x \<in> set xs \<Longrightarrow> hd xs \<le> x"
  by (cases xs) auto

lemma distinct_length_remove:
  "distinct xs \<Longrightarrow> x \<in> set xs \<Longrightarrow> Suc (length (removeAll x xs)) = length xs"
  by (induction xs) auto

lemma length_insort_insert:
  "x \<notin> set xs \<Longrightarrow> length (insort_insert x xs) = Suc (length xs)"
  by (simp add: insort_insert_key_def)

lemma sum_list_insort_insert:
  "x \<notin> set xs \<Longrightarrow> sum_list (map f (insort_insert x xs)) = (f x :: nat) + sum_list (map f xs)"
proof -
  have "sum_list (map f (insort x xs)) = f x + sum_list (map f xs)"
    by (induction xs) auto
  then show "x \<notin> set xs \<Longrightarrow> ?thesis" by (simp add: insort_insert_key_def)
qed

lemma sum_list_removeAll:
  "distinct xs \<Longrightarrow> x \<in> set xs \<Longrightarrow>
     sum_list (map f (removeAll x xs)) + f x = sum_list (map (f :: _ \<Rightarrow> nat) xs)"
proof (induction xs)
  case (Cons a xs)
  then show ?case by (cases "a = x") auto
qed simp

section \<open>Saturating machine arithmetic\<close>

text \<open>\<open>u32\<close> and \<open>u64\<close> values are words; \<open>usize\<close> counts of collections are \<open>nat\<close>.\<close>

type_synonym u32 = "32 word"
type_synonym u64 = "64 word"

definition saturating_add :: "'a::len word \<Rightarrow> 'a word \<Rightarrow> 'a word" where
  "saturating_add a b = (if unat a + unat b < 2 ^ LENGTH('a) then a + b else - 1)"

definition saturating_sub :: "'a::len word \<Rightarrow> 'a word \<Rightarrow> 'a word" where
  "saturating_sub a b = (if a < b then 0 else a - b)"

definition saturating_mul :: "'a::len word \<Rightarrow> 'a word \<Rightarrow> 'a word" where
  "saturating_mul a b = (if unat a * unat b < 2 ^ LENGTH('a) then a * b else - 1)"

definition checked_mul :: "'a::len word \<Rightarrow> 'a word \<Rightarrow> 'a word option" where
  "checked_mul a b = (if unat a * unat b < 2 ^ LENGTH('a) then Some (a * b) else None)"

lemma unat_max_word: "unat (- 1 :: 'a::len word) = 2 ^ LENGTH('a) - 1"
  by (simp add: unsigned_minus_1_eq_mask mask_eq_exp_minus_1)

lemma unat_of_nat_small: "n < 2 ^ LENGTH('a) \<Longrightarrow> unat (of_nat n :: 'a::len word) = n"
  by (simp add: unsigned_of_nat take_bit_nat_eq_self)

lemma unat_saturating_add:
  "unat (saturating_add a b) = min (2 ^ LENGTH('a) - 1) (unat a + unat (b :: 'a::len word))"
  by (auto simp: saturating_add_def unat_word_ariths unat_max_word)

lemma unat_saturating_sub: "unat (saturating_sub a b) = unat a - unat b"
proof (cases "a < b")
  case True
  then show ?thesis by (simp add: saturating_sub_def word_less_nat_alt)
next
  case False
  then have "b \<le> a" by simp
  then have "unat (a - b) = unat a - unat b" by (rule unat_sub)
  with False show ?thesis by (simp add: saturating_sub_def)
qed

lemma unat_saturating_mul:
  "unat (saturating_mul a b) = min (2 ^ LENGTH('a) - 1) (unat a * unat (b :: 'a::len word))"
  by (auto simp: saturating_mul_def unat_word_ariths unat_max_word)

lemma checked_mul_Some: "checked_mul a b = Some c \<Longrightarrow> unat c = unat a * unat b"
  by (auto simp: checked_mul_def unat_word_ariths split: if_splits)

text \<open>
  A pool of tokens that users take and give back: addition saturates at \<open>cap\<close>, subtraction
  at 0. As long as the pool's limit stays below \<open>cap\<close>, what is in use is exactly the sum of
  what the current users took.
\<close>

locale token_pool =
  fixes take :: "'w \<Rightarrow> 'w \<Rightarrow> 'w"
    and give :: "'w \<Rightarrow> 'w \<Rightarrow> 'w"
    and val :: "'w \<Rightarrow> nat"
    and cap :: nat
  assumes val_take: "val (take a b) = min cap (val a + val b)"
    and val_give: "val (give a b) = val a - val b"
    and val_le: "val a \<le> cap"
begin

text \<open>The admission test \<open>in_use + need \<le> limit\<close> on saturated values is the exact test.\<close>

lemma take_le_iff: "limit < cap \<Longrightarrow> val (take a b) \<le> limit \<longleftrightarrow> val a + val b \<le> limit"
  by (auto simp: val_take)

lemma take_exact: "val (take a b) \<le> limit \<Longrightarrow> limit < cap \<Longrightarrow> val (take a b) = val a + val b"
  by (auto simp: val_take)

lemma give_take: "val a + val b \<le> cap \<Longrightarrow> val (give (take a b) b) = val a"
  by (simp add: val_take val_give)

lemma take_mono: "val a \<le> val (take a b)"
  using val_le [of a] by (simp add: val_take)

end

interpretation word_pool: token_pool saturating_add saturating_sub
  "unat :: 'a::len word \<Rightarrow> nat" "2 ^ LENGTH('a) - 1"
proof unfold_locales
  show "unat a \<le> 2 ^ LENGTH('a) - 1" for a :: "'a word"
    using unsigned_less [of a, where 'a = nat] by linarith
qed (simp_all add: unat_saturating_add unat_saturating_sub)

end
