(* ===== verification/Task_Schema.thy ===== *)
theory Task_Schema
  imports Rust_Strings
begin

text \<open>
  The data of a task document (\<open>crates/nxr-task/src/schema.rs\<close>, \<open>process.rs\<close>): every struct is a
  record with the source's fields under a prefix that names the struct, every enum a datatype.
  JSON numbers are kept as their printed text, the only thing the sources read of them.
\<close>

datatype JsonValue =
    JNull
  | JBool bool
  | JNumber string
  | JString string
  | JArray "JsonValue list"
  | JObject "(string \<times> JsonValue) list"

section \<open>Schema errors\<close>

datatype SchemaError =
    UnsupportedVersion u32 u32
  | EmptyWorkingDirectory string
  | AbsoluteWorkingDirectory string string
  | ParentTraversalWorkingDirectory string string
  | InvalidDiscoveryInput nat string
  | InvalidTaskPath string nat string
  | InvalidTimeout string string
  | InvalidDocument string
  | UnknownContext string string
  | InvalidInputPath string nat string
  | InvalidOutputPath string nat string
  | InvalidResources string string
  | InvalidContext string string
  | InvalidSecret string string string
  | InvalidShell string string
  | InvalidProcessName string string
  | InvalidProcess string string
  | InvalidParameter string string string
  | InvalidMatrix string string

definition WORKING_DIRECTORY_INVOCATION :: string where
  "WORKING_DIRECTORY_INVOCATION = ''invocation''"

definition WORKING_DIRECTORY_FLAKE_ROOT :: string where
  "WORKING_DIRECTORY_FLAKE_ROOT = ''flake-root''"

text \<open>The \<open>Display\<close> text of an error, from its \<open>#[error(...)]\<close> attribute.\<close>

fun display_schema_error :: "SchemaError \<Rightarrow> string" where
  "display_schema_error (UnsupportedVersion found expected) =
     ''unsupported task schema version '' @ show_nat (unat found) @
     ''; expected major version '' @ show_nat (unat expected)"
| "display_schema_error (EmptyWorkingDirectory task) =
     ''task '' @ task @ '': workingDirectory must not be empty''"
| "display_schema_error (AbsoluteWorkingDirectory task value) =
     ''task '' @ task @ '': workingDirectory must be '' @ WORKING_DIRECTORY_INVOCATION @ '', '' @
     WORKING_DIRECTORY_FLAKE_ROOT @ '', or a relative path (got absolute path '' @ value @ '')''"
| "display_schema_error (ParentTraversalWorkingDirectory task value) =
     ''task '' @ task @ '': workingDirectory must not traverse parent directories (got '' @
     value @ '')''"
| "display_schema_error (InvalidDiscoveryInput index message) =
     ''discoveryInputs['' @ show_nat index @ '']: '' @ message"
| "display_schema_error (InvalidTaskPath task index message) =
     ''task '' @ task @ '': paths['' @ show_nat index @ '']: '' @ message"
| "display_schema_error (InvalidTimeout task message) = ''task '' @ task @ '': '' @ message"
| "display_schema_error (InvalidDocument message) =
     ''task document did not match schema: '' @ message"
| "display_schema_error (UnknownContext task ctx) =
     ''task '' @ task @ '': unknown context `'' @ ctx @ ''`''"
| "display_schema_error (InvalidInputPath task index message) =
     ''task '' @ task @ '': inputs.paths['' @ show_nat index @ '']: '' @ message"
| "display_schema_error (InvalidOutputPath task index message) =
     ''task '' @ task @ '': outputs['' @ show_nat index @ ''].path: '' @ message"
| "display_schema_error (InvalidResources task message) = ''task '' @ task @ '': '' @ message"
| "display_schema_error (InvalidContext ctx message) = ''context '' @ ctx @ '': '' @ message"
| "display_schema_error (InvalidSecret ctx slot message) =
     ''context '' @ ctx @ '': secrets.'' @ slot @ '': '' @ message"
| "display_schema_error (InvalidShell scope message) = scope @ '': '' @ message"
| "display_schema_error (InvalidProcessName process message) =
     ''process '' @ process @ '': '' @ message"
| "display_schema_error (InvalidProcess process message) =
     ''process '' @ process @ '': '' @ message"
| "display_schema_error (InvalidParameter task name message) =
     ''task '' @ task @ '': parameters.'' @ name @ '': '' @ message"
| "display_schema_error (InvalidMatrix task message) =
     ''task '' @ task @ '': matrix: '' @ message"

section \<open>Tasks\<close>

record TaskMatrix =
  tm_include :: "(string, JsonValue) btmap list"

datatype TaskParameterType = ParamString | ParamChoice | ParamBoolean

record TaskParameter =
  tp_param_type :: TaskParameterType
  tp_default :: "JsonValue option"
  tp_values :: "string list option"

record EnvInputBinding =
  eb_name :: string
  eb_required :: bool
  eb_secret :: bool

datatype EnvInput = EnvName string | EnvBinding EnvInputBinding

record TaskInputBinding =
  tib_from :: string

record TaskInputs =
  ti_paths :: "string list"
  ti_env :: "EnvInput list"
  ti_include_git_state :: bool
  ti_bindings :: "(string, TaskInputBinding) btmap"

datatype TaskOutputMode = OutReplace | OutMerge | OutVerifyOnly | OutReport

record TaskOutput =
  to_path :: string
  to_mode :: "TaskOutputMode option"
  to_optional :: bool

datatype TaskCacheSecretPolicy = SecretDisable | SecretIgnoreValues

datatype TaskCacheMode = CacheDisabled | CacheLocal | CacheSharedRead | CacheShared

record TaskCache =
  tc_mode :: "TaskCacheMode option"
  tc_version :: "string option"
  tc_restore :: "bool option"
  tc_save :: "bool option"
  tc_failures :: "bool option"
  tc_secret_policy :: "TaskCacheSecretPolicy option"

datatype IoIntensity = IoLight | IoNormal | IoHeavy

record TaskResources =
  tr_cpu :: "u32 option"
  tr_memory :: "string option"
  tr_io :: "IoIntensity option"
  tr_network :: "bool option"
  tr_exclusive :: "string list"

record TaskDefinition =
  td_description :: "string option"
  td_depends_on :: "string list"
  td_app :: string
  td_working_directory :: "string option"
  td_hidden :: bool
  td_category :: "string option"
  td_aliases :: "string list"
  td_interactive :: bool
  td_paths :: "string list"
  td_timeout :: "string option"
  td_termination_grace_period :: "string option"
  td_inputs :: "TaskInputs option"
  td_outputs :: "TaskOutput list"
  td_cache :: "TaskCache option"
  td_resources :: "TaskResources option"
  td_shell :: "string option"
  td_context :: "string option"
  td_parameters :: "(string, TaskParameter) btmap"
  td_matrix :: "TaskMatrix option"

text \<open>\<open>TaskDefinition::new\<close>: a task that runs \<open>app\<close> with no dependencies.\<close>

definition TaskDefinition_new :: "string \<Rightarrow> TaskDefinition" where
  "TaskDefinition_new app = \<lparr>
     td_description = None, td_depends_on = [], td_app = app, td_working_directory = None,
     td_hidden = False, td_category = None, td_aliases = [], td_interactive = False,
     td_paths = [], td_timeout = None, td_termination_grace_period = None, td_inputs = None,
     td_outputs = [], td_cache = None, td_resources = None, td_shell = None, td_context = None,
     td_parameters = [], td_matrix = None\<rparr>"

type_synonym tasks = "(string, TaskDefinition) btmap"

section \<open>Execution contexts and processes\<close>

datatype ContextEnvironmentMode = EnvInherit | EnvClean

record ContextEnvironment =
  ce_mode :: ContextEnvironmentMode
  ce_keep :: "string list"
  ce_set :: "(string, string) btmap"
  ce_unset :: "string list"

datatype SecretProvider = ProviderEnv | ProviderFile | ProviderSops | ProviderSopsNix

datatype SecretDelivery = DeliveryEnv | DeliveryFile | DeliveryStdin

record ContextSecretRef =
  cs_reference :: string
  cs_delivery :: "SecretDelivery option"
  cs_provider :: SecretProvider

record ExecutionContext =
  ec_shell :: "string option"
  ec_environment :: "ContextEnvironment option"
  ec_secrets :: "(string, ContextSecretRef) btmap"
  ec_confirm :: bool

record ReadinessTcp =
  rt_port :: "16 word"

record ReadinessHttp =
  rh_url :: string

record ProcessReadiness =
  pr_tcp :: "ReadinessTcp option"
  pr_http :: "ReadinessHttp option"

datatype ProcessRestart = RestartNever | RestartOnFailure | RestartAlways

record ProcessDefinition =
  pd_app :: string
  pd_depends_on :: "string list"
  pd_readiness :: "ProcessReadiness option"
  pd_restart :: "ProcessRestart option"
  pd_context :: "string option"
  pd_working_directory :: "string option"
  pd_arguments :: "string list"
  pd_shell :: "string option"

record AppFastPathMetadata =
  fp_enable :: bool
  fp_shell :: "string option"

record AppListingMetadata =
  al_category :: "string option"
  al_workspace_path :: "string option"
  al_interpreter :: "string option"
  al_runtime_path :: "string option"
  al_fast_path :: "AppFastPathMetadata option"

record TaskDocument =
  doc_schema_version :: u32
  doc_tasks :: tasks
  doc_apps :: "(string, AppListingMetadata) btmap"
  doc_discovery_inputs :: "string list"
  doc_contexts :: "(string, ExecutionContext) btmap"
  doc_processes :: "(string, ProcessDefinition) btmap"

definition SCHEMA_VERSION :: u32 where
  "SCHEMA_VERSION = 1"

definition SCHEMA_VERSION_V2 :: u32 where
  "SCHEMA_VERSION_V2 = 2"

definition TaskDocument_new :: "tasks \<Rightarrow> TaskDocument" where
  "TaskDocument_new ts = \<lparr>
     doc_schema_version = SCHEMA_VERSION, doc_tasks = ts, doc_apps = [],
     doc_discovery_inputs = [], doc_contexts = [], doc_processes = []\<rparr>"

section \<open>Apps\<close>

text \<open>\<open>nxr_core::App\<close>, an app of the flake, and the two readers of JSON values its metadata needs.\<close>

record App =
  app_name :: string
  app_attr_path :: string
  app_flake_ref :: string
  app_system :: string
  app_description :: "string option"
  app_is_default :: bool
  app_metadata :: "(string, JsonValue) btmap"

fun json_as_array :: "JsonValue \<Rightarrow> JsonValue list option" where
  "json_as_array (JArray vs) = Some vs"
| "json_as_array _ = None"

fun json_as_str :: "JsonValue \<Rightarrow> string option" where
  "json_as_str (JString s) = Some s"
| "json_as_str _ = None"

text \<open>\<open>Value::get\<close> with a string index.\<close>

fun json_get :: "string \<Rightarrow> JsonValue \<Rightarrow> JsonValue option" where
  "json_get key (JObject obj) = map_of obj key"
| "json_get key _ = None"

text \<open>\<open>Value::as_str\<close> and \<open>Value::as_u64\<close>.\<close>

definition json_str :: "JsonValue \<Rightarrow> string option" where
  "json_str v = (case v of JString s \<Rightarrow> Some s | _ \<Rightarrow> None)"

fun json_as_u64 :: "JsonValue \<Rightarrow> u64 option" where
  "json_as_u64 (JNumber text) = parse_u64 text"
| "json_as_u64 _ = None"

end
