(* ===== verification/Search.thy ===== *)
theory Search
  imports Rust_Prelude
begin

text \<open>
  Two contracts that several components share. \<open>reach_search\<close> is what a stack-driven walk over
  a graph promises: the nodes it returns are exactly those reachable from the stack. The walks of
  \<open>TaskGraph::subgraph\<close>, \<open>TaskGraph::subgraph_union\<close> and the scheduler's cancellation are its
  instances. \<open>transition_system\<close> is a component with a step relation and an invariant that
  every step keeps; the scheduler, the worker registry and the output coalescer are its
  instances.
\<close>

section \<open>Reachability by an explicit stack\<close>

locale reach_search =
  fixes succs :: "'a \<Rightarrow> 'a list"
    and good :: "'a \<Rightarrow> bool"
    and universe :: "'a set"
    and add :: "'a \<Rightarrow> 'a list \<Rightarrow> 'a list"
    and search :: "'a list \<Rightarrow> 'a list \<Rightarrow> 'a list option"
  assumes finite_universe: "finite universe"
    and succs_universe: "succs x \<noteq> [] \<Longrightarrow> good x \<Longrightarrow> x \<in> universe"
    and set_add: "set (add x vis) = insert x (set vis)"
    and search_Nil: "search [] vis = Some vis"
    and search_seen: "x \<in> set vis \<Longrightarrow> search (x # st) vis = search st vis"
    and search_new: "x \<notin> set vis \<Longrightarrow> good x \<Longrightarrow>
          search (x # st) vis = search (rev (succs x) @ st) (add x vis)"
    and search_bad: "x \<notin> set vis \<Longrightarrow> \<not> good x \<Longrightarrow> search (x # st) vis = None"
begin

abbreviation edge :: "'a \<Rightarrow> 'a \<Rightarrow> bool" where
  "edge x y \<equiv> y \<in> set (succs x)"

text \<open>
  The walk ends: pushing successors adds a node of the finite universe to the visited set,
  every other step shortens the stack.
\<close>

lemma search_induct [case_names Nil seen new bad]:
  assumes Nil: "\<And>vis. P [] vis"
    and seen: "\<And>x st vis. x \<in> set vis \<Longrightarrow> P st vis \<Longrightarrow> P (x # st) vis"
    and new: "\<And>x st vis. x \<notin> set vis \<Longrightarrow> good x \<Longrightarrow>
                P (rev (succs x) @ st) (add x vis) \<Longrightarrow> P (x # st) vis"
    and bad: "\<And>x st vis. x \<notin> set vis \<Longrightarrow> \<not> good x \<Longrightarrow> P (x # st) vis"
  shows "P st vis"
proof (induction "(st, vis)" arbitrary: st vis
    rule: wf_induct_rule [OF wf_measures [of "[\<lambda>(st, vis). card (universe - set vis), \<lambda>(st, vis). length st]"]])
  case 1
  show ?case
  proof (cases st)
    case Nil
    then show ?thesis by (simp add: assms(1))
  next
    case (Cons x st')
    consider (seen) "x \<in> set vis" | (new) "x \<notin> set vis" "good x" | (bad) "x \<notin> set vis" "\<not> good x"
      by blast
    then show ?thesis
    proof cases
      case seen
      with 1 Cons show ?thesis by (simp add: assms(2))
    next
      case bad
      with Cons show ?thesis by (simp add: assms(4))
    next
      case new
      have "((rev (succs x) @ st', add x vis), (st, vis))
              \<in> measures [\<lambda>(st, vis). card (universe - set vis), \<lambda>(st, vis). length st]"
      proof (cases "x \<in> universe")
        case True
        then have "card (universe - insert x (set vis)) < card (universe - set vis)"
          using new(1) finite_universe by (intro psubset_card_mono) auto
        then show ?thesis by (simp add: set_add)
      next
        case False
        then have "succs x = []" using succs_universe new(2) by blast
        moreover from False have "universe - insert x (set vis) = universe - set vis" by blast
        ultimately show ?thesis using Cons by (simp add: set_add)
      qed
      with 1 have "P (rev (succs x) @ st') (add x vis)" by blast
      with new Cons show ?thesis by (simp add: assms(3))
    qed
  qed
qed

lemma search_covers: "search st vis = Some V \<Longrightarrow> set st \<union> set vis \<subseteq> set V"
proof (induction st vis rule: search_induct)
  case (new x st vis)
  then show ?case by (auto simp: search_new set_add)
qed (auto simp: search_Nil search_seen search_bad)

lemma search_closed:
  assumes "search st vis = Some V"
    and "\<And>x y. x \<in> set vis \<Longrightarrow> edge x y \<Longrightarrow> y \<in> set vis \<union> set st"
  shows "x \<in> set V \<Longrightarrow> edge x y \<Longrightarrow> y \<in> set V"
  using assms
proof (induction st vis arbitrary: x y rule: search_induct)
  case (new z st vis)
  from new.prems(3) new.hyps have "search (rev (succs z) @ st) (add z vis) = Some V"
    by (simp add: search_new)
  moreover have "y \<in> set (add z vis) \<union> set (rev (succs z) @ st)"
    if "x \<in> set (add z vis)" "edge x y" for x y
    using that new.prems(4) by (auto simp: set_add)
  ultimately show ?case using new.IH new.prems(1,2) by blast
next
  case (seen z st vis)
  from seen.prems(3) seen.hyps have "search st vis = Some V" by (simp add: search_seen)
  moreover have "y \<in> set vis \<union> set st" if "x \<in> set vis" "edge x y" for x y
    using that seen.prems(4) [of x y] seen.hyps by auto
  ultimately show ?case using seen.IH seen.prems(1,2) by blast
qed (auto simp: search_Nil search_bad)

lemma search_sound:
  "search st vis = Some V \<Longrightarrow> x \<in> set V \<Longrightarrow> x \<in> set vis \<or> (\<exists>r \<in> set st. edge\<^sup>*\<^sup>* r x)"
proof (induction st vis rule: search_induct)
  case (new z st vis)
  then have "x \<in> set (add z vis) \<or> (\<exists>r \<in> set (rev (succs z) @ st). edge\<^sup>*\<^sup>* r x)"
    by (simp add: search_new)
  then show ?case by (auto simp: set_add intro: converse_rtranclp_into_rtranclp)
qed (auto simp: search_Nil search_seen search_bad)

lemma search_good:
  "search st vis = Some V \<Longrightarrow> x \<in> set V \<Longrightarrow> x \<in> set vis \<or> good x"
proof (induction st vis rule: search_induct)
  case (new z st vis)
  then have "x \<in> set (add z vis) \<or> good x" by (simp add: search_new)
  with new.hyps show ?case by (auto simp: set_add)
qed (auto simp: search_Nil search_seen search_bad)

lemma search_None:
  "search st vis = None \<Longrightarrow> \<exists>r \<in> set st. \<exists>x. edge\<^sup>*\<^sup>* r x \<and> \<not> good x"
proof (induction st vis rule: search_induct)
  case (new z st vis)
  then have "\<exists>r \<in> set (rev (succs z) @ st). \<exists>x. edge\<^sup>*\<^sup>* r x \<and> \<not> good x"
    by (simp add: search_new)
  then show ?case by (auto intro: converse_rtranclp_into_rtranclp)
qed (auto simp: search_Nil search_seen)

text \<open>A walk from an empty visited set returns exactly the reachable nodes.\<close>

theorem search_reachable:
  assumes "search st [] = Some V"
  shows "set V = {x. \<exists>r \<in> set st. edge\<^sup>*\<^sup>* r x}"
proof
  show "set V \<subseteq> {x. \<exists>r \<in> set st. edge\<^sup>*\<^sup>* r x}"
    using search_sound [OF assms] by auto
  have "x \<in> set V" if "edge\<^sup>*\<^sup>* r x" "r \<in> set st" for r x
    using that
  proof (induction rule: rtranclp_induct)
    case base
    with search_covers [OF assms] show ?case by auto
  next
    case (step y z)
    with search_closed [OF assms] show ?case by auto
  qed
  then show "{x. \<exists>r \<in> set st. edge\<^sup>*\<^sup>* r x} \<subseteq> set V" by auto
qed

text \<open>
  A second walk that starts from an already closed visited set adds exactly what its own
  stack reaches, and the result is closed again.
\<close>

lemma search_extend:
  assumes "search st vis = Some V"
    and closed: "\<And>x y. x \<in> set vis \<Longrightarrow> edge x y \<Longrightarrow> y \<in> set vis"
  shows "set V = set vis \<union> {x. \<exists>r \<in> set st. edge\<^sup>*\<^sup>* r x}"
    and "x \<in> set V \<Longrightarrow> edge x y \<Longrightarrow> y \<in> set V"
proof -
  have step: "x \<in> set V \<Longrightarrow> edge x y \<Longrightarrow> y \<in> set V" for x y
    using search_closed [OF assms(1)] closed by blast
  then show "x \<in> set V \<Longrightarrow> edge x y \<Longrightarrow> y \<in> set V" .
  have "x \<in> set V" if "edge\<^sup>*\<^sup>* r x" "r \<in> set st" for r x
    using that
  proof (induction rule: rtranclp_induct)
    case base
    with search_covers [OF assms(1)] show ?case by auto
  qed (auto intro: step)
  with search_covers [OF assms(1)] search_sound [OF assms(1)]
  show "set V = set vis \<union> {x. \<exists>r \<in> set st. edge\<^sup>*\<^sup>* r x}" by blast
qed

theorem search_succeeds_iff:
  "(\<exists>V. search st [] = Some V) \<longleftrightarrow> (\<forall>r \<in> set st. \<forall>x. edge\<^sup>*\<^sup>* r x \<longrightarrow> good x)"
proof
  assume "\<exists>V. search st [] = Some V"
  then obtain V where V: "search st [] = Some V" by blast
  show "\<forall>r \<in> set st. \<forall>x. edge\<^sup>*\<^sup>* r x \<longrightarrow> good x"
    using search_reachable [OF V] search_good [OF V] by auto
next
  assume "\<forall>r \<in> set st. \<forall>x. edge\<^sup>*\<^sup>* r x \<longrightarrow> good x"
  with search_None [of st "[]"] show "\<exists>V. search st [] = Some V" by fastforce
qed

end

section \<open>Transition systems\<close>

inductive reachable :: "('s \<Rightarrow> bool) \<Rightarrow> ('s \<Rightarrow> 's \<Rightarrow> bool) \<Rightarrow> 's \<Rightarrow> bool"
  for start :: "'s \<Rightarrow> bool" and step :: "'s \<Rightarrow> 's \<Rightarrow> bool" where
  reachable_start: "start s \<Longrightarrow> reachable start step s"
| reachable_step: "reachable start step s \<Longrightarrow> step s t \<Longrightarrow> reachable start step t"

locale transition_system =
  fixes start :: "'s \<Rightarrow> bool"
    and step :: "'s \<Rightarrow> 's \<Rightarrow> bool"
    and inv :: "'s \<Rightarrow> bool"
  assumes start_inv: "start s \<Longrightarrow> inv s"
    and step_inv: "inv s \<Longrightarrow> step s t \<Longrightarrow> inv t"
begin

theorem reachable_inv: "reachable start step s \<Longrightarrow> inv s"
  by (induction rule: reachable.induct) (auto intro: start_inv step_inv)

lemma steps_inv: "step\<^sup>*\<^sup>* s t \<Longrightarrow> inv s \<Longrightarrow> inv t"
  by (induction rule: rtranclp_induct) (auto intro: step_inv)

end

text \<open>A system in which every step uses up some of a finite amount of work ends.\<close>

locale terminating_system = transition_system +
  fixes work :: "'s \<Rightarrow> nat"
  assumes step_work: "inv s \<Longrightarrow> step s t \<Longrightarrow> work t < work s"
begin

lemma steps_bounded: "inv s \<Longrightarrow> (step ^^ n) s t \<Longrightarrow> n + work t \<le> work s"
proof (induction n arbitrary: t)
  case (Suc n)
  then obtain u where u: "(step ^^ n) s u" "step u t" by auto
  with Suc have "n + work u \<le> work s" by blast
  moreover have "inv u" using u(1) Suc.prems(1) steps_inv by (meson relpowp_imp_rtranclp)
  ultimately show ?case using step_work [OF _ u(2)] by fastforce
qed simp

end

end
