(* ===== verification/Task_Graph.thy ===== *)
theory Task_Graph
  imports Task_Schema Search "HOL-Library.Product_Lexorder"
begin

text \<open>
  The dependency graph of a task document (\<open>crates/nxr-task/src/graph.rs\<close>). An edge goes from a
  task to each entry of its \<open>dependsOn\<close>. \<open>subgraph\<close> and \<open>subgraph_union\<close> walk the edges with an
  explicit stack; the walk is an instance of \<open>reach_search\<close>, which gives that the nodes of the
  graph are exactly the tasks reachable from the roots.
\<close>

datatype GraphError =
    UnknownRoot string
  | MissingDependency string string
  | Cycle "string list"

record TaskGraph =
  tg_deps :: "(string, string list) btmap"

section \<open>Construction\<close>

fun node_deps_loop ::
  "tasks \<Rightarrow> string \<Rightarrow> string list \<Rightarrow> string list \<Rightarrow> (GraphError, string list) outcome" where
  "node_deps_loop ts name [] acc = Ok acc"
| "node_deps_loop ts name (dep # deps) acc =
     (if \<not> bt_contains ts dep then Err (MissingDependency name dep)
      else node_deps_loop ts name deps (insort_insert dep acc))"

fun from_tasks_loop ::
  "tasks \<Rightarrow> tasks \<Rightarrow> (string, string list) btmap \<Rightarrow>
     (GraphError, (string, string list) btmap) outcome" where
  "from_tasks_loop ts [] deps = Ok deps"
| "from_tasks_loop ts ((name, task) # rest) deps =
     bind (node_deps_loop ts name (td_depends_on task) [])
       (\<lambda>node_deps. from_tasks_loop ts rest (bt_insert name node_deps deps))"

definition from_tasks :: "tasks \<Rightarrow> (GraphError, TaskGraph) outcome" where
  "from_tasks ts = bind (from_tasks_loop ts ts []) (\<lambda>deps. Ok \<lparr>tg_deps = deps\<rparr>)"

text \<open>
  The stack is a list whose head is the top. Pushing a task's dependencies stops at the first
  one that is not defined.
\<close>

fun push_deps :: "tasks \<Rightarrow> string \<Rightarrow> string list \<Rightarrow> string list \<Rightarrow> (GraphError, string list) outcome"
where
  "push_deps ts name [] stack = Ok stack"
| "push_deps ts name (dep # deps) stack =
     (if \<not> bt_contains ts dep then Err (MissingDependency name dep)
      else push_deps ts name deps (dep # stack))"

text \<open>
  The walk of \<open>subgraph\<close> and \<open>subgraph_union\<close>; \<open>absent\<close> is the error for a popped name that is
  not defined, the only point where the two loops differ.
\<close>

function reach_loop ::
  "(string \<Rightarrow> GraphError) \<Rightarrow> tasks \<Rightarrow> string list \<Rightarrow> string list \<Rightarrow>
     (GraphError, string list) outcome" where
  "reach_loop absent ts [] seen = Ok seen"
| "reach_loop absent ts (name # stack) seen =
     (if name \<in> set seen then reach_loop absent ts stack seen
      else (case map_of ts name of
              None \<Rightarrow> Err (absent name)
            | Some task \<Rightarrow>
                (case push_deps ts name (td_depends_on task) stack of
                   Ok stack' \<Rightarrow> reach_loop absent ts stack' (insort_insert name seen)
                 | Err e \<Rightarrow> Err e
                 | Panic \<Rightarrow> Panic)))"
  by pat_completeness auto
termination
proof (relation "measures [\<lambda>(absent, ts, stack, seen). card (fst ` set ts - set seen),
                           \<lambda>(absent, ts, stack, seen). length stack]")
  fix absent :: "string \<Rightarrow> GraphError" and ts :: tasks and name stack seen task stack'
  assume "name \<notin> set seen" and "map_of ts name = Some task"
  then have "name \<in> fst ` set ts - set seen" by (metis DiffI domI dom_map_of_conv_image_fst)
  then have "card (fst ` set ts - insert name (set seen)) < card (fst ` set ts - set seen)"
    by (intro psubset_card_mono) auto
  then show "((absent, ts, stack', insort_insert name seen), absent, ts, name # stack, seen)
    \<in> measures [\<lambda>(absent, ts, stack, seen). card (fst ` set ts - set seen),
                \<lambda>(absent, ts, stack, seen). length stack]"
    by (simp add: set_insort_insert)
qed auto

declare reach_loop.simps(2) [simp del]

text \<open>The second loop of both: the sorted direct dependencies of every reached node.\<close>

definition collect_deps :: "tasks \<Rightarrow> string list \<Rightarrow> (string, string list) btmap" where
  "collect_deps ts seen =
     fold (\<lambda>name. bt_insert name
             (bs_of_list (case map_of ts name of None \<Rightarrow> [] | Some task \<Rightarrow> td_depends_on task)))
       seen []"

definition subgraph :: "tasks \<Rightarrow> string \<Rightarrow> (GraphError, TaskGraph) outcome" where
  "subgraph ts root =
     (if \<not> bt_contains ts root then Err (UnknownRoot root)
      else bind (reach_loop (\<lambda>name. MissingDependency root name) ts [root] [])
             (\<lambda>seen. Ok \<lparr>tg_deps = collect_deps ts seen\<rparr>))"

fun check_roots :: "tasks \<Rightarrow> string list \<Rightarrow> (GraphError, unit) outcome" where
  "check_roots ts [] = Ok ()"
| "check_roots ts (root # roots) =
     (if \<not> bt_contains ts root then Err (UnknownRoot root) else check_roots ts roots)"

fun union_loop :: "tasks \<Rightarrow> string list \<Rightarrow> string list \<Rightarrow> (GraphError, string list) outcome" where
  "union_loop ts [] seen = Ok seen"
| "union_loop ts (root # roots) seen =
     bind (reach_loop UnknownRoot ts [root] seen) (union_loop ts roots)"

definition subgraph_union :: "tasks \<Rightarrow> string list \<Rightarrow> (GraphError, TaskGraph) outcome" where
  "subgraph_union ts roots =
     (if roots = [] then Err (UnknownRoot [])
      else bind (check_roots ts roots) (\<lambda>_.
           bind (union_loop ts roots []) (\<lambda>seen.
             Ok \<lparr>tg_deps = collect_deps ts seen\<rparr>)))"

section \<open>Queries\<close>

definition node_ids :: "TaskGraph \<Rightarrow> string list" where
  "node_ids g = bt_keys (tg_deps g)"

definition dependencies :: "TaskGraph \<Rightarrow> string \<Rightarrow> string list option" where
  "dependencies g i = map_of (tg_deps g) i"

definition graph_len :: "TaskGraph \<Rightarrow> nat" where
  "graph_len g = length (tg_deps g)"

definition precedence_edges :: "TaskGraph \<Rightarrow> (string \<times> string) list" where
  "precedence_edges g =
     sort (concat (map (\<lambda>(dependent, deps). map (\<lambda>dep. (dep, dependent)) deps) (tg_deps g)))"

section \<open>Rendering\<close>

definition render_text :: "string list \<Rightarrow> string" where
  "render_text order = (if order = [] then [] else join [CHR 0x0A] order @ [CHR 0x0A])"

definition mermaid_node_id :: "string \<Rightarrow> string" where
  "mermaid_node_id i = [CHR 0x22] @ replace_char (CHR 0x22) ''#quot;'' i @ [CHR 0x22]"

definition render_mermaid :: "TaskGraph \<Rightarrow> string" where
  "render_mermaid g =
     ''flowchart TD'' @ [CHR 0x0A] @
     concat (map (\<lambda>i. ''  '' @ mermaid_node_id i @ [CHR 0x0A]) (node_ids g)) @
     concat (map (\<lambda>(dep, dependent).
        ''  '' @ mermaid_node_id dep @ '' --> '' @ mermaid_node_id dependent @ [CHR 0x0A])
        (precedence_edges g))"

definition dot_node_id :: "string \<Rightarrow> string" where
  "dot_node_id i =
     [CHR 0x22] @
     replace_char (CHR 0x22) [CHR 0x5C, CHR 0x22]
       (replace_char (CHR 0x5C) [CHR 0x5C, CHR 0x5C] i) @
     [CHR 0x22]"

definition render_dot :: "TaskGraph \<Rightarrow> string" where
  "render_dot g =
     ''digraph {'' @ [CHR 0x0A] @ ''  rankdir=TD;'' @ [CHR 0x0A] @
     concat (map (\<lambda>i. ''  '' @ dot_node_id i @ '';'' @ [CHR 0x0A]) (node_ids g)) @
     concat (map (\<lambda>(dep, dependent).
        ''  '' @ dot_node_id dep @ '' -> '' @ dot_node_id dependent @ '';'' @ [CHR 0x0A])
        (precedence_edges g)) @
     ''}'' @ [CHR 0x0A]"

section \<open>What the graph contains\<close>

definition task_succs :: "tasks \<Rightarrow> string \<Rightarrow> string list" where
  "task_succs ts x = (case map_of ts x of None \<Rightarrow> [] | Some task \<Rightarrow> td_depends_on task)"

definition task_ok :: "tasks \<Rightarrow> string \<Rightarrow> bool" where
  "task_ok ts x \<longleftrightarrow>
     (case map_of ts x of None \<Rightarrow> False | Some task \<Rightarrow> list_all (bt_contains ts) (td_depends_on task))"

text \<open>\<open>task_reach ts roots\<close>: the roots and their transitive \<open>dependsOn\<close> ancestors.\<close>

definition task_reach :: "tasks \<Rightarrow> string list \<Rightarrow> string set" where
  "task_reach ts roots = {x. \<exists>r \<in> set roots. (\<lambda>x y. y \<in> set (task_succs ts x))\<^sup>*\<^sup>* r x}"

lemma push_deps_eq:
  "push_deps ts name deps st =
     (case find (\<lambda>d. \<not> bt_contains ts d) deps of
        None \<Rightarrow> Ok (rev deps @ st) | Some d \<Rightarrow> Err (MissingDependency name d))"
  by (induction deps arbitrary: st) (auto split: option.splits)

lemma find_all_contained:
  "list_all P xs \<longleftrightarrow> find (\<lambda>x. \<not> P x) xs = None"
  by (auto simp: find_None_iff list_all_iff)

lemma reach_loop_step:
  assumes "x \<notin> set vis"
  shows "task_ok ts x \<Longrightarrow> reach_loop absent ts (x # st) vis =
           reach_loop absent ts (rev (task_succs ts x) @ st) (insort_insert x vis)"
    and "\<not> task_ok ts x \<Longrightarrow> \<exists>e. reach_loop absent ts (x # st) vis = Err e"
  using assms
  by (auto simp: reach_loop.simps(2) task_ok_def task_succs_def push_deps_eq find_all_contained split: option.splits)

definition reached :: "(GraphError, string list) outcome \<Rightarrow> string list option" where
  "reached r = (case r of Ok V \<Rightarrow> Some V | _ \<Rightarrow> None)"

interpretation walk: reach_search "task_succs ts" "task_ok ts" "fst ` set ts" insort_insert
  "\<lambda>st vis. reached (reach_loop absent ts st vis)" for ts absent
proof unfold_locales
  fix x st and vis :: "string list"
  show "task_succs ts x \<noteq> [] \<Longrightarrow> task_ok ts x \<Longrightarrow> x \<in> fst ` set ts"
    by (auto simp: task_succs_def split: option.splits) (metis domI dom_map_of_conv_image_fst)
  show "x \<notin> set vis \<Longrightarrow> task_ok ts x \<Longrightarrow>
      reached (reach_loop absent ts (x # st) vis) =
      reached (reach_loop absent ts (rev (task_succs ts x) @ st) (insort_insert x vis))"
    using reach_loop_step(1) [of x vis ts absent st] by simp
  show "x \<notin> set vis \<Longrightarrow> \<not> task_ok ts x \<Longrightarrow> reached (reach_loop absent ts (x # st) vis) = None"
    using reach_loop_step(2) [of x vis ts absent st] by (auto simp: reached_def)
qed (auto simp: reached_def set_insort_insert reach_loop.simps(2))

lemma reach_loop_no_panic: "reach_loop absent ts st vis \<noteq> Panic"
proof (induction absent ts st vis rule: reach_loop.induct)
  case (2 absent ts name stack seen)
  then show ?case by (auto simp: push_deps_eq reach_loop.simps(2) split: option.splits)
qed simp

text \<open>Every name on the stack is defined, so the only error is an undefined dependency.\<close>

lemma reach_loop_Err:
  assumes "reach_loop absent ts st vis = Err e" and "set st \<subseteq> dom (map_of ts)"
  shows "\<exists>t d task r. e = MissingDependency t d \<and> r \<in> set st \<and>
           (\<lambda>x y. y \<in> set (task_succs ts x))\<^sup>*\<^sup>* r t \<and>
           map_of ts t = Some task \<and> d \<in> set (td_depends_on task) \<and> map_of ts d = None"
  using assms
proof (induction absent ts st vis rule: reach_loop.induct)
  case (2 absent ts name stack seen)
  let ?E = "\<lambda>x y. y \<in> set (task_succs ts x)"
  show ?case
  proof (cases "name \<in> set seen")
    case True
    with "2.prems" "2.IH"(1) show ?thesis by (fastforce simp: reach_loop.simps(2))
  next
    case False
    from "2.prems"(2) obtain task where task: "map_of ts name = Some task" by auto
    show ?thesis
    proof (cases "find (\<lambda>d. \<not> bt_contains ts d) (td_depends_on task)")
      case None
      then have push: "push_deps ts name (td_depends_on task) stack = Ok (rev (td_depends_on task) @ stack)"
        by (simp add: push_deps_eq)
      from None have "set (rev (td_depends_on task) @ stack) \<subseteq> dom (map_of ts)"
        using "2.prems"(2) by (auto simp: find_None_iff)
      moreover from "2.prems"(1) False task push
      have "reach_loop absent ts (rev (td_depends_on task) @ stack) (insort_insert name seen) = Err e"
        by (simp add: reach_loop.simps(2))
      ultimately obtain t d task' r where IH: "e = MissingDependency t d"
        "r \<in> set (rev (td_depends_on task) @ stack)" "?E\<^sup>*\<^sup>* r t"
        "map_of ts t = Some task'" "d \<in> set (td_depends_on task')" "map_of ts d = None"
        using "2.IH"(2) [OF False task push] by blast
      then have "?E\<^sup>*\<^sup>* name t \<or> r \<in> set stack"
        using task by (auto simp: task_succs_def intro: converse_rtranclp_into_rtranclp)
      with IH show ?thesis by auto
    next
      case (Some d)
      with "2.prems"(1) False task have "e = MissingDependency name d"
        by (simp add: push_deps_eq reach_loop.simps(2))
      moreover from Some have "d \<in> set (td_depends_on task)" "map_of ts d = None"
        by (auto simp: find_Some_iff dom_def)
      ultimately show ?thesis using task by fastforce
    qed
  qed
qed simp

lemma union_loop_Ok:
  assumes "union_loop ts roots vis = Ok V"
    and "\<And>x y. x \<in> set vis \<Longrightarrow> y \<in> set (task_succs ts x) \<Longrightarrow> y \<in> set vis"
  shows "set V = set vis \<union> task_reach ts roots"
  using assms
proof (induction roots arbitrary: vis)
  case Nil
  then show ?case by (simp add: task_reach_def)
next
  case (Cons r roots)
  from Cons.prems(1) obtain W where W: "reach_loop UnknownRoot ts [r] vis = Ok W"
    and V: "union_loop ts roots W = Ok V" by (auto simp: outcome_simps)
  from W have "reached (reach_loop UnknownRoot ts [r] vis) = Some W" by (simp add: reached_def)
  note ext = walk.search_extend [OF this]
  have "set V = set W \<union> task_reach ts roots"
    by (rule Cons.IH [OF V]) (rule ext(2), rule Cons.prems(2))
  moreover have "set W = set vis \<union> task_reach ts [r]"
    using ext(1) Cons.prems(2) by (simp add: task_reach_def)
  ultimately show ?case by (auto simp: task_reach_def)
qed

lemma union_loop_sorted: "union_loop ts roots vis = Ok V \<Longrightarrow> bs_wf vis \<Longrightarrow> bs_wf V"
proof (induction roots arbitrary: vis)
  case (Cons r roots)
  have "reach_loop absent ts st vis = Ok W \<Longrightarrow> bs_wf vis \<Longrightarrow> bs_wf W" for absent st vis W
    by (induction absent ts st vis rule: reach_loop.induct)
      (auto simp: reach_loop.simps(2) split: if_splits option.splits outcome.splits)
  with Cons show ?case by (auto simp: outcome_simps)
qed simp

lemma union_loop_good:
  assumes "union_loop ts roots vis = Ok V" and "\<And>x. x \<in> set vis \<Longrightarrow> task_ok ts x"
  shows "x \<in> set V \<Longrightarrow> task_ok ts x"
  using assms
proof (induction roots arbitrary: vis)
  case (Cons r roots)
  from Cons.prems(2) obtain W where W: "reach_loop UnknownRoot ts [r] vis = Ok W"
    and V: "union_loop ts roots W = Ok V" by (auto simp: outcome_simps)
  from W have "reached (reach_loop UnknownRoot ts [r] vis) = Some W" by (simp add: reached_def)
  with Cons.prems(3) have "x \<in> set W \<Longrightarrow> task_ok ts x" for x
    using walk.search_good by blast
  with Cons.IH V Cons.prems(1) show ?case by blast
qed simp

lemma union_loop_no_panic: "union_loop ts roots vis \<noteq> Panic"
  by (induction roots arbitrary: vis) (auto simp: outcome_simps reach_loop_no_panic)

lemma union_loop_Err:
  assumes "union_loop ts roots vis = Err e" and "set roots \<subseteq> dom (map_of ts)"
  shows "\<exists>t d task. e = MissingDependency t d \<and> t \<in> task_reach ts roots \<and>
           map_of ts t = Some task \<and> d \<in> set (td_depends_on task) \<and> map_of ts d = None"
  using assms
proof (induction roots arbitrary: vis)
  case (Cons r roots)
  from Cons.prems(1) consider "reach_loop UnknownRoot ts [r] vis = Err e"
    | W where "union_loop ts roots W = Err e" by (auto simp: outcome_simps)
  then show ?case
  proof cases
    case 1
    with Cons.prems(2) show ?thesis by (auto dest!: reach_loop_Err simp: task_reach_def)
  next
    case 2
    with Cons show ?thesis by (fastforce simp: task_reach_def)
  qed
qed simp

lemma check_roots_Ok: "check_roots ts roots = Ok () \<longleftrightarrow> set roots \<subseteq> dom (map_of ts)"
  by (induction roots) auto

lemma check_roots_Err:
  "check_roots ts roots = Err e \<Longrightarrow> \<exists>r \<in> set roots. map_of ts r = None \<and> e = UnknownRoot r"
  by (induction roots) (auto split: if_splits simp: domIff)

lemma check_roots_no_panic: "check_roots ts roots \<noteq> Panic"
  by (induction roots) auto

lemma map_of_collect_deps:
  "map_of (collect_deps ts seen) x =
     (if x \<in> set seen then Some (bs_of_list (task_succs ts x)) else None)"
  unfolding collect_deps_def task_succs_def by (simp add: btm.look_fold_fun)

lemma bt_wf_collect_deps: "bt_wf (collect_deps ts seen)"
proof -
  have "bt_wf m \<Longrightarrow> bt_wf (fold (\<lambda>x. bt_insert x (g x)) seen m)" for g and m :: "(string, string list) btmap"
    using btm.invar_fold [where f = "\<lambda>x. x"] by blast
  then show ?thesis by (simp add: collect_deps_def)
qed

text \<open>
  The well-formedness that the planner and the plan builder rely on: node ids and the
  dependencies of each node are strictly sorted, and every dependency is a node.
\<close>

definition graph_wf :: "TaskGraph \<Rightarrow> bool" where
  "graph_wf g \<longleftrightarrow> bt_wf (tg_deps g) \<and>
     (\<forall>x deps. dependencies g x = Some deps \<longrightarrow> bs_wf deps \<and> set deps \<subseteq> set (node_ids g))"

lemma set_node_ids: "set (node_ids g) = dom (dependencies g)"
  by (auto simp: node_ids_def dependencies_def set_bt_keys)

lemma subgraph_union_Ok:
  assumes "subgraph_union ts roots = Ok g"
  shows "roots \<noteq> []" and "set roots \<subseteq> dom (map_of ts)"
    and "set (node_ids g) = task_reach ts roots"
    and "x \<in> task_reach ts roots \<Longrightarrow> dependencies g x = Some (bs_of_list (task_succs ts x))"
    and "x \<in> task_reach ts roots \<Longrightarrow> task_ok ts x"
    and "graph_wf g"
proof -
  from assms obtain V where V: "union_loop ts roots [] = Ok V" "g = \<lparr>tg_deps = collect_deps ts V\<rparr>"
    and c: "check_roots ts roots = Ok ()" and ne: "roots \<noteq> []"
    by (auto simp: subgraph_union_def outcome_simps split: if_splits)
  from ne show "roots \<noteq> []" .
  from c show "set roots \<subseteq> dom (map_of ts)" by (simp add: check_roots_Ok)
  have set_V: "set V = task_reach ts roots" using union_loop_Ok [OF V(1)] by simp
  show nodes: "set (node_ids g) = task_reach ts roots"
    by (auto simp: set_node_ids dependencies_def V(2) map_of_collect_deps set_V split: if_splits)
  show deps: "x \<in> task_reach ts roots \<Longrightarrow> dependencies g x = Some (bs_of_list (task_succs ts x))" for x
    by (simp add: dependencies_def V(2) map_of_collect_deps set_V)
  show "x \<in> task_reach ts roots \<Longrightarrow> task_ok ts x"
    using union_loop_good [OF V(1)] set_V by simp
  have "set (task_succs ts x) \<subseteq> task_reach ts roots" if "x \<in> task_reach ts roots" for x
    using that by (auto simp: task_reach_def intro: rtranclp.rtrancl_into_rtrancl)
  moreover have "dependencies g x = Some deps \<Longrightarrow> x \<in> task_reach ts roots" for x deps
    by (auto simp: dependencies_def V(2) map_of_collect_deps set_V split: if_splits)
  ultimately show "graph_wf g"
    using nodes deps by (fastforce simp: graph_wf_def V(2) bt_wf_collect_deps)
qed

lemma subgraph_union_Err:
  assumes "subgraph_union ts roots = Err e"
  shows "(roots = [] \<and> e = UnknownRoot []) \<or> (\<exists>r \<in> set roots. map_of ts r = None \<and> e = UnknownRoot r) \<or>
         (\<exists>t d task. e = MissingDependency t d \<and> t \<in> task_reach ts roots \<and>
            map_of ts t = Some task \<and> d \<in> set (td_depends_on task) \<and> map_of ts d = None)"
proof (cases "roots = []")
  case True
  with assms show ?thesis by (simp add: subgraph_union_def)
next
  case False
  with assms consider "check_roots ts roots = Err e"
    | "check_roots ts roots = Ok ()" "union_loop ts roots [] = Err e"
    by (auto simp: subgraph_union_def outcome_simps)
  then show ?thesis
    using check_roots_Err [of ts roots e] union_loop_Err [of ts roots "[]" e] check_roots_Ok
    by cases blast+
qed

lemma subgraph_union_no_panic: "subgraph_union ts roots \<noteq> Panic"
  by (auto simp: subgraph_union_def outcome_simps union_loop_no_panic check_roots_no_panic)

lemma reach_loop_absent:
  "set st \<subseteq> dom (map_of ts) \<Longrightarrow> reach_loop absent ts st vis = reach_loop absent' ts st vis"
proof (induction absent ts st vis rule: reach_loop.induct)
  case (2 absent ts name stack seen)
  from "2.prems" obtain task where task: "map_of ts name = Some task" by auto
  have "set stack' \<subseteq> dom (map_of ts)"
    if "push_deps ts name (td_depends_on task) stack = Ok stack'" for stack'
    using that "2.prems" by (auto simp: push_deps_eq find_None_iff split: option.splits)
  with 2 task show ?case by (auto simp: reach_loop.simps(2) split: outcome.splits)
qed simp

text \<open>
  \<open>TaskGraph::subgraph\<close> for one root and \<open>TaskGraph::subgraph_union\<close> for the one-element list
  of roots agree on every input, errors included, although the two functions have separate loops.
\<close>

lemma subgraph_eq_union: "subgraph ts root = subgraph_union ts [root]"
proof (cases "map_of ts root")
  case None
  then show ?thesis by (simp add: subgraph_def subgraph_union_def domIff)
next
  case (Some task)
  then have "reach_loop (MissingDependency root) ts [root] [] = reach_loop UnknownRoot ts [root] []"
    by (intro reach_loop_absent) auto
  with Some show ?thesis
    by (cases "reach_loop UnknownRoot ts [root] []")
      (auto simp: subgraph_def subgraph_union_def domIff)
qed

text \<open>
  \<open>TaskGraph::subgraph_union\<close> never panics. On success its nodes are exactly the roots and
  their transitive dependencies, each with its direct dependencies sorted and without duplicates,
  and every dependency is again a node. It fails only for an empty list of roots, for a root that
  is not defined, or for a reachable task that lists an undefined dependency, and the error names it.
\<close>

lemma subgraph_union_correct:
  "case subgraph_union ts roots of
     Ok g \<Rightarrow> roots \<noteq> [] \<and> set roots \<subseteq> dom (map_of ts) \<and>
       set (node_ids g) = task_reach ts roots \<and> graph_wf g \<and>
       (\<forall>x \<in> task_reach ts roots.
          dependencies g x = Some (bs_of_list (task_succs ts x)) \<and> set (task_succs ts x) \<subseteq> dom (map_of ts))
   | Err e \<Rightarrow>
       roots = [] \<and> e = UnknownRoot [] \<or>
       (\<exists>r \<in> set roots. map_of ts r = None \<and> e = UnknownRoot r) \<or>
       (\<exists>t d task. e = MissingDependency t d \<and> t \<in> task_reach ts roots \<and>
          map_of ts t = Some task \<and> d \<in> set (td_depends_on task) \<and> map_of ts d = None)
   | Panic \<Rightarrow> False"
proof (cases "subgraph_union ts roots")
  case (Ok g)
  have "set (task_succs ts x) \<subseteq> dom (map_of ts)" if "task_ok ts x" for x
    using that by (auto simp: task_ok_def task_succs_def list_all_iff split: option.splits)
  with Ok subgraph_union_Ok [OF Ok] show ?thesis by simp
next
  case (Err e)
  with subgraph_union_Err [OF Err] show ?thesis by simp
next
  case Panic
  with subgraph_union_no_panic show ?thesis by blast
qed

lemma subgraph_union_correct_example:
  "\<exists>g. subgraph_union
         [(''a'', TaskDefinition_new ''x''), (''b'', (TaskDefinition_new ''y'')\<lparr>td_depends_on := [''a'', ''a'']\<rparr>),
          (''c'', TaskDefinition_new ''z'')] [''b''] = Ok g \<and>
       node_ids g = [''a'', ''b''] \<and> dependencies g ''b'' = Some [''a''] \<and> graph_wf g"
proof -
  let ?ts = "[(''a'', TaskDefinition_new ''x''),
     (''b'', (TaskDefinition_new ''y'')\<lparr>td_depends_on := [''a'', ''a'']\<rparr>), (''c'', TaskDefinition_new ''z'')]"
  let ?g = "\<lparr>tg_deps = [(''a'', []), (''b'', [''a''])]\<rparr>"
  have eq: "subgraph_union ?ts [''b''] = Ok ?g"
    by (simp add: subgraph_union_def reach_loop.simps(2) TaskDefinition_new_def collect_deps_def
        bs_of_list_def insort_insert_key_def)
  then have "graph_wf ?g" using subgraph_union_correct [where ts = ?ts and roots = "[''b'']"] by simp
  with eq show ?thesis by (simp add: node_ids_def bt_keys_def dependencies_def)
qed

text \<open>The whole-document graph: every task with its sorted dependencies.\<close>

lemma node_deps_loop_eq:
  "node_deps_loop ts name deps acc =
     (case find (\<lambda>d. \<not> bt_contains ts d) deps of
        None \<Rightarrow> Ok (fold insort_insert deps acc) | Some d \<Rightarrow> Err (MissingDependency name d))"
  by (induction deps arbitrary: acc) (auto split: option.splits)

lemma from_tasks_loop_Ok:
  assumes "from_tasks_loop ts l m = Ok deps"
  shows "map_of deps x =
     (case find (\<lambda>p. fst p = x) (rev l) of Some p \<Rightarrow> Some (bs_of_list (td_depends_on (snd p))) | None \<Rightarrow> map_of m x)"
    and "p \<in> set l \<Longrightarrow> list_all (bt_contains ts) (td_depends_on (snd p))"
proof -
  have "deps = fold (\<lambda>p. bt_insert (fst p) (bs_of_list (td_depends_on (snd p)))) l m \<and>
        (\<forall>p \<in> set l. list_all (bt_contains ts) (td_depends_on (snd p)))"
    using assms
    by (induction ts l m rule: from_tasks_loop.induct)
      (auto simp: outcome_simps node_deps_loop_eq bs_of_list_def find_all_contained split: option.splits)
  then show "map_of deps x =
     (case find (\<lambda>p. fst p = x) (rev l) of Some p \<Rightarrow> Some (bs_of_list (td_depends_on (snd p))) | None \<Rightarrow> map_of m x)"
    and "p \<in> set l \<Longrightarrow> list_all (bt_contains ts) (td_depends_on (snd p))"
    by (simp_all add: btm.look_fold)
qed

section \<open>Quoted node names\<close>

text \<open>A reader of DOT strings: a backslash takes the next character literally.\<close>

fun dot_unquote :: "string \<Rightarrow> string" where
  "dot_unquote [] = []"
| "dot_unquote [c] = [c]"
| "dot_unquote (c # d # s) =
     (if c = CHR 0x5C then d # dot_unquote s else c # dot_unquote (d # s))"

lemma dot_unquote_plain:
  "c \<noteq> CHR 0x5C \<Longrightarrow> dot_unquote (c # s) = c # dot_unquote s"
  by (cases s) auto

lemma dot_escape_unquote:
  "dot_unquote (replace_char (CHR 0x22) [CHR 0x5C, CHR 0x22]
     (replace_char (CHR 0x5C) [CHR 0x5C, CHR 0x5C] i)) = i"
proof (induction i)
  case (Cons c i)
  then show ?case
    by (cases "c = CHR 0x5C"; cases "c = CHR 0x22") (auto simp: replace_char_def dot_unquote_plain)
qed (simp add: replace_char_def)

text \<open>
  The quoted DOT name of a task determines the task id: distinct tasks are never drawn as one
  node, and a reader that undoes backslash escapes recovers the id.
\<close>

lemma dot_node_id_inj: "dot_node_id i = dot_node_id j \<longleftrightarrow> i = j"
  unfolding dot_node_id_def using dot_escape_unquote by (metis append_same_eq same_append_eq)

end
