(* ===== verification/Planner.thy ===== *)
theory Planner
  imports Task_Graph
begin

text \<open>
  Serial planning (\<open>crates/nxr-task/src/planner.rs\<close>): Kahn's algorithm with a sorted ready set, and
  the search for a cycle to report. The plan is the lexicographically least topological order;
  there is none exactly when the search returns a real cycle; the \<open>expect\<close> and the unsigned
  decrement never panic.
\<close>

section \<open>Kahn's algorithm\<close>

type_synonym indegrees = "(string, nat) btmap"
type_synonym dependents = "(string, string list) btmap"

definition init_indegree :: "TaskGraph \<Rightarrow> indegrees" where
  "init_indegree g = fold (\<lambda>i. bt_insert i 0) (node_ids g) []"

definition init_dependents :: "TaskGraph \<Rightarrow> dependents" where
  "init_dependents g = fold bt_or_default (node_ids g) []"

definition count_edge :: "string \<Rightarrow> string \<Rightarrow> indegrees \<times> dependents \<Rightarrow> indegrees \<times> dependents" where
  "count_edge dependent dep = (\<lambda>(indegree, dependents).
     (bt_modify dependent Suc indegree, bt_set_insert dep dependent dependents))"

definition count_edges :: "TaskGraph \<Rightarrow> indegrees \<times> dependents" where
  "count_edges g =
     fold (\<lambda>dependent. case dependencies g dependent of
             None \<Rightarrow> id | Some deps \<Rightarrow> fold (count_edge dependent) deps)
       (node_ids g) (init_indegree g, init_dependents g)"

text \<open>
  The inner loop over the children of a finished node. \<open>None\<close> is a panic: a child with no
  entry (\<open>expect\<close>) or a decrement of 0.
\<close>

fun release_children ::
  "string list \<Rightarrow> indegrees \<Rightarrow> string list \<Rightarrow> (indegrees \<times> string list) option" where
  "release_children [] indegree ready = Some (indegree, ready)"
| "release_children (child # children) indegree ready =
     (case map_of indegree child of
        None \<Rightarrow> None
      | Some 0 \<Rightarrow> None
      | Some (Suc deg) \<Rightarrow>
          release_children children (bt_modify child (\<lambda>d. d - 1) indegree)
            (if deg = 0 then insort_insert child ready else ready))"

lemma sum_bt_modify_le:
  "sum_list (map snd (bt_modify k (\<lambda>d. d - 1) (m :: indegrees))) \<le> sum_list (map snd m)"
  by (induction m) (auto simp: bt_modify_def)

lemma sum_bt_modify_less:
  "map_of (m :: indegrees) k = Some (Suc d) \<Longrightarrow>
     Suc (sum_list (map snd (bt_modify k (\<lambda>d. d - 1) m))) \<le> sum_list (map snd m)"
proof (induction m)
  case (Cons p m)
  obtain k' v where p: "p = (k', v)" by fastforce
  show ?case
  proof (cases "k' = k")
    case True
    with Cons.prems p have "v = Suc d" by simp
    with True p show ?thesis using sum_bt_modify_le [of k m] by (simp add: bt_modify_def)
  next
    case False
    with Cons p show ?thesis by (simp add: bt_modify_def)
  qed
qed simp

lemma release_children_measure:
  "release_children children indegree ready = Some (indegree', ready') \<Longrightarrow>
     2 * sum_list (map snd indegree') + length ready' \<le> 2 * sum_list (map snd indegree) + length ready"
proof (induction children indegree ready rule: release_children.induct)
  case (2 child children indegree ready)
  then obtain deg where deg: "map_of indegree child = Some (Suc deg)"
    by (auto split: option.splits nat.splits)
  have "length (insort_insert child ready) \<le> Suc (length ready)"
    by (simp add: insort_insert_key_def)
  with 2 deg sum_bt_modify_less [OF deg] show ?case by (fastforce split: if_splits)
qed simp

function kahn_loop ::
  "dependents \<Rightarrow> indegrees \<Rightarrow> string list \<Rightarrow> string list \<Rightarrow> (indegrees \<times> string list) option" where
  "kahn_loop dpts indegree [] order = Some (indegree, order)"
| "kahn_loop dpts indegree (i # ready) order =
     (case map_of dpts i of
        None \<Rightarrow> kahn_loop dpts indegree (removeAll i ready) (order @ [i])
      | Some children \<Rightarrow>
          (case release_children children indegree (removeAll i ready) of
             None \<Rightarrow> None
           | Some (indegree', ready') \<Rightarrow> kahn_loop dpts indegree' ready' (order @ [i])))"
  by pat_completeness auto
termination
proof (relation "measure (\<lambda>(dpts, indegree, ready, order). 2 * sum_list (map snd indegree) + length ready)")
  fix dpts :: dependents and indegree :: indegrees and i ready and order children :: "string list"
    and indegree' ready' and p :: "indegrees \<times> string list"
  assume "release_children children indegree (removeAll i ready) = Some p" "(indegree', ready') = p"
  then have "2 * sum_list (map snd indegree') + length ready'
      \<le> 2 * sum_list (map snd indegree) + length (removeAll i ready)"
    using release_children_measure by blast
  also have "\<dots> \<le> 2 * sum_list (map snd indegree) + length ready" by simp
  finally show "((dpts, indegree', ready', order @ [i]), dpts, indegree, i # ready, order)
      \<in> measure (\<lambda>(dpts, indegree, ready, order). 2 * sum_list (map snd indegree) + length ready)"
    by simp
qed (auto simp: le_imp_less_Suc length_removeAll_less_eq)

section \<open>Finding a cycle\<close>

text \<open>
  \<open>dfs_cycle\<close> restores \<open>visiting\<close> and \<open>stack\<close> before it returns \<open>None\<close>, and its callers return at
  once on \<open>Some\<close>, so both are passed by value. The stack grows at its end.
\<close>

definition position :: "string \<Rightarrow> string list \<Rightarrow> nat option" where
  "position x xs = (let n = length (takeWhile (\<lambda>y. y \<noteq> x) xs) in if n < length xs then Some n else None)"

function (sequential)
  dfs_cycle :: "TaskGraph \<Rightarrow> string list \<Rightarrow> string \<Rightarrow> string list \<Rightarrow> string list \<Rightarrow> string list option"
and
  dfs_deps :: "TaskGraph \<Rightarrow> string list \<Rightarrow> string list \<Rightarrow> string list \<Rightarrow> string list \<Rightarrow> string list option"
where
  "dfs_cycle g remaining node visiting stack =
     (if node \<notin> set remaining then None
      else if node \<in> set visiting then
        Some (drop (case position node stack of None \<Rightarrow> 0 | Some n \<Rightarrow> n) stack @ [node])
      else (case dependencies g node of
              None \<Rightarrow> None
            | Some deps \<Rightarrow>
                dfs_deps g remaining deps (insort_insert node visiting) (stack @ [node])))"
| "dfs_deps g remaining [] visiting stack = None"
| "dfs_deps g remaining (dep # deps) visiting stack =
     (if dep \<notin> set remaining then dfs_deps g remaining deps visiting stack
      else (case dfs_cycle g remaining dep visiting stack of
              Some path \<Rightarrow> Some path
            | None \<Rightarrow> dfs_deps g remaining deps visiting stack))"
  by pat_completeness auto
termination
proof (relation "measures
    [\<lambda>a. case a of Inl (g, r, node, v, s) \<Rightarrow> card (set r - set v) | Inr (g, r, deps, v, s) \<Rightarrow> card (set r - set v),
     \<lambda>a. case a of Inl _ \<Rightarrow> 0 | Inr (g, r, deps, v, s) \<Rightarrow> length deps]")
  fix g :: TaskGraph and remaining node and visiting stack deps :: "string list"
  assume "\<not> node \<notin> set remaining" and "node \<notin> set visiting"
  then have "card (set remaining - insert node (set visiting)) < card (set remaining - set visiting)"
    by (intro psubset_card_mono) auto
  then show "(Inr (g, remaining, deps, insort_insert node visiting, stack @ [node]),
       Inl (g, remaining, node, visiting, stack)) \<in> measures
    [\<lambda>a. case a of Inl (g, r, node, v, s) \<Rightarrow> card (set r - set v) | Inr (g, r, deps, v, s) \<Rightarrow> card (set r - set v),
     \<lambda>a. case a of Inl _ \<Rightarrow> 0 | Inr (g, r, deps, v, s) \<Rightarrow> length deps]"
    by (simp add: set_insort_insert)
qed auto

fun first_cycle :: "TaskGraph \<Rightarrow> string list \<Rightarrow> string list \<Rightarrow> string list option" where
  "first_cycle g remaining [] = None"
| "first_cycle g remaining (start # starts) =
     (case dfs_cycle g remaining start [] [] of
        Some path \<Rightarrow> Some path | None \<Rightarrow> first_cycle g remaining starts)"

definition find_cycle_path :: "TaskGraph \<Rightarrow> string list \<Rightarrow> string list" where
  "find_cycle_path g remaining =
     (case first_cycle g remaining remaining of Some path \<Rightarrow> path | None \<Rightarrow> remaining)"

section \<open>Plans\<close>

definition topo_serial :: "TaskGraph \<Rightarrow> (GraphError, string list) outcome" where
  "topo_serial g =
     (let (indegree, dpts) = count_edges g;
          ready = map fst (filter (\<lambda>(_, deg). deg = 0) indegree)
      in case kahn_loop dpts indegree ready [] of
           None \<Rightarrow> Panic
         | Some (indegree', order) \<Rightarrow>
             if length order \<noteq> graph_len g
             then Err (Cycle (find_cycle_path g (map fst (filter (\<lambda>(_, deg). 0 < deg) indegree'))))
             else Ok order)"

definition plan_serial_union :: "tasks \<Rightarrow> string list \<Rightarrow> (GraphError, string list) outcome" where
  "plan_serial_union ts roots = bind (subgraph_union ts roots) topo_serial"

definition plan_serial :: "tasks \<Rightarrow> string \<Rightarrow> (GraphError, string list) outcome" where
  "plan_serial ts root = plan_serial_union ts [root]"

definition plan_text :: "tasks \<Rightarrow> string \<Rightarrow> (GraphError, string) outcome" where
  "plan_text ts root = bind (plan_serial ts root) (\<lambda>order. Ok (render_text order))"

definition plan_mermaid :: "tasks \<Rightarrow> string \<Rightarrow> (GraphError, string) outcome" where
  "plan_mermaid ts root =
     bind (plan_serial ts root) (\<lambda>_.
     bind (subgraph ts root) (\<lambda>g. Ok (render_mermaid g)))"

section \<open>The tables of the algorithm\<close>

definition deps_of :: "TaskGraph \<Rightarrow> string \<Rightarrow> string list" where
  "deps_of g x = (case dependencies g x of None \<Rightarrow> [] | Some deps \<Rightarrow> deps)"

definition bt_set :: "('k, 'a list) btmap \<Rightarrow> 'k \<Rightarrow> 'a set" where
  "bt_set m k = (case map_of m k of None \<Rightarrow> {} | Some s \<Rightarrow> set s)"

definition sets_wf :: "('k, 'a::linorder list) btmap \<Rightarrow> bool" where
  "sets_wf m \<longleftrightarrow> (\<forall>k s. map_of m k = Some s \<longrightarrow> bs_wf s)"

lemma bt_set_insert_set:
  "bt_set (bt_set_insert k x m) k' = bt_set m k' \<union> (if k' = k then {x} else {})"
  by (auto simp: bt_set_def map_of_bt_set_insert set_insort_insert split: option.splits)

lemma sets_wf_insert [simp]: "sets_wf m \<Longrightarrow> sets_wf (bt_set_insert k x m)"
  by (auto simp: sets_wf_def map_of_bt_set_insert split: option.splits if_splits)

lemma dom_bt_set_insert: "dom (map_of (bt_set_insert k x m)) = insert k (dom (map_of m))"
  by (simp add: bt_set_insert_def)

lemma count_edge_apply:
  "count_edge y d (ind, dpt) = (bt_modify y Suc ind, bt_set_insert d y dpt)"
  by (simp add: count_edge_def)

lemma count_edge_fold:
  assumes "fold (count_edge y) deps (ind, dpt) = (ind', dpt')"
  shows "map_of ind' x = (if x = y then map_option (\<lambda>n. n + length deps) (map_of ind x) else map_of ind x)"
    and "bt_keys ind' = bt_keys ind"
    and "bt_set dpt' x = bt_set dpt x \<union> (if x \<in> set deps then {y} else {})"
    and "dom (map_of dpt') = dom (map_of dpt) \<union> set deps"
    and "sets_wf dpt \<Longrightarrow> sets_wf dpt'"
proof -
  have "map_of ind' x = (if x = y then map_option (\<lambda>n. n + length deps) (map_of ind x) else map_of ind x) \<and>
        bt_keys ind' = bt_keys ind \<and>
        bt_set dpt' x = bt_set dpt x \<union> (if x \<in> set deps then {y} else {}) \<and>
        dom (map_of dpt') = dom (map_of dpt) \<union> set deps \<and> (sets_wf dpt \<longrightarrow> sets_wf dpt')"
    using assms
  proof (induction deps arbitrary: ind dpt)
    case Nil
    then show ?case by (simp add: option.map_ident)
  next
    case (Cons d deps)
    from Cons.prems have "fold (count_edge y) deps (bt_modify y Suc ind, bt_set_insert d y dpt) = (ind', dpt')"
      by (simp add: count_edge_apply)
    from Cons.IH [OF this] show ?case
      by (auto simp: bt_set_insert_set dom_bt_set_insert option.map_comp comp_def)
  qed
  then show "map_of ind' x = (if x = y then map_option (\<lambda>n. n + length deps) (map_of ind x) else map_of ind x)"
    and "bt_keys ind' = bt_keys ind"
    and "bt_set dpt' x = bt_set dpt x \<union> (if x \<in> set deps then {y} else {})"
    and "dom (map_of dpt') = dom (map_of dpt) \<union> set deps"
    and "sets_wf dpt \<Longrightarrow> sets_wf dpt'" by blast+
qed

lemma count_nodes_fold:
  assumes "fold (\<lambda>y. case dependencies g y of None \<Rightarrow> id | Some deps \<Rightarrow> fold (count_edge y) deps)
             ys (ind, dpt) = (ind', dpt')" and "distinct ys"
  shows "map_of ind' x =
           (if x \<in> set ys then map_option (\<lambda>n. n + length (deps_of g x)) (map_of ind x) else map_of ind x) \<and>
         bt_keys ind' = bt_keys ind \<and>
         bt_set dpt' x = bt_set dpt x \<union> {y \<in> set ys. x \<in> set (deps_of g y)} \<and>
         dom (map_of dpt') = dom (map_of dpt) \<union> (\<Union>y \<in> set ys. set (deps_of g y)) \<and>
         (sets_wf dpt \<longrightarrow> sets_wf dpt')"
  using assms
proof (induction ys arbitrary: ind dpt)
  case Nil
  then show ?case by simp
next
  case (Cons y ys)
  obtain i d where id: "fold (count_edge y) (deps_of g y) (ind, dpt) = (i, d)" by fastforce
  from Cons.prems(1) id have "fold (\<lambda>y. case dependencies g y of None \<Rightarrow> id | Some deps \<Rightarrow> fold (count_edge y) deps)
             ys (i, d) = (ind', dpt')"
    by (auto simp: deps_of_def split: option.splits)
  from Cons.IH [OF this] Cons.prems(2) show ?case
    by (auto simp: count_edge_fold [OF id])
qed

lemma init_indegree_simps:
  "map_of (init_indegree g) x = (if x \<in> set (node_ids g) then Some 0 else None)"
  "bt_wf (init_indegree g)"
  using btm.invar_fold [of "[]" "\<lambda>x. x" "\<lambda>_. 0"]
  by (simp_all add: init_indegree_def btm.look_fold_fun)

lemma init_dependents_fold:
  "map_of (fold bt_or_default xs m) x = (if x \<in> set xs \<and> map_of m x = None then Some [] else map_of m x)"
  by (induction xs arbitrary: m) (auto simp: map_of_bt_or_default split: option.splits)

lemma count_edges_tables:
  assumes "graph_wf g" and "count_edges g = (ind, dpt)"
  shows "map_of ind x = (if x \<in> set (node_ids g) then Some (length (deps_of g x)) else None)"
    and "bt_keys ind = bt_keys (init_indegree g)"
    and "dom (map_of dpt) = set (node_ids g)"
    and "map_of dpt x = Some L \<Longrightarrow> bs_wf L \<and> set L = {y \<in> set (node_ids g). x \<in> set (deps_of g y)}"
proof -
  have dist: "distinct (node_ids g)"
    using assms(1) by (simp add: graph_wf_def node_ids_def bt_keys_def bt_wf_distinct)
  note tab = count_nodes_fold [OF assms(2) [unfolded count_edges_def] dist]
  have deps: "set (deps_of g y) \<subseteq> set (node_ids g)" for y
    using assms(1) by (cases "dependencies g y") (auto simp: graph_wf_def deps_of_def)
  have dom0: "dom (map_of (init_dependents g)) = set (node_ids g)"
    by (auto simp: init_dependents_def init_dependents_fold split: if_splits)
  have set0: "bt_set (init_dependents g) x = {}" for x
    by (simp add: bt_set_def init_dependents_def init_dependents_fold)
  have wf0: "sets_wf (init_dependents g)"
    by (auto simp: sets_wf_def init_dependents_def init_dependents_fold split: if_splits)
  from tab show "map_of ind x = (if x \<in> set (node_ids g) then Some (length (deps_of g x)) else None)"
    by (simp add: init_indegree_simps)
  from tab [of x] show "bt_keys ind = bt_keys (init_indegree g)" by (elim conjE)
  from tab [of x] have "dom (map_of dpt) =
      dom (map_of (init_dependents g)) \<union> (\<Union>y \<in> set (node_ids g). set (deps_of g y))"
    by (elim conjE)
  with dom0 deps show "dom (map_of dpt) = set (node_ids g)" by auto
  show "map_of dpt x = Some L \<Longrightarrow> bs_wf L \<and> set L = {y \<in> set (node_ids g). x \<in> set (deps_of g y)}"
    using tab [of x] wf0 set0 [of x] by (auto simp: sets_wf_def bt_set_def)
qed

section \<open>The invariant of the loop\<close>

text \<open>
  With \<open>order\<close> the nodes finished so far: each indegree counts the dependencies not yet finished,
  the ready set holds the unfinished nodes whose dependencies are all finished, and \<open>order\<close> picked
  the least such node at every step.
\<close>

definition startable :: "TaskGraph \<Rightarrow> string list \<Rightarrow> string \<Rightarrow> bool" where
  "startable g done x \<longleftrightarrow> x \<in> set (node_ids g) \<and> x \<notin> set done \<and> set (deps_of g x) \<subseteq> set done"

definition greedy :: "TaskGraph \<Rightarrow> string list \<Rightarrow> bool" where
  "greedy g order \<longleftrightarrow>
     (\<forall>i < length order. startable g (take i order) (order ! i) \<and>
        (\<forall>x. startable g (take i order) x \<longrightarrow> order ! i \<le> x))"

definition missing :: "TaskGraph \<Rightarrow> string list \<Rightarrow> string \<Rightarrow> nat" where
  "missing g done x = length (filter (\<lambda>d. d \<notin> set done) (deps_of g x))"

definition kahn_inv :: "TaskGraph \<Rightarrow> indegrees \<Rightarrow> string list \<Rightarrow> string list \<Rightarrow> bool" where
  "kahn_inv g ind ready order \<longleftrightarrow>
     (\<forall>x. map_of ind x = (if x \<in> set (node_ids g) then Some (missing g order x) else None)) \<and>
     bt_wf ind \<and> bs_wf ready \<and> set ready = {x. startable g order x} \<and> greedy g order"

lemma missing_0_iff: "missing g done x = 0 \<longleftrightarrow> set (deps_of g x) \<subseteq> set done"
  by (auto simp: missing_def filter_empty_conv)

lemma missing_snoc:
  assumes "distinct (deps_of g x)" and "i \<notin> set done"
  shows "missing g done x = (if i \<in> set (deps_of g x) then Suc (missing g (done @ [i]) x)
                             else missing g (done @ [i]) x)"
proof -
  have "length (filter (\<lambda>d. d \<notin> set done) xs) =
      (if i \<in> set xs then 1 else 0) + length (filter (\<lambda>d. d \<notin> set (done @ [i])) xs)"
    if "distinct xs" for xs
    using that assms(2) by (induction xs) auto
  from this [OF assms(1)] show ?thesis by (simp add: missing_def)
qed

lemma greedy_snoc:
  "greedy g (order @ [i]) \<longleftrightarrow>
     greedy g order \<and> startable g order i \<and> (\<forall>x. startable g order x \<longrightarrow> i \<le> x)"
  by (fastforce simp: greedy_def nth_append less_Suc_eq)

lemma release_children_Some:
  assumes "distinct children" and "\<And>c. c \<in> set children \<Longrightarrow> \<exists>d. map_of ind c = Some (Suc d)"
    and "bs_wf ready"
  shows "\<exists>ind' ready'. release_children children ind ready = Some (ind', ready') \<and>
     (\<forall>x. map_of ind' x = (if x \<in> set children then map_option (\<lambda>d. d - 1) (map_of ind x) else map_of ind x)) \<and>
     bs_wf ready' \<and> set ready' = set ready \<union> {c \<in> set children. map_of ind c = Some 1}"
  using assms
proof (induction children arbitrary: ind ready)
  case Nil
  then show ?case by simp
next
  case (Cons c cs)
  from Cons.prems(2) obtain d where d: "map_of ind c = Some (Suc d)" by fastforce
  let ?ind = "bt_modify c (\<lambda>d. d - 1) ind"
  let ?ready = "if d = 0 then insort_insert c ready else ready"
  have "\<exists>d. map_of ?ind x = Some (Suc d)" if "x \<in> set cs" for x
    using that Cons.prems(1,2) by auto
  moreover have "bs_wf ?ready" using Cons.prems(3) by simp
  ultimately obtain ind' ready' where r: "release_children cs ?ind ?ready = Some (ind', ready')"
    "\<forall>x. map_of ind' x = (if x \<in> set cs then map_option (\<lambda>d. d - 1) (map_of ?ind x) else map_of ?ind x)"
    "bs_wf ready'" "set ready' = set ?ready \<union> {c \<in> set cs. map_of ?ind c = Some 1}"
    using Cons.IH [of ?ind ?ready] Cons.prems(1) by fastforce
  have "release_children (c # cs) ind ready = Some (ind', ready')" using d r(1) by simp
  moreover have "map_of ind' x = (if x \<in> set (c # cs) then map_option (\<lambda>d. d - 1) (map_of ind x)
      else map_of ind x)" for x
    using r(2) Cons.prems(1) by auto
  moreover have "set ready' = set ready \<union> {c' \<in> set (c # cs). map_of ind c' = Some 1}"
    using r(4) d Cons.prems(1) by (auto simp: set_insort_insert)
  ultimately show ?case using r(3) by blast
qed

lemma release_children_keys:
  "release_children children ind ready = Some (ind', ready') \<Longrightarrow> bt_keys ind' = bt_keys ind"
  by (induction children ind ready rule: release_children.induct)
    (auto split: option.splits nat.splits)

lemma kahn_step:
  assumes wf: "graph_wf g" and inv: "kahn_inv g ind (i # ready) order"
    and children: "bs_wf children" "set children = {y \<in> set (node_ids g). i \<in> set (deps_of g y)}"
  shows "\<exists>ind' ready'. release_children children ind (removeAll i ready) = Some (ind', ready') \<and>
           kahn_inv g ind' ready' (order @ [i])"
proof -
  have i: "startable g order i" and least: "\<And>x. startable g order x \<Longrightarrow> i \<le> x"
    using inv bs_wf_hd_le [of "i # ready"] by (auto simp: kahn_inv_def)
  have ready: "removeAll i ready = ready" "bs_wf ready" "set ready = {x. startable g order x} - {i}"
    using inv by (auto simp: kahn_inv_def removeAll_id)
  have dist: "distinct (deps_of g y)" for y
    using wf by (cases "dependencies g y") (auto simp: graph_wf_def deps_of_def)
  have ind: "map_of ind x = (if x \<in> set (node_ids g) then Some (missing g order x) else None)" for x
    using inv by (simp add: kahn_inv_def)
  have notin: "i \<notin> set order" using i by (simp add: startable_def)
  note snoc = missing_snoc [OF dist notin]
  have "\<exists>d. map_of ind c = Some (Suc d)" if "c \<in> set children" for c
    using that children(2) snoc [of c] by (simp add: ind)
  with release_children_Some [of children ind ready] children(1) ready(2)
  obtain ind' ready' where r: "release_children children ind ready = Some (ind', ready')"
    "\<forall>x. map_of ind' x = (if x \<in> set children then map_option (\<lambda>d. d - 1) (map_of ind x) else map_of ind x)"
    "bs_wf ready'" "set ready' = set ready \<union> {c \<in> set children. map_of ind c = Some 1}"
    by blast
  have "map_of ind' x = (if x \<in> set (node_ids g) then Some (missing g (order @ [i]) x) else None)" for x
    using r(2) children(2) snoc [of x] by (auto simp: ind)
  moreover have "set ready' = {x. startable g (order @ [i]) x}"
  proof -
    have "startable g (order @ [i]) x \<longleftrightarrow>
        x \<in> set (node_ids g) \<and> x \<notin> set order \<and> x \<noteq> i \<and> missing g (order @ [i]) x = 0" for x
      by (auto simp: startable_def missing_0_iff)
    moreover have "startable g order x \<longleftrightarrow>
        x \<in> set (node_ids g) \<and> x \<notin> set order \<and> missing g order x = 0" for x
      by (auto simp: startable_def missing_0_iff)
    moreover have "c \<notin> set order" if "missing g order c = Suc 0" "greedy g order" for c
    proof
      assume "c \<in> set order"
      then obtain j where j: "j < length order" "order ! j = c" by (auto simp: in_set_conv_nth)
      with that(2) have "set (deps_of g c) \<subseteq> set (take j order)"
        by (auto simp: greedy_def startable_def)
      then have "missing g order c = 0" using set_take_subset [of j order] by (auto simp: missing_0_iff)
      with that(1) show False by simp
    qed
    moreover have "missing g order i = 0" using i by (simp add: startable_def missing_0_iff)
    ultimately show ?thesis
      using r(4) ready(3) children(2) snoc inv by (auto simp: ind kahn_inv_def)
  qed
  moreover have "greedy g (order @ [i])"
    using inv i least by (simp add: greedy_snoc kahn_inv_def)
  moreover have "bt_wf ind'"
    using inv release_children_keys [OF r(1)] by (simp add: kahn_inv_def bt_wf_def bt_keys_def)
  ultimately have "kahn_inv g ind' ready' (order @ [i])" using r(3) by (simp add: kahn_inv_def)
  with r(1) ready(1) show ?thesis by auto
qed

lemma kahn_loop_inv:
  assumes "graph_wf g" and "kahn_inv g ind ready order"
    and "dom (map_of dpt) = set (node_ids g)"
    and "\<And>x L. map_of dpt x = Some L \<Longrightarrow> bs_wf L \<and> set L = {y \<in> set (node_ids g). x \<in> set (deps_of g y)}"
  shows "\<exists>ind' order'. kahn_loop dpt ind ready order = Some (ind', order') \<and> kahn_inv g ind' [] order'"
  using assms
proof (induction dpt ind ready order rule: kahn_loop.induct)
  case (1 dpt ind order)
  then show ?case by simp
next
  case (2 dpt ind i ready order)
  from "2.prems"(2) have "i \<in> set (node_ids g)" by (auto simp: kahn_inv_def startable_def)
  with "2.prems"(3) obtain L where L: "map_of dpt i = Some L" by blast
  with "2.prems"(4) have wfL: "bs_wf L" "set L = {y \<in> set (node_ids g). i \<in> set (deps_of g y)}" by blast+
  from kahn_step [OF "2.prems"(1,2) wfL] obtain ind' ready' where
    r: "release_children L ind (removeAll i ready) = Some (ind', ready')" "kahn_inv g ind' ready' (order @ [i])"
    by blast
  from "2.IH"(2) [OF L r(1) refl "2.prems"(1) r(2) "2.prems"(3)] "2.prems"(4)
  obtain ind'' order'' where "kahn_loop dpt ind' ready' (order @ [i]) = Some (ind'', order'')"
    "kahn_inv g ind'' [] order''" by blast
  with L r(1) show ?case by simp
qed

section \<open>Topological orders and cycles\<close>

definition topo_order :: "TaskGraph \<Rightarrow> string list \<Rightarrow> bool" where
  "topo_order g order \<longleftrightarrow> distinct order \<and> set order = set (node_ids g) \<and>
     (\<forall>i < length order. set (deps_of g (order ! i)) \<subseteq> set (take i order))"

definition is_cycle :: "TaskGraph \<Rightarrow> string list \<Rightarrow> bool" where
  "is_cycle g p \<longleftrightarrow> 2 \<le> length p \<and> hd p = last p \<and>
     successively (\<lambda>x y. y \<in> set (deps_of g x)) p"

lemma greedy_distinct: "greedy g order \<Longrightarrow> distinct order \<and> set order \<subseteq> set (node_ids g)"
proof -
  assume g: "greedy g order"
  have "order ! i \<noteq> order ! j" if "i < j" "j < length order" for i j
  proof -
    have "order ! j \<notin> set (take j order)" using g that by (auto simp: greedy_def startable_def)
    then show ?thesis using that by (auto simp: in_set_conv_nth)
  qed
  then have "distinct order" by (metis distinct_conv_nth linorder_neqE_nat)
  moreover have "set order \<subseteq> set (node_ids g)"
    using g by (auto simp: greedy_def startable_def in_set_conv_nth)
  ultimately show ?thesis by blast
qed

lemma greedy_least:
  assumes "greedy g order" and "set order = set (node_ids g)" and "topo_order g ord"
  shows "order \<le> ord"
proof (cases "order = ord")
  case False
  have len: "length order = length ord"
    using assms greedy_distinct [OF assms(1)] by (metis distinct_card topo_order_def)
  let ?P = "\<lambda>i. i < length order \<and> order ! i \<noteq> ord ! i"
  from False len have "\<exists>i. ?P i" using nth_equalityI by blast
  then obtain i where P: "?P i" and min: "\<And>j. j < i \<Longrightarrow> \<not> ?P j"
    unfolding exists_least_iff [of ?P] by blast
  have tk: "take i order = take i ord"
    using P min len by (intro nth_take_lemma) auto
  have "startable g (take i order) (ord ! i)"
  proof -
    have "ord ! i \<in> set (node_ids g)" using P len assms(3) by (auto simp: topo_order_def)
    moreover have "ord ! i \<notin> set (take i ord)"
      using P len assms(3) by (auto simp: topo_order_def in_set_conv_nth distinct_conv_nth)
    moreover have "set (deps_of g (ord ! i)) \<subseteq> set (take i ord)"
      using P len assms(3) by (simp add: topo_order_def)
    ultimately show ?thesis by (simp add: startable_def tk)
  qed
  with assms(1) P have "order ! i < ord ! i"
    by (auto simp: greedy_def less_le)
  with P tk len have "order < ord" unfolding list_less_def lexord_take_index_conv by auto
  then show ?thesis by simp
qed simp

text \<open>The index of the first occurrence of an element.\<close>

lemma takeWhile_neq_less: "x \<in> set xs \<Longrightarrow> length (takeWhile (\<lambda>y. y \<noteq> x) xs) < length xs"
  by (induction xs) auto

lemma takeWhile_neq_nth: "x \<in> set xs \<Longrightarrow> xs ! length (takeWhile (\<lambda>y. y \<noteq> x) xs) = x"
  by (induction xs) auto

lemma takeWhile_neq_le: "k < length xs \<Longrightarrow> length (takeWhile (\<lambda>y. y \<noteq> xs ! k) xs) \<le> k"
proof (induction xs arbitrary: k)
  case (Cons x xs)
  then show ?case by (cases k) auto
qed simp

lemma topo_order_no_cycle:
  assumes "topo_order g order" and "is_cycle g p"
  shows False
proof -
  define ix where "ix x = length (takeWhile (\<lambda>y. y \<noteq> x) order)" for x
  have before: "ix d < ix x" if "d \<in> set (deps_of g x)" "x \<in> set order" for x d
  proof -
    have lt: "ix x < length order" and at: "order ! ix x = x"
      using that(2) by (simp_all add: ix_def takeWhile_neq_less takeWhile_neq_nth)
    with assms(1) have "set (deps_of g x) \<subseteq> set (take (ix x) order)"
      unfolding topo_order_def by metis
    with that(1) have "d \<in> set (take (ix x) order)" by blast
    then obtain k where k: "k < ix x" "order ! k = d" using lt by (auto simp: in_set_conv_nth)
    with takeWhile_neq_le [of k order] lt have "ix d \<le> k" by (simp add: ix_def)
    with k(1) show ?thesis by simp
  qed
  have nodes: "x \<in> set order" if "d \<in> set (deps_of g x)" for x d
    using that assms(1) by (auto simp: topo_order_def deps_of_def set_node_ids split: option.splits)
  have "ix (last q) < ix (hd q)" if "successively (\<lambda>x y. y \<in> set (deps_of g x)) q" "2 \<le> length q" for q
    using that
  proof (induction q rule: induct_list012)
    case (3 x y zs)
    then have "ix y < ix x" using before nodes by auto
    moreover have "zs \<noteq> [] \<Longrightarrow> ix (last (y # zs)) < ix y" using 3 by (cases zs) auto
    ultimately show ?case by (cases "zs = []") auto
  qed auto
  from this [of p] assms(2) show False by (simp add: is_cycle_def)
qed

section \<open>The reported cycle is one\<close>

lemma position_Some:
  assumes "x \<in> set xs"
  shows "\<exists>n. position x xs = Some n \<and> n < length xs \<and> hd (drop n xs) = x"
  using assms by (simp add: position_def hd_drop_conv_nth takeWhile_neq_less takeWhile_neq_nth)

lemma successively_drop: "successively P xs \<Longrightarrow> successively P (drop n xs)"
  by (metis append_take_drop_id successively_append_iff)

definition self_blocked :: "TaskGraph \<Rightarrow> string list \<Rightarrow> bool" where
  "self_blocked g remaining \<longleftrightarrow>
     (\<forall>x \<in> set remaining. \<exists>d \<in> set (deps_of g x). d \<in> set remaining)"

lemma dfs_finds_cycle:
  shows "self_blocked g remaining \<Longrightarrow> node \<in> set remaining \<Longrightarrow> set visiting = set stack \<Longrightarrow>
      successively (\<lambda>x y. y \<in> set (deps_of g x)) (stack @ [node]) \<Longrightarrow>
      \<exists>p. dfs_cycle g remaining node visiting stack = Some p \<and> is_cycle g p"
    and "self_blocked g remaining \<Longrightarrow> stack \<noteq> [] \<Longrightarrow> set visiting = set stack \<Longrightarrow>
      successively (\<lambda>x y. y \<in> set (deps_of g x)) stack \<Longrightarrow>
      set deps \<subseteq> set (deps_of g (last stack)) \<Longrightarrow> \<exists>d \<in> set deps. d \<in> set remaining \<Longrightarrow>
      \<exists>p. dfs_deps g remaining deps visiting stack = Some p \<and> is_cycle g p"
proof (induction g remaining node visiting stack and g remaining deps visiting stack
    rule: dfs_cycle_dfs_deps.induct)
  case (1 g remaining node visiting stack)
  show ?case
  proof (cases "node \<in> set visiting")
    case True
    with "1.prems"(3) position_Some [of node stack]
    obtain n where n: "position node stack = Some n" "n < length stack" "hd (drop n stack) = node" by auto
    have "successively (\<lambda>x y. y \<in> set (deps_of g x)) (drop n stack @ [node])"
      using successively_drop [OF "1.prems"(4), of n] n(2) by simp
    then have "is_cycle g (drop n stack @ [node])"
      using n by (auto simp: is_cycle_def Suc_le_eq hd_append)
    with True "1.prems"(2) n show ?thesis by simp
  next
    case False
    from "1.prems"(1,2) obtain d where d: "d \<in> set (deps_of g node)" "d \<in> set remaining"
      by (auto simp: self_blocked_def)
    then obtain deps where deps: "dependencies g node = Some deps" and "d \<in> set deps"
      by (cases "dependencies g node") (auto simp: deps_of_def)
    moreover have "set (insort_insert node visiting) = set (stack @ [node])"
      using "1.prems"(3) by (simp add: set_insort_insert)
    ultimately have "\<exists>p. dfs_deps g remaining deps (insort_insert node visiting) (stack @ [node]) = Some p
        \<and> is_cycle g p"
      using "1.IH" [OF _ False deps] "1.prems" d by (auto simp: deps_of_def)
    with False "1.prems"(2) deps show ?thesis by simp
  qed
next
  case (2 g remaining visiting stack)
  then show ?case by simp
next
  case (3 g remaining dep deps visiting stack)
  show ?case
  proof (cases "dep \<in> set remaining")
    case True
    have "successively (\<lambda>x y. y \<in> set (deps_of g x)) (stack @ [dep])"
      using "3.prems"(2,4,5) by (simp add: successively_append_iff)
    with True "3.IH"(2) "3.prems"(1,3)
    have "\<exists>p. dfs_cycle g remaining dep visiting stack = Some p \<and> is_cycle g p" by blast
    with True show ?thesis by auto
  next
    case False
    with "3.IH"(1) "3.prems" have "\<exists>p. dfs_deps g remaining deps visiting stack = Some p \<and> is_cycle g p"
      by auto
    with False show ?thesis by simp
  qed
qed

lemma find_cycle_path_cycle:
  assumes "self_blocked g remaining" and "remaining \<noteq> []"
  shows "is_cycle g (find_cycle_path g remaining)"
proof -
  from assms(2) obtain x xs where x: "remaining = x # xs" by (cases remaining) auto
  with dfs_finds_cycle(1) [OF assms(1), of x "[]" "[]"]
  obtain p where p: "dfs_cycle g remaining x [] [] = Some p" "is_cycle g p" by auto
  then have "first_cycle g remaining remaining = Some p" using x by (metis first_cycle.simps(2) option.simps(5))
  with p(2) show ?thesis by (simp add: find_cycle_path_def)
qed

section \<open>Correctness of the plan\<close>

lemma bt_filter_keys:
  "bt_wf m \<Longrightarrow> x \<in> set (map fst (filter (\<lambda>(_, d). P d) m)) \<longleftrightarrow> (\<exists>d. map_of m x = Some d \<and> P d)"
  by (force simp flip: bt_wf_lookup)

lemma kahn_inv_init:
  assumes wf: "graph_wf g" and tab: "count_edges g = (ind, dpt)"
  shows "kahn_inv g ind (map fst (filter (\<lambda>(_, deg). deg = 0) ind)) []"
proof -
  note t = count_edges_tables [OF wf tab]
  have ind: "bt_wf ind"
    using t(2) init_indegree_simps(2) [of g] by (simp add: bt_wf_def bt_keys_def)
  then have sorted: "bs_wf (map fst (filter (\<lambda>(_, deg). deg = 0) ind))"
    using bt_wf_map_filter by (metis bt_wf_def)
  have "x \<in> set (map fst (filter (\<lambda>(_, deg). deg = 0) ind)) \<longleftrightarrow> startable g [] x" for x
    unfolding bt_filter_keys [OF ind] by (simp add: t(1) startable_def)
  then have "set (map fst (filter (\<lambda>(_, deg). deg = 0) ind)) = {x. startable g [] x}" by blast
  with sorted ind show ?thesis by (simp add: kahn_inv_def t(1) missing_def greedy_def)
qed

lemma greedy_missing:
  assumes "greedy g order" and "\<And>x. \<not> startable g order x" and "x \<in> set (node_ids g)"
  shows "0 < missing g order x \<longleftrightarrow> x \<notin> set order"
proof
  assume pos: "0 < missing g order x"
  show "x \<notin> set order"
  proof
    assume "x \<in> set order"
    then obtain i where "i < length order" "order ! i = x" by (auto simp: in_set_conv_nth)
    with assms(1) have "set (deps_of g x) \<subseteq> set (take i order)" by (auto simp: greedy_def startable_def)
    then have "missing g order x = 0" using set_take_subset [of i order] by (auto simp: missing_0_iff)
    with pos show False by simp
  qed
next
  assume "x \<notin> set order"
  with assms(2,3) have "\<not> set (deps_of g x) \<subseteq> set order" by (auto simp: startable_def)
  then show "0 < missing g order x" using missing_0_iff [of g order x] by auto
qed

lemma kahn_inv_final:
  assumes "kahn_inv g ind [] order" and "graph_wf g"
  shows "length order = graph_len g \<Longrightarrow> topo_order g order \<and> (\<forall>ord. topo_order g ord \<longrightarrow> order \<le> ord)"
    and "length order \<noteq> graph_len g \<Longrightarrow>
      map fst (filter (\<lambda>(_, deg). 0 < deg) ind) \<noteq> [] \<and>
      self_blocked g (map fst (filter (\<lambda>(_, deg). 0 < deg) ind))"
proof -
  from assms(1) have greedy: "greedy g order" and none: "\<And>x. \<not> startable g order x" and "bt_wf ind"
    and ind: "\<And>x. map_of ind x = (if x \<in> set (node_ids g) then Some (missing g order x) else None)"
    by (auto simp: kahn_inv_def)
  note dist = greedy_distinct [OF greedy]
  have "distinct (node_ids g)" and "length (node_ids g) = graph_len g"
    using assms(2) by (simp_all add: graph_wf_def bt_wf_distinct node_ids_def bt_keys_def graph_len_def)
  then have card: "card (set (node_ids g)) = graph_len g" by (metis distinct_card)
  {
    assume "length order = graph_len g"
    with dist card have all: "set order = set (node_ids g)"
      by (metis card_subset_eq distinct_card List.finite_set)
    with greedy dist have "topo_order g order" by (auto simp: topo_order_def greedy_def startable_def)
    with all greedy show "topo_order g order \<and> (\<forall>ord. topo_order g ord \<longrightarrow> order \<le> ord)"
      using greedy_least by blast
  }
  assume "length order \<noteq> graph_len g"
  with card dist have "set order \<noteq> set (node_ids g)" by (metis distinct_card)
  with dist obtain z where z: "z \<in> set (node_ids g)" "z \<notin> set order" by blast
  let ?rem = "map fst (filter (\<lambda>(_, deg). 0 < deg) ind)"
  have rem: "x \<in> set ?rem \<longleftrightarrow> x \<in> set (node_ids g) \<and> x \<notin> set order" for x
    unfolding bt_filter_keys [OF \<open>bt_wf ind\<close>] using ind greedy_missing [OF greedy none, of x] by auto
  have "\<exists>d \<in> set (deps_of g x). d \<in> set ?rem" if "x \<in> set ?rem" for x
  proof -
    from that rem none [of x] obtain d where d: "d \<in> set (deps_of g x)" "d \<notin> set order"
      by (auto simp: startable_def)
    moreover from d(1) assms(2) have "d \<in> set (node_ids g)"
      by (cases "dependencies g x") (auto simp: deps_of_def graph_wf_def)
    ultimately show ?thesis using rem by blast
  qed
  moreover from z rem have "?rem \<noteq> []" by fastforce
  ultimately show "?rem \<noteq> [] \<and> self_blocked g ?rem" unfolding self_blocked_def by blast
qed

text \<open>
  For a well-formed graph Kahn's algorithm never panics. If it succeeds, the result lists every
  node once, after all of its dependencies, and is the lexicographically least list that does so;
  if it fails, it reports a path of \<open>dependsOn\<close> edges that starts and ends at the same task, and no
  topological order exists.
\<close>

lemma topo_serial_spec:
  assumes "graph_wf g"
  shows "case topo_serial g of
           Ok order \<Rightarrow> topo_order g order \<and> (\<forall>ord. topo_order g ord \<longrightarrow> order \<le> ord)
         | Err e \<Rightarrow> \<exists>p. e = Cycle p \<and> is_cycle g p \<and> \<not> (\<exists>ord. topo_order g ord)
         | Panic \<Rightarrow> False"
proof -
  obtain ind dpt where tab: "count_edges g = (ind, dpt)" by fastforce
  note t = count_edges_tables [OF assms tab]
  from kahn_loop_inv [OF assms kahn_inv_init [OF assms tab] t(3,4)]
  obtain ind' order where loop: "kahn_loop dpt ind (map fst (filter (\<lambda>(_, deg). deg = 0) ind)) [] = Some (ind', order)"
    and inv: "kahn_inv g ind' [] order" by blast
  note final = kahn_inv_final [OF inv assms]
  show ?thesis
  proof (cases "length order = graph_len g")
    case True
    with final(1) loop tab show ?thesis by (simp add: topo_serial_def)
  next
    case False
    let ?p = "find_cycle_path g (map fst (filter (\<lambda>(_, deg). 0 < deg) ind'))"
    from final(2) [OF False] have "is_cycle g ?p" using find_cycle_path_cycle by blast
    moreover from this have "\<not> (\<exists>ord. topo_order g ord)" using topo_order_no_cycle by blast
    moreover have "topo_serial g = Err (Cycle ?p)" using False loop tab by (simp add: topo_serial_def)
    ultimately show ?thesis by simp
  qed
qed

text \<open>The same on task definitions: what a serial plan of some roots is.\<close>

definition plan_order :: "tasks \<Rightarrow> string list \<Rightarrow> string list \<Rightarrow> bool" where
  "plan_order ts roots order \<longleftrightarrow> distinct order \<and> set order = task_reach ts roots \<and>
     (\<forall>i < length order. set (task_succs ts (order ! i)) \<subseteq> set (take i order))"

definition task_cycle :: "tasks \<Rightarrow> string list \<Rightarrow> bool" where
  "task_cycle ts p \<longleftrightarrow> 2 \<le> length p \<and> hd p = last p \<and>
     successively (\<lambda>x y. y \<in> set (task_succs ts x)) p"

lemma subgraph_union_deps_of:
  assumes "subgraph_union ts roots = Ok g"
  shows "set (deps_of g x) = (if x \<in> task_reach ts roots then set (task_succs ts x) else {})"
proof (cases "x \<in> task_reach ts roots")
  case True
  then show ?thesis using subgraph_union_Ok(4) [OF assms] by (simp add: deps_of_def)
next
  case False
  then have "dependencies g x = None"
    using subgraph_union_Ok(3) [OF assms] set_node_ids [of g] by (metis domIff)
  with False show ?thesis by (simp add: deps_of_def)
qed

lemma plan_order_topo:
  assumes "subgraph_union ts roots = Ok g"
  shows "plan_order ts roots order \<longleftrightarrow> topo_order g order"
  unfolding plan_order_def topo_order_def subgraph_union_Ok(3) [OF assms]
  by (metis nth_mem subgraph_union_deps_of [OF assms])

lemma task_cycle_of_graph:
  assumes "subgraph_union ts roots = Ok g" and "is_cycle g p"
  shows "task_cycle ts p"
proof -
  have "successively (\<lambda>x y. y \<in> set (task_succs ts x)) q"
    if "successively (\<lambda>x y. y \<in> set (deps_of g x)) q" for q
    using that subgraph_union_deps_of [OF assms(1)]
    by (auto elim!: successively_mono split: if_splits)
  with assms(2) show ?thesis by (simp add: is_cycle_def task_cycle_def)
qed

lemma plan_serial_union_Ok:
  assumes "plan_serial_union ts roots = Ok order"
  obtains g where "subgraph_union ts roots = Ok g" and "topo_serial g = Ok order"
    and "topo_order g order" and "graph_wf g"
proof -
  from assms obtain g where g: "subgraph_union ts roots = Ok g" "topo_serial g = Ok order"
    by (auto simp: plan_serial_union_def outcome_simps)
  with topo_serial_spec [OF subgraph_union_Ok(6) [OF g(1)]] that subgraph_union_Ok(6) [OF g(1)]
  show thesis by simp
qed

text \<open>
  C4: \<open>plan_serial_union\<close> never panics. If it succeeds, the plan lists exactly the roots and their
  transitive dependencies, each once and after everything it depends on, and it is the
  lexicographically least list that does so. It reports a cycle only when there is no such list, and
  the path it reports follows \<open>dependsOn\<close> entries and ends where it starts. Every other error names
  an undefined root or an undefined dependency.
\<close>

theorem plan_serial_union_correct:
  "case plan_serial_union ts roots of
     Ok order \<Rightarrow> plan_order ts roots order \<and> (\<forall>ord. plan_order ts roots ord \<longrightarrow> order \<le> ord)
   | Err (Cycle p) \<Rightarrow> task_cycle ts p \<and> \<not> (\<exists>ord. plan_order ts roots ord)
   | Err (UnknownRoot r) \<Rightarrow> roots = [] \<and> r = [] \<or> r \<in> set roots \<and> map_of ts r = None
   | Err (MissingDependency t d) \<Rightarrow>
       t \<in> task_reach ts roots \<and> d \<in> set (task_succs ts t) \<and> map_of ts d = None
   | Panic \<Rightarrow> False"
proof (cases "subgraph_union ts roots")
  case (Ok g)
  from topo_serial_spec [OF subgraph_union_Ok(6) [OF Ok]] show ?thesis
    by (auto simp: plan_serial_union_def Ok plan_order_topo [OF Ok] task_cycle_of_graph [OF Ok]
        split: outcome.splits)
next
  case (Err e)
  with subgraph_union_Err [OF Err] show ?thesis
    by (auto simp: plan_serial_union_def task_succs_def)
next
  case Panic
  with subgraph_union_no_panic show ?thesis by blast
qed

text \<open>A diamond: \<open>d\<close> needs \<open>b\<close> and \<open>c\<close>, which both need \<open>a\<close>.\<close>

definition diamond :: tasks where
  "diamond = map (\<lambda>(name, deps). (name, (TaskDefinition_new ''app'')\<lparr>td_depends_on := deps\<rparr>))
     [(''a'', []), (''b'', [''a'']), (''c'', [''a'']), (''d'', [''c'', ''b''])]"

lemma diamond_graph:
  "subgraph_union diamond [''d''] =
     Ok \<lparr>tg_deps = [(''a'', []), (''b'', [''a'']), (''c'', [''a'']), (''d'', [''b'', ''c''])]\<rparr>"
  by (simp add: subgraph_union_def reach_loop.simps(2) diamond_def TaskDefinition_new_def
      collect_deps_def bs_of_list_def insort_insert_key_def)

lemma diamond_serial:
  "topo_serial \<lparr>tg_deps = [(''a'', []), (''b'', [''a'']), (''c'', [''a'']), (''d'', [''b'', ''c''])]\<rparr> =
     Ok [''a'', ''b'', ''c'', ''d'']"
  by (simp add: topo_serial_def count_edges_def init_indegree_def init_dependents_def bt_or_default_def
      node_ids_def bt_keys_def dependencies_def count_edge_def bt_modify_def bt_set_insert_def
      graph_len_def insort_insert_key_def)

theorem plan_serial_union_correct_witness:
  "plan_serial_union diamond [''d''] = Ok [''a'', ''b'', ''c'', ''d''] \<and>
   plan_order diamond [''d''] [''a'', ''b'', ''c'', ''d'']"
proof -
  have run: "plan_serial_union diamond [''d''] = Ok [''a'', ''b'', ''c'', ''d'']"
    by (simp only: plan_serial_union_def diamond_graph bind.simps diamond_serial)
  with plan_serial_union_correct [where ts = diamond and roots = "[''d'']"] show ?thesis by simp
qed

end
