(* ===== verification/Quantities.thy ===== *)
theory Quantities
  imports Rust_Strings
begin

text \<open>
  Memory quantities (\<open>crates/nxr-task/src/memory.rs\<close>), their printed form
  (\<open>format_memory_bytes\<close> of \<open>scheduler.rs\<close>) and time-out strings
  (\<open>crates/nxr-task/src/duration.rs\<close>). The lemmas give the exact value of what is accepted, that
  nothing overflows silently, and that printing and parsing a memory quantity are inverse.
\<close>

section \<open>Memory quantities\<close>

record MemoryParseError =
  mpe_message :: string

definition memory_error :: "string \<Rightarrow> (MemoryParseError, 'a) outcome" where
  "memory_error m = Err \<lparr>mpe_message = m\<rparr>"

definition split_digits_unit :: "string \<Rightarrow> (MemoryParseError, string \<times> string) outcome" where
  "split_digits_unit raw =
     (let digits = takeWhile is_ascii_digit raw
      in if digits = [] then memory_error (''invalid memory quantity `'' @ raw @ ''`'')
         else Ok (digits, dropWhile is_ascii_digit raw))"

definition memory_multiplier :: "string \<Rightarrow> u64 option" where
  "memory_multiplier unit =
     (if unit \<in> {'''', ''B''} then Some 1
      else if unit \<in> {''K'', ''KB'', ''KiB''} then Some 1024
      else if unit \<in> {''M'', ''MB'', ''MiB''} then Some (1024 ^ 2)
      else if unit \<in> {''G'', ''GB'', ''GiB''} then Some (1024 ^ 3)
      else if unit \<in> {''T'', ''TB'', ''TiB''} then Some (1024 ^ 4)
      else None)"

definition parse_memory :: "string \<Rightarrow> (MemoryParseError, u64) outcome" where
  "parse_memory raw =
     (let trimmed = trim raw
      in if trimmed = [] then memory_error ''memory must not be empty''
         else bind (split_digits_unit trimmed) (\<lambda>(digits, unit).
           case parse_u64 digits of
             None \<Rightarrow> memory_error (''invalid memory quantity `'' @ raw @ ''`'')
           | Some value \<Rightarrow>
               if value = 0 then memory_error ''memory must be greater than zero''
               else (case memory_multiplier unit of
                       None \<Rightarrow> memory_error (''unknown memory unit `'' @ unit @ ''` in `'' @ raw @ ''`'')
                     | Some multiplier \<Rightarrow>
                         (case checked_mul value multiplier of
                            None \<Rightarrow> memory_error (''memory quantity overflow for `'' @ raw @ ''`'')
                          | Some bytes \<Rightarrow> Ok bytes))))"

definition format_memory_bytes :: "u64 \<Rightarrow> string" where
  "format_memory_bytes bytes =
     (let b = unat bytes; kib = 1024; mib = kib * 1024; gib = mib * 1024
      in if gib \<le> b \<and> b mod gib = 0 then show_nat (b div gib) @ ''GiB''
         else if mib \<le> b \<and> b mod mib = 0 then show_nat (b div mib) @ ''MiB''
         else if kib \<le> b \<and> b mod kib = 0 then show_nat (b div kib) @ ''KiB''
         else show_nat b @ ''B'')"

section \<open>Durations\<close>

record Duration =
  dur_secs :: u64
  dur_nanos :: u32

definition from_secs :: "u64 \<Rightarrow> Duration" where
  "from_secs s = \<lparr>dur_secs = s, dur_nanos = 0\<rparr>"

definition from_millis :: "u64 \<Rightarrow> Duration" where
  "from_millis ms =
     \<lparr>dur_secs = ms div 1000, dur_nanos = of_nat (unat (ms mod 1000) * 1000000)\<rparr>"

datatype DurationParseError = DurationEmpty | DurationInvalid string

definition split_number_unit :: "string \<Rightarrow> (string \<times> string) option" where
  "split_number_unit value =
     (let digits = takeWhile is_ascii_digit value
      in if digits = [] then None else Some (digits, trim (dropWhile is_ascii_digit value)))"

definition parse_duration :: "string \<Rightarrow> (DurationParseError, Duration) outcome" where
  "parse_duration raw =
     (let value = trim raw
      in if value = [] then Err DurationEmpty
         else (case split_number_unit value of
           None \<Rightarrow> Err (DurationInvalid value)
         | Some (number, unit) \<Rightarrow>
             (case parse_u64 number of
                None \<Rightarrow> Err (DurationInvalid value)
              | Some amount \<Rightarrow>
                  if unit \<in> {'''', ''s'', ''sec'', ''secs'', ''second'', ''seconds''}
                  then Ok (from_secs amount)
                  else if unit \<in> {''ms'', ''millis'', ''millisecond'', ''milliseconds''}
                  then Ok (from_millis amount)
                  else if unit \<in> {''m'', ''min'', ''mins'', ''minute'', ''minutes''}
                  then Ok (from_secs (saturating_mul amount 60))
                  else if unit \<in> {''h'', ''hr'', ''hrs'', ''hour'', ''hours''}
                  then Ok (from_secs (saturating_mul amount 3600))
                  else Err (DurationInvalid value))))"

section \<open>What is accepted\<close>

lemma parse_u64_SomeD:
  "parse_u64 s = Some v \<Longrightarrow> unat v = digits_value s \<and> s \<noteq> [] \<and> list_all is_ascii_digit s"
  by (auto simp: parse_u64_def unat_of_nat_small split: if_splits)

lemma memory_multiplier_pos: "memory_multiplier u = Some m \<Longrightarrow> m \<noteq> 0"
  by (auto simp: memory_multiplier_def split: if_splits)

lemma parse_memory_no_panic: "parse_memory raw \<noteq> Panic"
  by (auto simp: parse_memory_def split_digits_unit_def memory_error_def Let_def outcome_simps
      split: if_splits option.splits)

lemma parse_memory_exact:
  assumes "parse_memory raw = Ok b"
  shows "\<exists>digits unit m. trim raw = digits @ unit \<and> list_all is_ascii_digit digits \<and>
           memory_multiplier unit = Some m \<and> unat b = digits_value digits * unat m \<and> b \<noteq> 0"
proof -
  from assms obtain v m where
    d: "parse_u64 (takeWhile is_ascii_digit (trim raw)) = Some v"
      "memory_multiplier (dropWhile is_ascii_digit (trim raw)) = Some m"
      "checked_mul v m = Some b" "v \<noteq> 0"
    by (auto simp: parse_memory_def split_digits_unit_def memory_error_def Let_def outcome_simps
        split: if_splits option.splits)
  from d(3) have b: "unat b = unat v * unat m" by (rule checked_mul_Some)
  from d(4) memory_multiplier_pos [OF d(2)] have "unat v * unat m \<noteq> 0"
    by (simp add: unat_eq_0)
  with b have "b \<noteq> 0" by auto
  with d(1,2) b show ?thesis
    by (metis parse_u64_SomeD takeWhile_dropWhile_id)
qed

section \<open>Printing and parsing memory quantities\<close>

lemma ascii_graph_digit: "is_ascii_digit c \<Longrightarrow> ascii_graph c"
  by (auto simp: is_ascii_digit_def ascii_graph_def)

lemma show_nat_hd: "is_ascii_digit (hd (show_nat n))"
  using show_nat_digits [of n] by (cases "show_nat n") (auto simp: list_all_iff)

lemma takeWhile_show_nat:
  assumes "unit = [] \<or> \<not> is_ascii_digit (hd unit)"
  shows "takeWhile is_ascii_digit (show_nat n @ unit) = show_nat n"
    and "dropWhile is_ascii_digit (show_nat n @ unit) = unit"
proof -
  have "takeWhile is_ascii_digit unit = []" and "dropWhile is_ascii_digit unit = unit"
    using assms by (cases unit; auto)+
  moreover have "\<forall>c \<in> set (show_nat n). is_ascii_digit c"
    using show_nat_digits [of n] by (simp add: list_all_iff)
  ultimately show "takeWhile is_ascii_digit (show_nat n @ unit) = show_nat n"
    and "dropWhile is_ascii_digit (show_nat n @ unit) = unit"
    by (simp_all add: takeWhile_append2 dropWhile_append2)
qed

lemma parse_memory_print:
  assumes "0 < n" and "n < 2 ^ 64" and "memory_multiplier unit = Some m"
    and "unit \<noteq> []" and "\<not> is_ascii_digit (hd unit)" and "ascii_graph (last unit)"
    and "n * unat m < 2 ^ 64"
  shows "parse_memory (show_nat n @ unit) = Ok (of_nat n * m)"
proof -
  have t: "trim (show_nat n @ unit) = show_nat n @ unit"
    using assms(4,6) show_nat_hd [of n] by (intro trim_id) (auto simp: ascii_graph_digit)
  have u: "unat (of_nat n :: u64) = n" using assms(2) by (simp add: unat_of_nat_small)
  with assms(1) have nz: "(of_nat n :: u64) \<noteq> 0" by (metis less_numeral_extra(3) unat_0)
  from assms(7) u have "checked_mul (of_nat n) m = Some (of_nat n * m)"
    by (simp add: checked_mul_def)
  with nz show ?thesis
    using assms(2-5) by (simp add: parse_memory_def t split_digits_unit_def takeWhile_show_nat
        parse_u64_show_nat)
qed

lemma of_nat_div_mult:
  fixes b :: u64
  assumes "unat b mod k = 0"
  shows "of_nat (unat b div k) * of_nat k = b"
proof -
  have "(of_nat (unat b div k) :: u64) * of_nat k = of_nat (unat b div k * k)" by simp
  also have "unat b div k * k = unat b" using assms by (simp add: mod_eq_0_iff_dvd)
  finally show ?thesis by simp
qed

lemma parse_format_unit:
  assumes "b \<noteq> 0" and "unat b mod k = 0" and "k \<le> unat b" and "0 < k" and "k < 2 ^ 64"
    and "memory_multiplier unit = Some (of_nat k)"
    and "unit \<noteq> []" and "\<not> is_ascii_digit (hd unit)" and "ascii_graph (last unit)"
  shows "parse_memory (show_nat (unat b div k) @ unit) = Ok b"
proof -
  have lt: "unat b < 2 ^ 64" using unsigned_less [of b, where 'a = nat] by simp
  then have "unat b div k < 2 ^ 64" by (rule le_less_trans [OF div_le_dividend])
  moreover have "unat (of_nat k :: u64) = k" using assms(5) by (simp add: unat_of_nat_small)
  moreover have "unat b div k * k = unat b" using assms(2) by (simp add: mod_eq_0_iff_dvd)
  ultimately have "parse_memory (show_nat (unat b div k) @ unit)
      = Ok (of_nat (unat b div k) * of_nat k)"
    using assms lt by (intro parse_memory_print) (auto simp: div_greater_zero_iff)
  then show ?thesis using of_nat_div_mult [OF assms(2)] by simp
qed

text \<open>
  \<open>format_memory_bytes\<close> and \<open>parse_memory\<close> are inverse: every nonzero byte count that the
  scheduler prints in an error is parsed back to the same number of bytes.
\<close>

lemma parse_format_memory:
  assumes "bytes \<noteq> 0"
  shows "parse_memory (format_memory_bytes bytes) = Ok bytes"
proof -
  have pos: "1 \<le> unat bytes" using assms by (simp add: Suc_le_eq unat_gt_0)
  have B: "parse_memory (show_nat (unat bytes div 1) @ ''B'') = Ok bytes"
    using assms pos by (intro parse_format_unit)
      (auto simp: memory_multiplier_def is_ascii_digit_def ascii_graph_def)
  have K: "parse_memory (show_nat (unat bytes div 1024) @ ''KiB'') = Ok bytes"
    if "1024 \<le> unat bytes" "unat bytes mod 1024 = 0"
    using assms that by (intro parse_format_unit)
      (auto simp: memory_multiplier_def is_ascii_digit_def ascii_graph_def)
  have M: "parse_memory (show_nat (unat bytes div 1048576) @ ''MiB'') = Ok bytes"
    if "1048576 \<le> unat bytes" "unat bytes mod 1048576 = 0"
    using assms that by (intro parse_format_unit)
      (auto simp: memory_multiplier_def is_ascii_digit_def ascii_graph_def)
  have G: "parse_memory (show_nat (unat bytes div 1073741824) @ ''GiB'') = Ok bytes"
    if "1073741824 \<le> unat bytes" "unat bytes mod 1073741824 = 0"
    using assms that by (intro parse_format_unit)
      (auto simp: memory_multiplier_def is_ascii_digit_def ascii_graph_def)
  from B K M G show ?thesis by (simp add: format_memory_bytes_def Let_def)
qed

lemma parse_format_memory_example:
  "(536870912 :: u64) \<noteq> 0 \<and> parse_memory (format_memory_bytes 536870912) = Ok 536870912 \<and>
   format_memory_bytes 536870912 = ''512MiB''"
proof -
  have "(536870912 :: u64) \<noteq> 0" by simp
  moreover from this have "parse_memory (format_memory_bytes 536870912) = Ok 536870912"
    by (rule parse_format_memory)
  moreover have "format_memory_bytes 536870912 = ''512MiB''"
    by (simp add: format_memory_bytes_def show_nat.simps)
  ultimately show ?thesis by blast
qed

end
