(* ===== verification/Matrix.thy ===== *)
theory Matrix
  imports Task_Schema
begin

text \<open>
  Matrix expansion (\<open>crates/nxr-task/src/matrix.rs\<close>): a task with a \<open>matrix.include\<close> list becomes
  one task per entry, named \<open>task@index\<close>; dependencies on it and roots that name it become all of
  its instances. The lemmas show that validated attributes reach the environment of the instance
  without loss, that instance names are unambiguous, and that the expanded document holds exactly
  the instances of the original one, with the dependencies of the original tasks.
\<close>

section \<open>Attributes\<close>

definition MATRIX_ENV_PREFIX :: string where
  "MATRIX_ENV_PREFIX = ''NXR_MATRIX_''"

type_synonym attrs = "(string, JsonValue) btmap"

record MatrixInstance =
  mi_base_task :: string
  mi_attrs :: attrs

record MatrixExpansion =
  me_tasks :: tasks
  me_instances :: "(string, MatrixInstance) btmap"
  me_instance_ids :: "(string, string list) btmap"

definition is_canonical_ident :: "string \<Rightarrow> bool" where
  "is_canonical_ident name =
     (case name of
        [] \<Rightarrow> False
      | first # chars \<Rightarrow>
          is_ascii_lowercase first \<and>
          list_all (\<lambda>ch. is_ascii_lowercase ch \<or> is_ascii_digit ch \<or> ch = CHR ''_'') chars)"

definition matrix_env_name :: "string \<Rightarrow> string" where
  "matrix_env_name key = MATRIX_ENV_PREFIX @ to_ascii_uppercase key"

definition matrix_attr_names :: "attrs \<Rightarrow> string list" where
  "matrix_attr_names attrs = sort (bt_keys attrs)"

fun matrix_value_to_string :: "JsonValue \<Rightarrow> string option" where
  "matrix_value_to_string (JString text) = Some text"
| "matrix_value_to_string (JBool flag) = Some (if flag then ''true'' else ''false'')"
| "matrix_value_to_string (JNumber number) = Some number"
| "matrix_value_to_string _ = None"

definition resolve_matrix_values :: "attrs \<Rightarrow> (string, string) btmap" where
  "resolve_matrix_values attrs =
     fold (\<lambda>(key, v) values. case matrix_value_to_string v of
             Some normalized \<Rightarrow> bt_insert key normalized values | None \<Rightarrow> values) attrs []"

definition resolve_matrix_env :: "attrs \<Rightarrow> (string, string) btmap" where
  "resolve_matrix_env attrs =
     fold (\<lambda>(key, v) env. bt_insert (matrix_env_name key) v env) (resolve_matrix_values attrs) []"

text \<open>The loop over the keys of \<open>validate_matrix_attrs\<close>, with \<open>seen_normalized\<close>.\<close>

fun check_keys ::
  "string \<Rightarrow> nat \<Rightarrow> string list \<Rightarrow> (string, string) btmap \<Rightarrow> (SchemaError, unit) outcome" where
  "check_keys task index [] seen = Ok ()"
| "check_keys task index (key # keys) seen =
     (if trim key = [] then
        Err (InvalidMatrix task (''matrix.include['' @ show_nat index @ ''] key must not be empty''))
      else let normalized = to_ascii_uppercase key in
        case map_of seen normalized of
          Some existing \<Rightarrow>
            Err (InvalidMatrix task (''matrix.include['' @ show_nat index @ ''].'' @ key @
              '': key collides with `'' @ existing @ ''` after normalization to '' @
              MATRIX_ENV_PREFIX @ normalized))
        | None \<Rightarrow> check_keys task index keys (bt_insert normalized key seen))"

definition check_attr ::
  "string \<Rightarrow> nat \<Rightarrow> string \<times> JsonValue \<Rightarrow> (SchemaError, unit) outcome" where
  "check_attr task index = (\<lambda>(key, v).
     if \<not> is_canonical_ident key then
       Err (InvalidMatrix task (''matrix.include['' @ show_nat index @ ''].'' @ key @
         '': key must match [a-z][a-z0-9_]*''))
     else if matrix_value_to_string v = None then
       Err (InvalidMatrix task (''matrix.include['' @ show_nat index @ ''].'' @ key @
         '': value must be a string, number, or boolean''))
     else Ok ())"

definition validate_matrix_attrs ::
  "string \<Rightarrow> nat \<Rightarrow> attrs \<Rightarrow> (SchemaError, unit) outcome" where
  "validate_matrix_attrs task index attrs =
     (if attrs = [] then
        Err (InvalidMatrix task (''matrix.include['' @ show_nat index @ ''] must not be empty''))
      else bind (check_keys task index (bt_keys attrs) [])
        (\<lambda>_. for_each (check_attr task index) attrs))"

section \<open>Expansion\<close>

definition validate_task_matrix :: "string \<Rightarrow> TaskMatrix \<Rightarrow> (SchemaError, unit) outcome" where
  "validate_task_matrix task matrix =
     (if tm_include matrix = [] then
        Err (InvalidMatrix task ''matrix.include must contain at least one entry'')
      else Ok ())"

definition matrix_node_id :: "string \<Rightarrow> nat \<Rightarrow> string" where
  "matrix_node_id base index = base @ ''@'' @ show_nat index"

definition expand_depends_on ::
  "string list \<Rightarrow> (string, string list) btmap \<Rightarrow> string list" where
  "expand_depends_on deps ids =
     concat (map (\<lambda>dep. case map_of ids dep of Some xs \<Rightarrow> xs | None \<Rightarrow> [dep]) deps)"

text \<open>The loop over the entries of one matrix: every entry is validated and named.\<close>

definition collect_ids :: "string \<Rightarrow> TaskMatrix \<Rightarrow> (SchemaError, string list) outcome" where
  "collect_ids name matrix =
     bind (for_each (\<lambda>(index, attrs). validate_matrix_attrs name index attrs)
             (enumerate 0 (tm_include matrix)))
       (\<lambda>_. Ok (map (matrix_node_id name) [0..<length (tm_include matrix)]))"

fun instance_ids_loop ::
  "tasks \<Rightarrow> (string, string list) btmap \<Rightarrow> (SchemaError, (string, string list) btmap) outcome" where
  "instance_ids_loop [] ids = Ok ids"
| "instance_ids_loop ((name, definition) # ts) ids =
     (case td_matrix definition of
        None \<Rightarrow> instance_ids_loop ts ids
      | Some matrix \<Rightarrow>
          bind (validate_task_matrix name matrix)
            (\<lambda>_. bind (collect_ids name matrix)
              (\<lambda>xs. instance_ids_loop ts (bt_insert name xs ids))))"

text \<open>
  The second loop, on the tasks built so far and the instances built so far.
\<close>

definition expand_entry ::
  "(string, string list) btmap \<Rightarrow> string \<times> TaskDefinition \<Rightarrow>
     tasks \<times> (string, MatrixInstance) btmap \<Rightarrow> tasks \<times> (string, MatrixInstance) btmap" where
  "expand_entry ids = (\<lambda>(name, definition) acc.
     case td_matrix definition of
       Some matrix \<Rightarrow>
         fold (\<lambda>(index, attrs) (expanded, instances).
             let id = matrix_node_id name index in
               (bt_insert id (definition\<lparr>
                  td_matrix := None,
                  td_depends_on := expand_depends_on (td_depends_on definition) ids\<rparr>) expanded,
                bt_insert id \<lparr>mi_base_task = name, mi_attrs = attrs\<rparr> instances))
           (enumerate 0 (tm_include matrix)) acc
     | None \<Rightarrow>
         (case acc of (expanded, instances) \<Rightarrow>
            (bt_insert name (definition\<lparr>
               td_depends_on := expand_depends_on (td_depends_on definition) ids\<rparr>) expanded,
             instances)))"

definition expand_matrix_tasks :: "tasks \<Rightarrow> (SchemaError, MatrixExpansion) outcome" where
  "expand_matrix_tasks ts =
     bind (instance_ids_loop ts []) (\<lambda>ids.
       case fold (expand_entry ids) ts ([], []) of
         (expanded, instances) \<Rightarrow>
           Ok \<lparr>me_tasks = expanded, me_instances = instances, me_instance_ids = ids\<rparr>)"

definition expand_matrix_roots :: "string list \<Rightarrow> MatrixExpansion \<Rightarrow> string list" where
  "expand_matrix_roots roots expansion =
     concat (map (\<lambda>root. case map_of (me_instance_ids expansion) root of
                     Some ids \<Rightarrow> ids | None \<Rightarrow> [root]) roots)"

definition check_collision ::
  "tasks \<Rightarrow> string \<Rightarrow> nat \<Rightarrow> (SchemaError, unit) outcome" where
  "check_collision ts name index =
     (let instance_id = matrix_node_id name index in
      if bt_contains ts instance_id \<and> instance_id \<noteq> name then
        Err (InvalidMatrix name (''expanded instance id `'' @ instance_id @
          ''` collides with declared task name `'' @ instance_id @ ''`''))
      else Ok ())"

definition validate_matrix_instance_collisions :: "tasks \<Rightarrow> (SchemaError, unit) outcome" where
  "validate_matrix_instance_collisions ts =
     for_each (\<lambda>(name, definition).
       case td_matrix definition of
         Some matrix \<Rightarrow> for_each (check_collision ts name) [0..<length (tm_include matrix)]
       | None \<Rightarrow> Ok ()) ts"

section \<open>Attributes: what validation accepts and what the environment carries\<close>

lemma of_char_to_upper:
  "(of_char (hd (to_ascii_uppercase [c])) :: nat) =
     (if 97 \<le> (of_char c :: nat) \<and> (of_char c :: nat) \<le> 122 then of_char c - 32 else of_char c)"
  by (auto simp: to_ascii_uppercase_def is_ascii_lowercase_def intro!: mod_less)

definition ident_char :: "char \<Rightarrow> bool" where
  "ident_char c \<longleftrightarrow> c = CHR ''_'' \<or> is_ascii_lowercase c \<or> is_ascii_digit c"

lemma ident_char_code:
  "ident_char c \<Longrightarrow> (of_char c :: nat) = 95 \<or> 97 \<le> (of_char c :: nat) \<and> (of_char c :: nat) \<le> 122 \<or>
     48 \<le> (of_char c :: nat) \<and> (of_char c :: nat) \<le> 57"
  by (auto simp: ident_char_def is_ascii_lowercase_def is_ascii_digit_def)

lemma ident_upper_inj:
  assumes "ident_char c" and "ident_char d" and "to_ascii_uppercase [c] = to_ascii_uppercase [d]"
  shows "c = d"
proof -
  define up :: "nat \<Rightarrow> nat" where "up x = (if 97 \<le> x \<and> x \<le> 122 then x - 32 else x)" for x
  have arith: "x = y"
    if "x = 95 \<or> 97 \<le> x \<and> x \<le> 122 \<or> 48 \<le> x \<and> x \<le> 57"
      and "y = 95 \<or> 97 \<le> y \<and> y \<le> 122 \<or> 48 \<le> y \<and> y \<le> 57" and "up x = up y" for x y
    using that by (auto simp: up_def split: if_splits)
  have "(of_char (hd (to_ascii_uppercase [c])) :: nat) = of_char (hd (to_ascii_uppercase [d]))"
    using assms(3) by simp
  then have eq: "up (of_char c) = up (of_char d)" unfolding of_char_to_upper up_def .
  have "of_char c = (of_char d :: nat)"
    by (rule arith [OF ident_char_code [OF assms(1)] ident_char_code [OF assms(2)] eq])
  then show ?thesis by simp
qed

definition ident_chars :: "string \<Rightarrow> bool" where
  "ident_chars s \<longleftrightarrow>
     list_all ident_char s"

lemma canonical_ident_chars: "is_canonical_ident k \<Longrightarrow> ident_chars k \<and> k \<noteq> []"
  by (auto simp: is_canonical_ident_def ident_chars_def ident_char_def list_all_iff
      split: list.splits)

lemma upper_inj: "ident_chars s \<Longrightarrow> ident_chars t \<Longrightarrow> to_ascii_uppercase s = to_ascii_uppercase t \<Longrightarrow> s = t"
proof (induction s arbitrary: t)
  case Nil
  then show ?case by (simp add: to_ascii_uppercase_def)
next
  case (Cons c s)
  then obtain d t' where t: "t = d # t'" by (cases t) (auto simp: to_ascii_uppercase_def)
  with Cons.prems have "to_ascii_uppercase [c] = to_ascii_uppercase [d]"
    and "to_ascii_uppercase s = to_ascii_uppercase t'"
    by (auto simp: to_ascii_uppercase_def)
  with t Cons show ?case
    by (auto simp: ident_chars_def intro: ident_upper_inj)
qed

lemma canonical_trim: 
  assumes "is_canonical_ident k" 
  shows "trim k \<noteq> []"
proof -
  have graph: "ascii_graph c" if "ident_char c" for c
    using ident_char_code [OF that] by (auto simp: ascii_graph_def)
  from assms have "ident_chars k" and "k \<noteq> []" by (auto dest: canonical_ident_chars)
  then have "ascii_graph (hd k)" and "ascii_graph (last k)"
    by (auto simp: ident_chars_def list_all_iff intro!: graph)
  with \<open>k \<noteq> []\<close> show ?thesis by (simp add: trim_id)
qed

lemma check_keys_Ok:
  assumes "distinct keys" and "list_all is_canonical_ident keys"
    and "\<And>k. k \<in> set keys \<Longrightarrow> map_of seen (to_ascii_uppercase k) = None"
  shows "check_keys task index keys seen = Ok ()"
  using assms
proof (induction keys arbitrary: seen)
  case (Cons k keys)
  have "map_of (bt_insert (to_ascii_uppercase k) k seen) (to_ascii_uppercase k') = None"
    if "k' \<in> set keys" for k'
  proof -
    from that Cons.prems have "k' \<noteq> k" and "ident_chars k" and "ident_chars k'"
      by (auto simp: list_all_iff dest: canonical_ident_chars)
    then have "to_ascii_uppercase k' \<noteq> to_ascii_uppercase k" by (auto dest: upper_inj)
    with that Cons.prems show ?thesis by auto
  qed
  with Cons show ?case by (simp add: canonical_trim Let_def)
qed simp

lemma check_keys_no_panic: "check_keys task index keys seen \<noteq> Panic"
  by (induction keys arbitrary: seen) (auto simp: Let_def split: option.splits)

lemma for_each_no_panic: "(\<And>x. x \<in> set xs \<Longrightarrow> f x \<noteq> Panic) \<Longrightarrow> for_each f xs \<noteq> Panic"
  using for_each_Panic by blast

lemma validate_matrix_attrs_no_panic: "validate_matrix_attrs task index attrs \<noteq> Panic"
  by (auto simp: validate_matrix_attrs_def outcome_simps check_keys_no_panic check_attr_def
      dest!: for_each_Panic split: if_splits)

text \<open>
  Validation accepts exactly the nonempty attribute sets with canonical names and scalar values:
  on a map, the check for names that collide in upper case never rejects anything else.
\<close>

lemma validate_matrix_attrs_iff:
  assumes "bt_wf attrs"
  shows "validate_matrix_attrs task index attrs = Ok () \<longleftrightarrow>
    attrs \<noteq> [] \<and>
    (\<forall>(k, v) \<in> set attrs. is_canonical_ident k \<and> matrix_value_to_string v \<noteq> None)"
proof -
  have "check_keys task index (bt_keys attrs) [] = Ok ()"
    if "\<forall>(k, v) \<in> set attrs. is_canonical_ident k"
    using that assms
    by (intro check_keys_Ok) (auto simp: bt_keys_def list_all_iff bt_wf_distinct)
  then show ?thesis
    by (auto simp: validate_matrix_attrs_def outcome_simps for_each_Ok check_attr_def
        split: if_splits)
qed

lemma map_of_resolve_matrix_values:
  assumes "bt_wf attrs"
  shows "map_of (resolve_matrix_values attrs) k = Option.bind (map_of attrs k) matrix_value_to_string"
proof -
  have "map_of (fold (\<lambda>(key, v) values. case matrix_value_to_string v of
             Some normalized \<Rightarrow> bt_insert key normalized values | None \<Rightarrow> values) xs acc) k =
      (case map_of xs k of None \<Rightarrow> map_of acc k
       | Some v \<Rightarrow> (case matrix_value_to_string v of None \<Rightarrow> map_of acc k | s \<Rightarrow> s))"
    if "distinct (map fst xs)" for xs acc
    using that
  proof (induction xs arbitrary: acc)
    case (Cons p xs)
    obtain key v where p: "p = (key, v)" by fastforce
    with Cons.prems have "map_of xs key = None" by (auto simp: map_of_eq_None_iff)
    with p Cons show ?case by (auto split: option.splits)
  qed simp
  from this [of attrs "[]"] assms show ?thesis
    by (auto simp: resolve_matrix_values_def bt_wf_distinct split: option.splits)
qed

lemma bt_wf_resolve_matrix_values: "bt_wf (resolve_matrix_values attrs)"
proof -
  have "bt_wf acc \<Longrightarrow> bt_wf (fold (\<lambda>(key, v) values. case matrix_value_to_string v of
             Some normalized \<Rightarrow> bt_insert key normalized values | None \<Rightarrow> values) xs acc)"
    for xs and acc :: "(string, string) btmap"
    by (induction xs arbitrary: acc) (auto split: option.splits)
  then show ?thesis by (simp add: resolve_matrix_values_def)
qed

lemma resolve_matrix_env_lookup:
  assumes wf: "bt_wf attrs" and ok: "\<forall>(k, v) \<in> set attrs. is_canonical_ident k"
    and k: "is_canonical_ident k"
  shows "map_of (resolve_matrix_env attrs) (matrix_env_name k) =
    Option.bind (map_of attrs k) matrix_value_to_string"
proof -
  let ?vs = "resolve_matrix_values attrs"
  have canon: "is_canonical_ident (fst p)" if "p \<in> set ?vs" for p
  proof -
    from that have "map_of ?vs (fst p) = Some (snd p)"
      using bt_wf_lookup [OF bt_wf_resolve_matrix_values] by force
    then have "map_of attrs (fst p) \<noteq> None"
      by (cases "map_of attrs (fst p)") (auto simp: map_of_resolve_matrix_values [OF wf])
    then show ?thesis using ok by (auto dest!: map_of_SomeD)
  qed
  have inj: "matrix_env_name (fst p) = matrix_env_name k \<longleftrightarrow> fst p = k" if "p \<in> set ?vs" for p
    using canon [OF that] k canonical_ident_chars upper_inj
    by (auto simp: matrix_env_name_def)
  have env: "resolve_matrix_env attrs = fold (\<lambda>p. bt_insert (matrix_env_name (fst p)) (snd p)) ?vs []"
    by (simp add: resolve_matrix_env_def case_prod_beta')
  show ?thesis
  proof (cases "map_of ?vs k")
    case None
    then have "find (\<lambda>p. matrix_env_name (fst p) = matrix_env_name k) (rev ?vs) = None"
      using inj by (force simp: find_None_iff map_of_eq_None_iff)
    with None show ?thesis
      by (simp add: env btm.look_fold map_of_resolve_matrix_values [OF wf])
  next
    case (Some v)
    obtain p where p: "find (\<lambda>p. matrix_env_name (fst p) = matrix_env_name k) (rev ?vs) = Some p"
      using Some by (cases "find (\<lambda>p. matrix_env_name (fst p) = matrix_env_name k) (rev ?vs)")
        (auto simp: find_None_iff dest!: map_of_SomeD)
    then have "p \<in> set ?vs" and "matrix_env_name (fst p) = matrix_env_name k"
      by (auto simp: find_Some_iff) (metis length_rev nth_mem set_rev)
    with inj have "fst p = k" by blast
    with \<open>p \<in> set ?vs\<close> have "map_of ?vs k = Some (snd p)"
      using bt_wf_lookup [OF bt_wf_resolve_matrix_values] by force
    with p show ?thesis
      by (simp add: env btm.look_fold map_of_resolve_matrix_values [OF wf, symmetric])
  qed
qed

section \<open>The expanded document\<close>

text \<open>The ids a task name stands for after expansion.\<close>

definition instances_of :: "tasks \<Rightarrow> string \<Rightarrow> string list" where
  "instances_of ts name =
     (case Option.bind (map_of ts name) td_matrix of
        None \<Rightarrow> [name]
      | Some m \<Rightarrow> map (matrix_node_id name) [0..<length (tm_include m)])"

definition valid_matrix :: "string \<Rightarrow> TaskMatrix \<Rightarrow> bool" where
  "valid_matrix name m \<longleftrightarrow> tm_include m \<noteq> [] \<and>
     (\<forall>i < length (tm_include m). validate_matrix_attrs name i (tm_include m ! i) = Ok ())"

definition instance_def :: "tasks \<Rightarrow> TaskDefinition \<Rightarrow> TaskDefinition" where
  "instance_def ts d = d\<lparr>td_matrix := None,
     td_depends_on := concat (map (instances_of ts) (td_depends_on d))\<rparr>"

lemma matrix_node_id_inj: "matrix_node_id a i = matrix_node_id b j \<longleftrightarrow> a = b \<and> i = j"
proof
  assume eq: "matrix_node_id a i = matrix_node_id b j"
  have tw: "takeWhile (\<lambda>c. c \<noteq> CHR ''@'') (rev (matrix_node_id x n)) = rev (show_nat n)" for x n
  proof -
    have "\<forall>c \<in> set (show_nat n). c \<noteq> CHR ''@''"
      using show_nat_digits [of n] by (auto simp: list_all_iff dest: digit_char_not)
    then show ?thesis by (simp add: matrix_node_id_def takeWhile_tail)
  qed
  from eq tw [of a i] tw [of b j] have "show_nat i = show_nat j" by simp
  with eq show "a = b \<and> i = j" by (simp add: matrix_node_id_def show_nat_inj)
qed simp

lemma matrix_node_id_neq: "matrix_node_id a i \<noteq> a"
  by (simp add: matrix_node_id_def)

lemma collect_ids_Ok:
  "collect_ids name m = Ok xs \<longleftrightarrow>
     (\<forall>i < length (tm_include m). validate_matrix_attrs name i (tm_include m ! i) = Ok ()) \<and>
     xs = map (matrix_node_id name) [0..<length (tm_include m)]"
proof -
  have "(\<forall>p \<in> set (enumerate 0 (tm_include m)).
          (case p of (index, attrs) \<Rightarrow> validate_matrix_attrs name index attrs) = Ok ()) \<longleftrightarrow>
      (\<forall>i < length (tm_include m). validate_matrix_attrs name i (tm_include m ! i) = Ok ())"
    by (simp add: all_set_conv_all_nth nth_enumerate_eq)
  then show ?thesis
    by (auto simp: collect_ids_def bind_eq_Ok for_each_Ok)
qed

lemma collect_ids_no_panic: "collect_ids name m \<noteq> Panic"
  by (auto simp: collect_ids_def outcome_simps validate_matrix_attrs_no_panic
      dest!: for_each_Panic)

lemma instance_ids_loop_Ok:
  "instance_ids_loop ts acc = Ok ids \<Longrightarrow> distinct (map fst ts) \<Longrightarrow>
     map_of ids k = (case Option.bind (map_of ts k) td_matrix of
        None \<Rightarrow> map_of acc k
      | Some m \<Rightarrow> Some (map (matrix_node_id k) [0..<length (tm_include m)]))"
proof (induction ts acc rule: instance_ids_loop.induct)
  case (2 name d ts acc)
  have fresh: "map_of ts name = None" using "2.prems" by (auto simp: map_of_eq_None_iff)
  show ?case
  proof (cases "td_matrix d")
    case None
    with 2 fresh show ?thesis by auto
  next
    case (Some m)
    with "2.prems"(1) have "instance_ids_loop ts (bt_insert name
        (map (matrix_node_id name) [0..<length (tm_include m)]) acc) = Ok ids"
      and "validate_task_matrix name m = Ok ()"
      and "collect_ids name m = Ok (map (matrix_node_id name) [0..<length (tm_include m)])"
      by (auto simp: outcome_simps collect_ids_Ok)
    with "2.IH"(2) [OF Some] "2.prems"(2) fresh Some show ?thesis
      by (auto split: option.splits)
  qed
qed simp

lemma instance_ids_loop_total:
  "(\<exists>ids. instance_ids_loop ts acc = Ok ids) \<longleftrightarrow>
     (\<forall>(name, d) \<in> set ts. \<forall>m. td_matrix d = Some m \<longrightarrow> valid_matrix name m)"
proof (induction ts acc rule: instance_ids_loop.induct)
  case (2 name d ts acc)
  show ?case
  proof (cases "td_matrix d")
    case None
    with 2 show ?thesis by auto
  next
    case (Some m)
    then show ?thesis using "2.IH"(2) [OF Some]
      by (auto simp: outcome_simps collect_ids_Ok valid_matrix_def validate_task_matrix_def)
  qed
qed simp

lemma instance_ids_loop_no_panic: "instance_ids_loop ts acc \<noteq> Panic"
  by (induction ts acc rule: instance_ids_loop.induct)
    (auto simp: outcome_simps collect_ids_no_panic validate_task_matrix_def split: option.splits)

text \<open>The second loop as two loops of insertions, one per map.\<close>

lemma fst_expand_entry:
  "map_of ts name = Some d \<Longrightarrow>
   (\<And>k. map_of ids k = map_option (\<lambda>m. map (matrix_node_id k) [0..<length (tm_include m)])
             (Option.bind (map_of ts k) td_matrix)) \<Longrightarrow>
   fst (expand_entry ids (name, d) acc) =
     fold (\<lambda>p. bt_insert (fst p) (snd p))
       (map (\<lambda>id. (id, instance_def ts d)) (instances_of ts name)) (fst acc)"
proof -
  assume name: "map_of ts name = Some d"
    and ids: "\<And>k. map_of ids k = map_option (\<lambda>m. map (matrix_node_id k) [0..<length (tm_include m)])
             (Option.bind (map_of ts k) td_matrix)"
  have "(case map_of ids k of Some xs \<Rightarrow> xs | None \<Rightarrow> [k]) = instances_of ts k" for k
    unfolding ids instances_of_def by (cases "Option.bind (map_of ts k) td_matrix") auto
  then have deps: "expand_depends_on ds ids = concat (map (instances_of ts) ds)" for ds
    by (simp add: expand_depends_on_def)
  have fold_fst: "fst (fold (\<lambda>(index, attrs) (expanded, instances).
        (bt_insert (f index) v expanded, bt_insert (f index) (w attrs) instances)) es acc) =
      fold (\<lambda>p. bt_insert (fst p) (snd p)) (map (\<lambda>e. (f (fst e), v)) es) (fst acc)"
    for f :: "nat \<Rightarrow> string" and v :: TaskDefinition and w :: "attrs \<Rightarrow> MatrixInstance" and es acc
    by (induction es arbitrary: acc) (auto simp: case_prod_beta)
  show ?thesis
  proof (cases "td_matrix d")
    case None
    have "instance_def ts d = d\<lparr>td_depends_on := concat (map (instances_of ts) (td_depends_on d))\<rparr>"
      using None by (cases d) (simp add: instance_def_def)
    with None name show ?thesis
      by (simp add: expand_entry_def instances_of_def deps case_prod_beta)
  next
    case (Some m)
    have es: "map (\<lambda>e. (matrix_node_id name (fst e), instance_def ts d)) (enumerate 0 (tm_include m))
        = map (\<lambda>id. (id, instance_def ts d)) (instances_of ts name)"
      using Some name by (simp add: instances_of_def enumerate_eq_zip)
        (rule nth_equalityI, auto)
    show ?thesis
      using Some by (simp add: expand_entry_def Let_def fold_fst deps instance_def_def [symmetric] es)
  qed
qed

lemma snd_expand_entry:
  "snd (expand_entry ids (name, d) acc) =
     fold (\<lambda>p. bt_insert (fst p) (snd p))
       (case td_matrix d of
          None \<Rightarrow> []
        | Some m \<Rightarrow> map (\<lambda>(i, as). (matrix_node_id name i, \<lparr>mi_base_task = name, mi_attrs = as\<rparr>))
            (enumerate 0 (tm_include m))) (snd acc)"
proof -
  have "snd (fold (\<lambda>(index, attrs) (expanded, instances).
        (bt_insert (f index) v expanded, bt_insert (f index) (w attrs) instances)) es acc) =
      fold (\<lambda>p. bt_insert (fst p) (snd p)) (map (\<lambda>(i, as). (f i, w as)) es) (snd acc)"
    for f :: "nat \<Rightarrow> string" and v :: TaskDefinition and w :: "attrs \<Rightarrow> MatrixInstance" and es acc
    by (induction es arbitrary: acc) (auto simp: case_prod_beta)
  then show ?thesis
    by (auto simp: expand_entry_def Let_def case_prod_beta split: option.splits)
qed

lemma fold_fst_concat:
  "(\<And>x a. x \<in> set xs \<Longrightarrow> fst (step x a) = fold g (f x) (fst a)) \<Longrightarrow>
     fst (fold step xs acc) = fold g (concat (map f xs)) (fst acc)"
  by (induction xs arbitrary: acc) auto

lemma fold_snd_concat:
  "(\<And>x a. x \<in> set xs \<Longrightarrow> snd (step x a) = fold g (f x) (snd a)) \<Longrightarrow>
     snd (fold step xs acc) = fold g (concat (map f xs)) (snd acc)"
  by (induction xs arbitrary: acc) auto

lemma no_collision:
  assumes "validate_matrix_instance_collisions ts = Ok ()" and "map_of ts name = Some d"
    and "td_matrix d = Some m" and "i < length (tm_include m)"
  shows "map_of ts (matrix_node_id name i) = None"
proof -
  from assms(2) have "(name, d) \<in> set ts" by (rule map_of_SomeD)
  with assms(1,3,4) have "check_collision ts name i = Ok ()"
    by (force simp: validate_matrix_instance_collisions_def for_each_Ok split: option.splits)
  then show ?thesis
    using matrix_node_id_neq [of name i]
    by (cases "map_of ts (matrix_node_id name i)")
      (auto simp: check_collision_def Let_def dom_def split: if_splits)
qed

lemma instances_of_disjoint:
  assumes ok: "validate_matrix_instance_collisions ts = Ok ()"
    and a: "map_of ts a = Some da" "nid \<in> set (instances_of ts a)"
    and b: "map_of ts b = Some db" "nid \<in> set (instances_of ts b)"
  shows "a = b"
proof -
  consider (plain) "td_matrix da = None" "td_matrix db = None"
    | (left) m where "td_matrix da = Some m" "td_matrix db = None"
    | (right) m where "td_matrix da = None" "td_matrix db = Some m"
    | (both) m n where "td_matrix da = Some m" "td_matrix db = Some n"
    by (cases "td_matrix da"; cases "td_matrix db") auto
  then show ?thesis
  proof cases
    case plain
    with a b show ?thesis by (simp add: instances_of_def)
  next
    case left
    with a b obtain i where "i < length (tm_include m)" "b = matrix_node_id a i"
      by (auto simp: instances_of_def)
    with no_collision [OF ok a(1) left(1)] b(1) show ?thesis by auto
  next
    case right
    with a b obtain i where "i < length (tm_include m)" "a = matrix_node_id b i"
      by (auto simp: instances_of_def)
    with no_collision [OF ok b(1) right(2)] a(1) show ?thesis by auto
  next
    case both
    with a b show ?thesis by (auto simp: instances_of_def matrix_node_id_inj)
  qed
qed

lemma expand_matrix_tasks_Ok:
  "expand_matrix_tasks ts = Ok e \<Longrightarrow> instance_ids_loop ts [] = Ok (me_instance_ids e) \<and>
     fold (expand_entry (me_instance_ids e)) ts ([], []) = (me_tasks e, me_instances e)"
  unfolding expand_matrix_tasks_def bind_eq_Ok
  by (elim exE conjE) (simp add: case_prod_beta prod_eq_iff, metis MatrixExpansion.select_convs)

lemma expand_matrix_tasks_ids:
  assumes "expand_matrix_tasks ts = Ok e" and "bt_wf ts"
  shows "map_of (me_instance_ids e) k =
     map_option (\<lambda>m. map (matrix_node_id k) [0..<length (tm_include m)])
       (Option.bind (map_of ts k) td_matrix)"
  using expand_matrix_tasks_Ok [OF assms(1)] bt_wf_distinct [OF assms(2)]
    instance_ids_loop_Ok [where ts = ts and acc = "[]" and k = k]
  by (cases "Option.bind (map_of ts k) td_matrix") auto

lemma expand_matrix_tasks_lookup:
  assumes wf: "bt_wf ts" and ok: "validate_matrix_instance_collisions ts = Ok ()"
    and e: "expand_matrix_tasks ts = Ok e"
  shows "map_of (me_tasks e) nid = Some d' \<longleftrightarrow>
    (\<exists>name d. map_of ts name = Some d \<and> nid \<in> set (instances_of ts name) \<and> d' = instance_def ts d)"
proof -
  let ?f = "\<lambda>(name, d). map (\<lambda>i. (i, instance_def ts d)) (instances_of ts name)"
  have member: "p \<in> set (concat (map ?f ts)) \<longleftrightarrow> (\<exists>name d. map_of ts name = Some d \<and>
      fst p \<in> set (instances_of ts name) \<and> snd p = instance_def ts d)" for p
  proof -
    have "p \<in> set (concat (map ?f ts)) \<longleftrightarrow> (\<exists>name d. (name, d) \<in> set ts \<and>
        fst p \<in> set (instances_of ts name) \<and> snd p = instance_def ts d)"
      by (cases p) force
    then show ?thesis by (simp add: bt_wf_lookup [OF wf])
  qed
  have "me_tasks e = fst (fold (expand_entry (me_instance_ids e)) ts ([], []))"
    by (simp add: expand_matrix_tasks_Ok [OF e])
  also have "\<dots> = fold (\<lambda>p. bt_insert (fst p) (snd p)) (concat (map ?f ts)) []"
    using fold_fst_concat [of ts "expand_entry (me_instance_ids e)"
        "\<lambda>p. bt_insert (fst p) (snd p)" ?f "([], [])"]
      fst_expand_entry [OF _ expand_matrix_tasks_ids [OF e wf]] bt_wf_lookup [OF wf]
    by (auto simp: case_prod_beta)
  finally have tasks: "me_tasks e = fold (\<lambda>p. bt_insert (fst p) (snd p)) (concat (map ?f ts)) []" .
  have "map_of (me_tasks e) nid = Some d' \<longleftrightarrow> (\<exists>p \<in> set (concat (map ?f ts)). fst p = nid \<and> snd p = d')"
    unfolding tasks
  proof (rule btm.look_fold_rel)
    fix p q
    assume "p \<in> set (concat (map ?f ts))" "q \<in> set (concat (map ?f ts))" "fst p = fst q"
    then show "snd p = snd q"
      unfolding member using instances_of_disjoint [OF ok] by fastforce
  qed
  then show ?thesis unfolding Bex_def member by (metis fst_conv snd_conv)
qed

lemma expand_matrix_tasks_instances:
  assumes wf: "bt_wf ts" and e: "expand_matrix_tasks ts = Ok e"
  shows "map_of (me_instances e) nid = Some inst \<longleftrightarrow>
    (\<exists>name d m i. map_of ts name = Some d \<and> td_matrix d = Some m \<and> i < length (tm_include m) \<and>
       nid = matrix_node_id name i \<and> inst = \<lparr>mi_base_task = name, mi_attrs = tm_include m ! i\<rparr>)"
proof -
  let ?f = "\<lambda>(name, d). case td_matrix d of None \<Rightarrow> []
        | Some m \<Rightarrow> map (\<lambda>(i, as). (matrix_node_id name i, \<lparr>mi_base_task = name, mi_attrs = as\<rparr>))
            (enumerate 0 (tm_include m))"
  have row: "p \<in> set (?f (name, d)) \<longleftrightarrow> (\<exists>m i. td_matrix d = Some m \<and> i < length (tm_include m) \<and>
      p = (matrix_node_id name i, \<lparr>mi_base_task = name, mi_attrs = tm_include m ! i\<rparr>))" for p name d
  proof (cases "td_matrix d")
    case (Some m)
    let ?row = "\<lambda>(i, as). (matrix_node_id name i, \<lparr>mi_base_task = name, mi_attrs = as\<rparr>)"
    have "map ?row (enumerate 0 (tm_include m)) =
        map (\<lambda>i. ?row (i, tm_include m ! i)) [0..<length (tm_include m)]"
      by (rule nth_equalityI) (simp_all add: nth_enumerate_eq)
    then have "?f (name, d) = map (\<lambda>i. ?row (i, tm_include m ! i)) [0..<length (tm_include m)]"
      using Some by simp
    then show ?thesis using Some by auto
  qed simp
  have member: "p \<in> set (concat (map ?f ts)) \<longleftrightarrow> (\<exists>name d m i. map_of ts name = Some d \<and>
      td_matrix d = Some m \<and> i < length (tm_include m) \<and>
      p = (matrix_node_id name i, \<lparr>mi_base_task = name, mi_attrs = tm_include m ! i\<rparr>))" for p
  proof -
    have "p \<in> set (concat (map ?f ts)) \<longleftrightarrow> (\<exists>name d. (name, d) \<in> set ts \<and> p \<in> set (?f (name, d)))"
      by fastforce
    then show ?thesis unfolding row bt_wf_lookup [OF wf] by blast
  qed
  have "me_instances e = snd (fold (expand_entry (me_instance_ids e)) ts ([], []))"
    by (simp add: expand_matrix_tasks_Ok [OF e])
  also have "\<dots> = fold (\<lambda>p. bt_insert (fst p) (snd p)) (concat (map ?f ts)) (snd ([] :: tasks, []))"
    by (rule fold_snd_concat) (auto simp: snd_expand_entry)
  finally have insts: "me_instances e = fold (\<lambda>p. bt_insert (fst p) (snd p)) (concat (map ?f ts)) []"
    by simp
  have "map_of (me_instances e) nid = Some inst \<longleftrightarrow>
      (\<exists>p \<in> set (concat (map ?f ts)). fst p = nid \<and> snd p = inst)"
    unfolding insts
  proof (rule btm.look_fold_rel)
    fix p q
    assume "p \<in> set (concat (map ?f ts))" "q \<in> set (concat (map ?f ts))" "fst p = fst q"
    then show "snd p = snd q" unfolding member by (auto simp: matrix_node_id_inj)
  qed
  then show ?thesis unfolding Bex_def member by auto
qed

lemma expand_matrix_roots_concat:
  assumes "bt_wf ts" and "expand_matrix_tasks ts = Ok e"
  shows "expand_matrix_roots roots e = concat (map (instances_of ts) roots)"
proof -
  have "(case map_of (me_instance_ids e) r of Some ids \<Rightarrow> ids | None \<Rightarrow> [r]) = instances_of ts r" for r
    unfolding expand_matrix_tasks_ids [OF assms(2,1)] instances_of_def
    by (cases "Option.bind (map_of ts r) td_matrix") auto
  then show ?thesis by (simp add: expand_matrix_roots_def)
qed

lemma bt_wf_expand_matrix_tasks:
  assumes "bt_wf ts" and "expand_matrix_tasks ts = Ok e"
  shows "bt_wf (me_tasks e)"
proof -
  have step: "bt_wf (fst acc) \<Longrightarrow> bt_wf (fst (expand_entry ids p acc))" for ids p acc
  proof -
    have "bt_wf (fst a) \<Longrightarrow> bt_wf (fst (fold (\<lambda>(index, attrs) (expanded, instances).
        (bt_insert (f index) v expanded, bt_insert (f index) (w attrs) instances)) es a))"
      for f :: "nat \<Rightarrow> string" and v :: TaskDefinition and w :: "attrs \<Rightarrow> MatrixInstance" and es a
      by (induction es arbitrary: a) (auto simp: case_prod_beta)
    then show "bt_wf (fst acc) \<Longrightarrow> bt_wf (fst (expand_entry ids p acc))"
      by (auto simp: expand_entry_def Let_def split: option.splits prod.splits)
  qed
  have "bt_wf (fst acc) \<Longrightarrow> bt_wf (fst (fold (expand_entry ids) xs acc))" for ids xs acc
    by (induction xs arbitrary: acc) (auto simp: step)
  from this [of "([], [])" "me_instance_ids e" ts] show ?thesis
    by (simp add: expand_matrix_tasks_Ok [OF assms(2)])
qed

text \<open>Every error of the expansion is about one task with an invalid matrix.\<close>

lemma validate_matrix_attrs_Err:
  "validate_matrix_attrs task index attrs = Err err \<Longrightarrow> \<exists>msg. err = InvalidMatrix task msg"
proof -
  have keys: "check_keys task index keys seen = Err err \<Longrightarrow> \<exists>msg. err = InvalidMatrix task msg"
    for keys seen
    by (induction keys arbitrary: seen) (auto simp: Let_def split: if_splits option.splits)
  show "validate_matrix_attrs task index attrs = Err err \<Longrightarrow> \<exists>msg. err = InvalidMatrix task msg"
    by (auto simp: validate_matrix_attrs_def outcome_simps check_attr_def
        dest!: for_each_ErrD keys split: if_splits)
qed

lemma instance_ids_loop_Err:
  "instance_ids_loop ts acc = Err err \<Longrightarrow>
     \<exists>name d m msg. (name, d) \<in> set ts \<and> td_matrix d = Some m \<and> \<not> valid_matrix name m \<and>
       err = InvalidMatrix name msg"
proof (induction ts acc rule: instance_ids_loop.induct)
  case (2 name d ts acc)
  show ?case
  proof (cases "td_matrix d")
    case None
    with 2 show ?thesis by fastforce
  next
    case (Some m)
    with "2.prems" consider (empty) "validate_task_matrix name m = Err err"
      | (attrs) "collect_ids name m = Err err"
      | (rest) xs where "validate_task_matrix name m = Ok ()" "collect_ids name m = Ok xs"
          "instance_ids_loop ts (bt_insert name xs acc) = Err err"
      by (auto simp: outcome_simps)
    then show ?thesis
    proof cases
      case empty
      then have "\<not> valid_matrix name m \<and> (\<exists>msg. err = InvalidMatrix name msg)"
        by (auto simp: validate_task_matrix_def valid_matrix_def split: if_splits)
      with Some show ?thesis by fastforce
    next
      case attrs
      then have "\<exists>(i, as) \<in> set (enumerate 0 (tm_include m)). validate_matrix_attrs name i as = Err err"
        by (auto simp: collect_ids_def outcome_simps dest!: for_each_ErrD)
      then obtain i where "i < length (tm_include m)"
        "validate_matrix_attrs name i (tm_include m ! i) = Err err"
        by (auto simp: in_set_enumerate_eq)
      then have "\<not> valid_matrix name m \<and> (\<exists>msg. err = InvalidMatrix name msg)"
        by (auto simp: valid_matrix_def dest: validate_matrix_attrs_Err)
      with Some show ?thesis by fastforce
    next
      case rest
      from "2.IH"(2) [OF Some rest(3)] show ?thesis by fastforce
    qed
  qed
qed simp

lemma expand_matrix_tasks_Err:
  "expand_matrix_tasks ts = Err err \<Longrightarrow>
     \<exists>name d m msg. (name, d) \<in> set ts \<and> td_matrix d = Some m \<and> \<not> valid_matrix name m \<and>
       err = InvalidMatrix name msg"
  by (rule instance_ids_loop_Err [of ts "[]"])
    (auto simp: expand_matrix_tasks_def outcome_simps case_prod_beta)

lemma expand_matrix_tasks_no_panic: "expand_matrix_tasks ts \<noteq> Panic"
  by (auto simp: expand_matrix_tasks_def outcome_simps case_prod_beta instance_ids_loop_no_panic)

section \<open>Properties\<close>

text \<open>
  C29: Expanding a document whose instance names do not collide. It succeeds exactly when every
  matrix has entries and all of them validate; it then holds, under each instance name and under
  no other, the original task without its matrix and with every dependency replaced by that
  dependency's instances in order; each instance records its base task and its own attributes;
  and roots are replaced like dependencies. An error names a task whose matrix is invalid; the
  expansion never panics.\<close>

theorem expand_matrix_tasks_correct:
  assumes wf: "bt_wf ts" and ok: "validate_matrix_instance_collisions ts = Ok ()"
  shows "case expand_matrix_tasks ts of
      Ok e \<Rightarrow>
        (\<forall>name d m. map_of ts name = Some d \<and> td_matrix d = Some m \<longrightarrow> valid_matrix name m) \<and>
        (\<forall>nid d'. map_of (me_tasks e) nid = Some d' \<longleftrightarrow>
           (\<exists>name d. map_of ts name = Some d \<and> nid \<in> set (instances_of ts name) \<and>
              d' = instance_def ts d)) \<and>
        (\<forall>nid inst. map_of (me_instances e) nid = Some inst \<longleftrightarrow>
           (\<exists>name d m i. map_of ts name = Some d \<and> td_matrix d = Some m \<and>
              i < length (tm_include m) \<and> nid = matrix_node_id name i \<and>
              inst = \<lparr>mi_base_task = name, mi_attrs = tm_include m ! i\<rparr>)) \<and>
        (\<forall>roots. expand_matrix_roots roots e = concat (map (instances_of ts) roots))
    | Err err \<Rightarrow> (\<exists>name d m msg. map_of ts name = Some d \<and> td_matrix d = Some m \<and>
        \<not> valid_matrix name m \<and> err = InvalidMatrix name msg)
    | Panic \<Rightarrow> False"
proof (cases "expand_matrix_tasks ts")
  case (Ok e)
  have "\<forall>(name, d) \<in> set ts. \<forall>m. td_matrix d = Some m \<longrightarrow> valid_matrix name m"
    using expand_matrix_tasks_Ok [OF Ok] instance_ids_loop_total [of ts "[]"] by blast
  with Ok show ?thesis
    using expand_matrix_tasks_lookup [OF wf ok Ok] expand_matrix_tasks_instances [OF wf Ok]
      expand_matrix_roots_concat [OF wf Ok] bt_wf_lookup [OF wf]
    by (simp add: Ball_def)
next
  case (Err err)
  with expand_matrix_tasks_Err [OF Err] bt_wf_lookup [OF wf] show ?thesis by simp
qed (simp add: expand_matrix_tasks_no_panic)

text \<open>
  The environment of a validated matrix instance: every attribute is set under
  \<open>NXR_MATRIX_\<close> and its upper-case name to the printed form of its value, no attribute is lost to
  a name collision, and no other variable is set.\<close>

lemma resolve_matrix_env_correct:
  assumes "bt_wf attrs" and "validate_matrix_attrs task index attrs = Ok ()"
  shows "(\<forall>k v. map_of attrs k = Some v \<longrightarrow>
      map_of (resolve_matrix_env attrs) (matrix_env_name k) = matrix_value_to_string v \<and>
      matrix_value_to_string v \<noteq> None) \<and>
    dom (map_of (resolve_matrix_env attrs)) = matrix_env_name ` dom (map_of attrs)"
proof -
  have ok: "\<forall>(k, v) \<in> set attrs. is_canonical_ident k \<and> matrix_value_to_string v \<noteq> None"
    using assms validate_matrix_attrs_iff by blast
  have look: "map_of (resolve_matrix_env attrs) (matrix_env_name k) = matrix_value_to_string v \<and>
      matrix_value_to_string v \<noteq> None" if "map_of attrs k = Some v" for k v
    using that ok resolve_matrix_env_lookup [OF assms(1), of k] map_of_SomeD [OF that] by fastforce
  have "dom (map_of (resolve_matrix_env attrs)) =
      (\<lambda>p. matrix_env_name (fst p)) ` set (resolve_matrix_values attrs)"
  proof -
    have "dom (map_of (fold (\<lambda>p. bt_insert (matrix_env_name (fst p)) (snd p)) xs acc)) =
        (\<lambda>p. matrix_env_name (fst p)) ` set xs \<union> dom (map_of acc)"
      for xs and acc :: "(string, string) btmap"
      by (induction xs arbitrary: acc) auto
    from this [of "resolve_matrix_values attrs" "[]"] show ?thesis
      by (simp add: resolve_matrix_env_def case_prod_beta')
  qed
  also have "\<dots> = matrix_env_name ` dom (map_of (resolve_matrix_values attrs))"
    by (simp add: dom_map_of_conv_image_fst image_image)
  also have "dom (map_of (resolve_matrix_values attrs)) = dom (map_of attrs)"
  proof -
    have "map_of (resolve_matrix_values attrs) k \<noteq> None \<longleftrightarrow> map_of attrs k \<noteq> None" for k
      using ok by (cases "map_of attrs k")
        (auto simp: map_of_resolve_matrix_values [OF assms(1)] dest!: map_of_SomeD)
    then show ?thesis by (simp add: dom_def)
  qed
  finally show ?thesis using look by blast
qed

text \<open>A two-entry matrix \<open>build\<close>, a task \<open>lint\<close> that depends on it, and the expansion of both.\<close>

definition matrix_example :: tasks where
  "matrix_example =
     [(''build'', (TaskDefinition_new ''b'')\<lparr>td_matrix := Some \<lparr>tm_include =
        [[(''os'', JString ''linux'')], [(''os'', JString ''mac'')]]\<rparr>\<rparr>),
      (''lint'', (TaskDefinition_new ''l'')\<lparr>td_depends_on := [''build'']\<rparr>)]"

lemma matrix_example_expands:
  "bt_wf matrix_example \<and> validate_matrix_instance_collisions matrix_example = Ok () \<and>
   (case expand_matrix_tasks matrix_example of
      Ok e \<Rightarrow> bt_keys (me_tasks e) = [''build@0'', ''build@1'', ''lint''] | _ \<Rightarrow> False)"
  by code_simp

theorem expand_matrix_tasks_correct_witness:
  "\<exists>e. expand_matrix_tasks matrix_example = Ok e \<and>
     expand_matrix_roots [''build'', ''lint''] e = [''build@0'', ''build@1'', ''lint'']"
proof -
  obtain e where e: "expand_matrix_tasks matrix_example = Ok e"
    using matrix_example_expands by (cases "expand_matrix_tasks matrix_example") auto
  have "expand_matrix_roots roots e = concat (map (instances_of matrix_example) roots)" for roots
    using expand_matrix_tasks_correct [of matrix_example] matrix_example_expands e by simp
  moreover have "concat (map (instances_of matrix_example) [''build'', ''lint'']) =
      [''build@0'', ''build@1'', ''lint'']"
    by code_simp
  ultimately show ?thesis using e by metis
qed

theorem resolve_matrix_env_correct_witness:
  "map_of (resolve_matrix_env [(''os'', JString ''linux'')]) (matrix_env_name ''os'') = Some ''linux''"
proof -
  have "bt_wf [(''os'', JString ''linux'')] \<and>
      validate_matrix_attrs ''t'' 0 [(''os'', JString ''linux'')] = Ok ()"
    by code_simp
  then show ?thesis
    using resolve_matrix_env_correct [of "[(''os'', JString ''linux'')]" "''t''" 0] by simp
qed

end
