(* ===== verification/Events.thy ===== *)
theory Events
  imports Rust_Strings
begin

text \<open>
  The event bus (\<open>crates/nxr-task/src/events.rs\<close>): output payloads with their encoding, the events
  and their constructors, and the recording sink. A \<open>&mut dyn EventSink\<close> is the list of the events
  it has received.
\<close>

section \<open>Output payloads\<close>

datatype ChunkEncoding = EncUtf8 | EncBase64

definition chunk_encoding_as_str :: "ChunkEncoding \<Rightarrow> string" where
  "chunk_encoding_as_str e = (case e of EncUtf8 \<Rightarrow> ''utf8'' | EncBase64 \<Rightarrow> ''base64'')"

datatype OutputPayload = Utf8 string | Bytes string

text \<open>
  The check of \<open>String::from_utf8\<close>: the well-formed byte sequences of the Unicode standard (no
  overlong forms, no surrogates, nothing above U+10FFFF).
\<close>

definition byte_in :: "nat \<Rightarrow> nat \<Rightarrow> char \<Rightarrow> bool" where
  "byte_in lo hi c \<longleftrightarrow> lo \<le> (of_char c :: nat) \<and> (of_char c :: nat) \<le> hi"

fun valid_utf8 :: "string \<Rightarrow> bool" where
  "valid_utf8 [] = True"
| "valid_utf8 (a # s) =
     (if byte_in 0x00 0x7F a then valid_utf8 s
      else if byte_in 0xC2 0xDF a then
        (case s of b # s' \<Rightarrow> byte_in 0x80 0xBF b \<and> valid_utf8 s' | _ \<Rightarrow> False)
      else if byte_in 0xE0 0xEF a then
        (case s of b # c # s' \<Rightarrow>
           byte_in (if a = CHR 0xE0 then 0xA0 else 0x80) (if a = CHR 0xED then 0x9F else 0xBF) b \<and>
           byte_in 0x80 0xBF c \<and> valid_utf8 s' | _ \<Rightarrow> False)
      else if byte_in 0xF0 0xF4 a then
        (case s of b # c # d # s' \<Rightarrow>
           byte_in (if a = CHR 0xF0 then 0x90 else 0x80) (if a = CHR 0xF4 then 0x8F else 0xBF) b \<and>
           byte_in 0x80 0xBF c \<and> byte_in 0x80 0xBF d \<and> valid_utf8 s' | _ \<Rightarrow> False)
      else False)"

declare valid_utf8.simps(2) [simp del]

definition from_bytes :: "string \<Rightarrow> OutputPayload" where
  "from_bytes bytes = (if valid_utf8 bytes then Utf8 bytes else Bytes bytes)"

fun as_bytes :: "OutputPayload \<Rightarrow> string" where
  "as_bytes (Utf8 text) = text"
| "as_bytes (Bytes bytes) = bytes"

fun encoding :: "OutputPayload \<Rightarrow> ChunkEncoding" where
  "encoding (Utf8 _) = EncUtf8"
| "encoding (Bytes _) = EncBase64"

lemma as_bytes_from_bytes [simp]: "as_bytes (from_bytes bytes) = bytes"
  by (simp add: from_bytes_def)

lemma encoding_from_bytes: "encoding (from_bytes bytes) = EncUtf8 \<longleftrightarrow> valid_utf8 bytes"
  by (simp add: from_bytes_def)

section \<open>Events\<close>

datatype NodeOutcome = NodeSucceeded | NodeFailed | NodeCancelled | NodeSkipped | NodeTimedOut

definition node_outcome_as_str :: "NodeOutcome \<Rightarrow> string" where
  "node_outcome_as_str o' = (case o' of
     NodeSucceeded \<Rightarrow> ''succeeded'' | NodeFailed \<Rightarrow> ''failed'' | NodeCancelled \<Rightarrow> ''cancelled''
   | NodeSkipped \<Rightarrow> ''skipped'' | NodeTimedOut \<Rightarrow> ''timed_out'')"

datatype RunOutcome = RunSucceeded | RunFailed | RunCancelled

type_synonym i32 = "32 word"

datatype Event =
    PlanCreated string "string list option" nat "string option"
  | NodeQueued string "u64 option"
  | NodeStarted string "string option" "u64 option"
  | StdoutChunk string OutputPayload
  | StderrChunk string OutputPayload
  | NodeExited string "i32 option" "NodeOutcome option" "u64 option" "string option"
      "string option" "string option" "u64 option"
  | RunCompleted bool "string option" "RunOutcome option" "u64 option" "string option"
      "string option"
  | Diagnostic string

definition plan_created :: "string \<Rightarrow> string list option \<Rightarrow> nat \<Rightarrow> Event" where
  "plan_created root roots node_count = PlanCreated root roots node_count None"

definition node_queued :: "string \<Rightarrow> Event" where
  "node_queued node = NodeQueued node None"

definition node_started :: "string \<Rightarrow> Event" where
  "node_started node = NodeStarted node None None"

definition node_finished ::
  "string \<Rightarrow> i32 option \<Rightarrow> NodeOutcome \<Rightarrow> string option \<Rightarrow> Event" where
  "node_finished node code status reason =
     NodeExited node code (Some status) None None None reason None"

definition node_exited :: "string \<Rightarrow> i32 option \<Rightarrow> Event" where
  "node_exited node code = NodeExited node code None None None None None None"

definition run_completed :: "bool \<Rightarrow> Event" where
  "run_completed success = RunCompleted success None None None None None"

fun event_kind :: "Event \<Rightarrow> string" where
  "event_kind (PlanCreated _ _ _ _) = ''plan_created''"
| "event_kind (NodeQueued _ _) = ''node_queued''"
| "event_kind (NodeStarted _ _ _) = ''node_started''"
| "event_kind (StdoutChunk _ _) = ''stdout_chunk''"
| "event_kind (StderrChunk _ _) = ''stderr_chunk''"
| "event_kind (NodeExited _ _ _ _ _ _ _ _) = ''node_exited''"
| "event_kind (RunCompleted _ _ _ _ _ _) = ''run_completed''"
| "event_kind (Diagnostic _) = ''diagnostic''"

type_synonym sink = "Event list"

definition emit :: "Event \<Rightarrow> sink \<Rightarrow> sink" where
  "emit event sink = sink @ [event]"

end
