(* ===== verification/Plan_Exec.thy ===== *)
theory Plan_Exec
  imports Planner Quantities Matrix Events
begin

text \<open>
  Execution plans (\<open>crates/nxr-task/src/plan_exec.rs\<close>), with the resource demands they carry
  (\<open>resources.rs\<close>) and the operation of a node (\<open>crates/nxr-core/src/operation.rs\<close>). The plan is
  built by matrix expansion, serial planning and the subgraph of the expanded roots. The lemmas
  show that a plan is well formed (\<open>plan_wf\<close>): what the scheduler relies on.
\<close>

section \<open>Resources\<close>

record NodeResources =
  nr_cpu :: u32
  nr_memory_bytes :: u64
  nr_exclusive :: "string list"

definition NodeResources_EMPTY :: NodeResources where
  "NodeResources_EMPTY = \<lparr>nr_cpu = 0, nr_memory_bytes = 0, nr_exclusive = []\<rparr>"

definition cpu_tokens :: "NodeResources \<Rightarrow> u32" where
  "cpu_tokens r = (if nr_cpu r = 0 then 1 else nr_cpu r)"

definition resources_is_empty :: "NodeResources \<Rightarrow> bool" where
  "resources_is_empty r \<longleftrightarrow> nr_cpu r = 0 \<and> nr_memory_bytes r = 0 \<and> nr_exclusive r = []"

text \<open>\<open>parse_memory(raw).ok()\<close> and \<open>unwrap_or(0)\<close>.\<close>

definition memory_or_zero :: "string option \<Rightarrow> u64" where
  "memory_or_zero raw = (case raw of
     None \<Rightarrow> 0 | Some s \<Rightarrow> (case parse_memory s of Ok b \<Rightarrow> b | _ \<Rightarrow> 0))"

definition from_task_resources :: "TaskResources \<Rightarrow> NodeResources" where
  "from_task_resources resources = \<lparr>
     nr_cpu = (case tr_cpu resources of None \<Rightarrow> 0 | Some c \<Rightarrow> c),
     nr_memory_bytes = memory_or_zero (tr_memory resources),
     nr_exclusive = tr_exclusive resources\<rparr>"

record ResourceLimits =
  rl_cpu_pool :: u32
  rl_memory_pool :: u64

text \<open>
  \<open>memory_pool_from_env\<close> reads \<open>NXR_MEMORY_POOL\<close>; its value, if set, is an argument here.
\<close>

definition memory_pool_from_env :: "string option \<Rightarrow> u64" where
  "memory_pool_from_env env = memory_or_zero env"

definition from_jobs :: "string option \<Rightarrow> nat \<Rightarrow> ResourceLimits" where
  "from_jobs env jobs = \<lparr>
     rl_cpu_pool = max (if jobs < 2 ^ 32 then of_nat jobs else - 1) 1,
     rl_memory_pool = memory_pool_from_env env\<rparr>"

definition can_schedule_node :: "ResourceLimits \<Rightarrow> NodeResources \<Rightarrow> bool" where
  "can_schedule_node limits r \<longleftrightarrow>
     cpu_tokens r \<le> rl_cpu_pool limits \<and>
     (rl_memory_pool limits = 0 \<or> nr_memory_bytes r = 0 \<or>
      nr_memory_bytes r \<le> rl_memory_pool limits)"

lemma unat_cpu_tokens_pos: "0 < unat (cpu_tokens r)"
  by (simp add: cpu_tokens_def unat_gt_0)

section \<open>Operations\<close>

datatype ProcessRestartPolicy = PolicyNever | PolicyOnFailure | PolicyAlways

datatype Operation =
    FlakeApp string
  | NixBuild string
  | NativeCommand "string list"
  | WorkspaceScript string "string option"
  | Process string string "ProcessRestartPolicy option"
  | WasiComponent string string "string list"
  | Adapter string JsonValue
  | WinBuildTask string string
  | Remote string string string string string string string string string

definition default_winbuild_manifest :: string where
  "default_winbuild_manifest = ''.winbuild.json''"

definition from_task_app :: "string \<Rightarrow> Operation" where
  "from_task_app app = FlakeApp app"

definition from_process_app :: "string \<Rightarrow> Operation" where
  "from_process_app app = Process app [] None"

fun operation_kind :: "Operation \<Rightarrow> string" where
  "operation_kind (FlakeApp _) = ''flake_app''"
| "operation_kind (NixBuild _) = ''nix_build''"
| "operation_kind (NativeCommand _) = ''native_command''"
| "operation_kind (WorkspaceScript _ _) = ''workspace_script''"
| "operation_kind (Process _ _ _) = ''process''"
| "operation_kind (WasiComponent _ _ _) = ''wasi_component''"
| "operation_kind (Adapter _ _) = ''adapter''"
| "operation_kind (WinBuildTask _ _) = ''win_build_task''"
| "operation_kind (Remote _ _ _ _ _ _ _ _ _) = ''remote''"

fun requires_nix :: "Operation \<Rightarrow> bool" where
  "requires_nix (FlakeApp _) = True"
| "requires_nix (NixBuild _) = True"
| "requires_nix (WorkspaceScript _ _) = True"
| "requires_nix (Process _ _ _) = True"
| "requires_nix _ = False"

section \<open>Plans\<close>

definition EXECUTION_PLAN_SCHEMA_VERSION :: u32 where
  "EXECUTION_PLAN_SCHEMA_VERSION = 1"

datatype FailurePolicy = FailFast | KeepGoing

definition failure_policy_as_str :: "FailurePolicy \<Rightarrow> string" where
  "failure_policy_as_str p = (case p of FailFast \<Rightarrow> ''fail_fast'' | KeepGoing \<Rightarrow> ''keep_going'')"

datatype ArgumentForwarding = ForwardRoot

definition argument_forwarding_as_str :: "ArgumentForwarding \<Rightarrow> string" where
  "argument_forwarding_as_str a = (case a of ForwardRoot \<Rightarrow> ''root'')"

record PlanNode =
  pn_id :: string
  pn_depends_on :: "string list"
  pn_interactive :: bool
  pn_resources :: NodeResources
  pn_operation :: "Operation option"
  pn_platform :: "string option"
  pn_architecture :: "string option"
  pn_environment :: "(string, string) btmap"
  pn_working_directory :: "string option"
  pn_artifacts :: "string list"
  pn_inputs :: "string list"

record ExecutionPlan =
  ep_schema_version :: u32
  ep_root :: string
  ep_roots :: "string list"
  ep_failure_policy :: FailurePolicy
  ep_argument_forwarding :: ArgumentForwarding
  ep_nodes :: "PlanNode list"
  ep_serial_order :: "string list"
  ep_waves :: "string list list"

definition plan_node_ids :: "ExecutionPlan \<Rightarrow> string list" where
  "plan_node_ids plan = map pn_id (ep_nodes plan)"

definition interactive_node_ids :: "ExecutionPlan \<Rightarrow> string list" where
  "interactive_node_ids plan = map pn_id (filter pn_interactive (ep_nodes plan))"

definition has_interactive_nodes :: "ExecutionPlan \<Rightarrow> bool" where
  "has_interactive_nodes plan \<longleftrightarrow> list_ex pn_interactive (ep_nodes plan)"

fun matrix_plan_error :: "SchemaError \<Rightarrow> GraphError" where
  "matrix_plan_error (InvalidMatrix task message) = MissingDependency ''matrix'' message"
| "matrix_plan_error other = MissingDependency ''matrix'' (display_schema_error other)"

text \<open>The closure of \<open>filter_map\<close> over the graph's node ids.\<close>

definition plan_node :: "tasks \<Rightarrow> TaskGraph \<Rightarrow> string \<Rightarrow> PlanNode option" where
  "plan_node ts graph nid =
     (case map_of ts nid of
        None \<Rightarrow> None
      | Some definition \<Rightarrow> Some \<lparr>
          pn_id = nid,
          pn_depends_on = (case dependencies graph nid of None \<Rightarrow> [] | Some ds \<Rightarrow> ds),
          pn_interactive = td_interactive definition,
          pn_resources = (case td_resources definition of
             None \<Rightarrow> NodeResources_EMPTY | Some r \<Rightarrow> from_task_resources r),
          pn_operation = Some (from_task_app (td_app definition)),
          pn_platform = None, pn_architecture = None, pn_environment = [],
          pn_working_directory = None, pn_artifacts = [], pn_inputs = []\<rparr>)"

definition build_execution_plan_roots ::
  "tasks \<Rightarrow> string list \<Rightarrow> FailurePolicy \<Rightarrow> sink option \<Rightarrow>
     (GraphError, ExecutionPlan \<times> sink option) outcome" where
  "build_execution_plan_roots ts roots policy sink =
     bind (map_err matrix_plan_error (expand_matrix_tasks ts)) (\<lambda>expansion.
     let expanded_roots = expand_matrix_roots roots expansion in
     bind (plan_serial_union (me_tasks expansion) expanded_roots) (\<lambda>serial_order.
     bind (subgraph_union (me_tasks expansion) expanded_roots) (\<lambda>graph.
     let nodes = List.map_filter (plan_node (me_tasks expansion) graph) (node_ids graph);
         waves = map (\<lambda>nid. [nid]) serial_order
     in case expanded_roots of
          [] \<Rightarrow> Panic
        | primary_root # _ \<Rightarrow>
            let plan = \<lparr>
                  ep_schema_version = EXECUTION_PLAN_SCHEMA_VERSION,
                  ep_root = primary_root,
                  ep_roots = (if 1 < length expanded_roots then expanded_roots else []),
                  ep_failure_policy = policy,
                  ep_argument_forwarding = ForwardRoot,
                  ep_nodes = nodes,
                  ep_serial_order = serial_order,
                  ep_waves = waves\<rparr>
            in Ok (plan, map_option (emit (plan_created (ep_root plan)
                 (if ep_roots plan = [] then None else Some (ep_roots plan))
                 (length (ep_nodes plan)))) sink))))"

definition build_execution_plan ::
  "tasks \<Rightarrow> string \<Rightarrow> FailurePolicy \<Rightarrow> sink option \<Rightarrow>
     (GraphError, ExecutionPlan \<times> sink option) outcome" where
  "build_execution_plan ts root policy sink = build_execution_plan_roots ts [root] policy sink"

definition build_serial_plan ::
  "tasks \<Rightarrow> string \<Rightarrow> (GraphError, ExecutionPlan \<times> sink option) outcome" where
  "build_serial_plan ts root = build_execution_plan ts root FailFast None"

section \<open>Well-formed plans\<close>

text \<open>
  What the scheduler relies on: node ids are unique and in order, every dependency is a node and
  is listed once, and the serial order visits every node after its dependencies.
\<close>

definition plan_deps :: "ExecutionPlan \<Rightarrow> string \<Rightarrow> string list" where
  "plan_deps plan x =
     (case map_of (map (\<lambda>n. (pn_id n, pn_depends_on n)) (ep_nodes plan)) x of
        None \<Rightarrow> [] | Some ds \<Rightarrow> ds)"

definition plan_wf :: "ExecutionPlan \<Rightarrow> bool" where
  "plan_wf plan \<longleftrightarrow>
     bs_wf (plan_node_ids plan) \<and>
     (\<forall>n \<in> set (ep_nodes plan). distinct (pn_depends_on n) \<and>
        set (pn_depends_on n) \<subseteq> set (plan_node_ids plan)) \<and>
     distinct (ep_serial_order plan) \<and> set (ep_serial_order plan) = set (plan_node_ids plan) \<and>
     (\<forall>i < length (ep_serial_order plan).
        set (plan_deps plan (ep_serial_order plan ! i)) \<subseteq> set (take i (ep_serial_order plan)))"

lemma plan_deps_node:
  assumes "distinct (plan_node_ids plan)" and "n \<in> set (ep_nodes plan)"
  shows "plan_deps plan (pn_id n) = pn_depends_on n"
proof -
  have "map_of (map (\<lambda>n. (pn_id n, pn_depends_on n)) (ep_nodes plan)) (pn_id n) =
      Some (pn_depends_on n)"
    by (rule map_of_is_SomeI) (use assms in \<open>auto simp: plan_node_ids_def comp_def\<close>)
  then show ?thesis by (simp add: plan_deps_def)
qed

lemma plan_deps_no_node: "x \<notin> set (plan_node_ids plan) \<Longrightarrow> plan_deps plan x = []"
proof -
  assume "x \<notin> set (plan_node_ids plan)"
  then have "map_of (map (\<lambda>n. (pn_id n, pn_depends_on n)) (ep_nodes plan)) x = None"
    by (auto simp: map_of_eq_None_iff plan_node_ids_def)
  then show ?thesis by (simp add: plan_deps_def)
qed

lemma map_filter_all_Some:
  "(\<And>x. x \<in> set xs \<Longrightarrow> f x = Some (g x)) \<Longrightarrow> List.map_filter f xs = map g xs"
  by (induction xs) (auto simp: List.map_filter_def)

lemma build_execution_plan_roots_Ok:
  assumes "build_execution_plan_roots ts roots policy sink = Ok (plan, sink')"
  obtains e g where "expand_matrix_tasks ts = Ok e"
    and "plan_serial_union (me_tasks e) (expand_matrix_roots roots e) = Ok (ep_serial_order plan)"
    and "subgraph_union (me_tasks e) (expand_matrix_roots roots e) = Ok g"
    and "topo_order g (ep_serial_order plan)"
    and "ep_nodes plan = List.map_filter (plan_node (me_tasks e) g) (node_ids g)"
    and "ep_root plan = hd (expand_matrix_roots roots e)"
    and "ep_roots plan = (if 1 < length (expand_matrix_roots roots e)
           then expand_matrix_roots roots e else [])"
    and "ep_failure_policy plan = policy"
    and "ep_waves plan = map (\<lambda>x. [x]) (ep_serial_order plan)"
    and "sink' = map_option (\<lambda>l. l @ [PlanCreated (ep_root plan)
           (if ep_roots plan = [] then None else Some (ep_roots plan))
           (length (ep_nodes plan)) None]) sink"
proof -
  from assms obtain e order g where e: "expand_matrix_tasks ts = Ok e"
    and order: "plan_serial_union (me_tasks e) (expand_matrix_roots roots e) = Ok order"
    and g: "subgraph_union (me_tasks e) (expand_matrix_roots roots e) = Ok g"
    by (auto simp: build_execution_plan_roots_def outcome_simps Let_def)
  from order g have topo: "topo_order g order" by (auto elim: plan_serial_union_Ok)
  obtain r rs where roots: "expand_matrix_roots roots e = r # rs"
    using subgraph_union_Ok(1) [OF g] by (cases "expand_matrix_roots roots e") auto
  have em: "emit ev = (\<lambda>l. l @ [ev])" for ev by (simp add: fun_eq_iff emit_def)
  show thesis
    by (rule that [OF e _ g])
      (use assms e order g topo roots in \<open>auto simp: build_execution_plan_roots_def Let_def em
         plan_created_def\<close>)
qed

lemma plan_nodes_of_graph:
  assumes e: "subgraph_union ts roots = Ok g"
    and nodes: "ep_nodes plan = List.map_filter (plan_node ts g) (node_ids g)"
  shows "plan_node_ids plan = node_ids g"
    and "n \<in> set (ep_nodes plan) \<Longrightarrow> \<exists>d. map_of ts (pn_id n) = Some d \<and> plan_node ts g (pn_id n) = Some n"
    and "n \<in> set (ep_nodes plan) \<Longrightarrow> pn_depends_on n = deps_of g (pn_id n)"
proof -
  have defined: "\<exists>d. map_of ts x = Some d" if "x \<in> set (node_ids g)" for x
    using subgraph_union_Ok(5) [OF e, of x] that subgraph_union_Ok(3) [OF e]
    by (auto simp: task_ok_def split: option.splits)
  then have some: "plan_node ts g x = Some (the (plan_node ts g x))" if "x \<in> set (node_ids g)" for x
    using that by (fastforce simp: plan_node_def)
  have eq: "ep_nodes plan = map (\<lambda>x. the (plan_node ts g x)) (node_ids g)"
    unfolding nodes by (rule map_filter_all_Some) (use some in blast)
  have "pn_id (the (plan_node ts g x)) = x" if "x \<in> set (node_ids g)" for x
    using defined [OF that] by (auto simp: plan_node_def)
  then show "plan_node_ids plan = node_ids g"
    by (simp add: plan_node_ids_def eq map_idI)
  show node: "\<exists>d. map_of ts (pn_id n) = Some d \<and> plan_node ts g (pn_id n) = Some n"
    if n: "n \<in> set (ep_nodes plan)" for n
  proof -
    from n obtain x where x: "x \<in> set (node_ids g)" "n = the (plan_node ts g x)"
      unfolding eq by auto
    with defined [OF x(1)] some [OF x(1)] show ?thesis by (auto simp: plan_node_def)
  qed
  show "pn_depends_on n = deps_of g (pn_id n)" if "n \<in> set (ep_nodes plan)" for n
    using node [OF that] by (cases n) (auto simp: plan_node_def deps_of_def split: option.splits)
qed

text \<open>A plan whose nodes are those of a well-formed graph, in a topological order, is well-formed.\<close>

lemma plan_wf_of_graph:
  assumes wf: "graph_wf g" and topo: "topo_order g (ep_serial_order plan)"
    and ids: "plan_node_ids plan = node_ids g"
    and deps: "\<And>n. n \<in> set (ep_nodes plan) \<Longrightarrow> pn_depends_on n = deps_of g (pn_id n)"
  shows "plan_wf plan"
proof -
  have bs: "bs_wf (node_ids g)" using wf by (simp add: graph_wf_def node_ids_def bt_wf_def bt_keys_def)
  have dset: "bs_wf (deps_of g x) \<and> set (deps_of g x) \<subseteq> set (node_ids g)" for x
    using wf by (cases "dependencies g x") (auto simp: graph_wf_def deps_of_def)
  have dd: "set (plan_deps plan x) \<subseteq> set (deps_of g x)" for x
  proof (cases "x \<in> set (plan_node_ids plan)")
    case True
    then obtain n where "n \<in> set (ep_nodes plan)" "x = pn_id n" by (auto simp: plan_node_ids_def)
    then show ?thesis using plan_deps_node [of plan n] deps bs ids
      by (simp add: bs_wf_distinct)
  qed (simp add: plan_deps_no_node)
  show ?thesis
    unfolding plan_wf_def ids using bs dset deps topo dd
    by (fastforce simp: topo_order_def)
qed

lemma build_execution_plan_roots_wf:
  assumes "build_execution_plan_roots ts roots policy sink = Ok (plan, sink')"
  shows "plan_wf plan"
proof -
  from assms obtain e g
    where g: "subgraph_union (me_tasks e) (expand_matrix_roots roots e) = Ok g"
      and topo: "topo_order g (ep_serial_order plan)"
      and nodes: "ep_nodes plan = List.map_filter (plan_node (me_tasks e) g) (node_ids g)"
    by (rule build_execution_plan_roots_Ok)
  show ?thesis
    by (rule plan_wf_of_graph [OF subgraph_union_Ok(6) [OF g] topo plan_nodes_of_graph(1) [OF g nodes]
          plan_nodes_of_graph(3) [OF g nodes]])
qed

lemma build_execution_plan_roots_no_panic:
  "build_execution_plan_roots ts roots policy sink \<noteq> Panic"
proof
  assume panic: "build_execution_plan_roots ts roots policy sink = Panic"
  then obtain e where e: "expand_matrix_tasks ts = Ok e"
    by (cases "expand_matrix_tasks ts")
      (auto simp: build_execution_plan_roots_def expand_matrix_tasks_no_panic)
  let ?roots = "expand_matrix_roots roots e"
  show False
  proof (cases "subgraph_union (me_tasks e) ?roots")
    case (Ok g)
    obtain r rs where "?roots = r # rs"
      using subgraph_union_Ok(1) [OF Ok] by (cases ?roots) auto
    moreover have "topo_serial g \<noteq> Panic"
      using topo_serial_spec [OF subgraph_union_Ok(6) [OF Ok]] by auto
    ultimately show ?thesis
      using panic e Ok by (cases "topo_serial g")
        (auto simp: build_execution_plan_roots_def plan_serial_union_def Let_def)
  next
    case (Err err)
    then show ?thesis using panic e
      by (simp add: build_execution_plan_roots_def plan_serial_union_def Let_def)
  qed (simp add: subgraph_union_no_panic)
qed

lemma build_execution_plan_roots_Err:
  assumes "build_execution_plan_roots ts roots policy sink = Err err"
  shows "(\<exists>serr. expand_matrix_tasks ts = Err serr \<and> err = matrix_plan_error serr) \<or>
    (\<exists>e. expand_matrix_tasks ts = Ok e \<and>
       plan_serial_union (me_tasks e) (expand_matrix_roots roots e) = Err err)"
proof (cases "expand_matrix_tasks ts")
  case (Ok e)
  then show ?thesis
    using assms
    by (cases "plan_serial_union (me_tasks e) (expand_matrix_roots roots e)";
        cases "subgraph_union (me_tasks e) (expand_matrix_roots roots e)")
      (auto simp: build_execution_plan_roots_def Let_def plan_serial_union_def split: list.splits)
qed (use assms in \<open>auto simp: build_execution_plan_roots_def expand_matrix_tasks_no_panic\<close>)

lemma build_execution_plan_roots_node:
  assumes wf: "bt_wf ts" and ok: "validate_matrix_instance_collisions ts = Ok ()"
    and plan: "build_execution_plan_roots ts roots policy sink = Ok (plan, sink')"
    and n: "n \<in> set (ep_nodes plan)"
  shows "\<exists>name d. map_of ts name = Some d \<and> pn_id n \<in> set (instances_of ts name) \<and>
    set (pn_depends_on n) = (\<Union>dep \<in> set (td_depends_on d). set (instances_of ts dep)) \<and>
    pn_interactive n = td_interactive d \<and>
    pn_resources n = (case td_resources d of None \<Rightarrow> NodeResources_EMPTY | Some r \<Rightarrow> from_task_resources r) \<and>
    pn_operation n = Some (FlakeApp (td_app d))"
proof -
  from plan obtain e g where e: "expand_matrix_tasks ts = Ok e"
    and g: "subgraph_union (me_tasks e) (expand_matrix_roots roots e) = Ok g"
    and nodes: "ep_nodes plan = List.map_filter (plan_node (me_tasks e) g) (node_ids g)"
    by (rule build_execution_plan_roots_Ok)
  from plan_nodes_of_graph(2) [OF g nodes n] obtain d'
    where d': "map_of (me_tasks e) (pn_id n) = Some d'" "plan_node (me_tasks e) g (pn_id n) = Some n"
    by blast
  from d'(1) expand_matrix_tasks_lookup [OF wf ok e] obtain name d
    where d: "map_of ts name = Some d" "pn_id n \<in> set (instances_of ts name)" "d' = instance_def ts d"
    by blast
  have "pn_id n \<in> set (node_ids g)"
    unfolding plan_nodes_of_graph(1) [OF g nodes, symmetric] using n by (simp add: plan_node_ids_def)
  then have "deps_of g (pn_id n) = bs_of_list (task_succs (me_tasks e) (pn_id n))"
    using subgraph_union_Ok(3,4) [OF g] by (simp add: deps_of_def)
  then have deps: "set (pn_depends_on n) = set (td_depends_on d')"
    using plan_nodes_of_graph(3) [OF g nodes n] d'(1) by (simp add: task_succs_def)
  from d' have fields: "pn_interactive n = td_interactive d'"
    "pn_resources n = (case td_resources d' of None \<Rightarrow> NodeResources_EMPTY | Some r \<Rightarrow> from_task_resources r)"
    "pn_operation n = Some (FlakeApp (td_app d'))"
    by (cases n; simp add: plan_node_def from_task_app_def; blast)+
  show ?thesis
    by (intro exI [of _ name] exI [of _ d]) (use d deps fields in \<open>simp add: instance_def_def\<close>)
qed

section \<open>Properties\<close>

text \<open>
  C28: An execution plan built for a list of roots, of tasks among which none has the name of a
  matrix instance of another: the builder does not check this itself, validation does, for version
  2 documents only (\<open>v1_matrix_shadowed\<close> shows what happens otherwise). Its node ids are unique and sorted, every
  dependency is a node and is listed once, and the serial order holds every node after its
  dependencies; the nodes are exactly the instances of the roots and what they transitively
  depend on; each node carries the interactive flag, the resource demand and the app of the task it
  is an instance of, and depends on exactly the instances of that task's dependencies; one
  \<open>PlanCreated\<close> event with the plan's root and size goes to the sink, and only on success. An error
  is an invalid matrix or an error of the serial planner on the expanded tasks. The builder never
  panics: the \<open>expect\<close> on the first root cannot fail.\<close>

theorem build_execution_plan_roots_correct:
  assumes wf: "bt_wf ts" and ok: "validate_matrix_instance_collisions ts = Ok ()"
  shows "case build_execution_plan_roots ts roots policy sink of
      Ok (plan, sink') \<Rightarrow>
        plan_wf plan \<and> ep_failure_policy plan = policy \<and>
        (\<exists>e. expand_matrix_tasks ts = Ok e \<and> set (plan_node_ids plan) =
           task_reach (me_tasks e) (concat (map (instances_of ts) roots))) \<and>
        (\<forall>n \<in> set (ep_nodes plan). \<exists>name d. map_of ts name = Some d \<and>
           pn_id n \<in> set (instances_of ts name) \<and>
           set (pn_depends_on n) = (\<Union>dep \<in> set (td_depends_on d). set (instances_of ts dep)) \<and>
           pn_interactive n = td_interactive d \<and>
           pn_resources n = (case td_resources d of
             None \<Rightarrow> NodeResources_EMPTY | Some r \<Rightarrow> from_task_resources r) \<and>
           pn_operation n = Some (FlakeApp (td_app d))) \<and>
        sink' = map_option (\<lambda>l. l @ [PlanCreated (ep_root plan)
           (if ep_roots plan = [] then None else Some (ep_roots plan))
           (length (ep_nodes plan)) None]) sink
    | Err err \<Rightarrow>
        (\<exists>serr. expand_matrix_tasks ts = Err serr \<and> err = matrix_plan_error serr) \<or>
        (\<exists>e. expand_matrix_tasks ts = Ok e \<and>
           plan_serial_union (me_tasks e) (concat (map (instances_of ts) roots)) = Err err)
    | Panic \<Rightarrow> False"
proof (cases "build_execution_plan_roots ts roots policy sink")
  case (Ok r)
  obtain plan sink' where r: "r = (plan, sink')" by fastforce
  from Ok r have b: "build_execution_plan_roots ts roots policy sink = Ok (plan, sink')" by simp
  from b obtain e g where e: "expand_matrix_tasks ts = Ok e"
    and g: "subgraph_union (me_tasks e) (expand_matrix_roots roots e) = Ok g"
    and nodes: "ep_nodes plan = List.map_filter (plan_node (me_tasks e) g) (node_ids g)"
    and policy: "ep_failure_policy plan = policy"
    and sink: "sink' = map_option (\<lambda>l. l @ [PlanCreated (ep_root plan)
           (if ep_roots plan = [] then None else Some (ep_roots plan))
           (length (ep_nodes plan)) None]) sink"
    by (rule build_execution_plan_roots_Ok)
  have "set (plan_node_ids plan) = task_reach (me_tasks e) (concat (map (instances_of ts) roots))"
    using plan_nodes_of_graph(1) [OF g nodes] subgraph_union_Ok(3) [OF g]
    by (simp add: expand_matrix_roots_concat [OF wf e])
  with b e policy sink build_execution_plan_roots_node [OF wf ok b] build_execution_plan_roots_wf [OF b]
  show ?thesis by simp
next
  case (Err err)
  with build_execution_plan_roots_Err [OF Err] show ?thesis
    using expand_matrix_roots_concat [OF wf] by auto
qed (simp add: build_execution_plan_roots_no_panic)

theorem build_execution_plan_roots_correct_witness:
  "\<exists>plan. build_execution_plan_roots matrix_example [''lint''] KeepGoing (Some []) =
       Ok (plan, Some [PlanCreated ''lint'' None 3 None]) \<and> plan_wf plan \<and>
     ep_serial_order plan = [''build@0'', ''build@1'', ''lint'']"
proof -
  have "case build_execution_plan_roots matrix_example [''lint''] KeepGoing (Some []) of
      Ok (plan, s) \<Rightarrow> ep_serial_order plan = [''build@0'', ''build@1'', ''lint''] \<and>
        s = Some [PlanCreated ''lint'' None 3 None]
    | _ \<Rightarrow> False"
    by code_simp
  then obtain plan where
    plan: "build_execution_plan_roots matrix_example [''lint''] KeepGoing (Some []) =
       Ok (plan, Some [PlanCreated ''lint'' None 3 None])"
      "ep_serial_order plan = [''build@0'', ''build@1'', ''lint'']"
    by (auto split: outcome.splits)
  with build_execution_plan_roots_correct
      [where ts = matrix_example and roots = "[''lint'']" and policy = KeepGoing and sink = "Some []"]
    matrix_example_expands
  show ?thesis by simp
qed

end
