(* ===== verification/Scheduler.thy ===== *)
theory Scheduler
  imports Plan_Exec Search
begin

text \<open>
  The ready-queue scheduler (\<open>crates/nxr-task/src/scheduler.rs\<close>): its state, every operation of
  \<open>impl Scheduler\<close>, and what each operation does to the maps and sets of the state. The invariant
  and the properties are in \<open>Scheduler_Safety\<close> and \<open>Scheduler_Progress\<close>.
\<close>

section \<open>State\<close>

datatype SchedulerError =
    InvalidJobs nat
  | NotRunning string
  | UnknownNode string
  | UnschedulableCpu string u32 u32
  | UnschedulableMemory string string string

datatype NodeState = Pending | Ready | Running | Succeeded | Failed | Cancelled | Skipped

definition is_terminal :: "NodeState \<Rightarrow> bool" where
  "is_terminal st \<longleftrightarrow> st \<in> {Succeeded, Failed, Cancelled, Skipped}"

record ScheduleOutcome =
  so_success :: bool
  so_cancelled :: bool
  so_failed :: "string list"
  so_cancelled_nodes :: "string list"
  so_skipped_nodes :: "string list"

record Scheduler =
  sc_failure_policy :: FailurePolicy
  sc_jobs :: nat
  sc_resource_limits :: ResourceLimits
  sc_interactive :: "(string, bool) btmap"
  sc_node_resources :: "(string, NodeResources) btmap"
  sc_states :: "(string, NodeState) btmap"
  sc_remaining_deps :: "(string, nat) btmap"
  sc_dependents :: "(string, string list) btmap"
  sc_ready :: "string list"
  sc_running :: "string list"
  sc_held_locks :: "(string, string) btmap"
  sc_cpu_in_use :: u32
  sc_memory_in_use :: u64
  sc_fail_fast_tripped :: bool

section \<open>Construction\<close>

text \<open>\<open>validate_schedulability\<close>: the body of the loop, then the loop.\<close>

definition check_demand ::
  "ResourceLimits \<Rightarrow> string \<times> NodeResources \<Rightarrow> (SchedulerError, unit) outcome" where
  "check_demand limits = (\<lambda>(task, resources).
     if cpu_tokens resources > rl_cpu_pool limits then
       Err (UnschedulableCpu task (cpu_tokens resources) (rl_cpu_pool limits))
     else if nr_memory_bytes resources > 0 \<and> rl_memory_pool limits > 0 \<and>
             nr_memory_bytes resources > rl_memory_pool limits then
       Err (UnschedulableMemory task (format_memory_bytes (nr_memory_bytes resources))
              (format_memory_bytes (rl_memory_pool limits)))
     else Ok ())"

definition validate_schedulability :: "Scheduler \<Rightarrow> (SchedulerError, unit) outcome" where
  "validate_schedulability s = for_each (check_demand (sc_resource_limits s)) (sc_node_resources s)"

text \<open>The two loops of \<open>new\<close> that fill \<open>dependents\<close>, and the one that fills \<open>ready\<close>.\<close>

definition link_node :: "PlanNode \<Rightarrow> (string, string list) btmap \<Rightarrow> (string, string list) btmap" where
  "link_node node m = fold (\<lambda>dep. bt_set_insert dep (pn_id node)) (pn_depends_on node) m"

definition build_dependents :: "PlanNode list \<Rightarrow> (string, string list) btmap" where
  "build_dependents nodes = fold link_node nodes (fold (\<lambda>node. bt_or_default (pn_id node)) nodes [])"

definition mark_ready ::
  "(string, nat) btmap \<Rightarrow> (string, NodeState) btmap \<Rightarrow> string list \<times> (string, NodeState) btmap" where
  "mark_ready remaining states =
     fold (\<lambda>(nid, deg) (ready, states).
       if deg = 0 then (insort_insert nid ready, bt_insert nid Ready states) else (ready, states))
     remaining ([], states)"

text \<open>
  \<open>Scheduler::new\<close>; \<open>env\<close> is the value of \<open>NXR_MEMORY_POOL\<close>, which \<open>from_jobs\<close> reads.
\<close>

definition Scheduler_new ::
  "string option \<Rightarrow> ExecutionPlan \<Rightarrow> nat \<Rightarrow> (SchedulerError, Scheduler) outcome" where
  "Scheduler_new env plan jobs =
     (if jobs = 0 then Err (InvalidJobs 0)
      else
        let limits = from_jobs env jobs;
            nodes = ep_nodes plan;
            states = fold (\<lambda>node. bt_insert (pn_id node) Pending) nodes [];
            remaining = fold (\<lambda>node. bt_insert (pn_id node) (length (pn_depends_on node))) nodes [];
            interactive = fold (\<lambda>node. bt_insert (pn_id node) (pn_interactive node)) nodes [];
            resources = fold (\<lambda>node. bt_insert (pn_id node) (pn_resources node)) nodes [];
            (ready, states') = mark_ready remaining states;
            scheduler = \<lparr>
              sc_failure_policy = ep_failure_policy plan, sc_jobs = jobs,
              sc_resource_limits = limits, sc_interactive = interactive,
              sc_node_resources = resources, sc_states = states',
              sc_remaining_deps = remaining, sc_dependents = build_dependents nodes,
              sc_ready = ready, sc_running = [], sc_held_locks = [],
              sc_cpu_in_use = 0, sc_memory_in_use = 0, sc_fail_fast_tripped = False\<rparr>
        in bind (validate_schedulability scheduler) (\<lambda>_. Ok scheduler))"

definition with_resource_limits ::
  "ResourceLimits \<Rightarrow> Scheduler \<Rightarrow> (SchedulerError, Scheduler) outcome" where
  "with_resource_limits limits s =
     (let s' = s\<lparr>sc_resource_limits := limits\<rparr>
      in bind (validate_schedulability s') (\<lambda>_. Ok s'))"

definition with_failure_policy :: "FailurePolicy \<Rightarrow> Scheduler \<Rightarrow> Scheduler" where
  "with_failure_policy policy s = s\<lparr>sc_failure_policy := policy\<rparr>"

section \<open>Queries\<close>

definition is_interactive :: "Scheduler \<Rightarrow> string \<Rightarrow> bool" where
  "is_interactive s node = (case map_of (sc_interactive s) node of None \<Rightarrow> False | Some b \<Rightarrow> b)"

definition has_interactive_in_flight :: "Scheduler \<Rightarrow> bool" where
  "has_interactive_in_flight s \<longleftrightarrow> list_ex (is_interactive s) (sc_running s)"

definition node_state :: "Scheduler \<Rightarrow> string \<Rightarrow> NodeState option" where
  "node_state s node = map_of (sc_states s) node"

definition in_flight :: "Scheduler \<Rightarrow> nat" where
  "in_flight s = length (sc_running s)"

definition is_cancelled :: "Scheduler \<Rightarrow> bool" where
  "is_cancelled s = sc_fail_fast_tripped s"

definition is_finished :: "Scheduler \<Rightarrow> bool" where
  "is_finished s \<longleftrightarrow> sc_running s = [] \<and> sc_ready s = []"

definition resources_for :: "Scheduler \<Rightarrow> string \<Rightarrow> NodeResources" where
  "resources_for s node =
     (case map_of (sc_node_resources s) node of None \<Rightarrow> NodeResources_EMPTY | Some r \<Rightarrow> r)"

section \<open>Resources\<close>

definition can_acquire_resources :: "Scheduler \<Rightarrow> string \<Rightarrow> bool" where
  "can_acquire_resources s node =
     (let resources = resources_for s node; limits = sc_resource_limits s in
      if saturating_add (sc_cpu_in_use s) (cpu_tokens resources) > rl_cpu_pool limits then False
      else if nr_memory_bytes resources > 0 \<and> rl_memory_pool limits > 0 \<and>
              saturating_add (sc_memory_in_use s) (nr_memory_bytes resources) > rl_memory_pool limits
      then False
      else list_all (\<lambda>lock. case map_of (sc_held_locks s) lock of
                       None \<Rightarrow> True | Some holder \<Rightarrow> holder = node) (nr_exclusive resources))"

definition acquire_resources :: "string \<Rightarrow> Scheduler \<Rightarrow> Scheduler" where
  "acquire_resources node s =
     (let resources = resources_for s node in
      s\<lparr>sc_cpu_in_use := saturating_add (sc_cpu_in_use s) (cpu_tokens resources),
        sc_memory_in_use := saturating_add (sc_memory_in_use s) (nr_memory_bytes resources),
        sc_held_locks := fold (\<lambda>lock. bt_insert lock node) (nr_exclusive resources) (sc_held_locks s)\<rparr>)"

definition release_resources :: "string \<Rightarrow> Scheduler \<Rightarrow> Scheduler" where
  "release_resources node s =
     (let resources = resources_for s node in
      s\<lparr>sc_cpu_in_use := saturating_sub (sc_cpu_in_use s) (cpu_tokens resources),
        sc_memory_in_use := saturating_sub (sc_memory_in_use s) (nr_memory_bytes resources),
        sc_held_locks := filter (\<lambda>(_, holder). holder \<noteq> node) (sc_held_locks s)\<rparr>)"

section \<open>Starting nodes\<close>

definition set_state :: "string \<Rightarrow> NodeState \<Rightarrow> Scheduler \<Rightarrow> Scheduler" where
  "set_state node st s = s\<lparr>sc_states := bt_insert node st (sc_states s)\<rparr>"

definition not_started :: "NodeState \<Rightarrow> bool" where
  "not_started st \<longleftrightarrow> st = Pending \<or> st = Ready"

definition cancel_node :: "NodeState \<Rightarrow> string \<Rightarrow> Scheduler \<Rightarrow> Scheduler" where
  "cancel_node st nid s =
     set_state nid st (s\<lparr>sc_ready := removeAll nid (sc_ready s)\<rparr>)"

definition cancel_all_not_started :: "Scheduler \<Rightarrow> Scheduler" where
  "cancel_all_not_started s =
     (let to_cancel = map fst (filter (\<lambda>(_, state). not_started state) (sc_states s))
      in fold (cancel_node Cancelled) to_cancel s)"

text \<open>The five statements that start a node, in both branches of the loop.\<close>

definition start_node :: "string \<Rightarrow> Scheduler \<Rightarrow> Scheduler" where
  "start_node nid s =
     (let s1 = acquire_resources nid (s\<lparr>sc_ready := removeAll nid (sc_ready s)\<rparr>);
          s2 = set_state nid Running s1
      in s2\<lparr>sc_running := insort_insert nid (sc_running s2)\<rparr>)"

lemma sc_ready_start_node [simp]: "sc_ready (start_node nid s) = removeAll nid (sc_ready s)"
  by (simp add: start_node_def acquire_resources_def set_state_def Let_def)

function schedule_loop :: "Scheduler \<Rightarrow> string list \<Rightarrow> Scheduler \<times> string list" where
  "schedule_loop s started =
     (if length (sc_running s) < sc_jobs s then
        case find (can_acquire_resources s) (sc_ready s) of
          None \<Rightarrow> (s, started)
        | Some nid \<Rightarrow>
            if is_interactive s nid then
              if sc_running s \<noteq> [] \<or> started \<noteq> [] then (s, started)
              else (start_node nid s, started @ [nid])
            else schedule_loop (start_node nid s) (started @ [nid])
      else (s, started))"
  by pat_completeness auto
termination
proof (relation "measure (\<lambda>(s, _). length (sc_ready s))")
  fix s :: Scheduler and started :: "string list" and nid
  assume "find (can_acquire_resources s) (sc_ready s) = Some nid"
  then have "nid \<in> set (sc_ready s)" by (auto dest: find_SomeD)
  then have "length (removeAll nid (sc_ready s)) < length (sc_ready s)"
    by (rule length_removeAll_less)
  then show "((start_node nid s, started @ [nid]), s, started)
      \<in> measure (\<lambda>(s, _). length (sc_ready s))"
    by simp
qed simp

declare schedule_loop.simps [simp del]

definition schedule_ready :: "Scheduler \<Rightarrow> Scheduler \<times> string list" where
  "schedule_ready s =
     (if sc_fail_fast_tripped s then (cancel_all_not_started s, [])
      else if has_interactive_in_flight s then (s, [])
      else schedule_loop s [])"

section \<open>Exits\<close>

fun unlock_loop :: "string list \<Rightarrow> Scheduler \<Rightarrow> (SchedulerError, Scheduler) outcome" where
  "unlock_loop [] s = Ok s"
| "unlock_loop (child # children) s =
     (case map_of (sc_states s) child of
        None \<Rightarrow> unlock_loop children s
      | Some state \<Rightarrow>
          if state \<noteq> Pending then unlock_loop children s
          else
            case map_of (sc_remaining_deps s) child of
              None \<Rightarrow> Panic
            | Some n \<Rightarrow>
                let deg = n - 1;
                    s1 = s\<lparr>sc_remaining_deps := bt_modify child (\<lambda>_. deg) (sc_remaining_deps s)\<rparr>
                in unlock_loop children
                     (if deg = 0
                      then set_state child Ready (s1\<lparr>sc_ready := insort_insert child (sc_ready s1)\<rparr>)
                      else s1))"

definition unlock_dependents :: "string \<Rightarrow> Scheduler \<Rightarrow> (SchedulerError, Scheduler) outcome" where
  "unlock_dependents node s =
     (case map_of (sc_dependents s) node of
        None \<Rightarrow> Ok s | Some children \<Rightarrow> unlock_loop children s)"

definition children_of :: "Scheduler \<Rightarrow> string \<Rightarrow> string list" where
  "children_of s nid = (case map_of (sc_dependents s) nid of None \<Rightarrow> [] | Some cs \<Rightarrow> cs)"

text \<open>
  The walk of \<open>cancel_transitive_dependents\<close>. The head of the list is the top of the stack, so
  extending the \<open>Vec\<close> by the children puts them in front in reverse. It ends because pushing
  children leaves one node fewer that is not started.
\<close>

definition unstarted :: "Scheduler \<Rightarrow> string set" where
  "unstarted s = {x. \<exists>st. map_of (sc_states s) x = Some st \<and> not_started st}"

lemma finite_unstarted [simp]: "finite (unstarted s)"
proof -
  have "unstarted s \<subseteq> dom (map_of (sc_states s))" by (auto simp: unstarted_def)
  then show ?thesis by (rule finite_subset) (rule finite_dom_map_of)
qed

function cancel_loop :: "Scheduler \<Rightarrow> string list \<Rightarrow> string list \<Rightarrow> Scheduler" where
  "cancel_loop s [] seen = s"
| "cancel_loop s (nid # stack) seen =
     (if nid \<in> set seen then cancel_loop s stack seen
      else case map_of (sc_states s) nid of
             None \<Rightarrow> cancel_loop s stack (insort_insert nid seen)
           | Some state \<Rightarrow>
               if not_started state then
                 cancel_loop (cancel_node Skipped nid s) (rev (children_of s nid) @ stack)
                   (insort_insert nid seen)
               else cancel_loop s stack (insort_insert nid seen))"
  by pat_completeness auto
termination
proof (relation "measures [\<lambda>(s, stack, seen). card (unstarted s), \<lambda>(s, stack, seen). length stack]",
    goal_cases)
  case (4 s nid stack seen state)
  then have "nid \<in> unstarted s" by (simp add: unstarted_def)
  moreover have "unstarted (cancel_node Skipped nid s) = unstarted s - {nid}"
    by (auto simp: unstarted_def cancel_node_def set_state_def not_started_def split: if_splits)
  ultimately show ?case by (simp add: card_Diff1_less del: card_Diff_insert)
qed auto

definition cancel_transitive_dependents :: "string \<Rightarrow> Scheduler \<Rightarrow> Scheduler" where
  "cancel_transitive_dependents failed s = cancel_loop s (rev (children_of s failed)) []"

definition on_exit :: "string \<Rightarrow> i32 \<Rightarrow> Scheduler \<Rightarrow> (SchedulerError, Scheduler) outcome" where
  "on_exit node code s =
     (if \<not> bt_contains (sc_states s) node then Err (UnknownNode node)
      else if node \<notin> set (sc_running s) then Err (NotRunning node)
      else
        let s1 = release_resources node (s\<lparr>sc_running := removeAll node (sc_running s)\<rparr>) in
        if code = 0 then unlock_dependents node (set_state node Succeeded s1)
        else
          let s2 = set_state node Failed s1 in
          case sc_failure_policy s2 of
            FailFast \<Rightarrow> Ok (cancel_all_not_started (s2\<lparr>sc_fail_fast_tripped := True\<rparr>))
          | KeepGoing \<Rightarrow> Ok (cancel_transitive_dependents node s2))"

definition complete ::
  "string \<Rightarrow> i32 \<Rightarrow> Scheduler \<Rightarrow> (SchedulerError, Scheduler \<times> string list) outcome" where
  "complete node code s = bind (on_exit node code s) (\<lambda>s'. Ok (schedule_ready s'))"

text \<open>\<open>outcome\<close>: the loop over the states, with its four accumulators.\<close>

fun outcome_loop ::
  "(string, NodeState) btmap \<Rightarrow> bool \<Rightarrow> string list \<Rightarrow> string list \<Rightarrow> string list \<Rightarrow>
     bool \<times> string list \<times> string list \<times> string list" where
  "outcome_loop [] ok failed cancelled skipped = (ok, failed, cancelled, skipped)"
| "outcome_loop ((nid, state) # states) ok failed cancelled skipped =
     (case state of
        Succeeded \<Rightarrow> outcome_loop states ok failed cancelled skipped
      | Failed \<Rightarrow> outcome_loop states False (failed @ [nid]) cancelled skipped
      | Cancelled \<Rightarrow> outcome_loop states False failed (cancelled @ [nid]) skipped
      | Skipped \<Rightarrow> outcome_loop states False failed cancelled (skipped @ [nid])
      | _ \<Rightarrow> outcome_loop states False failed cancelled skipped)"

definition outcome_of :: "Scheduler \<Rightarrow> ScheduleOutcome" where
  "outcome_of s =
     (case outcome_loop (sc_states s) True [] [] [] of
        (all_succeeded, failed, cancelled_nodes, skipped_nodes) \<Rightarrow> \<lparr>
          so_success = all_succeeded, so_cancelled = sc_fail_fast_tripped s, so_failed = failed,
          so_cancelled_nodes = cancelled_nodes, so_skipped_nodes = skipped_nodes\<rparr>)"

section \<open>What the operations do to the state\<close>

lemma outcome_loop_eq:
  "outcome_loop states ok failed cancelled skipped =
     (ok \<and> list_all (\<lambda>(_, state). state = Succeeded) states,
      failed @ map fst (filter (\<lambda>(_, state). state = Failed) states),
      cancelled @ map fst (filter (\<lambda>(_, state). state = Cancelled) states),
      skipped @ map fst (filter (\<lambda>(_, state). state = Skipped) states))"
  by (induction states ok failed cancelled skipped rule: outcome_loop.induct)
    (auto split: NodeState.splits)

text \<open>
  The fields fixed at construction, and those that only starting and ending a node change.
\<close>

definition same_config :: "Scheduler \<Rightarrow> Scheduler \<Rightarrow> bool" where
  "same_config s s' \<longleftrightarrow> sc_failure_policy s' = sc_failure_policy s \<and> sc_jobs s' = sc_jobs s \<and>
     sc_resource_limits s' = sc_resource_limits s \<and> sc_interactive s' = sc_interactive s \<and>
     sc_node_resources s' = sc_node_resources s \<and> sc_dependents s' = sc_dependents s"

definition same_use :: "Scheduler \<Rightarrow> Scheduler \<Rightarrow> bool" where
  "same_use s s' \<longleftrightarrow> sc_running s' = sc_running s \<and> sc_held_locks s' = sc_held_locks s \<and>
     sc_cpu_in_use s' = sc_cpu_in_use s \<and> sc_memory_in_use s' = sc_memory_in_use s"

lemma same_config_refl [simp]: "same_config s s"
  by (simp add: same_config_def)

lemma same_use_refl [simp]: "same_use s s"
  by (simp add: same_use_def)

lemma same_config_trans: "same_config s t \<Longrightarrow> same_config t u \<Longrightarrow> same_config s u"
  by (simp add: same_config_def)

lemma same_use_trans: "same_use s t \<Longrightarrow> same_use t u \<Longrightarrow> same_use s u"
  by (simp add: same_use_def)

lemma same_config_queries:
  assumes "same_config s s'"
  shows "is_interactive s' = is_interactive s" and "resources_for s' = resources_for s"
    and "children_of s' = children_of s"
    and "validate_schedulability s' = validate_schedulability s"
  using assms
  by (auto simp: same_config_def is_interactive_def resources_for_def children_of_def
      validate_schedulability_def fun_eq_iff)

lemma node_state_set_state [simp]:
  "node_state (set_state nid st s) = (node_state s)(nid \<mapsto> st)"
  by (simp add: node_state_def set_state_def fun_eq_iff)

lemma set_state_fields [simp]:
  "same_config s (set_state nid st s)" "same_use s (set_state nid st s)"
  "sc_ready (set_state nid st s) = sc_ready s"
  "sc_remaining_deps (set_state nid st s) = sc_remaining_deps s"
  "sc_fail_fast_tripped (set_state nid st s) = sc_fail_fast_tripped s"
  "bt_wf (sc_states s) \<Longrightarrow> bt_wf (sc_states (set_state nid st s))"
  by (simp_all add: set_state_def same_config_def same_use_def)

lemma cancel_node_fields [simp]:
  "same_config s (cancel_node st nid s)" "same_use s (cancel_node st nid s)"
  "sc_ready (cancel_node st nid s) = removeAll nid (sc_ready s)"
  "sc_remaining_deps (cancel_node st nid s) = sc_remaining_deps s"
  "sc_fail_fast_tripped (cancel_node st nid s) = sc_fail_fast_tripped s"
  "node_state (cancel_node st nid s) = (node_state s)(nid \<mapsto> st)"
  "bt_wf (sc_states s) \<Longrightarrow> bt_wf (sc_states (cancel_node st nid s))"
  by (simp_all add: cancel_node_def set_state_def same_config_def same_use_def node_state_def fun_eq_iff)

lemma unstarted_node_state: "unstarted s = {x. \<exists>st. node_state s x = Some st \<and> not_started st}"
  by (simp add: unstarted_def node_state_def)

lemma cancel_nodes_fields:
  "same_config s (fold (cancel_node st) ids s)"
  "same_use s (fold (cancel_node st) ids s)"
  "sc_ready (fold (cancel_node st) ids s) = filter (\<lambda>x. x \<notin> set ids) (sc_ready s)"
  "sc_remaining_deps (fold (cancel_node st) ids s) = sc_remaining_deps s"
  "sc_fail_fast_tripped (fold (cancel_node st) ids s) = sc_fail_fast_tripped s"
  "node_state (fold (cancel_node st) ids s) x = (if x \<in> set ids then Some st else node_state s x)"
  "bt_wf (sc_states s) \<Longrightarrow> bt_wf (sc_states (fold (cancel_node st) ids s))"
proof (induction ids arbitrary: s)
  case (Cons a ids)
  {
    case 1
    from Cons(1) [of "cancel_node st a s"] show ?case by (auto intro: same_config_trans [rotated])
  next
    case 2
    from Cons(2) [of "cancel_node st a s"] show ?case by (auto intro: same_use_trans [rotated])
  next
    case 3
    show ?case by (auto simp: Cons(3) removeAll_filter_not_eq intro: filter_cong)
  next
    case 4
    show ?case by (simp add: Cons(4))
  next
    case 5
    show ?case by (simp add: Cons(5))
  next
    case 6
    show ?case by (simp add: Cons(6))
  next
    case 7
    then show ?case by (simp add: Cons(7))
  }
qed simp_all

lemma cancel_all_fields:
  assumes "bt_wf (sc_states s)"
  shows "same_config s (cancel_all_not_started s)" and "same_use s (cancel_all_not_started s)"
    and "sc_ready (cancel_all_not_started s) = filter (\<lambda>x. x \<notin> unstarted s) (sc_ready s)"
    and "sc_remaining_deps (cancel_all_not_started s) = sc_remaining_deps s"
    and "sc_fail_fast_tripped (cancel_all_not_started s) = sc_fail_fast_tripped s"
    and "node_state (cancel_all_not_started s) x =
      (if x \<in> unstarted s then Some Cancelled else node_state s x)"
    and "bt_wf (sc_states (cancel_all_not_started s))"
proof -
  have "set (map fst (filter (\<lambda>(_, state). not_started state) (sc_states s))) = unstarted s"
    using bt_wf_lookup [OF assms] by (force simp: unstarted_def)
  with assms show "same_config s (cancel_all_not_started s)" "same_use s (cancel_all_not_started s)"
    "sc_ready (cancel_all_not_started s) = filter (\<lambda>x. x \<notin> unstarted s) (sc_ready s)"
    "sc_remaining_deps (cancel_all_not_started s) = sc_remaining_deps s"
    "sc_fail_fast_tripped (cancel_all_not_started s) = sc_fail_fast_tripped s"
    "node_state (cancel_all_not_started s) x =
      (if x \<in> unstarted s then Some Cancelled else node_state s x)"
    "bt_wf (sc_states (cancel_all_not_started s))"
    by (simp_all only: cancel_all_not_started_def Let_def cancel_nodes_fields)
qed

text \<open>
  Unlocking: every pending child loses one open dependency and becomes ready when none is left.
\<close>

definition last_open :: "Scheduler \<Rightarrow> string \<Rightarrow> bool" where
  "last_open s x \<longleftrightarrow> node_state s x = Some Pending \<and>
     (\<exists>n. map_of (sc_remaining_deps s) x = Some n \<and> n \<le> 1)"

definition unlocked :: "string list \<Rightarrow> Scheduler \<Rightarrow> Scheduler \<Rightarrow> bool" where
  "unlocked children s s' \<longleftrightarrow> same_config s s' \<and> same_use s s' \<and>
    sc_fail_fast_tripped s' = sc_fail_fast_tripped s \<and>
    bt_wf (sc_states s') \<and> bs_wf (sc_ready s') \<and>
    (\<forall>x. map_of (sc_remaining_deps s') x =
       (if x \<in> set children \<and> node_state s x = Some Pending
        then map_option (\<lambda>n. n - 1) (map_of (sc_remaining_deps s) x)
        else map_of (sc_remaining_deps s) x)) \<and>
    (\<forall>x. node_state s' x =
       (if x \<in> set children \<and> last_open s x then Some Ready else node_state s x)) \<and>
    set (sc_ready s') = set (sc_ready s) \<union> {x \<in> set children. last_open s x}"

lemma unlock_loop_spec:
  assumes "distinct children" and "bt_wf (sc_states s)" and "bs_wf (sc_ready s)"
    and "\<And>x. node_state s x = Some Pending \<Longrightarrow> \<exists>n. map_of (sc_remaining_deps s) x = Some n"
  shows "\<exists>s'. unlock_loop children s = Ok s' \<and> unlocked children s s'"
  using assms
proof (induction children arbitrary: s)
  case Nil
  then show ?case by (simp add: unlocked_def)
next
  case (Cons c cs)
  show ?case
  proof (cases "node_state s c = Some Pending")
    case False
    then have "unlock_loop (c # cs) s = unlock_loop cs s"
      by (cases "node_state s c") (auto simp: node_state_def)
    moreover obtain s' where s': "unlock_loop cs s = Ok s'" "unlocked cs s s'"
      using Cons.IH [of s] Cons.prems by auto
    moreover from s'(2) False have "unlocked (c # cs) s s'"
      by (auto simp: unlocked_def last_open_def)
    ultimately show ?thesis by auto
  next
    case True
    with Cons.prems(4) obtain n where n: "map_of (sc_remaining_deps s) c = Some n" by blast
    define s1 where "s1 = s\<lparr>sc_remaining_deps := bt_modify c (\<lambda>_. n - 1) (sc_remaining_deps s)\<rparr>"
    define t where "t = (if n - 1 = 0
      then set_state c Ready (s1\<lparr>sc_ready := insort_insert c (sc_ready s1)\<rparr>) else s1)"
    have loop: "unlock_loop (c # cs) s = unlock_loop cs t"
      using True n by (simp add: node_state_def Let_def t_def s1_def)
    have cfg: "same_config s t" "same_use s t" "sc_fail_fast_tripped t = sc_fail_fast_tripped s"
      by (simp_all add: same_config_def same_use_def set_state_def t_def s1_def)
    have st: "node_state t x = (if x = c \<and> n \<le> 1 then Some Ready else node_state s x)" for x
      by (simp add: node_state_def set_state_def t_def s1_def)
    have rem: "map_of (sc_remaining_deps t) x =
        (if x = c then Some (n - 1) else map_of (sc_remaining_deps s) x)" for x
      using n by (simp add: t_def s1_def)
    have wf: "bt_wf (sc_states t)" "bs_wf (sc_ready t)"
      using Cons.prems by (simp_all add: set_state_def t_def s1_def)
    have rdy: "set (sc_ready t) = set (sc_ready s) \<union> (if n \<le> 1 then {c} else {})"
      by (auto simp: set_insort_insert t_def s1_def)
    from Cons.prems have c: "c \<notin> set cs" "distinct cs" by auto
    have "\<exists>m. map_of (sc_remaining_deps t) x = Some m" if "node_state t x = Some Pending" for x
      using that Cons.prems(4) [of x] by (auto simp: st rem split: if_splits)
    from Cons.IH [OF c(2) wf this] obtain s' where s': "unlock_loop cs t = Ok s'" "unlocked cs t s'"
      by blast
    have lo: "last_open t x \<longleftrightarrow> last_open s x" if "x \<noteq> c" for x
      using that by (simp add: last_open_def st rem)
    have loc: "last_open s c \<longleftrightarrow> n \<le> 1" using True n by (simp add: last_open_def)
    have "unlocked (c # cs) s s'"
      unfolding unlocked_def
    proof (intro conjI allI)
      show "same_config s s'" "same_use s s'"
        using s'(2) cfg same_config_trans same_use_trans unfolding unlocked_def by blast+
      show "sc_fail_fast_tripped s' = sc_fail_fast_tripped s" "bt_wf (sc_states s')" "bs_wf (sc_ready s')"
        using s'(2) cfg(3) unfolding unlocked_def by simp_all
      show "map_of (sc_remaining_deps s') x =
         (if x \<in> set (c # cs) \<and> node_state s x = Some Pending
          then map_option (\<lambda>n. n - 1) (map_of (sc_remaining_deps s) x)
          else map_of (sc_remaining_deps s) x)" for x
        using s'(2) True n c(1) unfolding unlocked_def st rem by auto
      show "node_state s' x = (if x \<in> set (c # cs) \<and> last_open s x then Some Ready else node_state s x)" for x
      proof -
        have "node_state s' x = (if x \<in> set cs \<and> last_open t x then Some Ready else node_state t x)"
          using s'(2) unfolding unlocked_def by blast
        then show ?thesis using c(1) lo [of x] loc by (cases "x = c") (auto simp: st)
      qed
      show "set (sc_ready s') = set (sc_ready s) \<union> {x \<in> set (c # cs). last_open s x}"
      proof -
        have "{x \<in> set cs. last_open t x} = {x \<in> set cs. last_open s x}"
          using lo c(1) by (metis (lifting))
        with s'(2) rdy loc show ?thesis unfolding unlocked_def by auto
      qed
    qed
    with s'(1) loop show ?thesis by auto
  qed
qed

section \<open>Cancellation is a search\<close>

text \<open>
  The walk of \<open>cancel_transitive_dependents\<close> without its effects: from a node that was not started
  it goes on to the node's dependents, from any other node nowhere.
\<close>

definition open_dependents :: "Scheduler \<Rightarrow> string \<Rightarrow> string list" where
  "open_dependents s x = (if x \<in> unstarted s then children_of s x else [])"

function cancel_walk :: "Scheduler \<Rightarrow> string list \<Rightarrow> string list \<Rightarrow> string list option" where
  "cancel_walk s [] seen = Some seen"
| "cancel_walk s (x # st) seen =
     (if x \<in> set seen then cancel_walk s st seen
      else cancel_walk s (rev (open_dependents s x) @ st) (insort_insert x seen))"
  by pat_completeness auto
termination
proof (relation "measures [\<lambda>(s, st, seen). card (unstarted s - set seen), \<lambda>(s, st, seen). length st]",
    goal_cases)
  case (3 s x st seen)
  show ?case
  proof (cases "x \<in> unstarted s")
    case True
    then have "card (unstarted s - insert x (set seen)) < card (unstarted s - set seen)"
      using 3 by (intro psubset_card_mono) auto
    then show ?thesis by (simp add: set_insort_insert)
  next
    case False
    then have "unstarted s - insert x (set seen) = unstarted s - set seen" by blast
    with False show ?thesis by (simp add: set_insort_insert open_dependents_def)
  qed
qed auto

interpretation cancel: reach_search "open_dependents s" "\<lambda>_. True" "unstarted s" insort_insert
  "cancel_walk s" for s
proof unfold_locales
  show "open_dependents s x \<noteq> [] \<Longrightarrow> x \<in> unstarted s" for x
    by (auto simp: open_dependents_def split: if_splits)
qed (simp_all add: set_insort_insert)

text \<open>The state in which the nodes of \<open>vis\<close> that \<open>s\<close> had not started are skipped.\<close>

definition skips :: "Scheduler \<Rightarrow> string set \<Rightarrow> Scheduler \<Rightarrow> bool" where
  "skips s vis s' \<longleftrightarrow> same_config s s' \<and> same_use s s' \<and>
     sc_fail_fast_tripped s' = sc_fail_fast_tripped s \<and>
     sc_remaining_deps s' = sc_remaining_deps s \<and> bt_wf (sc_states s') \<and>
     sc_ready s' = filter (\<lambda>x. x \<notin> vis \<inter> unstarted s) (sc_ready s) \<and>
     (\<forall>x. node_state s' x = (if x \<in> vis \<inter> unstarted s then Some Skipped else node_state s x))"

lemma skips_none: "bt_wf (sc_states s) \<Longrightarrow> skips s {} s"
  by (simp add: skips_def)

lemma cancel_loop_skips:
  "skips s (set seen) t \<Longrightarrow>
     \<exists>V. cancel_walk s stack seen = Some V \<and> skips s (set V) (cancel_loop t stack seen)"
proof (induction stack seen arbitrary: t rule: cancel.search_induct [where s = s])
  case (seen x st vis)
  then show ?case by simp
next
  case (new x st vis)
  have kids: "children_of t = children_of s"
    using new.prems by (simp add: skips_def same_config_queries)
  show ?case
  proof (cases "x \<in> unstarted s")
    case True
    then obtain ns where ns: "node_state s x = Some ns" "not_started ns"
      by (auto simp: unstarted_node_state)
    with new.prems new.hyps have "node_state t x = Some ns" by (simp add: skips_def)
    with ns new.hyps have loop: "cancel_loop t (x # st) vis =
        cancel_loop (cancel_node Skipped x t) (rev (open_dependents s x) @ st) (insort_insert x vis)"
      using True by (simp add: node_state_def kids open_dependents_def)
    have "skips s (set (insort_insert x vis)) (cancel_node Skipped x t)"
      using new.prems True
      by (auto simp: skips_def set_insort_insert removeAll_filter_not_eq filter_filter
          intro: same_config_trans same_use_trans intro!: filter_cong)
    from new.IH [OF this] new.hyps show ?thesis unfolding loop by simp
  next
    case False
    then have "node_state t x = node_state s x" using new.prems by (simp add: skips_def)
    with False new.hyps have loop: "cancel_loop t (x # st) vis =
        cancel_loop t (rev (open_dependents s x) @ st) (insort_insert x vis)"
      by (cases "node_state s x")
        (auto simp: node_state_def unstarted_node_state open_dependents_def)
    have "insert x (set vis) \<inter> unstarted s = set vis \<inter> unstarted s" using False by blast
    then have "skips s (set (insort_insert x vis)) t"
      using new.prems by (simp add: skips_def set_insort_insert)
    from new.IH [OF this] new.hyps show ?thesis unfolding loop by simp
  qed
qed simp_all

text \<open>
  \<open>cancel_transitive_dependents\<close> skips exactly the nodes it can reach from the dependents of the
  failed node through nodes that were not started.
\<close>

lemma cancel_transitive_dependents_skips:
  assumes "bt_wf (sc_states s)"
  shows "skips s {x. \<exists>c \<in> set (children_of s failed). (\<lambda>x y. y \<in> set (open_dependents s x))\<^sup>*\<^sup>* c x}
    (cancel_transitive_dependents failed s)"
proof -
  from cancel_loop_skips [of s "[]" s "rev (children_of s failed)"] skips_none [OF assms]
  obtain V where V: "cancel_walk s (rev (children_of s failed)) [] = Some V"
    "skips s (set V) (cancel_transitive_dependents failed s)"
    by (auto simp: cancel_transitive_dependents_def)
  from cancel.search_reachable [OF V(1)]
  have "set V = {x. \<exists>c \<in> set (children_of s failed). (\<lambda>x y. y \<in> set (open_dependents s x))\<^sup>*\<^sup>* c x}"
    by simp
  with V(2) show ?thesis by simp
qed

end
