(* ===== verification/Scheduler_Safety.thy ===== *)
theory Scheduler_Safety
  imports Scheduler
begin

text \<open>
  The invariant of the scheduler and the safety properties it gives. The scheduler is a transition
  system: it starts from \<open>new\<close>, possibly with its limits or its policy replaced, and steps by
  \<open>schedule_ready\<close> and \<open>on_exit\<close> in any order. The invariant has three parts: the tables fixed at
  construction agree with the plan, the counters and locks account for exactly the running nodes,
  and the node states agree with each other along the dependencies.
\<close>

section \<open>The invariant\<close>

definition config_ok :: "ExecutionPlan \<Rightarrow> Scheduler \<Rightarrow> bool" where
  "config_ok plan s \<longleftrightarrow> 0 < sc_jobs s \<and>
     (\<forall>n \<in> set (ep_nodes plan). map_of (sc_interactive s) (pn_id n) = Some (pn_interactive n) \<and>
        map_of (sc_node_resources s) (pn_id n) = Some (pn_resources n)) \<and>
     (\<forall>x. bs_wf (children_of s x) \<and>
        set (children_of s x) = {y \<in> set (plan_node_ids plan). x \<in> set (plan_deps plan y)}) \<and>
     validate_schedulability s = Ok ()"

definition cpu_sum :: "Scheduler \<Rightarrow> nat" where
  "cpu_sum s = sum_list (map (\<lambda>x. unat (cpu_tokens (resources_for s x))) (sc_running s))"

definition memory_sum :: "Scheduler \<Rightarrow> nat" where
  "memory_sum s = sum_list (map (\<lambda>x. unat (nr_memory_bytes (resources_for s x))) (sc_running s))"

text \<open>
  The counters never exceed what the running nodes declared. Below the largest machine value they
  are exact and within the pool; a memory pool of 0 means no limit.
\<close>

definition cpu_ok :: "Scheduler \<Rightarrow> bool" where
  "cpu_ok s \<longleftrightarrow> unat (sc_cpu_in_use s) \<le> cpu_sum s \<and>
     (rl_cpu_pool (sc_resource_limits s) < - 1 \<longrightarrow>
        unat (sc_cpu_in_use s) = cpu_sum s \<and> cpu_sum s \<le> unat (rl_cpu_pool (sc_resource_limits s)))"

definition memory_ok :: "Scheduler \<Rightarrow> bool" where
  "memory_ok s \<longleftrightarrow> unat (sc_memory_in_use s) \<le> memory_sum s \<and>
     (0 < rl_memory_pool (sc_resource_limits s) \<and> rl_memory_pool (sc_resource_limits s) < - 1 \<longrightarrow>
        unat (sc_memory_in_use s) = memory_sum s \<and>
        memory_sum s \<le> unat (rl_memory_pool (sc_resource_limits s)))"

definition locks_ok :: "Scheduler \<Rightarrow> bool" where
  "locks_ok s \<longleftrightarrow> bt_wf (sc_held_locks s) \<and>
     (\<forall>l h. map_of (sc_held_locks s) l = Some h \<longleftrightarrow>
        h \<in> set (sc_running s) \<and> l \<in> set (nr_exclusive (resources_for s h)))"

definition use_ok :: "Scheduler \<Rightarrow> bool" where
  "use_ok s \<longleftrightarrow> bs_wf (sc_running s) \<and> length (sc_running s) \<le> sc_jobs s \<and>
     cpu_ok s \<and> memory_ok s \<and> locks_ok s \<and>
     (\<forall>x \<in> set (sc_running s). is_interactive s x \<longrightarrow> sc_running s = [x])"

definition dep_edge :: "ExecutionPlan \<Rightarrow> string \<Rightarrow> string \<Rightarrow> bool" where
  "dep_edge plan x d \<longleftrightarrow> d \<in> set (plan_deps plan x)"

definition open_deps :: "ExecutionPlan \<Rightarrow> Scheduler \<Rightarrow> string \<Rightarrow> string set" where
  "open_deps plan s x = {d \<in> set (plan_deps plan x). node_state s d \<noteq> Some Succeeded}"

definition tables_ok :: "ExecutionPlan \<Rightarrow> Scheduler \<Rightarrow> bool" where
  "tables_ok plan s \<longleftrightarrow> bt_wf (sc_states s) \<and> bs_wf (sc_ready s) \<and>
     dom (node_state s) = set (plan_node_ids plan) \<and>
     set (sc_ready s) = {x. node_state s x = Some Ready} \<and>
     set (sc_running s) = {x. node_state s x = Some Running}"

definition deps_ok :: "ExecutionPlan \<Rightarrow> Scheduler \<Rightarrow> bool" where
  "deps_ok plan s \<longleftrightarrow>
     (\<forall>x. node_state s x \<in> {Some Ready, Some Running, Some Succeeded, Some Failed} \<longrightarrow>
        open_deps plan s x = {}) \<and>
     (\<forall>x. node_state s x = Some Pending \<longrightarrow>
        map_of (sc_remaining_deps s) x = Some (card (open_deps plan s x)) \<and>
        open_deps plan s x \<noteq> {} \<and>
        (\<forall>d \<in> set (plan_deps plan x).
           node_state s d \<notin> {Some Failed, Some Cancelled, Some Skipped}))"

text \<open>Why a node did not run: a failure and the fail-fast policy, or a failed dependency.\<close>

definition causes_ok :: "ExecutionPlan \<Rightarrow> Scheduler \<Rightarrow> bool" where
  "causes_ok plan s \<longleftrightarrow>
     (sc_fail_fast_tripped s \<longrightarrow> unstarted s = {} \<and> (\<exists>f. node_state s f = Some Failed)) \<and>
     (\<forall>x. node_state s x = Some Cancelled \<longrightarrow> sc_fail_fast_tripped s) \<and>
     (\<forall>x. node_state s x = Some Skipped \<longrightarrow>
        (\<exists>f. node_state s f = Some Failed \<and> (dep_edge plan)\<^sup>+\<^sup>+ x f))"

definition sched_inv :: "ExecutionPlan \<Rightarrow> Scheduler \<Rightarrow> bool" where
  "sched_inv plan s \<longleftrightarrow> config_ok plan s \<and> use_ok s \<and> tables_ok plan s \<and> deps_ok plan s \<and>
     causes_ok plan s"

text \<open>The scheduler as a transition system.\<close>

inductive fresh :: "ExecutionPlan \<Rightarrow> Scheduler \<Rightarrow> bool" for plan where
  fresh_new: "Scheduler_new env plan jobs = Ok s \<Longrightarrow> fresh plan s"
| fresh_limits: "fresh plan s \<Longrightarrow> with_resource_limits limits s = Ok s' \<Longrightarrow> fresh plan s'"
| fresh_policy: "fresh plan s \<Longrightarrow> fresh plan (with_failure_policy policy s)"

inductive sched_step :: "Scheduler \<Rightarrow> Scheduler \<Rightarrow> bool" where
  step_schedule: "schedule_ready s = (s', started) \<Longrightarrow> sched_step s s'"
| step_exit: "on_exit node code s = Ok s' \<Longrightarrow> sched_step s s'"

inductive_cases sched_stepE: "sched_step s s'"

section \<open>Counters and locks\<close>

lemma same_use_sums:
  assumes "same_config s s'" and "same_use s s'"
  shows "use_ok s' \<longleftrightarrow> use_ok s"
  using assms same_config_queries [OF assms(1)]
  by (simp add: use_ok_def cpu_ok_def memory_ok_def locks_ok_def cpu_sum_def memory_sum_def
      same_use_def same_config_def)

lemma start_node_fields:
  "same_config s (start_node nid s)"
  "sc_running (start_node nid s) = insort_insert nid (sc_running s)"
  "sc_cpu_in_use (start_node nid s) =
     saturating_add (sc_cpu_in_use s) (cpu_tokens (resources_for s nid))"
  "sc_memory_in_use (start_node nid s) =
     saturating_add (sc_memory_in_use s) (nr_memory_bytes (resources_for s nid))"
  "sc_held_locks (start_node nid s) =
     fold (\<lambda>lock. bt_insert lock nid) (nr_exclusive (resources_for s nid)) (sc_held_locks s)"
  "sc_remaining_deps (start_node nid s) = sc_remaining_deps s"
  "sc_fail_fast_tripped (start_node nid s) = sc_fail_fast_tripped s"
  "node_state (start_node nid s) = (node_state s)(nid \<mapsto> Running)"
  "bt_wf (sc_states s) \<Longrightarrow> bt_wf (sc_states (start_node nid s))"
  by (simp_all add: start_node_def acquire_resources_def set_state_def Let_def same_config_def
      resources_for_def node_state_def fun_eq_iff)

lemma can_acquire_cpu:
  "can_acquire_resources s nid \<Longrightarrow>
     saturating_add (sc_cpu_in_use s) (cpu_tokens (resources_for s nid)) \<le>
       rl_cpu_pool (sc_resource_limits s)"
  by (auto simp: can_acquire_resources_def Let_def split: if_splits)

lemma can_acquire_memory:
  "can_acquire_resources s nid \<Longrightarrow> nr_memory_bytes (resources_for s nid) > 0 \<Longrightarrow>
     rl_memory_pool (sc_resource_limits s) > 0 \<Longrightarrow>
     saturating_add (sc_memory_in_use s) (nr_memory_bytes (resources_for s nid)) \<le>
       rl_memory_pool (sc_resource_limits s)"
  by (auto simp: can_acquire_resources_def Let_def split: if_splits)

lemma can_acquire_locks:
  "can_acquire_resources s nid \<Longrightarrow> l \<in> set (nr_exclusive (resources_for s nid)) \<Longrightarrow>
     map_of (sc_held_locks s) l = Some h \<Longrightarrow> h = nid"
  by (auto simp: can_acquire_resources_def Let_def list_all_iff split: if_splits option.splits)

lemma word_less_max: "a < (- 1 :: 'a::len word) \<Longrightarrow> unat a < 2 ^ LENGTH('a) - 1"
  by (simp add: word_less_nat_alt unat_max_word)

lemma cpu_ok_start:
  assumes "cpu_ok s" and "can_acquire_resources s nid" and "nid \<notin> set (sc_running s)"
  shows "cpu_ok (start_node nid s)"
proof -
  have sum: "cpu_sum (start_node nid s) = unat (cpu_tokens (resources_for s nid)) + cpu_sum s"
    using assms(3) same_config_queries(2) [OF start_node_fields(1), of nid s]
    by (simp add: cpu_sum_def start_node_fields(2) sum_list_insort_insert)
  have lim: "sc_resource_limits (start_node nid s) = sc_resource_limits s"
    using start_node_fields(1) [of s nid] by (simp add: same_config_def)
  have "unat (saturating_add (sc_cpu_in_use s) (cpu_tokens (resources_for s nid))) \<le>
      unat (rl_cpu_pool (sc_resource_limits s))"
    using can_acquire_cpu [OF assms(2)] by (simp add: word_le_nat_alt)
  with assms(1) word_less_max [of "rl_cpu_pool (sc_resource_limits s)"] show ?thesis
    by (auto simp: cpu_ok_def sum lim start_node_fields(3) unat_saturating_add)
qed

lemma memory_ok_start:
  assumes "memory_ok s" and "can_acquire_resources s nid" and "nid \<notin> set (sc_running s)"
  shows "memory_ok (start_node nid s)"
proof -
  let ?need = "nr_memory_bytes (resources_for s nid)" and ?pool = "rl_memory_pool (sc_resource_limits s)"
  have sum: "memory_sum (start_node nid s) = unat ?need + memory_sum s"
    using assms(3) same_config_queries(2) [OF start_node_fields(1), of nid s]
    by (simp add: memory_sum_def start_node_fields(2) sum_list_insort_insert)
  have lim: "sc_resource_limits (start_node nid s) = sc_resource_limits s"
    using start_node_fields(1) [of s nid] by (simp add: same_config_def)
  have "0 < ?need \<Longrightarrow> 0 < ?pool \<Longrightarrow>
      unat (saturating_add (sc_memory_in_use s) ?need) \<le> unat ?pool"
    using can_acquire_memory [OF assms(2)] by (simp add: word_le_nat_alt)
  moreover have "?need = 0 \<or> 0 < ?need" by (simp add: word_gt_0)
  ultimately show ?thesis
    using assms(1) word_less_max [of ?pool]
    by (auto simp: memory_ok_def sum lim start_node_fields(4) unat_saturating_add)
qed

lemma locks_ok_start:
  assumes "locks_ok s" and "can_acquire_resources s nid" and "nid \<notin> set (sc_running s)"
  shows "locks_ok (start_node nid s)"
proof -
  have "map_of (sc_held_locks (start_node nid s)) l =
      (if l \<in> set (nr_exclusive (resources_for s nid)) then Some nid else map_of (sc_held_locks s) l)" for l
    by (simp add: start_node_fields(5) btm.look_fold_fun)
  moreover have "bt_wf (sc_held_locks (start_node nid s))"
    using assms(1) btm.invar_fold [where f = "\<lambda>l :: string. l" and g = "\<lambda>_. nid"]
    by (simp add: start_node_fields(5) locks_ok_def)
  ultimately show ?thesis
    using assms(1,3) can_acquire_locks [OF assms(2)]
      same_config_queries(2) [OF start_node_fields(1), of nid s]
    by (auto simp: locks_ok_def start_node_fields(2) set_insort_insert split: if_splits)
qed

lemma use_ok_start:
  assumes "use_ok s" and "can_acquire_resources s nid" and "nid \<notin> set (sc_running s)"
    and "length (sc_running s) < sc_jobs s" and "\<not> has_interactive_in_flight s"
    and "is_interactive s nid \<Longrightarrow> sc_running s = []"
  shows "use_ok (start_node nid s)"
proof -
  have cfg: "sc_jobs (start_node nid s) = sc_jobs s"
    using start_node_fields(1) [of s nid] by (simp add: same_config_def)
  have "sc_running s = []" if "x \<in> set (insort_insert nid (sc_running s))" "is_interactive s x" for x
    using that assms(5,6) by (auto simp: set_insort_insert has_interactive_in_flight_def list_ex_iff)
  then have "insort_insert nid (sc_running s) = [x]"
    if "x \<in> set (insort_insert nid (sc_running s))" "is_interactive s x" for x
    using that by (fastforce simp: insort_insert_key_def)
  then show ?thesis
    using assms(1,3,4) cpu_ok_start [OF _ assms(2,3)] memory_ok_start [OF _ assms(2,3)]
      locks_ok_start [OF _ assms(2,3)] same_config_queries(1) [OF start_node_fields(1), of nid s]
    by (simp add: use_ok_def cfg start_node_fields(2) length_insort_insert)
qed

lemma has_interactive_start:
  "\<not> has_interactive_in_flight s \<Longrightarrow> \<not> is_interactive s nid \<Longrightarrow>
     \<not> has_interactive_in_flight (start_node nid s)"
  using same_config_queries(1) [OF start_node_fields(1), of nid s]
  by (auto simp: has_interactive_in_flight_def list_ex_iff start_node_fields(2) set_insort_insert)

text \<open>Ending a node gives back what starting it took.\<close>

definition end_node :: "string \<Rightarrow> Scheduler \<Rightarrow> Scheduler" where
  "end_node node s = release_resources node (s\<lparr>sc_running := removeAll node (sc_running s)\<rparr>)"

lemma end_node_fields:
  "same_config s (end_node node s)"
  "sc_running (end_node node s) = removeAll node (sc_running s)"
  "sc_cpu_in_use (end_node node s) =
     saturating_sub (sc_cpu_in_use s) (cpu_tokens (resources_for s node))"
  "sc_memory_in_use (end_node node s) =
     saturating_sub (sc_memory_in_use s) (nr_memory_bytes (resources_for s node))"
  "sc_held_locks (end_node node s) = filter (\<lambda>(_, holder). holder \<noteq> node) (sc_held_locks s)"
  "sc_remaining_deps (end_node node s) = sc_remaining_deps s"
  "sc_fail_fast_tripped (end_node node s) = sc_fail_fast_tripped s"
  "sc_ready (end_node node s) = sc_ready s"
  "sc_states (end_node node s) = sc_states s"
  by (simp_all add: end_node_def release_resources_def Let_def same_config_def resources_for_def)

lemma map_of_filter_value:
  "bt_wf m \<Longrightarrow> map_of (filter (\<lambda>(_, v). P v) m) k = Some v \<longleftrightarrow> map_of m k = Some v \<and> P v"
  by (simp add: bt_wf_lookup [symmetric] bt_wf_map_filter)

lemma sums_end_node:
  assumes "distinct (sc_running s)" and "node \<in> set (sc_running s)"
  shows "cpu_sum (end_node node s) + unat (cpu_tokens (resources_for s node)) = cpu_sum s"
    and "memory_sum (end_node node s) + unat (nr_memory_bytes (resources_for s node)) = memory_sum s"
  using sum_list_removeAll [OF assms] same_config_queries(2) [OF end_node_fields(1), of node s]
  by (simp_all add: cpu_sum_def memory_sum_def end_node_fields(2))

lemma use_ok_end:
  assumes "use_ok s" and "node \<in> set (sc_running s)"
  shows "use_ok (end_node node s)"
proof -
  have bs: "bs_wf (sc_running s)" using assms(1) by (simp add: use_ok_def)
  then have dist: "distinct (sc_running s)" by (rule bs_wf_distinct)
  note q = same_config_queries [OF end_node_fields(1), of node s]
  have lim: "sc_resource_limits (end_node node s) = sc_resource_limits s"
    "sc_jobs (end_node node s) = sc_jobs s"
    using end_node_fields(1) [of s node] by (simp_all add: same_config_def)
  have "cpu_ok (end_node node s)" "memory_ok (end_node node s)"
    using assms(1) sums_end_node [OF dist assms(2)]
    by (auto simp: use_ok_def cpu_ok_def memory_ok_def lim end_node_fields(3,4) unat_saturating_sub)
  moreover have "locks_ok (end_node node s)"
    using assms(1)
    by (auto simp: use_ok_def locks_ok_def end_node_fields(2,5) q map_of_filter_value
        bt_wf_map_filter)
  moreover have "length (removeAll node (sc_running s)) \<le> sc_jobs s"
    by (meson assms(1) le_trans length_removeAll_less_eq use_ok_def)
  moreover have "removeAll node (sc_running s) = [x]"
    if "x \<in> set (removeAll node (sc_running s))" "is_interactive s x" for x
    using that assms by (auto simp: use_ok_def)
  ultimately show ?thesis
    using bs by (simp add: use_ok_def end_node_fields(2) lim q)
qed

section \<open>Node states\<close>

lemmas state_parts = tables_ok_def deps_ok_def causes_ok_def

lemma same_config_ok: "same_config s s' \<Longrightarrow> config_ok plan s' \<longleftrightarrow> config_ok plan s"
  using same_config_queries [of s s'] by (simp add: config_ok_def same_config_def)

lemma open_deps_cong:
  "(\<And>d. node_state s' d = Some Succeeded \<longleftrightarrow> node_state s d = Some Succeeded) \<Longrightarrow>
     open_deps plan s' x = open_deps plan s x"
  by (simp add: open_deps_def)

lemma sched_inv_start:
  assumes inv: "sched_inv plan s" and nid: "nid \<in> set (sc_ready s)"
    and acq: "can_acquire_resources s nid" and jobs: "length (sc_running s) < sc_jobs s"
    and inter: "\<not> has_interactive_in_flight s" "is_interactive s nid \<Longrightarrow> sc_running s = []"
  shows "sched_inv plan (start_node nid s)"
proof -
  note f = start_node_fields [where s = s and nid = nid]
  from inv have parts: "config_ok plan s" "use_ok s" "tables_ok plan s" "deps_ok plan s" "causes_ok plan s"
    by (auto simp: sched_inv_def)
  from nid parts(3) have st: "node_state s nid = Some Ready" by (auto simp: tables_ok_def)
  with parts(3) have nr: "nid \<notin> set (sc_running s)" by (auto simp: tables_ok_def)
  have od: "open_deps plan (start_node nid s) x = open_deps plan s x" for x
    using st by (intro open_deps_cong) (simp add: f)
  have un: "unstarted (start_node nid s) \<subseteq> unstarted s"
    by (auto simp: unstarted_node_state f not_started_def split: if_splits)
  have "tables_ok plan (start_node nid s)"
    using parts(3) st by (auto simp: tables_ok_def f set_insort_insert domI)
  moreover have "deps_ok plan (start_node nid s)"
    using parts(4) st by (auto simp: deps_ok_def od f)
  moreover have "causes_ok plan (start_node nid s)"
  proof -
    have same: "node_state (start_node nid s) x = Some v \<longleftrightarrow> node_state s x = Some v"
      if "v \<in> {Failed, Cancelled, Skipped}" for x v
      using that st by (auto simp: f)
    show ?thesis
      using parts(5) un unfolding causes_ok_def f(7) by (simp add: same del: fun_upd_apply) blast
  qed
  ultimately show ?thesis
    using parts(1,2) use_ok_start [OF parts(2) acq nr jobs inter] same_config_ok [OF f(1)]
    by (simp add: sched_inv_def)
qed

lemma sched_inv_loop:
  "sched_inv plan s \<Longrightarrow> \<not> has_interactive_in_flight s \<Longrightarrow> sched_inv plan (fst (schedule_loop s started))"
proof (induction s started rule: schedule_loop.induct)
  case (1 s started)
  show ?case
  proof (cases "length (sc_running s) < sc_jobs s")
    case False
    with "1.prems" show ?thesis by (simp add: schedule_loop.simps [of s])
  next
    case jobs: True
    show ?thesis
    proof (cases "find (can_acquire_resources s) (sc_ready s)")
      case None
      with "1.prems" jobs show ?thesis by (simp add: schedule_loop.simps [of s])
    next
      case (Some nid)
      then have nid: "nid \<in> set (sc_ready s)" "can_acquire_resources s nid" by (auto dest: find_SomeD)
      note start = sched_inv_start [OF "1.prems"(1) nid jobs "1.prems"(2)]
      show ?thesis
      proof (cases "is_interactive s nid")
        case True
        with "1.prems" jobs Some start show ?thesis by (simp add: schedule_loop.simps [of s])
      next
        case False
        with 1 jobs Some start has_interactive_start show ?thesis
          by (simp add: schedule_loop.simps [of s])
      qed
    qed
  qed
qed

lemma cancel_all_none: "bt_wf (sc_states s) \<Longrightarrow> unstarted s = {} \<Longrightarrow> cancel_all_not_started s = s"
proof -
  assume "bt_wf (sc_states s)" "unstarted s = {}"
  then have "filter (\<lambda>(_, state). not_started state) (sc_states s) = []"
    using bt_wf_lookup [of "sc_states s"] by (fastforce simp: filter_empty_conv unstarted_def)
  then show ?thesis by (simp only: cancel_all_not_started_def Let_def) simp
qed

lemma sched_inv_schedule_ready:
  assumes "sched_inv plan s"
  shows "sched_inv plan (fst (schedule_ready s))"
proof -
  have "cancel_all_not_started s = s" if "sc_fail_fast_tripped s"
    using assms that by (intro cancel_all_none) (auto simp: sched_inv_def state_parts)
  with assms sched_inv_loop show ?thesis by (simp add: schedule_ready_def)
qed

section \<open>Exits\<close>

text \<open>The state in which a running node has ended with \<open>st\<close>, before its dependents are visited.\<close>

definition ended :: "string \<Rightarrow> NodeState \<Rightarrow> Scheduler \<Rightarrow> Scheduler" where
  "ended node st s = set_state node st (end_node node s)"

lemma ended_fields:
  "same_config s (ended node st s)"
  "node_state (ended node st s) = (node_state s)(node \<mapsto> st)"
  "sc_running (ended node st s) = removeAll node (sc_running s)"
  "sc_ready (ended node st s) = sc_ready s"
  "sc_remaining_deps (ended node st s) = sc_remaining_deps s"
  "sc_fail_fast_tripped (ended node st s) = sc_fail_fast_tripped s"
  "bt_wf (sc_states s) \<Longrightarrow> bt_wf (sc_states (ended node st s))"
  "use_ok s \<Longrightarrow> node \<in> set (sc_running s) \<Longrightarrow> use_ok (ended node st s)"
proof -
  show "same_config s (ended node st s)"
    using same_config_trans [OF end_node_fields(1) set_state_fields(1)] by (simp add: ended_def)
  show "node_state (ended node st s) = (node_state s)(node \<mapsto> st)"
    by (simp add: ended_def node_state_def end_node_fields set_state_def fun_eq_iff)
  show "use_ok s \<Longrightarrow> node \<in> set (sc_running s) \<Longrightarrow> use_ok (ended node st s)"
    using use_ok_end same_use_sums [OF set_state_fields(1,2)] by (simp add: ended_def)
qed (simp_all add: ended_def set_state_def end_node_fields)

lemma on_exit_eq:
  "on_exit node code s =
     (if node_state s node = None then Err (UnknownNode node)
      else if node \<notin> set (sc_running s) then Err (NotRunning node)
      else if code = 0 then unlock_dependents node (ended node Succeeded s)
      else case sc_failure_policy s of
             FailFast \<Rightarrow> Ok (cancel_all_not_started ((ended node Failed s)\<lparr>sc_fail_fast_tripped := True\<rparr>))
           | KeepGoing \<Rightarrow> Ok (cancel_transitive_dependents node (ended node Failed s)))"
  using ended_fields(1) [of s node Failed]
  by (auto simp: on_exit_def Let_def ended_def end_node_def same_config_def node_state_def dom_def
      split: FailurePolicy.splits)

lemma finite_open_deps [simp]: "finite (open_deps plan s x)"
  by (simp add: open_deps_def)

lemma running_state:
  "tables_ok plan s \<Longrightarrow> node \<in> set (sc_running s) \<longleftrightarrow> node_state s node = Some Running"
  by (auto simp: tables_ok_def)

text \<open>Success: one open dependency fewer for every pending dependent.\<close>

lemma sched_inv_success:
  assumes inv: "sched_inv plan s" and run: "node \<in> set (sc_running s)"
  shows "\<exists>s'. unlock_dependents node (ended node Succeeded s) = Ok s' \<and>
    unlocked (children_of s node) (ended node Succeeded s) s' \<and> sched_inv plan s'"
proof -
  let ?t = "ended node Succeeded s"
  note f = ended_fields [where s = s and node = node and st = Succeeded]
  from inv have parts: "config_ok plan s" "use_ok s" "tables_ok plan s" "deps_ok plan s" "causes_ok plan s"
    by (auto simp: sched_inv_def)
  from run parts(3) have st: "node_state s node = Some Running" by (simp add: running_state)
  have kids: "distinct (children_of s node)" "set (children_of s node) =
      {y \<in> set (plan_node_ids plan). node \<in> set (plan_deps plan y)}"
    using parts(1) by (auto simp: config_ok_def)
  have pend: "node_state ?t x = Some Pending \<longleftrightarrow> node_state s x = Some Pending" for x
    using st by (simp add: f)
  have rem: "map_of (sc_remaining_deps ?t) x = Some (card (open_deps plan s x))"
    if "node_state ?t x = Some Pending" for x
    using that parts(4) unfolding pend f(5) deps_ok_def by blast
  have wf: "bt_wf (sc_states ?t)" "bs_wf (sc_ready ?t)"
    using parts(3) f by (simp_all add: tables_ok_def)
  obtain s' where s': "unlock_loop (children_of s node) ?t = Ok s'" "unlocked (children_of s node) ?t s'"
    using unlock_loop_spec [OF kids(1) wf] rem by blast
  have loop: "unlock_dependents node ?t = Ok s'"
    using s'(1) f(1) by (auto simp: unlock_dependents_def children_of_def same_config_def
        split: option.splits)
  have lo: "last_open ?t x \<longleftrightarrow> node_state s x = Some Pending \<and> card (open_deps plan s x) \<le> 1" for x
    using rem [of x] by (auto simp: last_open_def pend)
  have ns: "node_state s' x = (if x \<in> set (children_of s node) \<and> last_open ?t x then Some Ready
      else if x = node then Some Succeeded else node_state s x)" for x
    using s'(2) by (simp add: unlocked_def f)
  have cfg: "same_config s s'" using s'(2) f(1) same_config_trans by (auto simp: unlocked_def)
  have use: "use_ok s'"
    using s'(2) f(8) [OF parts(2) run] same_use_sums [of ?t s'] by (simp add: unlocked_def)
  have succ: "node_state s' d = Some Succeeded \<longleftrightarrow> d = node \<or> node_state s d = Some Succeeded" for d
    using st lo by (auto simp: ns)
  then have od: "open_deps plan s' x = open_deps plan s x - {node}" for x
    by (auto simp: open_deps_def)
  have mem: "x \<in> set (children_of s node) \<longleftrightarrow> node \<in> open_deps plan s x"
    if "node_state s x = Some Pending" for x
    using that parts(3) st by (auto simp: kids open_deps_def tables_ok_def)
  have ready: "x \<in> set (children_of s node) \<and> last_open ?t x \<longleftrightarrow>
      node_state s x = Some Pending \<and> open_deps plan s x = {node}" for x
  proof -
    have "card A \<le> 1 \<longleftrightarrow> A = {a}" if "a \<in> A" "finite A" for A :: "string set" and a
    proof -
      have "card A \<noteq> 0" using that by auto
      then have "card A \<le> 1 \<longleftrightarrow> card A = 1" by auto
      then show ?thesis using that by (auto simp: card_1_singleton_iff)
    qed
    with mem [of x] show ?thesis by (auto simp: lo)
  qed
  have tab: "tables_ok plan s'"
  proof -
    have "dom (node_state s') = dom (node_state s)"
      using st unfolding dom_def ns by (auto simp: lo)
    moreover have "set (sc_ready s') = {x. node_state s' x = Some Ready}"
    proof -
      have "set (sc_ready s') =
          set (sc_ready s) \<union> {x \<in> set (children_of s node). last_open ?t x}"
        using s'(2) unfolding unlocked_def f(4) by blast
      then show ?thesis using parts(3) st by (auto simp: ns tables_ok_def split: if_splits)
    qed
    moreover have "set (sc_running s') = {x. node_state s' x = Some Running}"
    proof -
      have "sc_running s' = removeAll node (sc_running s)"
        using s'(2) by (simp add: unlocked_def same_use_def f(3))
      then show ?thesis using parts(3) by (auto simp: ns tables_ok_def lo split: if_splits)
    qed
    ultimately show ?thesis
      using s'(2) parts(3) by (simp add: tables_ok_def unlocked_def)
  qed
  have deps: "deps_ok plan s'"
  proof -
    have 1: "open_deps plan s' x = {}"
      if "node_state s' x \<in> {Some Ready, Some Running, Some Succeeded, Some Failed}" for x
      using that parts(4) st unfolding od ns ready deps_ok_def by (auto split: if_splits)
    have 2: "map_of (sc_remaining_deps s') x = Some (card (open_deps plan s' x)) \<and>
        open_deps plan s' x \<noteq> {} \<and> (\<forall>d \<in> set (plan_deps plan x).
           node_state s' d \<notin> {Some Failed, Some Cancelled, Some Skipped})"
      if "node_state s' x = Some Pending" for x
    proof -
      from that have p: "node_state s x = Some Pending" and nr: "open_deps plan s x \<noteq> {node}"
        unfolding ns ready by (auto split: if_splits)
      have "map_of (sc_remaining_deps s') x = (if x \<in> set (children_of s node)
          then Some (card (open_deps plan s x) - 1) else Some (card (open_deps plan s x)))"
        using s'(2) rem [of x] p by (simp add: unlocked_def pend)
      moreover have "open_deps plan s x \<noteq> {}"
        and "\<forall>d \<in> set (plan_deps plan x). node_state s d \<notin> {Some Failed, Some Cancelled, Some Skipped}"
        using parts(4) p unfolding deps_ok_def by blast+
      ultimately show ?thesis
        using nr mem [OF p] unfolding od ns ready by (auto simp: card_Diff_singleton)
    qed
    from 1 2 show ?thesis by (auto simp: deps_ok_def)
  qed
  have "causes_ok plan s'"
  proof -
    have same: "node_state s' x = Some v \<longleftrightarrow> node_state s x = Some v"
      if "v \<in> {Failed, Cancelled, Skipped}" for x v
      using that st by (auto simp: ns lo)
    have "unstarted s' \<subseteq> unstarted s"
      using st by (auto simp: unstarted_node_state ns lo not_started_def split: if_splits)
    moreover have "sc_fail_fast_tripped s' = sc_fail_fast_tripped s"
      using s'(2) f by (simp add: unlocked_def)
    ultimately show ?thesis
      using parts(5) unfolding causes_ok_def by (simp add: same) blast
  qed
  with cfg use tab deps loop s'(2) parts(1) show ?thesis
    by (simp add: sched_inv_def same_config_ok)
qed

text \<open>Failure under fail-fast: everything that was not started is cancelled.\<close>

lemma sched_inv_fail_fast:
  assumes inv: "sched_inv plan s" and run: "node \<in> set (sc_running s)"
  shows "sched_inv plan (cancel_all_not_started ((ended node Failed s)\<lparr>sc_fail_fast_tripped := True\<rparr>))"
    (is "sched_inv plan ?s'")
proof -
  define t where "t = (ended node Failed s)\<lparr>sc_fail_fast_tripped := True\<rparr>"
  note f = ended_fields [where s = s and node = node and st = Failed]
  from inv have parts: "config_ok plan s" "use_ok s" "tables_ok plan s" "deps_ok plan s" "causes_ok plan s"
    by (auto simp: sched_inv_def)
  from run parts(3) have st: "node_state s node = Some Running" by (simp add: running_state)
  have tst: "node_state t x = (if x = node then Some Failed else node_state s x)" for x
    using f(2) by (simp add: t_def node_state_def fun_eq_iff)
  have tf: "sc_running t = removeAll node (sc_running s)" "sc_ready t = sc_ready s"
    "bt_wf (sc_states t)" "same_config s t"
    using f parts(3) by (simp_all add: t_def tables_ok_def same_config_def)
  have "use_ok t" using f(8) [OF parts(2) run] same_use_sums [of "ended node Failed s" t]
    by (simp add: t_def same_config_def same_use_def)
  note c = cancel_all_fields [OF tf(3)]
  have s': "?s' = cancel_all_not_started t" by (simp add: t_def)
  have un: "unstarted t = unstarted s" using st by (auto simp: unstarted_node_state tst not_started_def)
  have ns: "node_state ?s' x = (if x \<in> unstarted s then Some Cancelled
      else if x = node then Some Failed else node_state s x)" for x
    unfolding s' c(6) un tst by simp
  have node: "node \<notin> unstarted s" using st by (simp add: unstarted_node_state not_started_def)
  have cfg: "same_config s ?s'" unfolding s' using same_config_trans [OF tf(4) c(1)] .
  have use: "use_ok ?s'" unfolding s' using same_use_sums [OF c(1,2)] \<open>use_ok t\<close> by simp
  have od: "open_deps plan ?s' x = open_deps plan s x" for x
    using st by (intro open_deps_cong) (auto simp: ns unstarted_node_state not_started_def)
  have un': "unstarted ?s' = {}" unfolding unstarted_node_state ns
    by (auto simp: unstarted_node_state not_started_def split: if_splits)
  have tab: "tables_ok plan ?s'"
  proof -
    have "sc_running ?s' = removeAll node (sc_running s)"
      using c(2) unfolding s' by (simp add: same_use_def tf)
    moreover have "sc_ready ?s' = filter (\<lambda>x. x \<notin> unstarted s) (sc_ready s)"
      unfolding s' c(3) un tf ..
    moreover have "dom (node_state ?s') = dom (node_state s)"
      using st unfolding dom_def ns by (auto simp: unstarted_node_state)
    ultimately show ?thesis
      using parts(3) c(7) st unfolding tables_ok_def s' [symmetric]
      by (simp add: ns) (auto simp: unstarted_node_state not_started_def split: if_splits)
  qed
  have deps: "deps_ok plan ?s'"
    using parts(4) st unfolding deps_ok_def od ns
    by (auto simp: unstarted_node_state not_started_def split: if_splits)
  have "sc_fail_fast_tripped ?s'" unfolding s' c(5) by (simp add: t_def)
  moreover have "node_state ?s' node = Some Failed" using node by (simp add: ns)
  moreover have "\<exists>f. node_state ?s' f = Some Failed \<and> (dep_edge plan)\<^sup>+\<^sup>+ x f"
    if "node_state ?s' x = Some Skipped" for x
  proof -
    from that have "node_state s x = Some Skipped" by (auto simp: ns split: if_splits)
    with parts(5) obtain f where "node_state s f = Some Failed" "(dep_edge plan)\<^sup>+\<^sup>+ x f"
      by (auto simp: causes_ok_def)
    then show ?thesis by (intro exI [of _ f]) (auto simp: ns unstarted_node_state not_started_def)
  qed
  ultimately have "causes_ok plan ?s'" using un' by (auto simp: causes_ok_def)
  with cfg use tab deps parts(1) show ?thesis by (simp add: sched_inv_def same_config_ok)
qed

text \<open>Failure under keep-going: the transitive dependents of the failed node are skipped.\<close>

lemma sched_inv_keep_going:
  assumes inv: "sched_inv plan s" and run: "node \<in> set (sc_running s)"
  shows "sched_inv plan (cancel_transitive_dependents node (ended node Failed s))"
    (is "sched_inv plan ?s'")
proof -
  let ?t = "ended node Failed s"
  note f = ended_fields [where s = s and node = node and st = Failed]
  from inv have parts: "config_ok plan s" "use_ok s" "tables_ok plan s" "deps_ok plan s" "causes_ok plan s"
    by (auto simp: sched_inv_def)
  from run parts(3) have st: "node_state s node = Some Running" by (simp add: running_state)
  have kids: "y \<in> set (children_of s x) \<longleftrightarrow> y \<in> set (plan_node_ids plan) \<and> dep_edge plan y x" for x y
    using parts(1) by (auto simp: config_ok_def dep_edge_def)
  have kids_t: "children_of ?t = children_of s" by (rule same_config_queries(3) [OF f(1)])
  define R where "R = {x. \<exists>c \<in> set (children_of s node). (\<lambda>x y. y \<in> set (open_dependents ?t x))\<^sup>*\<^sup>* c x}"
  have sk: "skips ?t R ?s'"
    using cancel_transitive_dependents_skips [of ?t node] f(7) parts(3)
    by (simp add: R_def kids_t tables_ok_def)
  have un: "unstarted ?t = unstarted s"
    using st by (auto simp: unstarted_node_state f not_started_def)
  have ns: "node_state ?s' x = (if x \<in> R \<inter> unstarted s then Some Skipped
      else if x = node then Some Failed else node_state s x)" for x
    using sk by (simp add: skips_def un f)
  have node: "node \<notin> unstarted s" using st by (simp add: unstarted_node_state not_started_def)
  have cfg: "same_config s ?s'" using sk f(1) same_config_trans by (auto simp: skips_def)
  have use: "use_ok ?s'"
    using sk f(8) [OF parts(2) run] same_use_sums [of ?t ?s'] by (simp add: skips_def)
  have od: "open_deps plan ?s' x = open_deps plan s x" for x
    using st by (intro open_deps_cong) (auto simp: ns unstarted_node_state not_started_def)
  have closed: "x \<in> R" if "dep_edge plan x d" "x \<in> unstarted s" "d = node \<or> d \<in> R \<inter> unstarted s" for x d
  proof -
    have "x \<in> set (children_of s d)"
      using that(1,2) parts(3) by (auto simp: kids unstarted_node_state tables_ok_def)
    with that(3) show ?thesis
      by (auto simp: R_def open_dependents_def un kids_t intro: rtranclp.rtrancl_into_rtrancl)
  qed
  have tab: "tables_ok plan ?s'"
  proof -
    have "sc_running ?s' = removeAll node (sc_running s)"
      "sc_ready ?s' = filter (\<lambda>x. x \<notin> R \<inter> unstarted s) (sc_ready s)" "bt_wf (sc_states ?s')"
      using sk by (simp_all add: skips_def same_use_def f un)
    moreover have "dom (node_state ?s') = dom (node_state s)"
      using st unfolding dom_def ns by (auto simp: unstarted_node_state)
    ultimately show ?thesis
      using parts(3) st unfolding tables_ok_def
      by (simp add: ns) (auto simp: unstarted_node_state not_started_def split: if_splits)
  qed
  have deps: "deps_ok plan ?s'"
  proof -
    have 1: "open_deps plan ?s' x = {}"
      if "node_state ?s' x \<in> {Some Ready, Some Running, Some Succeeded, Some Failed}" for x
      using that parts(4) st unfolding od ns deps_ok_def by (auto split: if_splits)
    have 2: "map_of (sc_remaining_deps ?s') x = Some (card (open_deps plan ?s' x)) \<and>
        open_deps plan ?s' x \<noteq> {} \<and> (\<forall>d \<in> set (plan_deps plan x).
           node_state ?s' d \<notin> {Some Failed, Some Cancelled, Some Skipped})"
      if "node_state ?s' x = Some Pending" for x
    proof -
      from that have p: "node_state s x = Some Pending" and nr: "x \<notin> R" and xu: "x \<in> unstarted s"
        unfolding ns by (auto simp: unstarted_node_state not_started_def split: if_splits)
      have old: "map_of (sc_remaining_deps s) x = Some (card (open_deps plan s x))"
        "open_deps plan s x \<noteq> {}"
        "\<forall>d \<in> set (plan_deps plan x). node_state s d \<notin> {Some Failed, Some Cancelled, Some Skipped}"
        using parts(4) p unfolding deps_ok_def by blast+
      have "d \<noteq> node \<and> d \<notin> R \<inter> unstarted s" if "d \<in> set (plan_deps plan x)" for d
        using closed [of x d] nr xu that by (auto simp: dep_edge_def)
      with old(3) have "\<forall>d \<in> set (plan_deps plan x).
           node_state ?s' d \<notin> {Some Failed, Some Cancelled, Some Skipped}"
        unfolding ns by metis
      moreover have "sc_remaining_deps ?s' = sc_remaining_deps s"
        using sk by (simp add: skips_def f)
      ultimately show ?thesis using old(1,2) by (simp add: od)
    qed
    from 1 2 show ?thesis by (auto simp: deps_ok_def)
  qed
  have "causes_ok plan ?s'"
  proof -
    have fail: "node_state ?s' f = Some Failed" if "node_state s f = Some Failed \<or> f = node" for f
      using that node by (auto simp: ns unstarted_node_state not_started_def)
    have skip: "\<exists>f. node_state ?s' f = Some Failed \<and> (dep_edge plan)\<^sup>+\<^sup>+ x f"
      if "node_state ?s' x = Some Skipped" for x
    proof (cases "x \<in> R \<inter> unstarted s")
      case True
      then obtain c where c: "c \<in> set (children_of s node)"
        "(\<lambda>x y. y \<in> set (open_dependents ?t x))\<^sup>*\<^sup>* c x" by (auto simp: R_def)
      have "(dep_edge plan)\<^sup>*\<^sup>* x c"
        using c(2)
        by (induction rule: rtranclp_induct)
          (auto simp: open_dependents_def kids_t kids split: if_splits
            intro: converse_rtranclp_into_rtranclp)
      moreover have "dep_edge plan c node" using c(1) by (simp add: kids)
      ultimately have "(dep_edge plan)\<^sup>+\<^sup>+ x node" by (rule rtranclp_into_tranclp1)
      with fail show ?thesis by blast
    next
      case False
      with that have "node_state s x = Some Skipped" unfolding ns by (auto split: if_splits)
      with parts(5) obtain f where "node_state s f = Some Failed" "(dep_edge plan)\<^sup>+\<^sup>+ x f"
        unfolding causes_ok_def by blast
      with fail show ?thesis by blast
    qed
    have trip: "sc_fail_fast_tripped ?s' = sc_fail_fast_tripped s"
      using sk by (simp add: skips_def f)
    have un': "unstarted ?s' \<subseteq> unstarted s"
      by (auto simp: unstarted_node_state ns not_started_def split: if_splits)
    show ?thesis
      unfolding causes_ok_def trip
    proof (intro conjI allI impI)
      show "unstarted ?s' = {}" if "sc_fail_fast_tripped s"
        using that parts(5) un' by (auto simp: causes_ok_def)
      show "\<exists>f. node_state ?s' f = Some Failed" using fail by blast
      show "sc_fail_fast_tripped s" if "node_state ?s' x = Some Cancelled" for x
        using that parts(5) by (auto simp: ns causes_ok_def split: if_splits)
    qed (rule skip)
  qed
  with cfg use tab deps parts(1) show ?thesis by (simp add: sched_inv_def same_config_ok)
qed

lemma sched_inv_on_exit:
  assumes "sched_inv plan s" and "on_exit node code s = Ok s'"
  shows "sched_inv plan s'"
proof -
  have run: "node \<in> set (sc_running s)"
    using assms(2) by (auto simp: on_exit_eq split: if_splits)
  show ?thesis
    using assms(2) sched_inv_success [OF assms(1) run] sched_inv_fail_fast [OF assms(1) run]
      sched_inv_keep_going [OF assms(1) run]
    by (auto simp: on_exit_eq split: if_splits FailurePolicy.splits)
qed

text \<open>The \<open>expect\<close> on \<open>remaining_deps\<close> never fails, and errors are exactly the two documented.\<close>

lemma on_exit_total:
  assumes "sched_inv plan s"
  shows "case on_exit node code s of
      Ok s' \<Rightarrow> node \<in> set (sc_running s)
    | Err e \<Rightarrow> (if node \<in> set (plan_node_ids plan) then node \<notin> set (sc_running s) \<and> e = NotRunning node
        else e = UnknownNode node)
    | Panic \<Rightarrow> False"
proof -
  have dom: "node_state s node = None \<longleftrightarrow> node \<notin> set (plan_node_ids plan)"
    using assms unfolding sched_inv_def tables_ok_def by (metis domIff)
  show ?thesis
    using sched_inv_success [OF assms, of node] dom
    by (auto simp: on_exit_eq split: FailurePolicy.splits)
qed

section \<open>Construction\<close>

lemma map_of_mark_ready:
  assumes "distinct (map fst rem)" and "bt_wf states" and "mark_ready rem states = (ready, states')"
  shows "set ready = {x. map_of rem x = Some 0}" and "bs_wf ready" and "bt_wf states'"
    and "map_of states' x = (if map_of rem x = Some 0 then Some Ready else map_of states x)"
proof -
  let ?f = "\<lambda>(nid, deg) (ready, states).
       if deg = (0::nat) then (insort_insert nid ready, bt_insert nid Ready states) else (ready, states)"
  have "set (fst (fold ?f xs (r, st))) = set r \<union> {x. map_of xs x = Some 0} \<and>
      (bs_wf r \<longrightarrow> bs_wf (fst (fold ?f xs (r, st)))) \<and>
      (bt_wf st \<longrightarrow> bt_wf (snd (fold ?f xs (r, st)))) \<and>
      (\<forall>x. map_of (snd (fold ?f xs (r, st))) x =
         (if map_of xs x = Some 0 then Some Ready else map_of st x))"
    if "distinct (map fst xs)" for xs r st
    using that
  proof (induction xs arbitrary: r st)
    case (Cons p xs)
    obtain k d where p: "p = (k, d)" by fastforce
    with Cons.prems have k: "map_of xs k = None" "distinct (map fst xs)" by (auto simp: map_of_eq_None_iff)
    show ?case
      using Cons.IH [OF k(2)] k(1) p by (cases "d = 0") (auto simp: set_insort_insert)
  qed auto
  from this [OF assms(1), of "[]" states] assms
  show "set ready = {x. map_of rem x = Some 0}" "bs_wf ready" "bt_wf states'"
    "map_of states' x = (if map_of rem x = Some 0 then Some Ready else map_of states x)"
    by (auto simp: mark_ready_def)
qed

lemma look_nodes:
  assumes "distinct (map pn_id nodes)"
  shows "map_of (fold (\<lambda>n. bt_insert (pn_id n) (g n)) nodes []) x = Some v \<longleftrightarrow>
    (\<exists>n \<in> set nodes. pn_id n = x \<and> g n = v)"
  by (rule btm.look_fold_rel) (use assms in \<open>auto simp: distinct_map inj_on_def\<close>)

text \<open>The table of dependents: \<open>y\<close> is in the set of \<open>x\<close> exactly when \<open>y\<close> lists \<open>x\<close>.\<close>

definition set_of :: "(string, string list) btmap \<Rightarrow> string \<Rightarrow> string list" where
  "set_of m x = (case map_of m x of None \<Rightarrow> [] | Some cs \<Rightarrow> cs)"

lemma link_node_set_of:
  "set (set_of (link_node n m) x) = set (set_of m x) \<union> (if x \<in> set (pn_depends_on n) then {pn_id n} else {}) \<and>
   ((\<forall>x. bs_wf (set_of m x)) \<longrightarrow> bs_wf (set_of (link_node n m) x))"
proof -
  have "(set (set_of (fold (\<lambda>dep. bt_set_insert dep y) ds m) x) =
        set (set_of m x) \<union> (if x \<in> set ds then {y} else {})) \<and>
      ((\<forall>x. bs_wf (set_of m x)) \<longrightarrow> (\<forall>x. bs_wf (set_of (fold (\<lambda>dep. bt_set_insert dep y) ds m) x)))"
    for y ds x
  proof (induction ds arbitrary: m)
    case (Cons d ds)
    have one: "set_of (bt_set_insert d y m) z =
        (if z = d then insort_insert y (set_of m d) else set_of m z)" for z
      by (simp add: set_of_def map_of_bt_set_insert)
    from Cons.IH [of "bt_set_insert d y m"] show ?case
      by (auto simp: one set_insort_insert)
  qed simp
  then show ?thesis unfolding link_node_def by blast
qed

lemma build_dependents_set_of:
  "set (set_of (build_dependents nodes) x) = pn_id ` {n \<in> set nodes. x \<in> set (pn_depends_on n)} \<and>
   bs_wf (set_of (build_dependents nodes) x)"
proof -
  have init: "set_of m x = [] \<Longrightarrow> set_of (fold (\<lambda>n. bt_or_default (pn_id n)) ns m) x = []" for ns m x
  proof (induction ns arbitrary: m)
    case (Cons n ns)
    have "set_of (bt_or_default (pn_id n) m) x = []"
      using Cons.prems by (cases "x = pn_id n") (simp_all add: set_of_def map_of_bt_or_default)
    from Cons.IH [OF this] show ?case by simp
  qed simp
  have fold: "(set (set_of (fold link_node ns m) x) =
      set (set_of m x) \<union> pn_id ` {n \<in> set ns. x \<in> set (pn_depends_on n)}) \<and>
      ((\<forall>x. bs_wf (set_of m x)) \<longrightarrow> (\<forall>x. bs_wf (set_of (fold link_node ns m) x)))" for ns m x
  proof (induction ns arbitrary: m)
    case (Cons n ns)
    from Cons.IH [of "link_node n m"] link_node_set_of [of n m] show ?case by auto
  qed simp
  have "set_of (fold (\<lambda>n. bt_or_default (pn_id n)) nodes []) y = []" for y
    by (rule init) (simp add: set_of_def)
  with fold [of nodes "fold (\<lambda>n. bt_or_default (pn_id n)) nodes []" x] show ?thesis
    by (simp add: build_dependents_def)
qed

lemma bt_wf_nodes: "bt_wf (fold (\<lambda>n. bt_insert (pn_id n) (g n)) nodes [])"
  using btm.invar_fold [where f = pn_id and g = g and m = "[]"] by simp

lemma plan_wf_deps:
  assumes "plan_wf plan"
  shows "distinct (plan_deps plan x)" and "set (plan_deps plan x) \<subseteq> set (plan_node_ids plan)"
proof -
  have "distinct (plan_deps plan x) \<and> set (plan_deps plan x) \<subseteq> set (plan_node_ids plan)"
  proof (cases "x \<in> set (plan_node_ids plan)")
    case True
    then obtain n where n: "n \<in> set (ep_nodes plan)" "x = pn_id n" by (auto simp: plan_node_ids_def)
    have "distinct (plan_node_ids plan)" using assms by (auto simp: plan_wf_def)
    with n assms plan_deps_node [of plan n] show ?thesis by (auto simp: plan_wf_def)
  qed (simp add: plan_deps_no_node)
  then show "distinct (plan_deps plan x)" "set (plan_deps plan x) \<subseteq> set (plan_node_ids plan)" by auto
qed

lemma Scheduler_new_Ok:
  assumes new: "Scheduler_new env plan jobs = Ok s" and wf: "plan_wf plan"
  shows "sc_jobs s = jobs" and "0 < jobs" and "sc_failure_policy s = ep_failure_policy plan"
    and "sc_running s = []" and "sc_held_locks s = []" and "sc_cpu_in_use s = 0"
    and "sc_memory_in_use s = 0" and "\<not> sc_fail_fast_tripped s"
    and "config_ok plan s" and "bt_wf (sc_states s)" and "bs_wf (sc_ready s)"
    and "set (sc_ready s) = {x \<in> set (plan_node_ids plan). plan_deps plan x = []}"
    and "node_state s x = (if x \<notin> set (plan_node_ids plan) then None
           else if plan_deps plan x = [] then Some Ready else Some Pending)"
    and "x \<in> set (plan_node_ids plan) \<Longrightarrow>
           map_of (sc_remaining_deps s) x = Some (length (plan_deps plan x))"
proof -
  let ?nodes = "ep_nodes plan"
  define states where "states = fold (\<lambda>n. bt_insert (pn_id n) Pending) ?nodes []"
  define rem where "rem = fold (\<lambda>n. bt_insert (pn_id n) (length (pn_depends_on n))) ?nodes []"
  define inter where "inter = fold (\<lambda>n. bt_insert (pn_id n) (pn_interactive n)) ?nodes []"
  define res where "res = fold (\<lambda>n. bt_insert (pn_id n) (pn_resources n)) ?nodes []"
  obtain ready states' where mr: "mark_ready rem states = (ready, states')" by fastforce
  from new have jobs: "0 < jobs" by (cases jobs) (auto simp: Scheduler_new_def)
  have sd: "s = \<lparr>
      sc_failure_policy = ep_failure_policy plan, sc_jobs = jobs,
      sc_resource_limits = from_jobs env jobs, sc_interactive = inter,
      sc_node_resources = res, sc_states = states',
      sc_remaining_deps = rem, sc_dependents = build_dependents ?nodes,
      sc_ready = ready, sc_running = [], sc_held_locks = [],
      sc_cpu_in_use = 0, sc_memory_in_use = 0, sc_fail_fast_tripped = False\<rparr>"
    and valid: "validate_schedulability s = Ok ()"
    using new jobs mr
    by (auto simp: Scheduler_new_def Let_def outcome_simps rem_def states_def inter_def res_def)
  from wf have bs: "bs_wf (plan_node_ids plan)" by (simp add: plan_wf_def)
  then have dist: "distinct (map pn_id ?nodes)" by (auto simp: plan_node_ids_def)
  have pd: "plan_deps plan (pn_id n) = pn_depends_on n" if "n \<in> set ?nodes" for n
    using plan_deps_node [OF _ that] bs by auto
  note look = look_nodes [OF dist]
  have rem: "map_of rem x = Some k \<longleftrightarrow> x \<in> set (plan_node_ids plan) \<and> k = length (plan_deps plan x)" for x k
    using pd by (auto simp: rem_def look plan_node_ids_def)
  have st: "map_of states x = (if x \<in> set (plan_node_ids plan) then Some Pending else None)" for x
  proof (cases "map_of states x")
    case None
    then have "\<not> (\<exists>n \<in> set ?nodes. pn_id n = x)"
      using look [of "\<lambda>_. Pending" x Pending] by (auto simp: states_def)
    with None show ?thesis by (auto simp: plan_node_ids_def)
  next
    case (Some v)
    with look [of "\<lambda>_. Pending" x v] show ?thesis by (auto simp: states_def plan_node_ids_def)
  qed
  have drem: "distinct (map fst rem)" by (simp add: rem_def bt_wf_distinct bt_wf_nodes)
  have swf: "bt_wf states" by (simp add: states_def bt_wf_nodes)
  note m = map_of_mark_ready [OF drem swf mr]
  show "sc_jobs s = jobs" "sc_failure_policy s = ep_failure_policy plan" "sc_running s = []"
    "sc_held_locks s = []" "sc_cpu_in_use s = 0" "sc_memory_in_use s = 0" "\<not> sc_fail_fast_tripped s"
    "bt_wf (sc_states s)" "bs_wf (sc_ready s)"
    using m(2,3) by (simp_all add: sd)
  show "0 < jobs" by (rule jobs)
  show "set (sc_ready s) = {x \<in> set (plan_node_ids plan). plan_deps plan x = []}"
    using m(1) by (auto simp: sd rem)
  show "node_state s x = (if x \<notin> set (plan_node_ids plan) then None
           else if plan_deps plan x = [] then Some Ready else Some Pending)"
    using m(4) [of x] by (auto simp: sd node_state_def rem st)
  show "x \<in> set (plan_node_ids plan) \<Longrightarrow>
      map_of (sc_remaining_deps s) x = Some (length (plan_deps plan x))"
    by (simp add: sd rem)
  have "set (children_of s x) = {y \<in> set (plan_node_ids plan). x \<in> set (plan_deps plan y)} \<and>
      bs_wf (children_of s x)" for x
    using build_dependents_set_of [of ?nodes x] pd
    by (auto simp: children_of_def sd set_of_def plan_node_ids_def)
  moreover have "map_of (sc_interactive s) (pn_id n) = Some (pn_interactive n) \<and>
      map_of (sc_node_resources s) (pn_id n) = Some (pn_resources n)" if "n \<in> set ?nodes" for n
    using that dist by (auto simp: sd inter_def res_def look)
  ultimately show "config_ok plan s"
    using valid jobs by (simp add: config_ok_def sd)
qed

lemma sched_inv_new:
  assumes new: "Scheduler_new env plan jobs = Ok s" and wf: "plan_wf plan"
  shows "sched_inv plan s \<and> sc_running s = []"
proof -
  note n = Scheduler_new_Ok [OF assms]
  note dist = plan_wf_deps(1) [OF wf] and sub = plan_wf_deps(2) [OF wf]
  have od: "open_deps plan s x = set (plan_deps plan x)" for x
    using sub by (auto simp: open_deps_def n(13))
  have "use_ok s"
    by (simp add: use_ok_def cpu_ok_def memory_ok_def locks_ok_def cpu_sum_def memory_sum_def n(4-7))
  moreover have "tables_ok plan s"
    using n(10,11,12) by (auto simp: tables_ok_def n(4) n(13) dom_def split: if_splits)
  moreover have "deps_ok plan s"
    unfolding deps_ok_def od by (auto simp: n(13,14) distinct_card [OF dist] split: if_splits)
  moreover have "causes_ok plan s"
    using n(8) by (auto simp: causes_ok_def n(13) split: if_splits)
  ultimately show ?thesis using n(4,9) by (simp add: sched_inv_def)
qed

lemma same_states_ok:
  assumes "sc_states s' = sc_states s" and "sc_ready s' = sc_ready s" and "sc_running s' = sc_running s"
    and "sc_remaining_deps s' = sc_remaining_deps s"
    and "sc_fail_fast_tripped s' = sc_fail_fast_tripped s"
  shows "tables_ok plan s' \<longleftrightarrow> tables_ok plan s" and "deps_ok plan s' \<longleftrightarrow> deps_ok plan s"
    and "causes_ok plan s' \<longleftrightarrow> causes_ok plan s"
proof -
  have ns: "node_state s' = node_state s" using assms(1) by (simp add: node_state_def fun_eq_iff)
  show "tables_ok plan s' \<longleftrightarrow> tables_ok plan s" by (simp add: tables_ok_def ns assms)
  show "deps_ok plan s' \<longleftrightarrow> deps_ok plan s" by (simp only: deps_ok_def open_deps_def ns assms)
  show "causes_ok plan s' \<longleftrightarrow> causes_ok plan s"
    by (simp only: causes_ok_def unstarted_node_state ns assms)
qed

lemma sched_inv_fresh:
  assumes "fresh plan s" and "plan_wf plan"
  shows "sched_inv plan s \<and> sc_running s = []"
  using assms
proof (induction rule: fresh.induct)
  case (fresh_limits s limits s')
  then have inv: "sched_inv plan s" "sc_running s = []" by auto
  from fresh_limits.hyps(2) have s': "s' = s\<lparr>sc_resource_limits := limits\<rparr>"
    and ok: "validate_schedulability s' = Ok ()"
    by (auto simp: with_resource_limits_def Let_def outcome_simps)
  have same: "children_of s' = children_of s"
    by (simp add: s' children_of_def fun_eq_iff)
  have "sc_cpu_in_use s = 0" "sc_memory_in_use s = 0"
    using inv by (auto simp: sched_inv_def use_ok_def cpu_ok_def memory_ok_def cpu_sum_def memory_sum_def
        unat_eq_0)
  then have "use_ok s'"
    using inv by (simp add: sched_inv_def use_ok_def cpu_ok_def memory_ok_def locks_ok_def cpu_sum_def
        memory_sum_def s')
  moreover have "config_ok plan s'"
    using inv ok by (simp add: sched_inv_def config_ok_def same) (simp add: s')
  moreover have "tables_ok plan s' \<and> deps_ok plan s' \<and> causes_ok plan s'"
    using inv same_states_ok [of s' s plan] by (simp add: sched_inv_def s')
  ultimately show ?case using inv(2) by (simp add: sched_inv_def s')
next
  case (fresh_policy s policy)
  let ?s' = "with_failure_policy policy s"
  have same: "children_of ?s' = children_of s" "resources_for ?s' = resources_for s"
    "is_interactive ?s' = is_interactive s" "validate_schedulability ?s' = validate_schedulability s"
    by (auto simp: with_failure_policy_def children_of_def resources_for_def is_interactive_def
        validate_schedulability_def fun_eq_iff)
  have "config_ok plan ?s' \<longleftrightarrow> config_ok plan s"
    unfolding config_ok_def same by (simp add: with_failure_policy_def)
  moreover have "use_ok ?s' \<longleftrightarrow> use_ok s"
    unfolding use_ok_def cpu_ok_def memory_ok_def locks_ok_def cpu_sum_def memory_sum_def same
    by (simp add: with_failure_policy_def)
  moreover have "sc_running ?s' = sc_running s" by (simp add: with_failure_policy_def)
  ultimately show ?case
    using fresh_policy same_states_ok [of ?s' s plan]
    by (simp add: sched_inv_def with_failure_policy_def)
qed (rule sched_inv_new)

interpretation sched: transition_system "\<lambda>s. plan_wf plan \<and> fresh plan s" sched_step "sched_inv plan"
  for plan
proof unfold_locales
  show "plan_wf plan \<and> fresh plan s \<Longrightarrow> sched_inv plan s" for s
    using sched_inv_fresh by blast
  show "sched_inv plan s \<Longrightarrow> sched_step s t \<Longrightarrow> sched_inv plan t" for s t
    using sched_inv_schedule_ready [of plan s]
    by (auto elim!: sched_stepE intro: sched_inv_on_exit)
qed

lemma schedule_loop_started:
  assumes "r = schedule_loop s started" and "distinct started" and "set started \<inter> set (sc_ready s) = {}"
    and "\<forall>x \<in> set started. node_state s x = Some Running"
  shows "distinct (snd r) \<and> set (snd r) \<subseteq> set started \<union> set (sc_ready s) \<and>
    (\<forall>x \<in> set (snd r). node_state (fst r) x = Some Running)"
  using assms
proof (induction s started arbitrary: r rule: schedule_loop.induct)
  case (1 s started)
  show ?case
  proof (cases "find (can_acquire_resources s) (sc_ready s)")
    case None
    with "1.prems" show ?thesis by (auto simp: schedule_loop.simps [of s])
  next
    case (Some nid)
    then have nid: "nid \<in> set (sc_ready s)" by (auto dest: find_SomeD)
    then have prems: "distinct (started @ [nid])"
      "set (started @ [nid]) \<inter> set (sc_ready (start_node nid s)) = {}"
      "\<forall>x \<in> set (started @ [nid]). node_state (start_node nid s) x = Some Running"
      using "1.prems" by (auto simp: start_node_fields)
    show ?thesis
    proof (cases "length (sc_running s) < sc_jobs s \<and> \<not> is_interactive s nid")
      case True
      with Some have "r = schedule_loop (start_node nid s) (started @ [nid])"
        using "1.prems"(1) by (simp add: schedule_loop.simps [of s])
      from "1.IH" [OF _ Some _ this prems] True nid show ?thesis by auto
    next
      case False
      with Some "1.prems" nid prems show ?thesis by (auto simp: schedule_loop.simps [of s])
    qed
  qed
qed

lemma schedule_ready_started:
  assumes inv: "sched_inv plan s" and "schedule_ready s = (s', started)"
  shows "distinct started \<and> (\<forall>x \<in> set started. node_state s x = Some Ready \<and> node_state s' x = Some Running)"
proof -
  have "set (sc_ready s) = {x. node_state s x = Some Ready}"
    using inv by (simp add: sched_inv_def tables_ok_def)
  with schedule_loop_started [OF refl, of "[]" s] assms(2) show ?thesis
    by (auto simp: schedule_ready_def split: if_splits)
qed

definition sched_reachable :: "ExecutionPlan \<Rightarrow> Scheduler \<Rightarrow> bool" where
  "sched_reachable plan s \<longleftrightarrow> reachable (\<lambda>s. plan_wf plan \<and> fresh plan s) sched_step s"

lemma sched_reachable_inv: "sched_reachable plan s \<Longrightarrow> sched_inv plan s"
  unfolding sched_reachable_def by (rule sched.reachable_inv)

lemma sched_reachable_fresh: "plan_wf plan \<Longrightarrow> fresh plan s \<Longrightarrow> sched_reachable plan s"
  by (simp add: sched_reachable_def reachable_start)

lemma sched_reachable_step: "sched_reachable plan s \<Longrightarrow> sched_step s t \<Longrightarrow> sched_reachable plan t"
  unfolding sched_reachable_def by (rule reachable_step)

section \<open>Properties\<close>

text \<open>A plan with two independent nodes that share a lock and a third that needs both.\<close>

definition demo_node :: "string \<Rightarrow> string list \<Rightarrow> string list \<Rightarrow> PlanNode" where
  "demo_node nid deps locks = \<lparr>pn_id = nid, pn_depends_on = deps, pn_interactive = False,
     pn_resources = \<lparr>nr_cpu = 1, nr_memory_bytes = 0, nr_exclusive = locks\<rparr>,
     pn_operation = None, pn_platform = None, pn_architecture = None, pn_environment = [],
     pn_working_directory = None, pn_artifacts = [], pn_inputs = []\<rparr>"

definition demo_plan :: ExecutionPlan where
  "demo_plan = \<lparr>ep_schema_version = 1, ep_root = ''c'', ep_roots = [], ep_failure_policy = KeepGoing,
     ep_argument_forwarding = ForwardRoot,
     ep_nodes = [demo_node ''a'' [] [''l''], demo_node ''b'' [] [''l''], demo_node ''c'' [''a'', ''b''] []],
     ep_serial_order = [''a'', ''b'', ''c''], ep_waves = []\<rparr>"

definition demo_start :: Scheduler where
  "demo_start = \<lparr>sc_failure_policy = KeepGoing, sc_jobs = 2,
     sc_resource_limits = \<lparr>rl_cpu_pool = 2, rl_memory_pool = 0\<rparr>,
     sc_interactive = [(''a'', False), (''b'', False), (''c'', False)],
     sc_node_resources = map (\<lambda>n. (pn_id n, pn_resources n)) (ep_nodes demo_plan),
     sc_states = [(''a'', Ready), (''b'', Ready), (''c'', Pending)],
     sc_remaining_deps = [(''a'', 0), (''b'', 0), (''c'', 2)],
     sc_dependents = [(''a'', [''c'']), (''b'', [''c'']), (''c'', [])],
     sc_ready = [''a'', ''b''], sc_running = [], sc_held_locks = [], sc_cpu_in_use = 0,
     sc_memory_in_use = 0, sc_fail_fast_tripped = False\<rparr>"

definition demo_running :: Scheduler where
  "demo_running = fst (schedule_ready demo_start)"

lemma demo_plan_wf: "plan_wf demo_plan"
proof -
  have "bs_wf (plan_node_ids demo_plan) \<and> (\<forall>n \<in> set (ep_nodes demo_plan). distinct (pn_depends_on n) \<and>
        set (pn_depends_on n) \<subseteq> set (plan_node_ids demo_plan)) \<and>
     distinct (ep_serial_order demo_plan) \<and> set (ep_serial_order demo_plan) = set (plan_node_ids demo_plan)"
    by (simp add: demo_plan_def demo_node_def plan_node_ids_def)
  moreover have "\<forall>i < 3. set (plan_deps demo_plan ([''a'', ''b'', ''c''] ! i)) \<subseteq> set (take i [''a'', ''b'', ''c''])"
    by code_simp
  ultimately show ?thesis by (simp add: plan_wf_def demo_plan_def)
qed

lemma demo_fresh: "Scheduler_new None demo_plan 2 = Ok demo_start"
  by (simp add: Scheduler_new_def demo_plan_def demo_node_def demo_start_def Let_def from_jobs_def
      memory_pool_from_env_def memory_or_zero_def mark_ready_def build_dependents_def link_node_def
      bt_or_default_def bt_set_insert_def insort_insert_key_def validate_schedulability_def
      check_demand_def cpu_tokens_def less_list_code less_char_def)

lemma demo_schedules:
  "snd (schedule_ready demo_start) = [''a'']" "sc_running demo_running = [''a'']"
  "rl_cpu_pool (sc_resource_limits demo_running) = 2"
  by (simp_all add: demo_running_def schedule_ready_def demo_start_def has_interactive_in_flight_def
      schedule_loop.simps can_acquire_resources_def resources_for_def demo_plan_def demo_node_def
      cpu_tokens_def saturating_add_def is_interactive_def start_node_def acquire_resources_def
      set_state_def Let_def insort_insert_key_def less_list_code less_char_def)

lemma demo_reachable: "sched_reachable demo_plan demo_start" "sched_reachable demo_plan demo_running"
proof -
  show 1: "sched_reachable demo_plan demo_start"
    using sched_reachable_fresh [OF demo_plan_wf fresh_new [OF demo_fresh]] .
  have "sched_step demo_start demo_running"
    using step_schedule [of demo_start demo_running "snd (schedule_ready demo_start)"]
    by (simp add: demo_running_def)
  with 1 show "sched_reachable demo_plan demo_running" by (rule sched_reachable_step)
qed

text \<open>
  C1: In every state the scheduler can reach, no more nodes run than the job limit; below the
  largest machine value the CPU tokens of the running nodes add up to at most the CPU pool, and,
  when there is a memory pool, their memory to at most that pool; no two running nodes share a
  named lock; and a running interactive node runs alone.\<close>

theorem scheduler_safety:
  assumes "sched_reachable plan s"
  shows "length (sc_running s) \<le> sc_jobs s \<and> distinct (sc_running s) \<and>
    (rl_cpu_pool (sc_resource_limits s) < - 1 \<longrightarrow>
       (\<Sum>x \<leftarrow> sc_running s. unat (cpu_tokens (resources_for s x)))
         \<le> unat (rl_cpu_pool (sc_resource_limits s))) \<and>
    (0 < rl_memory_pool (sc_resource_limits s) \<and> rl_memory_pool (sc_resource_limits s) < - 1 \<longrightarrow>
       (\<Sum>x \<leftarrow> sc_running s. unat (nr_memory_bytes (resources_for s x)))
         \<le> unat (rl_memory_pool (sc_resource_limits s))) \<and>
    (\<forall>x \<in> set (sc_running s). \<forall>y \<in> set (sc_running s). x \<noteq> y \<longrightarrow>
       set (nr_exclusive (resources_for s x)) \<inter> set (nr_exclusive (resources_for s y)) = {}) \<and>
    (\<forall>x \<in> set (sc_running s). is_interactive s x \<longrightarrow> sc_running s = [x])"
proof -
  have use: "use_ok s" using sched_reachable_inv [OF assms] by (simp add: sched_inv_def)
  have "x = y" if "x \<in> set (sc_running s)" "y \<in> set (sc_running s)"
    "l \<in> set (nr_exclusive (resources_for s x))" "l \<in> set (nr_exclusive (resources_for s y))" for x y l
  proof -
    have "map_of (sc_held_locks s) l = Some x" "map_of (sc_held_locks s) l = Some y"
      using use that by (simp_all add: use_ok_def locks_ok_def)
    then show ?thesis by simp
  qed
  with use show ?thesis
    by (auto simp: use_ok_def cpu_ok_def memory_ok_def cpu_sum_def memory_sum_def)
qed

theorem scheduler_safety_witness:
  "sched_reachable demo_plan demo_running \<and> sc_running demo_running = [''a''] \<and>
   length (sc_running demo_running) \<le> sc_jobs demo_running \<and>
   (\<Sum>x \<leftarrow> sc_running demo_running. unat (cpu_tokens (resources_for demo_running x)))
     \<le> unat (rl_cpu_pool (sc_resource_limits demo_running))"
proof -
  have "rl_cpu_pool (sc_resource_limits demo_running) < - 1" by (simp add: demo_schedules)
  with scheduler_safety [OF demo_reachable(2)] demo_reachable(2) show ?thesis
    by (simp add: demo_schedules(2))
qed

text \<open>
  C2: A node is started only after all of its dependencies: in every reachable state, every
  dependency of a node that is ready, runs, succeeded or failed has succeeded, and what
  \<open>schedule_ready\<close> starts is distinct, was ready before, and runs afterwards.\<close>

theorem scheduler_respects_dependencies:
  assumes "sched_reachable plan s"
  shows "(\<forall>x d. node_state s x \<in> {Some Ready, Some Running, Some Succeeded, Some Failed} \<and>
       d \<in> set (plan_deps plan x) \<longrightarrow> node_state s d = Some Succeeded) \<and>
    (\<forall>s' started. schedule_ready s = (s', started) \<longrightarrow> distinct started \<and>
       (\<forall>x \<in> set started. node_state s x = Some Ready \<and> node_state s' x = Some Running))"
proof -
  have inv: "sched_inv plan s" by (rule sched_reachable_inv [OF assms])
  have deps: "node_state s d = Some Succeeded"
    if "node_state s x \<in> {Some Ready, Some Running, Some Succeeded, Some Failed}"
      "d \<in> set (plan_deps plan x)" for x d
  proof -
    have "open_deps plan s x = {}" using inv that(1) unfolding sched_inv_def deps_ok_def by blast
    with that(2) show ?thesis by (auto simp: open_deps_def)
  qed
  with schedule_ready_started [OF inv] deps show ?thesis by blast
qed

theorem scheduler_respects_dependencies_witness:
  "\<exists>s'. schedule_ready demo_start = (s', [''a'']) \<and> node_state s' ''a'' = Some Running"
proof -
  obtain s' where "schedule_ready demo_start = (s', [''a''])"
    using demo_schedules(1) by (metis prod.collapse)
  with scheduler_respects_dependencies [OF demo_reachable(1)] show ?thesis by auto
qed

text \<open>
  C30: Reporting an exit in a reachable state never panics: it succeeds exactly for a running node,
  and otherwise the error is \<open>UnknownNode\<close> for an id outside the plan and \<open>NotRunning\<close> for a node
  that is not running.\<close>

theorem on_exit_errors:
  assumes "sched_reachable plan s"
  shows "(\<exists>s'. on_exit node code s = Ok s') \<and> node \<in> set (sc_running s) \<or>
    on_exit node code s = Err (UnknownNode node) \<and> node \<notin> set (plan_node_ids plan) \<or>
    on_exit node code s = Err (NotRunning node) \<and> node \<in> set (plan_node_ids plan) \<and>
      node \<notin> set (sc_running s)"
  using on_exit_total [OF sched_reachable_inv [OF assms], of node code]
  by (cases "on_exit node code s") (auto split: if_splits)

theorem on_exit_errors_witness:
  "on_exit ''b'' 0 demo_running = Err (NotRunning ''b'')"
proof -
  have "''b'' \<in> set (plan_node_ids demo_plan) \<and> ''b'' \<notin> set (sc_running demo_running)"
    by (simp add: demo_schedules(2) plan_node_ids_def demo_plan_def demo_node_def)
  with on_exit_errors [OF demo_reachable(2), of "''b''" 0] show ?thesis by blast
qed

end
