(* ===== verification/Scheduler_Progress.thy ===== *)
theory Scheduler_Progress
  imports Scheduler_Safety
begin

text \<open>
  The scheduler gets its work done: whenever nothing runs, a ready node can start; every run takes
  a bounded number of effective steps and ends with every node in a terminal state; the outcome
  says what happened; and with one job and no failure the nodes start in the plan's serial order.
\<close>

section \<open>Nothing blocks an idle scheduler\<close>

lemma can_acquire_idle:
  assumes inv: "sched_inv plan s" and idle: "sc_running s = []" and x: "x \<in> set (plan_node_ids plan)"
  shows "can_acquire_resources s x"
proof -
  let ?r = "resources_for s x"
  from x obtain n where n: "n \<in> set (ep_nodes plan)" "x = pn_id n" by (auto simp: plan_node_ids_def)
  with inv have "map_of (sc_node_resources s) x = Some ?r"
    by (simp add: sched_inv_def config_ok_def resources_for_def)
  then have "(x, ?r) \<in> set (sc_node_resources s)" by (rule map_of_SomeD)
  moreover have "validate_schedulability s = Ok ()" using inv by (simp add: sched_inv_def config_ok_def)
  ultimately have ok: "check_demand (sc_resource_limits s) (x, ?r) = Ok ()"
    by (auto simp: validate_schedulability_def for_each_Ok)
  have zero: "sc_cpu_in_use s = 0" "sc_memory_in_use s = 0"
    using inv idle by (auto simp: sched_inv_def use_ok_def cpu_ok_def memory_ok_def cpu_sum_def
        memory_sum_def unat_eq_0)
  have add0: "saturating_add 0 w = w" for w :: "'a::len word"
  proof -
    have "unat w < 2 ^ LENGTH('a)" by (rule unsigned_less)
    then show ?thesis by (simp add: saturating_add_def)
  qed
  have "map_of (sc_held_locks s) l = None" for l
    using inv idle by (cases "map_of (sc_held_locks s) l") (auto simp: sched_inv_def use_ok_def locks_ok_def)
  with ok show ?thesis
    by (auto simp: can_acquire_resources_def Let_def check_demand_def zero add0 list_all_iff
        split: if_splits)
qed

lemma schedule_loop_extends: "\<exists>xs. snd (schedule_loop s started) = started @ xs"
proof (induction s started rule: schedule_loop.induct)
  case (1 s started)
  then show ?case
    by (subst schedule_loop.simps) (auto split: option.splits)
qed

lemma schedule_ready_idle:
  assumes inv: "sched_inv plan s" and idle: "sc_running s = []" and ready: "sc_ready s \<noteq> []"
  shows "\<exists>xs. snd (schedule_ready s) = hd (sc_ready s) # xs"
proof -
  have tab: "tables_ok plan s" using inv by (simp add: sched_inv_def)
  have rst: "node_state s x = Some Ready \<and> x \<in> set (plan_node_ids plan)" if "x \<in> set (sc_ready s)" for x
    using that tab unfolding tables_ok_def by blast
  have "hd (sc_ready s) \<in> unstarted s"
    using rst ready by (auto simp: unstarted_node_state not_started_def)
  then have trip: "\<not> sc_fail_fast_tripped s" using inv by (auto simp: sched_inv_def causes_ok_def)
  have find: "find (can_acquire_resources s) (sc_ready s) = Some (hd (sc_ready s))"
    using can_acquire_idle [OF inv idle] rst ready by (cases "sc_ready s") auto
  have jobs: "0 < sc_jobs s" using inv by (simp add: sched_inv_def config_ok_def)
  have "\<not> has_interactive_in_flight s" by (simp add: has_interactive_in_flight_def idle)
  then show ?thesis
    using trip find jobs idle schedule_loop_extends [of "start_node (hd (sc_ready s)) s" "[hd (sc_ready s)]"]
    by (auto simp: schedule_ready_def schedule_loop.simps [of s])
qed

section \<open>Termination\<close>

definition rank :: "NodeState option \<Rightarrow> nat" where
  "rank st = (case st of
     Some Pending \<Rightarrow> 2 | Some Ready \<Rightarrow> 2 | Some Running \<Rightarrow> 1 | _ \<Rightarrow> 0)"

definition sched_work :: "ExecutionPlan \<Rightarrow> Scheduler \<Rightarrow> nat" where
  "sched_work plan s = (\<Sum>x \<in> set (plan_node_ids plan). rank (node_state s x))"

text \<open>An effective step starts at least one node or ends one.\<close>

inductive work_step :: "Scheduler \<Rightarrow> Scheduler \<Rightarrow> bool" where
  work_schedule: "schedule_ready s = (s', x # xs) \<Longrightarrow> work_step s s'"
| work_exit: "on_exit node code s = Ok s' \<Longrightarrow> work_step s s'"

inductive_cases work_stepE: "work_step s s'"

lemma work_step_sched_step: "work_step s s' \<Longrightarrow> sched_step s s'"
  by (erule work_stepE) (auto intro: sched_step.intros)

lemma rank_schedule_loop:
  assumes "\<forall>x \<in> set (sc_ready s). node_state s x = Some Ready"
  shows "rank (node_state (fst (schedule_loop s started)) x) \<le> rank (node_state s x)"
  using assms
proof (induction s started rule: schedule_loop.induct)
  case (1 s started)
  show ?case
  proof (cases "find (can_acquire_resources s) (sc_ready s)")
    case None
    then show ?thesis by (simp add: schedule_loop.simps [of s])
  next
    case (Some nid)
    then have "nid \<in> set (sc_ready s)" by (auto dest: find_SomeD)
    then have "node_state s nid = Some Ready" using "1.prems" by blast
    then have one: "rank (node_state (start_node nid s) x) \<le> rank (node_state s x)"
      by (simp add: start_node_fields rank_def)
    have "\<forall>x \<in> set (sc_ready (start_node nid s)). node_state (start_node nid s) x = Some Ready"
      using "1.prems" by (simp add: start_node_fields)
    with "1.IH" [OF _ Some] one show ?thesis
      by (subst schedule_loop.simps) (auto simp: Some intro: order_trans)
  qed
qed

lemma rank_on_exit:
  assumes inv: "sched_inv plan s" and exit: "on_exit node code s = Ok s'"
  shows "rank (node_state s' x) \<le> rank (node_state s x)" and "rank (node_state s' node) < rank (node_state s node)"
proof -
  have run: "node \<in> set (sc_running s)" using exit by (auto simp: on_exit_eq split: if_splits)
  have parts: "tables_ok plan s" using inv by (simp add: sched_inv_def)
  with run have st: "node_state s node = Some Running" by (simp add: running_state)
  have wf: "bt_wf (sc_states (ended node v s))" for v
    using parts ended_fields(7) by (simp add: tables_ok_def)
  have "rank (node_state s' x) \<le> rank (((node_state s)(node := None)) x)" for x
  proof (cases "code = 0")
    case True
    with exit run sched_inv_success [OF inv run] have "unlocked (children_of s node) (ended node Succeeded s) s'"
      by (auto simp: on_exit_eq split: if_splits)
    then show ?thesis
      by (auto simp: unlocked_def last_open_def ended_fields rank_def split: if_splits)
  next
    case False
    show ?thesis
    proof (cases "sc_failure_policy s")
      case FailFast
      with False exit run
      have s': "s' = cancel_all_not_started ((ended node Failed s)\<lparr>sc_fail_fast_tripped := True\<rparr>)"
        by (auto simp: on_exit_eq split: if_splits)
      have "bt_wf (sc_states ((ended node Failed s)\<lparr>sc_fail_fast_tripped := True\<rparr>))" using wf by simp
      moreover have "node_state ((ended node Failed s)\<lparr>sc_fail_fast_tripped := True\<rparr>) x =
          ((node_state s)(node \<mapsto> Failed)) x" for x
        using ended_fields(2) [of node Failed s] by (simp add: node_state_def fun_eq_iff)
      ultimately show ?thesis unfolding s' by (subst cancel_all_fields(6)) (auto simp: rank_def)
    next
      case KeepGoing
      with False exit run have "s' = cancel_transitive_dependents node (ended node Failed s)"
        by (auto simp: on_exit_eq split: if_splits)
      with cancel_transitive_dependents_skips [OF wf, where failed = node]
      show ?thesis by (auto simp: skips_def ended_fields rank_def)
    qed
  qed
  from this [of x] this [of node] st
  show "rank (node_state s' x) \<le> rank (node_state s x)" "rank (node_state s' node) < rank (node_state s node)"
    by (auto simp: rank_def split: if_splits)
qed

lemma ready_in_plan:
  "tables_ok plan s \<Longrightarrow> node_state s x = Some st \<Longrightarrow> x \<in> set (plan_node_ids plan)"
  unfolding tables_ok_def by blast

lemma sched_work_step:
  assumes inv: "sched_inv plan s" and step: "work_step s s'"
  shows "sched_work plan s' < sched_work plan s"
proof -
  have tab: "tables_ok plan s" using inv by (simp add: sched_inv_def)
  obtain x where le: "\<And>y. rank (node_state s' y) \<le> rank (node_state s y)"
    and less: "rank (node_state s' x) < rank (node_state s x)"
    using step
  proof (cases rule: work_step.cases)
    case (work_schedule x xs)
    from schedule_ready_started [OF inv work_schedule]
    have x: "node_state s x = Some Ready" "node_state s' x = Some Running" by auto
    have "\<forall>x \<in> set (sc_ready s). node_state s x = Some Ready"
      using tab by (simp add: tables_ok_def)
    from rank_schedule_loop [OF this, of "[]"] work_schedule
    have "rank (node_state s' y) \<le> rank (node_state s y)" for y
      by (simp add: schedule_ready_def split: if_splits)
    with x that [of x] show thesis by (simp add: rank_def)
  next
    case (work_exit node code)
    with that [of node] rank_on_exit [OF inv work_exit] show thesis by blast
  qed
  have "x \<in> set (plan_node_ids plan)"
    using less ready_in_plan [OF tab] by (cases "node_state s x") (auto simp: rank_def)
  with le less show ?thesis
    unfolding sched_work_def by (intro sum_strict_mono_ex1) auto
qed

interpretation sched_work: terminating_system "\<lambda>s. plan_wf plan \<and> fresh plan s" work_step
  "sched_inv plan" "sched_work plan" for plan
proof unfold_locales
  show "plan_wf plan \<and> fresh plan s \<Longrightarrow> sched_inv plan s" for s by (rule sched.start_inv)
  show "sched_inv plan s \<Longrightarrow> work_step s t \<Longrightarrow> sched_inv plan t" for s t
    using sched.step_inv work_step_sched_step by blast
  show "sched_inv plan s \<Longrightarrow> work_step s t \<Longrightarrow> sched_work plan t < sched_work plan s" for s t
    by (rule sched_work_step)
qed

lemma sched_work_le: "sched_work plan s \<le> 2 * card (set (plan_node_ids plan))"
proof -
  have "rank st \<le> 2" for st by (simp add: rank_def split: option.splits NodeState.splits)
  then have "sched_work plan s \<le> (\<Sum>x \<in> set (plan_node_ids plan). 2)"
    unfolding sched_work_def by (intro sum_mono)
  then show ?thesis by simp
qed

lemma sched_reachable_wf: "sched_reachable plan s \<Longrightarrow> plan_wf plan"
  unfolding sched_reachable_def by (induction rule: reachable.induct) auto

lemma not_finished_step:
  assumes inv: "sched_inv plan s" and nf: "\<not> is_finished s"
  shows "\<exists>t. work_step s t"
proof (cases "sc_running s")
  case Nil
  with nf have "sc_ready s \<noteq> []" by (simp add: is_finished_def)
  from schedule_ready_idle [OF inv Nil this] obtain xs where "snd (schedule_ready s) = hd (sc_ready s) # xs"
    by blast
  then have "schedule_ready s = (fst (schedule_ready s), hd (sc_ready s) # xs)" by (metis prod.collapse)
  then show ?thesis by (blast intro: work_schedule)
next
  case (Cons node rest)
  then have "node_state s node = Some Running"
    using inv running_state [of plan s node] by (simp add: sched_inv_def)
  with inv have "node \<in> set (plan_node_ids plan)" using ready_in_plan by (auto simp: sched_inv_def)
  with on_exit_total [OF inv, of node 0] Cons obtain t where "on_exit node 0 s = Ok t"
    by (cases "on_exit node 0 s") auto
  then show ?thesis by (blast intro: work_exit)
qed

lemma finished_terminal:
  assumes inv: "sched_inv plan s" and wf: "plan_wf plan" and fin: "is_finished s"
    and x: "x \<in> set (plan_node_ids plan)"
  shows "\<exists>st. node_state s x = Some st \<and> is_terminal st"
proof -
  let ?order = "ep_serial_order plan"
  have tab: "tables_ok plan s" and deps: "deps_ok plan s" using inv by (auto simp: sched_inv_def)
  have "\<exists>st. node_state s (?order ! i) = Some st \<and> is_terminal st" if "i < length ?order" for i
    using that
  proof (induction i rule: less_induct)
    case (less i)
    let ?y = "?order ! i"
    have "?y \<in> set (plan_node_ids plan)" using less.prems wf nth_mem by (fastforce simp: plan_wf_def)
    then obtain st where st: "node_state s ?y = Some st" using tab unfolding tables_ok_def by blast
    have "st \<noteq> Ready" "st \<noteq> Running" using st fin tab by (auto simp: is_finished_def tables_ok_def)
    moreover have "st \<noteq> Pending"
    proof
      assume "st = Pending"
      then obtain d where d: "d \<in> set (plan_deps plan ?y)" "node_state s d \<noteq> Some Succeeded"
        and bad: "node_state s d \<notin> {Some Failed, Some Cancelled, Some Skipped}"
        using deps st unfolding deps_ok_def open_deps_def by blast
      have "d \<in> set (take i ?order)" using wf less.prems d(1) by (auto simp: plan_wf_def)
      then obtain j where "j < i" "?order ! j = d" by (auto simp: in_set_conv_nth)
      with less.IH [of j] less.prems obtain sd where "node_state s d = Some sd" "is_terminal sd" by auto
      with d(2) bad show False by (auto simp: is_terminal_def)
    qed
    ultimately show ?case using st by (cases st) (auto simp: is_terminal_def)
  qed
  moreover have "x \<in> set ?order" using wf x by (simp add: plan_wf_def)
  ultimately show ?thesis by (metis in_set_conv_nth)
qed

section \<open>Properties\<close>

text \<open>
  C3: A run cannot go on forever and cannot get stuck. From any reachable state at most twice as
  many effective steps (starting at least one node, or ending one) are possible as the plan has
  nodes; in a state that is not finished such a step exists; and in a finished state every node of
  the plan is in a terminal state.\<close>

theorem scheduler_completes:
  assumes "sched_reachable plan s"
  shows "(\<forall>n t. (work_step ^^ n) s t \<longrightarrow> n \<le> 2 * length (ep_nodes plan)) \<and>
    (\<not> is_finished s \<longrightarrow> (\<exists>t. work_step s t)) \<and>
    (is_finished s \<longrightarrow> (\<forall>x \<in> set (plan_node_ids plan). \<exists>st. node_state s x = Some st \<and> is_terminal st))"
proof -
  have inv: "sched_inv plan s" and wf: "plan_wf plan"
    using sched_reachable_inv [OF assms] sched_reachable_wf [OF assms] by auto
  have "card (set (plan_node_ids plan)) \<le> length (ep_nodes plan)"
    using card_length [of "plan_node_ids plan"] by (simp add: plan_node_ids_def)
  then have "n \<le> 2 * length (ep_nodes plan)" if "(work_step ^^ n) s t" for n t
    using sched_work.steps_bounded [OF inv that] sched_work_le [of plan s] by linarith
  with not_finished_step [OF inv] finished_terminal [OF inv wf] show ?thesis by blast
qed

theorem scheduler_completes_witness:
  "\<exists>t. work_step demo_start t"
proof -
  have "\<not> is_finished demo_start" by (simp add: is_finished_def demo_start_def)
  with scheduler_completes [OF demo_reachable(1)] show ?thesis by blast
qed

text \<open>
  The lists of an outcome hold the nodes in the states they name; the policy is fixed by the start
  of the run, and only fail-fast trips.
\<close>

lemma outcome_of_sets:
  assumes "sched_inv plan s"
  shows "set (so_failed (outcome_of s)) = {x. node_state s x = Some Failed}"
    and "set (so_cancelled_nodes (outcome_of s)) = {x. node_state s x = Some Cancelled}"
    and "set (so_skipped_nodes (outcome_of s)) = {x. node_state s x = Some Skipped}"
    and "so_success (outcome_of s) \<longleftrightarrow> (\<forall>x \<in> set (plan_node_ids plan). node_state s x = Some Succeeded)"
    and "so_cancelled (outcome_of s) = sc_fail_fast_tripped s"
proof -
  have wf: "bt_wf (sc_states s)" and dom: "dom (node_state s) = set (plan_node_ids plan)"
    using assms by (auto simp: sched_inv_def tables_ok_def)
  have eq: "outcome_of s = \<lparr>
      so_success = list_all (\<lambda>(_, state). state = Succeeded) (sc_states s),
      so_cancelled = sc_fail_fast_tripped s,
      so_failed = map fst (filter (\<lambda>(_, state). state = Failed) (sc_states s)),
      so_cancelled_nodes = map fst (filter (\<lambda>(_, state). state = Cancelled) (sc_states s)),
      so_skipped_nodes = map fst (filter (\<lambda>(_, state). state = Skipped) (sc_states s))\<rparr>"
    by (simp add: outcome_of_def outcome_loop_eq)
  have sel: "set (map fst (filter (\<lambda>(_, state). state = v) (sc_states s))) = {x. node_state s x = Some v}" for v
    using bt_wf_lookup [OF wf] by (force simp: node_state_def)
  show "set (so_failed (outcome_of s)) = {x. node_state s x = Some Failed}"
    "set (so_cancelled_nodes (outcome_of s)) = {x. node_state s x = Some Cancelled}"
    "set (so_skipped_nodes (outcome_of s)) = {x. node_state s x = Some Skipped}"
    "so_cancelled (outcome_of s) = sc_fail_fast_tripped s"
    unfolding eq ScheduleOutcome.select_convs sel by (rule refl)+
  have "list_all (\<lambda>(_, state). state = Succeeded) (sc_states s) \<longleftrightarrow>
      (\<forall>x v. node_state s x = Some v \<longrightarrow> v = Succeeded)"
    using bt_wf_lookup [OF wf] by (auto simp: list_all_iff node_state_def)
  also have "\<dots> \<longleftrightarrow> (\<forall>x \<in> set (plan_node_ids plan). node_state s x = Some Succeeded)"
    unfolding dom [symmetric] by (metis domD domI option.inject)
  finally show "so_success (outcome_of s) \<longleftrightarrow>
      (\<forall>x \<in> set (plan_node_ids plan). node_state s x = Some Succeeded)"
    by (simp add: eq)
qed

lemma same_config_loop: "same_config s (fst (schedule_loop s started)) \<and>
    sc_fail_fast_tripped (fst (schedule_loop s started)) = sc_fail_fast_tripped s"
proof (induction s started rule: schedule_loop.induct)
  case (1 s started)
  show ?case
  proof (cases "find (can_acquire_resources s) (sc_ready s)")
    case None
    then show ?thesis by (simp add: schedule_loop.simps [of s])
  next
    case (Some nid)
    note start = start_node_fields(1) [of s nid] start_node_fields(7) [of nid s]
    from 1 [OF _ Some] Some start show ?thesis
      by (subst (1 2) schedule_loop.simps) (auto intro: same_config_trans)
  qed
qed

lemma policy_step:
  assumes inv: "sched_inv plan s" and step: "sched_step s s'"
  shows "sc_failure_policy s' = sc_failure_policy s"
    and "sc_fail_fast_tripped s' \<Longrightarrow> sc_fail_fast_tripped s \<or> sc_failure_policy s = FailFast"
proof -
  have wf: "bt_wf (sc_states s)" using inv by (simp add: sched_inv_def tables_ok_def)
  have "sc_failure_policy s' = sc_failure_policy s \<and>
      (sc_fail_fast_tripped s' \<longrightarrow> sc_fail_fast_tripped s \<or> sc_failure_policy s = FailFast)"
    using step
  proof (cases rule: sched_step.cases)
    case (step_schedule started)
    then show ?thesis
      using same_config_loop [of s "[]"] cancel_all_fields(1,5) [OF wf]
      by (auto simp: schedule_ready_def same_config_def split: if_splits)
  next
    case (step_exit node code)
    have run: "node \<in> set (sc_running s)" using step_exit by (auto simp: on_exit_eq split: if_splits)
    have "bt_wf (sc_states ((ended node Failed s)\<lparr>sc_fail_fast_tripped := True\<rparr>))"
      using ended_fields(7) [OF wf] by simp
    note ff = cancel_all_fields(1) [OF this]
    note kg = cancel_transitive_dependents_skips [OF ended_fields(7) [OF wf], where failed = node]
    show ?thesis
      using step_exit sched_inv_success [OF inv run] ff kg
        ended_fields(1) [of s node Failed] ended_fields(1) [of s node Succeeded]
      by (auto simp: on_exit_eq unlocked_def skips_def same_config_def ended_fields(6)
          split: if_splits FailurePolicy.splits)
  qed
  then show "sc_failure_policy s' = sc_failure_policy s"
    and "sc_fail_fast_tripped s' \<Longrightarrow> sc_fail_fast_tripped s \<or> sc_failure_policy s = FailFast"
    by auto
qed

lemma tripped_fail_fast:
  "sched_reachable plan s \<Longrightarrow> sc_fail_fast_tripped s \<Longrightarrow> sc_failure_policy s = FailFast"
  unfolding sched_reachable_def
proof (induction rule: reachable.induct)
  case (reachable_start s)
  then have "sched_inv plan s" "sc_running s = []" using sched_inv_fresh by auto
  from reachable_start have "fresh plan s" by simp
  then have "\<not> sc_fail_fast_tripped s"
    using reachable_start(1)
    by (induction rule: fresh.induct)
      (auto simp: with_resource_limits_def Let_def outcome_simps with_failure_policy_def
        dest: Scheduler_new_Ok(8) intro: fresh.intros)
  with reachable_start show ?case by simp
next
  case (reachable_step s t)
  then have "sched_inv plan s" using sched.reachable_inv by blast
  from policy_step [OF this reachable_step(2)] reachable_step show ?case by auto
qed

section \<open>Driving the scheduler\<close>

text \<open>
  A caller that starts what it is given and reports exits one at a time, always of the first
  running node, with the exit code \<open>codes\<close> gives it. It returns the nodes in the order of their
  starts; \<open>fuel\<close> bounds the number of exits, and as many exits as the plan has nodes are enough.
\<close>

fun drive :: "(string \<Rightarrow> i32) \<Rightarrow> nat \<Rightarrow> Scheduler \<Rightarrow> Scheduler \<times> string list" where
  "drive codes 0 s = schedule_ready s"
| "drive codes (Suc fuel) s =
     (case schedule_ready s of (s1, started) \<Rightarrow>
        (case sc_running s1 of
           [] \<Rightarrow> (s1, started)
         | node # _ \<Rightarrow>
             (case on_exit node (codes node) s1 of
                Ok s2 \<Rightarrow> (case drive codes fuel s2 of (s3, later) \<Rightarrow> (s3, started @ later))
              | _ \<Rightarrow> (s1, started))))"

lemma drive_reachable: "sched_reachable plan s \<Longrightarrow> sched_reachable plan (fst (drive codes fuel s))"
proof (induction codes fuel s rule: drive.induct)
  case (1 codes s)
  have "sched_step s (fst (schedule_ready s))" by (rule step_schedule [of _ _ "snd (schedule_ready s)"]) simp
  with 1 show ?case by (auto intro: sched_reachable_step)
next
  case (2 codes fuel s)
  obtain s1 started where sr: "schedule_ready s = (s1, started)" by fastforce
  then have r1: "sched_reachable plan s1"
    using "2.prems" sched_reachable_step step_schedule by blast
  show ?case
  proof (cases "sc_running s1")
    case Nil
    with sr r1 show ?thesis by simp
  next
    case (Cons node rest)
    show ?thesis
    proof (cases "on_exit node (codes node) s1")
      case (Ok s2)
      then have "sched_reachable plan s2" using r1 sched_reachable_step step_exit by blast
      from "2.IH" [OF sr [symmetric] Cons Ok this] sr Cons Ok show ?thesis
        by (simp add: case_prod_beta)
    qed (use sr Cons r1 in simp_all)
  qed
qed

text \<open>One round with one job: the least ready node starts, runs alone and ends.\<close>

definition serial_state :: "ExecutionPlan \<Rightarrow> string list \<Rightarrow> Scheduler \<Rightarrow> bool" where
  "serial_state plan done s \<longleftrightarrow> sched_inv plan s \<and> sc_jobs s = 1 \<and> sc_running s = [] \<and>
     (\<forall>x \<in> set (plan_node_ids plan). node_state s x \<in> {Some Succeeded, Some Ready, Some Pending}) \<and>
     (\<forall>x. node_state s x = Some Succeeded \<longleftrightarrow> x \<in> set done)"

lemma serial_state_ready:
  assumes "serial_state plan done s"
  shows "set (sc_ready s) =
    {x \<in> set (plan_node_ids plan). x \<notin> set done \<and> set (plan_deps plan x) \<subseteq> set done}"
proof -
  have inv: "sched_inv plan s" and st: "\<And>x. node_state s x = Some Succeeded \<longleftrightarrow> x \<in> set done"
    and states: "\<And>x. x \<in> set (plan_node_ids plan) \<Longrightarrow> node_state s x \<in> {Some Succeeded, Some Ready, Some Pending}"
    using assms by (auto simp: serial_state_def)
  have tab: "tables_ok plan s" and deps: "deps_ok plan s" using inv by (auto simp: sched_inv_def)
  have od: "open_deps plan s x = {} \<longleftrightarrow> set (plan_deps plan x) \<subseteq> set done" for x
    by (auto simp: open_deps_def st)
  have "node_state s x = Some Ready \<longleftrightarrow> x \<in> set (plan_node_ids plan) \<and> x \<notin> set done \<and> open_deps plan s x = {}" for x
  proof
    assume r: "node_state s x = Some Ready"
    then show "x \<in> set (plan_node_ids plan) \<and> x \<notin> set done \<and> open_deps plan s x = {}"
      using ready_in_plan [OF tab r] st [of x] deps unfolding deps_ok_def by auto
  next
    assume "x \<in> set (plan_node_ids plan) \<and> x \<notin> set done \<and> open_deps plan s x = {}"
    then show "node_state s x = Some Ready"
      using states [of x] st [of x] deps unfolding deps_ok_def by auto
  qed
  then show ?thesis using tab by (simp add: tables_ok_def od)
qed

lemma serial_round:
  assumes J: "serial_state plan done s" and ready: "sc_ready s \<noteq> []"
  shows "\<exists>s1 s2. schedule_ready s = (s1, [hd (sc_ready s)]) \<and> sc_running s1 = [hd (sc_ready s)] \<and>
    on_exit (hd (sc_ready s)) 0 s1 = Ok s2 \<and> serial_state plan (done @ [hd (sc_ready s)]) s2"
proof -
  let ?x = "hd (sc_ready s)" and ?s1 = "start_node (hd (sc_ready s)) s"
  have inv: "sched_inv plan s" and one: "sc_jobs s = 1" and idle: "sc_running s = []"
    using J by (auto simp: serial_state_def)
  from schedule_ready_idle [OF inv idle ready] obtain xs where xs: "snd (schedule_ready s) = ?x # xs" by blast
  then have act: "\<not> sc_fail_fast_tripped s" "schedule_ready s = schedule_loop s []"
    by (auto simp: schedule_ready_def split: if_splits)
  have run1: "sc_running ?s1 = [?x]" using idle by (simp add: start_node_fields insort_insert_key_def)
  have jobs1: "sc_jobs ?s1 = 1" using start_node_fields(1) [of s ?x] one by (simp add: same_config_def)
  have tab: "tables_ok plan s" using inv by (simp add: sched_inv_def)
  have "\<And>x. x \<in> set (sc_ready s) \<Longrightarrow> x \<in> set (plan_node_ids plan)"
    using serial_state_ready [OF J] by blast
  then have find: "find (can_acquire_resources s) (sc_ready s) = Some ?x"
    using can_acquire_idle [OF inv idle] ready by (cases "sc_ready s") auto
  have stop: "schedule_loop ?s1 [?x] = (?s1, [?x])"
    by (subst schedule_loop.simps) (simp add: run1 jobs1)
  have sr: "schedule_ready s = (?s1, [?x])"
    unfolding act(2) by (subst schedule_loop.simps) (simp add: one idle find stop)
  have inv1: "sched_inv plan ?s1" using sched_inv_schedule_ready [OF inv] sr by simp
  have x1: "?x \<in> set (sc_running ?s1)" by (simp add: run1)
  from sched_inv_success [OF inv1 x1] obtain s2
    where s2: "unlock_dependents ?x (ended ?x Succeeded ?s1) = Ok s2"
      "unlocked (children_of ?s1 ?x) (ended ?x Succeeded ?s1) s2" "sched_inv plan s2" by blast
  have exit: "on_exit ?x 0 ?s1 = Ok s2"
    using s2(1) x1 by (simp add: on_exit_eq start_node_fields)
  have st2: "node_state s2 y = (if y \<in> set (children_of ?s1 ?x) \<and> last_open (ended ?x Succeeded ?s1) y then Some Ready
      else if y = ?x then Some Succeeded else node_state s y)" for y
    using s2(2) by (simp add: unlocked_def ended_fields start_node_fields)
  have lo: "last_open (ended ?x Succeeded ?s1) y \<Longrightarrow> y \<noteq> ?x \<and> node_state s y = Some Pending" for y
    by (auto simp: last_open_def ended_fields start_node_fields split: if_splits)
  have "serial_state plan (done @ [?x]) s2"
    unfolding serial_state_def
  proof (intro conjI ballI allI)
    show "sched_inv plan s2" by (rule s2(3))
    show "sc_jobs s2 = 1"
      using s2(2) ended_fields(1) [of ?s1 ?x Succeeded] jobs1 by (simp add: unlocked_def same_config_def)
    show "sc_running s2 = []"
      using s2(2) by (simp add: unlocked_def same_use_def ended_fields run1)
    show "node_state s2 x \<in> {Some Succeeded, Some Ready, Some Pending}" if "x \<in> set (plan_node_ids plan)" for x
      using J that by (auto simp: st2 serial_state_def)
    show "node_state s2 x = Some Succeeded \<longleftrightarrow> x \<in> set (done @ [?x])" for x
    proof -
      have "node_state s x = Some Succeeded \<longleftrightarrow> x \<in> set done" using J by (simp add: serial_state_def)
      with lo [of x] show ?thesis by (auto simp: st2)
    qed
  qed
  with sr run1 exit show ?thesis by blast
qed

lemma serial_drive:
  assumes "serial_state plan dn s" and "plan_wf plan"
    and "set (node_ids g) = set (plan_node_ids plan)"
    and "\<And>x. x \<in> set (plan_node_ids plan) \<Longrightarrow> deps_of g x = plan_deps plan x"
    and "greedy g dn" and "fuel = card (set (plan_node_ids plan) - set dn)"
  shows "\<exists>s' order. drive (\<lambda>_. 0) fuel s = (s', order) \<and> greedy g (dn @ order) \<and>
    set (dn @ order) = set (plan_node_ids plan) \<and> serial_state plan (dn @ order) s' \<and> is_finished s'"
  using assms
proof (induction fuel arbitrary: dn s)
  case 0
  have sub: "set dn \<subseteq> set (plan_node_ids plan)" using greedy_distinct [OF 0(5)] 0(3) by simp
  with 0 have all: "set dn = set (plan_node_ids plan)" by (simp add: card_0_eq)
  have ready: "sc_ready s = []" using serial_state_ready [OF 0(1)] all by (cases "sc_ready s") auto
  have inv: "sched_inv plan s" and idle: "sc_running s = []" using 0(1) by (auto simp: serial_state_def)
  have "cancel_all_not_started s = s" if "sc_fail_fast_tripped s"
    using inv that by (intro cancel_all_none) (auto simp: sched_inv_def state_parts)
  then have "schedule_ready s = (s, [])"
    by (auto simp: schedule_ready_def schedule_loop.simps [of s] ready has_interactive_in_flight_def idle)
  with 0 all ready idle show ?case by (simp add: is_finished_def)
next
  case (Suc fuel)
  have ready: "set (sc_ready s) = {x. startable g dn x}"
    using serial_state_ready [OF Suc.prems(1)] Suc.prems(3,4) by (auto simp: startable_def)
  have ne: "sc_ready s \<noteq> []"
  proof
    assume "sc_ready s = []"
    moreover have "sched_inv plan s" "sc_running s = []" using Suc.prems(1) by (auto simp: serial_state_def)
    ultimately have "\<exists>st. node_state s x = Some st \<and> is_terminal st" if "x \<in> set (plan_node_ids plan)" for x
      using finished_terminal [OF _ Suc.prems(2) _ that] by (simp add: is_finished_def)
    then have "set (plan_node_ids plan) \<subseteq> set dn"
      using Suc.prems(1) by (fastforce simp: serial_state_def is_terminal_def)
    then have "set (plan_node_ids plan) - set dn = {}" by blast
    with Suc.prems(6) show False by simp
  qed
  let ?x = "hd (sc_ready s)"
  have bs: "bs_wf (sc_ready s)" using Suc.prems(1) by (simp add: serial_state_def sched_inv_def tables_ok_def)
  have x: "startable g dn ?x" using ne ready by (metis hd_in_set mem_Collect_eq)
  have "greedy g (dn @ [?x])"
    using Suc.prems(5) x bs_wf_hd_le [OF bs] ready by (auto simp: greedy_snoc)
  moreover have "fuel = card (set (plan_node_ids plan) - set (dn @ [?x]))"
  proof -
    have "?x \<in> set (plan_node_ids plan) - set dn" using x Suc.prems(3) by (simp add: startable_def)
    moreover have "set (plan_node_ids plan) - set (dn @ [?x]) = set (plan_node_ids plan) - set dn - {?x}" by auto
    ultimately show ?thesis using Suc.prems(6) by (simp add: card_Diff_singleton)
  qed
  moreover obtain s1 s2 where r: "schedule_ready s = (s1, [?x])" "sc_running s1 = [?x]"
    "on_exit ?x 0 s1 = Ok s2" "serial_state plan (dn @ [?x]) s2"
    using serial_round [OF Suc.prems(1) ne] by blast
  ultimately obtain s' order where "drive (\<lambda>_. 0) fuel s2 = (s', order)" "greedy g ((dn @ [?x]) @ order)"
    "set ((dn @ [?x]) @ order) = set (plan_node_ids plan)" "serial_state plan ((dn @ [?x]) @ order) s'" "is_finished s'"
    using Suc.IH [OF r(4) Suc.prems(2-4)] by blast
  with r show ?case by (intro exI [of _ s'] exI [of _ "?x # order"]) simp
qed

section \<open>Properties of finished runs\<close>

text \<open>
  C26: The outcome of a finished run. It is a success exactly when no node failed, and then every
  node succeeded; the three lists hold exactly the failed, the cancelled and the skipped nodes, and
  every other node of the plan succeeded; nodes are cancelled only after fail-fast tripped, which
  needs a failure; and every skipped node depends, directly or not, on a failed one.\<close>

theorem outcome_correct:
  assumes "sched_reachable plan s" and "is_finished s"
  shows "(so_success (outcome_of s) \<longleftrightarrow> so_failed (outcome_of s) = []) \<and>
    (so_success (outcome_of s) \<longleftrightarrow> (\<forall>x \<in> set (plan_node_ids plan). node_state s x = Some Succeeded)) \<and>
    set (so_failed (outcome_of s)) = {x. node_state s x = Some Failed} \<and>
    set (so_cancelled_nodes (outcome_of s)) = {x. node_state s x = Some Cancelled} \<and>
    set (so_skipped_nodes (outcome_of s)) = {x. node_state s x = Some Skipped} \<and>
    (\<forall>x \<in> set (plan_node_ids plan). node_state s x = Some Succeeded \<or>
       x \<in> set (so_failed (outcome_of s)) \<or> x \<in> set (so_cancelled_nodes (outcome_of s)) \<or>
       x \<in> set (so_skipped_nodes (outcome_of s))) \<and>
    (so_cancelled_nodes (outcome_of s) \<noteq> [] \<longrightarrow> so_cancelled (outcome_of s)) \<and>
    (so_cancelled (outcome_of s) \<longrightarrow> so_failed (outcome_of s) \<noteq> []) \<and>
    (\<forall>x \<in> set (so_skipped_nodes (outcome_of s)).
       \<exists>f \<in> set (so_failed (outcome_of s)). (dep_edge plan)\<^sup>+\<^sup>+ x f)"
proof -
  have inv: "sched_inv plan s" and wf: "plan_wf plan"
    using sched_reachable_inv [OF assms(1)] sched_reachable_wf [OF assms(1)] by auto
  note o = outcome_of_sets [OF inv]
  have causes: "causes_ok plan s" and tab: "tables_ok plan s" using inv by (auto simp: sched_inv_def)
  have empty: "so_failed (outcome_of s) = [] \<longleftrightarrow> (\<forall>x. node_state s x \<noteq> Some Failed)"
    "so_cancelled_nodes (outcome_of s) = [] \<longleftrightarrow> (\<forall>x. node_state s x \<noteq> Some Cancelled)"
    using o(1,2) by (metis (mono_tags, lifting) empty_iff list.set(1) mem_Collect_eq set_empty2 subsetI subset_empty)+
  have ends: "node_state s x = Some Succeeded \<or> node_state s x = Some Failed \<or>
      node_state s x = Some Cancelled \<or> node_state s x = Some Skipped" if "x \<in> set (plan_node_ids plan)" for x
    using finished_terminal [OF inv wf assms(2) that] by (auto simp: is_terminal_def)
  have fail: "\<exists>f. node_state s f = Some Failed"
    if "node_state s x = Some Cancelled \<or> node_state s x = Some Skipped" for x
    using that causes unfolding causes_ok_def by blast
  have succ: "so_success (outcome_of s) \<longleftrightarrow> so_failed (outcome_of s) = []"
  proof
    assume "so_success (outcome_of s)"
    then have "node_state s x \<noteq> Some Failed" for x
      using o(4) ready_in_plan [OF tab] by fastforce
    then show "so_failed (outcome_of s) = []" by (simp add: empty)
  next
    assume "so_failed (outcome_of s) = []"
    then have "\<forall>x. node_state s x \<noteq> Some Failed" by (simp add: empty)
    with ends fail show "so_success (outcome_of s)" unfolding o(4) by blast
  qed
  have canc: "so_cancelled_nodes (outcome_of s) \<noteq> [] \<longrightarrow> so_cancelled (outcome_of s)"
    "so_cancelled (outcome_of s) \<longrightarrow> so_failed (outcome_of s) \<noteq> []"
    using causes unfolding empty o(5) causes_ok_def by blast+
  have skip: "\<forall>x \<in> set (so_skipped_nodes (outcome_of s)).
       \<exists>f \<in> set (so_failed (outcome_of s)). (dep_edge plan)\<^sup>+\<^sup>+ x f"
    using causes unfolding o(1,3) causes_ok_def by blast
  have part: "\<forall>x \<in> set (plan_node_ids plan). node_state s x = Some Succeeded \<or>
       x \<in> set (so_failed (outcome_of s)) \<or> x \<in> set (so_cancelled_nodes (outcome_of s)) \<or>
       x \<in> set (so_skipped_nodes (outcome_of s))"
    using ends unfolding o(1,2,3) by blast
  from succ o(4,1,2,3) part canc skip show ?thesis by (intro conjI)
qed

text \<open>
  C5: Under the keep-going policy a finished run has run everything it could: a node is skipped
  exactly when it depends, directly or not, on a node that failed, every other node ran to its end,
  and nothing is cancelled.\<close>

theorem keep_going_runs_all:
  assumes "sched_reachable plan s" and "is_finished s" and "sc_failure_policy s = KeepGoing"
    and "x \<in> set (plan_node_ids plan)"
  shows "if \<exists>f. node_state s f = Some Failed \<and> (dep_edge plan)\<^sup>+\<^sup>+ x f
    then node_state s x = Some Skipped
    else node_state s x = Some Succeeded \<or> node_state s x = Some Failed"
proof -
  have inv: "sched_inv plan s" and wf: "plan_wf plan"
    using sched_reachable_inv [OF assms(1)] sched_reachable_wf [OF assms(1)] by auto
  have causes: "causes_ok plan s" and tab: "tables_ok plan s" and deps: "deps_ok plan s"
    using inv by (auto simp: sched_inv_def)
  have "\<not> sc_fail_fast_tripped s" using tripped_fail_fast [OF assms(1)] assms(3) by auto
  then have nc: "node_state s y \<noteq> Some Cancelled" for y using causes by (auto simp: causes_ok_def)
  have skip: "node_state s y = Some Skipped"
    if "dep_edge plan y d" "node_state s d = Some Failed \<or> node_state s d = Some Skipped" for y d
  proof -
    have "y \<in> set (plan_node_ids plan)"
      using that(1) plan_deps_no_node [of y plan] by (cases "y \<in> set (plan_node_ids plan)") (auto simp: dep_edge_def)
    moreover have "open_deps plan s y \<noteq> {}" using that by (auto simp: dep_edge_def open_deps_def)
    ultimately show ?thesis
      using finished_terminal [OF inv wf assms(2), of y] nc [of y] deps
      by (auto simp: deps_ok_def is_terminal_def)
  qed
  have "node_state s x = Some Skipped" if "(dep_edge plan)\<^sup>+\<^sup>+ x f" "node_state s f = Some Failed" for f
    using that by (induction rule: converse_tranclp_induct) (auto intro: skip)
  moreover have "\<exists>f. node_state s f = Some Failed \<and> (dep_edge plan)\<^sup>+\<^sup>+ x f" if "node_state s x = Some Skipped"
    using that causes by (auto simp: causes_ok_def)
  ultimately show ?thesis
    using finished_terminal [OF inv wf assms(2,4)] nc [of x] by (auto simp: is_terminal_def)
qed

text \<open>The node \<open>a\<close> of the example fails, \<open>b\<close> runs after it, and \<open>c\<close> is skipped.\<close>

definition demo_final :: Scheduler where
  "demo_final = fst (drive (\<lambda>x. if x = ''a'' then 1 else 0) 3 demo_start)"

definition demo_state ::
  "NodeState \<Rightarrow> NodeState \<Rightarrow> NodeState \<Rightarrow> string list \<Rightarrow> string list \<Rightarrow> (string \<times> string) list \<Rightarrow> u32 \<Rightarrow> Scheduler" where
  "demo_state a b c ready running locks cpu = demo_start\<lparr>
     sc_states := [(''a'', a), (''b'', b), (''c'', c)], sc_ready := ready, sc_running := running,
     sc_held_locks := locks, sc_cpu_in_use := cpu\<rparr>"

lemmas demo_defs = demo_state_def demo_start_def demo_plan_def demo_node_def

lemmas schedule_eval = schedule_ready_def has_interactive_in_flight_def schedule_loop.simps
  can_acquire_resources_def resources_for_def cpu_tokens_def saturating_add_def is_interactive_def
  start_node_def acquire_resources_def set_state_def Let_def insort_insert_key_def less_list_code
  less_char_def

lemmas exit_eval = on_exit_def release_resources_def resources_for_def cpu_tokens_def
  saturating_sub_def set_state_def Let_def cancel_transitive_dependents_def children_of_def
  not_started_def cancel_node_def unlock_dependents_def less_list_code less_char_def
  insort_insert_key_def

lemma demo_steps:
  "schedule_ready demo_start = (demo_state Running Ready Pending [''b''] [''a''] [(''l'', ''a'')] 1, [''a''])"
  "on_exit ''a'' 1 (demo_state Running Ready Pending [''b''] [''a''] [(''l'', ''a'')] 1) =
     Ok (demo_state Failed Ready Skipped [''b''] [] [] 0)"
  "schedule_ready (demo_state Failed Ready Skipped [''b''] [] [] 0) =
     (demo_state Failed Running Skipped [] [''b''] [(''l'', ''b'')] 1, [''b''])"
  "on_exit ''b'' 0 (demo_state Failed Running Skipped [] [''b''] [(''l'', ''b'')] 1) =
     Ok (demo_state Failed Succeeded Skipped [] [] [] 0)"
  "schedule_ready (demo_state Failed Succeeded Skipped [] [] [] 0) =
     (demo_state Failed Succeeded Skipped [] [] [] 0, [])"
  by (simp_all add: demo_defs schedule_eval, simp_all add: demo_defs exit_eval)

lemma demo_running_fields:
  "sc_running (demo_state a b c ready running locks cpu) = running"
  by (simp add: demo_state_def)

lemma demo_final_eq: "demo_final = demo_state Failed Succeeded Skipped [] [] [] 0"
  by (simp add: demo_final_def eval_nat_numeral demo_steps demo_running_fields)

lemma demo_final_state:
  "is_finished demo_final \<and> sc_failure_policy demo_final = KeepGoing \<and>
   node_state demo_final ''a'' = Some Failed"
  by (simp add: demo_final_eq demo_defs is_finished_def node_state_def)

lemma demo_final_reachable: "sched_reachable demo_plan demo_final"
  unfolding demo_final_def by (rule drive_reachable [OF demo_reachable(1)])

theorem outcome_correct_witness:
  "sched_reachable demo_plan demo_final \<and> ''a'' \<in> set (so_failed (outcome_of demo_final)) \<and>
   \<not> so_success (outcome_of demo_final)"
  using outcome_correct [OF demo_final_reachable] demo_final_state demo_final_reachable
  by fastforce

theorem keep_going_runs_all_witness:
  "node_state demo_final ''c'' = Some Skipped"
proof -
  have "dep_edge demo_plan ''c'' ''a''"
    by (simp add: dep_edge_def plan_deps_def demo_plan_def demo_node_def)
  moreover have "''c'' \<in> set (plan_node_ids demo_plan)"
    by (simp add: plan_node_ids_def demo_plan_def demo_node_def)
  ultimately show ?thesis
    using keep_going_runs_all [OF demo_final_reachable, of "''c''"] demo_final_state
      tranclp.r_into_trancl [of "dep_edge demo_plan" "''c''" "''a''"] by metis
qed

lemma fresh_states:
  assumes "fresh plan s" and "plan_wf plan"
  shows "node_state s x = (if x \<notin> set (plan_node_ids plan) then None
    else if plan_deps plan x = [] then Some Ready else Some Pending)"
  using assms
proof (induction rule: fresh.induct)
  case (fresh_new env jobs s)
  then show ?case by (simp add: Scheduler_new_Ok(13))
next
  case (fresh_limits s limits s')
  then have "node_state s' = node_state s"
    by (auto simp: with_resource_limits_def Let_def outcome_simps node_state_def fun_eq_iff)
  with fresh_limits show ?case by simp
next
  case (fresh_policy s policy)
  then show ?case by (simp add: with_failure_policy_def node_state_def)
qed

text \<open>
  C27: With one job and every node exiting with code 0, the scheduler over a built plan starts the
  nodes one after the other in exactly the plan's serial order, and ends in success.\<close>

theorem one_job_serial_order:
  assumes build: "build_execution_plan_roots ts roots policy sink = Ok (plan, sink')"
    and fresh: "fresh plan s" and one: "sc_jobs s = 1"
  shows "case drive (\<lambda>_. 0) (length (ep_nodes plan)) s of (s', order) \<Rightarrow>
    order = ep_serial_order plan \<and> is_finished s' \<and> so_success (outcome_of s')"
proof -
  have wf: "plan_wf plan" by (rule build_execution_plan_roots_wf [OF build])
  from build obtain e g where order: "plan_serial_union (me_tasks e) (expand_matrix_roots roots e) = Ok (ep_serial_order plan)"
    and g: "subgraph_union (me_tasks e) (expand_matrix_roots roots e) = Ok g"
    and topo: "topo_order g (ep_serial_order plan)"
    and nodes: "ep_nodes plan = List.map_filter (plan_node (me_tasks e) g) (node_ids g)"
    by (rule build_execution_plan_roots_Ok)
  note ids = plan_nodes_of_graph(1) [OF g nodes]
  have dist: "distinct (plan_node_ids plan)" using wf by (auto simp: plan_wf_def)
  have deps: "deps_of g x = plan_deps plan x" if "x \<in> set (plan_node_ids plan)" for x
    using that plan_deps_node [OF dist] plan_nodes_of_graph(3) [OF g nodes]
    by (auto simp: plan_node_ids_def)
  have J: "serial_state plan [] s"
    using sched_inv_fresh [OF fresh wf] one fresh_states [OF fresh wf] by (auto simp: serial_state_def)
  have fuel: "length (ep_nodes plan) = card (set (plan_node_ids plan) - set [])"
    using distinct_card [OF dist] by (simp add: plan_node_ids_def)
  have "greedy g []" by (simp add: greedy_def)
  from serial_drive [OF J wf _ deps this fuel] ids obtain s' ord
    where d: "drive (\<lambda>_. 0) (length (ep_nodes plan)) s = (s', ord)" "greedy g ord"
      "set ord = set (plan_node_ids plan)" "serial_state plan ord s'" "is_finished s'"
    by auto
  have "topo_order g ord"
    using greedy_distinct [OF d(2)] d(2,3) ids by (auto simp: topo_order_def greedy_def startable_def)
  moreover have "topo_serial g = Ok (ep_serial_order plan)"
    using order g by (simp add: plan_serial_union_def)
  ultimately have "ep_serial_order plan \<le> ord"
    using topo_serial_spec [OF subgraph_union_Ok(6) [OF g]] by simp
  moreover have "ord \<le> ep_serial_order plan"
    using greedy_least [OF d(2) _ topo] d(3) ids by simp
  ultimately have eq: "ord = ep_serial_order plan" by simp
  have "sched_inv plan s'" and "\<forall>x \<in> set (plan_node_ids plan). node_state s' x = Some Succeeded"
    using d(3,4) by (auto simp: serial_state_def)
  then have "so_success (outcome_of s')" using outcome_of_sets(4) by blast
  with d(1,5) eq show ?thesis by simp
qed

section \<open>When construction succeeds\<close>

lemma check_demand_iff: "check_demand limits (task, r) = Ok () \<longleftrightarrow> can_schedule_node limits r"
  by (auto simp: check_demand_def can_schedule_node_def word_gt_0 not_less)

lemma Scheduler_new_cases:
  assumes wf: "plan_wf plan"
  shows "case Scheduler_new env plan jobs of
      Ok s \<Rightarrow> 0 < jobs \<and> (\<forall>n \<in> set (ep_nodes plan). can_schedule_node (from_jobs env jobs) (pn_resources n))
    | Err e \<Rightarrow> jobs = 0 \<and> e = InvalidJobs 0 \<or>
        0 < jobs \<and> (\<exists>n \<in> set (ep_nodes plan). check_demand (from_jobs env jobs) (pn_id n, pn_resources n) = Err e)
    | Panic \<Rightarrow> False"
proof (cases "jobs = 0")
  case True
  then show ?thesis by (simp add: Scheduler_new_def)
next
  case False
  let ?res = "fold (\<lambda>n. bt_insert (pn_id n) (pn_resources n)) (ep_nodes plan) []"
  let ?check = "for_each (check_demand (from_jobs env jobs)) ?res"
  have dist: "distinct (map pn_id (ep_nodes plan))" using wf by (auto simp: plan_wf_def plan_node_ids_def)
  have mem: "(x, r) \<in> set ?res \<longleftrightarrow> (\<exists>n \<in> set (ep_nodes plan). pn_id n = x \<and> pn_resources n = r)" for x r
    by (simp add: bt_wf_lookup [OF bt_wf_nodes] look_nodes [OF dist])
  have valid: "(\<exists>s. Scheduler_new env plan jobs = Ok s) \<longleftrightarrow> ?check = Ok ()"
    "Scheduler_new env plan jobs = Err e \<longleftrightarrow> ?check = Err e"
    "Scheduler_new env plan jobs = Panic \<longleftrightarrow> ?check = Panic" for e
    using False by (auto simp: Scheduler_new_def Let_def validate_schedulability_def outcome_simps
        split: prod.splits)
  have no_panic: "?check \<noteq> Panic"
    by (auto simp: check_demand_def dest!: for_each_Panic split: if_splits)
  show ?thesis
  proof (cases "Scheduler_new env plan jobs")
    case (Ok s)
    then have "?check = Ok ()" using valid(1) by blast
    then have "\<forall>n \<in> set (ep_nodes plan). check_demand (from_jobs env jobs) (pn_id n, pn_resources n) = Ok ()"
      using mem by (auto simp: for_each_Ok)
    with Ok False show ?thesis by (simp add: check_demand_iff)
  next
    case (Err e)
    then have "?check = Err e" using valid(2) by blast
    then obtain x r where "(x, r) \<in> set ?res" "check_demand (from_jobs env jobs) (x, r) = Err e"
      by (fastforce dest!: for_each_ErrD)
    with mem Err False show ?thesis by auto
  next
    case Panic
    with valid(3) no_panic show ?thesis by blast
  qed
qed

text \<open>
  Construction over a well-formed plan succeeds exactly when the job limit is at least one and
  every node alone fits the pools, by the test \<open>ResourceLimits::can_schedule_node\<close>. Otherwise the
  error is \<open>InvalidJobs\<close>, or it names a node, its demand and the pool it exceeds.\<close>

lemma Scheduler_new_succeeds:
  assumes wf: "plan_wf plan"
  shows "((\<exists>s. Scheduler_new env plan jobs = Ok s) \<longleftrightarrow>
      0 < jobs \<and> (\<forall>n \<in> set (ep_nodes plan). can_schedule_node (from_jobs env jobs) (pn_resources n))) \<and>
    (\<forall>e. Scheduler_new env plan jobs = Err e \<longrightarrow>
      e = InvalidJobs 0 \<and> jobs = 0 \<or>
      (\<exists>n \<in> set (ep_nodes plan). \<not> can_schedule_node (from_jobs env jobs) (pn_resources n) \<and>
        e \<in> {UnschedulableCpu (pn_id n) (cpu_tokens (pn_resources n)) (rl_cpu_pool (from_jobs env jobs)),
             UnschedulableMemory (pn_id n) (format_memory_bytes (nr_memory_bytes (pn_resources n)))
               (format_memory_bytes (rl_memory_pool (from_jobs env jobs)))})) \<and>
    Scheduler_new env plan jobs \<noteq> Panic"
proof -
  have err: "\<not> can_schedule_node l r \<and> e \<in> {UnschedulableCpu x (cpu_tokens r) (rl_cpu_pool l),
      UnschedulableMemory x (format_memory_bytes (nr_memory_bytes r)) (format_memory_bytes (rl_memory_pool l))}"
    if "check_demand l (x, r) = Err e" for l x r e
    using that check_demand_iff [of l x r] by (auto simp: check_demand_def split: if_splits)
  show ?thesis
  proof (cases "Scheduler_new env plan jobs")
    case (Ok s)
    with Scheduler_new_cases [OF wf, where env = env and jobs = jobs] show ?thesis by simp
  next
    case (Err e)
    with Scheduler_new_cases [OF wf, where env = env and jobs = jobs]
    consider "jobs = 0" "e = InvalidJobs 0" | n where "0 < jobs" "n \<in> set (ep_nodes plan)"
      "check_demand (from_jobs env jobs) (pn_id n, pn_resources n) = Err e" by auto
    then show ?thesis
    proof cases
      case 1
      with Err show ?thesis by simp
    next
      case (2 n)
      from err [OF 2(3)] 2(2) Err show ?thesis by auto
    qed
  next
    case Panic
    with Scheduler_new_cases [OF wf, where env = env and jobs = jobs] show ?thesis by simp
  qed
qed

lemma Scheduler_new_succeeds_example: "Scheduler_new None demo_plan 0 \<noteq> Ok demo_start"
  using Scheduler_new_succeeds [OF demo_plan_wf, where env = None and jobs = 0] by blast

theorem one_job_serial_order_witness:
  "\<exists>plan s. Scheduler_new None plan 1 = Ok s \<and>
     snd (drive (\<lambda>_. 0) (length (ep_nodes plan)) s) = [''build@0'', ''build@1'', ''lint'']"
proof -
  have "case build_execution_plan_roots matrix_example [''lint''] KeepGoing None of
      Ok (plan, s) \<Rightarrow> ep_serial_order plan = [''build@0'', ''build@1'', ''lint''] \<and>
        list_all (\<lambda>n. nr_cpu (pn_resources n) = 0 \<and> nr_memory_bytes (pn_resources n) = 0) (ep_nodes plan)
    | _ \<Rightarrow> False"
    by code_simp
  then obtain plan sk where
    plan: "build_execution_plan_roots matrix_example [''lint''] KeepGoing None = Ok (plan, sk)"
      "ep_serial_order plan = [''build@0'', ''build@1'', ''lint'']"
      "\<forall>n \<in> set (ep_nodes plan). nr_cpu (pn_resources n) = 0 \<and> nr_memory_bytes (pn_resources n) = 0"
    by (auto simp: list_all_iff split: outcome.splits)
  have wf: "plan_wf plan" by (rule build_execution_plan_roots_wf [OF plan(1)])
  have fits: "\<forall>n \<in> set (ep_nodes plan). can_schedule_node (from_jobs None 1) (pn_resources n)"
    using plan(3) by (simp add: can_schedule_node_def cpu_tokens_def from_jobs_def)
  then obtain s where s: "Scheduler_new None plan 1 = Ok s"
  proof -
    have "check_demand (from_jobs None 1) (pn_id n, pn_resources n) = Ok ()" if "n \<in> set (ep_nodes plan)" for n
      using fits that by (simp add: check_demand_iff)
    with Scheduler_new_cases [OF wf, where env = None and jobs = 1] that show thesis
      by (cases "Scheduler_new None plan 1") auto
  qed
  have "sc_jobs s = 1" by (rule Scheduler_new_Ok(1) [OF s wf])
  from one_job_serial_order [OF plan(1) fresh_new [OF s] this] plan(2) s show ?thesis
    by (intro exI [of _ plan] exI [of _ s]) (simp add: case_prod_beta)
qed

end
