(* ===== verification/Affected_Paths.thy ===== *)
theory Affected_Paths
  imports Task_Schema
begin

text \<open>
  Path ownership for affected analysis (\<open>crates/nxr-affected/src/paths.rs\<close>): normalization, the
  files that invalidate everything, prefix overlap, glob roots and the locality test that skips
  nodes no change can touch. Glob patterns are compiled and matched by the external crate
  \<open>globset\<close>; the record \<open>Globset\<close> is what the code uses of it.
\<close>

section \<open>Paths\<close>

text \<open>
  \<open>Path::components\<close> on Unix, without the root: the parts between slashes that are neither empty
  nor a dot. \<open>file_name\<close> and \<open>extension\<close> as in the standard library.
\<close>

definition path_is_absolute :: "string \<Rightarrow> bool" where
  "path_is_absolute p \<longleftrightarrow> starts_with p ''/''"

definition path_components :: "string \<Rightarrow> string list" where
  "path_components p = filter (\<lambda>c. c \<noteq> [] \<and> c \<noteq> ''.'') (split_on (CHR ''/'') p)"

definition file_name :: "string \<Rightarrow> string option" where
  "file_name p =
     (case path_components p of
        [] \<Rightarrow> None
      | cs \<Rightarrow> if last cs = ''..'' then None else Some (last cs))"

definition path_extension :: "string \<Rightarrow> string option" where
  "path_extension p =
     (case file_name p of
        None \<Rightarrow> None
      | Some name \<Rightarrow>
          (case rsplit_once (CHR ''.'') name of
             None \<Rightarrow> None | Some (before, after) \<Rightarrow> if before = [] then None else Some after))"

definition trim_end_slashes :: "string \<Rightarrow> string" where
  "trim_end_slashes s = rev (dropWhile (\<lambda>c. c = CHR ''/'') (rev s))"

section \<open>The external glob crate\<close>

text \<open>
  \<open>Glob::new\<close> gives an error message for a pattern that does not compile, \<open>GlobSetBuilder::build\<close>
  one for a list of patterns that cannot be combined, and \<open>GlobSet::is_match\<close> tells whether one of
  the patterns matches a path.
\<close>

record Globset =
  glob_new :: "string \<Rightarrow> string option"
  globset_build :: "string list \<Rightarrow> string option"
  globset_is_match :: "string list \<Rightarrow> string \<Rightarrow> bool"

section \<open>Roots\<close>

datatype PathRootError =
    InvalidGlobRoot string string
  | InvalidRepoPath string

definition normalize_relative_path :: "string \<Rightarrow> string" where
  "normalize_relative_path path =
     (let trimmed = trim path;
          without_dot = (case strip_prefix ''./'' trimmed of Some s \<Rightarrow> s | None \<Rightarrow> trimmed)
      in replace_char (CHR 0x5C) ''/'' without_dot)"

definition is_global_invalidation_path :: "string \<Rightarrow> bool" where
  "is_global_invalidation_path path =
     (let normalized = normalize_relative_path path in
      normalized = ''flake.nix'' \<or> normalized = ''flake.lock'' \<or>
      (case path_extension normalized of
         None \<Rightarrow> False | Some ext \<Rightarrow> to_ascii_lowercase ext = ''nix''))"

definition glob_meta :: "char \<Rightarrow> bool" where
  "glob_meta c \<longleftrightarrow> c \<in> set ''*?[{''"

definition looks_like_glob :: "string \<Rightarrow> bool" where
  "looks_like_glob root \<longleftrightarrow> list_ex glob_meta root"

definition literal_path_prefix :: "string \<Rightarrow> string" where
  "literal_path_prefix root0 =
     (let root = normalize_relative_path root0 in
      if \<not> looks_like_glob root then trim_end_slashes root
      else trim_end_slashes (takeWhile (\<lambda>c. \<not> glob_meta c) root))"

definition prefix_overlap :: "string \<Rightarrow> string \<Rightarrow> bool" where
  "prefix_overlap left right \<longleftrightarrow>
     left = right \<or> starts_with left (right @ ''/'') \<or> starts_with right (left @ ''/'')"

definition roots_may_overlap_changes :: "string list \<Rightarrow> string list \<Rightarrow> bool" where
  "roots_may_overlap_changes roots changed_paths =
     (if roots = [] \<or> changed_paths = [] then False
      else list_ex (\<lambda>root. let pre = literal_path_prefix root in
             pre = [] \<or>
             list_ex (\<lambda>changed. prefix_overlap (normalize_relative_path changed) pre) changed_paths)
           roots)"

definition validate_repo_relative_root :: "string \<Rightarrow> (PathRootError, unit) outcome" where
  "validate_repo_relative_root root =
     (if root = [] then Err (InvalidRepoPath root)
      else if path_is_absolute root \<or> list_ex (\<lambda>c. c = ''..'') (path_components root)
      then Err (InvalidRepoPath root)
      else Ok ())"

definition validate_root :: "Globset \<Rightarrow> string \<Rightarrow> (PathRootError, unit) outcome" where
  "validate_root gs root0 =
     (let root = normalize_relative_path root0 in
      bind (validate_repo_relative_root root) (\<lambda>_.
        if looks_like_glob root then
          (case glob_new gs root of None \<Rightarrow> Ok () | Some message \<Rightarrow> Err (InvalidGlobRoot root message))
        else Ok ()))"

definition validate_path_roots :: "Globset \<Rightarrow> string list \<Rightarrow> (PathRootError, unit) outcome" where
  "validate_path_roots gs roots = for_each (validate_root gs) roots"

text \<open>\<open>compile_globset\<close> returns the list of patterns of the set; the empty set matches nothing.\<close>

fun collect_globs :: "Globset \<Rightarrow> string list \<Rightarrow> (PathRootError, string list) outcome" where
  "collect_globs gs [] = Ok []"
| "collect_globs gs (root0 # roots) =
     (let root = normalize_relative_path root0 in
      if looks_like_glob root then
        (case glob_new gs root of
           Some message \<Rightarrow> Err (InvalidGlobRoot root message)
         | None \<Rightarrow> bind (collect_globs gs roots) (\<lambda>globs. Ok (root # globs)))
      else collect_globs gs roots)"

definition compile_globset :: "Globset \<Rightarrow> string list \<Rightarrow> (PathRootError, string list) outcome" where
  "compile_globset gs roots =
     bind (collect_globs gs roots) (\<lambda>globs.
       if globs = [] then Ok []
       else (case globset_build gs globs of
               None \<Rightarrow> Ok globs | Some message \<Rightarrow> Err (InvalidGlobRoot ''*'' message)))"

definition path_matches_roots :: "Globset \<Rightarrow> string \<Rightarrow> string list \<Rightarrow> (PathRootError, bool) outcome" where
  "path_matches_roots gs changed0 roots =
     (if roots = [] then Ok False
      else bind (validate_path_roots gs roots) (\<lambda>_.
        let changed = normalize_relative_path changed0 in
        if list_ex (\<lambda>root. prefix_overlap changed (normalize_relative_path root)) roots then Ok True
        else bind (compile_globset gs roots) (\<lambda>globs.
          Ok (globs \<noteq> [] \<and> globset_is_match gs globs changed))))"

section \<open>When the locality test is sound\<close>

text \<open>
  Documented behaviour of \<open>globset\<close>: the characters of a pattern before the first
  \<open>*\<close>, \<open>?\<close>, \<open>[\<close> or \<open>{\<close> match themselves when the pattern holds no backslash
  (which escapes the character after it), so a path that the pattern matches
  starts with them.  The patterns the code compiles are normalized roots, which
  hold none.
\<close>

definition backslash_free :: "string \<Rightarrow> bool" where
  "backslash_free s \<longleftrightarrow> CHR 0x5C \<notin> set s"

definition literal_start :: "Globset \<Rightarrow> bool" where
  "literal_start gs \<longleftrightarrow>
     (\<forall>globs p. list_all backslash_free globs \<and> globset_is_match gs globs p \<longrightarrow>
        (\<exists>g \<in> set globs. starts_with p (takeWhile (\<lambda>c. \<not> glob_meta c) g)))"

lemma normalized_backslash_free: "backslash_free (normalize_relative_path r)"
  by (auto simp: backslash_free_def normalize_relative_path_def replace_char_def Let_def split: if_splits)

text \<open>
  The literal part of a root ends where a path component ends: a plain path without a trailing
  slash, or a pattern whose first metacharacter starts a component.
\<close>

definition at_boundary :: "string \<Rightarrow> bool" where
  "at_boundary root0 \<longleftrightarrow>
     (let root = normalize_relative_path root0; lit = takeWhile (\<lambda>c. \<not> glob_meta c) root in
      if looks_like_glob root then lit = [] \<or> ends_with lit ''/''
      else \<not> ends_with root ''/'')"

lemma trim_end_slashes_id: "\<not> ends_with s ''/'' \<Longrightarrow> trim_end_slashes s = s"
proof (cases s rule: rev_cases)
  case (snoc t c)
  assume "\<not> ends_with s ''/''"
  with snoc have "c \<noteq> CHR ''/''" by (auto simp: ends_with_def suffix_def)
  with snoc show ?thesis by (simp add: trim_end_slashes_def)
qed (simp add: trim_end_slashes_def)

lemma trim_end_slashes_prefix: "\<exists>n. s = trim_end_slashes s @ replicate n (CHR ''/'')"
proof -
  let ?P = "\<lambda>c. c = CHR ''/''"
  have "takeWhile ?P xs = replicate (length (takeWhile ?P xs)) (CHR ''/'')" for xs
    by (rule replicate_length_same [symmetric]) (auto dest: set_takeWhileD)
  then have "rev s = replicate (length (takeWhile ?P (rev s))) (CHR ''/'') @ dropWhile ?P (rev s)"
    by (metis takeWhile_dropWhile_id)
  then have "s = rev (replicate (length (takeWhile ?P (rev s))) (CHR ''/'') @ dropWhile ?P (rev s))"
    by (metis rev_rev_ident)
  then show ?thesis unfolding trim_end_slashes_def by (metis rev_append rev_replicate)
qed

lemma trim_end_slashes_not_end: "\<not> ends_with (trim_end_slashes s) ''/''"
proof
  assume "ends_with (trim_end_slashes s) ''/''"
  then obtain t where "rev (dropWhile (\<lambda>c. c = CHR ''/'') (rev s)) = t @ ''/''"
    by (auto simp: ends_with_def suffix_def trim_end_slashes_def)
  then have "dropWhile (\<lambda>c. c = CHR ''/'') (rev s) = CHR ''/'' # rev t"
    by (metis rev_rev_ident rev_append append_Cons append_Nil rev_singleton_conv)
  then show False using hd_dropWhile [of "\<lambda>c. c = CHR ''/''" "rev s"] by simp
qed

text \<open>
  A literal part that ends with a slash: whatever runs along it overlaps the trimmed prefix.
\<close>

lemma boundary_overlap:
  assumes lit: "ends_with lit ''/''" and w: "prefix lit w" and p: "prefix p w \<and> prefix lit p \<or> prefix (p @ ''/'') w"
  shows "prefix_overlap p (trim_end_slashes lit)"
proof -
  let ?pre = "trim_end_slashes lit"
  obtain n where n: "lit = ?pre @ replicate n (CHR ''/'')" using trim_end_slashes_prefix by blast
  have "n \<noteq> 0" using n lit trim_end_slashes_not_end [of lit] by (metis append_Nil2 replicate_empty)
  then obtain m where m: "lit = ?pre @ ''/'' @ replicate m (CHR ''/'')"
    using n by (metis append_Cons append_Nil not0_implies_Suc replicate_Suc)
  then have pl: "prefix (?pre @ ''/'') lit" by (metis append.assoc prefixI)
  have rep: "\<exists>k. p = ?pre @ replicate k (CHR ''/'')"
    if eq: "p @ ''/'' = ?pre @ replicate j (CHR ''/'')" and j: "0 < j" for j
  proof -
    from j obtain i where "j = Suc i" by (metis gr0_implies_Suc)
    then have "replicate j (CHR ''/'') = replicate i (CHR ''/'') @ ''/''"
      by (metis replicate_append_same replicate_Suc)
    with eq have "p = ?pre @ replicate i (CHR ''/'')" by simp
    then show ?thesis by blast
  qed
  have slashes: "prefix_overlap p ?pre" if "p = ?pre @ replicate k (CHR ''/'')" for k
  proof (cases k)
    case 0
    with that show ?thesis by (simp add: prefix_overlap_def)
  next
    case (Suc i)
    with that have "p = (?pre @ ''/'') @ replicate i (CHR ''/'')" by simp
    then show ?thesis unfolding prefix_overlap_def starts_with_def by (metis prefixI)
  qed
  show ?thesis
  proof (cases "prefix lit p")
    case True
    with pl have "prefix (?pre @ ''/'') p" using prefix_order.trans by blast
    then show ?thesis by (simp add: prefix_overlap_def starts_with_def)
  next
    case False
    with p have pw: "prefix (p @ ''/'') w" by blast
    have "prefix (p @ ''/'') lit \<or> prefix lit (p @ ''/'')" using prefix_same_cases [OF pw w] .
    then have "prefix (p @ ''/'') lit"
    proof
      assume "prefix lit (p @ ''/'')"
      with False show "prefix (p @ ''/'') lit" by (auto simp: prefix_append prefix_Cons)
    qed
    then have "prefix (p @ ''/'') ?pre \<or> (\<exists>zs. p @ ''/'' = ?pre @ zs \<and> prefix zs (replicate n (CHR ''/'')))"
      by (subst (asm) n) (simp add: prefix_append)
    then show ?thesis
    proof (elim disjE exE conjE)
      assume "prefix (p @ ''/'') ?pre"
      then show ?thesis by (simp add: prefix_overlap_def starts_with_def)
    next
      fix zs
      assume zs: "p @ ''/'' = ?pre @ zs" "prefix zs (replicate n (CHR ''/''))"
      then have rz: "zs = replicate (length zs) (CHR ''/'')"
        by (metis in_set_replicate prefix_def replicate_length_same set_append UnCI)
      have "zs \<noteq> []"
      proof
        assume "zs = []"
        with zs(1) have "?pre = p @ ''/''" by simp
        then have "ends_with ?pre ''/''" by (metis ends_with_def suffixI)
        with trim_end_slashes_not_end show False by blast
      qed
      with rep [of "length zs"] zs(1) rz slashes show ?thesis by (metis length_greater_0_conv)
    qed
  qed
qed

lemma collect_globs_Ok:
  "collect_globs gs roots = Ok globs \<Longrightarrow> g \<in> set globs \<Longrightarrow>
     \<exists>r \<in> set roots. g = normalize_relative_path r \<and> looks_like_glob g"
  by (induction roots arbitrary: globs)
    (auto simp: Let_def outcome_simps split: if_splits option.splits)

lemma takeWhile_literal_prefix: "prefix (takeWhile P xs) xs"
  by (metis prefixI takeWhile_dropWhile_id)

lemma root_may_overlap:
  assumes b: "at_boundary r"
    and hit: "prefix_overlap c (normalize_relative_path r) \<or>
      looks_like_glob (normalize_relative_path r) \<and>
      starts_with c (takeWhile (\<lambda>c. \<not> glob_meta c) (normalize_relative_path r))"
  shows "literal_path_prefix r = [] \<or> prefix_overlap c (literal_path_prefix r)"
proof (cases "looks_like_glob (normalize_relative_path r)")
  case False
  with b have "literal_path_prefix r = normalize_relative_path r"
    by (simp add: at_boundary_def literal_path_prefix_def Let_def trim_end_slashes_id)
  with hit False show ?thesis by simp
next
  case True
  let ?root = "normalize_relative_path r"
  let ?lit = "takeWhile (\<lambda>c. \<not> glob_meta c) ?root"
  have pre: "literal_path_prefix r = trim_end_slashes ?lit"
    using True by (simp add: literal_path_prefix_def Let_def)
  from b True have "?lit = [] \<or> ends_with ?lit ''/''" by (simp add: at_boundary_def Let_def)
  then show ?thesis
  proof
    assume "?lit = []"
    then show ?thesis by (simp add: pre trim_end_slashes_def)
  next
    assume e: "ends_with ?lit ''/''"
    have lr: "prefix ?lit ?root" by (rule takeWhile_literal_prefix)
    from hit consider "prefix ?lit c" | "prefix (c @ ''/'') ?root"
    proof -
      have "prefix ?lit c \<or> prefix (c @ ''/'') ?root"
        using hit lr unfolding prefix_overlap_def starts_with_def
        by (metis append_prefixD prefix_order.trans)
      with that show thesis by blast
    qed
    then show ?thesis
    proof cases
      case 1
      then have "prefix_overlap c (trim_end_slashes ?lit)" using boundary_overlap [OF e, of c c] by simp
      then show ?thesis by (simp add: pre)
    next
      case 2
      then have "prefix_overlap c (trim_end_slashes ?lit)" using boundary_overlap [OF e lr, of c] by simp
      then show ?thesis by (simp add: pre)
    qed
  qed
qed

lemma locality_sound:
  assumes ls: "literal_start gs" and b: "\<forall>r \<in> set roots. at_boundary r"
    and c: "c \<in> set changed" and m: "path_matches_roots gs c roots = Ok True"
  shows "roots_may_overlap_changes roots changed"
proof -
  have ne: "roots \<noteq> []" "changed \<noteq> []" using c m by (auto simp: path_matches_roots_def)
  let ?c = "normalize_relative_path c"
  have "\<exists>r \<in> set roots. prefix_overlap ?c (normalize_relative_path r) \<or>
      looks_like_glob (normalize_relative_path r) \<and>
      starts_with ?c (takeWhile (\<lambda>c. \<not> glob_meta c) (normalize_relative_path r))"
  proof (cases "list_ex (\<lambda>root. prefix_overlap ?c (normalize_relative_path root)) roots")
    case True
    then show ?thesis by (auto simp: list_ex_iff)
  next
    case False
    with m ne obtain globs where globs: "compile_globset gs roots = Ok globs" "globset_is_match gs globs ?c"
      by (auto simp: path_matches_roots_def outcome_simps Let_def)
    have collected: "collect_globs gs roots = Ok globs" if "globs \<noteq> []"
      using globs(1) that by (auto simp: compile_globset_def outcome_simps split: if_splits option.splits)
    have "list_all backslash_free globs"
      using collect_globs_Ok [OF collected] normalized_backslash_free by (cases "globs = []") (fastforce simp: list_all_iff)+
    with ls globs(2) obtain g where g: "g \<in> set globs" "starts_with ?c (takeWhile (\<lambda>c. \<not> glob_meta c) g)"
      unfolding literal_start_def by blast
    then have "globs \<noteq> []" by auto
    from collect_globs_Ok [OF collected [OF this] g(1)] g(2) show ?thesis by blast
  qed
  then obtain r where r: "r \<in> set roots" "literal_path_prefix r = [] \<or> prefix_overlap ?c (literal_path_prefix r)"
    using b root_may_overlap by blast
  with c ne show ?thesis by (auto simp: roots_may_overlap_changes_def list_ex_iff Let_def)
qed

end
