(* ===== verification/Affected.thy ===== *)
theory Affected
  imports Affected_Paths
begin

text \<open>
  Affected analysis (\<open>crates/nxr-affected/src/graph.rs\<close>, \<open>analyze.rs\<close>): which apps and tasks a set
  of changed paths can touch. Statuses and reasons are kept in ordered maps as in the code; the
  propagation along dependents is the code's queue with its set of keys already enqueued.
\<close>

section \<open>The graph\<close>

datatype NodeKind = KApp | KTask

record GraphNode =
  gn_kind :: NodeKind
  gn_name :: string
  gn_path_roots :: "string list"
  gn_depends_on :: "string list"
  gn_app :: "string option"

record AffectedGraph =
  ag_nodes :: "(string, GraphNode) btmap"
  ag_dependents :: "(string, string list) btmap"

fun node_key :: "NodeKind \<Rightarrow> string \<Rightarrow> string" where
  "node_key KApp name = ''app:'' @ name"
| "node_key KTask name = ''task:'' @ name"

declare node_key.simps [simp del]

definition paths_from_metadata :: "(string, JsonValue) btmap \<Rightarrow> string list" where
  "paths_from_metadata metadata =
     (case Option.bind (map_of metadata ''paths'') json_as_array of
        None \<Rightarrow> []
      | Some vs \<Rightarrow> map normalize_relative_path (List.map_filter json_as_str vs))"

fun dedupe_loop :: "string list \<Rightarrow> string list \<Rightarrow> string list \<Rightarrow> string list" where
  "dedupe_loop [] seen deduped = deduped"
| "dedupe_loop (path # paths) seen deduped =
     (let normalized = normalize_relative_path path in
      if normalized \<in> set seen then dedupe_loop paths seen deduped
      else dedupe_loop paths (insort_insert normalized seen) (deduped @ [normalized]))"

definition dedupe_paths :: "string list \<Rightarrow> string list" where
  "dedupe_paths paths = dedupe_loop paths [] []"

definition working_directory_root :: "string option \<Rightarrow> string option" where
  "working_directory_root wd =
     (case wd of
        None \<Rightarrow> None
      | Some v \<Rightarrow>
          if v = WORKING_DIRECTORY_INVOCATION \<or> v = WORKING_DIRECTORY_FLAKE_ROOT then None
          else Some (normalize_relative_path v))"

definition task_path_roots :: "TaskDefinition \<Rightarrow> string list option \<Rightarrow> string list" where
  "task_path_roots task app_roots =
     (let roots = td_paths task;
          roots = (case working_directory_root (td_working_directory task) of
                     None \<Rightarrow> roots | Some wd \<Rightarrow> roots @ [wd]);
          roots = (case app_roots of None \<Rightarrow> roots | Some rs \<Rightarrow> roots @ rs)
      in dedupe_paths roots)"

definition link_dependents ::
  "string \<times> GraphNode \<Rightarrow> (string, string list) btmap \<Rightarrow> (string, string list) btmap" where
  "link_dependents = (\<lambda>(key, node) dependents.
     let dependents = fold (\<lambda>dep. bt_set_insert (node_key KTask dep) key) (gn_depends_on node) dependents
     in case gn_app node of
          None \<Rightarrow> dependents
        | Some app \<Rightarrow> bt_set_insert (node_key KApp app) key dependents)"

definition reverse_dependencies :: "(string, GraphNode) btmap \<Rightarrow> (string, string list) btmap" where
  "reverse_dependencies nodes = fold link_dependents nodes []"

definition add_app ::
  "App \<Rightarrow> (string, GraphNode) btmap \<times> (string, string list) btmap \<Rightarrow>
     (string, GraphNode) btmap \<times> (string, string list) btmap" where
  "add_app app = (\<lambda>(nodes, app_paths).
     let roots = paths_from_metadata (app_metadata app) in
     (bt_insert (node_key KApp (app_name app))
        \<lparr>gn_kind = KApp, gn_name = app_name app, gn_path_roots = roots, gn_depends_on = [], gn_app = None\<rparr>
        nodes,
      bt_insert (app_name app) roots app_paths))"

definition add_task ::
  "(string, string list) btmap \<Rightarrow> string \<times> TaskDefinition \<Rightarrow> (string, GraphNode) btmap \<Rightarrow>
     (string, GraphNode) btmap" where
  "add_task app_paths = (\<lambda>(name, task) nodes.
     bt_insert (node_key KTask name)
       \<lparr>gn_kind = KTask, gn_name = name,
        gn_path_roots = task_path_roots task (map_of app_paths (td_app task)),
        gn_depends_on = td_depends_on task, gn_app = Some (td_app task)\<rparr> nodes)"

definition build_graph :: "App list \<Rightarrow> TaskDocument \<Rightarrow> AffectedGraph" where
  "build_graph apps doc =
     (case fold add_app apps ([], []) of
        (nodes0, app_paths) \<Rightarrow>
          let nodes = fold (add_task app_paths) (doc_tasks doc) nodes0
          in \<lparr>ag_nodes = nodes, ag_dependents = reverse_dependencies nodes\<rparr>)"

section \<open>The analysis\<close>

datatype NodeStatus = StAffected | StUnaffected | StUnknown

datatype AffectedReason =
    ReasonPath string
  | ReasonGlobalInput string
  | ReasonDependency string
  | ReasonApp string
  | ReasonInvalidGlob string
  | ReasonEmptyRoots
  | ReasonUnknownDependency string

record AffectedNode =
  an_kind :: string
  an_name :: string
  an_status :: NodeStatus
  an_reasons :: "AffectedReason list"

record AffectedAnalysis =
  aa_schema_version :: u32
  aa_flake :: string
  aa_system :: string
  aa_strict :: bool
  aa_changed_paths :: "string list"
  aa_apps :: "string list"
  aa_tasks :: "string list"
  aa_nodes :: "AffectedNode list"

type_synonym statuses = "(string, NodeStatus) btmap"
type_synonym reasons = "(string, AffectedReason list) btmap"

definition push_reason :: "string \<Rightarrow> AffectedReason \<Rightarrow> reasons \<Rightarrow> reasons" where
  "push_reason key reason m =
     (let entry = (case map_of m key of None \<Rightarrow> [] | Some rs \<Rightarrow> rs)
      in bt_insert key (if reason \<in> set entry then entry else entry @ [reason]) m)"

definition mark_global_affected ::
  "AffectedGraph \<Rightarrow> string list \<Rightarrow> statuses \<times> reasons \<Rightarrow> statuses \<times> reasons" where
  "mark_global_affected graph changed = fold (\<lambda>key (status, reasons).
     (bt_insert key StAffected status,
      fold (\<lambda>path. push_reason key (ReasonGlobalInput path))
        (filter is_global_invalidation_path changed) reasons)) (bt_keys (ag_nodes graph))"

fun root_error_pattern :: "PathRootError \<Rightarrow> string" where
  "root_error_pattern (InvalidGlobRoot pattern _) = pattern"
| "root_error_pattern (InvalidRepoPath path) = path"

datatype PathMatchOutcome = Matched | Missed | Invalid

fun match_loop ::
  "Globset \<Rightarrow> string \<Rightarrow> string list \<Rightarrow> string list \<Rightarrow> bool \<Rightarrow> reasons \<Rightarrow> PathMatchOutcome \<times> reasons" where
  "match_loop gs key roots [] matched reasons = (if matched then Matched else Missed, reasons)"
| "match_loop gs key roots (path # paths) matched reasons =
     (case path_matches_roots gs path roots of
        Ok True \<Rightarrow> match_loop gs key roots paths True (push_reason key (ReasonPath path) reasons)
      | Ok False \<Rightarrow> match_loop gs key roots paths matched reasons
      | Err e \<Rightarrow> (Invalid, push_reason key (ReasonInvalidGlob (root_error_pattern e)) reasons)
      | Panic \<Rightarrow> (Invalid, reasons))"

definition match_changed_paths ::
  "Globset \<Rightarrow> string \<Rightarrow> string list \<Rightarrow> string list \<Rightarrow> reasons \<Rightarrow> PathMatchOutcome \<times> reasons" where
  "match_changed_paths gs key roots changed reasons = match_loop gs key roots changed False reasons"

definition classify_node ::
  "Globset \<Rightarrow> string list \<Rightarrow> string \<times> GraphNode \<Rightarrow> statuses \<times> reasons \<Rightarrow> statuses \<times> reasons" where
  "classify_node gs changed = (\<lambda>(key, node) (status, reasons).
     case validate_path_roots gs (gn_path_roots node) of
       Err e \<Rightarrow>
         (bt_insert key StUnknown status,
          push_reason key (ReasonInvalidGlob (root_error_pattern e)) reasons)
     | _ \<Rightarrow>
         if gn_path_roots node = [] then (status, reasons)
         else if \<not> roots_may_overlap_changes (gn_path_roots node) changed then
           (bt_insert key StUnaffected status, reasons)
         else
           (case match_changed_paths gs key (gn_path_roots node) changed reasons of
              (Matched, reasons') \<Rightarrow> (bt_insert key StAffected status, reasons')
            | (Missed, reasons') \<Rightarrow> (bt_insert key StUnaffected status, reasons')
            | (Invalid, reasons') \<Rightarrow> (bt_insert key StUnknown status, reasons')))"

definition classify_path_hits ::
  "Globset \<Rightarrow> AffectedGraph \<Rightarrow> string list \<Rightarrow> statuses \<times> reasons \<Rightarrow> statuses \<times> reasons" where
  "classify_path_hits gs graph changed = fold (classify_node gs changed) (ag_nodes graph)"

definition finalize_empty_roots ::
  "AffectedGraph \<Rightarrow> statuses \<times> reasons \<Rightarrow> statuses \<times> reasons" where
  "finalize_empty_roots graph = fold (\<lambda>(key, node) (status, reasons).
     if bt_contains status key then (status, reasons)
     else if gn_path_roots node = [] then
       (bt_insert key StUnknown status, push_reason key ReasonEmptyRoots reasons)
     else (bt_insert key StUnaffected status, reasons)) (ag_nodes graph)"

definition dependency_reason :: "AffectedGraph \<Rightarrow> string \<Rightarrow> string \<Rightarrow> AffectedReason" where
  "dependency_reason graph source_key source_name =
     (case map_option gn_kind (map_of (ag_nodes graph) source_key) of
        Some KApp \<Rightarrow> ReasonApp source_name
      | _ \<Rightarrow> ReasonDependency source_name)"

text \<open>
  The state of the propagation: statuses, reasons, the queue (front first) and the keys that were
  ever enqueued. \<open>visit_child\<close> is the body of the inner loop for one source.
\<close>

record propagation =
  pq_status :: statuses
  pq_reasons :: reasons
  pq_queue :: "string list"
  pq_enqueued :: "string list"

definition enqueue :: "string \<Rightarrow> propagation \<Rightarrow> propagation" where
  "enqueue key p =
     (if key \<in> set (pq_enqueued p) then p
      else p\<lparr>pq_enqueued := insort_insert key (pq_enqueued p), pq_queue := pq_queue p @ [key]\<rparr>)"

definition visit_child ::
  "AffectedGraph \<Rightarrow> string \<Rightarrow> GraphNode \<Rightarrow> NodeStatus \<Rightarrow> string \<Rightarrow> propagation \<Rightarrow> propagation" where
  "visit_child graph source_key source source_status child p =
     (let child_status = map_of (pq_status p) child in
      case source_status of
        StAffected \<Rightarrow>
          (let p1 = p\<lparr>pq_reasons := push_reason child
                        (dependency_reason graph source_key (gn_name source)) (pq_reasons p)\<rparr>
           in if child_status = Some StAffected then p1
              else enqueue child (p1\<lparr>pq_status := bt_insert child StAffected (pq_status p1)\<rparr>))
      | StUnknown \<Rightarrow>
          if gn_kind source \<noteq> KTask then p
          else if child_status = Some StAffected then p
          else
            (let p1 = p\<lparr>pq_reasons := push_reason child
                          (ReasonUnknownDependency (gn_name source)) (pq_reasons p)\<rparr>
             in if child_status = Some StUnknown then p1
                else enqueue child (p1\<lparr>pq_status := bt_insert child StUnknown (pq_status p1)\<rparr>))
      | StUnaffected \<Rightarrow> p)"

definition visit_source :: "AffectedGraph \<Rightarrow> string \<Rightarrow> propagation \<Rightarrow> propagation" where
  "visit_source graph key p =
     (case map_of (ag_nodes graph) key of
        None \<Rightarrow> p
      | Some source \<Rightarrow>
          let source_status = (case map_of (pq_status p) key of None \<Rightarrow> StUnknown | Some st \<Rightarrow> st)
          in case map_of (ag_dependents graph) key of
               None \<Rightarrow> p
             | Some children \<Rightarrow> fold (visit_child graph key source source_status) children p)"

text \<open>Every key is enqueued at most once, so the loop ends.\<close>

definition all_children :: "AffectedGraph \<Rightarrow> string set" where
  "all_children graph = (\<Union>(_, cs) \<in> set (ag_dependents graph). set cs)"

lemma finite_all_children [simp]: "finite (all_children graph)"
  by (auto simp: all_children_def)

lemma children_subset: "map_of (ag_dependents graph) key = Some cs \<Longrightarrow> set cs \<subseteq> all_children graph"
  by (auto simp: all_children_def dest: map_of_SomeD)

definition loop_measure :: "AffectedGraph \<Rightarrow> propagation \<Rightarrow> nat" where
  "loop_measure graph p = card (all_children graph - set (pq_enqueued p)) + length (pq_queue p)"

lemma loop_measure_enqueue:
  "key \<in> all_children graph \<Longrightarrow> loop_measure graph (enqueue key p) \<le> loop_measure graph p"
proof -
  assume k: "key \<in> all_children graph"
  have "Suc (card (all_children graph - insert key E)) = card (all_children graph - E)" if "key \<notin> E" for E
  proof -
    have "all_children graph - insert key E = (all_children graph - E) - {key}" by blast
    moreover have "card (all_children graph - E) > 0" using k that by (auto simp: card_gt_0_iff)
    ultimately show ?thesis using k that by (simp add: card_Diff_singleton)
  qed
  then show ?thesis by (auto simp: loop_measure_def enqueue_def set_insort_insert)
qed

lemma loop_measure_visit_child:
  "child \<in> all_children graph \<Longrightarrow>
     loop_measure graph (visit_child graph key source st child p) \<le> loop_measure graph p"
proof -
  assume c: "child \<in> all_children graph"
  have same: "loop_measure graph (p\<lparr>pq_reasons := r\<rparr>) = loop_measure graph p"
    "loop_measure graph (p\<lparr>pq_reasons := r, pq_status := t\<rparr>) = loop_measure graph p" for r t
    by (simp_all add: loop_measure_def)
  show ?thesis
    using loop_measure_enqueue [OF c] same
    by (auto simp: visit_child_def Let_def split: NodeStatus.splits) (metis same(2))+
qed

lemma loop_measure_visit_source: "loop_measure graph (visit_source graph key p) \<le> loop_measure graph p"
proof -
  have "set cs \<subseteq> all_children graph \<Longrightarrow>
      loop_measure graph (fold (visit_child graph key source st) cs q) \<le> loop_measure graph q" for source st cs q
  proof (induction cs arbitrary: q)
    case (Cons c cs)
    have "loop_measure graph (visit_child graph key source st c q) \<le> loop_measure graph q"
      using Cons.prems by (intro loop_measure_visit_child) simp
    with Cons.IH [of "visit_child graph key source st c q"] Cons.prems show ?case by simp
  qed simp
  then show ?thesis
    by (auto simp: visit_source_def Let_def split: option.splits dest: children_subset)
qed

function propagate_loop :: "AffectedGraph \<Rightarrow> propagation \<Rightarrow> propagation" where
  "propagate_loop graph p =
     (case pq_queue p of
        [] \<Rightarrow> p
      | key # queue \<Rightarrow> propagate_loop graph (visit_source graph key (p\<lparr>pq_queue := queue\<rparr>)))"
  by pat_completeness auto
termination
proof (relation "measure (\<lambda>(graph, p). loop_measure graph p)", goal_cases)
  case (2 graph p key queue)
  have "loop_measure graph (visit_source graph key (p\<lparr>pq_queue := queue\<rparr>)) \<le>
      loop_measure graph (p\<lparr>pq_queue := queue\<rparr>)" by (rule loop_measure_visit_source)
  also have "\<dots> < loop_measure graph p" using 2 by (simp add: loop_measure_def)
  finally show ?case by simp
qed simp

declare propagate_loop.simps [simp del]

definition propagate_dependencies :: "AffectedGraph \<Rightarrow> statuses \<times> reasons \<Rightarrow> statuses \<times> reasons" where
  "propagate_dependencies graph = (\<lambda>(status, reasons).
     let queue = map fst (filter (\<lambda>(_, v). v = StAffected \<or> v = StUnknown) status);
         p = propagate_loop graph \<lparr>pq_status = status, pq_reasons = reasons, pq_queue = queue,
               pq_enqueued = bs_of_list queue\<rparr>
     in (pq_status p, pq_reasons p))"

fun include_in_lists :: "NodeStatus \<Rightarrow> bool \<Rightarrow> bool" where
  "include_in_lists StAffected strict = True"
| "include_in_lists StUnknown strict = strict"
| "include_in_lists StUnaffected strict = False"

fun kind_label :: "NodeKind \<Rightarrow> string" where
  "kind_label KApp = ''app''"
| "kind_label KTask = ''task''"

text \<open>
  \<open>collect_results\<close>. The loop takes each node's reasons out of the map; keys are unique, so it
  reads them. The nodes are sorted by name and then by kind label.
\<close>

definition status_of :: "statuses \<Rightarrow> string \<Rightarrow> NodeStatus" where
  "status_of status key = (case map_of status key of None \<Rightarrow> StUnknown | Some st \<Rightarrow> st)"

definition collect_results ::
  "AffectedGraph \<Rightarrow> statuses \<Rightarrow> reasons \<Rightarrow> bool \<Rightarrow> string list \<times> string list \<times> AffectedNode list" where
  "collect_results graph status reasons strict =
     (let listed = filter (\<lambda>(key, _). include_in_lists (status_of status key) strict) (ag_nodes graph);
          apps = map (\<lambda>(_, n). gn_name n) (filter (\<lambda>(_, n). gn_kind n = KApp) listed);
          tasks = map (\<lambda>(_, n). gn_name n) (filter (\<lambda>(_, n). gn_kind n = KTask) listed);
          nodes = map (\<lambda>(key, n). \<lparr>an_kind = kind_label (gn_kind n), an_name = gn_name n,
                    an_status = status_of status key,
                    an_reasons = (case map_of reasons key of None \<Rightarrow> [] | Some rs \<Rightarrow> rs)\<rparr>) (ag_nodes graph)
      in (sort apps, sort tasks, sort_key an_name (sort_key an_kind nodes)))"

definition analyze_status ::
  "Globset \<Rightarrow> AffectedGraph \<Rightarrow> string list \<Rightarrow> statuses \<times> reasons" where
  "analyze_status gs graph changed =
     (if changed = [] then
        (fold (\<lambda>key. bt_insert key StUnaffected) (bt_keys (ag_nodes graph)) [], [])
      else
        let global_change = list_ex is_global_invalidation_path changed;
            r1 = (if global_change then mark_global_affected graph changed ([], [])
                  else classify_path_hits gs graph changed ([], []));
            r2 = propagate_dependencies graph r1
        in if global_change then r2
           else propagate_dependencies graph (finalize_empty_roots graph r2))"

definition analyze ::
  "Globset \<Rightarrow> AffectedGraph \<Rightarrow> string list \<Rightarrow> string \<Rightarrow> string \<Rightarrow> bool \<Rightarrow> AffectedAnalysis" where
  "analyze gs graph changed flake system strict =
     (case analyze_status gs graph changed of
        (status, reasons) \<Rightarrow>
          (case collect_results graph status reasons strict of
             (apps, tasks, nodes) \<Rightarrow>
               \<lparr>aa_schema_version = 2, aa_flake = flake, aa_system = system, aa_strict = strict,
                aa_changed_paths = changed, aa_apps = apps, aa_tasks = tasks, aa_nodes = nodes\<rparr>))"

section \<open>Propagation closes the statuses\<close>

text \<open>Every listed dependent is a task, as \<open>build_graph\<close> ensures.\<close>

definition children_are_tasks :: "AffectedGraph \<Rightarrow> bool" where
  "children_are_tasks graph \<longleftrightarrow>
     (\<forall>key cs c. map_of (ag_dependents graph) key = Some cs \<and> c \<in> set cs \<longrightarrow>
        (\<exists>n. map_of (ag_nodes graph) c = Some n \<and> gn_kind n = KTask))"

definition hot :: "statuses \<Rightarrow> string \<Rightarrow> bool" where
  "hot status key \<longleftrightarrow> map_of status key = Some StAffected \<or> map_of status key = Some StUnknown"

definition status_le :: "statuses \<Rightarrow> statuses \<Rightarrow> bool" where
  "status_le s t \<longleftrightarrow> (\<forall>x. (map_of s x = Some StAffected \<longrightarrow> map_of t x = Some StAffected) \<and>
     (hot s x \<longrightarrow> hot t x))"

text \<open>Nodes whose status reaches their dependents: all affected nodes and unknown tasks.\<close>

definition spreads :: "AffectedGraph \<Rightarrow> statuses \<Rightarrow> string \<Rightarrow> bool" where
  "spreads graph status key \<longleftrightarrow>
     (\<exists>n. map_of (ag_nodes graph) key = Some n \<and>
        (map_of status key = Some StAffected \<or> map_of status key = Some StUnknown \<and> gn_kind n = KTask))"

definition covered :: "AffectedGraph \<Rightarrow> statuses \<Rightarrow> string \<Rightarrow> bool" where
  "covered graph status key \<longleftrightarrow>
     (spreads graph status key \<longrightarrow>
        (\<forall>cs c. map_of (ag_dependents graph) key = Some cs \<and> c \<in> set cs \<longrightarrow> hot status c))"

lemma status_le_refl [simp]: "status_le s s"
  by (simp add: status_le_def)

lemma status_le_trans: "status_le s t \<Longrightarrow> status_le t u \<Longrightarrow> status_le s u"
  by (simp add: status_le_def)

text \<open>What one visit of a child does: nothing but reasons, or one status goes up.\<close>

lemma visit_child_cases:
  obtains (same) "pq_status (visit_child graph key source st c p) = pq_status p"
      "pq_queue (visit_child graph key source st c p) = pq_queue p"
      "pq_enqueued (visit_child graph key source st c p) = pq_enqueued p"
      "st = StAffected \<or> st = StUnknown \<and> gn_kind source = KTask \<Longrightarrow> hot (pq_status p) c"
  | (raise) v where "v = StAffected \<or> v = StUnknown" "map_of (pq_status p) c \<noteq> Some StAffected"
      "v = StUnknown \<Longrightarrow> \<not> hot (pq_status p) c"
      "pq_status (visit_child graph key source st c p) = bt_insert c v (pq_status p)"
      "pq_enqueued (visit_child graph key source st c p) =
         (if c \<in> set (pq_enqueued p) then pq_enqueued p else insort_insert c (pq_enqueued p))"
      "pq_queue (visit_child graph key source st c p) =
         (if c \<in> set (pq_enqueued p) then pq_queue p else pq_queue p @ [c])"
proof (cases st)
  case StAffected
  show thesis
  proof (cases "map_of (pq_status p) c = Some StAffected")
    case True
    with StAffected same show thesis by (simp add: visit_child_def Let_def hot_def)
  next
    case False
    with StAffected raise [of StAffected] show thesis by (simp add: visit_child_def Let_def enqueue_def)
  qed
next
  case StUnaffected
  with same show thesis by (simp add: visit_child_def Let_def)
next
  case StUnknown
  show thesis
  proof (cases "gn_kind source = KTask \<and> \<not> hot (pq_status p) c")
    case True
    then have "map_of (pq_status p) c \<noteq> Some StAffected" "map_of (pq_status p) c \<noteq> Some StUnknown"
      by (auto simp: hot_def)
    with True StUnknown raise [of StUnknown] show thesis by (simp add: visit_child_def Let_def enqueue_def)
  next
    case False
    with StUnknown same show thesis by (auto simp: visit_child_def Let_def hot_def)
  qed
qed

lemma hot_insert: "v = StAffected \<or> v = StUnknown \<Longrightarrow> hot (bt_insert c v status) x \<longleftrightarrow> x = c \<or> hot status x"
  by (auto simp: hot_def)

lemma visit_child_le: "status_le (pq_status p) (pq_status (visit_child graph key source st c p))"
proof (cases rule: visit_child_cases [of graph key source st c p])
  case (raise v)
  then show ?thesis by (auto simp: status_le_def hot_insert)
qed simp

lemma covered_raise:
  assumes task: "map_of (ag_nodes graph) c = Some n" "gn_kind n = KTask"
    and cov: "covered graph status x" and v: "v = StAffected \<or> v = StUnknown" and x: "hot status x"
  shows "covered graph (bt_insert c v status) x"
proof -
  have "spreads graph status x" if "spreads graph (bt_insert c v status) x"
    using that x task by (cases "x = c") (auto simp: spreads_def hot_def)
  with cov show ?thesis by (auto simp: covered_def hot_insert [OF v])
qed

text \<open>The inner loop, while the source \<open>key\<close> itself is not yet covered.\<close>

definition prop_inv_at :: "AffectedGraph \<Rightarrow> string \<Rightarrow> propagation \<Rightarrow> bool" where
  "prop_inv_at graph key p \<longleftrightarrow> set (pq_queue p) \<subseteq> set (pq_enqueued p) \<and>
     (\<forall>x. hot (pq_status p) x \<longleftrightarrow> x \<in> set (pq_enqueued p)) \<and>
     (\<forall>x. x \<in> set (pq_enqueued p) \<longrightarrow> x = key \<or> x \<in> set (pq_queue p) \<or> covered graph (pq_status p) x)"

lemma prop_inv_at_child:
  assumes tasks: "children_are_tasks graph" and cs: "map_of (ag_dependents graph) key' = Some cs" "c \<in> set cs"
    and inv: "prop_inv_at graph key p"
  shows "prop_inv_at graph key (visit_child graph key source st c p)"
proof (cases rule: visit_child_cases [of graph key source st c p])
  case same
  with inv show ?thesis by (simp add: prop_inv_at_def)
next
  case (raise v)
  from tasks cs obtain n where n: "map_of (ag_nodes graph) c = Some n" "gn_kind n = KTask"
    unfolding children_are_tasks_def by blast
  have q: "set (pq_queue p) \<subseteq> set (pq_enqueued p)"
    and h: "\<And>x. hot (pq_status p) x \<longleftrightarrow> x \<in> set (pq_enqueued p)"
    and cov: "\<And>x. x \<in> set (pq_enqueued p) \<Longrightarrow> x = key \<or> x \<in> set (pq_queue p) \<or> covered graph (pq_status p) x"
    using inv by (auto simp: prop_inv_at_def)
  have "covered graph (bt_insert c v (pq_status p)) x" if "x \<in> set (pq_enqueued p)" "covered graph (pq_status p) x" for x
    using covered_raise [OF n that(2) raise(1)] that(1) h by blast
  with q h cov show ?thesis
    unfolding prop_inv_at_def raise(4-6) by (auto simp: hot_insert [OF raise(1)] set_insort_insert)
qed

lemma visit_children:
  assumes tasks: "children_are_tasks graph" and dep: "map_of (ag_dependents graph) key' = Some cs0"
    and "set cs \<subseteq> set cs0" and "prop_inv_at graph key p"
  shows "prop_inv_at graph key (fold (visit_child graph key source st) cs p) \<and>
    status_le (pq_status p) (pq_status (fold (visit_child graph key source st) cs p)) \<and>
    ((st = StAffected \<or> st = StUnknown \<and> gn_kind source = KTask) \<longrightarrow>
       (\<forall>c \<in> set cs. hot (pq_status (fold (visit_child graph key source st) cs p)) c))"
  using assms(3,4)
proof (induction cs arbitrary: p)
  case (Cons c cs)
  let ?q = "visit_child graph key source st c p"
  have inv: "prop_inv_at graph key ?q"
    using Cons.prems by (intro prop_inv_at_child [OF tasks dep]) auto
  have le: "status_le (pq_status p) (pq_status ?q)" by (rule visit_child_le)
  have hotc: "hot (pq_status ?q) c" if "st = StAffected \<or> st = StUnknown \<and> gn_kind source = KTask"
  proof (cases rule: visit_child_cases [of graph key source st c p])
    case same
    with that show ?thesis by simp
  next
    case (raise v)
    then show ?thesis by (simp add: hot_insert)
  qed
  from Cons.IH [OF _ inv] Cons.prems(1)
  have IH: "prop_inv_at graph key (fold (visit_child graph key source st) cs ?q)"
    "status_le (pq_status ?q) (pq_status (fold (visit_child graph key source st) cs ?q))"
    "(st = StAffected \<or> st = StUnknown \<and> gn_kind source = KTask) \<longrightarrow>
       (\<forall>c \<in> set cs. hot (pq_status (fold (visit_child graph key source st) cs ?q)) c)"
    by auto
  have "hot (pq_status (fold (visit_child graph key source st) cs ?q)) c"
    if "st = StAffected \<or> st = StUnknown \<and> gn_kind source = KTask"
    using hotc [OF that] IH(2) by (simp add: status_le_def)
  with IH status_le_trans [OF le IH(2)] show ?case by simp
qed simp

lemma visit_source_inv:
  assumes tasks: "children_are_tasks graph" and inv: "prop_inv_at graph key p" and key: "key \<in> set (pq_enqueued p)"
  shows "(\<forall>k. prop_inv_at graph k (visit_source graph key p)) \<and>
    status_le (pq_status p) (pq_status (visit_source graph key p))"
proof -
  have close: "\<forall>k. prop_inv_at graph k q" if "prop_inv_at graph key q" "covered graph (pq_status q) key" for q
    using that by (auto simp: prop_inv_at_def)
  show ?thesis
  proof (cases "map_of (ag_nodes graph) key")
    case None
    then have "covered graph (pq_status p) key" by (simp add: covered_def spreads_def)
    with None inv close show ?thesis by (simp add: visit_source_def)
  next
    case (Some source)
    show ?thesis
    proof (cases "map_of (ag_dependents graph) key")
      case None
      then have "covered graph (pq_status p) key" by (simp add: covered_def)
      with Some None inv close show ?thesis by (simp add: visit_source_def Let_def)
    next
      case (Some children)
      define st where "st = (case map_of (pq_status p) key of None \<Rightarrow> StUnknown | Some st \<Rightarrow> st)"
      let ?q = "fold (visit_child graph key source st) children p"
      have q: "visit_source graph key p = ?q"
        using Some \<open>map_of (ag_nodes graph) key = Some source\<close> by (simp add: visit_source_def Let_def st_def)
      have hk: "hot (pq_status p) key" using inv key by (simp add: prop_inv_at_def)
      note v = visit_children [OF tasks Some subset_refl inv, of source st]
      have "covered graph (pq_status ?q) key"
      proof (cases "st = StAffected \<or> st = StUnknown \<and> gn_kind source = KTask")
        case True
        with v Some show ?thesis by (auto simp: covered_def)
      next
        case False
        with hk have "gn_kind source = KApp" "map_of (pq_status p) key = Some StUnknown"
          by (cases "gn_kind source"; auto simp: st_def hot_def)+
        moreover have "map_of (pq_status ?q) key = map_of (pq_status p) key"
        proof -
          have nc: "key \<noteq> c" if "c \<in> set children" for c
            using tasks Some that \<open>map_of (ag_nodes graph) key = Some source\<close> \<open>gn_kind source = KApp\<close>
            unfolding children_are_tasks_def by fastforce
          have "map_of (pq_status (fold (visit_child graph key source st) cs r)) key = map_of (pq_status r) key"
            if "set cs \<subseteq> set children" for cs r
            using that
          proof (induction cs arbitrary: r)
            case (Cons c cs)
            have "map_of (pq_status (visit_child graph key source st c r)) key = map_of (pq_status r) key"
              using nc [of c] Cons.prems by (cases rule: visit_child_cases [of graph key source st c r]) auto
            with Cons show ?case by simp
          qed simp
          then show ?thesis by simp
        qed
        ultimately show ?thesis
          using \<open>map_of (ag_nodes graph) key = Some source\<close> by (simp add: covered_def spreads_def)
      qed
      with v close q show ?thesis by simp
    qed
  qed
qed

lemma propagate_loop_inv:
  assumes "children_are_tasks graph" and "\<forall>k. prop_inv_at graph k p"
  shows "(\<forall>k. prop_inv_at graph k (propagate_loop graph p)) \<and> pq_queue (propagate_loop graph p) = [] \<and>
    status_le (pq_status p) (pq_status (propagate_loop graph p))"
  using assms
proof (induction graph p rule: propagate_loop.induct)
  case (1 graph p)
  show ?case
  proof (cases "pq_queue p")
    case Nil
    with "1.prems" show ?thesis by (simp add: propagate_loop.simps [of graph p])
  next
    case (Cons key queue)
    let ?p = "p\<lparr>pq_queue := queue\<rparr>"
    have "prop_inv_at graph key ?p" "key \<in> set (pq_enqueued ?p)"
      using "1.prems"(2) Cons by (auto simp: prop_inv_at_def)
    from visit_source_inv [OF "1.prems"(1) this]
    have v: "\<forall>k. prop_inv_at graph k (visit_source graph key ?p)"
      "status_le (pq_status p) (pq_status (visit_source graph key ?p))" by auto
    from "1.IH" [OF Cons "1.prems"(1) v(1)] v(2) Cons show ?thesis
      using status_le_trans by (auto simp: propagate_loop.simps [of graph p])
  qed
qed

lemma propagate_dependencies_spec:
  assumes tasks: "children_are_tasks graph" and wf: "bt_wf (fst r)"
  shows "status_le (fst r) (fst (propagate_dependencies graph r)) \<and>
    (\<forall>x. covered graph (fst (propagate_dependencies graph r)) x)"
proof -
  obtain status reasons where r: "r = (status, reasons)" by fastforce
  let ?queue = "map fst (filter (\<lambda>(_, v). v = StAffected \<or> v = StUnknown) status)"
  let ?p = "\<lparr>pq_status = status, pq_reasons = reasons, pq_queue = ?queue, pq_enqueued = bs_of_list ?queue\<rparr>"
  have "set ?queue = {x. hot status x}"
    using bt_wf_lookup [of status] wf r by (force simp: hot_def)
  then have inv: "\<forall>k. prop_inv_at graph k ?p" by (auto simp: prop_inv_at_def)
  note loop = propagate_loop_inv [OF tasks inv]
  let ?f = "pq_status (propagate_loop graph ?p)"
  have "covered graph ?f x" for x
  proof (cases "hot ?f x")
    case True
    have "prop_inv_at graph (CHR ''a'' # x) (propagate_loop graph ?p)" "pq_queue (propagate_loop graph ?p) = []"
      using loop by auto
    with True show ?thesis by (auto simp: prop_inv_at_def)
  next
    case False
    then show ?thesis by (auto simp: covered_def spreads_def hot_def)
  qed
  with loop r show ?thesis by (simp add: propagate_dependencies_def Let_def)
qed

section \<open>The graph that is built\<close>

definition node_consistent :: "string \<Rightarrow> GraphNode \<Rightarrow> bool" where
  "node_consistent key n \<longleftrightarrow> key = node_key (gn_kind n) (gn_name n) \<and>
     (gn_kind n = KApp \<longrightarrow> gn_depends_on n = [] \<and> gn_app n = None)"

lemma node_key_inj [simp]: "node_key k a = node_key k' b \<longleftrightarrow> k = k' \<and> a = b"
  by (cases k; cases k') (auto simp: node_key.simps)

definition only_apps :: "(string, GraphNode) btmap \<Rightarrow> bool" where
  "only_apps m \<longleftrightarrow> bt_wf m \<and>
     (\<forall>key n. map_of m key = Some n \<longrightarrow> node_consistent key n \<and> gn_kind n = KApp)"

lemma only_apps_add: "only_apps (fst a) \<Longrightarrow> only_apps (fst (add_app x a))"
  by (cases a) (auto simp: only_apps_def add_app_def Let_def node_consistent_def, metis)

lemma only_apps_fold: "only_apps (fst a) \<Longrightarrow> only_apps (fst (fold add_app as a))"
  by (induction as arbitrary: a) (auto simp: only_apps_add)

lemma build_graph_nodes:
  assumes "bt_wf (doc_tasks doc)"
  shows "bt_wf (ag_nodes (build_graph apps doc))"
    and "map_of (ag_nodes (build_graph apps doc)) key = Some n \<Longrightarrow> node_consistent key n"
    and "map_of (doc_tasks doc) t = Some task \<Longrightarrow>
      \<exists>n. map_of (ag_nodes (build_graph apps doc)) (node_key KTask t) = Some n \<and> gn_kind n = KTask \<and>
        gn_name n = t \<and> gn_depends_on n = td_depends_on task \<and> gn_app n = Some (td_app task)"
    and "gn_kind n = KTask \<Longrightarrow> map_of (ag_nodes (build_graph apps doc)) key = Some n \<Longrightarrow>
      map_of (doc_tasks doc) (gn_name n) \<noteq> None"
    and "ag_dependents (build_graph apps doc) = reverse_dependencies (ag_nodes (build_graph apps doc))"
proof -
  obtain nodes0 app_paths where np: "fold add_app apps ([], []) = (nodes0, app_paths)" by fastforce
  have "only_apps nodes0" using only_apps_fold [of "([], [])" apps] np by (simp add: only_apps_def)
  then have n0: "bt_wf nodes0" "\<And>key n. map_of nodes0 key = Some n \<Longrightarrow> node_consistent key n \<and> gn_kind n = KApp"
    by (auto simp: only_apps_def)
  define node where "node t task = \<lparr>gn_kind = KTask, gn_name = t,
        gn_path_roots = task_path_roots task (map_of app_paths (td_app task)),
        gn_depends_on = td_depends_on task, gn_app = Some (td_app task)\<rparr>" for t task
  have add: "add_task app_paths (t, task) m = bt_insert (node_key KTask t) (node t task) m" for t task m
    by (simp add: add_task_def node_def)
  have look: "map_of (fold (add_task app_paths) ts m) key =
      (case find (\<lambda>x. node_key KTask (fst x) = key) (rev ts) of
         Some x \<Rightarrow> Some (node (fst x) (snd x)) | None \<Rightarrow> map_of m key)"
    for ts m key
  proof -
    have "fold (add_task app_paths) ts m =
        fold (\<lambda>x. bt_insert (node_key KTask (fst x)) (node (fst x) (snd x))) ts m"
      by (rule fold_cong) (auto simp: add)
    then show ?thesis by (simp only: btm.look_fold)
  qed
  have wf: "bt_wf m \<Longrightarrow> bt_wf (fold (add_task app_paths) ts m)" for ts m
    by (induction ts arbitrary: m) (auto simp: add)
  have nodes: "ag_nodes (build_graph apps doc) = fold (add_task app_paths) (doc_tasks doc) nodes0"
    "ag_dependents (build_graph apps doc) = reverse_dependencies (ag_nodes (build_graph apps doc))"
    by (simp_all add: build_graph_def np Let_def)
  show "ag_dependents (build_graph apps doc) = reverse_dependencies (ag_nodes (build_graph apps doc))"
    by (rule nodes(2))
  show "bt_wf (ag_nodes (build_graph apps doc))" unfolding nodes by (rule wf [OF n0(1)])
  have found: "(\<exists>t task. key = node_key KTask t \<and> map_of (doc_tasks doc) t = Some task \<and> n = node t task) \<or>
      map_of nodes0 key = Some n" if "map_of (ag_nodes (build_graph apps doc)) key = Some n" for key n
    using that bt_wf_lookup [OF assms] unfolding nodes look
    by (auto split: option.splits dest!: find_SomeD)
  show "node_consistent key n" if "map_of (ag_nodes (build_graph apps doc)) key = Some n" for key n
    using found [OF that] n0(2) [of key n] by (auto simp: node_consistent_def node_def)
  show "map_of (doc_tasks doc) (gn_name n) \<noteq> None"
    if "gn_kind n = KTask" "map_of (ag_nodes (build_graph apps doc)) key = Some n" for key n
    using found [OF that(2)] n0(2) [of key n] that(1) by (auto simp: node_def)
  show "\<exists>n. map_of (ag_nodes (build_graph apps doc)) (node_key KTask t) = Some n \<and> gn_kind n = KTask \<and>
        gn_name n = t \<and> gn_depends_on n = td_depends_on task \<and> gn_app n = Some (td_app task)"
    if "map_of (doc_tasks doc) t = Some task"
  proof -
    have "(t, task) \<in> set (doc_tasks doc)" using that by (rule map_of_SomeD)
    then obtain p where p: "find (\<lambda>x. node_key KTask (fst x) = node_key KTask t) (rev (doc_tasks doc)) = Some p"
      by (cases "find (\<lambda>x. node_key KTask (fst x) = node_key KTask t) (rev (doc_tasks doc))")
        (force simp: find_None_iff)+
    then have "p \<in> set (doc_tasks doc)" "fst p = t" by (auto dest!: find_SomeD)
    then have "p = (t, task)" using that bt_wf_lookup [OF assms, of t "snd p"] by (cases p) auto
    with p show ?thesis unfolding nodes look by (simp add: node_def)
  qed
qed

text \<open>\<open>link_of key n d\<close>: the node \<open>key\<close> is recorded as a dependent of \<open>d\<close>.\<close>

definition link_of :: "GraphNode \<Rightarrow> string \<Rightarrow> bool" where
  "link_of n d \<longleftrightarrow> (\<exists>dep \<in> set (gn_depends_on n). d = node_key KTask dep) \<or>
     (\<exists>app. gn_app n = Some app \<and> d = node_key KApp app)"

definition entry :: "(string, string list) btmap \<Rightarrow> string \<Rightarrow> string set" where
  "entry m d = (case map_of m d of None \<Rightarrow> {} | Some cs \<Rightarrow> set cs)"

lemma entry_set_insert: "entry (bt_set_insert k x m) d = entry m d \<union> (if d = k then {x} else {})"
  by (auto simp: entry_def map_of_bt_set_insert set_insort_insert split: option.splits)

lemma entry_link:
  "entry (link_dependents (key, n) m) d = entry m d \<union> (if link_of n d then {key} else {})"
proof -
  have "entry (fold (\<lambda>dep. bt_set_insert (node_key KTask dep) key) ds m) d =
      entry m d \<union> (if \<exists>dep \<in> set ds. d = node_key KTask dep then {key} else {})" for ds
    by (induction ds arbitrary: m) (auto simp: entry_set_insert)
  then show ?thesis
    by (auto simp: link_dependents_def Let_def link_of_def entry_set_insert split: option.splits)
qed

lemma entry_reverse: "x \<in> entry (reverse_dependencies nodes) d \<longleftrightarrow> (\<exists>n. (x, n) \<in> set nodes \<and> link_of n d)"
proof -
  have "x \<in> entry (fold link_dependents ns m) d \<longleftrightarrow> x \<in> entry m d \<or> (\<exists>n. (x, n) \<in> set ns \<and> link_of n d)" for ns m
  proof (induction ns arbitrary: m)
    case (Cons p ns)
    then show ?case by (cases p) (auto simp: entry_link split: if_splits)
  qed simp
  from this [of nodes "[]"] show ?thesis by (simp add: reverse_dependencies_def entry_def)
qed

lemma build_graph_children:
  assumes "bt_wf (doc_tasks doc)"
  shows "children_are_tasks (build_graph apps doc)"
  unfolding children_are_tasks_def
proof (intro allI impI, elim conjE)
  fix key cs c
  assume "map_of (ag_dependents (build_graph apps doc)) key = Some cs" "c \<in> set cs"
  then have "c \<in> entry (ag_dependents (build_graph apps doc)) key" by (simp add: entry_def)
  then obtain n where n: "(c, n) \<in> set (ag_nodes (build_graph apps doc))" "link_of n key"
    unfolding build_graph_nodes(5) [OF assms] entry_reverse by blast
  then have m: "map_of (ag_nodes (build_graph apps doc)) c = Some n"
    using bt_wf_lookup [OF build_graph_nodes(1) [OF assms]] by simp
  have "gn_kind n = KTask"
    using build_graph_nodes(2) [OF assms m] n(2) by (cases "gn_kind n") (auto simp: node_consistent_def link_of_def)
  with m show "\<exists>n. map_of (ag_nodes (build_graph apps doc)) c = Some n \<and> gn_kind n = KTask" by blast
qed

section \<open>Classification\<close>

text \<open>Both loops over the nodes set the status of their own key only.\<close>

definition classified :: "Globset \<Rightarrow> string list \<Rightarrow> GraphNode \<Rightarrow> NodeStatus option" where
  "classified gs changed n =
     (case validate_path_roots gs (gn_path_roots n) of
        Err e \<Rightarrow> Some StUnknown
      | _ \<Rightarrow>
          if gn_path_roots n = [] then None
          else if \<not> roots_may_overlap_changes (gn_path_roots n) changed then Some StUnaffected
          else (case fst (match_changed_paths gs [] (gn_path_roots n) changed []) of
                  Matched \<Rightarrow> Some StAffected | Missed \<Rightarrow> Some StUnaffected | Invalid \<Rightarrow> Some StUnknown))"

lemma match_loop_fst: "fst (match_loop gs k roots cs b r) = fst (match_loop gs k' roots cs b r')"
proof (induction cs arbitrary: b r r')
  case (Cons c cs)
  show ?case
  proof (cases "path_matches_roots gs c roots")
    case (Ok m)
    then show ?thesis by (cases m) (simp_all, (rule Cons.IH)+)
  qed simp_all
qed simp

lemma classify_node_status:
  "map_of (fst (classify_node gs changed (key, n) a)) x =
     (if x = key then (case classified gs changed n of None \<Rightarrow> map_of (fst a) x | s \<Rightarrow> s) else map_of (fst a) x)"
proof -
  have m: "fst (match_changed_paths gs key (gn_path_roots n) changed (snd a)) =
      fst (match_changed_paths gs [] (gn_path_roots n) changed [])"
    unfolding match_changed_paths_def by (rule match_loop_fst)
  obtain st rs where a: "a = (st, rs)" by fastforce
  obtain pm rs' where pm: "match_changed_paths gs key (gn_path_roots n) changed rs = (pm, rs')" by fastforce
  with m a have "fst (match_changed_paths gs [] (gn_path_roots n) changed []) = pm" by simp
  with a pm show ?thesis
    by (auto simp: classify_node_def classified_def split: outcome.splits PathMatchOutcome.splits)
qed

lemma bt_wf_classify_node: "bt_wf (fst a) \<Longrightarrow> bt_wf (fst (classify_node gs changed p a))"
  by (cases a; cases p) (auto simp: classify_node_def split: outcome.splits prod.splits PathMatchOutcome.splits)

lemma classify_path_hits_status:
  assumes "distinct (map fst (ag_nodes graph))"
  shows "map_of (fst (classify_path_hits gs graph changed ([], []))) x =
     Option.bind (map_of (ag_nodes graph) x) (classified gs changed)"
    and "bt_wf (fst (classify_path_hits gs graph changed ([], [])))"
proof -
  have "map_of (fst (fold (classify_node gs changed) ns a)) x =
      (case Option.bind (map_of ns x) (classified gs changed) of None \<Rightarrow> map_of (fst a) x | s \<Rightarrow> s)"
    if "distinct (map fst ns)" for ns a
    using that
  proof (induction ns arbitrary: a)
    case (Cons p ns)
    obtain k n where p: "p = (k, n)" by fastforce
    with Cons.prems have "map_of ns k = None" by (auto simp: map_of_eq_None_iff)
    with Cons p show ?case by (auto simp: classify_node_status split: option.splits)
  qed simp
  from this [OF assms, of "([], [])"]
  show "map_of (fst (classify_path_hits gs graph changed ([], []))) x =
     Option.bind (map_of (ag_nodes graph) x) (classified gs changed)"
    by (auto simp: classify_path_hits_def split: option.splits)
  have "bt_wf (fst a) \<Longrightarrow> bt_wf (fst (fold (classify_node gs changed) ns a))" for ns a
    by (induction ns arbitrary: a) (auto simp: bt_wf_classify_node)
  then show "bt_wf (fst (classify_path_hits gs graph changed ([], [])))" by (simp add: classify_path_hits_def)
qed

end
