(* ===== verification/Affected_Analysis.thy ===== *)
theory Affected_Analysis
  imports Affected
begin

text \<open>
  What the lists of an affected analysis mean: a change of a global input lists everything, a
  changed path inside a node's roots lists the node, and in strict mode the listed tasks are
  closed under dependents. The last section shows on concrete inputs where the code falls short
  of that: roots whose literal part ends inside a path component, roots with a trailing slash,
  and dependents of a node that was first queued as unknown.
\<close>

section \<open>The phases keep the statuses well formed\<close>

text \<open>The propagation changes the statuses by insertions only.\<close>

lemma propagate_keeps:
  assumes ins: "\<And>m c v. P m \<Longrightarrow> P (bt_insert c v m)" and r: "P (fst r)"
  shows "P (fst (propagate_dependencies graph r))"
proof -
  have child: "P (pq_status p) \<Longrightarrow> P (pq_status (visit_child graph key source st c p))" for graph key source st c p
    using ins by (cases rule: visit_child_cases [of graph key source st c p]) auto
  have "P (pq_status q) \<Longrightarrow> P (pq_status (fold (visit_child graph key source st) cs q))" for graph key source st cs q
    by (induction cs arbitrary: q) (auto simp: child)
  then have source: "P (pq_status p) \<Longrightarrow> P (pq_status (visit_source graph key p))" for graph key p
    by (auto simp: visit_source_def Let_def split: option.splits)
  have "P (pq_status p) \<Longrightarrow> P (pq_status (propagate_loop graph p))" for graph p
  proof (induction graph p rule: propagate_loop.induct)
    case (1 graph p)
    then show ?case
      by (cases "pq_queue p") (simp_all add: propagate_loop.simps [of graph p] source)
  qed
  with r show ?thesis by (cases r) (simp add: propagate_dependencies_def Let_def)
qed

lemma bt_wf_propagate: "bt_wf (fst r) \<Longrightarrow> bt_wf (fst (propagate_dependencies graph r))"
  by (rule propagate_keeps [where P = bt_wf]) auto

lemma dom_propagate: "map_of (fst r) x \<noteq> None \<Longrightarrow> map_of (fst (propagate_dependencies graph r)) x \<noteq> None"
  by (rule propagate_keeps [where P = "\<lambda>m. map_of m x \<noteq> None"]) auto

definition empty_roots_status :: "GraphNode \<Rightarrow> NodeStatus" where
  "empty_roots_status n = (if gn_path_roots n = [] then StUnknown else StUnaffected)"

lemma finalize_empty_roots_status:
  shows "map_of (fst (finalize_empty_roots graph r)) x =
     (case map_of (fst r) x of
        Some s \<Rightarrow> Some s
      | None \<Rightarrow> map_option empty_roots_status (map_of (ag_nodes graph) x))"
    and "bt_wf (fst r) \<Longrightarrow> bt_wf (fst (finalize_empty_roots graph r))"
proof -
  define body where "body = (\<lambda>(key, node :: GraphNode) (status :: statuses, reasons :: reasons).
     if bt_contains status key then (status, reasons)
     else if gn_path_roots node = [] then
       (bt_insert key StUnknown status, push_reason key ReasonEmptyRoots reasons)
     else (bt_insert key StUnaffected status, reasons))"
  have fin: "finalize_empty_roots graph r = fold body (ag_nodes graph) r"
    by (simp add: finalize_empty_roots_def body_def)
  have "map_of (fst (fold body ns r)) x =
     (case map_of (fst r) x of Some s \<Rightarrow> Some s | None \<Rightarrow> map_option empty_roots_status (map_of ns x))" for ns r
  proof (induction ns arbitrary: r)
    case (Cons p ns)
    obtain k n where p: "p = (k, n)" by fastforce
    have "map_of (fst (body p r)) x =
        (case map_of (fst r) x of Some s \<Rightarrow> Some s | None \<Rightarrow> if x = k then Some (empty_roots_status n) else None)"
      by (cases r) (auto simp: p body_def empty_roots_status_def domIff split: option.splits)
    with Cons p show ?case by (auto split: option.splits)
  qed (auto split: option.splits)
  with fin show "map_of (fst (finalize_empty_roots graph r)) x =
     (case map_of (fst r) x of
        Some s \<Rightarrow> Some s
      | None \<Rightarrow> map_option empty_roots_status (map_of (ag_nodes graph) x))" by simp
  have "bt_wf (fst r) \<Longrightarrow> bt_wf (fst (fold body ns r))" for ns r
  proof (induction ns arbitrary: r)
    case (Cons p ns)
    have "bt_wf (fst (body p r))" using Cons.prems by (cases r; cases p) (auto simp: body_def)
    with Cons show ?case by simp
  qed simp
  with fin show "bt_wf (fst r) \<Longrightarrow> bt_wf (fst (finalize_empty_roots graph r))" by simp
qed

lemma finalize_le: "status_le (fst r) (fst (finalize_empty_roots graph r))"
  by (auto simp: status_le_def hot_def finalize_empty_roots_status split: option.splits)

lemma mark_global_status:
  "map_of (fst (mark_global_affected graph changed r)) x =
     (if x \<in> set (bt_keys (ag_nodes graph)) then Some StAffected else map_of (fst r) x)"
  "bt_wf (fst r) \<Longrightarrow> bt_wf (fst (mark_global_affected graph changed r))"
proof -
  define body where "body = (\<lambda>key (status :: statuses, reasons :: reasons).
     (bt_insert key StAffected status,
      fold (\<lambda>path. push_reason key (ReasonGlobalInput path))
        (filter is_global_invalidation_path changed) reasons))"
  have b: "fst (body k r) = bt_insert k StAffected (fst r)" for k r
    by (cases r) (simp add: body_def)
  have fin: "mark_global_affected graph changed r = fold body (bt_keys (ag_nodes graph)) r"
    by (simp add: mark_global_affected_def body_def)
  have "map_of (fst (fold body ks r)) x = (if x \<in> set ks then Some StAffected else map_of (fst r) x)" for ks r
    by (induction ks arbitrary: r) (auto simp: b)
  with fin show "map_of (fst (mark_global_affected graph changed r)) x =
     (if x \<in> set (bt_keys (ag_nodes graph)) then Some StAffected else map_of (fst r) x)" by simp
  have "bt_wf (fst r) \<Longrightarrow> bt_wf (fst (fold body ks r))" for ks r
    by (induction ks arbitrary: r) (auto simp: b)
  with fin show "bt_wf (fst r) \<Longrightarrow> bt_wf (fst (mark_global_affected graph changed r))" by simp
qed

section \<open>The lists\<close>

lemma listed_iff:
  assumes wf: "bt_wf (doc_tasks doc)" and g: "graph = build_graph apps doc"
  shows "t \<in> set (aa_tasks (analyze gs graph changed flake system strict)) \<longleftrightarrow>
      (\<exists>n. map_of (ag_nodes graph) (node_key KTask t) = Some n) \<and>
      include_in_lists (status_of (fst (analyze_status gs graph changed)) (node_key KTask t)) strict"
    and "a \<in> set (aa_apps (analyze gs graph changed flake system strict)) \<longleftrightarrow>
      (\<exists>n. map_of (ag_nodes graph) (node_key KApp a) = Some n) \<and>
      include_in_lists (status_of (fst (analyze_status gs graph changed)) (node_key KApp a)) strict"
proof -
  have kn: "(key, n) \<in> set (ag_nodes graph) \<longleftrightarrow> map_of (ag_nodes graph) key = Some n" for key n
    using bt_wf_lookup [OF build_graph_nodes(1) [OF wf]] by (simp add: g)
  have con: "map_of (ag_nodes graph) (node_key k x) = Some n \<Longrightarrow> gn_kind n = k \<and> gn_name n = x" for k x n
    using build_graph_nodes(2) [OF wf, of _ "node_key k x" n] by (simp add: g node_consistent_def)
  have key: "map_of (ag_nodes graph) key = Some n \<Longrightarrow> key = node_key (gn_kind n) (gn_name n)" for key n
    using build_graph_nodes(2) [OF wf] by (simp add: g node_consistent_def)
  obtain status reasons where s: "analyze_status gs graph changed = (status, reasons)" by fastforce
  define names where "names k = map (\<lambda>(_, n). gn_name n) (filter (\<lambda>(_, n). gn_kind n = k)
     (filter (\<lambda>(key, _). include_in_lists (status_of status key) strict) (ag_nodes graph)))" for k
  have "x \<in> set (names k) \<longleftrightarrow> (\<exists>key n. map_of (ag_nodes graph) key = Some n \<and>
      include_in_lists (status_of status key) strict \<and> gn_kind n = k \<and> gn_name n = x)" for x k
    unfolding names_def set_map set_filter image_iff kn [symmetric] by auto
  then have names: "x \<in> set (names k) \<longleftrightarrow> (\<exists>n. map_of (ag_nodes graph) (node_key k x) = Some n) \<and>
      include_in_lists (status_of status (node_key k x)) strict" (is "_ \<longleftrightarrow> ?R") for x k
  proof (rule trans, intro iffI)
    assume "\<exists>key n. map_of (ag_nodes graph) key = Some n \<and>
      include_in_lists (status_of status key) strict \<and> gn_kind n = k \<and> gn_name n = x"
    then obtain key n where "map_of (ag_nodes graph) key = Some n"
      "include_in_lists (status_of status key) strict" "gn_kind n = k" "gn_name n = x" by blast
    with key [of key n] show ?R by simp
  qed (use con [of k x] in blast)
  have "aa_tasks (analyze gs graph changed flake system strict) = sort (names KTask)"
    "aa_apps (analyze gs graph changed flake system strict) = sort (names KApp)"
    by (simp_all add: analyze_def collect_results_def s Let_def names_def)
  then show "t \<in> set (aa_tasks (analyze gs graph changed flake system strict)) \<longleftrightarrow>
      (\<exists>n. map_of (ag_nodes graph) (node_key KTask t) = Some n) \<and>
      include_in_lists (status_of (fst (analyze_status gs graph changed)) (node_key KTask t)) strict"
    "a \<in> set (aa_apps (analyze gs graph changed flake system strict)) \<longleftrightarrow>
      (\<exists>n. map_of (ag_nodes graph) (node_key KApp a) = Some n) \<and>
      include_in_lists (status_of (fst (analyze_status gs graph changed)) (node_key KApp a)) strict"
    by (simp_all add: names s)
qed

lemma include_strict: "include_in_lists s True \<longleftrightarrow> s \<noteq> StUnaffected"
  by (cases s) auto

lemma include_lenient: "include_in_lists s False \<longleftrightarrow> s = StAffected"
  by (cases s) auto

lemma analyze_status_final:
  fixes gs :: Globset
  assumes wf: "bt_wf (doc_tasks doc)" and g: "graph = build_graph apps doc" and ch: "changed \<noteq> []"
  defines "S \<equiv> fst (analyze_status gs graph changed)"
  shows "covered graph S x"
    and "x \<in> dom (map_of (ag_nodes graph)) \<Longrightarrow> map_of S x \<noteq> None"
    and "list_ex is_global_invalidation_path changed \<Longrightarrow> x \<in> dom (map_of (ag_nodes graph)) \<Longrightarrow>
      map_of S x = Some StAffected"
    and "\<not> list_ex is_global_invalidation_path changed \<Longrightarrow>
      status_le (fst (classify_path_hits gs graph changed ([], []))) S"
proof -
  let ?global = "list_ex is_global_invalidation_path changed"
  let ?hits = "classify_path_hits gs graph changed ([], [])"
  let ?marks = "mark_global_affected graph changed ([], [])"
  let ?fin = "finalize_empty_roots graph (propagate_dependencies graph ?hits)"
  have tasks: "children_are_tasks graph" using build_graph_children [OF wf] g by simp
  have "distinct (map fst (ag_nodes graph))"
    using build_graph_nodes(1) [OF wf] g by (simp add: bt_wf_distinct)
  note hits = classify_path_hits_status(2) [OF this]
  have marks: "bt_wf (fst ?marks)" by (simp add: mark_global_status(2))
  have fin: "bt_wf (fst ?fin)"
    using hits [of gs changed] by (simp add: finalize_empty_roots_status(2) bt_wf_propagate)
  have S: "S = (if ?global then fst (propagate_dependencies graph ?marks)
     else fst (propagate_dependencies graph ?fin))"
    using ch by (simp add: S_def analyze_status_def Let_def)
  note pm = propagate_dependencies_spec [OF tasks marks]
  note ph = propagate_dependencies_spec [OF tasks hits [of gs changed]]
  note pf = propagate_dependencies_spec [OF tasks fin]
  show "covered graph S x" using pm pf S by simp
  show "status_le (fst ?hits) S" if "\<not> ?global"
    using that S ph pf finalize_le status_le_trans by (metis (no_types, lifting))
  show aff: "map_of S x = Some StAffected" if "?global" "x \<in> dom (map_of (ag_nodes graph))"
  proof -
    have "map_of (fst ?marks) x = Some StAffected"
      using that(2) mark_global_status(1) [of graph changed "([], [])" x] by (simp add: set_bt_keys)
    with pm S that(1) show ?thesis by (simp add: status_le_def)
  qed
  show "map_of S x \<noteq> None" if d: "x \<in> dom (map_of (ag_nodes graph))"
  proof (cases ?global)
    case True
    with aff d show ?thesis by simp
  next
    case False
    have "map_of (fst ?fin) x \<noteq> None"
      using d by (auto simp: finalize_empty_roots_status split: option.splits)
    with S False dom_propagate show ?thesis by simp
  qed
qed

lemma child_of_task:
  assumes wf: "bt_wf (doc_tasks doc)" and g: "graph = build_graph apps doc"
    and t: "map_of (doc_tasks doc) t = Some task"
    and d: "d \<in> set (td_depends_on task) \<and> key = node_key KTask d \<or> key = node_key KApp (td_app task)"
  shows "\<exists>cs. map_of (ag_dependents graph) key = Some cs \<and> node_key KTask t \<in> set cs"
proof -
  obtain n where n: "map_of (ag_nodes graph) (node_key KTask t) = Some n"
    "gn_depends_on n = td_depends_on task" "gn_app n = Some (td_app task)"
    using build_graph_nodes(3) [OF wf t] g by blast
  then have "(node_key KTask t, n) \<in> set (ag_nodes graph)" by (simp add: map_of_SomeD)
  moreover have "link_of n key" using d n by (auto simp: link_of_def)
  ultimately have "node_key KTask t \<in> entry (ag_dependents graph) key"
    using build_graph_nodes(5) [OF wf] g entry_reverse by metis
  then show ?thesis by (auto simp: entry_def split: option.splits)
qed

text \<open>
  C31: In strict mode the listed tasks are closed under dependents: when some path changed, a task
  that depends on a listed task, directly or through other tasks, is listed, and so is every task
  whose app is affected.
\<close>

theorem strict_lists_closed:
  fixes gs :: Globset and apps :: "App list" and flake system :: string
  assumes wf: "bt_wf (doc_tasks doc)" and ch: "changed \<noteq> []"
    and t: "map_of (doc_tasks doc) t = Some task"
  defines "r \<equiv> analyze gs (build_graph apps doc) changed flake system True"
    and "lenient \<equiv> analyze gs (build_graph apps doc) changed flake system False"
  shows "(s \<in> set (aa_tasks r) \<and>
      (s, t) \<in> {(x, y). \<exists>d. map_of (doc_tasks doc) y = Some d \<and> x \<in> set (td_depends_on d)}\<^sup>* \<longrightarrow>
      t \<in> set (aa_tasks r)) \<and>
    (td_app task \<in> set (aa_apps lenient) \<longrightarrow> t \<in> set (aa_tasks r))"
proof -
  let ?g = "build_graph apps doc"
  let ?S = "fst (analyze_status gs ?g changed)"
  note fin = analyze_status_final [OF wf refl ch, where gs = gs and apps = apps]
  note listed = listed_iff [OF wf refl]
  have close: "y \<in> set (aa_tasks r)" if y: "map_of (doc_tasks doc) y = Some d"
    and k: "x \<in> set (td_depends_on d) \<and> key = node_key KTask x \<or> key = node_key KApp (td_app d)"
    and sp: "spreads ?g ?S key" for y d x key
  proof -
    from child_of_task [OF wf refl y k]
    have "hot ?S (node_key KTask y)" using fin(1) [of key] sp unfolding covered_def by blast
    moreover have "map_of (ag_nodes ?g) (node_key KTask y) \<noteq> None"
      using build_graph_nodes(3) [OF wf y] by fastforce
    ultimately show ?thesis
      unfolding r_def by (auto simp: listed include_strict status_of_def hot_def)
  qed
  have one: "y \<in> set (aa_tasks r)" if x: "x \<in> set (aa_tasks r)"
    and y: "map_of (doc_tasks doc) y = Some d" "x \<in> set (td_depends_on d)" for x y d
  proof -
    from x obtain n where n: "map_of (ag_nodes ?g) (node_key KTask x) = Some n"
      "status_of ?S (node_key KTask x) \<noteq> StUnaffected"
      unfolding r_def listed include_strict by blast
    moreover have "map_of ?S (node_key KTask x) \<noteq> None" using fin(2) n(1) by blast
    ultimately have "hot ?S (node_key KTask x)"
      by (auto simp: status_of_def hot_def intro: NodeStatus.exhaust)
    moreover have "gn_kind n = KTask"
      using build_graph_nodes(2) [OF wf n(1)] by (simp add: node_consistent_def)
    ultimately have "spreads ?g ?S (node_key KTask x)" using n(1) by (auto simp: spreads_def hot_def)
    with close [OF y(1)] y(2) show ?thesis by blast
  qed
  have "y \<in> set (aa_tasks r)" if "s \<in> set (aa_tasks r)"
    "(s, y) \<in> {(x, y). \<exists>d. map_of (doc_tasks doc) y = Some d \<and> x \<in> set (td_depends_on d)}\<^sup>*" for y
    using that(2) by (induction rule: rtrancl_induct) (use that(1) one in auto)
  moreover have "t \<in> set (aa_tasks r)" if "td_app task \<in> set (aa_apps lenient)"
  proof -
    have "spreads ?g ?S (node_key KApp (td_app task))"
      using that unfolding lenient_def listed include_lenient spreads_def status_of_def
      by (auto split: option.splits)
    with close [OF t] show ?thesis by blast
  qed
  ultimately show ?thesis by blast
qed

section \<open>Changed paths reach their nodes\<close>

lemma match_loop_matched:
  "fst (match_loop gs k roots cs b r) = Missed \<Longrightarrow> \<not> b \<and> (\<forall>c \<in> set cs. path_matches_roots gs c roots = Ok False)"
proof (induction cs arbitrary: b r)
  case (Cons c cs)
  show ?case
  proof (cases "path_matches_roots gs c roots")
    case (Ok m)
    with Cons.IH Cons.prems show ?thesis by (cases m) fastforce+
  qed (use Cons.prems in auto)
qed (auto split: if_splits)

lemma match_loop_invalid:
  "fst (match_loop gs k roots cs b r) = Invalid \<Longrightarrow> \<exists>c \<in> set cs. \<forall>m. path_matches_roots gs c roots \<noteq> Ok m"
proof (induction cs arbitrary: b r)
  case (Cons c cs)
  show ?case
  proof (cases "path_matches_roots gs c roots")
    case (Ok m)
    with Cons.IH Cons.prems show ?thesis by (cases m) auto
  qed auto
qed (auto split: if_splits)

lemma path_matches_total:
  "validate_path_roots gs roots = Ok () \<Longrightarrow> compile_globset gs roots = Ok globs \<Longrightarrow>
     \<exists>m. path_matches_roots gs c roots = Ok m"
  by (auto simp: path_matches_roots_def Let_def)

lemma classified_hit:
  assumes "literal_start gs" "\<forall>r \<in> set (gn_path_roots n). at_boundary r" "c \<in> set changed"
    and m: "path_matches_roots gs c (gn_path_roots n) = Ok True"
  shows "classified gs changed n = Some StAffected \<or> classified gs changed n = Some StUnknown"
    and "compile_globset gs (gn_path_roots n) = Ok globs \<Longrightarrow> classified gs changed n = Some StAffected"
proof -
  have r: "gn_path_roots n \<noteq> []" "validate_path_roots gs (gn_path_roots n) = Ok ()"
    using m by (auto simp: path_matches_roots_def outcome_simps split: if_splits)
  have o: "roots_may_overlap_changes (gn_path_roots n) changed" using locality_sound assms by blast
  let ?m = "fst (match_changed_paths gs [] (gn_path_roots n) changed [])"
  have cl: "classified gs changed n =
      (case ?m of Matched \<Rightarrow> Some StAffected | Missed \<Rightarrow> Some StUnaffected | Invalid \<Rightarrow> Some StUnknown)"
    using r o by (simp add: classified_def)
  have "?m \<noteq> Missed"
    using match_loop_matched [of gs "[]" "gn_path_roots n" changed False "[]"] assms(3) m
    by (auto simp: match_changed_paths_def)
  then show "classified gs changed n = Some StAffected \<or> classified gs changed n = Some StUnknown"
    by (simp add: cl split: PathMatchOutcome.splits)
  show "classified gs changed n = Some StAffected" if "compile_globset gs (gn_path_roots n) = Ok globs"
  proof -
    have "?m \<noteq> Invalid"
      using match_loop_invalid [of gs "[]" "gn_path_roots n" changed False "[]"] path_matches_total [OF r(2) that]
      by (fastforce simp: match_changed_paths_def)
    with \<open>?m \<noteq> Missed\<close> show ?thesis by (simp add: cl split: PathMatchOutcome.splits)
  qed
qed

text \<open>
  C32: A changed path that matches the roots of an app or a task makes the analysis list it, in
  strict mode; and without strict mode when the glob patterns of the node can be combined into one
  set. Two conditions: the literal part of every root of the node ends with a path component
  (\<open>at_boundary\<close>; for the other roots see \<open>unaligned_root_missed\<close>), and the glob
  crate starts every pattern that has no backslash with its literal characters
  (\<open>literal_start\<close>; the roots have none when they reach it).
\<close>

theorem path_hit_listed:
  fixes k :: NodeKind
  assumes wf: "bt_wf (doc_tasks doc)" and ls: "literal_start gs"
    and n: "map_of (ag_nodes (build_graph apps doc)) (node_key k x) = Some n"
    and b: "\<forall>r \<in> set (gn_path_roots n). at_boundary r" and c: "c \<in> set changed"
    and m: "path_matches_roots gs c (gn_path_roots n) = Ok True"
    and strict: "strict \<or> compile_globset gs (gn_path_roots n) = Ok globs"
  shows "x \<in> set ((case k of KApp \<Rightarrow> aa_apps | KTask \<Rightarrow> aa_tasks)
    (analyze gs (build_graph apps doc) changed flake system strict))"
proof -
  let ?g = "build_graph apps doc"
  let ?S = "fst (analyze_status gs ?g changed)"
  have ch: "changed \<noteq> []" using c by auto
  note fin = analyze_status_final [OF wf refl ch, where gs = gs and apps = apps]
  have "map_of ?S (node_key k x) = Some StAffected \<or> strict \<and> hot ?S (node_key k x)"
  proof (cases "list_ex is_global_invalidation_path changed")
    case True
    with fin(3) n show ?thesis by auto
  next
    case False
    have "distinct (map fst (ag_nodes ?g))"
      using build_graph_nodes(1) [OF wf] by (simp add: bt_wf_distinct)
    from classify_path_hits_status(1) [OF this] n
    have cp: "map_of (fst (classify_path_hits gs ?g changed ([], []))) (node_key k x) = classified gs changed n"
      by simp
    from classified_hit [OF ls b c m] strict
    have "classified gs changed n = Some StAffected \<or> strict \<and> classified gs changed n = Some StUnknown"
      by blast
    with cp fin(4) [OF False] show ?thesis by (auto simp: status_le_def hot_def)
  qed
  then have "include_in_lists (status_of ?S (node_key k x)) strict"
    by (auto simp: status_of_def hot_def)
  with n show ?thesis by (cases k) (auto simp: listed_iff [OF wf refl])
qed

lemma build_graph_apps:
  "(\<exists>n. map_of (ag_nodes (build_graph apps doc)) (node_key KApp a) = Some n) \<longleftrightarrow> a \<in> app_name ` set apps"
proof -
  have task: "map_of (fold (add_task ps) ts m) (node_key KApp a) = map_of m (node_key KApp a)" for ps ts m
    by (induction ts arbitrary: m) (auto simp: add_task_def)
  have app: "(\<exists>n. map_of (fst (fold add_app as r)) (node_key KApp a) = Some n) \<longleftrightarrow>
      (\<exists>n. map_of (fst r) (node_key KApp a) = Some n) \<or> a \<in> app_name ` set as" for as r
  proof (induction as arbitrary: r)
    case (Cons x as)
    then show ?case by (cases r) (auto simp: add_app_def Let_def)
  qed simp
  obtain nodes0 ps where np: "fold add_app apps ([], []) = (nodes0, ps)" by fastforce
  with app [of apps "([], [])"] show ?thesis by (simp add: build_graph_def np Let_def task)
qed

text \<open>
  C33: A change of a global input (a Nix file or the lock file) lists every app and every task; an
  empty set of changes lists none.
\<close>

theorem global_change_lists_all:
  assumes wf: "bt_wf (doc_tasks doc)"
    and g: "changed \<noteq> [] \<longrightarrow> list_ex is_global_invalidation_path changed"
  shows "set (aa_tasks (analyze gs (build_graph apps doc) changed flake system strict)) =
      (if changed = [] then {} else fst ` set (doc_tasks doc)) \<and>
    set (aa_apps (analyze gs (build_graph apps doc) changed flake system strict)) =
      (if changed = [] then {} else app_name ` set apps)"
proof -
  let ?g = "build_graph apps doc"
  let ?S = "fst (analyze_status gs ?g changed)"
  have st: "status_of ?S key = (if changed = [] then StUnaffected else StAffected)"
    if "map_of (ag_nodes ?g) key = Some n" for key n
  proof (cases "changed = []")
    case True
    have "map_of (fold (\<lambda>key. bt_insert key StUnaffected) ks m) key =
        (if key \<in> set ks then Some StUnaffected else map_of m key)" for ks and m :: statuses
      by (induction ks arbitrary: m) auto
    moreover have "key \<in> set (bt_keys (ag_nodes ?g))" using that by (auto simp: set_bt_keys)
    ultimately show ?thesis using True by (simp add: analyze_status_def status_of_def)
  next
    case False
    then have "map_of ?S key = Some StAffected"
      using analyze_status_final(3) [OF wf refl False] g that by blast
    with False show ?thesis by (simp add: status_of_def)
  qed
  have nodes: "(\<exists>n. map_of (ag_nodes ?g) (node_key KTask t) = Some n) \<longleftrightarrow> t \<in> fst ` set (doc_tasks doc)" for t
  proof -
    have "t \<in> fst ` set (doc_tasks doc)" if "map_of (ag_nodes ?g) (node_key KTask t) = Some n" for n
    proof -
      have "gn_kind n = KTask" "gn_name n = t"
        using build_graph_nodes(2) [OF wf that] by (simp_all add: node_consistent_def)
      with build_graph_nodes(4) [OF wf _ that] have "t \<in> dom (map_of (doc_tasks doc))" by auto
      then show ?thesis by (simp add: dom_map_of_conv_image_fst)
    qed
    moreover have "\<exists>n. map_of (ag_nodes ?g) (node_key KTask t) = Some n" if "t \<in> fst ` set (doc_tasks doc)"
    proof -
      from that obtain task where "map_of (doc_tasks doc) t = Some task"
        by (metis domD dom_map_of_conv_image_fst)
      then show ?thesis using build_graph_nodes(3) [OF wf] by blast
    qed
    ultimately show ?thesis by blast
  qed
  have apps: "(\<exists>n. map_of (ag_nodes ?g) (node_key KApp a) = Some n) \<longleftrightarrow> a \<in> app_name ` set apps" for a
    by (rule build_graph_apps)
  have inc: "include_in_lists (status_of ?S key) strict \<longleftrightarrow> changed \<noteq> []"
    if "map_of (ag_nodes ?g) key = Some n" for key n
    using st [OF that] by simp
  have "t \<in> set (aa_tasks (analyze gs ?g changed flake system strict)) \<longleftrightarrow>
      changed \<noteq> [] \<and> t \<in> fst ` set (doc_tasks doc)" for t
    unfolding listed_iff [OF wf refl] nodes [symmetric] using inc by blast
  moreover have "a \<in> set (aa_apps (analyze gs ?g changed flake system strict)) \<longleftrightarrow>
      changed \<noteq> [] \<and> a \<in> app_name ` set apps" for a
    unfolding listed_iff [OF wf refl] apps [symmetric] using inc by blast
  ultimately show ?thesis by (simp add: set_eq_iff)
qed

section \<open>Examples\<close>

text \<open>
  A glob crate that reads a pattern as its literal start followed by anything, and one that
  rejects a single pattern.
\<close>

definition star_globs :: Globset where
  "star_globs = \<lparr>glob_new = (\<lambda>g. if g = ''src/{'' then Some ''unclosed'' else None), globset_build = (\<lambda>_. None),
     globset_is_match = (\<lambda>globs p. list_ex (\<lambda>g. starts_with p (takeWhile (\<lambda>c. \<not> glob_meta c) g)) globs)\<rparr>"

lemma star_globs_literal: "literal_start star_globs"
  by (auto simp: literal_start_def star_globs_def list_ex_iff)

definition rooted_task :: "string list \<Rightarrow> string list \<Rightarrow> TaskDefinition" where
  "rooted_task paths deps = (TaskDefinition_new ''run'')\<lparr>td_paths := paths, td_depends_on := deps\<rparr>"

definition affected_doc :: TaskDocument where
  "affected_doc = TaskDocument_new
     [(''build'', rooted_task [''src/*.rs''] []), (''lint'', rooted_task [''docs''] []),
      (''test'', rooted_task [''docs''] [''build''])]"

definition affected_apps :: "App list" where
  "affected_apps = [\<lparr>app_name = ''run'', app_attr_path = ''apps.run'', app_flake_ref = ''.'', app_system = ''any'',
     app_description = None, app_is_default = False, app_metadata = []\<rparr>]"

lemma affected_doc_wf: "bt_wf (doc_tasks affected_doc)"
  by code_simp

lemma affected_example:
  "aa_tasks (analyze star_globs (build_graph affected_apps affected_doc) [''src/a.rs''] [] [] True) =
     [''build'', ''test'']"
  by code_simp

lemma affected_doc_roots:
  "map_option gn_path_roots (map_of (ag_nodes (build_graph affected_apps affected_doc)) (node_key KTask ''build'')) =
     Some [''src/*.rs'']"
  by code_simp

lemma affected_doc_hit:
  "path_matches_roots star_globs ''src/a.rs'' [''src/*.rs''] = Ok True"
  "at_boundary ''src/*.rs''" "compile_globset star_globs [''src/*.rs''] = Ok [''src/*.rs'']"
  by code_simp+

theorem strict_lists_closed_witness:
  "''test'' \<in> set (aa_tasks (analyze star_globs (build_graph affected_apps affected_doc) [''src/a.rs''] [] [] True))"
proof -
  have t: "map_of (doc_tasks affected_doc) ''test'' = Some (rooted_task [''docs''] [''build''])"
    "td_depends_on (rooted_task [''docs''] [''build'']) = [''build'']"
    by (simp_all add: affected_doc_def TaskDocument_new_def rooted_task_def)
  let ?rel = "{(x, y). \<exists>d. map_of (doc_tasks affected_doc) y = Some d \<and> x \<in> set (td_depends_on d)}"
  have "(''build'', ''test'') \<in> ?rel" using t by simp
  then have "(''build'', ''test'') \<in> ?rel\<^sup>*" by (rule r_into_rtrancl)
  moreover have "''build'' \<in> set (aa_tasks (analyze star_globs (build_graph affected_apps affected_doc)
      [''src/a.rs''] [] [] True))"
    by (simp add: affected_example)
  ultimately show ?thesis
    using strict_lists_closed [OF affected_doc_wf, of "[''src/a.rs'']" "''test''" "rooted_task [''docs''] [''build'']"
        "''build''" star_globs affected_apps "[]" "[]"] t(1) by blast
qed

theorem path_hit_listed_witness:
  "''build'' \<in> set (aa_tasks (analyze star_globs (build_graph affected_apps affected_doc) [''src/a.rs''] [] [] False))"
proof -
  obtain n where n: "map_of (ag_nodes (build_graph affected_apps affected_doc)) (node_key KTask ''build'') = Some n"
    "gn_path_roots n = [''src/*.rs'']"
    using affected_doc_roots by auto
  show ?thesis
    using path_hit_listed [OF affected_doc_wf star_globs_literal n(1), where changed = "[''src/a.rs'']" and
        c = "''src/a.rs''" and strict = False and flake = "[]" and system = "[]" and globs = "[''src/*.rs'']"]
      n(2) affected_doc_hit by simp
qed

theorem global_change_lists_all_witness:
  "set (aa_tasks (analyze star_globs (build_graph affected_apps affected_doc) [''flake.lock''] [] [] False)) =
     {''build'', ''lint'', ''test''}"
proof -
  have "list_ex is_global_invalidation_path [''flake.lock'']" by code_simp
  then show ?thesis
    using global_change_lists_all [OF affected_doc_wf, where changed = "[''flake.lock'']" and gs = star_globs and
        apps = affected_apps and flake = "[]" and system = "[]" and strict = False]
    by (simp add: affected_doc_def TaskDocument_new_def)
qed

section \<open>Where the code falls short\<close>

text \<open>
  The locality test compares the literal prefix of a pattern with a changed path by whole
  components. When the first metacharacter of a pattern is inside a component, the prefix ends
  inside that component and overlaps no file that continues it.
\<close>

lemma unaligned_no_overlap:
  assumes glob: "looks_like_glob (normalize_relative_path r)"
    and lit: "takeWhile (\<lambda>c. \<not> glob_meta c) (normalize_relative_path r) = lit" "lit \<noteq> []" "last lit \<noteq> CHR ''/''"
    and c: "normalize_relative_path c = lit @ x # rest" "x \<noteq> CHR ''/''"
  shows "\<not> roots_may_overlap_changes [r] [c]"
proof -
  have "\<not> ends_with lit ''/''" using lit(3) by (auto simp: ends_with_def suffix_def)
  then have "literal_path_prefix r = lit"
    using glob lit(1) by (simp add: literal_path_prefix_def Let_def trim_end_slashes_id)
  moreover have "\<not> prefix_overlap (lit @ x # rest) lit"
    using c(2) by (auto simp: prefix_overlap_def starts_with_def prefix_def)
  ultimately show ?thesis
    using lit(2) c(1) by (simp add: roots_may_overlap_changes_def Let_def)
qed

text \<open>
  A task whose only root is a pattern with its first metacharacter inside a path component is
  missed: when the changed file continues that component, the task is classified as unaffected
  before its pattern is matched, whatever the pattern matches. In the graph of this one task the
  analysis ends with it unaffected and without a reason.
\<close>

lemma unaligned_root_missed:
  assumes r: "looks_like_glob (normalize_relative_path r)"
      "takeWhile (\<lambda>c. \<not> glob_meta c) (normalize_relative_path r) = lit" "lit \<noteq> []" "last lit \<noteq> CHR ''/''"
    and c: "normalize_relative_path c = lit @ x # rest" "x \<noteq> CHR ''/''" "\<not> is_global_invalidation_path c"
    and v: "validate_path_roots gs [r] = Ok ()"
  shows "analyze_status gs \<lparr>ag_nodes = [(k, \<lparr>gn_kind = KTask, gn_name = t, gn_path_roots = [r],
      gn_depends_on = [], gn_app = Some a\<rparr>)], ag_dependents = ds\<rparr> [c] = ([(k, StUnaffected)], [])"
proof -
  note no = unaligned_no_overlap [OF r c(1,2)]
  have loop: "propagate_loop g \<lparr>pq_status = s, pq_reasons = rs, pq_queue = [], pq_enqueued = e\<rparr> =
      \<lparr>pq_status = s, pq_reasons = rs, pq_queue = [], pq_enqueued = e\<rparr>" for g s rs e
    by (subst propagate_loop.simps) simp
  show ?thesis
    using no c(3) v
    by (simp add: analyze_status_def classify_path_hits_def classify_node_def propagate_dependencies_def
        finalize_empty_roots_def loop)
qed

lemma unaligned_root_missed_example:
  "path_matches_roots star_globs ''src/lib_a.rs'' [''src/lib*.rs''] = Ok True \<and>
   fst (analyze_status star_globs \<lparr>ag_nodes = [(''task:b'', \<lparr>gn_kind = KTask, gn_name = ''b'',
      gn_path_roots = [''src/lib*.rs''], gn_depends_on = [], gn_app = Some ''run''\<rparr>)], ag_dependents = []\<rparr>
      [''src/lib_a.rs'']) = [(''task:b'', StUnaffected)]"
proof -
  have "path_matches_roots star_globs ''src/lib_a.rs'' [''src/lib*.rs''] = Ok True"
    "looks_like_glob (normalize_relative_path ''src/lib*.rs'')"
    "takeWhile (\<lambda>c. \<not> glob_meta c) (normalize_relative_path ''src/lib*.rs'') = ''src/lib''"
    "normalize_relative_path ''src/lib_a.rs'' = ''src/lib'' @ CHR ''_'' # ''a.rs''"
    "\<not> is_global_invalidation_path ''src/lib_a.rs''"
    "validate_path_roots star_globs [''src/lib*.rs''] = Ok ()"
    by code_simp+
  then show ?thesis
    using unaligned_root_missed [of "''src/lib*.rs''" "''src/lib''" "''src/lib_a.rs''" "CHR ''_''" "''a.rs''"
        star_globs "''task:b''" "''b''" "''run''" "[]"] by simp
qed

text \<open>
  A root with a trailing slash passes the validation and owns nothing: the overlap test appends a
  second slash.
\<close>

lemma trailing_slash_root_missed:
  "validate_path_roots star_globs [''src/''] = Ok () \<and>
   path_matches_roots star_globs ''src/a.rs'' [''src/''] = Ok False"
  by code_simp

text \<open>
  A node that leaves the queue as unknown and becomes affected later is not queued again. Here the
  file of \<open>z\<close> changed, \<open>y\<close> depends on \<open>z\<close> and has a pattern that does not compile, \<open>x\<close> depends on
  \<open>y\<close> and \<open>w\<close> on \<open>x\<close>: without strict mode \<open>w\<close> is not listed although \<open>x\<close> is.
\<close>

definition unknown_doc :: TaskDocument where
  "unknown_doc = TaskDocument_new
     [(''w'', rooted_task [] [''x'']), (''x'', rooted_task [] [''y'']),
      (''y'', rooted_task [''src/{''] [''z'']), (''z'', rooted_task [''z''] [])]"

lemma affected_dependent_missed:
  "aa_tasks (analyze star_globs (build_graph [] unknown_doc) [''z''] [] [] False) = [''x'', ''y'', ''z'']"
  by code_simp

end
