(* ===== verification/Rust_Hash.thy ===== *)
theory Rust_Hash
  imports Rust_Prelude "HOL-Library.Multiset"
begin

text \<open>
  \<open>HashMap<K, V>\<close>: a list of entries with distinct keys. The list order has no meaning; where the
  code iterates over a hash map, the model takes the iteration order as an argument, any function
  that permutes the entries.
\<close>

type_synonym ('k, 'v) hashmap = "('k \<times> 'v) list"

definition hm_remove :: "'k \<Rightarrow> ('k, 'v) hashmap \<Rightarrow> ('k, 'v) hashmap" where
  "hm_remove k m = filter (\<lambda>(k', _). k' \<noteq> k) m"

definition hm_insert :: "'k \<Rightarrow> 'v \<Rightarrow> ('k, 'v) hashmap \<Rightarrow> ('k, 'v) hashmap" where
  "hm_insert k v m = (k, v) # hm_remove k m"

definition hm_wf :: "('k, 'v) hashmap \<Rightarrow> bool" where
  "hm_wf m \<longleftrightarrow> distinct (map fst m)"

definition hash_order :: "('a list \<Rightarrow> 'a list) \<Rightarrow> bool" where
  "hash_order iter \<longleftrightarrow> (\<forall>xs. mset (iter xs) = mset xs)"

lemma map_of_hm_remove [simp]: "map_of (hm_remove k m) = (map_of m)(k := None)"
  by (induction m) (auto simp: hm_remove_def)

lemma map_of_hm_insert [simp]: "map_of (hm_insert k v m) = (map_of m)(k \<mapsto> v)"
  by (simp add: hm_insert_def)

lemma hm_wf_Nil [simp]: "hm_wf []"
  by (simp add: hm_wf_def)

lemma hm_wf_remove [simp]: "hm_wf m \<Longrightarrow> hm_wf (hm_remove k m)"
  by (auto simp: hm_wf_def hm_remove_def distinct_map inj_on_def)

lemma set_hm_remove: "set (hm_remove k m) = {p \<in> set m. fst p \<noteq> k}"
  by (auto simp: hm_remove_def)

lemma hm_wf_insert [simp]: "hm_wf m \<Longrightarrow> hm_wf (hm_insert k v m)"
  using hm_wf_remove [of m k] by (auto simp: hm_wf_def hm_insert_def set_hm_remove)

lemma hm_wf_lookup: "hm_wf m \<Longrightarrow> (k, v) \<in> set m \<longleftrightarrow> map_of m k = Some v"
  by (simp add: hm_wf_def)

lemma hash_order_set: "hash_order iter \<Longrightarrow> set (iter xs) = set xs"
  unfolding hash_order_def by (metis set_mset_mset)

lemma hash_order_map_of:
  assumes "hash_order iter" and "hm_wf m"
  shows "map_of (iter m) = map_of m" and "hm_wf (iter m)"
proof -
  have "mset (map fst (iter m)) = mset (map fst m)"
    using assms(1) by (simp add: hash_order_def)
  then show wf: "hm_wf (iter m)"
    using assms(2) unfolding hm_wf_def by (metis mset_eq_imp_distinct_iff)
  show "map_of (iter m) = map_of m"
    using wf assms(2) hash_order_set [OF assms(1), of m] unfolding hm_wf_def
    by (metis map_of_inject_set)
qed

end
