(* ===== verification/Chunk_Coalesce.thy ===== *)
theory Chunk_Coalesce
  imports Rust_Hash Rust_Strings
begin

text \<open>
  The coalescer of child output (\<open>crates/nxr-process/src/chunk_coalesce.rs\<close>): reads of one stream
  of one node are held and joined until a byte, line or time limit. Instants and durations are
  natural numbers (nanoseconds); every clock reading of an operation is an argument of it. Lengths
  and line counts are natural numbers: a line count is at most the length of its buffer, which is
  the length of a vector in memory.
\<close>

section \<open>The coalescer\<close>

datatype PipeStream = PipeStdout | PipeStderr

record PipeChunk =
  pc_node :: u32
  pc_stream :: PipeStream
  pc_bytes :: "8 word list"

record CoalesceLimits =
  cl_max_bytes :: nat
  cl_max_lines :: nat
  cl_max_latency :: nat

definition CoalesceLimits_default :: CoalesceLimits where
  "CoalesceLimits_default = \<lparr>cl_max_bytes = 64 * 1024, cl_max_lines = 32, cl_max_latency = 8 * 1000000\<rparr>"

record PendingChunk =
  pd_node :: u32
  pd_stream :: PipeStream
  pd_bytes :: "8 word list"
  pd_line_count :: nat
  pd_started :: nat

type_synonym chunk_key = "u32 \<times> PipeStream"

record ChunkCoalescer =
  co_limits :: CoalesceLimits
  co_pending :: "(chunk_key, PendingChunk) hashmap"

definition ChunkCoalescer_new :: "CoalesceLimits \<Rightarrow> ChunkCoalescer" where
  "ChunkCoalescer_new limits = \<lparr>co_limits = limits, co_pending = []\<rparr>"

definition into_chunk :: "PendingChunk \<Rightarrow> PipeChunk" where
  "into_chunk e = \<lparr>pc_node = pd_node e, pc_stream = pd_stream e, pc_bytes = pd_bytes e\<rparr>"

definition count_complete_lines :: "8 word list \<Rightarrow> nat" where
  "count_complete_lines bytes = length (filter (\<lambda>b. b = 10) bytes)"

text \<open>\<open>now\<close> is the reading of \<open>started.elapsed()\<close>, which is never negative.\<close>

definition should_flush :: "PendingChunk \<Rightarrow> CoalesceLimits \<Rightarrow> nat \<Rightarrow> bool" where
  "should_flush entry limits now \<longleftrightarrow>
     length (pd_bytes entry) \<ge> cl_max_bytes limits \<or>
     pd_line_count entry \<ge> cl_max_lines limits \<or>
     now - pd_started entry \<ge> cl_max_latency limits"

text \<open>
  \<open>push\<close>: the clock is read at \<open>t0\<close> for a new entry and at \<open>t1\<close> for the latency test. \<open>joined\<close> is
  the entry of both arms of the match, which then do the same.
\<close>

definition joined :: "PipeChunk \<Rightarrow> nat \<Rightarrow> PendingChunk option \<Rightarrow> PendingChunk" where
  "joined chunk t0 found =
     (case found of
        None \<Rightarrow> \<lparr>pd_node = pc_node chunk, pd_stream = pc_stream chunk, pd_bytes = pc_bytes chunk,
                 pd_line_count = count_complete_lines (pc_bytes chunk), pd_started = t0\<rparr>
      | Some e \<Rightarrow> e\<lparr>pd_bytes := pd_bytes e @ pc_bytes chunk,
                   pd_line_count := pd_line_count e + count_complete_lines (pc_bytes chunk)\<rparr>)"

definition push :: "PipeChunk \<Rightarrow> nat \<Rightarrow> nat \<Rightarrow> ChunkCoalescer \<Rightarrow> ChunkCoalescer \<times> PipeChunk list" where
  "push chunk t0 t1 c =
     (let key = (pc_node chunk, pc_stream chunk);
          pending = hm_remove key (co_pending c);
          entry = joined chunk t0 (map_of (co_pending c) key)
      in if should_flush entry (co_limits c) t1
         then (c\<lparr>co_pending := pending\<rparr>, [into_chunk entry])
         else (c\<lparr>co_pending := hm_insert key entry pending\<rparr>, []))"

text \<open>The second pass of \<open>flush_expired\<close> removes the keys one by one and keeps those it finds.\<close>

fun remove_keys ::
  "chunk_key list \<Rightarrow> (chunk_key, PendingChunk) hashmap \<Rightarrow> (chunk_key, PendingChunk) hashmap \<times> PipeChunk list" where
  "remove_keys [] pending = (pending, [])"
| "remove_keys (key # keys) pending =
     (case map_of pending key of
        None \<Rightarrow> remove_keys keys pending
      | Some e \<Rightarrow>
          (case remove_keys keys (hm_remove key pending) of
             (pending', chunks) \<Rightarrow> (pending', into_chunk e # chunks)))"

type_synonym pending_order =
  "(chunk_key, PendingChunk) hashmap \<Rightarrow> (chunk_key, PendingChunk) hashmap"

definition flush_expired :: "pending_order \<Rightarrow> nat \<Rightarrow> ChunkCoalescer \<Rightarrow> ChunkCoalescer \<times> PipeChunk list" where
  "flush_expired iter now c =
     (let expired = map fst (filter (\<lambda>(_, e). now - pd_started e \<ge> cl_max_latency (co_limits c))
            (iter (co_pending c)))
      in case remove_keys expired (co_pending c) of
           (pending, chunks) \<Rightarrow> (c\<lparr>co_pending := pending\<rparr>, chunks))"

definition flush_all :: "pending_order \<Rightarrow> ChunkCoalescer \<Rightarrow> ChunkCoalescer \<times> PipeChunk list" where
  "flush_all iter c = (c\<lparr>co_pending := []\<rparr>, map (\<lambda>(_, e). into_chunk e) (iter (co_pending c)))"

section \<open>What the coalescer promises\<close>

text \<open>
  The interface of a stream buffer: an operation is fed some bytes per stream and gives some out;
  what it gives out, followed by what it then holds, is what it held followed by what it was fed.
  \<open>run_ops\<close> runs a list of operations and collects what they give out.
\<close>

fun run_ops :: "('op \<Rightarrow> 's \<Rightarrow> 's \<times> 'c list) \<Rightarrow> 'op list \<Rightarrow> 's \<Rightarrow> 's \<times> 'c list" where
  "run_ops step [] s = (s, [])"
| "run_ops step (op # ops) s =
     (case step op s of (s1, out1) \<Rightarrow> (case run_ops step ops s1 of (s2, out2) \<Rightarrow> (s2, out1 @ out2)))"

locale stream_buffer =
  fixes step :: "'op \<Rightarrow> 's \<Rightarrow> 's \<times> 'c list"
    and valid :: "'op \<Rightarrow> bool"
    and inv :: "'s \<Rightarrow> bool"
    and held :: "'s \<Rightarrow> 'k \<Rightarrow> 'b list"
    and given :: "'c \<Rightarrow> 'k \<Rightarrow> 'b list"
    and fed :: "'op \<Rightarrow> 'k \<Rightarrow> 'b list"
  assumes step_inv: "inv s \<Longrightarrow> valid op \<Longrightarrow> inv (fst (step op s))"
    and step_bytes: "inv s \<Longrightarrow> valid op \<Longrightarrow>
      concat (map (\<lambda>c. given c k) (snd (step op s))) @ held (fst (step op s)) k = held s k @ fed op k"
begin

lemma run_inv: "inv s \<Longrightarrow> list_all valid ops \<Longrightarrow> inv (fst (run_ops step ops s))"
proof (induction ops arbitrary: s)
  case (Cons op ops)
  then have "inv (fst (step op s))" by (simp add: step_inv)
  then have "inv (fst (run_ops step ops (fst (step op s))))" using Cons by simp
  then show ?case by (simp add: case_prod_beta)
qed simp

lemma run_bytes:
  "inv s \<Longrightarrow> list_all valid ops \<Longrightarrow>
     concat (map (\<lambda>c. given c k) (snd (run_ops step ops s))) @ held (fst (run_ops step ops s)) k =
     held s k @ concat (map (\<lambda>op. fed op k) ops)"
proof (induction ops arbitrary: s)
  case (Cons op ops)
  obtain s1 out1 where s1: "step op s = (s1, out1)" by fastforce
  obtain s2 out2 where s2: "run_ops step ops s1 = (s2, out2)" by fastforce
  have "inv s1" using step_inv [of s op] Cons.prems s1 by simp
  with Cons.IH [of s1] Cons.prems s2
  have "concat (map (\<lambda>c. given c k) out2) @ held s2 k = held s1 k @ concat (map (\<lambda>op. fed op k) ops)" by simp
  moreover have "concat (map (\<lambda>c. given c k) out1) @ held s1 k = held s k @ fed op k"
    using step_bytes [of s op k] Cons.prems s1 by simp
  ultimately show ?case using s1 s2 by simp
qed simp

end

datatype coalesce_op =
    CoPush PipeChunk nat nat
  | CoExpire pending_order nat
  | CoFlush pending_order

fun coalesce_step :: "coalesce_op \<Rightarrow> ChunkCoalescer \<Rightarrow> ChunkCoalescer \<times> PipeChunk list" where
  "coalesce_step (CoPush chunk t0 t1) c = push chunk t0 t1 c"
| "coalesce_step (CoExpire iter now) c = flush_expired iter now c"
| "coalesce_step (CoFlush iter) c = flush_all iter c"

fun coalesce_valid :: "coalesce_op \<Rightarrow> bool" where
  "coalesce_valid (CoPush chunk t0 t1) = True"
| "coalesce_valid (CoExpire iter now) = hash_order iter"
| "coalesce_valid (CoFlush iter) = hash_order iter"

definition chunk_bytes :: "PipeChunk \<Rightarrow> chunk_key \<Rightarrow> 8 word list" where
  "chunk_bytes chunk k = (if (pc_node chunk, pc_stream chunk) = k then pc_bytes chunk else [])"

fun pushed_bytes :: "coalesce_op \<Rightarrow> chunk_key \<Rightarrow> 8 word list" where
  "pushed_bytes (CoPush chunk t0 t1) k = chunk_bytes chunk k"
| "pushed_bytes _ k = []"

definition held_bytes :: "ChunkCoalescer \<Rightarrow> chunk_key \<Rightarrow> 8 word list" where
  "held_bytes c k = (case map_of (co_pending c) k of None \<Rightarrow> [] | Some e \<Rightarrow> pd_bytes e)"

text \<open>Every held entry belongs to its key, counts its lines and is below both size limits.\<close>

definition entry_ok :: "CoalesceLimits \<Rightarrow> chunk_key \<Rightarrow> PendingChunk \<Rightarrow> bool" where
  "entry_ok limits k e \<longleftrightarrow> k = (pd_node e, pd_stream e) \<and>
     pd_line_count e = count_complete_lines (pd_bytes e) \<and>
     length (pd_bytes e) < cl_max_bytes limits \<and> pd_line_count e < cl_max_lines limits"

definition coalescer_inv :: "ChunkCoalescer \<Rightarrow> bool" where
  "coalescer_inv c \<longleftrightarrow> hm_wf (co_pending c) \<and>
     (\<forall>k e. map_of (co_pending c) k = Some e \<longrightarrow> entry_ok (co_limits c) k e)"

lemma count_complete_lines_append [simp]:
  "count_complete_lines (xs @ ys) = count_complete_lines xs + count_complete_lines ys"
  by (simp add: count_complete_lines_def)

lemma joined_ok:
  assumes "coalescer_inv c" and "key = (pc_node chunk, pc_stream chunk)"
    and "e = joined chunk t0 (map_of (co_pending c) key)"
  shows "pd_node e = pc_node chunk" "pd_stream e = pc_stream chunk"
    "pd_bytes e = held_bytes c key @ pc_bytes chunk" "pd_line_count e = count_complete_lines (pd_bytes e)"
  using assms by (auto simp: joined_def coalescer_inv_def entry_ok_def held_bytes_def split: option.splits)

lemma push_inv:
  assumes inv: "coalescer_inv c"
  shows "coalescer_inv (fst (push chunk t0 t1 c))"
proof -
  let ?key = "(pc_node chunk, pc_stream chunk)"
  let ?e = "joined chunk t0 (map_of (co_pending c) ?key)"
  have "entry_ok (co_limits c) ?key ?e" if "\<not> should_flush ?e (co_limits c) t1"
    using that joined_ok [OF inv refl refl] by (auto simp: entry_ok_def should_flush_def)
  with inv show ?thesis
    by (simp add: coalescer_inv_def push_def Let_def del: split_paired_All)
qed

lemma held_bytes_update:
  "held_bytes (c\<lparr>co_pending := hm_remove key (co_pending c)\<rparr>) k = (if k = key then [] else held_bytes c k)"
  "held_bytes (c\<lparr>co_pending := hm_insert key e (hm_remove key (co_pending c))\<rparr>) k =
     (if k = key then pd_bytes e else held_bytes c k)"
  by (simp_all add: held_bytes_def)

lemma push_bytes:
  assumes "coalescer_inv c"
  shows "concat (map (\<lambda>x. chunk_bytes x k) (snd (push chunk t0 t1 c))) @ held_bytes (fst (push chunk t0 t1 c)) k =
     held_bytes c k @ chunk_bytes chunk k"
proof -
  note j = joined_ok [OF assms refl refl, of chunk t0]
  show ?thesis
  proof (cases "k = (pc_node chunk, pc_stream chunk)")
    case True
    then show ?thesis by (simp add: push_def Let_def held_bytes_update j chunk_bytes_def into_chunk_def)
  next
    case False
    then show ?thesis by (auto simp: push_def Let_def held_bytes_update j chunk_bytes_def into_chunk_def)
  qed
qed

text \<open>Removing keys takes out exactly their entries.\<close>

lemma remove_keys_pending:
  "remove_keys keys pending = (pending', chunks) \<Longrightarrow>
     map_of pending' k = (if k \<in> set keys then None else map_of pending k) \<and> (hm_wf pending \<longrightarrow> hm_wf pending')"
proof (induction keys arbitrary: pending chunks)
  case (Cons key keys)
  show ?case
  proof (cases "map_of pending key")
    case None
    with Cons.IH [of pending] Cons.prems show ?thesis by auto
  next
    case (Some e)
    with Cons.prems obtain cs where "remove_keys keys (hm_remove key pending) = (pending', cs)"
      by (auto split: prod.splits)
    from Cons.IH [OF this] show ?thesis by auto
  qed
qed simp

lemma remove_keys_bytes:
  assumes "\<forall>k e. map_of pending k = Some e \<longrightarrow> k = (pd_node e, pd_stream e)"
    and "remove_keys keys pending = (pending', chunks)"
  shows "concat (map (\<lambda>x. chunk_bytes x k) chunks) =
     (if k \<in> set keys then (case map_of pending k of None \<Rightarrow> [] | Some e \<Rightarrow> pd_bytes e) else [])"
  using assms
proof (induction keys arbitrary: pending chunks)
  case (Cons key keys)
  show ?case
  proof (cases "map_of pending key")
    case None
    with Cons.IH [OF Cons.prems(1)] Cons.prems(2) show ?thesis by auto
  next
    case (Some e)
    with Cons.prems obtain cs where cs: "remove_keys keys (hm_remove key pending) = (pending', cs)"
      "chunks = into_chunk e # cs"
      by (auto split: prod.splits)
    have "concat (map (\<lambda>x. chunk_bytes x k) cs) =
        (if k \<in> set keys then (case map_of (hm_remove key pending) k of None \<Rightarrow> [] | Some e \<Rightarrow> pd_bytes e) else [])"
      using Cons.prems(1) by (intro Cons.IH [OF _ cs(1)]) auto
    moreover have "key = (pd_node e, pd_stream e)" using Cons.prems(1) Some by blast
    ultimately show ?thesis
      using Some cs(2) by (cases "k = key") (simp_all add: chunk_bytes_def into_chunk_def)
  qed
qed simp

lemma flush_expired_cases:
  obtains expired pending chunks where "remove_keys expired (co_pending c) = (pending, chunks)"
    "flush_expired iter now c = (c\<lparr>co_pending := pending\<rparr>, chunks)"
    "expired = map fst (filter (\<lambda>(_, e). now - pd_started e \<ge> cl_max_latency (co_limits c)) (iter (co_pending c)))"
  by (cases "remove_keys (map fst (filter (\<lambda>(_, e). now - pd_started e \<ge> cl_max_latency (co_limits c))
        (iter (co_pending c)))) (co_pending c)") (auto simp: flush_expired_def Let_def)

lemma flush_expired_inv: "coalescer_inv c \<Longrightarrow> coalescer_inv (fst (flush_expired iter now c))"
proof (cases rule: flush_expired_cases [of c iter now])
  case (1 expired pending chunks)
  assume "coalescer_inv c"
  with remove_keys_pending [OF 1(1)] 1(2) show ?thesis by (auto simp: coalescer_inv_def)
qed

lemma flush_expired_bytes:
  assumes "coalescer_inv c"
  shows "concat (map (\<lambda>x. chunk_bytes x k) (snd (flush_expired iter now c))) @
      held_bytes (fst (flush_expired iter now c)) k = held_bytes c k"
proof (cases rule: flush_expired_cases [of c iter now])
  case (1 expired pending chunks)
  have "\<forall>k e. map_of (co_pending c) k = Some e \<longrightarrow> k = (pd_node e, pd_stream e)"
    using assms by (simp add: coalescer_inv_def entry_ok_def)
  from remove_keys_bytes [OF this 1(1)] remove_keys_pending [OF 1(1)] 1(2)
  show ?thesis by (simp add: held_bytes_def)
qed

lemma flush_all_bytes:
  assumes inv: "coalescer_inv c" and iter: "hash_order iter"
  shows "concat (map (\<lambda>x. chunk_bytes x k) (snd (flush_all iter c))) = held_bytes c k"
proof -
  have "concat (map (\<lambda>x. chunk_bytes x k) (map (\<lambda>(_, e). into_chunk e) m)) =
      (case map_of m k of None \<Rightarrow> [] | Some e \<Rightarrow> pd_bytes e)"
    if "hm_wf m" "\<forall>k e. map_of m k = Some e \<longrightarrow> k = (pd_node e, pd_stream e)" for m
    using that
  proof (induction m)
    case (Cons p m)
    obtain k' e where p: "p = (k', e)" by fastforce
    have wf: "hm_wf m" "map_of m k' = None"
      using Cons.prems(1) p by (auto simp: hm_wf_def map_of_eq_None_iff)
    then have "\<forall>k e. map_of m k = Some e \<longrightarrow> k = (pd_node e, pd_stream e)"
      using Cons.prems(2) p by (metis map_of_Cons_code(2) option.distinct(1))
    moreover have "k' = (pd_node e, pd_stream e)" using Cons.prems(2) [rule_format, of k' e] p by simp
    ultimately show ?case using Cons.IH [OF wf(1)] wf(2) p by (simp add: chunk_bytes_def into_chunk_def)
  qed simp
  moreover have "hm_wf (iter (co_pending c))" "map_of (iter (co_pending c)) = map_of (co_pending c)"
    using hash_order_map_of [OF iter] inv by (auto simp: coalescer_inv_def)
  ultimately show ?thesis
    using inv by (simp add: flush_all_def held_bytes_def coalescer_inv_def entry_ok_def)
qed

lemma flush_all_inv: "coalescer_inv (fst (flush_all iter c))"
  by (simp add: flush_all_def coalescer_inv_def)

interpretation coalescer: stream_buffer coalesce_step coalesce_valid coalescer_inv held_bytes chunk_bytes pushed_bytes
proof unfold_locales
  show "coalescer_inv c \<Longrightarrow> coalesce_valid op \<Longrightarrow> coalescer_inv (fst (coalesce_step op c))" for op c
    by (cases op) (simp_all add: push_inv flush_expired_inv flush_all_inv)
  show "coalescer_inv c \<Longrightarrow> coalesce_valid op \<Longrightarrow>
      concat (map (\<lambda>x. chunk_bytes x k) (snd (coalesce_step op c))) @ held_bytes (fst (coalesce_step op c)) k =
      held_bytes c k @ pushed_bytes op k" for op c k
  proof (cases op)
    case (CoPush chunk t0 t1)
    assume "coalescer_inv c"
    with CoPush show ?thesis by (simp add: push_bytes)
  next
    case (CoExpire iter now)
    assume "coalescer_inv c"
    with CoExpire show ?thesis by (simp add: flush_expired_bytes)
  next
    case (CoFlush iter)
    assume "coalescer_inv c" "coalesce_valid op"
    moreover have "held_bytes (fst (flush_all iter c)) k = []" by (simp add: flush_all_def held_bytes_def)
    ultimately show ?thesis using CoFlush by (simp add: flush_all_bytes)
  qed
qed

section \<open>Correctness\<close>

lemma coalescer_inv_new [simp]: "coalescer_inv (ChunkCoalescer_new limits)"
  by (simp add: ChunkCoalescer_new_def coalescer_inv_def)

lemma held_bytes_new [simp]: "held_bytes (ChunkCoalescer_new limits) k = []"
  by (simp add: ChunkCoalescer_new_def held_bytes_def)

lemma coalesce_step_limits: "co_limits (fst (coalesce_step op c)) = co_limits c"
  by (cases op) (auto simp: push_def flush_expired_def flush_all_def Let_def split: prod.splits)

lemma run_limits: "co_limits (fst (run_ops coalesce_step ops c)) = co_limits c"
  by (induction ops arbitrary: c) (simp_all add: case_prod_beta coalesce_step_limits)

text \<open>
  C34: The coalescer implements one byte channel per node and stream. For every sequence of pushes
  and flushes, in whatever order the hash map iterates, the bytes given out for a stream followed
  by the bytes still held for it are the bytes pushed for it, in order; a final \<open>flush_all\<close> gives
  out the rest and leaves nothing held.
\<close>

theorem coalescer_preserves_streams:
  assumes "list_all coalesce_valid ops" and "hash_order iter"
    and "run_ops coalesce_step ops (ChunkCoalescer_new limits) = (c, out)"
    and "flush_all iter c = (c', rest)"
  shows "concat (map (\<lambda>x. chunk_bytes x k) out) @ held_bytes c k = concat (map (\<lambda>op. pushed_bytes op k) ops) \<and>
    concat (map (\<lambda>x. chunk_bytes x k) (out @ rest)) = concat (map (\<lambda>op. pushed_bytes op k) ops) \<and>
    co_pending c' = []"
proof -
  have inv: "coalescer_inv c"
    using coalescer.run_inv [of "ChunkCoalescer_new limits" ops] assms(1,3) by simp
  have "concat (map (\<lambda>x. chunk_bytes x k) out) @ held_bytes c k = concat (map (\<lambda>op. pushed_bytes op k) ops)"
    using coalescer.run_bytes [of "ChunkCoalescer_new limits" ops k] assms(1,3) by simp
  moreover have "concat (map (\<lambda>x. chunk_bytes x k) rest) = held_bytes c k"
    using flush_all_bytes [OF inv assms(2), of k] assms(4) by simp
  moreover have "co_pending c' = []" using assms(4) by (auto simp: flush_all_def)
  ultimately show ?thesis by simp
qed

text \<open>
  C35: Bounds of the coalescer. After every sequence of operations each held buffer is below the
  byte limit and the line limit and its line count is at most its length; a push gives out at most
  one chunk, longer than what was pushed by less than the byte limit; and after \<open>flush_expired\<close> no
  held buffer is as old as the latency limit.
\<close>

theorem coalescer_bounds:
  assumes "list_all coalesce_valid ops" and "hash_order iter"
    and "c = fst (run_ops coalesce_step ops (ChunkCoalescer_new limits))"
  shows "(\<forall>k e. map_of (co_pending c) k = Some e \<longrightarrow>
        length (pd_bytes e) < cl_max_bytes limits \<and> pd_line_count e < cl_max_lines limits \<and>
        pd_line_count e \<le> length (pd_bytes e)) \<and>
    length (snd (push chunk t0 t1 c)) \<le> 1 \<and>
    (\<forall>x \<in> set (snd (push chunk t0 t1 c)).
        length (pc_bytes x) \<le> length (pc_bytes chunk) + (cl_max_bytes limits - 1)) \<and>
    (\<forall>k e. map_of (co_pending (fst (flush_expired iter now c))) k = Some e \<longrightarrow>
        now - pd_started e < cl_max_latency limits)"
proof -
  have inv: "coalescer_inv c"
    using coalescer.run_inv [of "ChunkCoalescer_new limits" ops] assms(1,3) by simp
  have lim: "co_limits c = limits" using assms(3) by (simp add: run_limits ChunkCoalescer_new_def)
  have held: "entry_ok limits k e" if "map_of (co_pending c) k = Some e" for k e
    using that inv lim by (simp add: coalescer_inv_def del: split_paired_All)
  have lines: "count_complete_lines bs \<le> length bs" for bs by (simp add: count_complete_lines_def)
  let ?key = "(pc_node chunk, pc_stream chunk)"
  have "length (held_bytes c ?key) \<le> cl_max_bytes limits - 1"
    using held [of ?key] by (fastforce simp: held_bytes_def entry_ok_def split: option.splits)
  then have p: "\<forall>x \<in> set (snd (push chunk t0 t1 c)).
      length (pc_bytes x) \<le> length (pc_bytes chunk) + (cl_max_bytes limits - 1)"
    by (auto simp: push_def Let_def into_chunk_def joined_ok [OF inv refl refl])
  have "now - pd_started e < cl_max_latency limits"
    if e: "map_of (co_pending (fst (flush_expired iter now c))) k = Some e" for k e
  proof (cases rule: flush_expired_cases [of c iter now])
    case (1 expired pending chunks)
    from e 1(2) remove_keys_pending [OF 1(1), of k]
    have k: "k \<notin> set expired" "map_of (co_pending c) k = Some e" by (auto split: if_splits)
    have "hm_wf (co_pending c)" using inv by (simp add: coalescer_inv_def)
    with k(2) have "(k, e) \<in> set (iter (co_pending c))"
      by (simp add: hash_order_set [OF assms(2)] map_of_SomeD)
    with k(1) 1(3) lim show ?thesis by force
  qed
  moreover have "length (snd (push chunk t0 t1 c)) \<le> 1" by (simp add: push_def Let_def)
  moreover have "\<forall>k e. map_of (co_pending c) k = Some e \<longrightarrow>
        length (pd_bytes e) < cl_max_bytes limits \<and> pd_line_count e < cl_max_lines limits \<and>
        pd_line_count e \<le> length (pd_bytes e)"
    using held lines by (metis entry_ok_def)
  ultimately show ?thesis using p by blast
qed

definition tiny_limits :: CoalesceLimits where
  "tiny_limits = \<lparr>cl_max_bytes = 4, cl_max_lines = 2, cl_max_latency = 100\<rparr>"

definition out_chunk :: "8 word list \<Rightarrow> PipeChunk" where
  "out_chunk bs = \<lparr>pc_node = 1, pc_stream = PipeStdout, pc_bytes = bs\<rparr>"

definition demo_ops :: "coalesce_op list" where
  "demo_ops = [CoPush (out_chunk [1, 2]) 0 0, CoPush (out_chunk [3, 4]) 5 5, CoPush (out_chunk [7]) 9 9, CoExpire rev 50]"

lemma demo_ops_valid: "list_all coalesce_valid demo_ops" "hash_order rev"
  by (simp_all add: demo_ops_def hash_order_def)

lemma demo_ops_run:
  "run_ops coalesce_step demo_ops (ChunkCoalescer_new tiny_limits) =
     (\<lparr>co_limits = tiny_limits, co_pending = [((1, PipeStdout),
        \<lparr>pd_node = 1, pd_stream = PipeStdout, pd_bytes = [7], pd_line_count = 0, pd_started = 9\<rparr>)]\<rparr>,
      [out_chunk [1, 2, 3, 4]])"
  by (simp add: demo_ops_def ChunkCoalescer_new_def tiny_limits_def push_def flush_expired_def joined_def
      should_flush_def into_chunk_def out_chunk_def count_complete_lines_def hm_insert_def hm_remove_def)

theorem coalescer_preserves_streams_witness:
  "concat (map (\<lambda>x. chunk_bytes x (1, PipeStdout)) ([out_chunk [1, 2, 3, 4]] @ [out_chunk [7]])) = [1, 2, 3, 4, 7]"
proof -
  have "concat (map (\<lambda>op. pushed_bytes op (1, PipeStdout)) demo_ops) = [1, 2, 3, 4, 7]"
    by (simp add: demo_ops_def chunk_bytes_def out_chunk_def)
  moreover have "snd (flush_all rev (fst (run_ops coalesce_step demo_ops (ChunkCoalescer_new tiny_limits)))) = [out_chunk [7]]"
    by (simp add: demo_ops_run flush_all_def into_chunk_def out_chunk_def)
  ultimately show ?thesis
    using coalescer_preserves_streams [OF demo_ops_valid, where k = "(1, PipeStdout)" and limits = tiny_limits]
      demo_ops_run by (metis fst_conv prod.collapse)
qed

theorem coalescer_bounds_witness:
  "length (snd (push (out_chunk [8, 9, 10]) 60 60 (fst (run_ops coalesce_step demo_ops (ChunkCoalescer_new tiny_limits))))) \<le> 1 \<and>
   cl_max_bytes tiny_limits = 4"
  using coalescer_bounds [OF demo_ops_valid refl, where limits = tiny_limits and chunk = "out_chunk [8, 9, 10]" and
      ?t0.0 = 60 and ?t1.0 = 60 and now = 70] by (simp add: tiny_limits_def)

end
