(* ===== verification/Worker_Schedule.thy ===== *)
theory Worker_Schedule
  imports Rust_Strings
begin

text \<open>
  The local worker registry (\<open>crates/nxr-core/src/worker_schedule.rs\<close>): registration, selection by
  tags and capacity, and reservations that expire. Times are \<open>u64\<close> seconds and the sum of a time
  and a duration saturates. An operation that changes the registry returns it next to its result,
  also when it fails: expired reservations are pruned before a reservation is refused.
\<close>

section \<open>The registry\<close>

record WorkerDescriptor =
  wd_id :: string
  wd_tags :: "string list"
  wd_cpu :: u32
  wd_memory_mib :: u64

record WorkerRequirements =
  wr_tags :: "string list"
  wr_cpu :: u32
  wr_memory_mib :: u64

record WorkerReservation =
  expires_at :: u64

record LocalWorkerRegistry =
  lw_workers :: "WorkerDescriptor list"
  lw_reservations :: "(string, WorkerReservation) btmap"

definition LocalWorkerRegistry_default :: LocalWorkerRegistry where
  "LocalWorkerRegistry_default = \<lparr>lw_workers = [], lw_reservations = []\<rparr>"

definition reservation_active :: "LocalWorkerRegistry \<Rightarrow> string \<Rightarrow> u64 \<Rightarrow> bool" where
  "reservation_active reg worker_id now =
     (case map_of (lw_reservations reg) worker_id of
        None \<Rightarrow> False | Some reservation \<Rightarrow> expires_at reservation > now)"

definition worker_satisfies :: "WorkerDescriptor \<Rightarrow> WorkerRequirements \<Rightarrow> bool" where
  "worker_satisfies worker req \<longleftrightarrow>
     list_all (\<lambda>tag. list_ex (\<lambda>t. t = tag) (wd_tags worker)) (wr_tags req) \<and>
     wd_cpu worker \<ge> wr_cpu req \<and> wd_memory_mib worker \<ge> wr_memory_mib req"

definition prune_expired :: "u64 \<Rightarrow> LocalWorkerRegistry \<Rightarrow> LocalWorkerRegistry" where
  "prune_expired now reg =
     reg\<lparr>lw_reservations := filter (\<lambda>(_, reservation). expires_at reservation > now) (lw_reservations reg)\<rparr>"

definition release_worker :: "string \<Rightarrow> LocalWorkerRegistry \<Rightarrow> LocalWorkerRegistry" where
  "release_worker worker_id reg = reg\<lparr>lw_reservations := bt_remove worker_id (lw_reservations reg)\<rparr>"

fun replace_worker :: "WorkerDescriptor \<Rightarrow> WorkerDescriptor list \<Rightarrow> WorkerDescriptor list option" where
  "replace_worker worker [] = None"
| "replace_worker worker (entry # entries) =
     (if wd_id entry = wd_id worker then Some (worker # entries)
      else map_option (\<lambda>ws. entry # ws) (replace_worker worker entries))"

definition register_worker ::
  "WorkerDescriptor \<Rightarrow> LocalWorkerRegistry \<Rightarrow> (string, unit) outcome \<times> LocalWorkerRegistry" where
  "register_worker worker reg =
     (if trim (wd_id worker) = [] then (Err ''worker id must not be empty'', reg)
      else (Ok (),
        reg\<lparr>lw_workers := (case replace_worker worker (lw_workers reg) of
               Some ws \<Rightarrow> ws | None \<Rightarrow> lw_workers reg @ [worker])\<rparr>))"

text \<open>\<open>eligible\<close> is the predicate of both searches; \<open>select_worker\<close> reads the clock at \<open>now\<close>.\<close>

definition eligible :: "LocalWorkerRegistry \<Rightarrow> WorkerRequirements \<Rightarrow> u64 \<Rightarrow> WorkerDescriptor \<Rightarrow> bool" where
  "eligible reg req now worker \<longleftrightarrow> \<not> reservation_active reg (wd_id worker) now \<and> worker_satisfies worker req"

definition select_worker :: "LocalWorkerRegistry \<Rightarrow> WorkerRequirements \<Rightarrow> u64 \<Rightarrow> WorkerDescriptor option" where
  "select_worker reg req now = find (eligible reg req now) (lw_workers reg)"

definition reserve_worker ::
  "string \<Rightarrow> u64 \<Rightarrow> u64 \<Rightarrow> LocalWorkerRegistry \<Rightarrow> (string, unit) outcome \<times> LocalWorkerRegistry" where
  "reserve_worker worker_id now ttl_secs reg0 =
     (let reg = prune_expired now reg0 in
      if \<not> list_ex (\<lambda>worker. wd_id worker = worker_id) (lw_workers reg)
      then (Err (''unknown worker `'' @ worker_id @ ''`''), reg)
      else if reservation_active reg worker_id now
      then (Err (''worker `'' @ worker_id @ ''` is already reserved''), reg)
      else (Ok (), reg\<lparr>lw_reservations :=
              bt_insert worker_id \<lparr>expires_at = saturating_add now ttl_secs\<rparr> (lw_reservations reg)\<rparr>))"

definition select_and_reserve ::
  "WorkerRequirements \<Rightarrow> u64 \<Rightarrow> u64 \<Rightarrow> LocalWorkerRegistry \<Rightarrow>
     (string, WorkerDescriptor option) outcome \<times> LocalWorkerRegistry" where
  "select_and_reserve req now ttl_secs reg0 =
     (let reg = prune_expired now reg0 in
      case map_option wd_id (find (eligible reg req now) (lw_workers reg)) of
        None \<Rightarrow> (Ok None, reg)
      | Some worker_id \<Rightarrow>
          (case reserve_worker worker_id now ttl_secs reg of
             (Ok _, reg') \<Rightarrow> (Ok (find (\<lambda>worker. wd_id worker = worker_id) (lw_workers reg')), reg')
           | (Err e, reg') \<Rightarrow> (Err e, reg')
           | (Panic, reg') \<Rightarrow> (Panic, reg')))"

section \<open>Well-formed registries\<close>

definition registry_wf :: "LocalWorkerRegistry \<Rightarrow> bool" where
  "registry_wf reg \<longleftrightarrow> distinct (map wd_id (lw_workers reg)) \<and>
     list_all (\<lambda>w. trim (wd_id w) \<noteq> []) (lw_workers reg) \<and> bt_wf (lw_reservations reg)"

lemma replace_worker_None: "replace_worker w ws = None \<longleftrightarrow> wd_id w \<notin> wd_id ` set ws"
  by (induction ws) auto

lemma replace_worker_Some:
  "replace_worker w ws = Some ws' \<Longrightarrow>
     map wd_id ws' = map wd_id ws \<and> set ws' \<subseteq> insert w (set ws) \<and> w \<in> set ws'"
  by (induction ws arbitrary: ws') (auto split: if_splits)

lemma prune_expired_simps [simp]:
  "lw_workers (prune_expired now reg) = lw_workers reg"
  "registry_wf reg \<Longrightarrow> registry_wf (prune_expired now reg)"
  by (auto simp: prune_expired_def registry_wf_def bt_wf_map_filter)

lemma map_of_prune:
  assumes "bt_wf (lw_reservations reg)"
  shows "map_of (lw_reservations (prune_expired now reg)) w =
     (case map_of (lw_reservations reg) w of
        None \<Rightarrow> None | Some r \<Rightarrow> if expires_at r > now then Some r else None)"
proof -
  have "map_of (filter (\<lambda>(_, r). expires_at r > now) m) w =
      (case map_of m w of None \<Rightarrow> None | Some r \<Rightarrow> if expires_at r > now then Some r else None)"
    if "distinct (map fst m)" for m
    using that by (induction m) (auto simp: map_of_eq_None_iff split: option.splits)
  then show ?thesis using bt_wf_distinct [OF assms] by (simp add: prune_expired_def)
qed

lemma active_prune [simp]:
  "bt_wf (lw_reservations reg) \<Longrightarrow> now' \<ge> now \<Longrightarrow>
     reservation_active (prune_expired now reg) w now' \<longleftrightarrow> reservation_active reg w now'"
  by (auto simp: reservation_active_def map_of_prune split: option.splits)

lemma prune_prune [simp]: "prune_expired now (prune_expired now reg) = prune_expired now reg"
  by (simp add: prune_expired_def)

lemma registry_wf_default: "registry_wf LocalWorkerRegistry_default"
  by (simp add: registry_wf_def LocalWorkerRegistry_default_def)

lemma registry_wf_register: "registry_wf reg \<Longrightarrow> registry_wf (snd (register_worker w reg))"
proof (cases "replace_worker w (lw_workers reg)")
  case None
  assume "registry_wf reg"
  moreover have "wd_id w \<notin> wd_id ` set (lw_workers reg)" using None replace_worker_None by blast
  ultimately show ?thesis using None by (auto simp: register_worker_def registry_wf_def)
next
  case (Some ws)
  assume "registry_wf reg"
  moreover note replace_worker_Some [OF Some]
  ultimately show ?thesis
    using Some by (auto simp: register_worker_def registry_wf_def list_all_iff)
qed

lemma registry_wf_reserve: "registry_wf reg \<Longrightarrow> registry_wf (snd (reserve_worker w now ttl reg))"
  by (auto simp: reserve_worker_def Let_def registry_wf_def prune_expired_def bt_wf_map_filter)

lemma registry_wf_release: "registry_wf reg \<Longrightarrow> registry_wf (release_worker w reg)"
  by (simp add: release_worker_def registry_wf_def)

section \<open>Selection\<close>

lemma find_id:
  assumes "distinct (map wd_id ws)" and "w \<in> set ws"
  shows "find (\<lambda>x. wd_id x = wd_id w) ws = Some w"
  using assms by (induction ws) auto

lemma select_and_reserve_eq:
  assumes wf: "registry_wf reg"
  shows "select_and_reserve req now ttl reg =
    (case find (eligible reg req now) (lw_workers reg) of
       None \<Rightarrow> (Ok None, prune_expired now reg)
     | Some w \<Rightarrow> (Ok (Some w), (prune_expired now reg)\<lparr>lw_reservations :=
           bt_insert (wd_id w) \<lparr>expires_at = saturating_add now ttl\<rparr> (lw_reservations (prune_expired now reg))\<rparr>))"
proof -
  let ?p = "prune_expired now reg"
  have bt: "bt_wf (lw_reservations reg)" using wf by (simp add: registry_wf_def)
  have el: "eligible ?p req now = eligible reg req now"
    using bt by (auto simp: eligible_def fun_eq_iff)
  show ?thesis
  proof (cases "find (eligible reg req now) (lw_workers reg)")
    case None
    then show ?thesis by (simp add: select_and_reserve_def Let_def el)
  next
    case (Some w)
    then have w: "w \<in> set (lw_workers reg)" "\<not> reservation_active reg (wd_id w) now"
      using find_SomeD [OF Some] by (auto simp: eligible_def)
    have "find (\<lambda>x. wd_id x = wd_id w) (lw_workers reg) = Some w"
      using wf w(1) by (intro find_id) (simp_all add: registry_wf_def)
    moreover have "\<not> reservation_active ?p (wd_id w) now" using w(2) bt by simp
    ultimately show ?thesis
      using Some w(1) by (auto simp: select_and_reserve_def Let_def el reserve_worker_def list_ex_iff)
  qed
qed

text \<open>
  \<open>select_and_reserve\<close> never fails on a well-formed registry. It picks the first registered
  worker that satisfies the requirements and has no reservation in force, and returns that worker
  with a reservation until the saturated sum of the time and the duration; it picks none exactly
  when every worker that satisfies the requirements is reserved. Other reservations in force stay,
  expired ones are dropped, the workers are unchanged and the registry stays well formed.
\<close>

lemma select_and_reserve_correct:
  assumes wf: "registry_wf reg" and r: "select_and_reserve req now ttl reg = (r, reg')"
  shows "r = Ok (select_worker reg req now) \<and>
    (case select_worker reg req now of
       None \<Rightarrow> list_all (\<lambda>w. worker_satisfies w req \<longrightarrow> reservation_active reg (wd_id w) now) (lw_workers reg)
     | Some w \<Rightarrow> w \<in> set (lw_workers reg) \<and> worker_satisfies w req \<and> \<not> reservation_active reg (wd_id w) now \<and>
         map_of (lw_reservations reg') (wd_id w) = Some \<lparr>expires_at = saturating_add now ttl\<rparr>) \<and>
    (\<forall>x. Some x \<noteq> map_option wd_id (select_worker reg req now) \<longrightarrow>
       map_of (lw_reservations reg') x =
         (if reservation_active reg x now then map_of (lw_reservations reg) x else None)) \<and>
    lw_workers reg' = lw_workers reg \<and> registry_wf reg'"
proof -
  note eq = select_and_reserve_eq [OF wf, of req now ttl]
  have bt: "bt_wf (lw_reservations reg)" using wf by (simp add: registry_wf_def)
  have pr: "map_of (lw_reservations (prune_expired now reg)) x =
      (if reservation_active reg x now then map_of (lw_reservations reg) x else None)" for x
    by (auto simp: map_of_prune [OF bt] reservation_active_def split: option.splits)
  have wf': "registry_wf reg'"
    using r eq prune_expired_simps(2) [OF wf, of now] by (auto simp: registry_wf_def split: option.splits)
  show ?thesis
  proof (cases "select_worker reg req now")
    case None
    then have "list_all (\<lambda>w. worker_satisfies w req \<longrightarrow> reservation_active reg (wd_id w) now) (lw_workers reg)"
      by (auto simp: select_worker_def find_None_iff eligible_def list_all_iff)
    with None eq r wf' pr show ?thesis by (auto simp: select_worker_def)
  next
    case (Some w)
    then have "w \<in> set (lw_workers reg) \<and> worker_satisfies w req \<and> \<not> reservation_active reg (wd_id w) now"
      using find_SomeD by (fastforce simp: select_worker_def eligible_def)
    with Some eq r wf' pr show ?thesis by (auto simp: select_worker_def)
  qed
qed

section \<open>Leases\<close>

text \<open>
  Sequences of operations on the registry: \<open>granted\<close> is the worker an operation reserves, and
  \<open>before e w\<close> says that an operation happens before the time \<open>e\<close> and does not release \<open>w\<close>.
\<close>

datatype registry_op =
    OpRegister WorkerDescriptor
  | OpReserve string u64 u64
  | OpSelectAndReserve WorkerRequirements u64 u64
  | OpRelease string

fun registry_step :: "registry_op \<Rightarrow> LocalWorkerRegistry \<Rightarrow> LocalWorkerRegistry" where
  "registry_step (OpRegister w) reg = snd (register_worker w reg)"
| "registry_step (OpReserve w now ttl) reg = snd (reserve_worker w now ttl reg)"
| "registry_step (OpSelectAndReserve req now ttl) reg = snd (select_and_reserve req now ttl reg)"
| "registry_step (OpRelease w) reg = release_worker w reg"

fun granted :: "registry_op \<Rightarrow> LocalWorkerRegistry \<Rightarrow> string option" where
  "granted (OpReserve w now ttl) reg = (if fst (reserve_worker w now ttl reg) = Ok () then Some w else None)"
| "granted (OpSelectAndReserve req now ttl) reg =
     (case fst (select_and_reserve req now ttl reg) of Ok found \<Rightarrow> map_option wd_id found | _ \<Rightarrow> None)"
| "granted _ reg = None"

fun grants :: "registry_op list \<Rightarrow> LocalWorkerRegistry \<Rightarrow> string option list" where
  "grants [] reg = []"
| "grants (op # ops) reg = granted op reg # grants ops (registry_step op reg)"

fun lease_end :: "registry_op \<Rightarrow> u64" where
  "lease_end (OpReserve w now ttl) = saturating_add now ttl"
| "lease_end (OpSelectAndReserve req now ttl) = saturating_add now ttl"
| "lease_end _ = 0"

fun before :: "u64 \<Rightarrow> string \<Rightarrow> registry_op \<Rightarrow> bool" where
  "before e w (OpRegister _) = True"
| "before e w (OpReserve _ now _) = (now < e)"
| "before e w (OpSelectAndReserve _ now _) = (now < e)"
| "before e w (OpRelease w') = (w' \<noteq> w)"

definition leased :: "LocalWorkerRegistry \<Rightarrow> string \<Rightarrow> u64 \<Rightarrow> bool" where
  "leased reg w e \<longleftrightarrow> map_of (lw_reservations reg) w = Some \<lparr>expires_at = e\<rparr>"

lemma registry_wf_step: "registry_wf reg \<Longrightarrow> registry_wf (registry_step op reg)"
proof (cases op)
  case (OpSelectAndReserve req now ttl)
  assume "registry_wf reg"
  with OpSelectAndReserve prune_expired_simps(2) [of reg now] show ?thesis
    by (auto simp: select_and_reserve_eq registry_wf_def split: option.splits)
qed (auto simp: registry_wf_register registry_wf_reserve registry_wf_release)

lemma granted_leased:
  assumes wf: "registry_wf reg" and g: "granted op reg = Some w"
  shows "leased (registry_step op reg) w (lease_end op)"
proof (cases op)
  case (OpReserve w' now ttl)
  with g show ?thesis by (auto simp: reserve_worker_def Let_def leased_def split: if_splits)
next
  case (OpSelectAndReserve req now ttl)
  with g show ?thesis by (auto simp: select_and_reserve_eq [OF wf] leased_def split: option.splits)
qed (use g in auto)

lemma leased_step:
  assumes wf: "registry_wf reg" and l: "leased reg w e" and b: "before e w op"
  shows "granted op reg \<noteq> Some w \<and> leased (registry_step op reg) w e"
proof -
  have bt: "bt_wf (lw_reservations reg)" using wf by (simp add: registry_wf_def)
  have act: "reservation_active reg w now" "map_of (lw_reservations (prune_expired now reg)) w = Some \<lparr>expires_at = e\<rparr>"
    if "now < e" for now
    using that l by (simp_all add: leased_def reservation_active_def map_of_prune [OF bt])
  show ?thesis
  proof (cases op)
    case (OpRegister w')
    with l show ?thesis by (simp add: register_worker_def leased_def)
  next
    case (OpReserve w' now ttl)
    with b act [of now] bt show ?thesis
      by (auto simp: reserve_worker_def Let_def leased_def reservation_active_def split: if_splits)
  next
    case (OpSelectAndReserve req now ttl)
    have "wd_id x \<noteq> w" if "find (eligible reg req now) (lw_workers reg) = Some x" for x
      using find_SomeD [OF that] act [of now] b OpSelectAndReserve by (auto simp: eligible_def)
    with OpSelectAndReserve b act [of now] show ?thesis
      by (auto simp: select_and_reserve_eq [OF wf] leased_def split: option.splits)
  next
    case (OpRelease w')
    with b l show ?thesis by (auto simp: release_worker_def leased_def)
  qed
qed

text \<open>
  C38: A reservation is exclusive. Once an operation has reserved a worker, no operation in any
  sequence that happens before the reservation ends, and does not release the worker, reserves it
  again, and the reservation is still recorded at the end of the sequence.
\<close>

theorem lease_exclusive:
  assumes wf: "registry_wf reg" and g: "granted op reg = Some w"
    and ops: "list_all (before (lease_end op) w) ops"
  shows "Some w \<notin> set (grants ops (registry_step op reg)) \<and>
    leased (fold registry_step ops (registry_step op reg)) w (lease_end op)"
proof -
  have "Some w \<notin> set (grants ops reg) \<and> leased (fold registry_step ops reg) w e"
    if "registry_wf reg" "leased reg w e" "list_all (before e w) ops" for reg ops e
    using that
  proof (induction ops arbitrary: reg)
    case (Cons op ops)
    then show ?case using leased_step [of reg w e op] registry_wf_step [of reg op] by auto
  qed simp
  with granted_leased [OF wf g] registry_wf_step [OF wf] ops show ?thesis by blast
qed

section \<open>Examples\<close>

definition demo_registry :: LocalWorkerRegistry where
  "demo_registry = \<lparr>lw_workers = [\<lparr>wd_id = ''a'', wd_tags = [''linux''], wd_cpu = 4, wd_memory_mib = 8\<rparr>,
      \<lparr>wd_id = ''b'', wd_tags = [''linux''], wd_cpu = 2, wd_memory_mib = 8\<rparr>], lw_reservations = []\<rparr>"

definition demo_requirements :: WorkerRequirements where
  "demo_requirements = \<lparr>wr_tags = [''linux''], wr_cpu = 1, wr_memory_mib = 1\<rparr>"

lemma demo_registry_wf: "registry_wf demo_registry"
proof -
  have "trim ''a'' \<noteq> []" "trim ''b'' \<noteq> []" by code_simp+
  then show ?thesis by (simp add: registry_wf_def demo_registry_def)
qed

lemma demo_selects:
  "select_and_reserve demo_requirements 10 5 demo_registry =
     (Ok (Some (hd (lw_workers demo_registry))), demo_registry\<lparr>lw_reservations := [(''a'', \<lparr>expires_at = saturating_add 10 5\<rparr>)]\<rparr>)"
  unfolding select_and_reserve_eq [OF demo_registry_wf]
  by (simp add: demo_registry_def demo_requirements_def eligible_def reservation_active_def
      worker_satisfies_def prune_expired_def)

lemma select_and_reserve_correct_example:
  "map_of (lw_reservations (snd (select_and_reserve demo_requirements 10 5 demo_registry))) ''b'' = None"
proof -
  have "select_worker demo_registry demo_requirements 10 = Some (hd (lw_workers demo_registry))"
    "\<not> reservation_active demo_registry ''b'' 10"
    by (simp_all add: select_worker_def demo_registry_def demo_requirements_def eligible_def
        reservation_active_def worker_satisfies_def)
  then show ?thesis
    using select_and_reserve_correct [OF demo_registry_wf demo_selects] demo_selects
    by (simp add: demo_registry_def)
qed

theorem lease_exclusive_witness:
  "Some ''a'' \<notin> set (grants [OpReserve ''a'' 12 5, OpSelectAndReserve demo_requirements 14 5]
     (registry_step (OpSelectAndReserve demo_requirements 10 5) demo_registry))"
proof -
  have g: "granted (OpSelectAndReserve demo_requirements 10 5) demo_registry = Some ''a''"
    by (simp add: demo_selects) (simp add: demo_registry_def)
  have "saturating_add 10 5 = (15 :: u64)" by (simp add: saturating_add_def)
  then have "list_all (before (lease_end (OpSelectAndReserve demo_requirements 10 5)) ''a'')
      [OpReserve ''a'' 12 5, OpSelectAndReserve demo_requirements 14 5]" by simp
  then show ?thesis using lease_exclusive [OF demo_registry_wf g] by blast
qed

end
