(* ===== verification/Task_Select.thy ===== *)
theory Task_Select
  imports Task_Schema "HOL-Library.Product_Lexorder" "HOL-Library.Multiset"
begin

text \<open>
  Names on the command line: resolution of task names and aliases with suggestions
  (\<open>crates/nxr-task/src/resolve.rs\<close>), selectors (\<open>selectors.rs\<close>) and the namespaces of the optional
  projects document (\<open>crates/nxr-core/src/projects.rs\<close>).
\<close>

section \<open>Resolution\<close>

record ResolveTaskError =
  rte_name :: string
  rte_suggestions :: "string list"

definition suggestion_score :: "string \<Rightarrow> string \<Rightarrow> nat option" where
  "suggestion_score query_lower name =
     (let name_lower = to_ascii_lowercase name in
      if starts_with name_lower query_lower then Some 0
      else if str_contains name_lower query_lower then Some 1
      else None)"

fun take_suggestions :: "string list \<Rightarrow> string list \<Rightarrow> string list" where
  "take_suggestions [] suggestions = suggestions"
| "take_suggestions (name # names) suggestions =
     (if length suggestions \<ge> 5 then suggestions
      else take_suggestions names (if name \<in> set suggestions then suggestions else suggestions @ [name]))"

text \<open>The two sorts are stable, as the library's \<open>sort_key\<close> is.\<close>

definition rank_task_suggestions :: "string \<Rightarrow> TaskDocument \<Rightarrow> string list" where
  "rank_task_suggestions query doc =
     (if query = [] then []
      else
        let query_lower = to_ascii_lowercase query;
            names = bt_keys (doc_tasks doc) @ concat (map (\<lambda>(_, task). td_aliases task) (doc_tasks doc));
            scored = List.map_filter (\<lambda>name. map_option (\<lambda>score. (score, name)) (suggestion_score query_lower name)) names;
            scored = sort_key (\<lambda>(score, name). (name, score)) scored;
            scored = sort_key fst scored
        in take_suggestions (map snd scored) [])"

definition alias_owners :: "TaskDocument \<Rightarrow> string \<Rightarrow> string list" where
  "alias_owners doc name = map fst (filter (\<lambda>(_, task). list_ex (\<lambda>alias. alias = name) (td_aliases task)) (doc_tasks doc))"

definition resolve_task_name :: "TaskDocument \<Rightarrow> string \<Rightarrow> (ResolveTaskError, string) outcome" where
  "resolve_task_name doc name =
     (if bt_contains (doc_tasks doc) name then Ok name
      else
        (case alias_owners doc name of
           [] \<Rightarrow> Err \<lparr>rte_name = name, rte_suggestions = rank_task_suggestions name doc\<rparr>
         | [owner] \<Rightarrow> Ok owner
         | owners \<Rightarrow> Err \<lparr>rte_name = name, rte_suggestions = owners\<rparr>))"

definition resolve_task :: "TaskDocument \<Rightarrow> string \<Rightarrow> (ResolveTaskError, string \<times> TaskDefinition) outcome" where
  "resolve_task doc name =
     bind (resolve_task_name doc name) (\<lambda>canonical.
       bind (ok_or \<lparr>rte_name = name, rte_suggestions = []\<rparr> (map_of (doc_tasks doc) canonical)) (\<lambda>task.
         Ok (canonical, task)))"

definition display_resolve_error :: "ResolveTaskError \<Rightarrow> string" where
  "display_resolve_error e =
     ''task not found: '' @ rte_name e @
     (if rte_suggestions e = [] then []
      else [CHR 0x0A, CHR 0x0A] @ ''Did you mean:'' @ [CHR 0x0A] @
           concat (map (\<lambda>s. ''  '' @ s @ [CHR 0x0A]) (rte_suggestions e)))"

definition listable_tasks_filtered ::
  "TaskDocument \<Rightarrow> string option \<Rightarrow> string list option \<Rightarrow> tasks" where
  "listable_tasks_filtered doc category namespace_tasks =
     filter (\<lambda>(name, _). case namespace_tasks of None \<Rightarrow> True | Some members \<Rightarrow> name \<in> set members)
       (filter (\<lambda>(_, task). case category of None \<Rightarrow> True | Some cat \<Rightarrow> td_category task = Some cat)
         (filter (\<lambda>(_, task). \<not> td_hidden task) (doc_tasks doc)))"

definition listable_tasks :: "TaskDocument \<Rightarrow> string option \<Rightarrow> tasks" where
  "listable_tasks doc category = listable_tasks_filtered doc category None"

section \<open>Selectors\<close>

definition CATEGORY_PREFIX :: string where "CATEGORY_PREFIX = ''category:''"
definition TASK_PREFIX :: string where "TASK_PREFIX = ''task:''"
definition APP_PREFIX :: string where "APP_PREFIX = ''app:''"
definition CHANGED_SELECTOR :: string where "CHANGED_SELECTOR = ''changed''"

datatype ParsedSelector =
    SelCategory string
  | SelChanged
  | SelTask string
  | SelApp string
  | SelBare string

datatype SelectorError =
    AppSelector string
  | EmptyCategory string
  | UnknownSelector string

record TaskTargetResolution =
  ttr_tasks :: "string list"
  ttr_use_affected :: bool

definition parse_selector :: "string \<Rightarrow> ParsedSelector" where
  "parse_selector token =
     (if token = CHANGED_SELECTOR then SelChanged
      else case strip_prefix CATEGORY_PREFIX token of
        Some category \<Rightarrow> SelCategory category
      | None \<Rightarrow>
          (case strip_prefix TASK_PREFIX token of
             Some name \<Rightarrow> SelTask name
           | None \<Rightarrow>
               (case strip_prefix APP_PREFIX token of
                  Some name \<Rightarrow> SelApp name
                | None \<Rightarrow> SelBare token)))"

text \<open>\<open>push_new\<close>: a name is pushed when \<open>seen.insert\<close> returns true.\<close>

definition push_new :: "string \<Rightarrow> string list \<times> string list \<Rightarrow> string list \<times> string list" where
  "push_new name = (\<lambda>(tasks, seen).
     if name \<in> set seen then (tasks, seen) else (tasks @ [name], insort_insert name seen))"

definition resolve_named ::
  "TaskDocument \<Rightarrow> string \<Rightarrow> string \<Rightarrow> (SelectorError, string) outcome" where
  "resolve_named doc token name = map_err (\<lambda>_. UnknownSelector token) (resolve_task_name doc name)"

fun targets_loop ::
  "TaskDocument \<Rightarrow> string list \<Rightarrow> string list \<times> string list \<Rightarrow> bool \<Rightarrow>
     (SelectorError, TaskTargetResolution) outcome" where
  "targets_loop doc [] acc use_affected = Ok \<lparr>ttr_tasks = fst acc, ttr_use_affected = use_affected\<rparr>"
| "targets_loop doc (token # tokens) acc use_affected =
     (case parse_selector token of
        SelChanged \<Rightarrow> targets_loop doc tokens acc True
      | SelApp _ \<Rightarrow>
          (case strip_prefix APP_PREFIX token of
             Some name \<Rightarrow> Err (AppSelector name)
           | None \<Rightarrow> Panic)
      | SelCategory category \<Rightarrow>
          (let matched = listable_tasks doc (Some category) in
           if matched = [] then Err (EmptyCategory category)
           else targets_loop doc tokens (fold push_new (bt_keys matched) acc) use_affected)
      | SelTask name \<Rightarrow>
          bind (resolve_named doc token name) (\<lambda>c. targets_loop doc tokens (push_new c acc) use_affected)
      | SelBare name \<Rightarrow>
          bind (resolve_named doc token name) (\<lambda>c. targets_loop doc tokens (push_new c acc) use_affected))"

definition resolve_task_targets ::
  "TaskDocument \<Rightarrow> string list \<Rightarrow> (SelectorError, TaskTargetResolution) outcome" where
  "resolve_task_targets doc tokens =
     (if tokens = [] then Ok \<lparr>ttr_tasks = [], ttr_use_affected = False\<rparr>
      else targets_loop doc tokens ([], []) False)"

record ListSelectorResolution =
  lsr_category :: "string option"
  lsr_affected_only :: bool

definition resolve_list_selector :: "string \<Rightarrow> (SelectorError, ListSelectorResolution) outcome" where
  "resolve_list_selector token =
     (case parse_selector token of
        SelCategory category \<Rightarrow> Ok \<lparr>lsr_category = Some category, lsr_affected_only = False\<rparr>
      | SelChanged \<Rightarrow> Ok \<lparr>lsr_category = None, lsr_affected_only = True\<rparr>
      | _ \<Rightarrow> Err (UnknownSelector token))"

section \<open>Projects\<close>

definition PROJECTS_SCHEMA_VERSION :: u32 where "PROJECTS_SCHEMA_VERSION = 1"
definition PROJECTS_FILENAME :: string where "PROJECTS_FILENAME = ''nxr.projects.json''"
definition NXR_CATEGORY_KEY :: string where "NXR_CATEGORY_KEY = ''nxr.category''"

record ProjectDefinition =
  pj_description :: "string option"
  pj_category :: "string option"
  pj_apps :: "string list"
  pj_tasks :: "string list"

record ProjectsDocument =
  pjd_schema_version :: u32
  pjd_projects :: "(string, ProjectDefinition) btmap"

text \<open>The errors of the pure operations; reading the file adds I/O and JSON errors.\<close>

datatype ProjectsError =
    UnsupportedProjectsVersion string u32 u32
  | UnknownNamespace string string

datatype ProjectMemberKind = MemberApp | MemberTask

instantiation ProjectMemberKind :: linorder
begin

definition less_eq_ProjectMemberKind :: "ProjectMemberKind \<Rightarrow> ProjectMemberKind \<Rightarrow> bool" where
  "less_eq_ProjectMemberKind a b \<longleftrightarrow> a = MemberApp \<or> b = MemberTask"

definition less_ProjectMemberKind :: "ProjectMemberKind \<Rightarrow> ProjectMemberKind \<Rightarrow> bool" where
  "less_ProjectMemberKind a b \<longleftrightarrow> a = MemberApp \<and> b = MemberTask"

instance
proof
  fix a b c :: ProjectMemberKind
  show "(a < b) = (a \<le> b \<and> \<not> b \<le> a)"
    by (cases a; cases b) (auto simp: less_eq_ProjectMemberKind_def less_ProjectMemberKind_def)
  show "a \<le> a" by (cases a) (auto simp: less_eq_ProjectMemberKind_def)
  show "a \<le> b \<Longrightarrow> b \<le> c \<Longrightarrow> a \<le> c" by (auto simp: less_eq_ProjectMemberKind_def)
  show "a \<le> b \<Longrightarrow> b \<le> a \<Longrightarrow> a = b" by (auto simp: less_eq_ProjectMemberKind_def)
  show "a \<le> b \<or> b \<le> a" by (cases a; cases b) (auto simp: less_eq_ProjectMemberKind_def)
qed

end

record UnknownProjectMember =
  um_namespace :: string
  um_member :: string
  um_kind :: ProjectMemberKind

definition projects_validate :: "ProjectsDocument \<Rightarrow> string \<Rightarrow> (ProjectsError, unit) outcome" where
  "projects_validate doc path =
     (if pjd_schema_version doc \<noteq> PROJECTS_SCHEMA_VERSION
      then Err (UnsupportedProjectsVersion path (pjd_schema_version doc) PROJECTS_SCHEMA_VERSION)
      else Ok ())"

definition namespace_apps :: "ProjectsDocument \<Rightarrow> string \<Rightarrow> string list option" where
  "namespace_apps doc namespace = map_option (\<lambda>p. bs_of_list (pj_apps p)) (map_of (pjd_projects doc) namespace)"

definition namespace_tasks :: "ProjectsDocument \<Rightarrow> string \<Rightarrow> string list option" where
  "namespace_tasks doc namespace = map_option (\<lambda>p. bs_of_list (pj_tasks p)) (map_of (pjd_projects doc) namespace)"

definition require_namespace ::
  "ProjectsDocument \<Rightarrow> string \<Rightarrow> string \<Rightarrow> (ProjectsError, ProjectDefinition) outcome" where
  "require_namespace doc path namespace =
     ok_or (UnknownNamespace path namespace) (map_of (pjd_projects doc) namespace)"

definition unknown_of ::
  "string \<Rightarrow> ProjectMemberKind \<Rightarrow> string list \<Rightarrow> string list \<Rightarrow> UnknownProjectMember list" where
  "unknown_of namespace kind known members =
     map (\<lambda>m. \<lparr>um_namespace = namespace, um_member = m, um_kind = kind\<rparr>) (filter (\<lambda>m. m \<notin> set known) members)"

definition unknown_members ::
  "ProjectsDocument \<Rightarrow> string list \<Rightarrow> string list \<Rightarrow> UnknownProjectMember list" where
  "unknown_members doc known_apps known_tasks =
     sort_key (\<lambda>u. (um_namespace u, um_kind u, um_member u))
       (concat (map (\<lambda>(namespace, project).
          unknown_of namespace MemberApp known_apps (pj_apps project) @
          unknown_of namespace MemberTask known_tasks (pj_tasks project)) (pjd_projects doc)))"

definition app_category :: "App \<Rightarrow> string option" where
  "app_category app = Option.bind (map_of (app_metadata app) NXR_CATEGORY_KEY) json_as_str"

definition set_app_category :: "string option \<Rightarrow> App \<Rightarrow> App" where
  "set_app_category category app =
     (case category of
        None \<Rightarrow> app
      | Some value \<Rightarrow>
          if value = [] then app
          else app\<lparr>app_metadata := bt_insert NXR_CATEGORY_KEY (JString value) (app_metadata app)\<rparr>)"

definition listable_apps :: "App list \<Rightarrow> string option \<Rightarrow> string list option \<Rightarrow> App list" where
  "listable_apps apps category members_of =
     filter (\<lambda>app. case members_of of None \<Rightarrow> True | Some members \<Rightarrow> app_name app \<in> set members)
       (filter (\<lambda>app. case category of None \<Rightarrow> True | Some cat \<Rightarrow> app_category app = Some cat) apps)"

definition enrich_apps_with_listing_metadata :: "App list \<Rightarrow> TaskDocument \<Rightarrow> App list" where
  "enrich_apps_with_listing_metadata apps doc =
     map (\<lambda>app. case map_of (doc_apps doc) (app_name app) of
                  None \<Rightarrow> app
                | Some meta \<Rightarrow> set_app_category (al_category meta) app) apps"

section \<open>Loops that keep first occurrences\<close>

fun first_occurrences :: "'a list \<Rightarrow> 'a list" where
  "first_occurrences [] = []"
| "first_occurrences (x # xs) = x # filter (\<lambda>y. y \<noteq> x) (first_occurrences xs)"

lemma set_first_occurrences [simp]: "set (first_occurrences xs) = set xs"
  by (induction xs) auto

lemma distinct_first_occurrences [simp]: "distinct (first_occurrences xs)"
  by (induction xs) auto

lemma sorted_first_occurrences: "sorted xs \<Longrightarrow> sorted (first_occurrences xs)"
  by (induction xs) (auto simp: sorted_filter [of id, simplified])

lemma first_occurrences_append:
  "first_occurrences (xs @ ys) = first_occurrences xs @ filter (\<lambda>y. y \<notin> set xs) (first_occurrences ys)"
  by (induction xs) (auto intro: filter_cong)

lemma first_occurrences_map:
  "inj_on f (set xs) \<Longrightarrow> first_occurrences (map f xs) = map f (first_occurrences xs)"
proof (induction xs)
  case (Cons x xs)
  then have IH: "first_occurrences (map f xs) = map f (first_occurrences xs)" by (simp add: inj_on_def)
  have "filter (\<lambda>y. y \<noteq> f x) (map f zs) = map f (filter (\<lambda>y. y \<noteq> x) zs)" if "set zs \<subseteq> set xs" for zs
    using that Cons.prems by (induction zs) (auto simp: inj_on_def)
  with IH show ?case by simp
qed simp

lemma first_occurrences_sorted:
  "sorted xs \<Longrightarrow> first_occurrences xs = sorted_list_of_set (set xs)"
  by (rule sorted_distinct_set_unique) (simp_all add: sorted_first_occurrences)

text \<open>The loop of the suggestions: the first five different names.\<close>

lemma take_suggestions_eq:
  "length acc \<le> 5 \<Longrightarrow> take_suggestions names acc = take 5 (acc @ filter (\<lambda>x. x \<notin> set acc) (first_occurrences names))"
proof (induction names arbitrary: acc)
  case (Cons n names)
  show ?case
  proof (cases "length acc = 5")
    case True
    then show ?thesis by simp
  next
    case False
    with Cons.prems have len: "length acc < 5" by simp
    show ?thesis
    proof (cases "n \<in> set acc")
      case True
      have "filter (\<lambda>x. x \<notin> set acc) (filter (\<lambda>y. y \<noteq> n) ys) = filter (\<lambda>x. x \<notin> set acc) ys" for ys
        using True by (auto intro: filter_cong)
      with True len Cons.IH [of acc] Cons.prems show ?thesis by simp
    next
      case out: False
      have "filter (\<lambda>x. x \<notin> set (acc @ [n])) ys = filter (\<lambda>x. x \<notin> set acc) (filter (\<lambda>y. y \<noteq> n) ys)" for ys
        by (auto intro: filter_cong)
      with out len Cons.IH [of "acc @ [n]"] show ?thesis by simp
    qed
  qed
qed simp

lemma push_new_fold:
  assumes "set seen = set tasks"
  shows "fst (fold push_new xs (tasks, seen)) = tasks @ filter (\<lambda>x. x \<notin> set tasks) (first_occurrences xs) \<and>
    set (snd (fold push_new xs (tasks, seen))) = set (fst (fold push_new xs (tasks, seen)))"
  using assms
proof (induction xs arbitrary: tasks seen)
  case (Cons x xs)
  show ?case
  proof (cases "x \<in> set tasks")
    case True
    then have "filter (\<lambda>y. y \<notin> set tasks) (filter (\<lambda>y. y \<noteq> x) ys) = filter (\<lambda>y. y \<notin> set tasks) ys" for ys
      by (auto intro: filter_cong)
    with True Cons show ?thesis by (simp add: push_new_def)
  next
    case False
    then have "push_new x (tasks, seen) = (tasks @ [x], insort_insert x seen)"
      "set (insort_insert x seen) = set (tasks @ [x])"
      using Cons.prems by (auto simp: push_new_def set_insort_insert)
    moreover have "filter (\<lambda>y. y \<notin> set (tasks @ [x])) ys = filter (\<lambda>y. y \<notin> set tasks) (filter (\<lambda>y. y \<noteq> x) ys)" for ys
      by (auto intro: filter_cong)
    ultimately show ?thesis using Cons.IH [of "insort_insert x seen" "tasks @ [x]"] False by simp
  qed
qed simp

section \<open>Resolution is correct\<close>

text \<open>Two stable sorts, the second by score, sort the pairs of score and name.\<close>

lemma sorted_insort_fst:
  fixes x :: "'a::linorder \<times> 'b::linorder"
  assumes "sorted zs" and "\<forall>z \<in> set zs. snd x \<le> snd z"
  shows "sorted (insort_key fst x zs)"
  using assms by (induction zs) (auto simp: set_insort_key less_eq_prod_def)

lemma sort_by_name_then_score:
  fixes xs :: "(nat \<times> string) list"
  shows "sort_key fst (sort_key (\<lambda>(score, name). (name, score)) xs) = sort xs"
proof -
  have "sorted (sort_key fst ys)" if "sorted (map (\<lambda>(score, name). (name, score)) ys)" for ys :: "(nat \<times> string) list"
    using that
  proof (induction ys)
    case (Cons y ys)
    then have "\<forall>z \<in> set (sort_key fst ys). snd y \<le> snd z"
      by (cases y) (fastforce simp: less_eq_prod_def)
    with Cons sorted_insort_fst [of "sort_key fst ys" y] show ?case by simp
  qed simp
  then have "sorted (sort_key fst (sort_key (\<lambda>(score, name). (name, score)) xs))" by simp
  then show ?thesis by (intro properties_for_sort [symmetric]) simp_all
qed

definition task_names :: "TaskDocument \<Rightarrow> string set" where
  "task_names doc = fst ` set (doc_tasks doc) \<union> (\<Union>(_, task) \<in> set (doc_tasks doc). set (td_aliases task))"

lemma rank_task_suggestions_eq:
  assumes "query \<noteq> []"
  shows "rank_task_suggestions query doc = map snd (take 5 (sorted_list_of_set
     {(score, name). name \<in> task_names doc \<and> suggestion_score (to_ascii_lowercase query) name = Some score}))"
proof -
  let ?score = "suggestion_score (to_ascii_lowercase query)"
  let ?names = "bt_keys (doc_tasks doc) @ concat (map (\<lambda>(_, task). td_aliases task) (doc_tasks doc))"
  let ?scored = "List.map_filter (\<lambda>name. map_option (\<lambda>score. (score, name)) (?score name)) ?names"
  have names: "set ?names = task_names doc"
    by (auto simp: task_names_def bt_keys_def)
  have scored: "set ?scored = {(score, name). name \<in> task_names doc \<and> ?score name = Some score}"
    unfolding names [symmetric] by (force simp: List.map_filter_def)
  have inj: "inj_on snd (set (sort ?scored))" by (auto simp: inj_on_def scored)
  have "rank_task_suggestions query doc = take_suggestions (map snd (sort ?scored)) []"
    using assms by (simp add: rank_task_suggestions_def Let_def sort_by_name_then_score)
  also have "\<dots> = take 5 (map snd (first_occurrences (sort ?scored)))"
    using first_occurrences_map [OF inj] by (simp add: take_suggestions_eq)
  also have "first_occurrences (sort ?scored) = sorted_list_of_set (set ?scored)"
    by (simp add: first_occurrences_sorted)
  finally show ?thesis by (simp add: scored take_map)
qed

text \<open>Tasks that claim \<open>name\<close> as an alias.\<close>

definition owners_of :: "TaskDocument \<Rightarrow> string \<Rightarrow> string set" where
  "owners_of doc name = {t. \<exists>task. map_of (doc_tasks doc) t = Some task \<and> name \<in> set (td_aliases task)}"

lemma alias_owners_set:
  assumes "bt_wf (doc_tasks doc)"
  shows "set (alias_owners doc name) = owners_of doc name" and "sorted_wrt (<) (alias_owners doc name)"
proof -
  show "set (alias_owners doc name) = owners_of doc name"
    using bt_wf_lookup [OF assms] by (force simp: alias_owners_def owners_of_def list_ex_iff)
  show "sorted_wrt (<) (alias_owners doc name)"
    using bt_wf_map_filter [OF assms] by (simp add: alias_owners_def bt_wf_def)
qed

text \<open>
  C36: A name resolves to the task of that name, or else to the one task that has it as an alias.
  It fails exactly when it is no task and no alias of exactly one task. The error of an ambiguous
  alias lists its owners in order; otherwise it suggests the five best names or aliases that
  contain the query without regard to case, those that start with it first and each group in
  order, without duplicates. Resolution with the definition agrees and neither panics.
\<close>

theorem resolve_task_correct:
  assumes wf: "bt_wf (doc_tasks doc)"
  shows "(resolve_task_name doc name = Ok t \<longleftrightarrow>
      (if name \<in> dom (map_of (doc_tasks doc)) then t = name else owners_of doc name = {t})) \<and>
    (resolve_task_name doc name = Err e \<longrightarrow> rte_name e = name \<and>
      (if owners_of doc name = {} then rte_suggestions e = (if name = [] then [] else map snd (take 5 (sorted_list_of_set
         {(score, n). n \<in> task_names doc \<and> suggestion_score (to_ascii_lowercase name) n = Some score})))
       else set (rte_suggestions e) = owners_of doc name \<and> sorted_wrt (<) (rte_suggestions e))) \<and>
    (resolve_task doc name = Ok (t, task) \<longleftrightarrow>
      resolve_task_name doc name = Ok t \<and> map_of (doc_tasks doc) t = Some task) \<and>
    (resolve_task doc name = Err e \<longleftrightarrow> resolve_task_name doc name = Err e) \<and>
    resolve_task_name doc name \<noteq> Panic \<and> resolve_task doc name \<noteq> Panic"
proof -
  note owners = alias_owners_set [OF wf, of name]
  have one: "alias_owners doc name = [t] \<longleftrightarrow> owners_of doc name = {t}" for t
  proof
    assume "owners_of doc name = {t}"
    then show "alias_owners doc name = [t]"
      using owners by (intro sorted_distinct_set_unique) (auto simp: strict_sorted_iff)
  qed (use owners in auto)
  have Ok_iff: "resolve_task_name doc name = Ok t \<longleftrightarrow>
      (if name \<in> dom (map_of (doc_tasks doc)) then t = name else owners_of doc name = {t})" for t
    unfolding one [symmetric] by (auto simp: resolve_task_name_def split: list.splits)
  have err: "rte_name e = name \<and>
      (if owners_of doc name = {} then rte_suggestions e = (if name = [] then [] else map snd (take 5 (sorted_list_of_set
         {(score, n). n \<in> task_names doc \<and> suggestion_score (to_ascii_lowercase name) n = Some score})))
       else set (rte_suggestions e) = owners_of doc name \<and> sorted_wrt (<) (rte_suggestions e))"
    if "resolve_task_name doc name = Err e"
  proof (cases "alias_owners doc name")
    case Nil
    have "rank_task_suggestions [] doc = []" by (simp add: rank_task_suggestions_def)
    with Nil that owners show ?thesis
      by (auto simp: resolve_task_name_def rank_task_suggestions_eq split: if_splits)
  next
    case (Cons a as)
    with that owners show ?thesis
      by (auto simp: resolve_task_name_def split: if_splits list.splits)
  qed
  have found: "map_of (doc_tasks doc) t \<noteq> None" if "resolve_task_name doc name = Ok t" for t
    using that by (auto simp: Ok_iff owners_of_def split: if_splits)
  have no_panic: "resolve_task_name doc name \<noteq> Panic"
    by (simp add: resolve_task_name_def split: list.splits)
  have "resolve_task doc name = (case resolve_task_name doc name of
      Ok t \<Rightarrow> Ok (t, the (map_of (doc_tasks doc) t)) | Err e \<Rightarrow> Err e | Panic \<Rightarrow> Panic)"
    using found by (cases "resolve_task_name doc name") (auto simp: resolve_task_def)
  then have "resolve_task doc name = Ok (t, task) \<longleftrightarrow>
      resolve_task_name doc name = Ok t \<and> map_of (doc_tasks doc) t = Some task"
    "resolve_task doc name = Err e \<longleftrightarrow> resolve_task_name doc name = Err e"
    "resolve_task doc name \<noteq> Panic"
    using found no_panic by (cases "resolve_task_name doc name"; force)+
  with Ok_iff err no_panic show ?thesis by (intro conjI impI) blast+
qed

section \<open>Selectors are correct\<close>

text \<open>What one token selects, and the error of a token that selects nothing.\<close>

definition selected :: "TaskDocument \<Rightarrow> string \<Rightarrow> string list option" where
  "selected doc token =
     (let named = (\<lambda>name. case resolve_task_name doc name of Ok c \<Rightarrow> Some [c] | _ \<Rightarrow> None) in
      case parse_selector token of
        SelChanged \<Rightarrow> Some []
      | SelApp _ \<Rightarrow> None
      | SelCategory category \<Rightarrow>
          (case bt_keys (listable_tasks doc (Some category)) of [] \<Rightarrow> None | names \<Rightarrow> Some names)
      | SelTask name \<Rightarrow> named name
      | SelBare name \<Rightarrow> named name)"

definition selector_error :: "string \<Rightarrow> SelectorError" where
  "selector_error token =
     (case parse_selector token of
        SelApp name \<Rightarrow> AppSelector name
      | SelCategory category \<Rightarrow> EmptyCategory category
      | _ \<Rightarrow> UnknownSelector token)"

lemma parse_selector_app: "parse_selector token = SelApp name \<Longrightarrow> strip_prefix APP_PREFIX token = Some name"
  by (auto simp: parse_selector_def split: if_splits option.splits)

lemma parse_selector_changed: "parse_selector token = SelChanged \<longleftrightarrow> token = CHANGED_SELECTOR"
  by (auto simp: parse_selector_def split: option.splits)

lemma resolve_named_eq:
  "resolve_named doc token name =
     (case resolve_task_name doc name of Ok c \<Rightarrow> Ok c | Err _ \<Rightarrow> Err (UnknownSelector token) | Panic \<Rightarrow> Panic)"
  by (cases "resolve_task_name doc name") (auto simp: resolve_named_def)

lemma resolve_task_name_no_panic [simp]: "resolve_task_name doc name \<noteq> Panic"
  by (simp add: resolve_task_name_def split: list.splits)

lemma targets_loop_step:
  "targets_loop doc (token # tokens) acc use_affected =
     (case selected doc token of
        None \<Rightarrow> Err (selector_error token)
      | Some names \<Rightarrow>
          targets_loop doc tokens (fold push_new names acc) (use_affected \<or> token = CHANGED_SELECTOR))"
proof (cases "parse_selector token")
  case (SelCategory category)
  then have "token \<noteq> CHANGED_SELECTOR" using parse_selector_changed [of token] by auto
  with SelCategory show ?thesis
    by (auto simp: selected_def selector_error_def Let_def bt_keys_def split: list.splits)
next
  case (SelApp name)
  then show ?thesis using parse_selector_app [OF SelApp] by (simp add: selected_def selector_error_def)
next
  case SelChanged
  then show ?thesis using parse_selector_changed [of token] by (simp add: selected_def)
next
  case (SelTask name)
  then have "token \<noteq> CHANGED_SELECTOR" using parse_selector_changed [of token] by auto
  with SelTask show ?thesis
    by (cases "resolve_task_name doc name") (simp_all add: selected_def selector_error_def resolve_named_eq)
next
  case (SelBare name)
  then have "token \<noteq> CHANGED_SELECTOR" using parse_selector_changed [of token] by auto
  with SelBare show ?thesis
    by (cases "resolve_task_name doc name") (simp_all add: selected_def selector_error_def resolve_named_eq)
qed

lemma targets_loop_eq:
  assumes "set seen = set tasks"
  shows "targets_loop doc tokens (tasks, seen) use_affected =
     (case find (\<lambda>token. selected doc token = None) tokens of
        Some token \<Rightarrow> Err (selector_error token)
      | None \<Rightarrow>
          Ok \<lparr>ttr_tasks = tasks @ filter (\<lambda>t. t \<notin> set tasks)
                (first_occurrences (concat (map (the \<circ> selected doc) tokens))),
              ttr_use_affected = (use_affected \<or> CHANGED_SELECTOR \<in> set tokens)\<rparr>)"
  using assms
proof (induction tokens arbitrary: tasks seen use_affected)
  case (Cons token tokens)
  show ?case
  proof (cases "selected doc token")
    case None
    then show ?thesis by (simp add: targets_loop_step del: targets_loop.simps)
  next
    case (Some names)
    obtain tasks' seen' where f: "fold push_new names (tasks, seen) = (tasks', seen')" by fastforce
    from push_new_fold [OF Cons.prems, of names] f
    have t: "tasks' = tasks @ filter (\<lambda>x. x \<notin> set tasks) (first_occurrences names)" "set seen' = set tasks'"
      by simp_all
    have "filter (\<lambda>y. y \<notin> set tasks') ys =
        filter (\<lambda>y. y \<notin> set tasks) (filter (\<lambda>y. y \<notin> set names) ys)" for ys
      by (auto simp: t(1) intro: filter_cong)
    with Some f t(1) Cons.IH [OF t(2)] show ?thesis
      by (auto simp: targets_loop_step first_occurrences_append comp_def simp del: targets_loop.simps split: option.splits)
  qed
qed simp

text \<open>
  C37: The targets of a list of selectors. When every token selects something, the result is the
  tasks the tokens select, in order and without repetition, and affected mode is on exactly when
  one of the tokens is \<open>changed\<close>. Otherwise the first token that selects nothing is reported: an
  app selector by its name, a category without listable tasks by the category, any other token by
  itself. The internal expectation on app prefixes never fails.
\<close>

theorem resolve_task_targets_correct:
  "resolve_task_targets doc tokens =
     (case find (\<lambda>token. selected doc token = None) tokens of
        Some token \<Rightarrow> Err (selector_error token)
      | None \<Rightarrow> Ok \<lparr>ttr_tasks = first_occurrences (concat (map (the \<circ> selected doc) tokens)),
                    ttr_use_affected = (CHANGED_SELECTOR \<in> set tokens)\<rparr>)"
  by (simp add: resolve_task_targets_def targets_loop_eq split: option.splits)

text \<open>
  The unknown members of a projects document are exactly the members no catalog has, each with
  its namespace and kind, in the order of namespace, kind (apps first) and name.
\<close>

lemma unknown_members_correct:
  "set (unknown_members doc known_apps known_tasks) =
     {\<lparr>um_namespace = ns, um_member = m, um_kind = kind\<rparr> | ns m kind. \<exists>p. (ns, p) \<in> set (pjd_projects doc) \<and>
        (kind = MemberApp \<and> m \<in> set (pj_apps p) - set known_apps \<or>
         kind = MemberTask \<and> m \<in> set (pj_tasks p) - set known_tasks)} \<and>
   sorted (map (\<lambda>u. (um_namespace u, um_kind u, um_member u)) (unknown_members doc known_apps known_tasks))"
proof
  show "sorted (map (\<lambda>u. (um_namespace u, um_kind u, um_member u)) (unknown_members doc known_apps known_tasks))"
    by (simp add: unknown_members_def)
  show "set (unknown_members doc known_apps known_tasks) =
     {\<lparr>um_namespace = ns, um_member = m, um_kind = kind\<rparr> | ns m kind. \<exists>p. (ns, p) \<in> set (pjd_projects doc) \<and>
        (kind = MemberApp \<and> m \<in> set (pj_apps p) - set known_apps \<or>
         kind = MemberTask \<and> m \<in> set (pj_tasks p) - set known_tasks)}"
    by (fastforce simp: unknown_members_def unknown_of_def)
qed

section \<open>Examples\<close>

definition select_doc :: TaskDocument where
  "select_doc = TaskDocument_new
     [(''check'', TaskDefinition_new ''a''), (''ci'', (TaskDefinition_new ''b'')\<lparr>td_aliases := [''gate'']\<rparr>),
      (''docs'', (TaskDefinition_new ''c'')\<lparr>td_category := Some ''web''\<rparr>)]"

theorem resolve_task_correct_witness: "resolve_task_name select_doc ''gate'' = Ok ''ci''"
proof -
  have "bt_wf (doc_tasks select_doc)" by code_simp
  moreover have "''gate'' \<notin> dom (map_of (doc_tasks select_doc))"
    by (simp add: select_doc_def TaskDocument_new_def)
  moreover have "owners_of select_doc ''gate'' = {''ci''}"
    by (auto simp: owners_of_def select_doc_def TaskDocument_new_def TaskDefinition_new_def split: if_splits)
  ultimately show ?thesis using resolve_task_correct [of select_doc "''gate''" "''ci''"] by simp
qed

end
