(* ===== verification/Watch.thy ===== *)
theory Watch
  imports Affected_Paths Task_Select Rust_Hash Events
begin

text \<open>
  Watch mode (\<open>crates/nxr-watch/src\<close>): path filters (\<open>filter.rs\<close>), classification of changes
  (\<open>change.rs\<close>), semantic coalescing of a batch (\<open>coalesce.rs\<close>) and the debouncer (\<open>restart.rs\<close>).
  Paths are those of the external crate \<open>camino\<close>; the record \<open>Camino\<close> is what the code uses of it.
  Values of environment variables, clock readings and the iteration order of a hash map are
  arguments.
\<close>

section \<open>External paths\<close>

record Camino =
  cm_strip_prefix :: "string \<Rightarrow> string \<Rightarrow> string option"
  cm_join :: "string \<Rightarrow> string \<Rightarrow> string"
  cm_starts_with :: "string \<Rightarrow> string \<Rightarrow> bool"
  cm_components :: "string \<Rightarrow> string list"

text \<open>\<open>Utf8Path::from_path\<close>: a path that is not UTF-8 has none.\<close>

definition utf8_from_path :: "string \<Rightarrow> string option" where
  "utf8_from_path path = (if valid_utf8 path then Some path else None)"

section \<open>Filters\<close>

datatype PathFilterError = InvalidFilterGlob string string

record PathFilters =
  pf_include :: "string list"
  pf_exclude :: "string list"
  pf_has_include :: bool

definition PathFilters_none :: PathFilters where
  "PathFilters_none = \<lparr>pf_include = [], pf_exclude = [], pf_has_include = False\<rparr>"

fun check_globs :: "Globset \<Rightarrow> string list \<Rightarrow> (PathFilterError, unit) outcome" where
  "check_globs gs [] = Ok ()"
| "check_globs gs (pat # pats) =
     (case glob_new gs pat of
        Some message \<Rightarrow> Err (InvalidFilterGlob pat message)
      | None \<Rightarrow> check_globs gs pats)"

definition compile_globs :: "Globset \<Rightarrow> string list \<Rightarrow> (PathFilterError, string list) outcome" where
  "compile_globs gs pats =
     bind (check_globs gs pats) (\<lambda>_.
       case globset_build gs pats of
         None \<Rightarrow> Ok pats
       | Some message \<Rightarrow>
           Err (InvalidFilterGlob (case pats of [] \<Rightarrow> ''<empty>'' | p # _ \<Rightarrow> p) message))"

definition PathFilters_new :: "Globset \<Rightarrow> string list \<Rightarrow> string list \<Rightarrow> (PathFilterError, PathFilters) outcome" where
  "PathFilters_new gs inc exc =
     bind (compile_globs gs inc) (\<lambda>i. bind (compile_globs gs exc) (\<lambda>e.
       Ok \<lparr>pf_include = i, pf_exclude = e, pf_has_include = (inc \<noteq> [])\<rparr>))"

text \<open>An empty set of patterns matches nothing.\<close>

definition set_matches :: "Globset \<Rightarrow> string list \<Rightarrow> string \<Rightarrow> bool" where
  "set_matches gs globs path \<longleftrightarrow> globs \<noteq> [] \<and> globset_is_match gs globs path"

definition is_builtin_ignored :: "Camino \<Rightarrow> string \<Rightarrow> bool" where
  "is_builtin_ignored cm path \<longleftrightarrow>
     cm_starts_with cm path ''/nix/store'' \<or>
     list_ex (\<lambda>name. name = ''.git'' \<or> name = ''target'' \<or> name = ''result'' \<or> starts_with name ''result-'')
       (cm_components cm path)"

definition relative_for_glob :: "string \<Rightarrow> string" where
  "relative_for_glob relative = (case strip_prefix ''./'' relative of Some s \<Rightarrow> s | None \<Rightarrow> relative)"

definition under_root :: "Camino \<Rightarrow> string \<Rightarrow> string \<Rightarrow> string" where
  "under_root cm root path = (case cm_strip_prefix cm path root of Some r \<Rightarrow> r | None \<Rightarrow> path)"

definition should_ignore_path :: "Camino \<Rightarrow> Globset \<Rightarrow> string \<Rightarrow> string \<Rightarrow> PathFilters \<Rightarrow> bool" where
  "should_ignore_path cm gs root path0 filters =
     (case utf8_from_path path0 of
        None \<Rightarrow> True
      | Some path \<Rightarrow>
          if is_builtin_ignored cm path then True
          else
            let relative = relative_for_glob (under_root cm root path) in
            if set_matches gs (pf_exclude filters) relative then True
            else if pf_has_include filters \<and> \<not> set_matches gs (pf_include filters) relative then True
            else False)"

section \<open>Classification\<close>

datatype ChangeClass = ChangeMetadata | ChangeSource | ChangeIgnored

record MetadataInputRegistry =
  mr_discovery_inputs :: "string list"

definition MetadataInputRegistry_new :: MetadataInputRegistry where
  "MetadataInputRegistry_new = \<lparr>mr_discovery_inputs = []\<rparr>"

definition set_discovery_inputs :: "string list \<Rightarrow> MetadataInputRegistry \<Rightarrow> MetadataInputRegistry" where
  "set_discovery_inputs inputs reg = reg\<lparr>mr_discovery_inputs := inputs\<rparr>"

definition is_metadata_relative_path :: "string \<Rightarrow> string list \<Rightarrow> bool" where
  "is_metadata_relative_path normalized discovery_inputs \<longleftrightarrow>
     is_global_invalidation_path normalized \<or> normalized = PROJECTS_FILENAME \<or>
     list_ex (\<lambda>input0. let input = normalize_relative_path input0 in
        normalized = input \<or> starts_with normalized (input @ ''/'')) discovery_inputs"

definition classify_relative_path :: "MetadataInputRegistry \<Rightarrow> string \<Rightarrow> ChangeClass" where
  "classify_relative_path reg relative =
     (if is_metadata_relative_path (normalize_relative_path relative) (mr_discovery_inputs reg)
      then ChangeMetadata else ChangeSource)"

definition classify_watch_path ::
  "Camino \<Rightarrow> Globset \<Rightarrow> string \<Rightarrow> string \<Rightarrow> PathFilters \<Rightarrow> MetadataInputRegistry \<Rightarrow> ChangeClass" where
  "classify_watch_path cm gs root path filters reg =
     (if should_ignore_path cm gs root path filters then ChangeIgnored
      else case utf8_from_path path of
             None \<Rightarrow> ChangeIgnored
           | Some p \<Rightarrow> classify_relative_path reg (normalize_relative_path (under_root cm root p)))"

fun merge_loop :: "ChangeClass list \<Rightarrow> bool \<Rightarrow> ChangeClass option" where
  "merge_loop [] saw_source = (if saw_source then Some ChangeSource else None)"
| "merge_loop (c # cs) saw_source =
     (case c of
        ChangeMetadata \<Rightarrow> Some ChangeMetadata
      | ChangeSource \<Rightarrow> merge_loop cs True
      | ChangeIgnored \<Rightarrow> merge_loop cs saw_source)"

definition merge_change_classes :: "ChangeClass list \<Rightarrow> ChangeClass option" where
  "merge_change_classes classes = merge_loop classes False"

definition classify_pending_changes ::
  "Camino \<Rightarrow> Globset \<Rightarrow> string \<Rightarrow> string list \<Rightarrow> PathFilters \<Rightarrow> MetadataInputRegistry \<Rightarrow>
     (ChangeClass \<times> (string \<times> ChangeClass) list) option" where
  "classify_pending_changes cm gs root paths filters reg =
     (if paths = [] then None
      else
        let labeled = map (\<lambda>path. (path, classify_watch_path cm gs root path filters reg)) paths
        in map_option (\<lambda>merged. (merged, labeled)) (merge_change_classes (map snd labeled)))"

section \<open>Semantic coalescing\<close>

definition FORMATTER_BURST_THRESHOLD :: nat where "FORMATTER_BURST_THRESHOLD = 3"

record WatchCoalesceStats =
  ws_paths_dropped :: u64
  ws_bursts_collapsed :: u64

record WatchSemanticCoalescer =
  wc_owned_outputs :: "string list"
  wc_stats :: WatchCoalesceStats

definition coalesce_enabled_from :: "string option \<Rightarrow> bool" where
  "coalesce_enabled_from v =
     (case v of
        None \<Rightarrow> True
      | Some text \<Rightarrow>
          let normalized = trim text in
          if normalized = [] then True
          else to_ascii_lowercase normalized \<notin> set [''0'', ''false'', ''no'', ''off''])"

definition set_owned_outputs :: "string list \<Rightarrow> WatchSemanticCoalescer \<Rightarrow> WatchSemanticCoalescer" where
  "set_owned_outputs paths c = c\<lparr>wc_owned_outputs := bs_of_list (map normalize_relative_path paths)\<rparr>"

definition clear_owned_outputs :: "WatchSemanticCoalescer \<Rightarrow> WatchSemanticCoalescer" where
  "clear_owned_outputs c = c\<lparr>wc_owned_outputs := []\<rparr>"

definition watch_relative_path :: "Camino \<Rightarrow> string \<Rightarrow> string \<Rightarrow> string option" where
  "watch_relative_path cm root path = Some (normalize_relative_path (under_root cm root path))"

definition is_fixture_relative_path :: "string \<Rightarrow> bool" where
  "is_fixture_relative_path path \<longleftrightarrow>
     path = ''fixtures'' \<or> starts_with path ''fixtures/'' \<or>
     path = ''tests/fixtures'' \<or> starts_with path ''tests/fixtures/''"

definition is_fixture_only_batch :: "string list \<Rightarrow> bool" where
  "is_fixture_only_batch paths \<longleftrightarrow> paths \<noteq> [] \<and> list_all is_fixture_relative_path paths"

definition is_owned_output :: "string \<Rightarrow> string list \<Rightarrow> bool" where
  "is_owned_output path owned \<longleftrightarrow>
     list_ex (\<lambda>output. path = output \<or> starts_with path (output @ ''/'') \<or> starts_with output (path @ ''/'')) owned"

definition drop_owned_outputs :: "string list \<Rightarrow> string list \<Rightarrow> string list" where
  "drop_owned_outputs paths owned =
     (if owned = [] then paths else filter (\<lambda>path. \<not> is_owned_output path owned) paths)"

text \<open>The last part of a path split at slashes always exists.\<close>

definition base_name :: "string \<Rightarrow> string" where
  "base_name path = after_last (CHR ''/'') path"

definition is_editor_temporary :: "string \<Rightarrow> bool" where
  "is_editor_temporary path =
     (let name = base_name path in
      ends_with name ''.tmp'' \<or> ends_with name ''~'' \<or> starts_with name ''.#'' \<or>
      ends_with name ''.swp'' \<or> ends_with name ''.swx'' \<or> str_contains name ''.sw'')"

definition drop_editor_temporaries :: "string list \<Rightarrow> string list" where
  "drop_editor_temporaries paths = filter (\<lambda>path. \<not> is_editor_temporary path) paths"

definition parent_of :: "string \<Rightarrow> string" where
  "parent_of path = (case rsplit_once (CHR ''/'') path of None \<Rightarrow> [] | Some (p, _) \<Rightarrow> p)"

definition editor_temp_stem :: "string \<Rightarrow> string option" where
  "editor_temp_stem path =
     (let name = base_name path; parent = parent_of path;
          stem = (case strip_prefix ''.#'' name of
                    Some rest \<Rightarrow> Some (case strip_suffix ''.'' rest of Some s \<Rightarrow> s | None \<Rightarrow> rest)
                  | None \<Rightarrow>
                      (case strip_suffix ''.tmp'' name of
                         Some base \<Rightarrow> Some base
                       | None \<Rightarrow> strip_suffix ''~'' name))
      in map_option (\<lambda>s. if parent = [] then s else parent @ ''/'' @ s) stem)"

definition path_stem :: "string \<Rightarrow> string option" where
  "path_stem path =
     (let file = base_name path in
      case rsplit_once (CHR ''.'') file of None \<Rightarrow> Some file | Some (stem, _) \<Rightarrow> Some stem)"

definition collapse_create_rename_pairs :: "string list \<Rightarrow> string list" where
  "collapse_create_rename_pairs paths =
     (if length paths < 2 then paths
      else
        let finals = bs_of_list (filter (\<lambda>path. \<not> is_editor_temporary path) paths)
        in filter (\<lambda>path.
             if \<not> is_editor_temporary path then True
             else case editor_temp_stem path of
                    None \<Rightarrow> True
                  | Some stem \<Rightarrow> \<not> list_ex (\<lambda>f. f = stem \<or> ends_with f (''/'' @ stem) \<or> path_stem f = Some stem) finals)
           paths)"

definition collapse_lockfile_batch :: "string list \<Rightarrow> string list" where
  "collapse_lockfile_batch paths =
     (if list_ex (\<lambda>path. path = ''flake.lock'') paths then [''flake.lock''] else paths)"

text \<open>Grouping by parent directory in a hash map, then one pass over its entries.\<close>

definition group_by_parent :: "string list \<Rightarrow> (string, string list) hashmap" where
  "group_by_parent paths = fold (\<lambda>path m.
     let parent = parent_of path;
         group = (case map_of m parent of None \<Rightarrow> [] | Some g \<Rightarrow> g)
     in hm_insert parent (group @ [path]) m) paths []"

definition collapse_group :: "string \<times> string list \<Rightarrow> string list \<times> u64 \<Rightarrow> string list \<times> u64" where
  "collapse_group = (\<lambda>(parent, group) (out, collapsed).
     if length group \<ge> FORMATTER_BURST_THRESHOLD
     then (if parent = [] then out @ group else out @ [parent], saturating_add collapsed 1)
     else (out @ group, collapsed))"

type_synonym group_order = "(string, string list) hashmap \<Rightarrow> (string, string list) hashmap"

definition collapse_formatter_bursts :: "group_order \<Rightarrow> string list \<Rightarrow> string list \<times> u64" where
  "collapse_formatter_bursts iter paths =
     (case fold collapse_group (iter (group_by_parent paths)) ([], 0) of
        (out, collapsed) \<Rightarrow> (remdups_adj (sort out), collapsed))"

definition add_dropped :: "u64 \<Rightarrow> WatchSemanticCoalescer \<Rightarrow> WatchSemanticCoalescer" where
  "add_dropped n c = c\<lparr>wc_stats := (wc_stats c)\<lparr>ws_paths_dropped := saturating_add (ws_paths_dropped (wc_stats c)) n\<rparr>\<rparr>"

definition add_bursts :: "u64 \<Rightarrow> WatchSemanticCoalescer \<Rightarrow> WatchSemanticCoalescer" where
  "add_bursts n c =
     c\<lparr>wc_stats := (wc_stats c)\<lparr>ws_bursts_collapsed := saturating_add (ws_bursts_collapsed (wc_stats c)) n\<rparr>\<rparr>"

definition coalesce_paths ::
  "Camino \<Rightarrow> group_order \<Rightarrow> string option \<Rightarrow> string \<Rightarrow> string list \<Rightarrow> WatchSemanticCoalescer \<Rightarrow>
     WatchSemanticCoalescer \<times> string list" where
  "coalesce_paths cm iter env root paths c0 =
     (if \<not> coalesce_enabled_from env \<or> paths = [] then (c0, paths)
      else
        let input_len = (of_nat (length paths) :: u64);
            relative = List.map_filter (watch_relative_path cm root) paths
        in if relative = [] then (c0, [])
           else if is_fixture_only_batch relative then (add_dropped input_len c0, [])
           else
             let kept = drop_owned_outputs relative (wc_owned_outputs c0);
                 after_owned = (of_nat (length kept) :: u64);
                 c1 = add_dropped (saturating_sub input_len after_owned) c0;
                 kept = drop_editor_temporaries kept;
                 kept = collapse_create_rename_pairs kept;
                 kept = collapse_lockfile_batch kept
             in case collapse_formatter_bursts iter kept of
                  (kept, bursts) \<Rightarrow>
                    let c2 = add_bursts bursts c1;
                        final_len = (of_nat (length kept) :: u64);
                        c3 = add_dropped (saturating_sub after_owned final_len) c2
                    in (c3, map (cm_join cm root) kept))"

section \<open>Debouncing\<close>

record Debouncer =
  db_window :: nat
  db_dirty_at :: "nat option"

definition Debouncer_new :: "nat \<Rightarrow> Debouncer" where
  "Debouncer_new window = \<lparr>db_window = window, db_dirty_at = None\<rparr>"

definition mark_dirty :: "nat \<Rightarrow> Debouncer \<Rightarrow> Debouncer" where
  "mark_dirty now d = d\<lparr>db_dirty_at := Some now\<rparr>"

definition time_until_ready :: "nat \<Rightarrow> Debouncer \<Rightarrow> nat option" where
  "time_until_ready now d =
     (case db_dirty_at d of None \<Rightarrow> None | Some dirty_at \<Rightarrow> Some (db_window d - (now - dirty_at)))"

definition take_ready :: "nat \<Rightarrow> Debouncer \<Rightarrow> bool \<times> Debouncer" where
  "take_ready now d =
     (case db_dirty_at d of
        None \<Rightarrow> (False, d)
      | Some dirty_at \<Rightarrow>
          if now - dirty_at < db_window d then (False, d) else (True, d\<lparr>db_dirty_at := None\<rparr>))"

type_synonym Generation = u64

definition bump :: "Generation \<Rightarrow> Generation \<times> u64" where
  "bump g = (let g' = saturating_add g 1 in (g', g'))"

section \<open>Coalescing in closed form\<close>

lemma group_by_parent_spec:
  "map_of (group_by_parent paths) d =
     (let g = filter (\<lambda>p. parent_of p = d) paths in if g = [] then None else Some g)"
  "hm_wf (group_by_parent paths)"
proof -
  define f where "f = (\<lambda>path m. let parent = parent_of path;
         group = (case map_of m parent of None \<Rightarrow> [] | Some g \<Rightarrow> g)
     in hm_insert parent (group @ [path]) m)"
  have "map_of (fold f paths m) d =
      (let g = (case map_of m d of None \<Rightarrow> [] | Some g \<Rightarrow> g) @ filter (\<lambda>p. parent_of p = d) paths
       in if map_of m d = None \<and> g = [] then None else Some g)" for m
    by (induction paths arbitrary: m) (auto simp: f_def Let_def split: option.splits)
  from this [of "[]"] show "map_of (group_by_parent paths) d =
     (let g = filter (\<lambda>p. parent_of p = d) paths in if g = [] then None else Some g)"
    by (simp add: group_by_parent_def f_def Let_def)
  have "hm_wf m \<Longrightarrow> hm_wf (fold f paths m)" for m
    by (induction paths arbitrary: m) (auto simp: f_def Let_def)
  then show "hm_wf (group_by_parent paths)" by (simp add: group_by_parent_def f_def)
qed

lemma remdups_adj_sort: "remdups_adj (sort xs) = sorted_list_of_set (set xs)"
proof -
  have strict: "sorted ys \<Longrightarrow> distinct (remdups_adj ys) \<and> sorted (remdups_adj ys)" for ys :: "'a list"
    by (induction ys rule: remdups_adj.induct) (auto simp: sorted_remdups_adj)
  show ?thesis
    using strict [of "sort xs"] by (intro sorted_distinct_set_unique) simp_all
qed

text \<open>A directory with three or more kept files is a burst; a file in a burst gives its directory.\<close>

definition is_burst :: "string list \<Rightarrow> string \<Rightarrow> bool" where
  "is_burst kept d \<longleftrightarrow> length (filter (\<lambda>p. parent_of p = d) kept) \<ge> FORMATTER_BURST_THRESHOLD"

definition collapse_one :: "string list \<Rightarrow> string \<Rightarrow> string" where
  "collapse_one kept p = (if is_burst kept (parent_of p) \<and> parent_of p \<noteq> [] then parent_of p else p)"

lemma collapse_group_fold:
  fixes entries :: "(string \<times> string list) list"
  defines "big \<equiv> (\<lambda>(d, g). length g \<ge> FORMATTER_BURST_THRESHOLD)"
  shows "fst (fold collapse_group entries (out, n)) =
      out @ concat (map (\<lambda>(d, g). if big (d, g) \<and> d \<noteq> [] then [d] else g) entries)"
    and "unat (snd (fold collapse_group entries (out, n))) = min (unat n + length (filter big entries)) (2 ^ 64 - 1)"
proof -
  show "fst (fold collapse_group entries (out, n)) =
      out @ concat (map (\<lambda>(d, g). if big (d, g) \<and> d \<noteq> [] then [d] else g) entries)"
    by (induction entries arbitrary: out n) (auto simp: collapse_group_def big_def)
  have le: "unat (k :: u64) \<le> 2 ^ 64 - 1" for k using unat_max_word [where 'a = 64] word_le_nat_alt [of k "-1"] by simp
  show "unat (snd (fold collapse_group entries (out, n))) = min (unat n + length (filter big entries)) (2 ^ 64 - 1)"
  proof (induction entries arbitrary: out n)
    case Nil
    then show ?case using le [of n] by simp
  next
    case (Cons e entries)
    obtain d g where e: "e = (d, g)" by fastforce
    show ?case
      unfolding e fold.simps comp_apply using Cons.IH
      by (auto simp: collapse_group_def big_def unat_saturating_add)
  qed
qed

lemma collapse_formatter_bursts_eq:
  assumes "hash_order iter"
  shows "fst (collapse_formatter_bursts iter kept) = sorted_list_of_set (collapse_one kept ` set kept)"
    and "unat (snd (collapse_formatter_bursts iter kept)) =
      min (card {d \<in> parent_of ` set kept. is_burst kept d}) (2 ^ 64 - 1)"
proof -
  let ?m = "group_by_parent kept"
  let ?big = "\<lambda>(d :: string, g :: string list). length g \<ge> FORMATTER_BURST_THRESHOLD"
  note wf = group_by_parent_spec(2) [of kept]
  have entries: "(d, g) \<in> set (iter ?m) \<longleftrightarrow> g = filter (\<lambda>p. parent_of p = d) kept \<and> g \<noteq> []" for d g
    using hash_order_set [OF assms] hm_wf_lookup [OF wf] group_by_parent_spec(1) [of kept d]
    by (auto simp: Let_def split: if_splits)
  define emit where "emit = (\<lambda>(d, g). if ?big (d, g) \<and> d \<noteq> [] then [d] else g)"
  have "set (concat (map emit (iter ?m))) = collapse_one kept ` set kept" (is "?L = ?R")
  proof
    show "?L \<subseteq> ?R"
    proof
      fix q
      assume "q \<in> ?L"
      then obtain d g where dg: "(d, g) \<in> set (iter ?m)" "q \<in> set (emit (d, g))" by auto
      have g: "g = filter (\<lambda>p. parent_of p = d) kept" "g \<noteq> []" using dg(1) unfolding entries by blast+
      then obtain p where "p \<in> set kept" "parent_of p = d" by (auto simp: filter_empty_conv)
      with dg(2) g(1) show "q \<in> ?R"
        by (auto simp: emit_def collapse_one_def is_burst_def split: if_splits intro!: image_eqI)
    qed
    show "?R \<subseteq> ?L"
    proof
      fix q
      assume "q \<in> ?R"
      then obtain p where p: "p \<in> set kept" "q = collapse_one kept p" by auto
      let ?g = "filter (\<lambda>x. parent_of x = parent_of p) kept"
      have "(parent_of p, ?g) \<in> set (iter ?m)" using p(1) by (auto simp: entries filter_empty_conv)
      moreover have "q \<in> set (emit (parent_of p, ?g))"
        using p by (auto simp: emit_def collapse_one_def is_burst_def)
      ultimately have "\<exists>x \<in> set (iter ?m). q \<in> set (emit x)" by (rule rev_bexI)
      then show "q \<in> ?L" by simp
    qed
  qed
  show "fst (collapse_formatter_bursts iter kept) = sorted_list_of_set (collapse_one kept ` set kept)"
  proof -
    have "fst (fold collapse_group (iter ?m) ([], 0)) = concat (map emit (iter ?m))"
      using collapse_group_fold(1) [of "iter ?m" "[]" 0] by (simp add: emit_def)
    then have "fst (collapse_formatter_bursts iter kept) = sorted_list_of_set (set (concat (map emit (iter ?m))))"
      unfolding collapse_formatter_bursts_def case_prod_beta fst_conv by (simp only: remdups_adj_sort)
    with \<open>?L = ?R\<close> show ?thesis by simp
  qed
  have "distinct (map fst (iter ?m))"
    using hash_order_map_of(2) [OF assms wf] by (simp add: hm_wf_def)
  then have "length (filter ?big (iter ?m)) = card (fst ` set (filter ?big (iter ?m)))"
    by (metis distinct_card distinct_map_filter length_map set_map)
  also have "fst ` set (filter ?big (iter ?m)) = {d \<in> parent_of ` set kept. is_burst kept d}"
    by (force simp: entries is_burst_def filter_empty_conv FORMATTER_BURST_THRESHOLD_def)
  finally show "unat (snd (collapse_formatter_bursts iter kept)) =
      min (card {d \<in> parent_of ` set kept. is_burst kept d}) (2 ^ 64 - 1)"
    using collapse_group_fold(2) [of "iter ?m" "[]" 0]
    by (cases "fold collapse_group (iter ?m) ([], 0)") (simp add: collapse_formatter_bursts_def)
qed

lemma length_filter_le_conj: "length (filter (\<lambda>x. P x \<and> Q x) xs) \<le> length (filter P xs)"
  by (induction xs) auto

text \<open>Once the temporaries are gone no pair of a temporary and its target is left.\<close>

lemma collapse_create_rename_pairs_id:
  "list_all (\<lambda>p. \<not> is_editor_temporary p) paths \<Longrightarrow> collapse_create_rename_pairs paths = paths"
  by (simp add: collapse_create_rename_pairs_def list_all_iff filter_id_conv)

text \<open>
  The files of a batch that are kept, and the paths they are collapsed to: the lock file alone when
  it is among them, otherwise every file or the directory of its burst, in order.
\<close>

definition kept_files :: "WatchSemanticCoalescer \<Rightarrow> string list \<Rightarrow> string list" where
  "kept_files c relative =
     filter (\<lambda>p. \<not> is_owned_output p (wc_owned_outputs c) \<and> \<not> is_editor_temporary p) relative"

definition collapsed_batch :: "string list \<Rightarrow> string list" where
  "collapsed_batch kept =
     (if ''flake.lock'' \<in> set kept then [''flake.lock''] else sorted_list_of_set (collapse_one kept ` set kept))"

lemma drop_owned_filter: "drop_owned_outputs paths owned = filter (\<lambda>p. \<not> is_owned_output p owned) paths"
  by (simp add: drop_owned_outputs_def is_owned_output_def)

lemma collapse_one_single: "collapse_one [p] q = q"
  by (simp add: collapse_one_def is_burst_def FORMATTER_BURST_THRESHOLD_def)

lemma unat_add_dropped:
  "unat (ws_paths_dropped (wc_stats (add_dropped n c))) =
     min (unat (ws_paths_dropped (wc_stats c)) + unat n) (2 ^ 64 - 1)"
  by (simp add: add_dropped_def unat_saturating_add)

lemma coalesce_pipeline:
  assumes iter: "hash_order iter"
  shows "fst (collapse_formatter_bursts iter (collapse_lockfile_batch (collapse_create_rename_pairs
      (drop_editor_temporaries (drop_owned_outputs relative (wc_owned_outputs c)))))) =
    collapsed_batch (kept_files c relative)"
proof -
  have "drop_editor_temporaries (drop_owned_outputs relative (wc_owned_outputs c)) = kept_files c relative"
    by (simp add: drop_editor_temporaries_def drop_owned_filter kept_files_def conj_commute)
  moreover have "collapse_create_rename_pairs (kept_files c relative) = kept_files c relative"
    by (rule collapse_create_rename_pairs_id) (simp add: kept_files_def list_all_iff)
  ultimately show ?thesis
    using collapse_formatter_bursts_eq(1) [OF iter]
    by (auto simp: collapse_lockfile_batch_def collapsed_batch_def list_ex_iff collapse_one_single)
qed

lemma length_collapsed: "length (collapsed_batch kept) \<le> length kept"
proof (cases "''flake.lock'' \<in> set kept")
  case True
  then have "kept \<noteq> []" by auto
  with True show ?thesis by (simp add: collapsed_batch_def Suc_le_eq)
next
  case False
  have "card (collapse_one kept ` set kept) \<le> length kept"
    using card_image_le [of "set kept" "collapse_one kept"] card_length [of kept] by (meson List.finite_set order_trans)
  with False show ?thesis by (simp add: collapsed_batch_def)
qed

lemma coalesce_relative:
  "relative = map (\<lambda>p. normalize_relative_path (under_root cm root p)) paths \<Longrightarrow>
     List.map_filter (watch_relative_path cm root) paths = relative"
  by (simp add: watch_relative_path_def List.map_filter_def comp_def)

text \<open>A batch that is not dropped as a whole.\<close>

lemma coalesce_batch:
  assumes iter: "hash_order iter" and len: "length paths < 2 ^ 64"
    and r: "coalesce_paths cm iter env root paths c = (c', out)"
    and rel: "relative = map (\<lambda>p. normalize_relative_path (under_root cm root p)) paths"
    and batch: "coalesce_enabled_from env" "paths \<noteq> []" "\<not> list_all is_fixture_relative_path relative"
  defines "final \<equiv> collapsed_batch (kept_files c relative)"
  shows "out = map (cm_join cm root) final \<and> wc_owned_outputs c' = wc_owned_outputs c \<and>
    unat (ws_paths_dropped (wc_stats c')) =
      min (unat (ws_paths_dropped (wc_stats c)) + (length paths - length final)) (2 ^ 64 - 1)"
proof -
  have ne: "relative \<noteq> []" using batch rel by simp
  let ?owned = "drop_owned_outputs relative (wc_owned_outputs c)"
  obtain bursts where fb: "collapse_formatter_bursts iter (collapse_lockfile_batch (collapse_create_rename_pairs
      (drop_editor_temporaries ?owned))) = (final, bursts)"
    using coalesce_pipeline [OF iter, of relative c] unfolding final_def by (metis prod.collapse)
  have c': "c' = add_dropped (saturating_sub (of_nat (length ?owned)) (of_nat (length final)))
      (add_bursts bursts (add_dropped (saturating_sub (of_nat (length paths)) (of_nat (length ?owned))) c))"
    and out: "out = map (cm_join cm root) final"
    using batch r coalesce_relative [OF rel] ne fb by (auto simp: coalesce_paths_def Let_def is_fixture_only_batch_def)
  have l1: "length ?owned \<le> length paths" by (simp add: drop_owned_filter rel length_filter_le)
  have "length (kept_files c relative) \<le> length ?owned"
    unfolding kept_files_def drop_owned_filter by (intro length_filter_le_conj)
  with length_collapsed have l2: "length final \<le> length ?owned" unfolding final_def using order_trans by blast
  have "unat (ws_paths_dropped (wc_stats (add_bursts bursts x))) = unat (ws_paths_dropped (wc_stats x))" for x
    by (simp add: add_bursts_def)
  with c' l1 l2 len have "unat (ws_paths_dropped (wc_stats c')) =
      min (unat (ws_paths_dropped (wc_stats c)) + (length paths - length final)) (2 ^ 64 - 1)"
    by (simp add: unat_add_dropped unat_saturating_sub unat_of_nat_small)
  then show ?thesis using out by (simp add: c' add_dropped_def add_bursts_def)
qed

text \<open>
  What the code does to any batch: it drops every file that looks like an editor temporary, whether
  or not the batch holds the file it would be renamed to.
\<close>

lemma coalesce_closed_form:
  assumes iter: "hash_order iter" and len: "length paths < 2 ^ 64"
    and r: "coalesce_paths cm iter env root paths c = (c', out)"
    and rel: "relative = map (\<lambda>p. normalize_relative_path (under_root cm root p)) paths"
  shows "out =
      (if \<not> coalesce_enabled_from env then paths
       else if list_all is_fixture_relative_path relative then []
       else map (cm_join cm root) (collapsed_batch (kept_files c relative))) \<and>
    wc_owned_outputs c' = wc_owned_outputs c \<and>
    unat (ws_paths_dropped (wc_stats c')) =
      min (unat (ws_paths_dropped (wc_stats c)) + (length paths - length out)) (2 ^ 64 - 1)"
proof -
  have le: "unat (k :: u64) \<le> 2 ^ 64 - 1" for k
    using unat_max_word [where 'a = 64] word_le_nat_alt [of k "-1"] by simp
  consider (off) "\<not> coalesce_enabled_from env \<or> paths = []"
    | (fixture) "coalesce_enabled_from env" "paths \<noteq> []" "list_all is_fixture_relative_path relative"
    | (batch) "coalesce_enabled_from env" "paths \<noteq> []" "\<not> list_all is_fixture_relative_path relative"
    by blast
  then show ?thesis
  proof cases
    case off
    with r rel le show ?thesis by (auto simp: coalesce_paths_def)
  next
    case fixture
    have "relative \<noteq> []" using fixture rel by simp
    then have "(c', out) = (add_dropped (of_nat (length paths)) c, [])"
      using fixture r coalesce_relative [OF rel] by (simp add: coalesce_paths_def Let_def is_fixture_only_batch_def)
    with fixture len show ?thesis
      by (simp add: unat_add_dropped unat_of_nat_small) (simp add: add_dropped_def)
  next
    case batch
    with coalesce_batch [OF iter len r rel] show ?thesis by simp
  qed
qed




text \<open>
  C40: Coalescing loses no change that is not meant to be dropped. When it is switched on and the
  batch has a file outside the fixtures, every changed file with a non-empty relative path that is
  neither an output of the running tasks (nor a directory above one) nor looks like an editor
  temporary is still there after coalescing: as itself, as its directory, or as the lock file, which
  invalidates everything. Every path that comes out is a changed file or the directory of at least
  three of them.
\<close>

theorem coalesce_keeps_changes:
  assumes iter: "hash_order iter" and len: "length paths < 2 ^ 64"
    and r: "coalesce_paths cm iter env root paths c = (c', out)"
    and rel: "relative = map (\<lambda>p. normalize_relative_path (under_root cm root p)) paths"
    and batch: "coalesce_enabled_from env" "\<not> list_all is_fixture_relative_path relative"
  shows "(\<forall>p \<in> set relative. \<not> is_owned_output p (wc_owned_outputs c) \<and> \<not> is_editor_temporary p \<longrightarrow>
      (\<exists>q \<in> {p, parent_of p, ''flake.lock''}. q \<noteq> [] \<and> cm_join cm root q \<in> set out) \<or> p = []) \<and>
    (\<forall>o' \<in> set out. \<exists>q. o' = cm_join cm root q \<and> (q \<in> set relative \<or> is_burst relative q))"
proof -
  let ?kept = "kept_files c relative"
  have "paths \<noteq> []" using batch rel by auto
  from coalesce_batch [OF iter len r rel batch(1) this batch(2)]
  have out: "set out = cm_join cm root ` set (collapsed_batch ?kept)" by simp
  have set: "set (collapsed_batch ?kept) =
      (if ''flake.lock'' \<in> set ?kept then {''flake.lock''} else collapse_one ?kept ` set ?kept)"
    by (simp add: collapsed_batch_def)
  have sub: "is_burst relative d" if "is_burst ?kept d" for d
  proof -
    have "filter (\<lambda>p. parent_of p = d) ?kept = filter (\<lambda>p. \<not> is_owned_output p (wc_owned_outputs c) \<and>
        \<not> is_editor_temporary p) (filter (\<lambda>p. parent_of p = d) relative)"
      by (auto simp: kept_files_def intro: filter_cong)
    then have "length (filter (\<lambda>p. parent_of p = d) ?kept) \<le> length (filter (\<lambda>p. parent_of p = d) relative)"
      by (metis length_filter_le)
    with that show ?thesis by (simp add: is_burst_def)
  qed
  have "\<exists>q. o' = cm_join cm root q \<and> (q \<in> set relative \<or> is_burst relative q)" if "o' \<in> set out" for o'
  proof -
    from that out obtain q where q: "o' = cm_join cm root q" "q \<in> set (collapsed_batch ?kept)" by auto
    moreover have "set ?kept \<subseteq> set relative" by (auto simp: kept_files_def)
    ultimately have "q \<in> set relative \<or> is_burst ?kept q"
      by (auto simp: set collapse_one_def split: if_splits)
    with sub q show ?thesis by blast
  qed
  moreover have "\<exists>q \<in> {p, parent_of p, ''flake.lock''}. q \<noteq> [] \<and> cm_join cm root q \<in> set out"
    if "p \<in> set relative" "\<not> is_owned_output p (wc_owned_outputs c)" "\<not> is_editor_temporary p" "p \<noteq> []" for p
  proof -
    have "p \<in> set ?kept" using that by (simp add: kept_files_def)
    then have "\<exists>q \<in> {p, parent_of p, ''flake.lock''}. q \<noteq> [] \<and> q \<in> set (collapsed_batch ?kept)"
      using that(4) by (auto simp: set collapse_one_def image_iff)
    with out show ?thesis by auto
  qed
  ultimately show ?thesis by blast
qed

section \<open>Classification\<close>

lemma merge_loop_eq:
  "merge_loop cs saw =
     (if ChangeMetadata \<in> set cs then Some ChangeMetadata
      else if saw \<or> ChangeSource \<in> set cs then Some ChangeSource else None)"
  by (induction cs arbitrary: saw) (auto split: ChangeClass.splits)

text \<open>
  The class of a batch: metadata when one of its paths is a metadata input that no filter
  ignores, otherwise source when one of its paths is not ignored, otherwise no restart. Each path
  is labelled with its own class, in order. A path is a metadata input exactly when it is valid
  UTF-8, not ignored and, relative to the root, a global input, the projects file or at or below a
  discovery input.
\<close>

lemma classify_pending_changes_correct:
  "classify_pending_changes cm gs root paths filters reg =
     (let cls = (\<lambda>p. classify_watch_path cm gs root p filters reg); labeled = map (\<lambda>p. (p, cls p)) paths in
      if list_ex (\<lambda>p. cls p = ChangeMetadata) paths then Some (ChangeMetadata, labeled)
      else if list_ex (\<lambda>p. cls p = ChangeSource) paths then Some (ChangeSource, labeled)
      else None) \<and>
   (classify_watch_path cm gs root p filters reg = ChangeIgnored \<longleftrightarrow> should_ignore_path cm gs root p filters) \<and>
   (classify_watch_path cm gs root p filters reg = ChangeMetadata \<longleftrightarrow>
      \<not> should_ignore_path cm gs root p filters \<and>
      is_metadata_relative_path (normalize_relative_path (normalize_relative_path (under_root cm root p)))
        (mr_discovery_inputs reg))"
proof -
  let ?cls = "\<lambda>p. classify_watch_path cm gs root p filters reg"
  have "classify_pending_changes cm gs root paths filters reg =
     (let labeled = map (\<lambda>p. (p, ?cls p)) paths in
      if list_ex (\<lambda>p. ?cls p = ChangeMetadata) paths then Some (ChangeMetadata, labeled)
      else if list_ex (\<lambda>p. ?cls p = ChangeSource) paths then Some (ChangeSource, labeled)
      else None)"
    by (cases paths) (simp_all add: classify_pending_changes_def merge_change_classes_def merge_loop_eq Let_def
        list_ex_iff image_iff comp_def eq_commute [of ChangeMetadata] eq_commute [of ChangeSource])
  moreover have "?cls p = ChangeIgnored \<longleftrightarrow> should_ignore_path cm gs root p filters"
    by (auto simp: classify_watch_path_def classify_relative_path_def should_ignore_path_def split: option.splits)
  moreover have "utf8_from_path p = Some p" if "\<not> should_ignore_path cm gs root p filters"
    using that by (auto simp: should_ignore_path_def utf8_from_path_def split: option.splits if_splits)
  then have "?cls p = ChangeMetadata \<longleftrightarrow> \<not> should_ignore_path cm gs root p filters \<and>
      is_metadata_relative_path (normalize_relative_path (normalize_relative_path (under_root cm root p)))
        (mr_discovery_inputs reg)"
    by (auto simp: classify_watch_path_def classify_relative_path_def)
  ultimately show ?thesis by (simp add: Let_def)
qed

section \<open>Coalescing before classification\<close>

lemma burst_collapses:
  assumes "kept \<noteq> []" "list_all (\<lambda>p. parent_of p = d) kept" "d \<noteq> []" "length kept \<ge> 3"
  shows "collapsed_batch kept = [d]"
proof -
  have "parent_of ''flake.lock'' = []" by code_simp
  with assms(2,3) have lock: "''flake.lock'' \<notin> set kept" by (auto simp: list_all_iff)
  have "filter (\<lambda>p. parent_of p = d) kept = kept" using assms(2) by (simp add: list_all_iff filter_id_conv)
  then have "is_burst kept d" using assms(4) by (simp add: is_burst_def FORMATTER_BURST_THRESHOLD_def)
  then have "collapse_one kept p = d" if "p \<in> set kept" for p
    using that assms(2,3) by (auto simp: collapse_one_def list_all_iff)
  then have "collapse_one kept ` set kept = (\<lambda>_. d) ` set kept" by (rule image_cong [OF refl])
  then have "collapse_one kept ` set kept = {d}" using assms(1) by (simp add: image_constant_conv)
  with lock show ?thesis by (simp add: collapsed_batch_def)
qed

text \<open>
  Coalescing comes before classification and can hide a change of metadata. When three or more
  files of one directory change, the batch becomes that directory alone, and unless the directory
  itself is a metadata input the restart is classified as a source change, although the files
  themselves, taken before coalescing, make it a metadata change.
\<close>

lemma burst_hides_metadata:
  assumes iter: "hash_order iter" and on: "coalesce_enabled_from env"
    and len: "3 \<le> length paths" "length paths < 2 ^ 64"
    and rel: "relative = map (\<lambda>p. normalize_relative_path (under_root cm root p)) paths"
    and dir: "d \<noteq> []" "list_all (\<lambda>p. parent_of p = d) relative"
    and kept: "list_all (\<lambda>p. \<not> is_owned_output p (wc_owned_outputs c) \<and> \<not> is_editor_temporary p) relative"
      "\<not> list_all is_fixture_relative_path relative"
    and meta: "list_ex (\<lambda>p. classify_watch_path cm gs root p filters reg = ChangeMetadata) paths"
    and source: "classify_watch_path cm gs root (cm_join cm root d) filters reg = ChangeSource"
    and r: "coalesce_paths cm iter env root paths c = (c', out)"
  shows "map_option fst (classify_pending_changes cm gs root paths filters reg) = Some ChangeMetadata \<and>
    out = [cm_join cm root d] \<and>
    map_option fst (classify_pending_changes cm gs root out filters reg) = Some ChangeSource"
proof -
  have ne: "paths \<noteq> []" "relative \<noteq> []" using len rel by auto
  have "kept_files c relative = relative" using kept(1) by (simp add: kept_files_def list_all_iff filter_id_conv)
  with coalesce_batch [OF iter len(2) r rel on ne(1) kept(2)] burst_collapses [OF ne(2) dir(2,1)] len(1) rel
  have out: "out = [cm_join cm root d]" by simp
  have labels: "map_option fst (classify_pending_changes cm gs root ps filters reg) =
      merge_loop (map (\<lambda>p. classify_watch_path cm gs root p filters reg) ps) False" if "ps \<noteq> []" for ps
    using that by (simp add: classify_pending_changes_def Let_def merge_change_classes_def option.map_comp comp_def
        option.map_ident)
  have "ChangeMetadata \<in> set (map (\<lambda>p. classify_watch_path cm gs root p filters reg) paths)"
    using meta by (auto simp: list_ex_iff image_iff intro: sym)
  then have "map_option fst (classify_pending_changes cm gs root paths filters reg) = Some ChangeMetadata"
    using labels [OF ne(1)] by (simp only: merge_loop_eq if_True)
  moreover have "map_option fst (classify_pending_changes cm gs root out filters reg) = Some ChangeSource"
    using labels [of out] out source by simp
  ultimately show ?thesis using out by blast
qed

section \<open>The debouncer\<close>

text \<open>After a burst of marks the window counts from the last one, and it fires once.\<close>

lemma debouncer_fires:
  assumes "ts \<noteq> []" and "d = fold mark_dirty ts (Debouncer_new window)"
  shows "fst (take_ready now d) \<longleftrightarrow> window \<le> now - last ts"
    and "time_until_ready now d = Some 0 \<longleftrightarrow> fst (take_ready now d)"
    and "fst (take_ready now d) \<Longrightarrow> \<not> fst (take_ready later (snd (take_ready now d)))"
proof -
  have "fold mark_dirty ts e = e\<lparr>db_dirty_at := Some (last ts)\<rparr>" for e
    using assms(1) by (induction ts arbitrary: e) (auto simp: mark_dirty_def)
  then have d: "d = \<lparr>db_window = window, db_dirty_at = Some (last ts)\<rparr>"
    by (simp add: assms(2) Debouncer_new_def)
  show "fst (take_ready now d) \<longleftrightarrow> window \<le> now - last ts"
    "time_until_ready now d = Some 0 \<longleftrightarrow> fst (take_ready now d)"
    "fst (take_ready now d) \<Longrightarrow> \<not> fst (take_ready later (snd (take_ready now d)))"
    by (auto simp: d take_ready_def time_until_ready_def)
qed

lemma bump_grows: "unat (snd (bump g)) = min (unat g + 1) (2 ^ 64 - 1) \<and> fst (bump g) = snd (bump g)"
  by (simp add: bump_def Let_def unat_saturating_add)

section \<open>Examples\<close>

text \<open>Paths as plain text, and a glob crate without patterns.\<close>

definition text_paths :: Camino where
  "text_paths = \<lparr>cm_strip_prefix = (\<lambda>path root. strip_prefix (root @ ''/'') path),
     cm_join = (\<lambda>root path. root @ ''/'' @ path),
     cm_starts_with = (\<lambda>path base. path = base \<or> starts_with path (base @ ''/'')),
     cm_components = path_components\<rparr>"

definition no_globs :: Globset where
  "no_globs = \<lparr>glob_new = (\<lambda>_. None), globset_build = (\<lambda>_. None), globset_is_match = (\<lambda>_ _. False)\<rparr>"

definition fresh_coalescer :: WatchSemanticCoalescer where
  "fresh_coalescer = \<lparr>wc_owned_outputs = [], wc_stats = \<lparr>ws_paths_dropped = 0, ws_bursts_collapsed = 0\<rparr>\<rparr>"

definition nix_paths :: "string list" where
  "nix_paths = [''/p/nix/a.nix'', ''/p/nix/b.nix'', ''/p/nix/c.nix'']"

definition nix_relative :: "string list" where
  "nix_relative = [''nix/a.nix'', ''nix/b.nix'', ''nix/c.nix'']"

lemma nix_relative_eq:
  "nix_relative = map (\<lambda>p. normalize_relative_path (under_root text_paths ''/p'' p)) nix_paths"
  by code_simp

lemma nix_relative_facts:
  "list_all (\<lambda>p. parent_of p = ''nix'') nix_relative" "\<not> list_all is_fixture_relative_path nix_relative"
  "list_all (\<lambda>p. \<not> is_owned_output p [] \<and> \<not> is_editor_temporary p) nix_relative"
  "coalesce_enabled_from None"
  by code_simp+

lemma nix_classes:
  "classify_watch_path text_paths no_globs ''/p'' ''/p/nix/a.nix'' PathFilters_none MetadataInputRegistry_new = ChangeMetadata"
  "classify_watch_path text_paths no_globs ''/p'' (cm_join text_paths ''/p'' ''nix'') PathFilters_none MetadataInputRegistry_new = ChangeSource"
  by code_simp+

lemma hash_order_id: "hash_order id"
  by (simp add: hash_order_def)

lemma burst_hides_metadata_example:
  "snd (coalesce_paths text_paths id None ''/p'' nix_paths fresh_coalescer) = [''/p/nix'']"
proof -
  have o: "wc_owned_outputs fresh_coalescer = []" by (simp add: fresh_coalescer_def)
  have m: "list_ex (\<lambda>p. classify_watch_path text_paths no_globs ''/p'' p PathFilters_none MetadataInputRegistry_new =
      ChangeMetadata) nix_paths"
    using nix_classes(1) by (simp add: nix_paths_def)
  have l: "3 \<le> length nix_paths" "length nix_paths < 2 ^ 64" by (simp_all add: nix_paths_def)
  obtain c' out where r: "coalesce_paths text_paths id None ''/p'' nix_paths fresh_coalescer = (c', out)" by fastforce
  from burst_hides_metadata [OF hash_order_id nix_relative_facts(4) l nix_relative_eq _ nix_relative_facts(1)
      nix_relative_facts(3) [folded o] nix_relative_facts(2) m nix_classes(2) r]
  have "out = [cm_join text_paths ''/p'' ''nix'']" by blast
  then show ?thesis unfolding r by (simp add: text_paths_def)
qed




theorem coalesce_keeps_changes_witness:
  "\<exists>q \<in> {''nix/a.nix'', ''nix'', ''flake.lock''}.
     cm_join text_paths ''/p'' q \<in> set (snd (coalesce_paths text_paths id None ''/p'' nix_paths fresh_coalescer))"
proof -
  obtain c' out where r: "coalesce_paths text_paths id None ''/p'' nix_paths fresh_coalescer = (c', out)" by fastforce
  have l: "length nix_paths < 2 ^ 64" by (simp add: nix_paths_def)
  have "''nix/a.nix'' \<in> set nix_relative" "parent_of ''nix/a.nix'' = ''nix''"
    using nix_relative_facts(1) by (simp_all add: nix_relative_def)
  moreover have "\<not> is_owned_output ''nix/a.nix'' (wc_owned_outputs fresh_coalescer)" "\<not> is_editor_temporary ''nix/a.nix''"
    using nix_relative_facts(3) by (simp_all add: nix_relative_def fresh_coalescer_def)
  ultimately show ?thesis
    using coalesce_keeps_changes [OF hash_order_id l r nix_relative_eq nix_relative_facts(4,2)] r by fastforce
qed

text \<open>
  The test for editor temporaries looks for \<open>.sw\<close> anywhere in a file name, so that a Swift source
  is dropped like a swap file.
\<close>

lemma swift_is_temporary: "is_editor_temporary ''Sources/App.swift''"
  by code_simp

text \<open>
  A temporary whose final target is not in the batch is dropped too; here it is the whole batch, so
  that the change starts nothing. The documented rule keeps it.
\<close>

lemma unpaired_temporary_dropped:
  "snd (coalesce_paths text_paths id None ''/p'' [''/p/notes.md~''] fresh_coalescer) = []"
  "collapse_create_rename_pairs [''notes.md~''] = [''notes.md~'']"
proof -
  obtain c' out where r: "coalesce_paths text_paths id None ''/p'' [''/p/notes.md~''] fresh_coalescer = (c', out)" by fastforce
  have rel: "[''notes.md~''] = map (\<lambda>p. normalize_relative_path (under_root text_paths ''/p'' p)) [''/p/notes.md~'']" by code_simp
  have "kept_files fresh_coalescer [''notes.md~''] = []" by code_simp
  moreover have "\<not> list_all is_fixture_relative_path [''notes.md~'']" by code_simp
  ultimately have "out = []"
    using coalesce_closed_form [OF hash_order_id _ r rel] nix_relative_facts(4) by (auto simp: collapsed_batch_def)
  then show "snd (coalesce_paths text_paths id None ''/p'' [''/p/notes.md~''] fresh_coalescer) = []" by (simp add: r)
qed (simp add: collapse_create_rename_pairs_def)

end
