(* ===== verification/Parameters.thy ===== *)
theory Parameters
  imports Matrix
begin

text \<open>
  Typed task parameters (\<open>crates/nxr-task/src/parameters.rs\<close>): validation of their declarations and
  their resolution into environment variables at spawn. The caller's environment is a function, a
  prompt is a function with a state of its own (it may ask a terminal), and the text of a list of
  strings in an error, \<open>{:?}\<close> in the source, is the argument \<open>dbg\<close>.
\<close>

section \<open>Resolution\<close>

definition PARAM_ENV_PREFIX :: string where
  "PARAM_ENV_PREFIX = ''NXR_PARAM_''"

datatype ParameterError =
    ParamInvalid string string string
  | ParamMissing string string string
  | ParamUnknownSet string
  | ParamPrompt string string string

definition parameter_env_name :: "string \<Rightarrow> string" where
  "parameter_env_name name = PARAM_ENV_PREFIX @ to_ascii_uppercase name"

type_synonym parameters = "(string, TaskParameter) btmap"
type_synonym debug_list = "string list \<Rightarrow> string"

definition parameter_names :: "parameters \<Rightarrow> string list" where
  "parameter_names ps = sort (bt_keys ps)"

definition parameter_invalid :: "string \<Rightarrow> string \<Rightarrow> string \<Rightarrow> ParameterError" where
  "parameter_invalid task name message = ParamInvalid task name message"

definition json_default_to_string ::
  "string \<Rightarrow> string \<Rightarrow> TaskParameter \<Rightarrow> JsonValue \<Rightarrow> (ParameterError, string) outcome" where
  "json_default_to_string task name p dflt =
     (case tp_param_type p of
        ParamString \<Rightarrow> (case dflt of JString v \<Rightarrow> Ok v | _ \<Rightarrow> Err (parameter_invalid task name ''default must be a string''))
      | ParamChoice \<Rightarrow> (case dflt of JString v \<Rightarrow> Ok v | _ \<Rightarrow> Err (parameter_invalid task name ''default must be a string''))
      | ParamBoolean \<Rightarrow>
          (case dflt of
             JBool b \<Rightarrow> Ok (if b then ''true'' else ''false'')
           | _ \<Rightarrow> Err (parameter_invalid task name ''default must be a boolean'')))"

definition normalize_boolean :: "string \<Rightarrow> (string, string) outcome" where
  "normalize_boolean v =
     (let t = to_ascii_lowercase (trim v) in
      if t \<in> set [''true'', ''1'', ''yes'', ''on''] then Ok ''true''
      else if t \<in> set [''false'', ''0'', ''no'', ''off''] then Ok ''false''
      else Err (''boolean parameter must be true or false (got '' @ v @ '')''))"

definition choice_values :: "TaskParameter \<Rightarrow> string list option" where
  "choice_values p =
     (case tp_values p of None \<Rightarrow> None | Some vs \<Rightarrow> if vs = [] then None else Some vs)"

definition normalize_parameter_value ::
  "debug_list \<Rightarrow> string \<Rightarrow> string \<Rightarrow> TaskParameter \<Rightarrow> string \<Rightarrow> (ParameterError, string) outcome" where
  "normalize_parameter_value dbg task name p v =
     (case tp_param_type p of
        ParamString \<Rightarrow> Ok v
      | ParamChoice \<Rightarrow>
          bind (ok_or (parameter_invalid task name ''choice parameters require values'') (choice_values p)) (\<lambda>vs.
            if list_ex (\<lambda>allowed. allowed = v) vs then Ok v
            else Err (parameter_invalid task name (''value must be one of '' @ dbg vs)))
      | ParamBoolean \<Rightarrow> map_err (\<lambda>message. ParamInvalid task name message) (normalize_boolean v))"

type_synonym 's prompt = "string \<Rightarrow> TaskParameter \<Rightarrow> 's \<Rightarrow> (ParameterError, string) outcome \<times> 's"

text \<open>
  The value of one parameter before normalization: an override that is not empty, the caller's
  environment, the default, or the prompt. \<open>raw_value\<close> is the first two.
\<close>

definition raw_value :: "(string, string) btmap \<Rightarrow> (string \<Rightarrow> string option) \<Rightarrow> string \<Rightarrow> string option" where
  "raw_value cli_sets lookup_env name =
     (case map_of cli_sets name of
        Some v \<Rightarrow> if v \<noteq> [] then Some v else lookup_env (parameter_env_name name)
      | None \<Rightarrow> lookup_env (parameter_env_name name))"

definition parameter_value ::
  "string \<Rightarrow> (string, string) btmap \<Rightarrow> (string \<Rightarrow> string option) \<Rightarrow> 's prompt option \<Rightarrow>
     string \<Rightarrow> TaskParameter \<Rightarrow> 's \<Rightarrow> (ParameterError, string) outcome \<times> 's" where
  "parameter_value task cli_sets lookup_env prompt name p s =
     (let fallback =
        (case tp_default p of
           Some dflt \<Rightarrow> (json_default_to_string task name p dflt, s)
         | None \<Rightarrow>
             (case prompt of
                Some ask \<Rightarrow> ask name p s
              | None \<Rightarrow> (Err (ParamMissing task name (parameter_env_name name)), s)))
      in case raw_value cli_sets lookup_env name of
           Some v \<Rightarrow> if v \<noteq> [] then (Ok v, s) else fallback
         | None \<Rightarrow> fallback)"

fun layered_loop ::
  "debug_list \<Rightarrow> string \<Rightarrow> (string, string) btmap \<Rightarrow> (string \<Rightarrow> string option) \<Rightarrow> 's prompt option \<Rightarrow>
     parameters \<Rightarrow> (string, string) btmap \<Rightarrow> 's \<Rightarrow> (ParameterError, (string, string) btmap) outcome \<times> 's" where
  "layered_loop dbg task cli_sets lookup_env prompt [] env s = (Ok env, s)"
| "layered_loop dbg task cli_sets lookup_env prompt ((name, p) # ps) env s =
     (case parameter_value task cli_sets lookup_env prompt name p s of
        (Ok v, s1) \<Rightarrow>
          (case normalize_parameter_value dbg task name p v of
             Ok normalized \<Rightarrow>
               layered_loop dbg task cli_sets lookup_env prompt ps
                 (bt_insert (parameter_env_name name) normalized env) s1
           | Err e \<Rightarrow> (Err e, s1)
           | Panic \<Rightarrow> (Panic, s1))
      | (Err e, s1) \<Rightarrow> (Err e, s1)
      | (Panic, s1) \<Rightarrow> (Panic, s1))"

definition resolve_task_parameter_env_layered ::
  "debug_list \<Rightarrow> string \<Rightarrow> parameters \<Rightarrow> (string, string) btmap \<Rightarrow> (string \<Rightarrow> string option) \<Rightarrow> 's prompt option \<Rightarrow>
     's \<Rightarrow> (ParameterError, (string, string) btmap) outcome \<times> 's" where
  "resolve_task_parameter_env_layered dbg task ps cli_sets lookup_env prompt s =
     layered_loop dbg task cli_sets lookup_env prompt ps [] s"

definition resolve_task_parameter_env_with ::
  "debug_list \<Rightarrow> string \<Rightarrow> parameters \<Rightarrow> (string \<Rightarrow> string option) \<Rightarrow> (ParameterError, (string, string) btmap) outcome" where
  "resolve_task_parameter_env_with dbg task ps lookup =
     fst (resolve_task_parameter_env_layered dbg task ps [] lookup None ())"

text \<open>\<open>std::env::var(name).ok()\<close> is \<open>environ\<close>; empty values count as unset.\<close>

definition resolve_task_parameter_env ::
  "debug_list \<Rightarrow> (string \<Rightarrow> string option) \<Rightarrow> string \<Rightarrow> parameters \<Rightarrow> (ParameterError, (string, string) btmap) outcome" where
  "resolve_task_parameter_env dbg environ task ps =
     resolve_task_parameter_env_with dbg task ps (\<lambda>n. case environ n of
        Some v \<Rightarrow> if v \<noteq> [] then Some v else None | None \<Rightarrow> None)"

definition parameter_values_from_env :: "parameters \<Rightarrow> (string, string) btmap \<Rightarrow> (string, string) btmap" where
  "parameter_values_from_env ps env =
     fold (\<lambda>name. bt_insert name (case map_of env (parameter_env_name name) of Some v \<Rightarrow> v | None \<Rightarrow> []))
       (bt_keys ps) []"

definition resolve_task_parameter_values ::
  "debug_list \<Rightarrow> (string \<Rightarrow> string option) \<Rightarrow> string \<Rightarrow> parameters \<Rightarrow> (ParameterError, (string, string) btmap) outcome" where
  "resolve_task_parameter_values dbg environ task ps =
     bind (resolve_task_parameter_env dbg environ task ps) (\<lambda>env. Ok (parameter_values_from_env ps env))"

section \<open>Validation\<close>

fun check_names :: "string \<Rightarrow> string list \<Rightarrow> (string, string) btmap \<Rightarrow> (SchemaError, unit) outcome" where
  "check_names task [] seen = Ok ()"
| "check_names task (name # names) seen =
     (if trim name = [] then Err (InvalidParameter task name ''name must not be empty'')
      else let normalized = to_ascii_uppercase name in
        case map_of seen normalized of
          Some existing \<Rightarrow>
            Err (InvalidParameter task name (''name collides with parameter `'' @ existing @
              ''` after normalization to '' @ PARAM_ENV_PREFIX @ normalized))
        | None \<Rightarrow> check_names task names (bt_insert normalized name seen))"

definition check_choice :: "debug_list \<Rightarrow> string \<Rightarrow> string \<Rightarrow> TaskParameter \<Rightarrow> (SchemaError, unit) outcome" where
  "check_choice dbg task name p =
     bind (ok_or (InvalidParameter task name ''choice parameters require values'') (choice_values p)) (\<lambda>vs.
       bind (case tp_default p of
               None \<Rightarrow> Ok ()
             | Some dflt \<Rightarrow>
                 (case dflt of
                    JString v \<Rightarrow>
                      if \<not> list_ex (\<lambda>allowed. allowed = v) vs
                      then Err (InvalidParameter task name (''default must be one of '' @ dbg vs)) else Ok ()
                  | _ \<Rightarrow> Err (InvalidParameter task name ''default must be a string''))) (\<lambda>_.
         if tp_values p = Some [] then
           Err (InvalidParameter task name ''values must not be empty for choice parameters'')
         else Ok ()))"

definition check_boolean :: "string \<Rightarrow> string \<Rightarrow> TaskParameter \<Rightarrow> (SchemaError, unit) outcome" where
  "check_boolean task name p =
     (if (case tp_default p of None \<Rightarrow> False | Some dflt \<Rightarrow> \<not> (case dflt of JBool _ \<Rightarrow> True | _ \<Rightarrow> False))
      then Err (InvalidParameter task name ''default must be a boolean'')
      else if tp_values p \<noteq> None then
        Err (InvalidParameter task name ''values is only allowed for choice parameters'')
      else Ok ())"

definition check_string :: "string \<Rightarrow> string \<Rightarrow> TaskParameter \<Rightarrow> (SchemaError, unit) outcome" where
  "check_string task name p =
     (if (case tp_default p of None \<Rightarrow> False | Some dflt \<Rightarrow> \<not> (case dflt of JString _ \<Rightarrow> True | _ \<Rightarrow> False))
      then Err (InvalidParameter task name ''default must be a string'')
      else if tp_values p \<noteq> None then
        Err (InvalidParameter task name ''values is only allowed for choice parameters'')
      else Ok ())"

definition check_parameter :: "debug_list \<Rightarrow> string \<Rightarrow> string \<times> TaskParameter \<Rightarrow> (SchemaError, unit) outcome" where
  "check_parameter dbg task = (\<lambda>(name, p).
     if \<not> is_canonical_ident name then
       Err (InvalidParameter task name ''name must match [a-z][a-z0-9_]*'')
     else case tp_param_type p of
            ParamChoice \<Rightarrow> check_choice dbg task name p
          | ParamBoolean \<Rightarrow> check_boolean task name p
          | ParamString \<Rightarrow> check_string task name p)"

definition validate_task_parameters :: "debug_list \<Rightarrow> string \<Rightarrow> parameters \<Rightarrow> (SchemaError, unit) outcome" where
  "validate_task_parameters dbg task ps =
     bind (check_names task (bt_keys ps) []) (\<lambda>_. for_each (check_parameter dbg task) ps)"

section \<open>What validation accepts\<close>

text \<open>A parameter whose name is an identifier and whose default, if any, is a value of its type.\<close>

fun default_ok :: "TaskParameter \<Rightarrow> bool" where
  "default_ok p =
     (case tp_param_type p of
        ParamString \<Rightarrow> tp_values p = None \<and>
          (case tp_default p of None \<Rightarrow> True | Some (JString _) \<Rightarrow> True | _ \<Rightarrow> False)
      | ParamBoolean \<Rightarrow> tp_values p = None \<and>
          (case tp_default p of None \<Rightarrow> True | Some (JBool _) \<Rightarrow> True | _ \<Rightarrow> False)
      | ParamChoice \<Rightarrow>
          (case tp_values p of
             None \<Rightarrow> False
           | Some vs \<Rightarrow> vs \<noteq> [] \<and>
               (case tp_default p of None \<Rightarrow> True | Some (JString v) \<Rightarrow> v \<in> set vs | _ \<Rightarrow> False)))"

declare default_ok.simps [simp del]

lemma check_parameter_Ok:
  "check_parameter dbg task (name, p) = Ok () \<longleftrightarrow> is_canonical_ident name \<and> default_ok p"
proof (cases "tp_param_type p")
  case ParamChoice
  then show ?thesis
    by (cases "tp_values p"; cases "tp_default p")
      (auto simp: check_parameter_def check_choice_def choice_values_def default_ok.simps list_ex_iff
        split: JsonValue.splits)
qed (auto simp: check_parameter_def check_boolean_def check_string_def default_ok.simps split: option.splits JsonValue.splits)

lemma check_parameter_no_panic: "check_parameter dbg task x \<noteq> Panic"
proof -
  obtain name p where x: "x = (name, p)" by fastforce
  show ?thesis
  proof (cases "tp_param_type p")
    case ParamChoice
    then show ?thesis
      by (cases "tp_values p"; cases "tp_default p")
        (auto simp: x check_parameter_def check_choice_def choice_values_def outcome_simps split: JsonValue.splits)
  qed (auto simp: x check_parameter_def check_boolean_def check_string_def)
qed

lemma check_names_Ok:
  assumes "distinct names" and "list_all is_canonical_ident names"
    and "\<And>k. k \<in> set names \<Longrightarrow> map_of seen (to_ascii_uppercase k) = None"
  shows "check_names task names seen = Ok ()"
  using assms
proof (induction names arbitrary: seen)
  case (Cons k names)
  have "map_of (bt_insert (to_ascii_uppercase k) k seen) (to_ascii_uppercase k') = None" if "k' \<in> set names" for k'
  proof -
    have "to_ascii_uppercase k' \<noteq> to_ascii_uppercase k"
      using that Cons.prems(1,2) upper_inj [of k' k] canonical_ident_chars by (auto simp: list_all_iff)
    with that Cons.prems(3) show ?thesis by simp
  qed
  with Cons canonical_trim [of k] show ?case by simp
qed simp

lemma check_names_no_panic: "check_names task names seen \<noteq> Panic"
  by (induction names arbitrary: seen) (auto simp: Let_def split: option.splits)

lemma validate_task_parameters_iff:
  assumes "bt_wf ps"
  shows "validate_task_parameters dbg task ps = Ok () \<longleftrightarrow> (\<forall>(name, p) \<in> set ps. is_canonical_ident name \<and> default_ok p)"
    and "validate_task_parameters dbg task ps \<noteq> Panic"
proof -
  have checks: "for_each (check_parameter dbg task) ps = Ok () \<longleftrightarrow>
      (\<forall>(name, p) \<in> set ps. is_canonical_ident name \<and> default_ok p)"
    by (auto simp: for_each_Ok check_parameter_Ok)
  moreover have "check_names task (bt_keys ps) [] = Ok ()" if "for_each (check_parameter dbg task) ps = Ok ()"
    using that bt_wf_distinct [OF assms] by (intro check_names_Ok) (auto simp: checks list_all_iff bt_keys_def)
  ultimately show "validate_task_parameters dbg task ps = Ok () \<longleftrightarrow>
      (\<forall>(name, p) \<in> set ps. is_canonical_ident name \<and> default_ok p)"
    by (auto simp: validate_task_parameters_def outcome_simps)
  show "validate_task_parameters dbg task ps \<noteq> Panic"
    using check_names_no_panic check_parameter_no_panic
    by (auto simp: validate_task_parameters_def outcome_simps dest: for_each_Panic)
qed

section \<open>What resolution returns\<close>

fun default_text :: "JsonValue \<Rightarrow> string option" where
  "default_text (JString v) = Some v"
| "default_text (JBool b) = Some (if b then ''true'' else ''false'')"
| "default_text _ = None"

definition nonempty :: "string option \<Rightarrow> string option" where
  "nonempty x = (if x = Some [] then None else x)"

definition chosen :: "(string, string) btmap \<Rightarrow> (string \<Rightarrow> string option) \<Rightarrow> string \<Rightarrow> TaskParameter \<Rightarrow> string option" where
  "chosen cli_sets lookup_env name p =
     (case nonempty (map_of cli_sets name) of
        Some v \<Rightarrow> Some v
      | None \<Rightarrow>
          (case nonempty (lookup_env (parameter_env_name name)) of
             Some v \<Rightarrow> Some v
           | None \<Rightarrow> Option.bind (tp_default p) default_text))"

definition typed_value :: "TaskParameter \<Rightarrow> string \<Rightarrow> string option" where
  "typed_value p v =
     (case tp_param_type p of
        ParamString \<Rightarrow> Some v
      | ParamChoice \<Rightarrow> if v \<in> set (the (tp_values p)) then Some v else None
      | ParamBoolean \<Rightarrow> (case normalize_boolean v of Ok b \<Rightarrow> Some b | _ \<Rightarrow> None))"

definition resolved :: "(string, string) btmap \<Rightarrow> (string \<Rightarrow> string option) \<Rightarrow> string \<times> TaskParameter \<Rightarrow> string option" where
  "resolved cli_sets lookup_env = (\<lambda>(name, p). Option.bind (chosen cli_sets lookup_env name p) (typed_value p))"

lemma normalize_boolean_cases:
  "normalize_boolean v = Ok ''true'' \<or> normalize_boolean v = Ok ''false'' \<or> (\<exists>m. normalize_boolean v = Err m)"
  by (auto simp: normalize_boolean_def Let_def)

lemma normalize_parameter_value_eq:
  assumes "default_ok p"
  shows "case typed_value p v of
      Some w \<Rightarrow> normalize_parameter_value dbg task name p v = Ok w
    | None \<Rightarrow> \<exists>m. normalize_parameter_value dbg task name p v = Err (ParamInvalid task name m)"
proof (cases "tp_param_type p")
  case ParamChoice
  with assms obtain vs where "tp_values p = Some vs" "vs \<noteq> []"
    by (auto simp: default_ok.simps split: option.splits)
  with ParamChoice show ?thesis
    by (auto simp: typed_value_def normalize_parameter_value_def choice_values_def list_ex_iff parameter_invalid_def)
next
  case ParamBoolean
  with normalize_boolean_cases [of v] show ?thesis
    by (auto simp: typed_value_def normalize_parameter_value_def)
qed (simp add: typed_value_def normalize_parameter_value_def)

lemma parameter_value_eq:
  assumes "default_ok p"
  shows "parameter_value task cli_sets lookup_env None name p s =
    (case chosen cli_sets lookup_env name p of
       Some v \<Rightarrow> (Ok v, s) | None \<Rightarrow> (Err (ParamMissing task name (parameter_env_name name)), s))"
proof -
  have "\<exists>v. default_text d = Some v \<and> json_default_to_string task name p d = Ok v" if "tp_default p = Some d" for d
    using that assms
    by (auto simp: json_default_to_string_def default_ok.simps split: TaskParameterType.splits JsonValue.splits option.splits)
  then show ?thesis
    by (cases "tp_default p")
      (fastforce simp: parameter_value_def raw_value_def chosen_def nonempty_def Let_def split: option.splits)+
qed

text \<open>The failing parameter of an error: unset, or set to a value its type does not have.\<close>

definition resolve_fails ::
  "string \<Rightarrow> (string, string) btmap \<Rightarrow> (string \<Rightarrow> string option) \<Rightarrow> string \<times> TaskParameter \<Rightarrow> ParameterError \<Rightarrow> bool" where
  "resolve_fails task cli_sets lookup_env = (\<lambda>(name, p) e.
     case chosen cli_sets lookup_env name p of
       None \<Rightarrow> e = ParamMissing task name (parameter_env_name name)
     | Some v \<Rightarrow> typed_value p v = None \<and> (\<exists>m. e = ParamInvalid task name m))"

lemma layered_loop_eq:
  assumes "\<forall>(name, p) \<in> set ps. default_ok p"
  shows "case find (\<lambda>x. resolved cli_sets lookup_env x = None) ps of
      None \<Rightarrow> layered_loop dbg task cli_sets lookup_env None ps env s =
        (Ok (fold (\<lambda>x. bt_insert (parameter_env_name (fst x)) (the (resolved cli_sets lookup_env x))) ps env), s)
    | Some x \<Rightarrow> \<exists>e. layered_loop dbg task cli_sets lookup_env None ps env s = (Err e, s) \<and>
        resolve_fails task cli_sets lookup_env x e"
  using assms
proof (induction ps arbitrary: env)
  case (Cons x ps)
  obtain name p where x: "x = (name, p)" by fastforce
  have ok: "default_ok p" using Cons.prems x by simp
  show ?case
  proof (cases "chosen cli_sets lookup_env name p")
    case None
    with x show ?thesis by (simp add: parameter_value_eq [OF ok] resolved_def resolve_fails_def)
  next
    case (Some v)
    show ?thesis
    proof (cases "typed_value p v")
      case None
      with normalize_parameter_value_eq [OF ok, where v = v and dbg = dbg and task = task and name = name] Some x show ?thesis
        by (auto simp: parameter_value_eq [OF ok] resolved_def resolve_fails_def)
    next
      case w: (Some w)
      with normalize_parameter_value_eq [OF ok, where v = v and dbg = dbg and task = task and name = name]
      have "normalize_parameter_value dbg task name p v = Ok w" by simp
      with Some x have step: "layered_loop dbg task cli_sets lookup_env None (x # ps) env s =
          layered_loop dbg task cli_sets lookup_env None ps (bt_insert (parameter_env_name name) w env) s"
        by (simp add: parameter_value_eq [OF ok])
      have "resolved cli_sets lookup_env x = Some w" using Some w x by (simp add: resolved_def)
      with x Cons.IH [of "bt_insert (parameter_env_name name) w env"] Cons.prems show ?thesis
        unfolding step by (auto split: option.splits)
    qed
  qed
qed simp

lemma parameter_env_name_inj:
  "is_canonical_ident a \<Longrightarrow> is_canonical_ident b \<Longrightarrow> parameter_env_name a = parameter_env_name b \<longleftrightarrow> a = b"
  using upper_inj canonical_ident_chars by (auto simp: parameter_env_name_def)

lemma resolved_typed:
  assumes "resolved cli_sets lookup_env (name, p) = Some w"
  shows "(tp_param_type p = ParamBoolean \<longrightarrow> w \<in> {''true'', ''false''}) \<and>
    (tp_param_type p = ParamChoice \<longrightarrow> w \<in> set (the (tp_values p)))"
proof -
  obtain v where "chosen cli_sets lookup_env name p = Some v" and tv: "typed_value p v = Some w"
    using assms by (auto simp: resolved_def bind_eq_Some_conv split: option.splits)
  then show ?thesis
    using normalize_boolean_cases [of v] by (cases "tp_param_type p") (auto simp: typed_value_def split: if_splits option.splits outcome.splits)
qed

abbreviation resolved_env ::
  "(string, string) btmap \<Rightarrow> (string \<Rightarrow> string option) \<Rightarrow> (string, TaskParameter) btmap \<Rightarrow> (string, string) btmap" where
  "resolved_env cli_sets lookup_env ps \<equiv>
     fold (\<lambda>x. bt_insert (parameter_env_name (fst x)) (the (resolved cli_sets lookup_env x))) ps []"

text \<open>Distinct parameters have distinct variables, so the environment holds each value unmixed.\<close>

lemma env_names_inj:
  assumes wf: "bt_wf ps" and ok: "\<forall>(name, p) \<in> set ps. is_canonical_ident name \<and> default_ok p"
    and xy: "x \<in> set ps" "y \<in> set ps" "parameter_env_name (fst x) = parameter_env_name (fst y)"
  shows "x = y"
proof -
  obtain a p b q where e: "x = (a, p)" "y = (b, q)" by fastforce
  have "is_canonical_ident a" "is_canonical_ident b" using xy(1,2) ok e by auto
  with xy(3) have "a = b" by (simp add: e parameter_env_name_inj)
  moreover have "map_of ps a = Some p" "map_of ps b = Some q" using xy(1,2) bt_wf_lookup [OF wf] e by auto
  ultimately show ?thesis by (simp add: e)
qed

lemma resolved_env_lookup:
  assumes wf: "bt_wf ps" and ok: "\<forall>(name, p) \<in> set ps. is_canonical_ident name \<and> default_ok p"
    and res: "\<And>name p. map_of ps name = Some p \<Longrightarrow> \<exists>w. resolved cli_sets lookup_env (name, p) = Some w"
  shows "map_of (resolved_env cli_sets lookup_env ps) key = Some w \<longleftrightarrow>
    (\<exists>name p. map_of ps name = Some p \<and> key = parameter_env_name name \<and> resolved cli_sets lookup_env (name, p) = Some w)"
proof -
  have "map_of (resolved_env cli_sets lookup_env ps) key = Some w \<longleftrightarrow>
      (\<exists>x \<in> set ps. parameter_env_name (fst x) = key \<and> the (resolved cli_sets lookup_env x) = w)"
    using env_names_inj [OF wf ok] by (intro btm.look_fold_rel) metis
  also have "\<dots> \<longleftrightarrow> (\<exists>name p. map_of ps name = Some p \<and> key = parameter_env_name name \<and>
      resolved cli_sets lookup_env (name, p) = Some w)"
    using res bt_wf_lookup [OF wf] by (fastforce simp: Bex_def)
  finally show ?thesis .
qed

lemma parameter_values_from_env_lookup:
  assumes "map_of ps name = Some p" "map_of env (parameter_env_name name) = Some w"
  shows "map_of (parameter_values_from_env ps env) name = Some w"
proof -
  have "name \<in> set (bt_keys ps)" using assms(1) by (auto simp: set_bt_keys)
  with assms(2) show ?thesis by (simp add: parameter_values_from_env_def btm.look_fold_fun)
qed

text \<open>
  C11: Resolution of validated parameters without a prompt. Each parameter takes the first of a
  nonempty override, a nonempty value of the caller's environment and its default. When every
  parameter has a value of its type, the environment holds exactly the normalized values, each
  under the variable of its parameter, and reading them back by name returns them: a boolean is
  \<open>true\<close> or \<open>false\<close> and a choice is one of the declared values. Otherwise the first parameter, in
  order, that is unset or has a value outside its type is reported.
\<close>

theorem resolve_parameters_correct:
  assumes wf: "bt_wf ps" and v: "validate_task_parameters dbg task ps = Ok ()"
  shows "case find (\<lambda>x. resolved cli_sets lookup_env x = None) ps of
      Some x \<Rightarrow> \<exists>e. resolve_task_parameter_env_layered dbg task ps cli_sets lookup_env None s = (Err e, s) \<and>
        resolve_fails task cli_sets lookup_env x e
    | None \<Rightarrow> \<exists>env. resolve_task_parameter_env_layered dbg task ps cli_sets lookup_env None s = (Ok env, s) \<and>
        (\<forall>key w. map_of env key = Some w \<longleftrightarrow>
           (\<exists>name p. map_of ps name = Some p \<and> key = parameter_env_name name \<and> resolved cli_sets lookup_env (name, p) = Some w)) \<and>
        (\<forall>name p. map_of ps name = Some p \<longrightarrow> (\<exists>w. resolved cli_sets lookup_env (name, p) = Some w \<and>
           map_of (parameter_values_from_env ps env) name = Some w \<and>
           (tp_param_type p = ParamBoolean \<longrightarrow> w \<in> {''true'', ''false''}) \<and>
           (tp_param_type p = ParamChoice \<longrightarrow> w \<in> set (the (tp_values p)))))"
proof -
  have ok: "\<forall>(name, p) \<in> set ps. is_canonical_ident name \<and> default_ok p"
    using v validate_task_parameters_iff(1) [OF wf] by blast
  then have "\<forall>(name, p) \<in> set ps. default_ok p" by auto
  note loop = layered_loop_eq [OF this, where cli_sets = cli_sets and lookup_env = lookup_env and dbg = dbg and task = task
      and env = "[]" and s = s]
  show ?thesis
  proof (cases "find (\<lambda>x. resolved cli_sets lookup_env x = None) ps")
    case (Some x)
    with loop show ?thesis by (simp add: resolve_task_parameter_env_layered_def)
  next
    case None
    let ?env = "resolved_env cli_sets lookup_env ps"
    have res: "\<exists>w. resolved cli_sets lookup_env (name, p) = Some w" if "map_of ps name = Some p" for name p
      using None that by (force simp: find_None_iff dest: map_of_SomeD)
    note env = resolved_env_lookup [OF wf ok res]
    have "resolve_task_parameter_env_layered dbg task ps cli_sets lookup_env None s = (Ok ?env, s)"
      using None loop by (simp add: resolve_task_parameter_env_layered_def)
    moreover have "\<forall>key w. map_of ?env key = Some w \<longleftrightarrow> (\<exists>name p. map_of ps name = Some p \<and> key = parameter_env_name name \<and>
        resolved cli_sets lookup_env (name, p) = Some w)" using env by (intro allI)
    moreover have "\<forall>name p. map_of ps name = Some p \<longrightarrow> (\<exists>w. resolved cli_sets lookup_env (name, p) = Some w \<and>
        map_of (parameter_values_from_env ps ?env) name = Some w \<and>
        (tp_param_type p = ParamBoolean \<longrightarrow> w \<in> {''true'', ''false''}) \<and>
        (tp_param_type p = ParamChoice \<longrightarrow> w \<in> set (the (tp_values p))))"
    proof (intro allI impI)
      fix name p assume p: "map_of ps name = Some p"
      from res [OF p] obtain w where w: "resolved cli_sets lookup_env (name, p) = Some w" ..
      have "map_of ?env (parameter_env_name name) = Some w" using env p w by blast
      from w parameter_values_from_env_lookup [OF p this] resolved_typed [OF w] show "\<exists>w. resolved cli_sets lookup_env (name, p) = Some w \<and>
          map_of (parameter_values_from_env ps ?env) name = Some w \<and>
          (tp_param_type p = ParamBoolean \<longrightarrow> w \<in> {''true'', ''false''}) \<and>
          (tp_param_type p = ParamChoice \<longrightarrow> w \<in> set (the (tp_values p)))"
        by (intro exI [of _ w] conjI) (rule w, assumption, simp_all)
    qed
    ultimately show ?thesis unfolding None option.case by (intro exI [of _ ?env]) (rule conjI, assumption, rule conjI)
  qed
qed

definition example_parameters :: "(string, TaskParameter) btmap" where
  "example_parameters =
     [(''mode'', \<lparr>tp_param_type = ParamChoice, tp_default = Some (JString ''dev''), tp_values = Some [''dev'', ''prod'']\<rparr>),
      (''verbose'', \<lparr>tp_param_type = ParamBoolean, tp_default = None, tp_values = None\<rparr>)]"

definition example_lookup :: "string \<Rightarrow> string option" where
  "example_lookup key = (if key = ''NXR_PARAM_VERBOSE'' then Some ''YES'' else None)"

lemma example_validates: "validate_task_parameters (\<lambda>_. []) ''build'' example_parameters = Ok ()"
  by code_simp

lemma example_wf: "bt_wf example_parameters"
  by code_simp

lemma example_resolved: "find (\<lambda>x. resolved [] example_lookup x = None) example_parameters = None"
  by code_simp

theorem resolve_parameters_witness:
  "\<exists>env. resolve_task_parameter_env_layered (\<lambda>_. []) ''build'' example_parameters [] example_lookup None () = (Ok env, ()) \<and>
     (\<exists>w. map_of (parameter_values_from_env example_parameters env) ''verbose'' = Some w \<and> w \<in> {''true'', ''false''})"
proof -
  have p: "map_of example_parameters ''verbose'' = Some \<lparr>tp_param_type = ParamBoolean, tp_default = None, tp_values = None\<rparr>"
    by (simp add: example_parameters_def)
  note result = resolve_parameters_correct [OF example_wf example_validates, where cli_sets = "[]" and lookup_env = example_lookup
      and s = "()", unfolded example_resolved option.case]
  from result obtain env where env: "resolve_task_parameter_env_layered (\<lambda>_. []) ''build'' example_parameters [] example_lookup None () = (Ok env, ())"
    and vals: "\<forall>name p. map_of example_parameters name = Some p \<longrightarrow> (\<exists>w. resolved [] example_lookup (name, p) = Some w \<and>
           map_of (parameter_values_from_env example_parameters env) name = Some w \<and>
           (tp_param_type p = ParamBoolean \<longrightarrow> w \<in> {''true'', ''false''}) \<and>
           (tp_param_type p = ParamChoice \<longrightarrow> w \<in> set (the (tp_values p))))" by blast
  from vals p have "\<exists>w. map_of (parameter_values_from_env example_parameters env) ''verbose'' = Some w \<and> w \<in> {''true'', ''false''}"
    by fastforce
  with env show ?thesis by blast
qed

end
