(* ===== verification/Process_Graph.thy ===== *)
theory Process_Graph
  imports Task_Schema
begin

text \<open>
  Process nodes (\<open>crates/nxr-task/src/process.rs\<close>): names, dependency tokens, log names, and the
  depth-first search of \<open>schema.rs\<close> that rejects dependency cycles between processes. The search
  keeps the two marker maps of the source and counts its recursion depth down, so that not
  returning is the value \<open>None\<close>; the depth the number of processes allows is proved sufficient.
\<close>

section \<open>Names\<close>

datatype ProcessNameError =
    ProcessNameEmpty
  | ProcessNamePathSeparator string
  | ProcessNameParentTraversal string

fun display_process_name_error :: "ProcessNameError \<Rightarrow> string" where
  "display_process_name_error ProcessNameEmpty = ''process name must not be empty''"
| "display_process_name_error (ProcessNamePathSeparator name) =
     ''process name `'' @ name @ ''` must not contain path separators''"
| "display_process_name_error (ProcessNameParentTraversal name) =
     ''process name `'' @ name @ ''` must not contain `..`''"

fun process_name_error_message :: "ProcessNameError \<Rightarrow> string" where
  "process_name_error_message ProcessNameEmpty = ''name must not be empty''"
| "process_name_error_message (ProcessNamePathSeparator _) = ''name must not contain path separators''"
| "process_name_error_message (ProcessNameParentTraversal _) = ''name must not contain `..`''"

definition dependency_base_name :: "string \<Rightarrow> string" where
  "dependency_base_name dependency =
     (case split_on (CHR ''@'') dependency of part # _ \<Rightarrow> part | [] \<Rightarrow> dependency)"

definition validate_node_id :: "string \<Rightarrow> (ProcessNameError, unit) outcome" where
  "validate_node_id name =
     (if name = [] then Err ProcessNameEmpty
      else if str_contains name ''..'' then Err (ProcessNameParentTraversal name)
      else if str_contains name ''/'' then Err (ProcessNamePathSeparator name)
      else Ok ())"

definition log_char :: "char \<Rightarrow> bool" where
  "log_char c \<longleftrightarrow> is_ascii_digit c \<or> is_ascii_lowercase c \<or> is_ascii_uppercase c \<or> c \<in> set ''-_.''"

definition sanitize_process_log_name :: "string \<Rightarrow> string" where
  "sanitize_process_log_name name =
     (let sanitized = map (\<lambda>c. if log_char c then c else CHR ''_'') name
      in if sanitized = [] then ''_'' else sanitized)"

section \<open>Dependency cycles\<close>

type_synonym processes = "(string, ProcessDefinition) btmap"
type_synonym marks = "(string, bool) btmap"

definition marked :: "marks \<Rightarrow> string \<Rightarrow> bool" where
  "marked m name = (case map_of m name of Some b \<Rightarrow> b | None \<Rightarrow> False)"

text \<open>The loop over the dependencies of one process, with its early return.\<close>

fun visit_all ::
  "(string \<Rightarrow> marks \<times> marks \<Rightarrow> (SchemaError, marks \<times> marks) outcome option) \<Rightarrow>
     string list \<Rightarrow> marks \<times> marks \<Rightarrow> (SchemaError, marks \<times> marks) outcome option" where
  "visit_all visit [] st = Some (Ok st)"
| "visit_all visit (name # names) st =
     (case visit name st of
        Some (Ok st') \<Rightarrow> visit_all visit names st'
      | r \<Rightarrow> r)"

primrec visit ::
  "nat \<Rightarrow> processes \<Rightarrow> string \<Rightarrow> marks \<times> marks \<Rightarrow> (SchemaError, marks \<times> marks) outcome option" where
  "visit 0 processes name st = None"
| "visit (Suc depth) processes name st =
     (case st of (visiting, visited) \<Rightarrow>
        if marked visited name then Some (Ok (visiting, visited))
        else if marked visiting name then Some (Err (InvalidProcess name ''dependency cycle detected''))
        else
          let deps = (case map_of processes name of
                        Some definition \<Rightarrow> map dependency_base_name (pd_depends_on definition)
                      | None \<Rightarrow> [])
          in case visit_all (visit depth processes) deps (bt_insert name True visiting, visited) of
               Some (Ok (visiting', visited')) \<Rightarrow>
                 Some (Ok (bt_insert name False visiting', bt_insert name True visited'))
             | r \<Rightarrow> r)"

definition detect_process_cycles :: "nat \<Rightarrow> processes \<Rightarrow> (SchemaError, unit) outcome option" where
  "detect_process_cycles depth processes =
     (case visit_all (visit depth processes) (bt_keys processes) ([], []) of
        Some (Ok _) \<Rightarrow> Some (Ok ())
      | Some (Err e) \<Rightarrow> Some (Err e)
      | Some Panic \<Rightarrow> Some Panic
      | None \<Rightarrow> None)"

section \<open>Names: what is accepted\<close>

lemma validate_node_id_Ok:
  "validate_node_id name = Ok () \<longleftrightarrow> name \<noteq> [] \<and> \<not> str_contains name ''..'' \<and> CHR ''/'' \<notin> set name"
proof -
  have "str_contains name ''/'' \<longleftrightarrow> CHR ''/'' \<in> set name"
    by (induction name) (auto simp: str_contains_def)
  then show ?thesis by (simp add: validate_node_id_def)
qed

lemma sanitize_process_log_name_safe:
  "sanitize_process_log_name name \<noteq> [] \<and> list_all log_char (sanitize_process_log_name name)"
  by (auto simp: sanitize_process_log_name_def Let_def list_all_iff log_char_def)

lemma sanitize_process_log_name_id:
  "name \<noteq> [] \<Longrightarrow> list_all log_char name \<Longrightarrow> sanitize_process_log_name name = name"
  by (auto simp: sanitize_process_log_name_def Let_def list_all_iff intro!: map_idI)

section \<open>The search\<close>

text \<open>The dependency relation, and the nodes a marker map marks.\<close>

definition process_edge :: "processes \<Rightarrow> string \<Rightarrow> string \<Rightarrow> bool" where
  "process_edge ps a b \<longleftrightarrow>
     (\<exists>d. map_of ps a = Some d \<and> b \<in> dependency_base_name ` set (pd_depends_on d))"

abbreviation on_cycle :: "processes \<Rightarrow> string \<Rightarrow> bool" where
  "on_cycle ps x \<equiv> (process_edge ps)\<^sup>+\<^sup>+ x x"

lemma marked_insert [simp]: "marked (bt_insert k b m) x \<longleftrightarrow> (if x = k then b else marked m x)"
  by (simp add: marked_def)

lemma marked_Nil [simp]: "\<not> marked [] x"
  by (simp add: marked_def)

text \<open>
  Finished nodes are closed under dependencies, on no cycle and not in progress.
\<close>

definition search_inv :: "processes \<Rightarrow> marks \<times> marks \<Rightarrow> bool" where
  "search_inv ps = (\<lambda>(visiting, visited).
     (\<forall>x y. marked visited x \<longrightarrow> process_edge ps x y \<longrightarrow> marked visited y) \<and>
     (\<forall>x. marked visited x \<longrightarrow> \<not> on_cycle ps x \<and> \<not> marked visiting x))"

lemma search_inv_reach:
  assumes "search_inv ps (visiting, visited)" and "(process_edge ps)\<^sup>*\<^sup>* x y" and "marked visited x"
  shows "marked visited y"
  using assms(2,3)
proof (induction rule: rtranclp_induct)
  case (step y z)
  then show ?case using assms(1) by (auto simp: search_inv_def)
qed simp

text \<open>
  What a visit started from \<open>st\<close> returns: the same nodes in progress, at least the same nodes
  finished, the node itself among them; or a process on a cycle.
\<close>

definition visit_ok :: "processes \<Rightarrow> string set \<Rightarrow> marks \<times> marks \<Rightarrow> (SchemaError, marks \<times> marks) outcome option \<Rightarrow> bool" where
  "visit_ok ps names st r \<longleftrightarrow>
     (\<exists>st'. r = Some (Ok st') \<and> search_inv ps st' \<and> marked (fst st') = marked (fst st) \<and>
        (\<forall>x. marked (snd st) x \<or> x \<in> names \<longrightarrow> marked (snd st') x)) \<or>
     (\<exists>c. r = Some (Err (InvalidProcess c ''dependency cycle detected'')) \<and> on_cycle ps c)"

lemma visit_all_ok:
  assumes "\<And>name st'. name \<in> set names \<Longrightarrow> search_inv ps st' \<Longrightarrow> marked (fst st') = marked (fst st) \<Longrightarrow>
      visit_ok ps {name} st' (f name st')"
    and "search_inv ps st"
  shows "visit_ok ps (set names) st (visit_all f names st)"
  using assms
proof (induction names arbitrary: st)
  case Nil
  then show ?case by (auto simp: visit_ok_def)
next
  case (Cons name names)
  have "visit_ok ps {name} st (f name st)" using Cons.prems by simp
  then consider
      (ok) st' where "f name st = Some (Ok st')" "search_inv ps st'" "marked (fst st') = marked (fst st)"
        "\<forall>x. marked (snd st) x \<or> x = name \<longrightarrow> marked (snd st') x"
    | (cycle) c where "f name st = Some (Err (InvalidProcess c ''dependency cycle detected''))" "on_cycle ps c"
    unfolding visit_ok_def by auto
  then show ?case
  proof cases
    case ok
    have "visit_ok ps (set names) st' (visit_all f names st')"
      using Cons.prems(1) ok(2,3) by (intro Cons.IH) auto
    with ok show ?thesis by (auto simp: visit_ok_def)
  next
    case cycle
    then show ?thesis by (auto simp: visit_ok_def)
  qed
qed

lemma finish_node:
  assumes inv: "search_inv ps (visiting, visited)"
    and deps: "\<And>y. process_edge ps name y \<Longrightarrow> marked visited y"
    and v: "marked visiting name"
  shows "search_inv ps (bt_insert name False visiting, bt_insert name True visited)"
proof -
  have fresh: "\<not> marked visited name" using inv v by (auto simp: search_inv_def)
  have "\<not> on_cycle ps name"
  proof
    assume "on_cycle ps name"
    then obtain y where "process_edge ps name y" "(process_edge ps)\<^sup>*\<^sup>* y name" by (meson tranclpD)
    with search_inv_reach [OF inv] deps fresh show False by blast
  qed
  with inv deps show ?thesis by (auto simp: search_inv_def)
qed

definition unseen :: "processes \<Rightarrow> marks \<Rightarrow> string set" where
  "unseen ps visiting = {x \<in> dom (map_of ps). \<not> marked visiting x}"

lemma visit_correct:
  assumes "search_inv ps st"
    and "\<And>t. marked (fst st) t \<Longrightarrow> (process_edge ps)\<^sup>+\<^sup>+ t name"
    and "card (unseen ps (fst st)) < depth"
  shows "visit_ok ps {name} st (visit depth ps name st)"
  using assms
proof (induction depth arbitrary: name st)
  case (Suc depth)
  obtain visiting visited where st: "st = (visiting, visited)" by fastforce
  let ?deps = "case map_of ps name of Some d \<Rightarrow> map dependency_base_name (pd_depends_on d) | None \<Rightarrow> []"
  let ?st = "(bt_insert name True visiting, visited)"
  have edge: "y \<in> set ?deps \<longleftrightarrow> process_edge ps name y" for y
    by (cases "map_of ps name") (auto simp: process_edge_def)
  consider "marked visited name" | "\<not> marked visited name" "marked visiting name"
    | "\<not> marked visited name" "\<not> marked visiting name" by blast
  then show ?case
  proof cases
    case 1
    with Suc.prems(1) show ?thesis by (auto simp: st visit_ok_def)
  next
    case 2
    with Suc.prems(2) show ?thesis by (auto simp: st visit_ok_def)
  next
    case 3
    have inv: "search_inv ps ?st" using Suc.prems(1) 3 by (auto simp: st search_inv_def)
    have "visit_ok ps (set ?deps) ?st (visit_all (visit depth ps) ?deps ?st)"
    proof (rule visit_all_ok [OF _ inv])
      fix y st' assume y: "y \<in> set ?deps" and st': "search_inv ps st'" "marked (fst st') = marked (fst ?st)"
      have "unseen ps (fst st') = unseen ps visiting - {name}" using st'(2) by (auto simp: unseen_def)
      moreover have "name \<in> unseen ps visiting"
        using y 3(2) unfolding edge by (auto simp: unseen_def process_edge_def)
      moreover have "finite (unseen ps visiting)" by (simp add: unseen_def finite_dom_map_of)
      ultimately have "card (unseen ps (fst st')) < depth"
        using Suc.prems(3) by (simp add: st card_Diff_singleton card_gt_0_iff) (metis card_gt_0_iff empty_iff less_Suc_eq_0_disj Suc_pred diff_Suc_1 less_SucE)
      moreover have "(process_edge ps)\<^sup>+\<^sup>+ t y" if "marked (fst st') t" for t
      proof (cases "t = name")
        case True
        with y edge show ?thesis by blast
      next
        case False
        with that st'(2) Suc.prems(2) st have "(process_edge ps)\<^sup>+\<^sup>+ t name" by auto
        with y edge show ?thesis by (meson tranclp.trancl_into_trancl)
      qed
      ultimately show "visit_ok ps {y} st' (visit depth ps y st')" using st'(1) by (intro Suc.IH) auto
    qed
    then consider
        (ok) visiting' visited' where "visit_all (visit depth ps) ?deps ?st = Some (Ok (visiting', visited'))"
          "search_inv ps (visiting', visited')" "marked visiting' = marked (bt_insert name True visiting)"
          "\<forall>x. marked visited x \<or> x \<in> set ?deps \<longrightarrow> marked visited' x"
      | (cycle) c where "visit_all (visit depth ps) ?deps ?st = Some (Err (InvalidProcess c ''dependency cycle detected''))"
          "on_cycle ps c"
      unfolding visit_ok_def by fastforce
    then show ?thesis
    proof cases
      case ok
      have "search_inv ps (bt_insert name False visiting', bt_insert name True visited')"
        using ok edge by (intro finish_node) auto
      moreover have "marked (bt_insert name False visiting') = marked visiting"
        using ok(3) 3(2) by (auto simp: fun_eq_iff)
      ultimately show ?thesis using ok 3 by (auto simp: st visit_ok_def)
    next
      case cycle
      with 3 show ?thesis by (auto simp: st visit_ok_def)
    qed
  qed
qed simp

lemma detect_process_cycles_decides:
  assumes "length ps < depth"
  shows "if \<exists>x. on_cycle ps x
    then \<exists>c. detect_process_cycles depth ps = Some (Err (InvalidProcess c ''dependency cycle detected'')) \<and> on_cycle ps c
    else detect_process_cycles depth ps = Some (Ok ())"
proof -
  have "unseen ps m \<subseteq> set (bt_keys ps)" for m by (auto simp: unseen_def set_bt_keys)
  then have "card (unseen ps m) \<le> length (bt_keys ps)" for m
    by (meson List.finite_set card_mono card_length le_trans)
  then have depth: "card (unseen ps m) < depth" for m
    using assms by (metis bt_keys_def le_less_trans length_map)
  have start: "visit_ok ps (set (bt_keys ps)) ([], []) (visit_all (visit depth ps) (bt_keys ps) ([], []))"
    by (rule visit_all_ok) (auto simp: search_inv_def intro!: visit_correct depth)
  have keys: "x \<in> set (bt_keys ps)" if "on_cycle ps x" for x
  proof -
    from that obtain y where "process_edge ps x y" by (meson tranclpD)
    then show ?thesis by (auto simp: process_edge_def set_bt_keys)
  qed
  from start consider
      (ok) st where "visit_all (visit depth ps) (bt_keys ps) ([], []) = Some (Ok st)" "search_inv ps st"
        "\<forall>x. x \<in> set (bt_keys ps) \<longrightarrow> marked (snd st) x"
    | (cycle) c where "visit_all (visit depth ps) (bt_keys ps) ([], []) =
        Some (Err (InvalidProcess c ''dependency cycle detected''))" "on_cycle ps c"
    unfolding visit_ok_def by blast
  then show ?thesis
  proof cases
    case ok
    then have "\<not> on_cycle ps x" for x
      using keys [of x] by (cases st) (auto simp: search_inv_def)
    with ok show ?thesis by (simp add: detect_process_cycles_def)
  next
    case cycle
    then show ?thesis by (auto simp: detect_process_cycles_def)
  qed
qed

text \<open>
  C7: The search for process cycles returns: a recursion depth of one more than the number of
  processes is never exceeded. It accepts exactly the documents whose processes do not depend on
  themselves through any chain of dependency tokens, and otherwise the reported process is on a
  cycle.
\<close>

theorem detect_process_cycles_correct:
  assumes "length ps < depth"
  shows "if \<exists>x. on_cycle ps x
    then \<exists>c. detect_process_cycles depth ps = Some (Err (InvalidProcess c ''dependency cycle detected'')) \<and> on_cycle ps c
    else detect_process_cycles depth ps = Some (Ok ())"
  using assms by (rule detect_process_cycles_decides)

definition example_process :: "string list \<Rightarrow> ProcessDefinition" where
  "example_process deps = \<lparr>pd_app = ''run'', pd_depends_on = deps, pd_readiness = None, pd_restart = None, pd_context = None,
     pd_working_directory = None, pd_arguments = [], pd_shell = None\<rparr>"

definition example_processes :: processes where
  "example_processes = [(''api'', example_process [''database@ready'']), (''database'', example_process [''api''])]"

theorem detect_process_cycles_witness:
  "length example_processes < 3 \<and>
   (\<exists>c. detect_process_cycles 3 example_processes = Some (Err (InvalidProcess c ''dependency cycle detected'')) \<and>
      on_cycle example_processes c)"
proof -
  have "process_edge example_processes ''api'' ''database''" "process_edge example_processes ''database'' ''api''"
    by (simp_all add: process_edge_def example_processes_def example_process_def dependency_base_name_def)
  then have "\<exists>x. on_cycle example_processes x" by (meson tranclp.r_into_trancl tranclp_trans)
  moreover have "length example_processes < 3" by (simp add: example_processes_def)
  ultimately show ?thesis using detect_process_cycles_correct [where ps = example_processes and depth = 3] by simp
qed

end
