(* ===== verification/Schema_Validate.thy ===== *)
theory Schema_Validate
  imports Parameters Process_Graph Affected_Paths Quantities Plan_Exec
begin

text \<open>
  Validation of task documents (\<open>TaskDocument::validate\<close> and its helpers in
  \<open>crates/nxr-task/src/schema.rs\<close>, \<open>crates/nxr-core/src/repo_path.rs\<close>): every check in the order
  of the source with its error. \<open>doc_valid\<close> states what a valid document is without reference to the
  order of the checks; validation decides it, and what it accepts can be planned.
\<close>

section \<open>Repository-relative paths\<close>

datatype RepoPathError =
    RepoPathEmpty string
  | RepoPathAbsolute string string
  | RepoPathParentTraversal string string

fun display_repo_path_error :: "RepoPathError \<Rightarrow> string" where
  "display_repo_path_error (RepoPathEmpty ctx) = ctx @ '': path must not be empty''"
| "display_repo_path_error (RepoPathAbsolute ctx v) =
     ctx @ '': path must be repository-relative (got `'' @ v @ ''`)''"
| "display_repo_path_error (RepoPathParentTraversal ctx v) =
     ctx @ '': path must not contain `..` (got `'' @ v @ ''`)''"

definition has_parent_dir :: "string \<Rightarrow> bool" where
  "has_parent_dir p = list_ex (\<lambda>c. c = ''..'') (path_components p)"

definition validate_repo_relative_path :: "string \<Rightarrow> string \<Rightarrow> (RepoPathError, unit) outcome" where
  "validate_repo_relative_path ctx v =
     (if v = [] then Err (RepoPathEmpty ctx)
      else if path_is_absolute v then Err (RepoPathAbsolute ctx v)
      else if has_parent_dir v then Err (RepoPathParentTraversal ctx v)
      else Ok ())"

definition normalize_repo_relative_path :: "string \<Rightarrow> string" where
  "normalize_repo_relative_path v = (case strip_prefix ''./'' v of Some r \<Rightarrow> r | None \<Rightarrow> v)"

section \<open>The checks\<close>

fun display_duration_error :: "DurationParseError \<Rightarrow> string" where
  "display_duration_error DurationEmpty = ''duration must not be empty''"
| "display_duration_error (DurationInvalid v) =
     ''invalid duration `'' @ v @ ''` (expected e.g. `500ms`, `5s`, `10m`, `1h`)''"

text \<open>\<open>if let Some(x) = o\<close> followed by a check of \<open>x\<close>, and a check of every path of a list.\<close>

fun if_some :: "('a \<Rightarrow> ('e, unit) outcome) \<Rightarrow> 'a option \<Rightarrow> ('e, unit) outcome" where
  "if_some f None = Ok ()"
| "if_some f (Some x) = f x"

definition check_paths :: "string \<Rightarrow> (nat \<Rightarrow> string \<Rightarrow> SchemaError) \<Rightarrow> string list \<Rightarrow> (SchemaError, unit) outcome" where
  "check_paths ctx err paths =
     for_each (\<lambda>(index, path). map_err (\<lambda>e. err index (display_repo_path_error e)) (validate_repo_relative_path ctx path))
       (enumerate 0 paths)"

definition validate_schema_version :: "u32 \<Rightarrow> (SchemaError, unit) outcome" where
  "validate_schema_version version =
     (if version = SCHEMA_VERSION \<or> version = SCHEMA_VERSION_V2 then Ok ()
      else Err (UnsupportedVersion version SCHEMA_VERSION))"

definition validate_working_directory :: "string \<Rightarrow> string \<Rightarrow> (SchemaError, unit) outcome" where
  "validate_working_directory task v =
     (if v = [] then Err (EmptyWorkingDirectory task)
      else if v = WORKING_DIRECTORY_INVOCATION \<or> v = WORKING_DIRECTORY_FLAKE_ROOT then Ok ()
      else if path_is_absolute v then Err (AbsoluteWorkingDirectory task v)
      else if has_parent_dir v then Err (ParentTraversalWorkingDirectory task v)
      else Ok ())"

definition validate_shell_name :: "string \<Rightarrow> string \<Rightarrow> (SchemaError, unit) outcome" where
  "validate_shell_name scope shell =
     (if trim shell = [] then Err (InvalidShell scope ''shell name must not be empty'') else Ok ())"

definition validate_task_resources :: "string \<Rightarrow> TaskResources \<Rightarrow> (SchemaError, unit) outcome" where
  "validate_task_resources task resources =
     (if tr_cpu resources = Some 0 then
        Err (InvalidResources task ''resources.cpu must be greater than zero when set'')
      else bind (if_some (\<lambda>memory. case parse_memory memory of
                    Ok _ \<Rightarrow> Ok ()
                  | Err error \<Rightarrow> Err (InvalidResources task (mpe_message error))
                  | Panic \<Rightarrow> Panic) (tr_memory resources)) (\<lambda>_.
        for_each (\<lambda>(index, lock).
          if trim lock = [] then
            Err (InvalidResources task (''resources.exclusive['' @ show_nat index @ ''] must not be empty''))
          else Ok ()) (enumerate 0 (tr_exclusive resources))))"

definition validate_context_environment :: "string \<Rightarrow> ContextEnvironment \<Rightarrow> (SchemaError, unit) outcome" where
  "validate_context_environment context_name environment =
     for_each (\<lambda>name.
       if trim name = [] then
         Err (InvalidContext context_name ''environment variable names must not be empty'')
       else Ok ()) (ce_keep environment @ ce_unset environment @ bt_keys (ce_set environment))"

definition validate_execution_context :: "string \<Rightarrow> ExecutionContext \<Rightarrow> (SchemaError, unit) outcome" where
  "validate_execution_context context_name ctx =
     bind (if_some (validate_shell_name (''context '' @ context_name)) (ec_shell ctx)) (\<lambda>_.
     bind (if_some (validate_context_environment context_name) (ec_environment ctx)) (\<lambda>_.
       for_each (\<lambda>(slot, secret).
         if trim (cs_reference secret) = [] then Err (InvalidSecret context_name slot ''ref must not be empty'')
         else Ok ()) (ec_secrets ctx)))"

definition validate_task_v2_semantics :: "debug_list \<Rightarrow> string \<Rightarrow> TaskDefinition \<Rightarrow> (SchemaError, unit) outcome" where
  "validate_task_v2_semantics dbg task definition =
     bind (if_some (validate_shell_name (''task '' @ task)) (td_shell definition)) (\<lambda>_.
     bind (if_some (\<lambda>inputs. check_paths ''inputs.paths'' (InvalidInputPath task) (ti_paths inputs)) (td_inputs definition)) (\<lambda>_.
     bind (check_paths ''outputs.path'' (InvalidOutputPath task) (map to_path (td_outputs definition))) (\<lambda>_.
     bind (if_some (validate_task_resources task) (td_resources definition)) (\<lambda>_.
     bind (if td_parameters definition \<noteq> [] then validate_task_parameters dbg task (td_parameters definition) else Ok ()) (\<lambda>_.
       if_some (\<lambda>matrix.
         bind (validate_task_matrix task matrix) (\<lambda>_.
           for_each (\<lambda>(index, attrs). validate_matrix_attrs task index attrs) (enumerate 0 (tm_include matrix))))
         (td_matrix definition))))))"

definition check_duration :: "string \<Rightarrow> string \<Rightarrow> (SchemaError, unit) outcome" where
  "check_duration task v =
     (case parse_duration v of
        Ok _ \<Rightarrow> Ok ()
      | Err error \<Rightarrow> Err (InvalidTimeout task (display_duration_error error))
      | Panic \<Rightarrow> Panic)"

definition check_context :: "TaskDocument \<Rightarrow> string \<Rightarrow> string \<Rightarrow> (SchemaError, unit) outcome" where
  "check_context doc scope ctx =
     (if \<not> bt_contains (doc_contexts doc) ctx then Err (UnknownContext scope ctx) else Ok ())"

definition check_task :: "debug_list \<Rightarrow> TaskDocument \<Rightarrow> string \<times> TaskDefinition \<Rightarrow> (SchemaError, unit) outcome" where
  "check_task dbg doc = (\<lambda>(task, definition).
     bind (if_some (check_context doc task) (td_context definition)) (\<lambda>_.
     bind (if doc_schema_version doc = SCHEMA_VERSION_V2 then validate_task_v2_semantics dbg task definition else Ok ()) (\<lambda>_.
     bind (if_some (validate_working_directory task) (td_working_directory definition)) (\<lambda>_.
     bind (check_paths ''paths'' (InvalidTaskPath task) (td_paths definition)) (\<lambda>_.
     bind (if_some (check_duration task) (td_timeout definition)) (\<lambda>_.
       if_some (check_duration task) (td_termination_grace_period definition)))))))"

definition check_restart :: "string \<Rightarrow> ProcessRestart option \<Rightarrow> (SchemaError, unit) outcome" where
  "check_restart process restart =
     (if restart = None \<or> restart = Some RestartNever then Ok ()
      else Err (InvalidProcess process
        (''restart policies other than `never` are not implemented; omit restart or set restart = '' @
         [CHR 0x22] @ ''never'' @ [CHR 0x22])))"

definition check_readiness :: "string \<Rightarrow> ReadinessHttp \<Rightarrow> (SchemaError, unit) outcome" where
  "check_readiness process http =
     (let url = trim (rh_url http) in
      if starts_with url ''https://'' then
        Err (InvalidProcess process ''readiness.http.url must use http:// (TLS probes are not implemented)'')
      else if \<not> starts_with url ''http://'' then
        Err (InvalidProcess process ''readiness.http.url must start with http://'')
      else Ok ())"

definition check_dependency :: "TaskDocument \<Rightarrow> string \<Rightarrow> string \<Rightarrow> (SchemaError, unit) outcome" where
  "check_dependency doc process dependency =
     (if \<not> bt_contains (doc_processes doc) (dependency_base_name dependency) then
        Err (InvalidProcess process (''unknown dependency `'' @ dependency @ ''`''))
      else Ok ())"

definition check_process :: "TaskDocument \<Rightarrow> string \<times> ProcessDefinition \<Rightarrow> (SchemaError, unit) outcome" where
  "check_process doc = (\<lambda>(process, definition).
     bind (check_restart process (pd_restart definition)) (\<lambda>_.
     bind (if_some (check_context doc (''process:'' @ process)) (pd_context definition)) (\<lambda>_.
     bind (if_some (validate_working_directory (''process:'' @ process)) (pd_working_directory definition)) (\<lambda>_.
     bind (if_some (validate_shell_name (''process:'' @ process)) (pd_shell definition)) (\<lambda>_.
     bind (if_some (check_readiness process) (Option.bind (pd_readiness definition) pr_http)) (\<lambda>_.
       for_each (check_dependency doc process) (pd_depends_on definition)))))))"

definition check_process_name :: "string \<Rightarrow> (SchemaError, unit) outcome" where
  "check_process_name process =
     map_err (\<lambda>e. InvalidProcessName process (process_name_error_message e)) (validate_node_id process)"

text \<open>
  The search for cycles gets the recursion depth the number of processes allows; the last branch,
  an exhausted depth, is never taken.
\<close>

definition validate :: "debug_list \<Rightarrow> TaskDocument \<Rightarrow> (SchemaError, unit) outcome" where
  "validate dbg doc =
     bind (validate_schema_version (doc_schema_version doc)) (\<lambda>_.
     bind (check_paths ''discoveryInputs'' InvalidDiscoveryInput (doc_discovery_inputs doc)) (\<lambda>_.
     bind (if doc_schema_version doc = SCHEMA_VERSION_V2
           then for_each (\<lambda>(context_name, ctx). validate_execution_context context_name ctx) (doc_contexts doc)
           else Ok ()) (\<lambda>_.
     bind (for_each (check_task dbg doc) (doc_tasks doc)) (\<lambda>_.
     bind (if doc_schema_version doc = SCHEMA_VERSION_V2
           then validate_matrix_instance_collisions (doc_tasks doc) else Ok ()) (\<lambda>_.
     bind (for_each check_process_name (bt_keys (doc_processes doc))) (\<lambda>_.
     bind (for_each (check_process doc) (doc_processes doc)) (\<lambda>_.
       case detect_process_cycles (Suc (length (doc_processes doc))) (doc_processes doc) of
         Some r \<Rightarrow> r
       | None \<Rightarrow> Panic)))))))"

section \<open>What a valid document is\<close>

definition path_ok :: "string \<Rightarrow> bool" where
  "path_ok p \<longleftrightarrow> p \<noteq> [] \<and> \<not> path_is_absolute p \<and> ''..'' \<notin> set (path_components p)"

definition dir_ok :: "string \<Rightarrow> bool" where
  "dir_ok d \<longleftrightarrow> d \<in> {WORKING_DIRECTORY_INVOCATION, WORKING_DIRECTORY_FLAKE_ROOT} \<or> path_ok d"

definition duration_ok :: "string \<Rightarrow> bool" where
  "duration_ok s \<longleftrightarrow> (\<exists>t. parse_duration s = Ok t)"

definition resources_ok :: "TaskResources \<Rightarrow> bool" where
  "resources_ok r \<longleftrightarrow> tr_cpu r \<noteq> Some 0 \<and> (\<forall>m. tr_memory r = Some m \<longrightarrow> (\<exists>b. parse_memory m = Ok b)) \<and>
     (\<forall>lock \<in> set (tr_exclusive r). trim lock \<noteq> [])"

definition parameters_ok :: "parameters \<Rightarrow> bool" where
  "parameters_ok ps \<longleftrightarrow> (\<forall>(name, p) \<in> set ps. is_canonical_ident name \<and> default_ok p)"

definition matrix_ok :: "TaskMatrix \<Rightarrow> bool" where
  "matrix_ok m \<longleftrightarrow> tm_include m \<noteq> [] \<and> (\<forall>attrs \<in> set (tm_include m). attrs \<noteq> [] \<and>
     (\<forall>(k, v) \<in> set attrs. is_canonical_ident k \<and> matrix_value_to_string v \<noteq> None))"

definition context_ok :: "ExecutionContext \<Rightarrow> bool" where
  "context_ok c \<longleftrightarrow> (\<forall>sh. ec_shell c = Some sh \<longrightarrow> trim sh \<noteq> []) \<and>
     (\<forall>env. ec_environment c = Some env \<longrightarrow>
        (\<forall>x \<in> set (ce_keep env) \<union> set (ce_unset env) \<union> set (bt_keys (ce_set env)). trim x \<noteq> [])) \<and>
     (\<forall>(slot, secret) \<in> set (ec_secrets c). trim (cs_reference secret) \<noteq> [])"

definition task_v2_ok :: "TaskDefinition \<Rightarrow> bool" where
  "task_v2_ok d \<longleftrightarrow> (\<forall>sh. td_shell d = Some sh \<longrightarrow> trim sh \<noteq> []) \<and>
     (\<forall>i. td_inputs d = Some i \<longrightarrow> (\<forall>p \<in> set (ti_paths i). path_ok p)) \<and>
     (\<forall>out \<in> set (td_outputs d). path_ok (to_path out)) \<and>
     (\<forall>r. td_resources d = Some r \<longrightarrow> resources_ok r) \<and> parameters_ok (td_parameters d) \<and>
     (\<forall>m. td_matrix d = Some m \<longrightarrow> matrix_ok m)"

definition doc_task_ok :: "TaskDocument \<Rightarrow> TaskDefinition \<Rightarrow> bool" where
  "doc_task_ok doc d \<longleftrightarrow> (\<forall>c. td_context d = Some c \<longrightarrow> c \<in> dom (map_of (doc_contexts doc))) \<and>
     (doc_schema_version doc = SCHEMA_VERSION_V2 \<longrightarrow> task_v2_ok d) \<and>
     (\<forall>w. td_working_directory d = Some w \<longrightarrow> dir_ok w) \<and> (\<forall>p \<in> set (td_paths d). path_ok p) \<and>
     (\<forall>t. td_timeout d = Some t \<longrightarrow> duration_ok t) \<and> (\<forall>t. td_termination_grace_period d = Some t \<longrightarrow> duration_ok t)"

definition process_ok :: "TaskDocument \<Rightarrow> ProcessDefinition \<Rightarrow> bool" where
  "process_ok doc d \<longleftrightarrow> pd_restart d \<in> {None, Some RestartNever} \<and>
     (\<forall>c. pd_context d = Some c \<longrightarrow> c \<in> dom (map_of (doc_contexts doc))) \<and>
     (\<forall>w. pd_working_directory d = Some w \<longrightarrow> dir_ok w) \<and> (\<forall>sh. pd_shell d = Some sh \<longrightarrow> trim sh \<noteq> []) \<and>
     (\<forall>r h. pd_readiness d = Some r \<longrightarrow> pr_http r = Some h \<longrightarrow> starts_with (trim (rh_url h)) ''http://'') \<and>
     (\<forall>dep \<in> set (pd_depends_on d). dependency_base_name dep \<in> dom (map_of (doc_processes doc)))"

definition doc_valid :: "TaskDocument \<Rightarrow> bool" where
  "doc_valid doc \<longleftrightarrow> doc_schema_version doc \<in> {SCHEMA_VERSION, SCHEMA_VERSION_V2} \<and>
     (\<forall>p \<in> set (doc_discovery_inputs doc). path_ok p) \<and>
     (\<forall>(name, d) \<in> set (doc_tasks doc). doc_task_ok doc d) \<and>
     (doc_schema_version doc = SCHEMA_VERSION_V2 \<longrightarrow>
        (\<forall>(name, c) \<in> set (doc_contexts doc). context_ok c) \<and>
        (\<forall>name d m i. (name, d) \<in> set (doc_tasks doc) \<longrightarrow> td_matrix d = Some m \<longrightarrow> i < length (tm_include m) \<longrightarrow>
           matrix_node_id name i \<notin> dom (map_of (doc_tasks doc)))) \<and>
     (\<forall>(name, d) \<in> set (doc_processes doc).
        name \<noteq> [] \<and> \<not> str_contains name ''..'' \<and> CHR ''/'' \<notin> set name \<and> process_ok doc d) \<and>
     \<not> (\<exists>x. on_cycle (doc_processes doc) x)"

text \<open>The maps of a document are maps.\<close>

definition doc_wf :: "TaskDocument \<Rightarrow> bool" where
  "doc_wf doc \<longleftrightarrow> bt_wf (doc_tasks doc) \<and>
     (\<forall>(name, d) \<in> set (doc_tasks doc). bt_wf (td_parameters d) \<and>
        (\<forall>m. td_matrix d = Some m \<longrightarrow> (\<forall>attrs \<in> set (tm_include m). bt_wf attrs)))"

section \<open>Each check decides its part\<close>

lemma if_some_Ok [simp]: "if_some f x = Ok () \<longleftrightarrow> (\<forall>a. x = Some a \<longrightarrow> f a = Ok ())"
  by (cases x) auto

lemma if_some_Panic [simp]: "if_some f x = Panic \<longleftrightarrow> (\<exists>a. x = Some a \<and> f a = Panic)"
  by (cases x) auto

lemma validate_repo_relative_path_Ok: "validate_repo_relative_path ctx p = Ok () \<longleftrightarrow> path_ok p"
  by (auto simp: validate_repo_relative_path_def path_ok_def has_parent_dir_def list_ex_iff)

lemma for_each_enumerate_Ok:
  "for_each (\<lambda>(i, x). f i x) (enumerate n xs) = Ok () \<longleftrightarrow> (\<forall>i < length xs. f (n + i) (xs ! i) = Ok ())"
  by (auto simp: for_each_Ok all_set_conv_all_nth nth_enumerate_eq)

lemma check_paths_Ok: "check_paths ctx err paths = Ok () \<longleftrightarrow> (\<forall>p \<in> set paths. path_ok p)"
  by (simp add: check_paths_def for_each_enumerate_Ok validate_repo_relative_path_Ok all_set_conv_all_nth)

lemma validate_working_directory_Ok: "validate_working_directory task d = Ok () \<longleftrightarrow> dir_ok d"
  by (auto simp: validate_working_directory_def dir_ok_def path_ok_def has_parent_dir_def list_ex_iff
      WORKING_DIRECTORY_INVOCATION_def WORKING_DIRECTORY_FLAKE_ROOT_def)

lemma validate_shell_name_Ok: "validate_shell_name scope sh = Ok () \<longleftrightarrow> trim sh \<noteq> []"
  by (simp add: validate_shell_name_def)

lemma check_duration_Ok: "check_duration task t = Ok () \<longleftrightarrow> duration_ok t"
  by (auto simp: check_duration_def duration_ok_def split: outcome.splits)

lemma validate_task_resources_Ok: "validate_task_resources task r = Ok () \<longleftrightarrow> resources_ok r"
proof -
  have locks: "for_each (\<lambda>(index, lock). if trim lock = [] then Err (g index) else Ok ()) (enumerate 0 (tr_exclusive r)) = Ok ()
      \<longleftrightarrow> (\<forall>lock \<in> set (tr_exclusive r). trim lock \<noteq> [])" for g
    by (auto simp: for_each_enumerate_Ok all_set_conv_all_nth)
  have memory: "(case parse_memory m of Ok b \<Rightarrow> Ok () | Err e \<Rightarrow> Err (h e) | Panic \<Rightarrow> Panic) = Ok () \<longleftrightarrow> (\<exists>b. parse_memory m = Ok b)" for m h
    by (auto split: outcome.splits)
  show ?thesis by (simp add: validate_task_resources_def resources_ok_def bind_eq_Ok locks memory)
qed

lemma validate_context_environment_Ok:
  "validate_context_environment ctx env = Ok () \<longleftrightarrow>
     (\<forall>x \<in> set (ce_keep env) \<union> set (ce_unset env) \<union> set (bt_keys (ce_set env)). trim x \<noteq> [])"
  by (auto simp: validate_context_environment_def for_each_Ok split: if_splits)

lemma validate_execution_context_Ok: "validate_execution_context ctx c = Ok () \<longleftrightarrow> context_ok c"
  by (auto simp: validate_execution_context_def context_ok_def bind_eq_Ok for_each_Ok validate_shell_name_Ok
      validate_context_environment_Ok split: if_splits)

lemma check_matrix_Ok:
  assumes "\<forall>attrs \<in> set (tm_include m). bt_wf attrs"
  shows "bind (validate_task_matrix task m) (\<lambda>_.
      for_each (\<lambda>(index, attrs). validate_matrix_attrs task index attrs) (enumerate 0 (tm_include m))) = Ok () \<longleftrightarrow> matrix_ok m"
  using assms validate_matrix_attrs_iff
  by (auto simp: bind_eq_Ok validate_task_matrix_def for_each_enumerate_Ok matrix_ok_def all_set_conv_all_nth)

lemma validate_task_v2_semantics_Ok:
  assumes "bt_wf (td_parameters d)" "\<forall>m. td_matrix d = Some m \<longrightarrow> (\<forall>attrs \<in> set (tm_include m). bt_wf attrs)"
  shows "validate_task_v2_semantics dbg task d = Ok () \<longleftrightarrow> task_v2_ok d"
proof -
  have "(if td_parameters d \<noteq> [] then validate_task_parameters dbg task (td_parameters d) else Ok ()) = Ok () \<longleftrightarrow>
      parameters_ok (td_parameters d)"
    using validate_task_parameters_iff(1) [OF assms(1)] by (auto simp: parameters_ok_def)
  with check_matrix_Ok assms(2) show ?thesis
    by (auto simp: validate_task_v2_semantics_def task_v2_ok_def bind_eq_Ok validate_shell_name_Ok check_paths_Ok
        validate_task_resources_Ok)
qed

lemma check_task_Ok:
  assumes "doc_wf doc" "(task, d) \<in> set (doc_tasks doc)"
  shows "check_task dbg doc (task, d) = Ok () \<longleftrightarrow> doc_task_ok doc d"
proof -
  have "bt_wf (td_parameters d)" "\<forall>m. td_matrix d = Some m \<longrightarrow> (\<forall>attrs \<in> set (tm_include m). bt_wf attrs)"
    using assms by (auto simp: doc_wf_def)
  note v2 = validate_task_v2_semantics_Ok [OF this, of dbg task]
  show ?thesis
    by (auto simp: check_task_def doc_task_ok_def bind_eq_Ok check_context_def v2 validate_working_directory_Ok check_paths_Ok
        check_duration_Ok split: if_splits)
qed

lemma check_readiness_Ok: "check_readiness process h = Ok () \<longleftrightarrow> starts_with (trim (rh_url h)) ''http://''"
proof -
  have "\<not> (starts_with u ''https://'' \<and> starts_with u ''http://'')" for u
    by (auto simp: starts_with_def prefix_def)
  then show ?thesis by (auto simp: check_readiness_def Let_def)
qed

lemma check_process_Ok: "check_process doc (process, d) = Ok () \<longleftrightarrow> process_ok doc d"
  by (auto simp: check_process_def process_ok_def bind_eq_Ok check_restart_def check_context_def validate_working_directory_Ok
      validate_shell_name_Ok check_readiness_Ok for_each_Ok check_dependency_def bind_eq_Some_conv split: if_splits)

lemma check_process_name_Ok:
  "check_process_name process = Ok () \<longleftrightarrow> process \<noteq> [] \<and> \<not> str_contains process ''..'' \<and> CHR ''/'' \<notin> set process"
  by (simp add: check_process_name_def validate_node_id_Ok)

lemma validate_matrix_instance_collisions_Ok:
  "validate_matrix_instance_collisions ts = Ok () \<longleftrightarrow>
     (\<forall>name d m i. (name, d) \<in> set ts \<longrightarrow> td_matrix d = Some m \<longrightarrow> i < length (tm_include m) \<longrightarrow>
        matrix_node_id name i \<notin> dom (map_of ts))"
proof -
  have one: "(case td_matrix d of Some m \<Rightarrow> for_each (check_collision ts name) [0..<length (tm_include m)] | None \<Rightarrow> Ok ()) = Ok () \<longleftrightarrow>
      (\<forall>m i. td_matrix d = Some m \<longrightarrow> i < length (tm_include m) \<longrightarrow> matrix_node_id name i \<notin> dom (map_of ts))" for name d
    by (auto simp: for_each_Ok check_collision_def matrix_node_id_neq Let_def split: option.splits)
  show ?thesis
    unfolding validate_matrix_instance_collisions_def for_each_Ok Ball_def split_paired_All prod.case one by blast
qed

lemma detect_process_cycles_Ok:
  "(case detect_process_cycles (Suc (length ps)) ps of Some r \<Rightarrow> r | None \<Rightarrow> Panic) = Ok () \<longleftrightarrow> \<not> (\<exists>x. on_cycle ps x)"
  "(case detect_process_cycles (Suc (length ps)) ps of Some r \<Rightarrow> r | None \<Rightarrow> Panic) \<noteq> Panic"
  using detect_process_cycles_decides [of ps "Suc (length ps)"] by (auto split: if_splits)

lemma validate_version_Ok: "validate_schema_version v = Ok () \<longleftrightarrow> v \<in> {SCHEMA_VERSION, SCHEMA_VERSION_V2}"
  by (auto simp: validate_schema_version_def)

lemma validate_Ok:
  assumes "doc_wf doc"
  shows "validate dbg doc = Ok () \<longleftrightarrow> doc_valid doc"
proof -
  have tasks: "for_each (check_task dbg doc) (doc_tasks doc) = Ok () \<longleftrightarrow> (\<forall>(name, d) \<in> set (doc_tasks doc). doc_task_ok doc d)"
    using check_task_Ok [OF assms] by (auto simp: for_each_Ok)
  have procs: "for_each check_process_name (bt_keys (doc_processes doc)) = Ok () \<and>
      for_each (check_process doc) (doc_processes doc) = Ok () \<longleftrightarrow>
      (\<forall>(name, d) \<in> set (doc_processes doc).
        name \<noteq> [] \<and> \<not> str_contains name ''..'' \<and> CHR ''/'' \<notin> set name \<and> process_ok doc d)"
    by (fastforce simp: for_each_Ok check_process_name_Ok check_process_Ok bt_keys_def)
  have ctxs: "for_each (\<lambda>(context_name, ctx). validate_execution_context context_name ctx) (doc_contexts doc) = Ok () \<longleftrightarrow>
      (\<forall>(name, c) \<in> set (doc_contexts doc). context_ok c)"
    by (auto simp: for_each_Ok validate_execution_context_Ok)
  have "validate dbg doc = Ok () \<longleftrightarrow>
      validate_schema_version (doc_schema_version doc) = Ok () \<and>
      check_paths ''discoveryInputs'' InvalidDiscoveryInput (doc_discovery_inputs doc) = Ok () \<and>
      for_each (check_task dbg doc) (doc_tasks doc) = Ok () \<and>
      (doc_schema_version doc = SCHEMA_VERSION_V2 \<longrightarrow>
         for_each (\<lambda>(context_name, ctx). validate_execution_context context_name ctx) (doc_contexts doc) = Ok () \<and>
         validate_matrix_instance_collisions (doc_tasks doc) = Ok ()) \<and>
      (for_each check_process_name (bt_keys (doc_processes doc)) = Ok () \<and>
       for_each (check_process doc) (doc_processes doc) = Ok ()) \<and>
      \<not> (\<exists>x. on_cycle (doc_processes doc) x)"
    unfolding validate_def bind_eq_Ok detect_process_cycles_Ok by auto
  then show ?thesis
    unfolding tasks procs ctxs validate_version_Ok check_paths_Ok validate_matrix_instance_collisions_Ok doc_valid_def .
qed

section \<open>Validation never panics\<close>

lemma check_paths_no_panic: "check_paths ctx err paths \<noteq> Panic"
  unfolding check_paths_def
  by (rule for_each_no_panic) (auto simp: validate_repo_relative_path_def split: if_splits)

lemma parse_duration_no_panic: "parse_duration t \<noteq> Panic"
  by (auto simp: parse_duration_def Let_def split: option.splits)

lemma validate_task_resources_no_panic: "validate_task_resources task r \<noteq> Panic"
  using parse_memory_no_panic
  by (auto simp: validate_task_resources_def outcome_simps dest!: for_each_Panic split: outcome.splits if_splits)

lemma validate_execution_context_no_panic: "validate_execution_context ctx c \<noteq> Panic"
  by (auto simp: validate_execution_context_def outcome_simps validate_shell_name_def validate_context_environment_def
      dest!: for_each_Panic split: if_splits)

lemma validate_task_v2_semantics_no_panic:
  assumes "bt_wf (td_parameters d)"
  shows "validate_task_v2_semantics dbg task d \<noteq> Panic"
  using validate_task_parameters_iff(2) [OF assms]
  by (auto simp: validate_task_v2_semantics_def outcome_simps validate_shell_name_def check_paths_no_panic
      validate_task_resources_no_panic validate_task_matrix_def validate_matrix_attrs_no_panic dest!: for_each_Panic split: if_splits)

lemma check_task_no_panic: "bt_wf (td_parameters d) \<Longrightarrow> check_task dbg doc (task, d) \<noteq> Panic"
  using validate_task_v2_semantics_no_panic parse_duration_no_panic
  by (auto simp: check_task_def outcome_simps check_context_def check_paths_no_panic validate_working_directory_def
      check_duration_def split: if_splits outcome.splits)

lemma check_process_no_panic: "check_process doc x \<noteq> Panic"
  by (cases x) (auto simp: check_process_def outcome_simps check_restart_def check_context_def validate_working_directory_def
      validate_shell_name_def check_readiness_def check_dependency_def Let_def dest!: for_each_Panic split: if_splits)

lemma validate_no_panic:
  assumes "doc_wf doc"
  shows "validate dbg doc \<noteq> Panic"
proof -
  have tasks: "for_each (check_task dbg doc) (doc_tasks doc) \<noteq> Panic"
    using assms check_task_no_panic by (intro for_each_no_panic) (auto simp: doc_wf_def)
  have ctxs: "for_each (\<lambda>(context_name, ctx). validate_execution_context context_name ctx) (doc_contexts doc) \<noteq> Panic"
    by (rule for_each_no_panic) (auto simp: validate_execution_context_no_panic)
  have coll: "validate_matrix_instance_collisions (doc_tasks doc) \<noteq> Panic"
    unfolding validate_matrix_instance_collisions_def
    by (rule for_each_no_panic) (auto simp: check_collision_def Let_def dest!: for_each_Panic split: option.splits if_splits)
  have names: "for_each check_process_name (bt_keys (doc_processes doc)) \<noteq> Panic"
    by (rule for_each_no_panic) (auto simp: check_process_name_def validate_node_id_def split: if_splits)
  have procs: "for_each (check_process doc) (doc_processes doc) \<noteq> Panic"
    by (rule for_each_no_panic) (rule check_process_no_panic)
  show ?thesis
    unfolding validate_def
    by (simp add: bind_eq_Panic validate_schema_version_def check_paths_no_panic tasks ctxs coll names procs detect_process_cycles_Ok(2))
qed

section \<open>What validation gives planning\<close>

lemma validated_matrices_expand:
  assumes wf: "doc_wf doc" and tasks: "\<And>name d. (name, d) \<in> set (doc_tasks doc) \<Longrightarrow> task_v2_ok d"
  shows "\<exists>e. expand_matrix_tasks (doc_tasks doc) = Ok e"
proof -
  have "valid_matrix name m" if "(name, d) \<in> set (doc_tasks doc)" "td_matrix d = Some m" for name d m
  proof -
    from that tasks have "matrix_ok m" by (auto simp: task_v2_ok_def)
    moreover from that wf have "\<forall>attrs \<in> set (tm_include m). bt_wf attrs" by (auto simp: doc_wf_def)
    ultimately show ?thesis
      using validate_matrix_attrs_iff by (auto simp: valid_matrix_def matrix_ok_def)
  qed
  then have "\<exists>ids. instance_ids_loop (doc_tasks doc) [] = Ok ids" by (auto simp: instance_ids_loop_total)
  then show ?thesis by (auto simp: expand_matrix_tasks_def split: prod.splits)
qed

definition declared_demand :: "TaskResources \<Rightarrow> NodeResources \<Rightarrow> bool" where
  "declared_demand r n \<longleftrightarrow>
     (\<forall>m. tr_memory r = Some m \<longrightarrow> parse_memory m = Ok (nr_memory_bytes n) \<and> nr_memory_bytes n \<noteq> 0) \<and>
     (\<forall>c. tr_cpu r = Some c \<longrightarrow> cpu_tokens n = c)"

lemma from_task_resources_declared:
  assumes "resources_ok r"
  shows "declared_demand r (from_task_resources r)"
proof -
  have "parse_memory m = Ok (memory_or_zero (Some m)) \<and> memory_or_zero (Some m) \<noteq> 0" if "tr_memory r = Some m" for m
  proof -
    from that assms obtain b where b: "parse_memory m = Ok b" by (auto simp: resources_ok_def)
    with parse_memory_exact [OF b] show ?thesis by (auto simp: memory_or_zero_def)
  qed
  with assms show ?thesis by (auto simp: declared_demand_def from_task_resources_def cpu_tokens_def resources_ok_def)
qed

section \<open>Properties\<close>

text \<open>
  C6: Validation of a task document is total and decides validity: it accepts exactly the documents
  of version 1 or 2 whose paths are repository-relative, whose working directories, durations,
  contexts, processes and dependency tokens are well-formed, whose processes have no dependency cycle
  and, for version 2, whose contexts, resources, parameters and matrices are well-formed and whose
  matrix instances collide with no task. Everything else is an error and nothing panics.
\<close>

theorem validate_decides:
  assumes "doc_wf doc"
  shows "(if doc_valid doc then validate dbg doc = Ok () else \<exists>e. validate dbg doc = Err e)"
  using validate_Ok [OF assms] validate_no_panic [OF assms] by (cases "validate dbg doc") auto

definition example_task :: TaskDefinition where
  "example_task = (TaskDefinition_new ''build'')\<lparr>td_working_directory := Some ''crates/api'', td_timeout := Some ''10m'',
     td_paths := [''crates/api''], td_parameters := example_parameters,
     td_matrix := Some \<lparr>tm_include = [[(''os'', JString ''linux'')]]\<rparr>\<rparr>"

definition example_document :: "string list \<Rightarrow> TaskDocument" where
  "example_document deps = \<lparr>doc_schema_version = SCHEMA_VERSION_V2, doc_tasks = [(''build'', example_task)], doc_apps = [],
     doc_discovery_inputs = [''flake.nix''], doc_contexts = [],
     doc_processes = [(''api'', example_process [''database@ready'']), (''database'', example_process deps)]\<rparr>"

lemma example_document_wf: "doc_wf (example_document deps)"
  using example_wf
  by (simp add: doc_wf_def example_document_def example_task_def TaskDefinition_new_def bt_wf_def)

lemma example_document_edges:
  "process_edge (doc_processes (example_document deps)) a b \<longleftrightarrow>
     a = ''api'' \<and> b = ''database'' \<or> a = ''database'' \<and> b \<in> dependency_base_name ` set deps"
  by (auto simp: process_edge_def example_document_def example_process_def dependency_base_name_def)

lemma example_document_acyclic: "\<not> on_cycle (doc_processes (example_document [])) x"
proof -
  have "x = ''api'' \<and> y = ''database''" if "(process_edge (doc_processes (example_document [])))\<^sup>+\<^sup>+ x y" for y
    using that by induction (auto simp: example_document_edges)
  then show ?thesis by fastforce
qed

lemma example_task_ok: "doc_task_ok (example_document deps) example_task"
proof -
  have "path_ok ''crates/api''" unfolding path_ok_def by code_simp
  moreover have "parse_u64 ''10'' = Some 10" by (simp add: parse_u64_def digits_value_def char_digit_def is_ascii_digit_def)
  then have "duration_ok ''10m''"
    by (simp add: duration_ok_def parse_duration_def trim_id ascii_graph_def Let_def split_number_unit_def is_ascii_digit_def)
  moreover have "parameters_ok example_parameters" unfolding parameters_ok_def by code_simp
  moreover have "matrix_ok \<lparr>tm_include = [[(''os'', JString ''linux'')]]\<rparr>" unfolding matrix_ok_def by code_simp
  ultimately show ?thesis
    by (simp add: doc_task_ok_def task_v2_ok_def example_task_def TaskDefinition_new_def dir_ok_def)
qed

lemma example_document_fields:
  "doc_schema_version (example_document deps) = SCHEMA_VERSION_V2" "doc_tasks (example_document deps) = [(''build'', example_task)]"
  "doc_discovery_inputs (example_document deps) = [''flake.nix'']" "doc_contexts (example_document deps) = []"
  "td_matrix example_task = Some \<lparr>tm_include = [[(''os'', JString ''linux'')]]\<rparr>"
  by (simp_all add: example_document_def example_task_def)

lemma example_document_valid: "doc_valid (example_document [])"
proof -
  have "path_ok ''flake.nix''" unfolding path_ok_def by code_simp
  moreover have "\<not> str_contains ''api'' ''..''" "\<not> str_contains ''database'' ''..''" by code_simp+
  then have "\<forall>(name, d) \<in> set (doc_processes (example_document [])).
      name \<noteq> [] \<and> \<not> str_contains name ''..'' \<and> CHR ''/'' \<notin> set name \<and> process_ok (example_document []) d"
    by (simp add: process_ok_def dependency_base_name_def example_document_def example_process_def)
  ultimately show ?thesis
    using example_document_acyclic example_task_ok [of "[]"] matrix_node_id_neq
    by (simp add: doc_valid_def example_document_fields)
qed

theorem validate_decides_witness:
  "validate (\<lambda>_. []) (example_document []) = Ok () \<and> (\<exists>e. validate (\<lambda>_. []) (example_document [''api'']) = Err e)"
proof
  show "validate (\<lambda>_. []) (example_document []) = Ok ()"
    using validate_decides [OF example_document_wf [of "[]"], where dbg = "\<lambda>_. []"] example_document_valid by simp
  have "on_cycle (doc_processes (example_document [''api''])) ''api''"
    by (rule tranclp.trancl_into_trancl [of _ _ "''database''"])
      (auto simp: example_document_edges dependency_base_name_def)
  then have "\<not> doc_valid (example_document [''api''])" by (auto simp: doc_valid_def)
  then show "\<exists>e. validate (\<lambda>_. []) (example_document [''api'']) = Err e"
    using validate_decides [OF example_document_wf [of "[''api'']"], where dbg = "\<lambda>_. []"] by simp
qed

text \<open>
  C8: What validation guarantees the planner and the scheduler. The matrices of a validated
  version 2 document expand, so building a plan from it never fails for an invalid matrix: the only
  errors are those of the serial planner on the expanded tasks. Every node of the plan demands
  exactly what its task declares: the memory quantity parses to a nonzero number of bytes, so the
  fallback of the resource demand to zero is never taken, and a declared number of CPUs is
  positive.
\<close>

theorem validated_document_plans:
  assumes wf: "doc_wf doc" and ok: "validate dbg doc = Ok ()" and v2: "doc_schema_version doc = SCHEMA_VERSION_V2"
  shows "\<exists>e. expand_matrix_tasks (doc_tasks doc) = Ok e \<and>
    (case build_execution_plan_roots (doc_tasks doc) roots policy sink of
       Ok (plan, _) \<Rightarrow> plan_wf plan \<and>
         (\<forall>n \<in> set (ep_nodes plan). \<exists>name d. map_of (doc_tasks doc) name = Some d \<and> pn_id n \<in> set (instances_of (doc_tasks doc) name) \<and>
            (\<forall>r. td_resources d = Some r \<longrightarrow>
               (\<forall>m. tr_memory r = Some m \<longrightarrow> parse_memory m = Ok (nr_memory_bytes (pn_resources n)) \<and> nr_memory_bytes (pn_resources n) \<noteq> 0) \<and>
               (\<forall>c. tr_cpu r = Some c \<longrightarrow> cpu_tokens (pn_resources n) = c)))
     | Err err \<Rightarrow> plan_serial_union (me_tasks e) (expand_matrix_roots roots e) = Err err
     | Panic \<Rightarrow> False)"
proof -
  from validate_Ok [OF wf] ok have valid: "doc_valid doc" by simp
  then have tasks: "task_v2_ok d" if "(name, d) \<in> set (doc_tasks doc)" for name d
    using that v2 by (auto simp: doc_valid_def doc_task_ok_def)
  have coll: "validate_matrix_instance_collisions (doc_tasks doc) = Ok ()"
    using valid v2 by (simp add: doc_valid_def validate_matrix_instance_collisions_Ok)
  have bt: "bt_wf (doc_tasks doc)" using wf by (simp add: doc_wf_def)
  obtain e where e: "expand_matrix_tasks (doc_tasks doc) = Ok e"
    using validated_matrices_expand [OF wf] tasks by metis
  show ?thesis
  proof (cases "build_execution_plan_roots (doc_tasks doc) roots policy sink")
    case (Ok r)
    obtain plan sink' where r: "r = (plan, sink')" by fastforce
    have "\<exists>name d. map_of (doc_tasks doc) name = Some d \<and> pn_id n \<in> set (instances_of (doc_tasks doc) name) \<and>
        (\<forall>r. td_resources d = Some r \<longrightarrow> declared_demand r (pn_resources n))" if "n \<in> set (ep_nodes plan)" for n
    proof -
      from build_execution_plan_roots_node [OF bt coll Ok [unfolded r] that] obtain name d where
        d: "map_of (doc_tasks doc) name = Some d" "pn_id n \<in> set (instances_of (doc_tasks doc) name)"
        "pn_resources n = (case td_resources d of None \<Rightarrow> NodeResources_EMPTY | Some r \<Rightarrow> from_task_resources r)" by blast
      from tasks [OF map_of_SomeD [OF d(1)]] have "\<forall>r. td_resources d = Some r \<longrightarrow> resources_ok r" by (simp add: task_v2_ok_def)
      with d show ?thesis using from_task_resources_declared by (intro exI [of _ name] exI [of _ d]) auto
    qed
    with e Ok r build_execution_plan_roots_wf [OF Ok [unfolded r]] show ?thesis
      by (simp add: declared_demand_def)
  next
    case (Err err)
    with build_execution_plan_roots_Err [OF Err] e show ?thesis by auto
  qed (simp add: build_execution_plan_roots_no_panic)
qed

theorem validated_document_plans_witness:
  "\<exists>e. expand_matrix_tasks (doc_tasks (example_document [])) = Ok e"
proof -
  have "validate (\<lambda>_. []) (example_document []) = Ok ()"
    using validate_Ok [OF example_document_wf] example_document_valid by simp
  from validated_document_plans [OF example_document_wf this, where roots = "[''build'']" and policy = FailFast and sink = None]
  show ?thesis by (auto simp: example_document_def)
qed

definition shadow_document :: TaskDocument where
  "shadow_document = TaskDocument_new
     [(''deploy'', (TaskDefinition_new ''deploy-app'')\<lparr>td_matrix := Some \<lparr>tm_include = [[(''env'', JString ''prod'')]]\<rparr>\<rparr>),
      (''deploy@0'', TaskDefinition_new ''other-app'')]"

lemma shadow_document_validates: "validate dbg shadow_document = Ok ()"
proof -
  have "doc_wf shadow_document" by (simp add: doc_wf_def shadow_document_def TaskDocument_new_def TaskDefinition_new_def bt_wf_def)
  moreover have "\<not> on_cycle [] x" for x
    by (auto simp: process_edge_def dest: tranclpD)
  then have "doc_valid shadow_document"
    by (auto simp: doc_valid_def doc_task_ok_def shadow_document_def TaskDocument_new_def TaskDefinition_new_def
        SCHEMA_VERSION_def SCHEMA_VERSION_V2_def)
  ultimately show ?thesis by (simp add: validate_Ok)
qed

lemma shadow_document_plan:
  "(case build_execution_plan_roots (doc_tasks shadow_document) [''deploy''] policy None of
      Ok (plan, _) \<Rightarrow> map pn_operation (ep_nodes plan) | _ \<Rightarrow> []) = [Some (FlakeApp ''other-app'')]"
  unfolding shadow_document_def TaskDocument_new_def TaskDefinition_new_def by (cases policy) code_simp+

text \<open>
  Version 1 documents are read with the same task type, and planning expands every matrix, but
  the check for colliding instance names is only made for version 2. In a validated version 1
  document a task can have the name of an instance of another task's matrix; expansion then keeps
  only one of the two definitions, and running the matrix task runs the other task's app.
\<close>

lemma v1_matrix_shadowed:
  "\<exists>doc. doc_schema_version doc = SCHEMA_VERSION \<and> (\<forall>dbg. validate dbg doc = Ok ()) \<and>
     validate_matrix_instance_collisions (doc_tasks doc) \<noteq> Ok () \<and>
     (\<exists>d. map_of (doc_tasks doc) ''deploy'' = Some d \<and> td_app d = ''deploy-app'') \<and>
     (case build_execution_plan_roots (doc_tasks doc) [''deploy''] policy None of
        Ok (plan, _) \<Rightarrow> map pn_operation (ep_nodes plan) = [Some (FlakeApp ''other-app'')] | _ \<Rightarrow> False)"
proof (intro exI conjI)
  show "doc_schema_version shadow_document = SCHEMA_VERSION" by (simp add: shadow_document_def TaskDocument_new_def)
  show "\<forall>dbg. validate dbg shadow_document = Ok ()" using shadow_document_validates by blast
  show "validate_matrix_instance_collisions (doc_tasks shadow_document) \<noteq> Ok ()"
    by (simp add: shadow_document_def TaskDocument_new_def TaskDefinition_new_def validate_matrix_instance_collisions_def
        check_collision_def matrix_node_id_def Let_def show_nat.simps)
  show "map_of (doc_tasks shadow_document) ''deploy'' = Some ((TaskDefinition_new ''deploy-app'')\<lparr>td_matrix :=
      Some \<lparr>tm_include = [[(''env'', JString ''prod'')]]\<rparr>\<rparr>)" by (simp add: shadow_document_def TaskDocument_new_def)
  show "td_app ((TaskDefinition_new ''deploy-app'')\<lparr>td_matrix := Some \<lparr>tm_include = [[(''env'', JString ''prod'')]]\<rparr>\<rparr>) = ''deploy-app''"
    by (simp add: TaskDefinition_new_def)
  show "case build_execution_plan_roots (doc_tasks shadow_document) [''deploy''] policy None of
      Ok (plan, _) \<Rightarrow> map pn_operation (ep_nodes plan) = [Some (FlakeApp ''other-app'')] | _ \<Rightarrow> False"
    using shadow_document_plan [of policy] by (auto split: outcome.splits)
qed

end
