(* ===== verification/Schema_Parse.thy ===== *)
theory Schema_Parse
  imports Schema_Validate
begin

text \<open>
  Reading a task document (\<open>parse_task_document\<close> of \<open>crates/nxr-task/src/schema.rs\<close>): the version
  of the JSON value selects the tolerant or the strict data model, a strict document is converted
  to the common one, and the result is validated. Deserialization is the external crate
  \<open>serde_json\<close>; the record \<open>Serde\<close> is what the code uses of it.
\<close>

section \<open>The strict data model\<close>

record TaskMatrixV2Strict =
  sm_include :: "(string, JsonValue) btmap list"

definition TaskMatrix_from :: "TaskMatrixV2Strict \<Rightarrow> TaskMatrix" where
  "TaskMatrix_from strict = \<lparr>
     tm_include = sm_include strict\<rparr>"

record TaskParameterV2Strict =
  sp_param_type :: TaskParameterType
  sp_default :: "JsonValue option"
  sp_values :: "string list option"

definition TaskParameter_from :: "TaskParameterV2Strict \<Rightarrow> TaskParameter" where
  "TaskParameter_from strict = \<lparr>
     tp_param_type = sp_param_type strict,
     tp_default = sp_default strict,
     tp_values = sp_values strict\<rparr>"

record EnvInputBindingV2Strict =
  sb_name :: string
  sb_required :: bool
  sb_secret :: bool

definition EnvInputBinding_from :: "EnvInputBindingV2Strict \<Rightarrow> EnvInputBinding" where
  "EnvInputBinding_from strict = \<lparr>
     eb_name = sb_name strict,
     eb_required = sb_required strict,
     eb_secret = sb_secret strict\<rparr>"

datatype EnvInputV2Strict = StrictEnvName string | StrictEnvBinding EnvInputBindingV2Strict

fun EnvInput_from :: "EnvInputV2Strict \<Rightarrow> EnvInput" where
  "EnvInput_from (StrictEnvName name) = EnvName name"
| "EnvInput_from (StrictEnvBinding binding) = EnvBinding (EnvInputBinding_from binding)"

record TaskInputBindingV2Strict =
  sib_from :: string

definition TaskInputBinding_from :: "TaskInputBindingV2Strict \<Rightarrow> TaskInputBinding" where
  "TaskInputBinding_from strict = \<lparr>
     tib_from = sib_from strict\<rparr>"

record TaskInputsV2Strict =
  si_paths :: "string list"
  si_env :: "EnvInputV2Strict list"
  si_include_git_state :: bool
  si_bindings :: "(string, TaskInputBindingV2Strict) btmap"

definition TaskInputs_from :: "TaskInputsV2Strict \<Rightarrow> TaskInputs" where
  "TaskInputs_from strict = \<lparr>
     ti_paths = si_paths strict,
     ti_env = map EnvInput_from (si_env strict),
     ti_include_git_state = si_include_git_state strict,
     ti_bindings = bt_map TaskInputBinding_from (si_bindings strict)\<rparr>"

record TaskOutputV2Strict =
  so_path :: string
  so_mode :: "TaskOutputMode option"
  so_optional :: bool

definition TaskOutput_from :: "TaskOutputV2Strict \<Rightarrow> TaskOutput" where
  "TaskOutput_from strict = \<lparr>
     to_path = so_path strict,
     to_mode = so_mode strict,
     to_optional = so_optional strict\<rparr>"

record TaskCacheV2Strict =
  sc_mode :: "TaskCacheMode option"
  sc_version :: "string option"
  sc_restore :: "bool option"
  sc_save :: "bool option"
  sc_failures :: "bool option"
  sc_secret_policy :: "TaskCacheSecretPolicy option"

definition TaskCache_from :: "TaskCacheV2Strict \<Rightarrow> TaskCache" where
  "TaskCache_from strict = \<lparr>
     tc_mode = sc_mode strict,
     tc_version = sc_version strict,
     tc_restore = sc_restore strict,
     tc_save = sc_save strict,
     tc_failures = sc_failures strict,
     tc_secret_policy = sc_secret_policy strict\<rparr>"

record TaskResourcesV2Strict =
  sr_cpu :: "u32 option"
  sr_memory :: "string option"
  sr_io :: "IoIntensity option"
  sr_network :: "bool option"
  sr_exclusive :: "string list"

definition TaskResources_from :: "TaskResourcesV2Strict \<Rightarrow> TaskResources" where
  "TaskResources_from strict = \<lparr>
     tr_cpu = sr_cpu strict,
     tr_memory = sr_memory strict,
     tr_io = sr_io strict,
     tr_network = sr_network strict,
     tr_exclusive = sr_exclusive strict\<rparr>"

record ContextEnvironmentV2Strict =
  se_mode :: ContextEnvironmentMode
  se_keep :: "string list"
  se_set :: "(string, string) btmap"
  se_unset :: "string list"

definition ContextEnvironment_from :: "ContextEnvironmentV2Strict \<Rightarrow> ContextEnvironment" where
  "ContextEnvironment_from strict = \<lparr>
     ce_mode = se_mode strict,
     ce_keep = se_keep strict,
     ce_set = se_set strict,
     ce_unset = se_unset strict\<rparr>"

record ContextSecretRefV2Strict =
  ss_reference :: string
  ss_delivery :: "SecretDelivery option"
  ss_provider :: SecretProvider

definition ContextSecretRef_from :: "ContextSecretRefV2Strict \<Rightarrow> ContextSecretRef" where
  "ContextSecretRef_from strict = \<lparr>
     cs_reference = ss_reference strict,
     cs_delivery = ss_delivery strict,
     cs_provider = ss_provider strict\<rparr>"

record ExecutionContextV2Strict =
  sx_shell :: "string option"
  sx_environment :: "ContextEnvironmentV2Strict option"
  sx_secrets :: "(string, ContextSecretRefV2Strict) btmap"
  sx_confirm :: bool

definition ExecutionContext_from :: "ExecutionContextV2Strict \<Rightarrow> ExecutionContext" where
  "ExecutionContext_from strict = \<lparr>
     ec_shell = sx_shell strict,
     ec_environment = map_option ContextEnvironment_from (sx_environment strict),
     ec_secrets = bt_map ContextSecretRef_from (sx_secrets strict),
     ec_confirm = sx_confirm strict\<rparr>"

record TaskDefinitionV2Strict =
  sd_description :: "string option"
  sd_depends_on :: "string list"
  sd_app :: string
  sd_working_directory :: "string option"
  sd_hidden :: bool
  sd_category :: "string option"
  sd_aliases :: "string list"
  sd_interactive :: bool
  sd_paths :: "string list"
  sd_timeout :: "string option"
  sd_termination_grace_period :: "string option"
  sd_inputs :: "TaskInputsV2Strict option"
  sd_outputs :: "TaskOutputV2Strict list"
  sd_cache :: "TaskCacheV2Strict option"
  sd_resources :: "TaskResourcesV2Strict option"
  sd_shell :: "string option"
  sd_context :: "string option"
  sd_parameters :: "(string, TaskParameterV2Strict) btmap"
  sd_matrix :: "TaskMatrixV2Strict option"

definition TaskDefinition_from :: "TaskDefinitionV2Strict \<Rightarrow> TaskDefinition" where
  "TaskDefinition_from strict = \<lparr>
     td_description = sd_description strict,
     td_depends_on = sd_depends_on strict,
     td_app = sd_app strict,
     td_working_directory = sd_working_directory strict,
     td_hidden = sd_hidden strict,
     td_category = sd_category strict,
     td_aliases = sd_aliases strict,
     td_interactive = sd_interactive strict,
     td_paths = sd_paths strict,
     td_timeout = sd_timeout strict,
     td_termination_grace_period = sd_termination_grace_period strict,
     td_inputs = map_option TaskInputs_from (sd_inputs strict),
     td_outputs = map TaskOutput_from (sd_outputs strict),
     td_cache = map_option TaskCache_from (sd_cache strict),
     td_resources = map_option TaskResources_from (sd_resources strict),
     td_shell = sd_shell strict,
     td_context = sd_context strict,
     td_parameters = bt_map TaskParameter_from (sd_parameters strict),
     td_matrix = map_option TaskMatrix_from (sd_matrix strict)\<rparr>"

record TaskDocumentV2Strict =
  st_schema_version :: u32
  st_tasks :: "(string, TaskDefinitionV2Strict) btmap"
  st_apps :: "(string, AppListingMetadata) btmap"
  st_discovery_inputs :: "string list"
  st_contexts :: "(string, ExecutionContextV2Strict) btmap"
  st_processes :: "(string, ProcessDefinition) btmap"

definition TaskDocument_from :: "TaskDocumentV2Strict \<Rightarrow> TaskDocument" where
  "TaskDocument_from strict = \<lparr>
     doc_schema_version = st_schema_version strict,
     doc_tasks = bt_map TaskDefinition_from (st_tasks strict),
     doc_apps = st_apps strict,
     doc_discovery_inputs = st_discovery_inputs strict,
     doc_contexts = bt_map ExecutionContext_from (st_contexts strict),
     doc_processes = st_processes strict\<rparr>"

section \<open>Reading a document\<close>

text \<open>\<open>serde_json::from_value\<close> at the two types, with the text of its error.\<close>

record Serde =
  from_value_document :: "JsonValue \<Rightarrow> (string, TaskDocument) outcome"
  from_value_strict :: "JsonValue \<Rightarrow> (string, TaskDocumentV2Strict) outcome"
  from_value_processes :: "JsonValue \<Rightarrow> (string, processes) outcome"

definition document_version :: "JsonValue \<Rightarrow> u32" where
  "document_version json =
     (case Option.bind (json_get ''schema_version'' json) json_as_u64 of
        None \<Rightarrow> SCHEMA_VERSION
      | Some version \<Rightarrow> if unat version < 2 ^ 32 then of_nat (unat version) else 0)"

definition parse_task_document :: "Serde \<Rightarrow> debug_list \<Rightarrow> JsonValue \<Rightarrow> (SchemaError, TaskDocument) outcome" where
  "parse_task_document serde dbg json =
     (let version = document_version json in
      bind (validate_schema_version version) (\<lambda>_.
      bind (if version = SCHEMA_VERSION then map_err InvalidDocument (from_value_document serde json)
            else if version = SCHEMA_VERSION_V2 then
              bind (map_err InvalidDocument (from_value_strict serde json)) (\<lambda>strict. Ok (TaskDocument_from strict))
            else Err (UnsupportedVersion version SCHEMA_VERSION)) (\<lambda>doc.
      bind (validate dbg doc) (\<lambda>_. Ok doc))))"

definition parse_processes :: "Serde \<Rightarrow> JsonValue \<Rightarrow> processes" where
  "parse_processes serde json =
     (case json_get ''processes'' json of
        None \<Rightarrow> []
      | Some ps \<Rightarrow> (case from_value_processes serde ps of Ok m \<Rightarrow> m | _ \<Rightarrow> []))"

section \<open>Conversion keeps the document\<close>

lemma inj_bt_map:
  assumes "bt_wf m" "bt_wf n" "bt_map f m = bt_map f n"
    and "\<And>k v k' v'. (k, v) \<in> set m \<Longrightarrow> (k', v') \<in> set n \<Longrightarrow> f v = f v' \<Longrightarrow> v = v'"
  shows "m = n"
proof -
  have "map (\<lambda>(k, v). (k, f v)) m = map (\<lambda>(k, v). (k, f v)) n" using assms(1,2,3) by (simp add: bt_map_eq)
  then show ?thesis using assms(4)
  proof (induction m arbitrary: n)
    case (Cons x m)
    then obtain y n' where n: "n = y # n'" by (cases n) auto
    obtain k v l w where x: "x = (k, v)" and y: "y = (l, w)" by fastforce
    have "v = w" using Cons.prems(1) Cons.prems(2) [of k v l w] by (simp add: n x y)
    moreover have "m = n'" using Cons.prems by (intro Cons.IH) (auto simp: n)
    ultimately show ?case using Cons.prems by (simp add: n x y)
  qed simp
qed

text \<open>The maps of a strict document are maps.\<close>

definition strict_task_wf :: "TaskDefinitionV2Strict \<Rightarrow> bool" where
  "strict_task_wf t \<longleftrightarrow> bt_wf (sd_parameters t) \<and> (\<forall>i. sd_inputs t = Some i \<longrightarrow> bt_wf (si_bindings i)) \<and>
     (\<forall>m. sd_matrix t = Some m \<longrightarrow> (\<forall>attrs \<in> set (sm_include m). bt_wf attrs))"

definition strict_wf :: "TaskDocumentV2Strict \<Rightarrow> bool" where
  "strict_wf d \<longleftrightarrow> bt_wf (st_tasks d) \<and> bt_wf (st_contexts d) \<and>
     (\<forall>(name, t) \<in> set (st_tasks d). strict_task_wf t) \<and>
     (\<forall>(name, c) \<in> set (st_contexts d). bt_wf (sx_secrets c))"

lemma TaskMatrix_from_inj: "TaskMatrix_from a = TaskMatrix_from b \<longleftrightarrow> a = b"
  by (auto simp: TaskMatrix_from_def)

lemma TaskParameter_from_inj: "TaskParameter_from a = TaskParameter_from b \<longleftrightarrow> a = b"
  by (auto simp: TaskParameter_from_def)

lemma EnvInput_from_inj: "EnvInput_from a = EnvInput_from b \<longleftrightarrow> a = b"
  by (cases a; cases b) (auto simp: EnvInputBinding_from_def)

lemma TaskInputBinding_from_inj: "TaskInputBinding_from a = TaskInputBinding_from b \<longleftrightarrow> a = b"
  by (auto simp: TaskInputBinding_from_def)

lemma TaskOutput_from_inj: "TaskOutput_from a = TaskOutput_from b \<longleftrightarrow> a = b"
  by (auto simp: TaskOutput_from_def)

lemma TaskCache_from_inj: "TaskCache_from a = TaskCache_from b \<longleftrightarrow> a = b"
  by (auto simp: TaskCache_from_def)

lemma TaskResources_from_inj: "TaskResources_from a = TaskResources_from b \<longleftrightarrow> a = b"
  by (auto simp: TaskResources_from_def)

lemma ContextEnvironment_from_inj: "ContextEnvironment_from a = ContextEnvironment_from b \<longleftrightarrow> a = b"
  by (auto simp: ContextEnvironment_from_def)

lemma ContextSecretRef_from_inj: "ContextSecretRef_from a = ContextSecretRef_from b \<longleftrightarrow> a = b"
  by (auto simp: ContextSecretRef_from_def)

lemmas from_inj = TaskMatrix_from_inj TaskParameter_from_inj EnvInput_from_inj TaskInputBinding_from_inj TaskOutput_from_inj
  TaskCache_from_inj TaskResources_from_inj ContextEnvironment_from_inj ContextSecretRef_from_inj

lemma map_option_inj: "(\<And>x y. f x = f y \<longleftrightarrow> x = y) \<Longrightarrow> map_option f a = map_option f b \<longleftrightarrow> a = b"
  by (cases a; cases b) auto

lemma list_map_inj: "(\<And>x y. f x = f y \<longleftrightarrow> x = y) \<Longrightarrow> map f a = map f b \<longleftrightarrow> a = b"
  by (rule inj_map_eq_map) (auto simp: inj_def)

lemma TaskInputs_from_inj:
  assumes "bt_wf (si_bindings a)" "bt_wf (si_bindings b)" "TaskInputs_from a = TaskInputs_from b"
  shows "a = b"
proof -
  have "bt_map TaskInputBinding_from (si_bindings a) = bt_map TaskInputBinding_from (si_bindings b)"
    and rest: "si_paths a = si_paths b" "map EnvInput_from (si_env a) = map EnvInput_from (si_env b)"
      "si_include_git_state a = si_include_git_state b"
    using assms(3) by (simp_all add: TaskInputs_from_def)
  with assms(1,2) have "si_bindings a = si_bindings b" by (auto intro: inj_bt_map simp: from_inj)
  with rest show ?thesis by (simp add: list_map_inj [OF EnvInput_from_inj])
qed

lemma ExecutionContext_from_inj:
  assumes "bt_wf (sx_secrets a)" "bt_wf (sx_secrets b)" "ExecutionContext_from a = ExecutionContext_from b"
  shows "a = b"
proof -
  have "bt_map ContextSecretRef_from (sx_secrets a) = bt_map ContextSecretRef_from (sx_secrets b)"
    and rest: "sx_shell a = sx_shell b" "sx_confirm a = sx_confirm b"
      "map_option ContextEnvironment_from (sx_environment a) = map_option ContextEnvironment_from (sx_environment b)"
    using assms(3) by (simp_all add: ExecutionContext_from_def)
  with assms(1,2) have "sx_secrets a = sx_secrets b" by (auto intro: inj_bt_map simp: from_inj)
  with rest show ?thesis by (simp add: map_option_inj [OF ContextEnvironment_from_inj])
qed

lemma TaskDefinition_from_inj:
  assumes wf: "strict_task_wf a" "strict_task_wf b" and eq: "TaskDefinition_from a = TaskDefinition_from b"
  shows "a = b"
proof -
  have "bt_map TaskParameter_from (sd_parameters a) = bt_map TaskParameter_from (sd_parameters b)"
    using eq by (simp add: TaskDefinition_from_def)
  with wf have ps: "sd_parameters a = sd_parameters b" by (auto intro: inj_bt_map simp: from_inj strict_task_wf_def)
  have "map_option TaskInputs_from (sd_inputs a) = map_option TaskInputs_from (sd_inputs b)"
    using eq by (simp add: TaskDefinition_from_def)
  with wf have ins: "sd_inputs a = sd_inputs b"
    by (cases "sd_inputs a"; cases "sd_inputs b") (auto intro: TaskInputs_from_inj simp: strict_task_wf_def)
  show ?thesis
    using eq ps ins
    by (simp add: TaskDefinition_from_def list_map_inj [OF TaskOutput_from_inj] map_option_inj [OF TaskCache_from_inj]
        map_option_inj [OF TaskResources_from_inj] map_option_inj [OF TaskMatrix_from_inj])
qed

lemma TaskDocument_from_inj:
  assumes wf: "strict_wf a" "strict_wf b" and eq: "TaskDocument_from a = TaskDocument_from b"
  shows "a = b"
proof -
  have "st_tasks a = st_tasks b"
    using wf eq by (intro inj_bt_map [where f = TaskDefinition_from])
      (auto simp: strict_wf_def TaskDocument_from_def intro: TaskDefinition_from_inj)
  moreover have "st_contexts a = st_contexts b"
    using wf eq by (intro inj_bt_map [where f = ExecutionContext_from])
      (auto simp: strict_wf_def TaskDocument_from_def intro: ExecutionContext_from_inj)
  ultimately show ?thesis using eq by (simp add: TaskDocument_from_def)
qed

lemma TaskDocument_from_wf:
  assumes "strict_wf d"
  shows "doc_wf (TaskDocument_from d)"
proof -
  have tasks: "doc_tasks (TaskDocument_from d) = map (\<lambda>(k, v). (k, TaskDefinition_from v)) (st_tasks d)"
    using assms by (simp add: TaskDocument_from_def bt_map_eq strict_wf_def)
  have "bt_wf (td_parameters (TaskDefinition_from t)) \<and>
      (\<forall>m. td_matrix (TaskDefinition_from t) = Some m \<longrightarrow> (\<forall>attrs \<in> set (tm_include m). bt_wf attrs))" if "strict_task_wf t" for t
    using that bt_wf_map_values [of "sd_parameters t" "\<lambda>_. TaskParameter_from"]
    by (auto simp: strict_task_wf_def TaskDefinition_from_def TaskMatrix_from_def bt_map_eq)
  with assms show ?thesis
    using bt_wf_map_values [of "st_tasks d" "\<lambda>_. TaskDefinition_from"]
    by (fastforce simp: doc_wf_def tasks strict_wf_def)
qed

section \<open>Properties\<close>

text \<open>
  What is documented of deserialization: it returns, the maps it builds are maps, and from
  an object the field \<open>schema_version\<close> of the result is the number of that name in it.
  A derived struct also deserializes from an array, its fields by position; of that
  nothing more is said.
\<close>

definition version_field :: "JsonValue \<Rightarrow> u32 \<Rightarrow> bool" where
  "version_field json v \<longleftrightarrow>
     (\<exists>n. Option.bind (json_get ''schema_version'' json) json_as_u64 = Some n \<and> unat n = unat v)"

definition is_object :: "JsonValue \<Rightarrow> bool" where
  "is_object json = (case json of JObject _ \<Rightarrow> True | _ \<Rightarrow> False)"

definition serde_laws :: "Serde \<Rightarrow> bool" where
  "serde_laws serde \<longleftrightarrow>
     (\<forall>json doc. from_value_document serde json = Ok doc \<longrightarrow>
        doc_wf doc \<and> (is_object json \<longrightarrow> version_field json (doc_schema_version doc))) \<and>
     (\<forall>json d. from_value_strict serde json = Ok d \<longrightarrow>
        strict_wf d \<and> (is_object json \<longrightarrow> version_field json (st_schema_version d))) \<and>
     (\<forall>json. from_value_document serde json \<noteq> Panic \<and> from_value_strict serde json \<noteq> Panic)"

lemma document_version_eq: "version_field json v \<Longrightarrow> document_version json = v"
  using unsigned_less [of v, where ?'a = nat] by (auto simp: version_field_def document_version_def)

lemma schema_versions: "SCHEMA_VERSION \<noteq> SCHEMA_VERSION_V2"
  by (simp add: SCHEMA_VERSION_def SCHEMA_VERSION_V2_def)

lemma validate_outcome:
  assumes "doc_wf doc"
  shows "case bind (validate dbg doc) (\<lambda>_. Ok doc) of
    Ok d \<Rightarrow> d = doc \<and> doc_valid doc | Err e \<Rightarrow> \<not> doc_valid doc \<and> validate dbg doc = Err e | Panic \<Rightarrow> False"
  using validate_Ok [OF assms, of dbg] validate_no_panic [OF assms, of dbg] by (cases "validate dbg doc") auto

lemma version_2_object: "document_version json = SCHEMA_VERSION_V2 \<Longrightarrow> is_object json"
  by (cases json) (simp_all add: is_object_def document_version_def SCHEMA_VERSION_def SCHEMA_VERSION_V2_def)

lemma from_value_document_Ok:
  assumes "serde_laws serde" "from_value_document serde json = Ok doc"
  shows "doc_wf doc" "is_object json \<Longrightarrow> doc_schema_version doc = document_version json"
proof -
  have "doc_wf doc \<and> (is_object json \<longrightarrow> version_field json (doc_schema_version doc))" using assms by (simp add: serde_laws_def)
  then show "doc_wf doc" "is_object json \<Longrightarrow> doc_schema_version doc = document_version json" using document_version_eq by auto
qed

lemma from_value_strict_Ok:
  assumes "serde_laws serde" "from_value_strict serde json = Ok d" "is_object json"
  shows "strict_wf d" "doc_wf (TaskDocument_from d)" "doc_schema_version (TaskDocument_from d) = document_version json"
proof -
  have "strict_wf d \<and> version_field json (st_schema_version d)" using assms by (simp add: serde_laws_def)
  then show "strict_wf d" "doc_wf (TaskDocument_from d)" "doc_schema_version (TaskDocument_from d) = document_version json"
    using document_version_eq TaskDocument_from_wf by (auto simp: TaskDocument_from_def)
qed

lemmas parse_defs = parse_task_document_def validate_schema_version_def Let_def

text \<open>
  C9: Reading a task document. A document that is returned is valid and is exactly what was
  deserialized: when the value states version 2 it is converted from the strict document, which the
  conversion determines uniquely, so nothing is lost, and otherwise it is the document itself; read
  from an object it has the version the object states. Every failure is an unsupported version, a deserialization error or an invalid document;
  nothing panics.
\<close>

theorem parse_task_document_correct:
  assumes laws: "serde_laws serde"
  shows "case parse_task_document serde dbg json of
      Ok doc \<Rightarrow> doc_valid doc \<and> (is_object json \<longrightarrow> doc_schema_version doc = document_version json) \<and>
        (if document_version json = SCHEMA_VERSION_V2
         then \<exists>strict. from_value_strict serde json = Ok strict \<and>
           (\<forall>d. strict_wf d \<and> TaskDocument_from d = doc \<longleftrightarrow> d = strict)
         else from_value_document serde json = Ok doc)
    | Err e \<Rightarrow>
        (document_version json \<notin> {SCHEMA_VERSION, SCHEMA_VERSION_V2} \<and> e = UnsupportedVersion (document_version json) SCHEMA_VERSION) \<or>
        (document_version json = SCHEMA_VERSION \<and> (\<exists>m. from_value_document serde json = Err m \<and> e = InvalidDocument m)) \<or>
        (document_version json = SCHEMA_VERSION_V2 \<and> (\<exists>m. from_value_strict serde json = Err m \<and> e = InvalidDocument m)) \<or>
        (\<exists>doc. doc_wf doc \<and> \<not> doc_valid doc \<and> validate dbg doc = Err e)
    | Panic \<Rightarrow> False"
proof -
  have panic: "from_value_document serde json \<noteq> Panic" "from_value_strict serde json \<noteq> Panic"
    using laws by (auto simp: serde_laws_def)
  consider (none) "document_version json \<notin> {SCHEMA_VERSION, SCHEMA_VERSION_V2}"
    | (v1) "document_version json = SCHEMA_VERSION" | (v2) "document_version json = SCHEMA_VERSION_V2" by blast
  then show ?thesis
  proof cases
    case none
    then show ?thesis by (simp add: parse_defs)
  next
    case v1
    show ?thesis
    proof (cases "from_value_document serde json")
      case (Ok doc)
      note doc = from_value_document_Ok [OF laws Ok]
      from Ok v1 have "parse_task_document serde dbg json = bind (validate dbg doc) (\<lambda>_. Ok doc)" by (simp add: parse_defs)
      with validate_outcome [OF doc(1), of dbg] doc Ok v1 schema_versions show ?thesis
        by (cases "bind (validate dbg doc) (\<lambda>_. Ok doc)") auto
    qed (use panic v1 in \<open>simp_all add: parse_defs\<close>)
  next
    case v2
    show ?thesis
    proof (cases "from_value_strict serde json")
      case (Ok strict)
      note doc = from_value_strict_Ok [OF laws Ok version_2_object [OF v2]]
      from Ok v2 schema_versions have "parse_task_document serde dbg json =
          bind (validate dbg (TaskDocument_from strict)) (\<lambda>_. Ok (TaskDocument_from strict))" by (simp add: parse_defs)
      moreover have "\<forall>d. strict_wf d \<and> TaskDocument_from d = TaskDocument_from strict \<longleftrightarrow> d = strict"
        using TaskDocument_from_inj doc(1) by blast
      ultimately show ?thesis using validate_outcome [OF doc(2), of dbg] doc Ok v2
        by (cases "bind (validate dbg (TaskDocument_from strict)) (\<lambda>_. Ok (TaskDocument_from strict))") auto
    qed (use panic v2 schema_versions in \<open>simp_all add: parse_defs\<close>)
  qed
qed

definition example_strict :: TaskDocumentV2Strict where
  "example_strict = \<lparr>st_schema_version = SCHEMA_VERSION_V2, st_tasks = [], st_apps = [], st_discovery_inputs = [], st_contexts = [],
     st_processes = []\<rparr>"

definition example_json :: JsonValue where
  "example_json = JObject [(''schema_version'', JNumber ''2'')]"

definition example_serde :: Serde where
  "example_serde = \<lparr>from_value_document = \<lambda>_. Err ''missing field'',
     from_value_strict = \<lambda>json. if json = example_json then Ok example_strict else Err ''missing field'',
     from_value_processes = \<lambda>_. Ok []\<rparr>"

lemma example_json_version:
  "version_field example_json SCHEMA_VERSION_V2"
  by (simp add: version_field_def example_json_def parse_u64_def digits_value_def char_digit_def is_ascii_digit_def SCHEMA_VERSION_V2_def)

lemma example_serde_laws: "serde_laws example_serde"
  using example_json_version
  by (simp add: serde_laws_def example_serde_def strict_wf_def example_strict_def)

lemma example_valid: "doc_valid (TaskDocument_from example_strict)" "doc_wf (TaskDocument_from example_strict)"
proof -
  have "\<not> on_cycle [] x" for x by (auto simp: process_edge_def dest: tranclpD)
  then show "doc_valid (TaskDocument_from example_strict)"
    by (auto simp: doc_valid_def TaskDocument_from_def example_strict_def bt_map_def)
  show "doc_wf (TaskDocument_from example_strict)"
    by (simp add: doc_wf_def TaskDocument_from_def example_strict_def bt_map_def)
qed

lemma example_parses: "parse_task_document example_serde dbg example_json = Ok (TaskDocument_from example_strict)"
  using validate_Ok [OF example_valid(2), of dbg] example_valid(1) document_version_eq [OF example_json_version] schema_versions
  by (simp add: parse_defs example_serde_def)

theorem parse_task_document_witness:
  "\<exists>doc. parse_task_document example_serde (\<lambda>_. []) example_json = Ok doc \<and> doc_valid doc \<and>
     doc_schema_version doc = document_version example_json"
  using parse_task_document_correct [OF example_serde_laws, where dbg = "\<lambda>_. []" and json = example_json] example_parses
  by (simp add: is_object_def example_json_def)

text \<open>
  An array states no version, so it is read as version 1; its first element is the
  version of the document, which may be 2, and the strict form is never asked.
\<close>

definition array_serde :: Serde where
  "array_serde = \<lparr>from_value_document = \<lambda>json. if json = JArray [JNumber ''2''] then Ok (TaskDocument_from example_strict) else Err ''missing field'',
     from_value_strict = \<lambda>_. Err ''unknown field'', from_value_processes = \<lambda>_. Ok []\<rparr>"

lemma array_skips_strict:
  "serde_laws array_serde \<and> parse_task_document array_serde dbg (JArray [JNumber ''2'']) = Ok (TaskDocument_from example_strict) \<and>
   doc_schema_version (TaskDocument_from example_strict) = SCHEMA_VERSION_V2"
proof (intro conjI)
  have version: "document_version (JArray [JNumber ''2'']) = SCHEMA_VERSION" by (simp add: document_version_def)
  show "serde_laws array_serde"
    using example_valid(2) by (simp add: serde_laws_def array_serde_def is_object_def)
  show "parse_task_document array_serde dbg (JArray [JNumber ''2'']) = Ok (TaskDocument_from example_strict)"
    using version schema_versions validate_Ok [OF example_valid(2), of dbg] example_valid(1) by (simp add: parse_defs array_serde_def)
  show "doc_schema_version (TaskDocument_from example_strict) = SCHEMA_VERSION_V2"
    by (simp add: TaskDocument_from_def example_strict_def)
qed

end
