(* ===== verification/Workflow_Waves.thy ===== *)
theory Workflow_Waves
  imports Plan_Exec
begin

text \<open>
  The waves of a workflow plan (\<open>dependency_waves\<close> of \<open>crates/nxr-task/src/workflows.rs\<close>): nodes
  that share no unfinished dependency. The lemmas show that the loop ends, that no counter
  underflows, and that every wave holds exactly the nodes whose dependencies lie in earlier waves.
\<close>

section \<open>The loop\<close>

definition bt_push :: "'k::linorder \<Rightarrow> 'a \<Rightarrow> ('k, 'a list) btmap \<Rightarrow> ('k, 'a list) btmap" where
  "bt_push k x m = bt_insert k ((case map_of m k of Some xs \<Rightarrow> xs | None \<Rightarrow> []) @ [x]) m"

definition wave_node ::
  "PlanNode \<Rightarrow> (string, nat) btmap \<times> (string, string list) btmap \<Rightarrow> (string, nat) btmap \<times> (string, string list) btmap" where
  "wave_node node = (\<lambda>(indegree, dependents).
     (bt_insert (pn_id node) (length (pn_depends_on node)) indegree,
      fold (\<lambda>dependency. bt_push dependency (pn_id node)) (pn_depends_on node) dependents))"

definition release_child :: "string \<Rightarrow> (string, nat) btmap \<Rightarrow> (string, nat) btmap" where
  "release_child child = bt_modify child (\<lambda>degree. degree - 1)"

fun finish_wave ::
  "(string, string list) btmap \<Rightarrow> string list \<Rightarrow> (string, nat) btmap \<Rightarrow> nat \<Rightarrow> ((string, nat) btmap \<times> nat) option" where
  "finish_wave dependents [] indegree remaining = Some (indegree, remaining)"
| "finish_wave dependents (nid # wave) indegree remaining =
     (case remaining of
        0 \<Rightarrow> None
      | Suc rest \<Rightarrow>
          finish_wave dependents wave
            (fold release_child (case map_of dependents nid of Some children \<Rightarrow> children | None \<Rightarrow> []) (bt_remove nid indegree))
            rest)"

definition next_wave :: "(string, nat) btmap \<Rightarrow> string list" where
  "next_wave indegree = sort (map fst (filter (\<lambda>(_, degree). degree = 0) indegree))"

lemma finish_wave_remaining:
  "finish_wave dependents wave indegree remaining = Some (indegree', remaining') \<Longrightarrow> remaining = length wave + remaining'"
  by (induction wave arbitrary: indegree remaining) (auto split: nat.splits)

function waves_loop ::
  "(string, string list) btmap \<Rightarrow> (string, nat) btmap \<Rightarrow> nat \<Rightarrow> string list list \<Rightarrow> string list list option" where
  "waves_loop dependents indegree remaining waves =
     (if remaining = 0 then Some waves
      else let wave = next_wave indegree in
        if wave = [] then Some waves
        else case finish_wave dependents wave indegree remaining of
               None \<Rightarrow> None
             | Some (indegree', remaining') \<Rightarrow> waves_loop dependents indegree' remaining' (waves @ [wave]))"
  by pat_completeness auto
termination
  by (relation "measure (\<lambda>(_, _, remaining, _). remaining)") (auto dest: finish_wave_remaining)

declare waves_loop.simps [simp del]

text \<open>A counter below zero would be a panic, the value \<open>None\<close>.\<close>

definition dependency_waves :: "PlanNode list \<Rightarrow> string list list option" where
  "dependency_waves nodes =
     (case fold wave_node nodes ([], []) of
        (indegree, dependents) \<Rightarrow> waves_loop dependents indegree (length nodes) [])"

section \<open>What the maps hold\<close>

text \<open>A wave holds the nodes that are not done and whose dependencies are.\<close>

definition layer :: "'a set \<Rightarrow> ('a \<Rightarrow> 'a set) \<Rightarrow> 'a set \<Rightarrow> 'a set" where
  "layer ids deps done_ids = {x \<in> ids - done_ids. deps x \<subseteq> done_ids}"

definition layers :: "'a set \<Rightarrow> ('a \<Rightarrow> 'a set) \<Rightarrow> 'a list list \<Rightarrow> bool" where
  "layers ids deps waves \<longleftrightarrow>
     (\<forall>i < length waves. distinct (waves ! i) \<and> waves ! i \<noteq> [] \<and>
        set (waves ! i) = layer ids deps (set (concat (take i waves))))"

definition degree_inv ::
  "string set \<Rightarrow> (string \<Rightarrow> string set) \<Rightarrow> string set \<Rightarrow> (string, nat) btmap \<Rightarrow> nat \<Rightarrow> bool" where
  "degree_inv ids deps D indegree remaining \<longleftrightarrow> bt_wf indegree \<and> D \<subseteq> ids \<and> remaining = card (ids - D) \<and>
     (\<forall>x. map_of indegree x = (if x \<in> ids - D then Some (card (deps x - D)) else None))"

definition dependents_inv :: "string set \<Rightarrow> (string \<Rightarrow> string set) \<Rightarrow> (string, string list) btmap \<Rightarrow> bool" where
  "dependents_inv ids deps dependents \<longleftrightarrow>
     (\<forall>d. let children = (case map_of dependents d of Some cs \<Rightarrow> cs | None \<Rightarrow> []) in
        distinct children \<and> set children = {x \<in> ids. d \<in> deps x})"

lemma release_children:
  "distinct children \<Longrightarrow> map_of (fold release_child children m) x =
     (if x \<in> set children then map_option (\<lambda>d. d - 1) (map_of m x) else map_of m x)"
  by (induction children arbitrary: m) (auto simp: release_child_def)

lemma bt_wf_release [simp]: "bt_wf m \<Longrightarrow> bt_wf (fold release_child children m)"
  by (induction children arbitrary: m) (auto simp: release_child_def)

lemma finish_node_inv:
  assumes fin: "finite ids" "\<And>x. finite (deps x)" and dep: "dependents_inv ids deps dependents"
    and inv: "degree_inv ids deps D indegree remaining" and nid: "nid \<in> ids - D"
  obtains rest where "remaining = Suc rest"
    and "degree_inv ids deps (insert nid D)
      (fold release_child (case map_of dependents nid of Some children \<Rightarrow> children | None \<Rightarrow> []) (bt_remove nid indegree)) rest"
proof -
  let ?cs = "case map_of dependents nid of Some children \<Rightarrow> children | None \<Rightarrow> []"
  have cs: "distinct ?cs" "set ?cs = {x \<in> ids. nid \<in> deps x}"
    using dep by (auto simp: dependents_inv_def Let_def)
  have rem: "remaining = Suc (card (ids - insert nid D))"
  proof -
    have "ids - insert nid D = ids - D - {nid}" by auto
    moreover have "Suc (card (ids - D - {nid})) = card (ids - D)" using fin(1) nid by (intro card_Suc_Diff1) auto
    ultimately show ?thesis using inv by (simp add: degree_inv_def)
  qed
  have card: "card (deps x - insert nid D) = (if nid \<in> deps x then card (deps x - D) - 1 else card (deps x - D))" for x
  proof (cases "nid \<in> deps x")
    case True
    have "deps x - insert nid D = deps x - D - {nid}" by auto
    with True nid show ?thesis by (simp add: card_Diff_singleton)
  next
    case False
    then have "deps x - insert nid D = deps x - D" by auto
    with False show ?thesis by simp
  qed
  have "degree_inv ids deps (insert nid D) (fold release_child ?cs (bt_remove nid indegree)) (card (ids - insert nid D))"
    using inv nid unfolding degree_inv_def release_children [OF cs(1)] cs(2) by (auto simp: card)
  with rem that show thesis by blast
qed

lemma finish_wave_inv:
  assumes fin: "finite ids" "\<And>x. finite (deps x)" and dep: "dependents_inv ids deps dependents"
  shows "degree_inv ids deps D indegree remaining \<Longrightarrow> distinct wave \<Longrightarrow> set wave \<subseteq> ids - D \<Longrightarrow>
    \<exists>indegree' remaining'. finish_wave dependents wave indegree remaining = Some (indegree', remaining') \<and>
      degree_inv ids deps (D \<union> set wave) indegree' remaining'"
proof (induction wave arbitrary: D indegree remaining)
  case (Cons nid wave)
  from Cons.prems have "nid \<in> ids - D" by simp
  then obtain rest where r: "remaining = Suc rest"
    and inv: "degree_inv ids deps (insert nid D)
      (fold release_child (case map_of dependents nid of Some children \<Rightarrow> children | None \<Rightarrow> []) (bt_remove nid indegree)) rest"
    by (rule finish_node_inv [OF fin dep Cons.prems(1)])
  from Cons.IH [OF inv] Cons.prems show ?case by (auto simp: r)
qed simp

lemma next_wave_layer:
  assumes "degree_inv ids deps D indegree remaining" "\<And>x. finite (deps x)"
  shows "set (next_wave indegree) = layer ids deps D" "distinct (next_wave indegree)"
proof -
  have wf: "bt_wf indegree" using assms(1) by (simp add: degree_inv_def)
  have "x \<in> set (next_wave indegree) \<longleftrightarrow> (x, 0) \<in> set indegree" for x by (force simp: next_wave_def)
  then have "set (next_wave indegree) = {x. map_of indegree x = Some 0}" by (auto simp: bt_wf_lookup [OF wf])
  also have "\<dots> = layer ids deps D"
    using assms by (auto simp: degree_inv_def layer_def split: if_splits)
  finally show "set (next_wave indegree) = layer ids deps D" .
  show "distinct (next_wave indegree)"
    using bt_wf_distinct [OF wf] by (simp add: next_wave_def distinct_map_filter)
qed

lemma layers_snoc:
  assumes "layers ids deps waves" "distinct wave" "wave \<noteq> []" "set wave = layer ids deps (set (concat waves))"
  shows "layers ids deps (waves @ [wave])"
  using assms by (auto simp: layers_def nth_append less_Suc_eq)

text \<open>
  Every set of done nodes short of all leaves a node whose dependencies are done.
\<close>

lemma waves_loop_layers:
  assumes fin: "finite ids" "\<And>x. finite (deps x)"
    and ready: "\<And>D. D \<subset> ids \<Longrightarrow> layer ids deps D \<noteq> {}"
  shows "dependents_inv ids deps dependents \<Longrightarrow> degree_inv ids deps (set (concat waves)) indegree remaining \<Longrightarrow>
    layers ids deps waves \<Longrightarrow>
    \<exists>waves'. waves_loop dependents indegree remaining waves = Some waves' \<and> layers ids deps waves' \<and> set (concat waves') = ids"
proof (induction dependents indegree remaining waves rule: waves_loop.induct)
  case (1 dependents indegree remaining waves)
  let ?D = "set (concat waves)"
  show ?case
  proof (cases "remaining = 0")
    case True
    with "1.prems"(2) fin(1) have "?D = ids" by (auto simp: degree_inv_def)
    with True "1.prems"(3) show ?thesis by (subst waves_loop.simps) auto
  next
    case False
    note wave = next_wave_layer [OF "1.prems"(2) fin(2)]
    have "?D \<subset> ids" using False "1.prems"(2) by (auto simp: degree_inv_def)
    from ready [OF this] wave have ne: "next_wave indegree \<noteq> []" by auto
    have "set (next_wave indegree) \<subseteq> ids - ?D" unfolding wave(1) by (auto simp: layer_def)
    then obtain indegree' remaining' where step: "finish_wave dependents (next_wave indegree) indegree remaining = Some (indegree', remaining')"
      and inv: "degree_inv ids deps (?D \<union> set (next_wave indegree)) indegree' remaining'"
      using finish_wave_inv [OF fin "1.prems"(1,2) wave(2)] by blast
    have "layers ids deps (waves @ [next_wave indegree])" by (rule layers_snoc [OF "1.prems"(3) wave(2) ne wave(1)])
    with "1.IH" [OF False refl ne step refl "1.prems"(1)] inv
    have "\<exists>waves'. waves_loop dependents indegree' remaining' (waves @ [next_wave indegree]) = Some waves' \<and>
        layers ids deps waves' \<and> set (concat waves') = ids" by (simp add: Un_commute)
    with False ne step show ?thesis by (subst waves_loop.simps) (simp add: Let_def)
  qed
qed

section \<open>The waves of a plan\<close>

definition children_at :: "(string, string list) btmap \<Rightarrow> string \<Rightarrow> string list" where
  "children_at m d = (case map_of m d of Some cs \<Rightarrow> cs | None \<Rightarrow> [])"

lemma children_at_push: "children_at (bt_push k x m) d = children_at m d @ (if d = k then [x] else [])"
  by (simp add: children_at_def bt_push_def)

lemma children_at_fold:
  "distinct ds \<Longrightarrow> children_at (fold (\<lambda>k. bt_push k x) ds m) d = children_at m d @ (if d \<in> set ds then [x] else [])"
  by (induction ds arbitrary: m) (auto simp: children_at_push)

lemma fold_wave_node:
  "fold wave_node nodes (a, b) =
     (fold (\<lambda>n. bt_insert (pn_id n) (length (pn_depends_on n))) nodes a,
      fold (\<lambda>n. fold (\<lambda>d. bt_push d (pn_id n)) (pn_depends_on n)) nodes b)"
  by (induction nodes arbitrary: a b) (auto simp: wave_node_def)

lemma children_at_wave_nodes:
  assumes "\<forall>n \<in> set nodes. distinct (pn_depends_on n)"
  shows "children_at (fold (\<lambda>n. fold (\<lambda>d. bt_push d (pn_id n)) (pn_depends_on n)) nodes b) d =
     children_at b d @ map pn_id (filter (\<lambda>n. d \<in> set (pn_depends_on n)) nodes)"
  using assms by (induction nodes arbitrary: b) (auto simp: children_at_fold)

definition node_deps :: "PlanNode list \<Rightarrow> string \<Rightarrow> string list" where
  "node_deps nodes x = (case map_of (map (\<lambda>n. (pn_id n, pn_depends_on n)) nodes) x of None \<Rightarrow> [] | Some ds \<Rightarrow> ds)"

lemma node_deps_node:
  assumes "distinct (map pn_id nodes)" "n \<in> set nodes"
  shows "node_deps nodes (pn_id n) = pn_depends_on n"
proof -
  have "map_of (map (\<lambda>n. (pn_id n, pn_depends_on n)) nodes) (pn_id n) = Some (pn_depends_on n)"
    by (rule map_of_is_SomeI) (use assms in \<open>auto simp: comp_def\<close>)
  then show ?thesis by (simp add: node_deps_def)
qed

lemma wave_maps:
  assumes ids: "distinct (map pn_id nodes)" and ds: "\<forall>n \<in> set nodes. distinct (pn_depends_on n)"
  shows "case fold wave_node nodes ([], []) of (indegree, dependents) \<Rightarrow>
    degree_inv (pn_id ` set nodes) (\<lambda>x. set (node_deps nodes x)) {} indegree (length nodes) \<and>
    dependents_inv (pn_id ` set nodes) (\<lambda>x. set (node_deps nodes x)) dependents"
proof -
  let ?ids = "pn_id ` set nodes" and ?deps = "\<lambda>x. set (node_deps nodes x)"
  let ?indegree = "fold (\<lambda>n. bt_insert (pn_id n) (length (pn_depends_on n))) nodes []"
  let ?dependents = "fold (\<lambda>n. fold (\<lambda>d. bt_push d (pn_id n)) (pn_depends_on n)) nodes []"
  have same: "n = m" if "n \<in> set nodes" "m \<in> set nodes" "pn_id n = pn_id m" for n m
    using ids that by (auto simp: distinct_map inj_on_def)
  have look: "map_of ?indegree x = Some k \<longleftrightarrow> (\<exists>n \<in> set nodes. pn_id n = x \<and> length (pn_depends_on n) = k)" for x k
    using same by (intro btm.look_fold_rel) metis
  have "map_of ?indegree x = (if x \<in> ?ids - {} then Some (card (?deps x - {})) else None)" for x
  proof (cases "x \<in> ?ids")
    case True
    then obtain n where n: "n \<in> set nodes" "x = pn_id n" by auto
    with ds have "card (?deps x) = length (pn_depends_on n)" by (simp add: node_deps_node [OF ids] distinct_card)
    with n True show ?thesis by (auto simp: look)
  next
    case False
    then have "\<nexists>k. map_of ?indegree x = Some k" by (auto simp: look)
    with False show ?thesis by auto
  qed
  moreover have "length nodes = card ?ids" using distinct_card [OF ids] by simp
  ultimately have deg: "degree_inv ?ids ?deps {} ?indegree (length nodes)"
    by (simp add: degree_inv_def btm.invar_fold)
  have "children_at ?dependents d = map pn_id (filter (\<lambda>n. d \<in> set (pn_depends_on n)) nodes)" for d
    using children_at_wave_nodes [OF ds, of "[]" d] by (simp add: children_at_def)
  moreover have "distinct (map pn_id (filter P nodes))" for P using ids by (simp add: distinct_map_filter)
  moreover have "pn_id ` {n \<in> set nodes. d \<in> set (pn_depends_on n)} = {x \<in> ?ids. d \<in> ?deps x}" for d
    by (auto simp: node_deps_node [OF ids])
  ultimately have "dependents_inv ?ids ?deps ?dependents"
    unfolding dependents_inv_def Let_def children_at_def [symmetric] by simp
  with deg show ?thesis by (simp add: fold_wave_node)
qed

lemma layer_of_order:
  assumes order: "set order = ids" and deps: "\<forall>i < length order. deps (order ! i) \<subseteq> set (take i order)"
    and D: "D \<subset> ids"
  shows "layer ids deps D \<noteq> {}"
proof -
  let ?P = "\<lambda>i. i < length order \<and> order ! i \<notin> D"
  obtain x where "x \<in> set order" "x \<notin> D" using D order by blast
  then obtain k where "?P k" by (auto simp: in_set_conv_nth)
  then have least: "?P (LEAST i. ?P i)" by (rule LeastI)
  define m where "m = (LEAST i. ?P i)"
  have m: "m < length order" "order ! m \<notin> D" using least by (auto simp: m_def)
  have "set (take m order) \<subseteq> D"
  proof
    fix x assume "x \<in> set (take m order)"
    then obtain j where j: "j < m" "j < length order" "x = order ! j" by (auto simp: in_set_conv_nth)
    from j(1) have "\<not> ?P j" unfolding m_def by (rule not_less_Least)
    with j show "x \<in> D" by blast
  qed
  moreover have "deps (order ! m) \<subseteq> set (take m order)" "order ! m \<in> ids" using deps m order by auto
  ultimately have "order ! m \<in> layer ids deps D" using m by (auto simp: layer_def)
  then show ?thesis by blast
qed

lemma layers_butlast:
  assumes "layers ids deps (waves @ [wave])"
  shows "layers ids deps waves" "distinct wave" "set wave = layer ids deps (set (concat waves))"
proof -
  have nth: "distinct ((waves @ [wave]) ! i) \<and> (waves @ [wave]) ! i \<noteq> [] \<and>
      set ((waves @ [wave]) ! i) = layer ids deps (set (concat (take i (waves @ [wave]))))" if "i < Suc (length waves)" for i
    using assms that by (simp add: layers_def)
  show "layers ids deps waves"
    unfolding layers_def
  proof (intro allI impI)
    fix i assume i: "i < length waves"
    then have "(waves @ [wave]) ! i = waves ! i" "take i (waves @ [wave]) = take i waves" by (simp_all add: nth_append)
    with nth [of i] i show "distinct (waves ! i) \<and> waves ! i \<noteq> [] \<and> set (waves ! i) = layer ids deps (set (concat (take i waves)))"
      by simp
  qed
  show "distinct wave" "set wave = layer ids deps (set (concat waves))" using nth [of "length waves"] by simp_all
qed

lemma layers_distinct: "layers ids deps waves \<Longrightarrow> distinct (concat waves)"
proof (induction waves rule: rev_induct)
  case (snoc wave waves)
  note parts = layers_butlast [OF snoc.prems]
  have "set (concat waves) \<inter> set wave = {}" unfolding parts(3) by (auto simp: layer_def)
  with snoc.IH [OF parts(1)] parts(2) show ?case by simp
qed simp

lemma dependency_waves_layers:
  assumes ids: "distinct (map pn_id nodes)" and ds: "\<forall>n \<in> set nodes. distinct (pn_depends_on n)"
    and order: "set order = pn_id ` set nodes" "\<forall>i < length order. set (node_deps nodes (order ! i)) \<subseteq> set (take i order)"
  shows "\<exists>waves. dependency_waves nodes = Some waves \<and> layers (pn_id ` set nodes) (\<lambda>x. set (node_deps nodes x)) waves \<and>
    set (concat waves) = pn_id ` set nodes \<and> distinct (concat waves)"
proof -
  let ?ids = "pn_id ` set nodes" and ?deps = "\<lambda>x. set (node_deps nodes x)"
  obtain indegree dependents where maps: "fold wave_node nodes ([], []) = (indegree, dependents)"
    "degree_inv ?ids ?deps {} indegree (length nodes)" "dependents_inv ?ids ?deps dependents"
    using wave_maps [OF ids ds] by (cases "fold wave_node nodes ([], [])") auto
  have "\<exists>waves. waves_loop dependents indegree (length nodes) [] = Some waves \<and> layers ?ids ?deps waves \<and> set (concat waves) = ?ids"
    using maps(2,3) layer_of_order [OF order] by (intro waves_loop_layers) (auto simp: layers_def)
  then show ?thesis using layers_distinct by (auto simp: dependency_waves_def maps(1))
qed

end
