(* ===== verification/Workflows.thy ===== *)
theory Workflows
  imports Workflow_Waves
begin

text \<open>
  The optional operation graph \<open>.nxr/workflows.toml\<close> (\<open>crates/nxr-task/src/workflows.rs\<close>): parsing
  and checking of the file, planning of its tasks with waves, platform checks, and the pinning of
  development remotes. TOML and JSON deserialization, the file system, \<open>git\<close> and SHA-256 are
  external; the record \<open>WorkflowHost\<close> is what the code uses of them, with file contents and process
  outputs as text.
\<close>

section \<open>Data\<close>

definition WORKFLOWS_SCHEMA_VERSION :: u32 where
  "WORKFLOWS_SCHEMA_VERSION = 1"

definition WORKFLOWS_RELATIVE_PATH :: string where
  "WORKFLOWS_RELATIVE_PATH = ''.nxr/workflows.toml''"

datatype WorkflowPlanMode = IfPresent | Explicit "string option"

datatype WorkflowPlatform = PlatformAny | PlatformUnix | PlatformMacos | PlatformLinux | PlatformWindows

record WorkflowTask =
  wt_depends_on :: "string list"
  wt_platform :: WorkflowPlatform
  wt_architecture :: "string option"
  wt_resources :: NodeResources
  wt_environment :: "(string, string) btmap"
  wt_working_directory :: "string option"
  wt_artifacts :: "string list"
  wt_inputs :: "string list"
  wt_operation :: Operation

record WorkflowDocument =
  wd_schema_version :: u32
  wd_tasks :: "(string, WorkflowTask) btmap"

datatype WorkflowError =
    WorkflowIo string string
  | WorkflowParse string string
  | WorkflowUnsupportedVersion string u32 u32
  | WorkflowInvalid string string
  | WorkflowEmptySelector
  | WorkflowMissingFile string
  | WorkflowPlan GraphError

text \<open>The public exit codes of \<open>nxr_core::diagnostics::exit\<close> the errors map to.\<close>

fun workflow_exit_code :: "WorkflowError \<Rightarrow> int" where
  "workflow_exit_code (WorkflowIo _ _) = 7"
| "workflow_exit_code (WorkflowParse _ _) = 7"
| "workflow_exit_code (WorkflowUnsupportedVersion _ _ _) = 7"
| "workflow_exit_code (WorkflowInvalid _ _) = 7"
| "workflow_exit_code WorkflowEmptySelector = 2"
| "workflow_exit_code (WorkflowMissingFile _) = 6"
| "workflow_exit_code (WorkflowPlan (UnknownRoot _)) = 6"
| "workflow_exit_code (WorkflowPlan (MissingDependency _ _)) = 8"
| "workflow_exit_code (WorkflowPlan (Cycle _)) = 8"

section \<open>Platforms\<close>

definition platform_parse :: "string \<Rightarrow> WorkflowPlatform option" where
  "platform_parse raw =
     (if raw = ''any'' then Some PlatformAny
      else if raw = ''unix'' then Some PlatformUnix
      else if raw = ''macos'' then Some PlatformMacos
      else if raw = ''linux'' then Some PlatformLinux
      else if raw = ''windows'' then Some PlatformWindows
      else None)"

fun as_plan_label :: "WorkflowPlatform \<Rightarrow> string option" where
  "as_plan_label PlatformAny = None"
| "as_plan_label PlatformUnix = Some ''unix''"
| "as_plan_label PlatformMacos = Some ''macos''"
| "as_plan_label PlatformLinux = Some ''linux''"
| "as_plan_label PlatformWindows = Some ''windows''"

text \<open>The target the program is compiled for, \<open>cfg!(...)\<close>.\<close>

datatype Target = TargetWindows | TargetMacos | TargetLinux | TargetUnix

fun host_platform_label :: "Target \<Rightarrow> string" where
  "host_platform_label TargetWindows = ''windows''"
| "host_platform_label TargetMacos = ''macos''"
| "host_platform_label TargetLinux = ''linux''"
| "host_platform_label TargetUnix = ''unix''"

definition platform_matches_host :: "Target \<Rightarrow> string \<Rightarrow> bool" where
  "platform_matches_host target platform \<longleftrightarrow>
     (if platform = ''any'' then True
      else if platform = ''unix'' then target \<noteq> TargetWindows
      else if platform = ''macos'' then target = TargetMacos
      else if platform = ''linux'' then target = TargetLinux
      else if platform = ''windows'' then target = TargetWindows
      else False)"

definition host_skip_reason :: "Target \<Rightarrow> string \<Rightarrow> string option \<Rightarrow> string option \<Rightarrow> bool \<Rightarrow> string option" where
  "host_skip_reason target arch platform architecture remote =
     (let arch_reason = (case architecture of
            Some a \<Rightarrow> if a \<noteq> arch then Some (''architecture `'' @ a @ ''` does not match host `'' @ arch @ ''`'') else None
          | None \<Rightarrow> None)
      in if remote then None
         else case platform of
                Some p \<Rightarrow>
                  if \<not> platform_matches_host target p
                  then Some (''platform `'' @ p @ ''` does not match host `'' @ host_platform_label target @ ''`'')
                  else arch_reason
              | None \<Rightarrow> arch_reason)"

section \<open>The file\<close>

datatype WorkflowWinbuildFile = WinbuildId string | WinbuildSpec string "string option"

record WorkflowRemoteFile =
  wr_target :: string
  wr_task :: string
  wr_source_url :: string
  wr_source_revision :: string
  wr_lock_digest :: string
  wr_source_ref :: string
  wr_lock_file :: string
  wr_build_root :: string
  wr_manifest :: string

record WorkflowExecutorFile =
  we_flake :: "string option"
  we_native :: "string list option"
  we_winbuild :: "WorkflowWinbuildFile option"
  we_remote :: "WorkflowRemoteFile option"

record WorkflowTaskFile =
  wtf_depends_on :: "string list"
  wtf_platform :: "string option"
  wtf_architecture :: "string option"
  wtf_resources :: "TaskResources option"
  wtf_env :: "(string, string) btmap"
  wtf_working_directory :: "string option"
  wtf_artifacts :: "string list"
  wtf_inputs :: "string list"
  wtf_executor :: WorkflowExecutorFile

record WorkflowFile =
  wf_schema_version :: u32
  wf_tasks :: "(string, WorkflowTaskFile) btmap"

text \<open>\<open>chars().any(char::is_whitespace)\<close>.\<close>

definition has_whitespace :: "string \<Rightarrow> bool" where
  "has_whitespace s \<longleftrightarrow> list_ex (\<lambda>w. str_contains s w) ws_codes"

definition validate_task_name :: "string \<Rightarrow> (string, unit) outcome" where
  "validate_task_name name =
     (if name = [] \<or> has_whitespace name \<or> str_contains name ''/'' \<or> str_contains name [CHR 0x5C]
      then Err (''invalid workflow task name `'' @ name @ ''`'')
      else Ok ())"

definition validate_token :: "string \<Rightarrow> string \<Rightarrow> (string, unit) outcome" where
  "validate_token label v =
     (if v = [] \<or> has_whitespace v then Err (label @ '' must be a single token'') else Ok ())"

definition reject_escaping_path :: "string \<Rightarrow> string \<Rightarrow> (string, unit) outcome" where
  "reject_escaping_path label v =
     (if v = [] \<or> starts_with v ''/'' \<or> str_contains v ''..'' \<or> str_contains v [CHR 0x5C]
      then Err (label @ '' must be a relative path inside the workflow root'')
      else Ok ())"

definition validate_relative_paths :: "string \<Rightarrow> string option \<Rightarrow> string list \<Rightarrow> (string, unit) outcome" where
  "validate_relative_paths task working_directory artifacts =
     bind (case working_directory of
             Some directory \<Rightarrow> reject_escaping_path (''task `'' @ task @ ''` working_directory'') directory
           | None \<Rightarrow> Ok ()) (\<lambda>_.
       for_each (reject_escaping_path (''task `'' @ task @ ''` artifact'')) artifacts)"

definition is_hexdigit :: "char \<Rightarrow> bool" where
  "is_hexdigit c \<longleftrightarrow> is_ascii_digit c \<or> c \<in> set ''abcdef'' \<or> c \<in> set ''ABCDEF''"

definition is_sha256_digest :: "string \<Rightarrow> bool" where
  "is_sha256_digest v =
     (case strip_prefix ''sha256:'' v of
        None \<Rightarrow> False
      | Some hex \<Rightarrow> length hex = 64 \<and> list_all is_hexdigit hex)"

definition is_git_revision :: "string \<Rightarrow> bool" where
  "is_git_revision v \<longleftrightarrow> (length v = 40 \<or> length v = 64) \<and> list_all (\<lambda>c. is_hexdigit c \<and> \<not> is_ascii_uppercase c) v"

definition remote_operation :: "string \<Rightarrow> WorkflowRemoteFile \<Rightarrow> (string, Operation) outcome" where
  "remote_operation task remote =
     bind (validate_token (''task `'' @ task @ ''` remote target'') (wr_target remote)) (\<lambda>_.
     bind (validate_token (''task `'' @ task @ ''` remote task'') (wr_task remote)) (\<lambda>_.
     if wr_source_url remote = [] \<or> has_whitespace (wr_source_url remote)
     then Err (''task `'' @ task @ ''` remote source_url is required'')
     else
       let release_revision = (wr_source_revision remote \<noteq> []);
           release_lock = (wr_lock_digest remote \<noteq> [])
       in if release_revision \<and> wr_source_ref remote \<noteq> []
          then Err (''task `'' @ task @ ''` remote sets source_revision and source_ref'')
          else if release_lock \<and> wr_lock_file remote \<noteq> []
          then Err (''task `'' @ task @ ''` remote sets lock_digest and lock_file'')
          else
            bind (if release_revision then
                    if \<not> is_git_revision (wr_source_revision remote)
                    then Err (''task `'' @ task @ ''` remote source_revision must be 40 or 64 lowercase hex characters'')
                    else Ok ()
                  else if wr_source_ref remote = [] \<or> has_whitespace (wr_source_ref remote) \<or> str_contains (wr_source_ref remote) ''..''
                  then Err (''task `'' @ task @ ''` remote requires source_revision or source_ref'')
                  else Ok ()) (\<lambda>_.
            bind (if release_lock then
                    if \<not> is_sha256_digest (wr_lock_digest remote)
                    then Err (''task `'' @ task @ ''` remote lock_digest must be sha256 and 64 hex characters'')
                    else Ok ()
                  else reject_escaping_path (''task `'' @ task @ ''` remote lock_file'') (wr_lock_file remote)) (\<lambda>_.
            bind (if wr_build_root remote \<noteq> []
                  then reject_escaping_path (''task `'' @ task @ ''` remote build_root'') (wr_build_root remote) else Ok ()) (\<lambda>_.
            bind (if wr_manifest remote \<noteq> []
                  then reject_escaping_path (''task `'' @ task @ ''` remote manifest'') (wr_manifest remote) else Ok ()) (\<lambda>_.
              Ok (Remote (wr_target remote) (wr_task remote) (wr_source_url remote) (wr_source_revision remote)
                (wr_lock_digest remote) (wr_source_ref remote) (wr_lock_file remote) (wr_build_root remote)
                (wr_manifest remote))))))))"

fun winbuild_spec :: "WorkflowWinbuildFile \<Rightarrow> string \<times> string" where
  "winbuild_spec (WinbuildId task_id) = (task_id, ''.winbuild.json'')"
| "winbuild_spec (WinbuildSpec task manifest) =
     (task, case manifest of Some m \<Rightarrow> m | None \<Rightarrow> ''.winbuild.json'')"

definition operation_from_executor :: "string \<Rightarrow> WorkflowExecutorFile \<Rightarrow> (string, Operation) outcome" where
  "operation_from_executor task executor =
     (let selected = length (filter id [we_flake executor \<noteq> None, we_native executor \<noteq> None,
            we_winbuild executor \<noteq> None, we_remote executor \<noteq> None])
      in if selected \<noteq> 1
         then Err (''task `'' @ task @ ''` executor must set exactly one of flake, native, winbuild, or remote'')
         else case we_flake executor of
           Some app \<Rightarrow> bind (validate_token (''task `'' @ task @ ''` flake app'') app) (\<lambda>_. Ok (FlakeApp app))
         | None \<Rightarrow> case we_native executor of
           Some argv \<Rightarrow>
             if argv = [] \<or> list_ex (\<lambda>a. a = []) argv
             then Err (''task `'' @ task @ ''` native argv must be a non-empty argument list'')
             else Ok (NativeCommand argv)
         | None \<Rightarrow> case we_winbuild executor of
           Some winbuild \<Rightarrow>
             (case winbuild_spec winbuild of (task_id, manifest) \<Rightarrow>
                bind (validate_token (''task `'' @ task @ ''` winbuild task id'') task_id) (\<lambda>_.
                bind (reject_escaping_path (''task `'' @ task @ ''` winbuild manifest'') manifest) (\<lambda>_.
                  Ok (WinBuildTask task_id manifest))))
         | None \<Rightarrow> case we_remote executor of
           Some remote \<Rightarrow> remote_operation task remote
         | None \<Rightarrow> Err (''task `'' @ task @ ''` executor is missing''))"

definition parse_workflow_task :: "string \<Rightarrow> string \<Rightarrow> WorkflowTaskFile \<Rightarrow> (WorkflowError, WorkflowTask) outcome" where
  "parse_workflow_task path name task =
     bind (map_err (WorkflowInvalid path) (validate_task_name name)) (\<lambda>_.
     bind (case wtf_platform task of
             None \<Rightarrow> Ok PlatformAny
           | Some raw \<Rightarrow> ok_or (WorkflowInvalid path (''task `'' @ name @ ''` platform `'' @ raw @
               ''` is not any, unix, macos, linux, or windows'')) (platform_parse raw)) (\<lambda>platform.
     bind (case wtf_architecture task of
             Some architecture \<Rightarrow> map_err (WorkflowInvalid path) (validate_token (''task `'' @ name @ ''` architecture'') architecture)
           | None \<Rightarrow> Ok ()) (\<lambda>_.
     bind (map_err (WorkflowInvalid path) (validate_relative_paths name (wtf_working_directory task) (wtf_artifacts task))) (\<lambda>_.
     bind (map_err (WorkflowInvalid path) (operation_from_executor name (wtf_executor task))) (\<lambda>operation.
     let resources = (case wtf_resources task of Some r \<Rightarrow> from_task_resources r | None \<Rightarrow> NodeResources_EMPTY)
     in bind (for_each (\<lambda>input.
          if \<not> list_ex (\<lambda>edge. edge = input) (wtf_depends_on task)
          then Err (WorkflowInvalid path (''task `'' @ name @ ''` input `'' @ input @ ''` is not a dependency''))
          else Ok ()) (wtf_inputs task)) (\<lambda>_.
        Ok \<lparr>wt_depends_on = wtf_depends_on task, wt_platform = platform, wt_architecture = wtf_architecture task,
            wt_resources = resources, wt_environment = wtf_env task, wt_working_directory = wtf_working_directory task,
            wt_artifacts = wtf_artifacts task, wt_inputs = wtf_inputs task, wt_operation = operation\<rparr>))))))"

fun parse_workflow_tasks ::
  "string \<Rightarrow> (string, WorkflowTaskFile) btmap \<Rightarrow> (string, WorkflowTask) btmap \<Rightarrow>
     (WorkflowError, (string, WorkflowTask) btmap) outcome" where
  "parse_workflow_tasks path [] tasks = Ok tasks"
| "parse_workflow_tasks path ((name, task) # rest) tasks =
     bind (parse_workflow_task path name task) (\<lambda>parsed. parse_workflow_tasks path rest (bt_insert name parsed tasks))"

record WorkflowHost =
  toml_from_str :: "string \<Rightarrow> (string, WorkflowFile) outcome"
  path_exists :: "string \<Rightarrow> bool"
  path_is_file :: "string \<Rightarrow> bool"
  read_to_string :: "string \<Rightarrow> (string, string) outcome"
  read_bytes :: "string \<Rightarrow> (string, string) outcome"
  git_output :: "string \<Rightarrow> string list \<Rightarrow> (string, bool \<times> string \<times> string) outcome"
  json_from_slice :: "string \<Rightarrow> JsonValue option"
  sha256_hex :: "string \<Rightarrow> string"

definition parse_workflow_str :: "WorkflowHost \<Rightarrow> string \<Rightarrow> string \<Rightarrow> (WorkflowError, WorkflowDocument) outcome" where
  "parse_workflow_str host txt path =
     bind (map_err (WorkflowParse path) (toml_from_str host txt)) (\<lambda>wfile.
     if wf_schema_version wfile \<noteq> WORKFLOWS_SCHEMA_VERSION
     then Err (WorkflowUnsupportedVersion path (wf_schema_version wfile) WORKFLOWS_SCHEMA_VERSION)
     else bind (parse_workflow_tasks path (wf_tasks wfile) []) (\<lambda>ts.
       Ok \<lparr>wd_schema_version = wf_schema_version wfile, wd_tasks = ts\<rparr>))"

section \<open>Planning\<close>

definition workflow_mode_from_selector :: "string \<Rightarrow> WorkflowPlanMode option" where
  "workflow_mode_from_selector tok =
     (if tok = ''workflow'' then Some (Explicit None)
      else map_option (\<lambda>name. Explicit (Some name)) (strip_prefix ''workflow:'' tok))"

text \<open>\<open>Path::join\<close> with a relative path.\<close>

definition path_join :: "string \<Rightarrow> string \<Rightarrow> string" where
  "path_join root relative =
     (if root = [] \<or> ends_with root ''/'' then root @ relative else root @ ''/'' @ relative)"

definition workflow_path :: "string \<Rightarrow> string" where
  "workflow_path repo_root = path_join repo_root WORKFLOWS_RELATIVE_PATH"

definition load_workflow_document :: "WorkflowHost \<Rightarrow> string \<Rightarrow> (WorkflowError, WorkflowDocument option) outcome" where
  "load_workflow_document host repo_root =
     (let path = workflow_path repo_root in
      if \<not> path_exists host path then Ok None
      else bind (map_err (WorkflowIo path) (read_to_string host path)) (\<lambda>txt.
        bind (parse_workflow_str host txt path) (\<lambda>doc. Ok (Some doc))))"

definition synthetic_tasks :: "WorkflowDocument \<Rightarrow> tasks" where
  "synthetic_tasks document =
     bt_map (\<lambda>task. (TaskDefinition_new ''workflow'')\<lparr>td_depends_on := wt_depends_on task\<rparr>) (wd_tasks document)"

definition workflow_node :: "WorkflowDocument \<Rightarrow> TaskGraph \<Rightarrow> string \<Rightarrow> PlanNode option" where
  "workflow_node document graph nid =
     (case map_of (wd_tasks document) nid of
        None \<Rightarrow> None
      | Some task \<Rightarrow> Some \<lparr>
          pn_id = nid,
          pn_depends_on = (case dependencies graph nid of None \<Rightarrow> [] | Some ds \<Rightarrow> ds),
          pn_interactive = False,
          pn_resources = wt_resources task,
          pn_operation = Some (wt_operation task),
          pn_platform = as_plan_label (wt_platform task),
          pn_architecture = wt_architecture task,
          pn_environment = wt_environment task,
          pn_working_directory = wt_working_directory task,
          pn_artifacts = wt_artifacts task,
          pn_inputs = wt_inputs task\<rparr>)"

definition workflow_roots :: "WorkflowDocument \<Rightarrow> WorkflowPlanMode \<Rightarrow> (WorkflowError, string list) outcome" where
  "workflow_roots document mode =
     (case mode of
        Explicit (Some name) \<Rightarrow> if name = [] then Err WorkflowEmptySelector else Ok [name]
      | _ \<Rightarrow> Ok (bt_keys (wd_tasks document)))"

definition plan_workflow_document ::
  "WorkflowDocument \<Rightarrow> WorkflowPlanMode \<Rightarrow> FailurePolicy \<Rightarrow> sink option \<Rightarrow> (WorkflowError, ExecutionPlan \<times> sink option) outcome" where
  "plan_workflow_document document mode policy sink =
     (if wd_tasks document = []
      then Err (WorkflowInvalid WORKFLOWS_RELATIVE_PATH ''workflows document has no tasks'')
      else bind (workflow_roots document mode) (\<lambda>roots.
        let synthetic = synthetic_tasks document in
        bind (map_err WorkflowPlan (plan_serial_union synthetic roots)) (\<lambda>serial_order.
        bind (map_err WorkflowPlan (subgraph_union synthetic roots)) (\<lambda>graph.
        let nodes = List.map_filter (workflow_node document graph) (node_ids graph)
        in case roots of
             [] \<Rightarrow> Panic
           | primary_root # _ \<Rightarrow>
               (case dependency_waves nodes of
                  None \<Rightarrow> Panic
                | Some waves \<Rightarrow>
                    let plan = \<lparr>
                          ep_schema_version = EXECUTION_PLAN_SCHEMA_VERSION,
                          ep_root = primary_root,
                          ep_roots = (if 1 < length roots then roots else []),
                          ep_failure_policy = policy,
                          ep_argument_forwarding = ForwardRoot,
                          ep_nodes = nodes,
                          ep_serial_order = serial_order,
                          ep_waves = waves\<rparr>
                    in Ok (plan, map_option (emit (plan_created (ep_root plan)
                         (if ep_roots plan = [] then None else Some (ep_roots plan))
                         (length (ep_nodes plan)))) sink))))))"

definition plan_workflows ::
  "WorkflowHost \<Rightarrow> string \<Rightarrow> WorkflowPlanMode \<Rightarrow> FailurePolicy \<Rightarrow> sink option \<Rightarrow>
     (WorkflowError, ExecutionPlan option \<times> sink option) outcome" where
  "plan_workflows host repo_root mode policy sink =
     bind (load_workflow_document host repo_root) (\<lambda>loaded.
       case loaded of
         None \<Rightarrow>
           (case mode of
              IfPresent \<Rightarrow> Ok (None, sink)
            | Explicit _ \<Rightarrow> Err (WorkflowMissingFile (workflow_path repo_root)))
       | Some document \<Rightarrow>
           bind (plan_workflow_document document mode policy sink) (\<lambda>(plan, sink'). Ok (Some plan, sink')))"

section \<open>Pinning\<close>

definition git_commit :: "WorkflowHost \<Rightarrow> string \<Rightarrow> string \<Rightarrow> (string, string) outcome" where
  "git_commit host root reference =
     bind (map_err (\<lambda>e. ''git rev-parse: '' @ e)
             (git_output host root [''rev-parse'', ''--verify'', reference @ ''^{commit}''])) (\<lambda>(success, stdout, stderr).
     if \<not> success then Err (''git could not resolve `'' @ reference @ ''`: '' @ trim stderr)
     else let revision = trim stdout in
       if \<not> is_git_revision revision then Err (''git resolved `'' @ reference @ ''` to `'' @ revision @ ''`'')
       else Ok revision)"

text \<open>\<open>str::lines\<close> and \<open>str::split_whitespace\<close>.\<close>

definition str_lines :: "string \<Rightarrow> string list" where
  "str_lines s =
     (let parts = split_on (CHR 0x0A) s;
          ls = (if last parts = [] then butlast parts else parts)
      in map (\<lambda>l. case strip_suffix [CHR 0x0D] l of Some t \<Rightarrow> t | None \<Rightarrow> l) ls)"

function split_ws_from :: "string \<Rightarrow> string \<Rightarrow> string list" where
  "split_ws_from cur [] = [cur]"
| "split_ws_from cur (c # s) =
     (case find (\<lambda>w. w \<noteq> [] \<and> prefix w (c # s)) ws_codes of
        Some w \<Rightarrow> cur # split_ws_from [] (drop (length w) (c # s))
      | None \<Rightarrow> split_ws_from (cur @ [c]) s)"
  by pat_completeness auto
termination
proof (relation "measure (\<lambda>(cur, s). length s)")
  fix c s and w :: string
  assume "find (\<lambda>w. w \<noteq> [] \<and> prefix w (c # s)) ws_codes = Some w"
  then have "w \<noteq> []" by (auto simp: find_Some_iff)
  then show "(([], drop (length w) (c # s)), cur, c # s) \<in> measure (\<lambda>(cur, s). length s)" for cur :: string
    by (cases w) auto
qed auto

definition split_whitespace :: "string \<Rightarrow> string list" where
  "split_whitespace s = filter (\<lambda>t. t \<noteq> []) (split_ws_from [] s)"

definition nth_or_empty :: "string list \<Rightarrow> nat \<Rightarrow> string" where
  "nth_or_empty parts i = (if i < length parts then parts ! i else [])"

declare split_ws_from.simps [simp del]

definition gitlink_of :: "string \<Rightarrow> string option" where
  "gitlink_of line =
     (let parts = split_whitespace line;
          mode = nth_or_empty parts 0; kind = nth_or_empty parts 1; sha = nth_or_empty parts 2;
          path = nth_or_empty (split_on (CHR 0x09) line) 1
      in if mode = ''160000'' \<and> kind = ''commit'' \<and> path \<noteq> [] then Some (path @ '' '' @ sha) else None)"

definition submodule_gitlinks :: "WorkflowHost \<Rightarrow> string \<Rightarrow> string \<Rightarrow> (string, string list) outcome" where
  "submodule_gitlinks host root revision =
     bind (map_err (\<lambda>e. ''git ls-tree: '' @ e) (git_output host root [''ls-tree'', ''-r'', revision])) (\<lambda>(success, stdout, stderr).
     if \<not> success then Err (trim stderr)
     else Ok (List.map_filter gitlink_of (str_lines stdout)))"

definition lock_digest_from_file :: "WorkflowHost \<Rightarrow> string \<Rightarrow> string \<Rightarrow> (string, string) outcome" where
  "lock_digest_from_file host root relative =
     bind (reject_escaping_path ''lock file'' relative) (\<lambda>_.
     bind (map_err (\<lambda>e. ''read lock file: '' @ e) (read_bytes host (path_join root relative))) (\<lambda>bytes.
       case Option.bind (Option.bind (json_from_slice host bytes) (json_get ''digest'')) json_as_str of
         Some digest \<Rightarrow> if is_sha256_digest digest then Ok digest else Ok (''sha256:'' @ sha256_hex host bytes)
       | None \<Rightarrow> Ok (''sha256:'' @ sha256_hex host bytes)))"

text \<open>
  One node: the new node and, for a remote, its manifest. \<open>serde_json\<close> keeps the keys of an object
  sorted.
\<close>

definition pin_node :: "WorkflowHost \<Rightarrow> string \<Rightarrow> PlanNode \<Rightarrow> (string, PlanNode \<times> JsonValue option) outcome" where
  "pin_node host root node =
     (case pn_operation node of
        Some (Remote target task source_url source_revision lock_digest source_ref lock_file build_root manifest) \<Rightarrow>
          bind (if source_revision = [] then git_commit host root source_ref else Ok source_revision) (\<lambda>revision.
          bind (if lock_digest = [] then lock_digest_from_file host root lock_file else Ok lock_digest) (\<lambda>digest.
          let submodules = (case submodule_gitlinks host root revision of Ok ls \<Rightarrow> ls | _ \<Rightarrow> [])
          in Ok (node\<lparr>pn_operation := Some (Remote target task source_url revision digest [] [] build_root manifest)\<rparr>,
                 Some (JObject
                   [(''build_root'', JString build_root), (''lock_digest'', JString digest), (''manifest'', JString manifest),
                    (''source_revision'', JString revision), (''source_url'', JString source_url),
                    (''submodules'', JArray (map JString submodules)), (''target'', JString target),
                    (''task'', JString (pn_id node)), (''winbuild_task'', JString task)]))))
      | _ \<Rightarrow> Ok (node, None))"

text \<open>The loop over \<open>&mut plan.nodes\<close>: on an error the nodes before it are already pinned.\<close>

fun pin_nodes :: "WorkflowHost \<Rightarrow> string \<Rightarrow> PlanNode list \<Rightarrow> JsonValue list \<Rightarrow> (string, JsonValue list) outcome \<times> PlanNode list" where
  "pin_nodes host root [] manifests = (Ok manifests, [])"
| "pin_nodes host root (node # nodes) manifests =
     (case pin_node host root node of
        Ok (node', m) \<Rightarrow>
          (case pin_nodes host root nodes (manifests @ (case m of Some j \<Rightarrow> [j] | None \<Rightarrow> [])) of
             (r, nodes') \<Rightarrow> (r, node' # nodes'))
      | Err e \<Rightarrow> (Err e, node # nodes)
      | Panic \<Rightarrow> (Panic, node # nodes))"

definition resolve_plan_pins :: "WorkflowHost \<Rightarrow> string \<Rightarrow> ExecutionPlan \<Rightarrow> (string, JsonValue list) outcome \<times> ExecutionPlan" where
  "resolve_plan_pins host root plan =
     (case pin_nodes host root (ep_nodes plan) [] of (r, nodes) \<Rightarrow> (r, plan\<lparr>ep_nodes := nodes\<rparr>))"

text \<open>
  The search for the root upwards: a directory is the list of its components below a prefix (the
  root directory, or nothing for a relative path); \<open>pop\<close> drops the last component.
\<close>

function find_workflow_root :: "WorkflowHost \<Rightarrow> string \<Rightarrow> string list \<Rightarrow> string option" where
  "find_workflow_root host pre current =
     (let dir = pre @ join ''/'' current in
      if path_is_file host (workflow_path dir) then Some dir
      else if current = [] then None
      else find_workflow_root host pre (butlast current))"
  by pat_completeness auto
termination by (relation "measure (\<lambda>(_, _, current). length current)") auto

declare find_workflow_root.simps [simp del]

end
