(* ===== verification/Workflow_Plan.thy ===== *)
theory Workflow_Plan
  imports Workflows Affected_Paths
begin

text \<open>
  What the planner and the parser of workflow files guarantee: plans are well-formed and list their
  nodes in the earliest possible waves, what the parser accepts stays inside the workflow root, and
  pinning leaves no remote that can change.
\<close>

section \<open>The nodes of a plan\<close>

lemma graph_nodes:
  assumes "\<And>x. x \<in> set (node_ids g) \<Longrightarrow> \<exists>n. f x = Some n \<and> pn_id n = x \<and> pn_depends_on n = deps_of g x"
  shows "map pn_id (List.map_filter f (node_ids g)) = node_ids g"
    and "n \<in> set (List.map_filter f (node_ids g)) \<Longrightarrow> f (pn_id n) = Some n \<and> pn_depends_on n = deps_of g (pn_id n)"
proof -
  have some: "f x = Some (the (f x)) \<and> pn_id (the (f x)) = x \<and> pn_depends_on (the (f x)) = deps_of g x" if "x \<in> set (node_ids g)" for x
    using assms [OF that] by auto
  have eq: "List.map_filter f (node_ids g) = map (\<lambda>x. the (f x)) (node_ids g)"
    by (rule map_filter_all_Some) (use some in blast)
  show "map pn_id (List.map_filter f (node_ids g)) = node_ids g"
    unfolding eq using some by (simp add: map_idI)
  show "f (pn_id n) = Some n \<and> pn_depends_on n = deps_of g (pn_id n)" if "n \<in> set (List.map_filter f (node_ids g))"
    using that some unfolding eq by fastforce
qed

lemma map_of_synthetic:
  assumes "bt_wf (wd_tasks document)"
  shows "map_of (synthetic_tasks document) x =
    map_option (\<lambda>task. (TaskDefinition_new ''workflow'')\<lparr>td_depends_on := wt_depends_on task\<rparr>) (map_of (wd_tasks document) x)"
  unfolding synthetic_tasks_def bt_map_eq [OF assms] by (simp add: map_of_map)

lemma workflow_nodes:
  assumes wf: "bt_wf (wd_tasks document)" and g: "subgraph_union (synthetic_tasks document) roots = Ok g"
  shows "map pn_id (List.map_filter (workflow_node document g) (node_ids g)) = node_ids g"
    and "n \<in> set (List.map_filter (workflow_node document g) (node_ids g)) \<Longrightarrow>
      workflow_node document g (pn_id n) = Some n \<and> pn_depends_on n = deps_of g (pn_id n)"
proof -
  have node: "\<exists>n. workflow_node document g x = Some n \<and> pn_id n = x \<and> pn_depends_on n = deps_of g x" if "x \<in> set (node_ids g)" for x
  proof -
    have "task_ok (synthetic_tasks document) x" using that subgraph_union_Ok(3,5) [OF g] by simp
    then obtain t where "map_of (wd_tasks document) x = Some t"
      by (auto simp: task_ok_def map_of_synthetic [OF wf] split: option.splits)
    then show ?thesis by (simp add: workflow_node_def deps_of_def)
  qed
  show "map pn_id (List.map_filter (workflow_node document g) (node_ids g)) = node_ids g"
    by (rule graph_nodes(1)) (rule node)
  show "workflow_node document g (pn_id n) = Some n \<and> pn_depends_on n = deps_of g (pn_id n)"
    if "n \<in> set (List.map_filter (workflow_node document g) (node_ids g))"
    using node that by (rule graph_nodes(2))
qed

text \<open>Everything a node takes from its task; what it depends on, as a set.\<close>

definition carries_task :: "PlanNode \<Rightarrow> WorkflowTask \<Rightarrow> bool" where
  "carries_task n t \<longleftrightarrow> set (pn_depends_on n) = set (wt_depends_on t) \<and>
     pn_resources n = wt_resources t \<and> pn_operation n = Some (wt_operation t) \<and> pn_inputs n = wt_inputs t \<and>
     pn_working_directory n = wt_working_directory t \<and> pn_artifacts n = wt_artifacts t \<and>
     pn_platform n = map_of [(PlatformUnix, ''unix''), (PlatformMacos, ''macos''), (PlatformLinux, ''linux''),
       (PlatformWindows, ''windows'')] (wt_platform t) \<and>
     pn_architecture n = wt_architecture t \<and> pn_environment n = wt_environment t \<and> \<not> pn_interactive n"

lemma workflow_node_task:
  assumes wf: "bt_wf (wd_tasks document)" and g: "subgraph_union (synthetic_tasks document) roots = Ok g"
    and n: "n \<in> set (List.map_filter (workflow_node document g) (node_ids g))"
  shows "\<exists>t. map_of (wd_tasks document) (pn_id n) = Some t \<and> carries_task n t"
proof -
  note node = workflow_nodes(2) [OF wf g n]
  then obtain t where t: "map_of (wd_tasks document) (pn_id n) = Some t" by (auto simp: workflow_node_def split: option.splits)
  have "pn_id n \<in> set (node_ids g)" using workflow_nodes(1) [OF wf g] n by (metis image_eqI set_map)
  then have "set (deps_of g (pn_id n)) = set (task_succs (synthetic_tasks document) (pn_id n))"
    using subgraph_union_deps_of [OF g] subgraph_union_Ok(3) [OF g] by simp
  also have "\<dots> = set (wt_depends_on t)" by (simp add: task_succs_def map_of_synthetic [OF wf] t)
  finally have "set (deps_of g (pn_id n)) = set (wt_depends_on t)" .
  then have "set (pn_depends_on n) = set (wt_depends_on t)" using node by simp
  moreover have label: "as_plan_label p = map_of [(PlatformUnix, ''unix''), (PlatformMacos, ''macos''), (PlatformLinux, ''linux''),
      (PlatformWindows, ''windows'')] p" for p
    by (cases p) simp_all
  have "carries_task m t" if "workflow_node document g (pn_id n) = Some m" "set (pn_depends_on m) = set (wt_depends_on t)" for m
    using that by (auto simp: workflow_node_def t carries_task_def label)
  ultimately show ?thesis using t node by blast
qed

lemma workflow_graph_waves:
  assumes wf: "bt_wf (wd_tasks document)" and g: "subgraph_union (synthetic_tasks document) roots = Ok g"
    and topo: "topo_order g order"
  shows "\<exists>waves. dependency_waves (List.map_filter (workflow_node document g) (node_ids g)) = Some waves \<and>
    layers (set (node_ids g)) (\<lambda>x. set (deps_of g x)) waves \<and> set (concat waves) = set (node_ids g) \<and> distinct (concat waves)"
proof -
  let ?nodes = "List.map_filter (workflow_node document g) (node_ids g)"
  note ids = workflow_nodes(1) [OF wf g] and node = workflow_nodes(2) [OF wf g]
  have gwf: "graph_wf g" by (rule subgraph_union_Ok(6) [OF g])
  then have dist: "distinct (map pn_id ?nodes)" unfolding ids by (simp add: graph_wf_def node_ids_def bt_keys_def bt_wf_distinct)
  have deps: "set (node_deps ?nodes x) = set (deps_of g x)" for x
  proof (cases "x \<in> set (node_ids g)")
    case True
    then obtain n where "n \<in> set ?nodes" "x = pn_id n" using ids by (metis imageE set_map)
    with node_deps_node [OF dist] node show ?thesis by simp
  next
    case False
    moreover have "map fst (map (\<lambda>n. (pn_id n, pn_depends_on n)) ?nodes) = node_ids g" using ids by (simp add: comp_def)
    ultimately have "map_of (map (\<lambda>n. (pn_id n, pn_depends_on n)) ?nodes) x = None"
      unfolding map_of_eq_None_iff set_map [symmetric] by simp
    moreover have "dependencies g x = None" using False set_node_ids [of g] by (metis domIff)
    ultimately show ?thesis by (simp add: node_deps_def deps_of_def)
  qed
  have "\<forall>n \<in> set ?nodes. distinct (pn_depends_on n)"
  proof
    fix n assume "n \<in> set ?nodes"
    then have "pn_depends_on n = deps_of g (pn_id n)" using node by blast
    then show "distinct (pn_depends_on n)"
      using gwf by (cases "dependencies g (pn_id n)") (auto simp: deps_of_def graph_wf_def)
  qed
  moreover have "set order = pn_id ` set ?nodes" "\<forall>i < length order. set (deps_of g (order ! i)) \<subseteq> set (take i order)"
    using topo unfolding set_map [symmetric] ids by (simp_all add: topo_order_def)
  ultimately show ?thesis
    using dependency_waves_layers [OF dist, of order] unfolding deps set_map [symmetric] ids by blast
qed

section \<open>Planning a document\<close>

definition workflow_plan ::
  "WorkflowDocument \<Rightarrow> string list \<Rightarrow> FailurePolicy \<Rightarrow> string list \<Rightarrow> TaskGraph \<Rightarrow> string list list \<Rightarrow> ExecutionPlan" where
  "workflow_plan document roots policy order g waves = \<lparr>
     ep_schema_version = EXECUTION_PLAN_SCHEMA_VERSION, ep_root = hd roots,
     ep_roots = (if 1 < length roots then roots else []), ep_failure_policy = policy,
     ep_argument_forwarding = ForwardRoot, ep_nodes = List.map_filter (workflow_node document g) (node_ids g),
     ep_serial_order = order, ep_waves = waves\<rparr>"

text \<open>The waves of a plan: each holds the nodes whose dependencies are all in earlier waves.\<close>

definition waves_of_plan :: "ExecutionPlan \<Rightarrow> bool" where
  "waves_of_plan plan \<longleftrightarrow> distinct (concat (ep_waves plan)) \<and> set (concat (ep_waves plan)) = set (plan_node_ids plan) \<and>
     (\<forall>i < length (ep_waves plan). ep_waves plan ! i \<noteq> [] \<and>
        set (ep_waves plan ! i) = {x \<in> set (plan_node_ids plan) - set (concat (take i (ep_waves plan))).
          set (plan_deps plan x) \<subseteq> set (concat (take i (ep_waves plan)))})"

lemma workflow_plan_props:
  assumes wf: "bt_wf (wd_tasks document)" and g: "subgraph_union (synthetic_tasks document) roots = Ok g"
    and topo: "topo_order g order"
    and waves: "layers (set (node_ids g)) (\<lambda>x. set (deps_of g x)) waves" "set (concat waves) = set (node_ids g)" "distinct (concat waves)"
    and plan_def: "plan = workflow_plan document roots policy order g waves"
  shows "plan_wf plan" "waves_of_plan plan" "plan_node_ids plan = node_ids g"
proof -
  note ids = workflow_nodes(1) [OF wf g] and node = workflow_nodes(2) [OF wf g]
  have gwf: "graph_wf g" by (rule subgraph_union_Ok(6) [OF g])
  show pids: "plan_node_ids plan = node_ids g" by (simp add: plan_def workflow_plan_def plan_node_ids_def ids)
  show "plan_wf plan"
    by (rule plan_wf_of_graph [OF gwf _ pids]) (use topo node in \<open>simp_all add: plan_def workflow_plan_def\<close>)
  have dist: "distinct (plan_node_ids plan)"
    using gwf unfolding pids by (simp add: graph_wf_def node_ids_def bt_keys_def bt_wf_distinct)
  have deps: "set (plan_deps plan x) = set (deps_of g x)" if "x \<in> set (node_ids g)" for x
  proof -
    from that obtain n where "n \<in> set (ep_nodes plan)" "x = pn_id n"
      unfolding pids [symmetric] by (auto simp: plan_node_ids_def)
    then show ?thesis using plan_deps_node [OF dist] node by (simp add: plan_def workflow_plan_def)
  qed
  have lay: "{x \<in> set (node_ids g) - D. set (plan_deps plan x) \<subseteq> D} = layer (set (node_ids g)) (\<lambda>x. set (deps_of g x)) D" for D
    using deps by (auto simp: layer_def)
  have w: "ep_waves plan = waves" by (simp add: plan_def workflow_plan_def)
  show "waves_of_plan plan"
    unfolding waves_of_plan_def pids w lay using waves unfolding layers_def by blast
qed

lemma plan_workflow_document_cases:
  assumes wf: "bt_wf (wd_tasks document)" and ne: "wd_tasks document \<noteq> []" and roots: "workflow_roots document mode = Ok roots"
  shows "(\<exists>order g waves. plan_serial_union (synthetic_tasks document) roots = Ok order \<and>
      subgraph_union (synthetic_tasks document) roots = Ok g \<and> topo_order g order \<and>
      layers (set (node_ids g)) (\<lambda>x. set (deps_of g x)) waves \<and> set (concat waves) = set (node_ids g) \<and> distinct (concat waves) \<and>
      plan_workflow_document document mode policy sink =
        Ok (workflow_plan document roots policy order g waves, map_option (\<lambda>l. l @ [PlanCreated (hd roots)
          (if 1 < length roots then Some roots else None) (length (node_ids g)) None]) sink)) \<or>
    (\<exists>e. plan_serial_union (synthetic_tasks document) roots = Err e \<and>
      plan_workflow_document document mode policy sink = Err (WorkflowPlan e))"
proof (cases "plan_serial_union (synthetic_tasks document) roots")
  case (Ok order)
  then obtain g where g: "subgraph_union (synthetic_tasks document) roots = Ok g" and topo: "topo_order g order"
    by (rule plan_serial_union_Ok)
  obtain waves where waves: "dependency_waves (List.map_filter (workflow_node document g) (node_ids g)) = Some waves"
    "layers (set (node_ids g)) (\<lambda>x. set (deps_of g x)) waves" "set (concat waves) = set (node_ids g)" "distinct (concat waves)"
    using workflow_graph_waves [OF wf g topo] by blast
  obtain r rs where r: "roots = r # rs" using subgraph_union_Ok(1) [OF g] by (cases roots) auto
  have len: "length (List.map_filter (workflow_node document g) (node_ids g)) = length (node_ids g)"
    using workflow_nodes(1) [OF wf g] by (metis length_map)
  have em: "emit ev = (\<lambda>l. l @ [ev])" for ev by (simp add: fun_eq_iff emit_def)
  have "plan_workflow_document document mode policy sink =
      Ok (workflow_plan document roots policy order g waves, map_option (\<lambda>l. l @ [PlanCreated (hd roots)
        (if 1 < length roots then Some roots else None) (length (node_ids g)) None]) sink)"
    using ne by (simp add: plan_workflow_document_def roots [unfolded r] Ok [unfolded r] g [unfolded r] waves(1) r Let_def workflow_plan_def plan_created_def len em)
  with Ok g topo waves show ?thesis by blast
next
  case (Err e)
  with ne roots show ?thesis by (simp add: plan_workflow_document_def Let_def)
next
  case Panic
  have "topo_serial g \<noteq> Panic" if "subgraph_union (synthetic_tasks document) roots = Ok g" for g
    using topo_serial_spec [OF subgraph_union_Ok(6) [OF that]] by auto
  with Panic show ?thesis by (auto simp: plan_serial_union_def outcome_simps subgraph_union_no_panic)
qed

section \<open>What parsing accepts\<close>

text \<open>A path inside the workflow root: relative, with no parent component.\<close>

definition path_inside :: "string \<Rightarrow> bool" where
  "path_inside p \<longleftrightarrow> p \<noteq> [] \<and> \<not> path_is_absolute p \<and> ''..'' \<notin> set (path_components p)"

fun operation_ok :: "Operation \<Rightarrow> bool" where
  "operation_ok (FlakeApp app) \<longleftrightarrow> app \<noteq> [] \<and> \<not> has_whitespace app"
| "operation_ok (NativeCommand argv) \<longleftrightarrow> argv \<noteq> [] \<and> [] \<notin> set argv"
| "operation_ok (WinBuildTask task_id manifest) \<longleftrightarrow> task_id \<noteq> [] \<and> \<not> has_whitespace task_id \<and> path_inside manifest"
| "operation_ok (Remote target task url revision digest reference lock_file build_root manifest) \<longleftrightarrow>
     (if revision = [] then reference \<noteq> [] else is_git_revision revision \<and> reference = []) \<and>
     (if digest = [] then path_inside lock_file else is_sha256_digest digest \<and> lock_file = []) \<and>
     (build_root \<noteq> [] \<longrightarrow> path_inside build_root) \<and> (manifest \<noteq> [] \<longrightarrow> path_inside manifest)"
| "operation_ok _ \<longleftrightarrow> False"

definition workflow_task_ok :: "WorkflowTask \<Rightarrow> bool" where
  "workflow_task_ok t \<longleftrightarrow> set (wt_inputs t) \<subseteq> set (wt_depends_on t) \<and>
     (\<forall>d. wt_working_directory t = Some d \<longrightarrow> path_inside d) \<and> (\<forall>a \<in> set (wt_artifacts t). path_inside a) \<and>
     operation_ok (wt_operation t)"

lemma str_contains_sublist: "str_contains s p \<longleftrightarrow> sublist p s"
  by (auto simp: str_contains_def list_ex_iff sublist_altdef')

lemma split_on_nonempty: "split_on c s \<noteq> []"
  by (induction s) (auto split: list.splits)

lemma split_on_parts:
  "split_on c s = p # ps \<Longrightarrow> prefix p s \<and> (\<forall>q \<in> set ps. sublist q s)"
proof (induction s arbitrary: p ps)
  case (Cons x xs)
  obtain q qs where qs: "split_on c xs = q # qs" using split_on_nonempty [of c xs] by (cases "split_on c xs") auto
  from Cons.IH [OF this] have q: "prefix q xs" "\<forall>r \<in> set qs. sublist r xs" by auto
  then have "\<forall>r \<in> set (q # qs). sublist r (x # xs)" by (auto simp: sublist_Cons_right intro: prefix_imp_sublist)
  moreover have "x = c \<and> p = [] \<and> ps = q # qs \<or> x \<noteq> c \<and> p = x # q \<and> ps = qs"
    using Cons.prems by (auto simp: qs split: if_splits)
  ultimately show ?case using q(1) by auto
qed simp

lemma split_on_sublist: "q \<in> set (split_on c s) \<Longrightarrow> sublist q s"
  using split_on_parts [of c s] by (cases "split_on c s") auto

lemma reject_escaping_path_inside: "reject_escaping_path label v = Ok () \<Longrightarrow> path_inside v"
  by (auto simp: reject_escaping_path_def path_inside_def path_is_absolute_def path_components_def str_contains_sublist
      dest: split_on_sublist split: if_splits)

lemma validate_token_Ok: "validate_token label v = Ok () \<longleftrightarrow> v \<noteq> [] \<and> \<not> has_whitespace v"
  by (auto simp: validate_token_def)

lemma remote_operation_ok: "remote_operation task r = Ok operation \<Longrightarrow> operation_ok operation"
  by (auto simp: remote_operation_def bind_eq_Ok Let_def dest!: reject_escaping_path_inside split: if_splits)

lemma operation_from_executor_ok:
  assumes "operation_from_executor task executor = Ok operation"
  shows "operation_ok operation"
proof -
  consider (flake) app where "we_flake executor = Some app"
    | (native) argv where "we_flake executor = None" "we_native executor = Some argv"
    | (winbuild) w where "we_flake executor = None" "we_native executor = None" "we_winbuild executor = Some w"
    | (remote) r where "we_flake executor = None" "we_native executor = None" "we_winbuild executor = None" "we_remote executor = Some r"
    | (none) "we_flake executor = None" "we_native executor = None" "we_winbuild executor = None" "we_remote executor = None"
    by (cases "we_flake executor"; cases "we_native executor"; cases "we_winbuild executor"; cases "we_remote executor") auto
  then show ?thesis
  proof cases
    case winbuild
    with assms show ?thesis
      by (cases "winbuild_spec w")
        (auto simp: operation_from_executor_def bind_eq_Ok validate_token_Ok dest!: reject_escaping_path_inside split: if_splits)
  next
    case remote
    with assms show ?thesis using remote_operation_ok by (auto simp: operation_from_executor_def split: if_splits)
  qed (use assms in \<open>auto simp: operation_from_executor_def bind_eq_Ok validate_token_Ok list_ex_iff split: if_splits\<close>)
qed

lemma parse_workflow_task_ok:
  assumes "parse_workflow_task path name task = Ok t"
  shows "workflow_task_ok t"
proof -
  from assms obtain operation where paths: "validate_relative_paths name (wtf_working_directory task) (wtf_artifacts task) = Ok ()"
    and operation: "operation_from_executor name (wtf_executor task) = Ok operation"
    and inputs: "\<forall>input \<in> set (wtf_inputs task). list_ex (\<lambda>edge. edge = input) (wtf_depends_on task)"
    and t: "wt_operation t = operation" "wt_inputs t = wtf_inputs task" "wt_depends_on t = wtf_depends_on task"
      "wt_working_directory t = wtf_working_directory task" "wt_artifacts t = wtf_artifacts task"
    by (auto simp: parse_workflow_task_def bind_eq_Ok for_each_Ok Let_def split: if_splits)
  from paths have "\<forall>d. wtf_working_directory task = Some d \<longrightarrow> path_inside d" "\<forall>a \<in> set (wtf_artifacts task). path_inside a"
    by (auto simp: validate_relative_paths_def bind_eq_Ok for_each_Ok dest: reject_escaping_path_inside)
  with t inputs operation_from_executor_ok [OF operation] show ?thesis
    by (auto simp: workflow_task_ok_def list_ex_iff)
qed

lemma parse_workflow_tasks_ok:
  "parse_workflow_tasks path fs acc = Ok ts \<Longrightarrow> bt_wf acc \<Longrightarrow> (\<And>k t. map_of acc k = Some t \<Longrightarrow> workflow_task_ok t) \<Longrightarrow>
     bt_wf ts \<and> (\<forall>k t. map_of ts k = Some t \<longrightarrow> workflow_task_ok t)"
proof (induction path fs acc rule: parse_workflow_tasks.induct)
  case (2 path name task rest acc)
  from "2.prems"(1) obtain t where t: "parse_workflow_task path name task = Ok t"
    and rest: "parse_workflow_tasks path rest (bt_insert name t acc) = Ok ts"
    by (auto simp: bind_eq_Ok)
  show ?case
    by (rule "2.IH" [OF rest]) (use "2.prems"(2,3) parse_workflow_task_ok [OF t] in \<open>auto split: if_splits\<close>)
qed auto

lemma load_workflow_document_ok:
  assumes "load_workflow_document host root = Ok (Some document)"
  shows "bt_wf (wd_tasks document) \<and> (\<forall>k t. map_of (wd_tasks document) k = Some t \<longrightarrow> workflow_task_ok t)"
proof -
  from assms obtain path fs where "parse_workflow_tasks path fs [] = Ok (wd_tasks document)"
    by (auto simp: load_workflow_document_def parse_workflow_str_def bind_eq_Ok Let_def split: if_splits)
  then show ?thesis by (rule parse_workflow_tasks_ok) auto
qed

section \<open>What pinning does\<close>

fun pinned :: "Operation \<Rightarrow> bool" where
  "pinned (Remote _ _ _ revision digest reference lock_file _ _) \<longleftrightarrow>
     is_git_revision revision \<and> is_sha256_digest digest \<and> reference = [] \<and> lock_file = []"
| "pinned _ \<longleftrightarrow> True"

definition is_remote :: "PlanNode \<Rightarrow> bool" where
  "is_remote n \<longleftrightarrow> (\<exists>a b c d e f g h i. pn_operation n = Some (Remote a b c d e f g h i))"

text \<open>Pinning changes nothing of a node but the revision, digest, reference and lock file of a remote.\<close>

definition pin_of :: "PlanNode \<Rightarrow> PlanNode \<Rightarrow> bool" where
  "pin_of n n' \<longleftrightarrow> n'\<lparr>pn_operation := pn_operation n\<rparr> = n \<and>
     (if is_remote n
      then \<exists>target task url revision digest reference lock_file build_root manifest revision' digest'.
        pn_operation n = Some (Remote target task url revision digest reference lock_file build_root manifest) \<and>
        pn_operation n' = Some (Remote target task url revision' digest' [] [] build_root manifest) \<and>
        (revision \<noteq> [] \<longrightarrow> revision' = revision) \<and> (digest \<noteq> [] \<longrightarrow> digest' = digest) \<and>
        is_git_revision revision' \<and> is_sha256_digest digest'
      else n' = n)"

lemma git_commit_revision: "git_commit host root reference = Ok revision \<Longrightarrow> is_git_revision revision"
  by (auto simp: git_commit_def bind_eq_Ok Let_def split: if_splits prod.splits)

definition sha256_law :: "WorkflowHost \<Rightarrow> bool" where
  "sha256_law host \<longleftrightarrow> (\<forall>bytes. length (sha256_hex host bytes) = 64 \<and> list_all is_hexdigit (sha256_hex host bytes))"

lemma lock_digest_ok:
  assumes "sha256_law host" "lock_digest_from_file host root relative = Ok digest"
  shows "is_sha256_digest digest"
proof -
  have "is_sha256_digest (''sha256:'' @ sha256_hex host bytes)" for bytes
    using assms(1) by (simp add: is_sha256_digest_def strip_prefix_def sha256_law_def)
  with assms(2) show ?thesis by (auto simp: lock_digest_from_file_def bind_eq_Ok split: option.splits if_splits)
qed

lemma pin_node_ok:
  assumes sha: "sha256_law host" and ok: "\<exists>operation. pn_operation n = Some operation \<and> operation_ok operation"
    and pin: "pin_node host root n = Ok (n', m)"
  shows "pin_of n n' \<and> (m \<noteq> None \<longleftrightarrow> is_remote n)"
proof (cases "is_remote n")
  case True
  then obtain target task url revision digest reference lock_file build_root manifest where
    n: "pn_operation n = Some (Remote target task url revision digest reference lock_file build_root manifest)"
    by (auto simp: is_remote_def)
  from pin n obtain revision' digest' where
    r: "(if revision = [] then git_commit host root reference else Ok revision) = Ok revision'" and
    d: "(if digest = [] then lock_digest_from_file host root lock_file else Ok digest) = Ok digest'" and
    n': "n' = n\<lparr>pn_operation := Some (Remote target task url revision' digest' [] [] build_root manifest)\<rparr>" and m: "m \<noteq> None"
    by (auto simp: pin_node_def bind_eq_Ok Let_def)
  have "is_git_revision revision' \<and> (revision \<noteq> [] \<longrightarrow> revision' = revision)"
    using r ok n git_commit_revision by (auto split: if_splits)
  moreover have "is_sha256_digest digest' \<and> (digest \<noteq> [] \<longrightarrow> digest' = digest)"
    using d ok n lock_digest_ok [OF sha] by (auto split: if_splits)
  ultimately show ?thesis using True n n' m by (simp add: pin_of_def)
next
  case False
  with pin have "n' = n \<and> m = None"
    by (auto simp: pin_node_def is_remote_def split: option.splits Operation.splits)
  with False show ?thesis by (simp add: pin_of_def)
qed

lemma pin_nodes_ok:
  assumes sha: "sha256_law host"
  shows "(\<And>n. n \<in> set nodes \<Longrightarrow> \<exists>operation. pn_operation n = Some operation \<and> operation_ok operation) \<Longrightarrow>
    pin_nodes host root nodes acc = (Ok manifests, nodes') \<Longrightarrow>
    list_all2 pin_of nodes nodes' \<and> length manifests = length acc + length (filter is_remote nodes)"
proof (induction nodes arbitrary: acc nodes')
  case (Cons n nodes)
  from Cons.prems(2) obtain n1 m where n1: "pin_node host root n = Ok (n1, m)"
    by (auto split: outcome.splits prod.splits)
  obtain r nodes1 where rest: "pin_nodes host root nodes (acc @ (case m of Some j \<Rightarrow> [j] | None \<Rightarrow> [])) = (r, nodes1)"
    by fastforce
  from Cons.prems(2) n1 rest have r: "r = Ok manifests" "nodes' = n1 # nodes1" by auto
  from pin_node_ok [OF sha Cons.prems(1) n1] have "pin_of n n1 \<and> (m \<noteq> None \<longleftrightarrow> is_remote n)" by simp
  moreover from Cons.IH [OF Cons.prems(1) rest [unfolded r]]
  have "list_all2 pin_of nodes nodes1 \<and>
      length manifests = length (acc @ (case m of Some j \<Rightarrow> [j] | None \<Rightarrow> [])) + length (filter is_remote nodes)" by simp
  ultimately show ?case by (auto simp: r split: option.splits)
qed simp

definition node_safe :: "PlanNode \<Rightarrow> bool" where
  "node_safe n \<longleftrightarrow> set (pn_inputs n) \<subseteq> set (pn_depends_on n) \<and>
     (\<forall>d. pn_working_directory n = Some d \<longrightarrow> path_inside d) \<and> (\<forall>a \<in> set (pn_artifacts n). path_inside a) \<and>
     (\<exists>operation. pn_operation n = Some operation \<and> operation_ok operation)"

lemma planned_node_safe:
  assumes doc: "load_workflow_document host root = Ok (Some document)"
    and plan: "plan_workflow_document document mode policy sink = Ok (plan, sink')" and n: "n \<in> set (ep_nodes plan)"
  shows "node_safe n"
proof -
  note parsed = load_workflow_document_ok [OF doc]
  then have wf: "bt_wf (wd_tasks document)" by simp
  from plan have ne: "wd_tasks document \<noteq> []" by (auto simp: plan_workflow_document_def)
  from plan ne obtain roots where roots: "workflow_roots document mode = Ok roots"
    by (auto simp: plan_workflow_document_def bind_eq_Ok)
  from plan_workflow_document_cases [OF wf ne roots, of policy sink] plan obtain order g waves where
    g: "subgraph_union (synthetic_tasks document) roots = Ok g" and p: "plan = workflow_plan document roots policy order g waves"
    by auto
  from n p have "n \<in> set (List.map_filter (workflow_node document g) (node_ids g))" by (simp add: workflow_plan_def)
  from workflow_node_task [OF wf g this] parsed show ?thesis
    unfolding node_safe_def workflow_task_ok_def carries_task_def by metis
qed

lemma pin_of_remote: "pin_of n n' \<Longrightarrow> is_remote n' \<longleftrightarrow> is_remote n"
  by (auto simp: pin_of_def is_remote_def split: if_splits)

lemma pin_of_safe:
  assumes pin: "pin_of n n'" and safe: "node_safe n"
  shows "node_safe n' \<and> pinned (the (pn_operation n'))"
proof (cases "is_remote n")
  case True
  have eq: "n'\<lparr>pn_operation := pn_operation n\<rparr> = n" using pin by (simp add: pin_of_def)
  have fields: "pn_inputs n' = pn_inputs n" "pn_depends_on n' = pn_depends_on n" "pn_working_directory n' = pn_working_directory n"
    "pn_artifacts n' = pn_artifacts n"
    using arg_cong [OF eq, of pn_inputs] arg_cong [OF eq, of pn_depends_on] arg_cong [OF eq, of pn_working_directory]
      arg_cong [OF eq, of pn_artifacts] by simp_all
  from True pin obtain target task url revision digest reference lock_file build_root manifest revision' digest' where
    n: "pn_operation n = Some (Remote target task url revision digest reference lock_file build_root manifest)" and
    n': "pn_operation n' = Some (Remote target task url revision' digest' [] [] build_root manifest)" and
    pins: "is_git_revision revision'" "is_sha256_digest digest'"
    unfolding pin_of_def if_P [OF True] by blast
  have "operation_ok (Remote target task url revision digest reference lock_file build_root manifest)"
    using safe n by (auto simp: node_safe_def)
  moreover have "revision' \<noteq> []" "digest' \<noteq> []"
    using pins by (auto simp: is_git_revision_def is_sha256_digest_def strip_prefix_def)
  ultimately show ?thesis using safe n' pins fields by (simp add: node_safe_def)
next
  case False
  with pin have "n' = n" by (simp add: pin_of_def)
  obtain operation where n: "pn_operation n = Some operation" using safe by (auto simp: node_safe_def)
  with False have "pinned operation" by (cases operation) (auto simp: is_remote_def)
  with \<open>n' = n\<close> n safe show ?thesis by simp
qed

section \<open>Properties\<close>

text \<open>
  C10: A plan built from a workflow document. It is well-formed; its nodes are the selected task, or
  all tasks, and what they transitively depend on; each node carries the operation, resources,
  platform, architecture, environment, paths and inputs of its task and depends on exactly its
  \<open>depends_on\<close> tasks; roots, serial order and policy are those asked for. The waves list every
  node once, and each wave holds exactly the nodes whose dependencies all lie in earlier waves, so
  every node runs in the earliest possible wave; the loop that builds them ends and its counters do
  not underflow. The errors are an empty document, an empty selector and the errors of the serial
  planner; nothing panics.
\<close>

theorem plan_workflow_document_correct:
  assumes wf: "bt_wf (wd_tasks document)"
  shows "case plan_workflow_document document mode policy sink of
      Ok (plan, sink') \<Rightarrow> plan_wf plan \<and> waves_of_plan plan \<and> ep_failure_policy plan = policy \<and>
        ep_schema_version plan = EXECUTION_PLAN_SCHEMA_VERSION \<and> ep_argument_forwarding plan = ForwardRoot \<and>
        (\<exists>roots. workflow_roots document mode = Ok roots \<and> ep_root plan = hd roots \<and>
           ep_roots plan = (if 1 < length roots then roots else []) \<and>
           plan_serial_union (synthetic_tasks document) roots = Ok (ep_serial_order plan) \<and>
           set (plan_node_ids plan) = task_reach (synthetic_tasks document) roots \<and>
           sink' = map_option (\<lambda>l. l @ [PlanCreated (ep_root plan) (if 1 < length roots then Some roots else None)
             (length (ep_nodes plan)) None]) sink) \<and>
        (\<forall>n \<in> set (ep_nodes plan). \<exists>t. map_of (wd_tasks document) (pn_id n) = Some t \<and> carries_task n t)
    | Err e \<Rightarrow> (wd_tasks document = [] \<and> e = WorkflowInvalid WORKFLOWS_RELATIVE_PATH ''workflows document has no tasks'') \<or>
        (mode = Explicit (Some []) \<and> e = WorkflowEmptySelector) \<or>
        (\<exists>roots g. workflow_roots document mode = Ok roots \<and>
           plan_serial_union (synthetic_tasks document) roots = Err g \<and> e = WorkflowPlan g)
    | Panic \<Rightarrow> False"
proof (cases "wd_tasks document = []")
  case True
  then show ?thesis by (simp add: plan_workflow_document_def)
next
  case ne: False
  show ?thesis
  proof (cases "workflow_roots document mode")
    case (Ok roots)
    from plan_workflow_document_cases [OF wf ne Ok, of policy sink] show ?thesis
    proof (elim disjE exE conjE)
      fix order g waves
      assume order: "plan_serial_union (synthetic_tasks document) roots = Ok order"
        and g: "subgraph_union (synthetic_tasks document) roots = Ok g" and topo: "topo_order g order"
        and waves: "layers (set (node_ids g)) (\<lambda>x. set (deps_of g x)) waves" "set (concat waves) = set (node_ids g)" "distinct (concat waves)"
        and eq: "plan_workflow_document document mode policy sink =
          Ok (workflow_plan document roots policy order g waves, map_option (\<lambda>l. l @ [PlanCreated (hd roots)
            (if 1 < length roots then Some roots else None) (length (node_ids g)) None]) sink)"
      note props = workflow_plan_props [OF wf g topo waves refl, of policy]
      have len: "length (List.map_filter (workflow_node document g) (node_ids g)) = length (node_ids g)"
        using workflow_nodes(1) [OF wf g] by (metis length_map)
      show ?thesis
        unfolding eq outcome.case prod.case props(3)
        using props(1,2) Ok order subgraph_union_Ok(3) [OF g] workflow_node_task [OF wf g]
        by (simp add: workflow_plan_def len)
    qed (use Ok in simp)
  next
    case (Err e)
    then show ?thesis using ne
      by (auto simp: plan_workflow_document_def workflow_roots_def split: WorkflowPlanMode.splits option.splits if_splits)
  qed (auto simp: workflow_roots_def split: WorkflowPlanMode.splits option.splits if_splits)
qed


definition example_workflow_task :: "string list \<Rightarrow> Operation \<Rightarrow> WorkflowTask" where
  "example_workflow_task deps operation = \<lparr>wt_depends_on = deps, wt_platform = PlatformAny, wt_architecture = None,
     wt_resources = NodeResources_EMPTY, wt_environment = [], wt_working_directory = None, wt_artifacts = [], wt_inputs = [],
     wt_operation = operation\<rparr>"

definition example_workflow :: WorkflowDocument where
  "example_workflow = \<lparr>wd_schema_version = 1, wd_tasks =
     [(''fmt'', example_workflow_task [''prep''] (FlakeApp ''fmt'')),
      (''lint'', example_workflow_task [] (FlakeApp ''lint'')),
      (''prep'', example_workflow_task [] (NativeCommand [''echo'', ''prep'']))]\<rparr>"

lemma example_workflow_waves:
  "(case plan_workflow_document example_workflow IfPresent FailFast None of Ok (plan, _) \<Rightarrow> ep_waves plan | _ \<Rightarrow> []) =
     [[''lint'', ''prep''], [''fmt'']]"
  by code_simp

theorem plan_workflow_document_witness:
  "\<exists>plan sink. plan_workflow_document example_workflow IfPresent FailFast None = Ok (plan, sink) \<and>
     ep_waves plan = [[''lint'', ''prep''], [''fmt'']] \<and> waves_of_plan plan"
proof -
  have wf: "bt_wf (wd_tasks example_workflow)" by code_simp
  show ?thesis
    using plan_workflow_document_correct [OF wf, where mode = IfPresent and policy = FailFast and sink = None] example_workflow_waves
    by (auto split: outcome.splits)
qed

text \<open>
  C15: What a planned and pinned workflow runs. The plan loaded from the file and pinned keeps its
  nodes, dependencies and waves; every remote node names one commit and one lock digest, the ones
  the file states where it states them, and no symbolic reference or lock file is left; there is
  one manifest per remote node; every path a node names stays inside the workflow root; and every
  input of a node is one of its dependencies. A node that is not remote is not changed.
\<close>

theorem workflow_plan_pinned:
  assumes plan: "plan_workflows host root mode policy sink = Ok (Some plan, sink')"
    and sha: "sha256_law host"
    and pins: "resolve_plan_pins host root plan = (Ok manifests, plan')"
  shows "plan' = plan\<lparr>ep_nodes := ep_nodes plan'\<rparr> \<and> list_all2 pin_of (ep_nodes plan) (ep_nodes plan') \<and>
    length manifests = length (filter is_remote (ep_nodes plan')) \<and>
    (\<forall>n \<in> set (ep_nodes plan'). set (pn_inputs n) \<subseteq> set (pn_depends_on n) \<and>
       (\<forall>d. pn_working_directory n = Some d \<longrightarrow> path_inside d) \<and> (\<forall>a \<in> set (pn_artifacts n). path_inside a) \<and>
       (\<exists>operation. pn_operation n = Some operation \<and> operation_ok operation \<and> pinned operation))"
proof -
  obtain document where doc: "load_workflow_document host root = Ok (Some document)"
    and planned: "plan_workflow_document document mode policy sink = Ok (plan, sink')"
    using plan by (auto simp: plan_workflows_def bind_eq_Ok split: option.splits WorkflowPlanMode.splits)
  have nodes: "node_safe n" if "n \<in> set (ep_nodes plan)" for n
    by (rule planned_node_safe [OF doc planned that])
  obtain nodes' where pn: "pin_nodes host root (ep_nodes plan) [] = (Ok manifests, nodes')" and p': "plan' = plan\<lparr>ep_nodes := nodes'\<rparr>"
    using pins by (auto simp: resolve_plan_pins_def split: prod.splits)
  have pin: "list_all2 pin_of (ep_nodes plan) nodes'" "length manifests = length (filter is_remote (ep_nodes plan))"
    using pin_nodes_ok [OF sha _ pn] nodes by (auto simp: node_safe_def)
  moreover have "length (filter is_remote nodes') = length (filter is_remote (ep_nodes plan))"
    using pin(1) by (induction rule: list_all2_induct) (auto simp: pin_of_remote)
  moreover have "\<forall>n \<in> set nodes'. node_safe n \<and> pinned (the (pn_operation n))"
  proof
    fix n assume "n \<in> set nodes'"
    then obtain i where "i < length nodes'" "n = nodes' ! i" by (auto simp: in_set_conv_nth)
    with pin(1) have "ep_nodes plan ! i \<in> set (ep_nodes plan)" "pin_of (ep_nodes plan ! i) n"
      by (auto simp: list_all2_conv_all_nth)
    with pin_of_safe nodes show "node_safe n \<and> pinned (the (pn_operation n))" by blast
  qed
  ultimately show ?thesis by (auto simp: p' node_safe_def)
qed

text \<open>A remote that follows a branch and a lock file, on a host whose \<open>git\<close> resolves every reference.\<close>

definition example_remote :: WorkflowRemoteFile where
  "example_remote = \<lparr>wr_target = ''builder'', wr_task = ''link'', wr_source_url = ''https://example.org/repo'',
     wr_source_revision = [], wr_lock_digest = [], wr_source_ref = ''main'', wr_lock_file = ''flake.lock'',
     wr_build_root = [], wr_manifest = []\<rparr>"

definition example_task_file :: WorkflowTaskFile where
  "example_task_file = \<lparr>wtf_depends_on = [], wtf_platform = Some ''linux'', wtf_architecture = None, wtf_resources = None,
     wtf_env = [], wtf_working_directory = None, wtf_artifacts = [''out/app''], wtf_inputs = [],
     wtf_executor = \<lparr>we_flake = None, we_native = None, we_winbuild = None, we_remote = Some example_remote\<rparr>\<rparr>"

definition example_host :: WorkflowHost where
  "example_host = \<lparr>toml_from_str = \<lambda>_. Ok \<lparr>wf_schema_version = 1, wf_tasks = [(''link'', example_task_file)]\<rparr>,
     path_exists = \<lambda>_. True, path_is_file = \<lambda>_. True, read_to_string = \<lambda>_. Ok [], read_bytes = \<lambda>_. Ok ''{}'',
     git_output = \<lambda>_ _. Ok (True, replicate 40 (CHR ''a''), []), json_from_slice = \<lambda>_. None,
     sha256_hex = \<lambda>_. replicate 64 (CHR ''0'')\<rparr>"

lemma example_host_pins:
  "(case plan_workflows example_host ''repo'' IfPresent FailFast None of
      Ok (Some plan, None) \<Rightarrow> (case resolve_plan_pins example_host ''repo'' plan of (Ok ms, _) \<Rightarrow> length ms = 1 | _ \<Rightarrow> False)
    | _ \<Rightarrow> False)"
  by code_simp

theorem workflow_plan_pinned_witness:
  "\<exists>plan plan' manifests. plan_workflows example_host ''repo'' IfPresent FailFast None = Ok (Some plan, None) \<and>
     resolve_plan_pins example_host ''repo'' plan = (Ok manifests, plan') \<and> length manifests = 1 \<and>
     length (filter is_remote (ep_nodes plan')) = 1"
proof -
  have sha: "sha256_law example_host"
    by (simp add: sha256_law_def example_host_def is_hexdigit_def is_ascii_digit_def list_all_iff)
  obtain p sink where "plan_workflows example_host ''repo'' IfPresent FailFast None = Ok (p, sink)"
    using example_host_pins by (cases "plan_workflows example_host ''repo'' IfPresent FailFast None") auto
  with example_host_pins obtain plan where plan: "plan_workflows example_host ''repo'' IfPresent FailFast None = Ok (Some plan, None)"
    by (cases p; cases sink) auto
  obtain r plan' where "resolve_plan_pins example_host ''repo'' plan = (r, plan')" by fastforce
  with plan example_host_pins obtain manifests where
    pins: "resolve_plan_pins example_host ''repo'' plan = (Ok manifests, plan')" "length manifests = 1"
    by (cases r) auto
  have "length manifests = length (filter is_remote (ep_nodes plan'))"
    using workflow_plan_pinned [OF plan sha pins(1)] by blast
  with pins(2) have "length (filter is_remote (ep_nodes plan')) = 1" by simp
  with plan pins show ?thesis by blast
qed

text \<open>
  Unlike task documents, workflow files are not checked for memory quantities that do not parse:
  the demand silently becomes zero.
\<close>

lemma workflow_memory_ignored:
  "\<exists>t. parse_workflow_task ''p'' ''big'' (example_task_file\<lparr>wtf_resources :=
       Some \<lparr>tr_cpu = None, tr_memory = Some ''lots'', tr_io = None, tr_network = None, tr_exclusive = []\<rparr>\<rparr>) = Ok t \<and>
     nr_memory_bytes (wt_resources t) = 0"
proof -
  let ?r = "\<lparr>tr_cpu = None, tr_memory = Some ''lots'', tr_io = None, tr_network = None, tr_exclusive = []\<rparr>"
  have op: "operation_from_executor ''big'' (wtf_executor example_task_file) = Ok (Remote ''builder'' ''link''
      ''https://example.org/repo'' [] [] ''main'' ''flake.lock'' [] [])" by code_simp
  have "validate_relative_paths ''big'' None [''out/app''] = Ok ()" "validate_task_name ''big'' = Ok ()" "platform_parse ''linux'' = Some PlatformLinux"
    by code_simp+
  moreover have "memory_or_zero (Some ''lots'') = 0"
    by (simp add: memory_or_zero_def parse_memory_def trim_id ascii_graph_def split_digits_unit_def is_ascii_digit_def memory_error_def Let_def)
  ultimately show ?thesis
    using op by (simp add: parse_workflow_task_def example_task_file_def from_task_resources_def Let_def)
qed

end
