(* ===== verification/Rust_State.thy ===== *)
theory Rust_State
  imports Rust_Prelude
begin

text \<open>
  Operations that change a state and may fail: sequencing with early return,
  the loop over a list, an ignored result, and triples that say what every
  result and every failure leaves.
\<close>

type_synonym ('s, 'e, 'a) state_op = "'s \<Rightarrow> ('e, 'a) outcome \<times> 's"

definition op_bind :: "('s, 'e, 'a) state_op \<Rightarrow> ('a \<Rightarrow> ('s, 'e, 'b) state_op) \<Rightarrow> ('s, 'e, 'b) state_op" where
  "op_bind m f d = (case m d of
       (Ok x, d1) \<Rightarrow> f x d1
     | (Err e, d1) \<Rightarrow> (Err e, d1)
     | (Panic, d1) \<Rightarrow> (Panic, d1))"

definition op_lift :: "('e, 'a) outcome \<Rightarrow> ('s, 'e, 'a) state_op" where
  "op_lift r d = (r, d)"

text \<open>\<open>let _ = ...\<close>: the failure is dropped.\<close>

definition ignore_result :: "('s, 'e, 'a) state_op \<Rightarrow> ('s, 'f, unit) state_op" where
  "ignore_result m d = (Ok (), snd (m d))"

fun op_each :: "('a \<Rightarrow> ('s, 'e, unit) state_op) \<Rightarrow> 'a list \<Rightarrow> ('s, 'e, unit) state_op" where
  "op_each f [] = op_lift (Ok ())"
| "op_each f (x # xs) = op_bind (f x) (\<lambda>_. op_each f xs)"

lemma op_bind_Ok [simp]: "op_bind (op_lift (Ok x)) f = f x"
  by (simp add: op_bind_def op_lift_def fun_eq_iff)

lemma op_bind_Err [simp]: "op_bind (op_lift (Err e)) f = op_lift (Err e)"
  by (simp add: op_bind_def op_lift_def fun_eq_iff)

lemma op_bind_result: "op_bind m f s = (Ok y, s2) \<longleftrightarrow> (\<exists>x s1. m s = (Ok x, s1) \<and> f x s1 = (Ok y, s2))"
  by (auto simp: op_bind_def split: prod.splits outcome.splits)

lemma op_bind_at: "op_bind (\<lambda>s. m s s) f s = op_bind (m s) f s"
  by (simp add: op_bind_def)

text \<open>From \<open>P\<close>, a result satisfies \<open>Q\<close> and every error or panic leaves \<open>E\<close>.\<close>

definition triple ::
  "('s \<Rightarrow> bool) \<Rightarrow> ('s, 'e, 'a) state_op \<Rightarrow> ('a \<Rightarrow> 's \<Rightarrow> bool) \<Rightarrow> ('s \<Rightarrow> bool) \<Rightarrow> bool" where
  "triple P m Q E \<longleftrightarrow> (\<forall>d. P d \<longrightarrow> (case m d of (Ok x, d1) \<Rightarrow> Q x d1 | (_, d1) \<Rightarrow> E d1))"

lemma tripleI:
  "(\<And>d. P d \<Longrightarrow> case m d of (Ok x, d1) \<Rightarrow> Q x d1 | (_, d1) \<Rightarrow> E d1) \<Longrightarrow> triple P m Q E"
  by (simp add: triple_def)

lemma triple_bind:
  "triple P m Q E \<Longrightarrow> (\<And>x. triple (Q x) (f x) R E) \<Longrightarrow> triple P (op_bind m f) R E"
  unfolding triple_def op_bind_def by (fastforce split: prod.splits outcome.splits)

lemma triple_conseq:
  "triple P m Q E \<Longrightarrow> (\<And>d. P' d \<Longrightarrow> P d) \<Longrightarrow> (\<And>x d. Q x d \<Longrightarrow> Q' x d) \<Longrightarrow> (\<And>d. E d \<Longrightarrow> E' d) \<Longrightarrow>
   triple P' m Q' E'"
  unfolding triple_def by (fastforce split: prod.splits outcome.splits)

lemma triple_lift:
  "(\<And>d x. P d \<Longrightarrow> r = Ok x \<Longrightarrow> Q x d) \<Longrightarrow> (\<And>d. P d \<Longrightarrow> E d) \<Longrightarrow> triple P (op_lift r) Q E"
  unfolding triple_def op_lift_def by (cases r) auto

lemma triple_ignore: "triple P m (\<lambda>_. Q) Q \<Longrightarrow> triple P (ignore_result m) (\<lambda>_. Q) E"
  unfolding triple_def ignore_result_def by (fastforce split: prod.splits outcome.splits)

lemma triple_eq: "triple P m Q E = (\<forall>d. P d \<longrightarrow> triple (\<lambda>x. x = d) m Q E)"
  by (simp add: triple_def)

lemma triple_pre: "(\<And>d. P d \<Longrightarrow> triple (\<lambda>x. x = d) m Q E) \<Longrightarrow> triple P m Q E"
  by (simp add: triple_def)

lemma triple_Ok: "triple P m Q E \<Longrightarrow> P d \<Longrightarrow> m d = (Ok x, d1) \<Longrightarrow> Q x d1"
  unfolding triple_def by fastforce

lemma triple_snd: "triple P m (\<lambda>_. Q) Q \<Longrightarrow> P d \<Longrightarrow> Q (snd (m d))"
  unfolding triple_def by (fastforce split: prod.splits outcome.splits)

lemma triple_each:
  "(\<And>x. x \<in> set xs \<Longrightarrow> triple P (f x) (\<lambda>_. P) P) \<Longrightarrow> triple P (op_each f xs) (\<lambda>_. P) P"
  by (induction xs) (auto intro!: triple_bind triple_lift)

end
