(* ===== verification/Durable_Run.thy ===== *)
theory Durable_Run
  imports Plan_Exec Events Rust_State
begin

text \<open>
  Durable run metadata of \<open>crates/nxr-core/src/durable_run.rs\<close>: the append-only
  journal of one run, the snapshot materialised from it, and the supervisor's
  start and terminal transitions.  The files of a run are a record of their
  contents; every file system call asks the host, by the kind and number of the
  call, whether it succeeds and, for a write that fails, how many bytes got
  out.  A process death is a call that fails with nothing run after it.
  Printing and parsing of JSON and the clock are arguments.
\<close>

section \<open>Records\<close>

definition DURABLE_RUN_SCHEMA_VERSION :: u32 where
  "DURABLE_RUN_SCHEMA_VERSION = 1"

definition OPERATION_IR_SCHEMA_VERSION :: u32 where
  "OPERATION_IR_SCHEMA_VERSION = 1"

record OperationIrEnvelope =
  oe_schema_version :: u32
  oe_operation :: Operation

definition OperationIrEnvelope_new :: "Operation \<Rightarrow> OperationIrEnvelope" where
  "OperationIrEnvelope_new op = \<lparr>oe_schema_version = OPERATION_IR_SCHEMA_VERSION, oe_operation = op\<rparr>"

datatype DurableRunStatus = RunPending | RunRunning | RunStSucceeded | RunStFailed | RunStCancelled

record DurableRunRecord =
  dr_schema_version :: u32
  dr_run_id :: string
  dr_status :: DurableRunStatus
  dr_created_at :: u64
  dr_operation :: OperationIrEnvelope
  dr_event_sequence :: u64
  dr_exit_code :: "i32 option"
  dr_attempt_transition_id :: "string option"

record DurableRunJournalLine =
  jl_sequence :: u64
  jl_kind :: string
  jl_at :: u64
  jl_status :: "DurableRunStatus option"
  jl_exit_code :: "i32 option"
  jl_command :: "string list option"
  jl_transition_id :: "string option"

definition bump_event_sequence :: "DurableRunRecord \<Rightarrow> DurableRunRecord" where
  "bump_event_sequence r = r\<lparr>dr_event_sequence := saturating_add (dr_event_sequence r) 1\<rparr>"

record HubPreview =
  hp_schema_version :: u32
  hp_run_id :: string
  hp_status :: DurableRunStatus
  hp_operation :: string

definition hub_inspector_operation_preview :: "DurableRunRecord \<Rightarrow> HubPreview" where
  "hub_inspector_operation_preview r =
     \<lparr>hp_schema_version = OPERATION_IR_SCHEMA_VERSION, hp_run_id = dr_run_id r, hp_status = dr_status r,
      hp_operation = operation_kind (oe_operation (dr_operation r))\<rparr>"

section \<open>Files and file system calls\<close>

datatype io_kind = InvalidInput | InvalidData | NotFound | OtherIo

datatype io_error = IoError io_kind string

datatype io_call =
  CreateDir | OpenLock | LockFile | ReadFile | CreateFile | OpenAppend | WriteBody | WriteNewline
| SyncFile | RenameFile | RemoveFile

text \<open>A failed write of \<open>n\<close> bytes has put a proper prefix of its data into the file.\<close>

datatype io_outcome = IoDone | IoFail io_error nat

record DurableFiles =
  df_snapshot :: "string option"
  df_journal :: "string option"
  df_tail :: "string option"
  df_lock :: bool
  df_calls :: nat

record DurableHost =
  dh_io :: "io_call \<Rightarrow> nat \<Rightarrow> io_outcome"
  dh_now :: "nat \<Rightarrow> u64"
  dh_line_json :: "DurableRunJournalLine \<Rightarrow> (string, string) outcome"
  dh_line_parse :: "string \<Rightarrow> (string, DurableRunJournalLine) outcome"
  dh_record_json :: "DurableRunRecord \<Rightarrow> (string, string) outcome"
  dh_record_parse :: "string \<Rightarrow> (string, DurableRunRecord) outcome"

type_synonym 'a file_op = "(DurableFiles, io_error, 'a) state_op"

text \<open>A call with no effect on the files of the run but its own success or failure.\<close>

definition sys :: "DurableHost \<Rightarrow> io_call \<Rightarrow> unit file_op" where
  "sys H c d = (case dh_io H c (df_calls d) of
       IoDone \<Rightarrow> (Ok (), d\<lparr>df_calls := Suc (df_calls d)\<rparr>)
     | IoFail e _ \<Rightarrow> (Err e, d\<lparr>df_calls := Suc (df_calls d)\<rparr>))"

text \<open>A call that changes the files when it succeeds.\<close>

definition sys_set :: "DurableHost \<Rightarrow> io_call \<Rightarrow> (DurableFiles \<Rightarrow> DurableFiles) \<Rightarrow> unit file_op" where
  "sys_set H c f = op_bind (sys H c) (\<lambda>_ d. (Ok (), f d))"

text \<open>\<open>write_all\<close>: all of the data, or a proper prefix of it and an error.\<close>

definition write_all ::
  "DurableHost \<Rightarrow> io_call \<Rightarrow> (string \<Rightarrow> DurableFiles \<Rightarrow> DurableFiles) \<Rightarrow> string \<Rightarrow> unit file_op" where
  "write_all H c put s d = (let d1 = d\<lparr>df_calls := Suc (df_calls d)\<rparr> in
     case dh_io H c (df_calls d) of
       IoDone \<Rightarrow> (Ok (), put s d1)
     | IoFail e n \<Rightarrow> (Err e, put (take (min n (length s - 1)) s) d1))"

definition append_journal :: "string \<Rightarrow> DurableFiles \<Rightarrow> DurableFiles" where
  "append_journal s d = d\<lparr>df_journal := Some (case df_journal d of None \<Rightarrow> s | Some t \<Rightarrow> t @ s)\<rparr>"

definition append_tail :: "string \<Rightarrow> DurableFiles \<Rightarrow> DurableFiles" where
  "append_tail s d = d\<lparr>df_tail := Some (case df_tail d of None \<Rightarrow> s | Some t \<Rightarrow> t @ s)\<rparr>"

text \<open>\<open>fs::read_to_string\<close>: a missing file, and bytes that are not UTF-8, are errors.\<close>

definition read_text :: "DurableHost \<Rightarrow> (DurableFiles \<Rightarrow> string option) \<Rightarrow> string file_op" where
  "read_text H sel = op_bind (sys H ReadFile) (\<lambda>_ d.
     (case sel d of
        None \<Rightarrow> Err (IoError NotFound ''No such file or directory'')
      | Some t \<Rightarrow> if valid_utf8 t then Ok t
                   else Err (IoError InvalidData ''stream did not contain valid UTF-8''), d))"

text \<open>The match on a read that treats a missing file apart from other errors.\<close>

definition read_or_missing :: "'a file_op \<Rightarrow> ('a \<Rightarrow> 'b file_op) \<Rightarrow> 'b file_op \<Rightarrow> 'b file_op" where
  "read_or_missing m found absent d = (case m d of
       (Ok t, d1) \<Rightarrow> found t d1
     | (Err (IoError k s), d1) \<Rightarrow> if k = NotFound then absent d1 else (Err (IoError k s), d1)
     | (Panic, d1) \<Rightarrow> (Panic, d1))"

definition io_data :: "(string, 'a) outcome \<Rightarrow> (io_error, 'a) outcome" where
  "io_data r = map_err (IoError InvalidData) r"

section \<open>Run ids, records, transition ids\<close>

definition validate_run_id :: "string \<Rightarrow> (io_error, unit) outcome" where
  "validate_run_id run_id =
     (if run_id = [] \<or> str_contains run_id ''/'' \<or> str_contains run_id ''..''
      then Err (IoError InvalidInput ''run id is not a session name'') else Ok ())"

definition DurableRunRecord_pending :: "DurableHost \<Rightarrow> string \<Rightarrow> Operation \<Rightarrow> DurableFiles \<Rightarrow> DurableRunRecord" where
  "DurableRunRecord_pending H run_id op d =
     \<lparr>dr_schema_version = DURABLE_RUN_SCHEMA_VERSION, dr_run_id = run_id, dr_status = RunPending,
      dr_created_at = dh_now H (df_calls d), dr_operation = OperationIrEnvelope_new op,
      dr_event_sequence = 0, dr_exit_code = None, dr_attempt_transition_id = None\<rparr>"

definition new_supervisor_attempt_transition_id :: "string \<Rightarrow> u64 \<Rightarrow> string" where
  "new_supervisor_attempt_transition_id run_id sequence =
     ''supervisor_attempt:'' @ run_id @ '':'' @ show_nat (unat sequence)"

text \<open>\<open>Iterator::max_by_key\<close>: the last of the elements with the largest key.\<close>

fun max_by_key :: "('a \<Rightarrow> 'k::linorder) \<Rightarrow> 'a list \<Rightarrow> 'a option" where
  "max_by_key f [] = None"
| "max_by_key f (x # xs) = Some (fold (\<lambda>y best. if f best \<le> f y then y else best) xs x)"

definition supervisor_attempt_transition_id_from_journal :: "DurableRunJournalLine list \<Rightarrow> string option" where
  "supervisor_attempt_transition_id_from_journal ls =
     (case max_by_key jl_sequence (filter (\<lambda>l. jl_kind l = ''supervisor_started'') ls) of
        None \<Rightarrow> None
      | Some l \<Rightarrow> (case jl_transition_id l of
          Some t \<Rightarrow> Some t
        | None \<Rightarrow> Some (''supervisor_attempt:legacy:'' @ show_nat (unat (jl_sequence l)))))"

section \<open>Locking\<close>

text \<open>
  The lock serialises writers of one run, so a body under the lock is one step
  of the model; the failures of taking it and the ignored failure of giving it
  back are kept.
\<close>

definition with_run_lock :: "DurableHost \<Rightarrow> string \<Rightarrow> 'a file_op \<Rightarrow> 'a file_op" where
  "with_run_lock H run_id body =
     op_bind (op_lift (validate_run_id run_id)) (\<lambda>_.
     op_bind (sys H CreateDir) (\<lambda>_.
     op_bind (sys_set H OpenLock (\<lambda>d. d\<lparr>df_lock := True\<rparr>)) (\<lambda>_.
     op_bind (sys H LockFile) (\<lambda>_. body))))"

section \<open>Reading the journal\<close>

definition split_physical_journal_lines :: "string \<Rightarrow> string list \<times> bool" where
  "split_physical_journal_lines t =
     (if t = [] then ([], False)
      else let ends = (last t = nl);
               ls = split_on nl t;
               ls' = (if ends \<and> last ls = [] then butlast ls else ls)
           in (ls', \<not> ends))"

fun parse_journal_lines :: "DurableHost \<Rightarrow> string list \<Rightarrow> (io_error, DurableRunJournalLine list) outcome" where
  "parse_journal_lines H [] = Ok []"
| "parse_journal_lines H (s # ss) =
     bind (map_err (\<lambda>e. IoError InvalidData (''corrupt durable run journal line: '' @ e)) (dh_line_parse H s)) (\<lambda>l.
     bind (parse_journal_lines H ss) (\<lambda>ls. Ok (l # ls)))"

definition quarantine_truncated_journal_tail :: "DurableHost \<Rightarrow> string \<Rightarrow> string \<Rightarrow> unit file_op" where
  "quarantine_truncated_journal_tail H run_id bad =
     op_bind (sys_set H CreateFile (\<lambda>d. d\<lparr>df_tail := Some []\<rparr>)) (\<lambda>_.
     write_all H WriteBody append_tail
       (''run_id='' @ run_id @ [nl] @ ''--- truncated tail ---'' @ [nl] @ bad @ [nl]))"

fun journal_body :: "DurableHost \<Rightarrow> DurableRunJournalLine list \<Rightarrow> (string, string) outcome" where
  "journal_body H [] = Ok []"
| "journal_body H (l # ls) =
     bind (dh_line_json H l) (\<lambda>s. bind (journal_body H ls) (\<lambda>t. Ok (s @ [nl] @ t)))"

text \<open>The temporary file is written whole before the rename puts it in place.\<close>

definition rewrite_journal_file_locked :: "DurableHost \<Rightarrow> DurableRunJournalLine list \<Rightarrow> unit file_op" where
  "rewrite_journal_file_locked H ls =
     (if ls = [] then (\<lambda>d. (Ok (), snd (sys_set H RemoveFile (\<lambda>d. d\<lparr>df_journal := None\<rparr>) d)))
      else op_bind (op_lift (io_data (journal_body H ls))) (\<lambda>body.
           op_bind (sys H CreateFile) (\<lambda>_.
           op_bind (sys H WriteBody) (\<lambda>_.
           op_bind (sys H SyncFile) (\<lambda>_.
           sys_set H RenameFile (\<lambda>d. d\<lparr>df_journal := Some body\<rparr>))))))"

definition rewrite_journal_file :: "DurableHost \<Rightarrow> string \<Rightarrow> DurableRunJournalLine list \<Rightarrow> bool \<Rightarrow> unit file_op" where
  "rewrite_journal_file H run_id ls under_run_lock =
     (if under_run_lock then rewrite_journal_file_locked H ls
      else with_run_lock H run_id (rewrite_journal_file_locked H ls))"

text \<open>
  The text is an argument of its own, as in the code: a reader that does not
  hold the lock parses, and repairs with, a text the file may no longer have.
\<close>

definition parse_journal_text ::
  "DurableHost \<Rightarrow> string \<Rightarrow> string \<Rightarrow> bool \<Rightarrow> DurableRunJournalLine list file_op" where
  "parse_journal_text H run_id t under_run_lock =
     (let (lines, unterminated) = split_physical_journal_lines t;
          physical = filter (\<lambda>s. trim s \<noteq> []) lines
      in if physical = [] then op_lift (Ok [])
         else if unterminated then
           op_bind (op_lift (parse_journal_lines H (butlast physical))) (\<lambda>parsed.
             case dh_line_parse H (last physical) of
               Ok l \<Rightarrow> op_lift (Ok (parsed @ [l]))
             | Err _ \<Rightarrow>
                 op_bind (quarantine_truncated_journal_tail H run_id (last physical)) (\<lambda>_.
                 op_bind (rewrite_journal_file H run_id parsed under_run_lock) (\<lambda>_.
                 op_lift (Ok parsed)))
             | Panic \<Rightarrow> op_lift Panic)
         else op_lift (parse_journal_lines H physical))"

definition read_journal_lines_impl :: "DurableHost \<Rightarrow> string \<Rightarrow> bool \<Rightarrow> DurableRunJournalLine list file_op" where
  "read_journal_lines_impl H run_id under_run_lock =
     op_bind (op_lift (validate_run_id run_id)) (\<lambda>_.
     read_or_missing (read_text H df_journal)
       (\<lambda>t. parse_journal_text H run_id t under_run_lock)
       (op_lift (Ok [])))"

definition next_journal_sequence_under_run_lock :: "DurableHost \<Rightarrow> string \<Rightarrow> u64 file_op" where
  "next_journal_sequence_under_run_lock H run_id =
     op_bind (read_journal_lines_impl H run_id True) (\<lambda>ls.
     op_lift (Ok (saturating_add (fold max (map jl_sequence ls) 0) 1)))"

section \<open>Rebuilding the record\<close>

definition apply_journal_tail_to_record :: "DurableRunRecord \<Rightarrow> DurableRunJournalLine list \<Rightarrow> DurableRunRecord" where
  "apply_journal_tail_to_record r ls = (case max_by_key jl_sequence ls of
       None \<Rightarrow> r
     | Some l \<Rightarrow>
         let r1 = (if dr_event_sequence r < jl_sequence l
                   then r\<lparr>dr_event_sequence := jl_sequence l,
                          dr_status := (case jl_status l of Some s \<Rightarrow> s | None \<Rightarrow> dr_status r),
                          dr_exit_code := (if jl_exit_code l \<noteq> None then jl_exit_code l else dr_exit_code r)\<rparr>
                   else r)
         in if dr_attempt_transition_id r1 = None
            then r1\<lparr>dr_attempt_transition_id := supervisor_attempt_transition_id_from_journal ls\<rparr>
            else r1)"

definition materialize_record_from_journal_lines ::
  "DurableHost \<Rightarrow> string \<Rightarrow> DurableRunJournalLine list \<Rightarrow> DurableRunRecord file_op" where
  "materialize_record_from_journal_lines H run_id ls d = (case max_by_key jl_sequence ls of
       None \<Rightarrow> (Err (IoError NotFound ''durable run record missing''), d)
     | Some l \<Rightarrow>
         let started = Option.bind (find (\<lambda>l. jl_kind l = ''supervisor_started'') ls) jl_command;
             argv = (case started of Some c \<Rightarrow> c | None \<Rightarrow> []);
             r = DurableRunRecord_pending H run_id (NativeCommand argv) d
         in (Ok (r\<lparr>dr_status := (case jl_status l of Some s \<Rightarrow> s | None \<Rightarrow> RunRunning),
                   dr_exit_code := jl_exit_code l,
                   dr_event_sequence := jl_sequence l,
                   dr_created_at := jl_at (hd ls),
                   dr_attempt_transition_id := supervisor_attempt_transition_id_from_journal ls\<rparr>), d))"

definition load_record :: "DurableHost \<Rightarrow> string \<Rightarrow> bool \<Rightarrow> DurableRunRecord file_op" where
  "load_record H run_id under_run_lock =
     op_bind (op_lift (validate_run_id run_id)) (\<lambda>_.
     read_or_missing (read_text H df_snapshot)
       (\<lambda>t. op_bind (op_lift (io_data (dh_record_parse H t))) (\<lambda>r.
             op_bind (read_journal_lines_impl H run_id under_run_lock) (\<lambda>ls.
             op_lift (Ok (apply_journal_tail_to_record r ls)))))
       (op_bind (read_journal_lines_impl H run_id under_run_lock) (\<lambda>ls.
        materialize_record_from_journal_lines H run_id ls)))"

definition load_durable_run :: "DurableHost \<Rightarrow> string \<Rightarrow> DurableRunRecord file_op" where
  "load_durable_run H run_id = load_record H run_id False"

definition load_durable_run_or_default_under_run_lock :: "DurableHost \<Rightarrow> string \<Rightarrow> DurableRunRecord file_op" where
  "load_durable_run_or_default_under_run_lock H run_id = load_record H run_id True"

section \<open>Writing\<close>

definition append_journal_line :: "DurableHost \<Rightarrow> string \<Rightarrow> DurableRunJournalLine \<Rightarrow> unit file_op" where
  "append_journal_line H run_id line =
     op_bind (op_lift (validate_run_id run_id)) (\<lambda>_.
     op_bind (sys H CreateDir) (\<lambda>_.
     op_bind (op_lift (io_data (dh_line_json H line))) (\<lambda>body.
     op_bind (sys_set H OpenAppend (append_journal [])) (\<lambda>_.
     op_bind (write_all H WriteBody append_journal body) (\<lambda>_.
     op_bind (write_all H WriteNewline append_journal [nl]) (\<lambda>_.
     sys H SyncFile))))))"

definition write_atomic_json :: "DurableHost \<Rightarrow> DurableRunRecord \<Rightarrow> unit file_op" where
  "write_atomic_json H r =
     op_bind (op_lift (io_data (dh_record_json H r))) (\<lambda>body.
     op_bind (sys H WriteBody) (\<lambda>_.
     sys_set H RenameFile (\<lambda>d. d\<lparr>df_snapshot := Some body\<rparr>)))"

definition store_durable_run :: "DurableHost \<Rightarrow> DurableRunRecord \<Rightarrow> unit file_op" where
  "store_durable_run H r =
     op_bind (op_lift (validate_run_id (dr_run_id r))) (\<lambda>_.
     op_bind (sys H CreateDir) (\<lambda>_. write_atomic_json H r))"

definition started_line :: "u64 \<Rightarrow> u64 \<Rightarrow> string list \<Rightarrow> string \<Rightarrow> DurableRunJournalLine" where
  "started_line sequence now command t =
     \<lparr>jl_sequence = sequence, jl_kind = ''supervisor_started'', jl_at = now, jl_status = Some RunRunning,
      jl_exit_code = None, jl_command = Some command, jl_transition_id = Some t\<rparr>"

text \<open>The two bodies run under the lock.\<close>

definition start_under_run_lock :: "DurableHost \<Rightarrow> string \<Rightarrow> string list \<Rightarrow> unit file_op" where
  "start_under_run_lock H run_id command d0 =
     (let r0 = (DurableRunRecord_pending H run_id (NativeCommand command) d0)\<lparr>dr_status := RunRunning\<rparr> in
      op_bind (next_journal_sequence_under_run_lock H run_id) (\<lambda>sequence.
      let t = new_supervisor_attempt_transition_id run_id sequence;
          r1 = r0\<lparr>dr_attempt_transition_id := Some t\<rparr>
      in op_bind (\<lambda>d. append_journal_line H run_id (started_line sequence (dh_now H (df_calls d)) command t) d) (\<lambda>_.
         store_durable_run H (r1\<lparr>dr_event_sequence := sequence\<rparr>))) d0)"

definition sync_supervisor_started :: "DurableHost \<Rightarrow> string \<Rightarrow> string list \<Rightarrow> unit file_op" where
  "sync_supervisor_started H run_id command =
     op_bind (op_lift (validate_run_id run_id)) (\<lambda>_.
     with_run_lock H run_id (start_under_run_lock H run_id command))"

definition terminal_line ::
  "u64 \<Rightarrow> u64 \<Rightarrow> DurableRunStatus \<Rightarrow> i32 option \<Rightarrow> string \<Rightarrow> DurableRunJournalLine" where
  "terminal_line sequence now st code t =
     \<lparr>jl_sequence = sequence, jl_kind = ''supervisor_terminal'', jl_at = now, jl_status = Some st,
      jl_exit_code = code, jl_command = None, jl_transition_id = Some t\<rparr>"

definition is_terminal_of :: "string \<Rightarrow> DurableRunJournalLine \<Rightarrow> bool" where
  "is_terminal_of t l \<longleftrightarrow> jl_kind l = ''supervisor_terminal'' \<and> jl_transition_id l = Some t"

definition terminal_under_run_lock ::
  "DurableHost \<Rightarrow> string \<Rightarrow> DurableRunStatus \<Rightarrow> i32 option \<Rightarrow> unit file_op" where
  "terminal_under_run_lock H run_id st code =
     op_bind (load_durable_run_or_default_under_run_lock H run_id) (\<lambda>r.
     op_bind (read_journal_lines_impl H run_id True) (\<lambda>ls.
     op_bind (op_lift (ok_or (IoError InvalidData ''supervisor attempt transition id missing'')
                (case dr_attempt_transition_id r of
                   Some t \<Rightarrow> Some t | None \<Rightarrow> supervisor_attempt_transition_id_from_journal ls))) (\<lambda>t.
     let r1 = r\<lparr>dr_status := st, dr_exit_code := code, dr_attempt_transition_id := Some t\<rparr>
     in case find (is_terminal_of t) ls of
          Some l \<Rightarrow> store_durable_run H (r1\<lparr>dr_event_sequence := jl_sequence l\<rparr>)
        | None \<Rightarrow>
            op_bind (next_journal_sequence_under_run_lock H run_id) (\<lambda>sequence.
            op_bind (\<lambda>d. append_journal_line H run_id (terminal_line sequence (dh_now H (df_calls d)) st code t) d) (\<lambda>_.
            store_durable_run H (r1\<lparr>dr_event_sequence := sequence\<rparr>))))))"

definition sync_supervisor_terminal ::
  "DurableHost \<Rightarrow> string \<Rightarrow> DurableRunStatus \<Rightarrow> i32 option \<Rightarrow> unit file_op" where
  "sync_supervisor_terminal H run_id st code =
     op_bind (op_lift (validate_run_id run_id)) (\<lambda>_.
     with_run_lock H run_id (terminal_under_run_lock H run_id st code))"

definition sync_supervisor_terminal_with_reconcile ::
  "DurableHost \<Rightarrow> string \<Rightarrow> DurableRunStatus \<Rightarrow> i32 option \<Rightarrow> unit file_op" where
  "sync_supervisor_terminal_with_reconcile H run_id st code d =
     (case sync_supervisor_terminal H run_id st code d of
        (Ok _, d1) \<Rightarrow> (Ok (), d1)
      | (Err _, d1) \<Rightarrow> sync_supervisor_terminal H run_id st code d1
      | (Panic, d1) \<Rightarrow> (Panic, d1))"

definition remove_durable_run_artifacts :: "DurableHost \<Rightarrow> string \<Rightarrow> unit file_op" where
  "remove_durable_run_artifacts H run_id =
     (if validate_run_id run_id \<noteq> Ok () then op_lift (Ok ())
      else op_bind (ignore_result (sys_set H RemoveFile (\<lambda>d. d\<lparr>df_snapshot := None\<rparr>))) (\<lambda>_.
           op_bind (ignore_result (sys_set H RemoveFile (\<lambda>d. d\<lparr>df_journal := None\<rparr>))) (\<lambda>_.
           ignore_result (sys_set H RemoveFile (\<lambda>d. d\<lparr>df_lock := False\<rparr>)))))"

end
