(* ===== verification/Durable_Journal.thy ===== *)
theory Durable_Journal
  imports Durable_Run
begin

text \<open>
  What the journal of a durable run keeps under every schedule of failures: a
  small logic of file operations, the text of committed lines and its recovery,
  and the invariant of the journal over any sequence of transitions.
\<close>

section \<open>A logic of file operations\<close>

text \<open>A property of the files that no call number changes.\<close>

definition stable :: "(DurableFiles \<Rightarrow> bool) \<Rightarrow> bool" where
  "stable P \<longleftrightarrow> (\<forall>d n b t. P d \<longrightarrow> P (d\<lparr>df_calls := n, df_lock := b, df_tail := t\<rparr>))"

lemma stableD: "stable P \<Longrightarrow> P d \<Longrightarrow> P (d\<lparr>df_calls := n, df_lock := b, df_tail := t\<rparr>)"
  by (simp add: stable_def)

lemma stable_calls: "stable P \<Longrightarrow> P d \<Longrightarrow> P (d\<lparr>df_calls := n\<rparr>)"
  using stableD [where P = P and d = d and n = n and b = "df_lock d" and t = "df_tail d"] by simp

lemma stable_lock: "stable P \<Longrightarrow> P d \<Longrightarrow> P (d\<lparr>df_lock := b\<rparr>)"
  using stableD [where P = P and d = d and n = "df_calls d" and b = b and t = "df_tail d"] by simp

lemma stable_tail: "stable P \<Longrightarrow> P d \<Longrightarrow> P (d\<lparr>df_tail := t\<rparr>)"
  using stableD [where P = P and d = d and n = "df_calls d" and b = "df_lock d" and t = t] by simp

lemma triple_sys: "stable P \<Longrightarrow> triple P (sys H c) (\<lambda>_. P) P"
  by (rule tripleI) (auto simp: sys_def stable_calls split: io_outcome.splits)

lemma triple_sys_set:
  "stable P \<Longrightarrow> (\<And>d. P d \<Longrightarrow> Q (f d)) \<Longrightarrow> triple P (sys_set H c f) (\<lambda>_. Q) P"
  unfolding sys_set_def
  by (rule triple_bind [OF triple_sys]) (auto simp: triple_def)

lemma triple_lock:
  assumes "stable P" and "triple P body Q E" and "\<And>d. P d \<Longrightarrow> E d"
  shows "triple P (with_run_lock H run_id body) Q E"
proof -
  have "triple P (sys H c) (\<lambda>_. P) E" for c
    by (rule triple_conseq [OF triple_sys [OF assms(1)]]) (simp_all add: assms(3))
  moreover have "triple P (sys_set H OpenLock (\<lambda>d. d\<lparr>df_lock := True\<rparr>)) (\<lambda>_. P) E"
    by (rule triple_conseq [OF triple_sys_set [OF assms(1)]]) (simp_all add: assms(1,3) stable_lock)
  ultimately show ?thesis
    unfolding with_run_lock_def
    by (intro triple_bind [where Q = "\<lambda>_. P"] triple_lift assms) auto
qed

lemma triple_read:
  assumes "stable P"
  shows "triple P (read_text H sel) (\<lambda>t d. P d \<and> sel d = Some t) P"
  unfolding read_text_def
  by (rule triple_bind [OF triple_sys [OF assms]]) (auto simp: triple_def split: option.splits)

section \<open>The text of a journal\<close>

definition line_text :: "DurableHost \<Rightarrow> DurableRunJournalLine \<Rightarrow> string" where
  "line_text H l = (case dh_line_json H l of Ok s \<Rightarrow> s | _ \<Rightarrow> [])"

definition committed :: "DurableHost \<Rightarrow> DurableRunJournalLine list \<Rightarrow> string" where
  "committed H ls = concat (map (\<lambda>l. line_text H l @ [nl]) ls)"

text \<open>
  What is relied on of compact JSON for the lines in \<open>L\<close>: they print, on one
  line that opens with a brace, and parse back; no proper prefix of a line
  parses.  The lines are those whose text is ASCII.
\<close>

definition journal_codec :: "DurableHost \<Rightarrow> DurableRunJournalLine set \<Rightarrow> bool" where
  "journal_codec H L \<longleftrightarrow> (\<forall>l \<in> L. \<exists>s. dh_line_json H l = Ok (CHR ''{'' # s) \<and>
     list_all (\<lambda>c. of_char c < (128 :: nat)) s \<and> nl \<notin> set s \<and>
     dh_line_parse H (CHR ''{'' # s) = Ok l \<and>
     (\<forall>n \<le> length s. 0 < n \<longrightarrow> (\<exists>e. dh_line_parse H (take n (CHR ''{'' # s)) = Err e)))"

definition jtext :: "DurableFiles \<Rightarrow> string" where
  "jtext d = (case df_journal d of None \<Rightarrow> [] | Some t \<Rightarrow> t)"

text \<open>The rest of a line whose append was cut short.\<close>

definition torn :: "DurableHost \<Rightarrow> DurableRunJournalLine set \<Rightarrow> string \<Rightarrow> bool" where
  "torn H L s \<longleftrightarrow> (\<exists>l \<in> L. \<exists>n < length (line_text H l). s = take n (line_text H l))"

definition journal_holds ::
  "DurableHost \<Rightarrow> DurableRunJournalLine set \<Rightarrow> DurableRunJournalLine list \<Rightarrow> DurableFiles \<Rightarrow> bool" where
  "journal_holds H L ls d \<longleftrightarrow> set ls \<subseteq> L \<and>
     (\<exists>s. jtext d = committed H ls @ s \<and> (s = [] \<or> torn H L s))"

definition journal_exact ::
  "DurableHost \<Rightarrow> DurableRunJournalLine set \<Rightarrow> DurableRunJournalLine list \<Rightarrow> DurableFiles \<Rightarrow> bool" where
  "journal_exact H L ls d \<longleftrightarrow> set ls \<subseteq> L \<and> jtext d = committed H ls"

text \<open>Whole lines, the last without its newline.\<close>

definition journal_open ::
  "DurableHost \<Rightarrow> DurableRunJournalLine set \<Rightarrow> DurableRunJournalLine list \<Rightarrow> DurableFiles \<Rightarrow> bool" where
  "journal_open H L ls d \<longleftrightarrow> set ls \<subseteq> L \<and> ls \<noteq> [] \<and> jtext d @ [nl] = committed H ls"

lemma journal_exact_holds: "journal_exact H L ls d \<Longrightarrow> journal_holds H L ls d"
  by (auto simp: journal_exact_def journal_holds_def)

lemma stable_journal [simp]:
  "stable (journal_holds H L ls)" "stable (journal_exact H L ls)" "stable (journal_open H L ls)"
  by (auto simp: stable_def journal_holds_def journal_exact_def journal_open_def jtext_def)

lemma codec_line:
  assumes "journal_codec H L" and "l \<in> L"
  shows "\<exists>s. line_text H l = CHR ''{'' # s \<and> dh_line_json H l = Ok (line_text H l) \<and>
     list_all (\<lambda>c. of_char c < (128 :: nat)) s \<and> nl \<notin> set s \<and> dh_line_parse H (line_text H l) = Ok l \<and>
     (\<forall>n < length (line_text H l). 0 < n \<longrightarrow> (\<exists>e. dh_line_parse H (take n (line_text H l)) = Err e))"
proof -
  obtain s where s: "dh_line_json H l = Ok (CHR ''{'' # s)" "list_all (\<lambda>c. of_char c < (128 :: nat)) s" "nl \<notin> set s"
    "dh_line_parse H (CHR ''{'' # s) = Ok l"
    "\<forall>n \<le> length s. 0 < n \<longrightarrow> (\<exists>e. dh_line_parse H (take n (CHR ''{'' # s)) = Err e)"
    using assms unfolding journal_codec_def by blast
  have t: "line_text H l = CHR ''{'' # s" using s(1) by (simp add: line_text_def)
  show ?thesis unfolding t using s by (intro exI [of _ s]) (simp add: less_Suc_eq_le)
qed

lemma codec_json: "journal_codec H L \<Longrightarrow> l \<in> L \<Longrightarrow> dh_line_json H l = Ok (line_text H l)"
  by (blast dest: codec_line)

lemma codec_parse: "journal_codec H L \<Longrightarrow> l \<in> L \<Longrightarrow> dh_line_parse H (line_text H l) = Ok l"
  by (blast dest: codec_line)

lemma codec_open: "journal_codec H L \<Longrightarrow> l \<in> L \<Longrightarrow> \<exists>s. line_text H l = CHR ''{'' # s"
  by (blast dest: codec_line)

lemma codec_ascii: "journal_codec H L \<Longrightarrow> l \<in> L \<Longrightarrow> list_all (\<lambda>c. of_char c < (128 :: nat)) (line_text H l)"
  by (drule (1) codec_line) (elim exE conjE, simp)

lemma codec_no_nl: "journal_codec H L \<Longrightarrow> l \<in> L \<Longrightarrow> nl \<notin> set (line_text H l)"
  by (drule (1) codec_line) (elim exE conjE, simp add: nl_def)

lemma codec_torn:
  "journal_codec H L \<Longrightarrow> l \<in> L \<Longrightarrow> 0 < n \<Longrightarrow> n < length (line_text H l) \<Longrightarrow>
   \<exists>e. dh_line_parse H (take n (line_text H l)) = Err e"
  by (drule (1) codec_line) blast

lemma ascii_valid_utf8: "list_all (\<lambda>c. of_char c < (128 :: nat)) s \<Longrightarrow> valid_utf8 s"
  by (induction s) (auto simp: valid_utf8.simps(2) byte_in_def)

lemma committed_Nil [simp]: "committed H [] = []"
  by (simp add: committed_def)

lemma committed_append [simp]: "committed H (xs @ ys) = committed H xs @ committed H ys"
  by (simp add: committed_def)

lemma committed_Cons [simp]: "committed H (l # ls) = line_text H l @ nl # committed H ls"
  by (simp add: committed_def)

lemma committed_ascii:
  assumes "journal_codec H L" and "set ls \<subseteq> L"
  shows "list_all (\<lambda>c. of_char c < (128 :: nat)) (committed H ls)"
  using assms(2)
proof (induction ls)
  case (Cons l ls)
  then have "list_all (\<lambda>c. of_char c < (128 :: nat)) (line_text H l)"
    using codec_ascii [OF assms(1)] by simp
  with Cons show ?case by (simp add: nl_def)
qed simp

lemma torn_facts:
  assumes "journal_codec H L" and "torn H L s" and "s \<noteq> []"
  shows "list_all (\<lambda>c. of_char c < (128 :: nat)) s" and "nl \<notin> set s" and "hd s = CHR ''{''"
    and "\<exists>e. dh_line_parse H s = Err e"
proof -
  obtain l n where l: "l \<in> L" "n < length (line_text H l)" "s = take n (line_text H l)"
    using assms(2) by (auto simp: torn_def)
  with assms(3) have n: "0 < n" by (cases n) auto
  obtain r where r: "line_text H l = CHR ''{'' # r" using codec_open [OF assms(1) l(1)] by blast
  show "list_all (\<lambda>c. of_char c < (128 :: nat)) s"
    using codec_ascii [OF assms(1) l(1)] l(3) by (auto simp: list_all_iff dest: in_set_takeD)
  show "nl \<notin> set s" using codec_no_nl [OF assms(1) l(1)] l(3) by (auto dest: in_set_takeD)
  show "hd s = CHR ''{''" using r l(3) n by (cases n) auto
  show "\<exists>e. dh_line_parse H s = Err e" using codec_torn [OF assms(1) l(1) n l(2)] l(3) by simp
qed

lemma split_on_append: "c \<notin> set p \<Longrightarrow> split_on c (p @ c # s) = p # split_on c s"
  by (induction p) auto

lemma split_on_none: "c \<notin> set p \<Longrightarrow> split_on c p = [p]"
  by (induction p) auto

lemma split_committed_any:
  assumes "journal_codec H L" and "set ls \<subseteq> L"
  shows "split_on nl (committed H ls @ x) = map (line_text H) ls @ split_on nl x"
  using assms(2)
proof (induction ls)
  case (Cons l ls)
  then have "nl \<notin> set (line_text H l)" using codec_no_nl [OF assms(1)] by simp
  with Cons show ?case by (simp add: split_on_append)
qed simp

lemma split_committed:
  assumes "journal_codec H L" and "set ls \<subseteq> L" and "nl \<notin> set s"
  shows "split_on nl (committed H ls @ s) = map (line_text H) ls @ [s]"
  by (simp add: split_committed_any [OF assms(1,2)] split_on_none [OF assms(3)])

text \<open>A text that opens with a visible ASCII character is not blank.\<close>

lemma strip_front_keeps:
  assumes "c \<in> set s" and "\<forall>w \<in> set ws. c \<notin> set w"
  shows "c \<in> set (strip_front ws s)"
  using assms
proof (induction ws s rule: strip_front.induct)
  case (1 ws s)
  show ?case
  proof (cases "find (\<lambda>w. w \<noteq> [] \<and> prefix w s) ws")
    case None
    with 1 show ?thesis by (simp add: strip_front.simps [of ws s])
  next
    case (Some w)
    then have w: "w \<in> set ws" "prefix w s" by (auto simp: find_Some_iff)
    then obtain t where t: "s = w @ t" by (auto simp: prefix_def)
    from t w 1(2,3) have "c \<in> set (drop (length w) s)" by auto
    from 1(1) [OF Some this 1(3)] Some show ?thesis by (simp add: strip_front.simps [of ws s])
  qed
qed

lemma trim_not_blank: "CHR ''{'' \<in> set s \<Longrightarrow> trim s \<noteq> []"
proof -
  assume s: "CHR ''{'' \<in> set s"
  have ws: "list_all (\<lambda>w. CHR ''{'' \<notin> set w) ws_codes" by code_simp
  have "CHR ''{'' \<in> set (strip_front ws_codes s)"
    using strip_front_keeps [OF s] ws by (auto simp: list_all_iff)
  then have "CHR ''{'' \<in> set (strip_front (map rev ws_codes) (rev (strip_front ws_codes s)))"
    by (intro strip_front_keeps) (use ws in \<open>auto simp: list_all_iff\<close>)
  then show ?thesis by (auto simp: trim_def)
qed

lemma parse_committed:
  assumes "journal_codec H L" and "set ls \<subseteq> L"
  shows "parse_journal_lines H (map (line_text H) ls) = Ok ls"
  using assms(2)
proof (induction ls)
  case (Cons l ls)
  then have "dh_line_parse H (line_text H l) = Ok l" using codec_parse [OF assms(1)] by simp
  with Cons show ?case by simp
qed simp

lemma line_not_blank: "journal_codec H L \<Longrightarrow> l \<in> L \<Longrightarrow> trim (line_text H l) \<noteq> []"
  by (rule trim_not_blank) (drule (1) codec_open, auto)

lemma journal_body_committed:
  assumes "journal_codec H L" and "set ls \<subseteq> L"
  shows "journal_body H ls = Ok (committed H ls)"
  using assms(2)
proof (induction ls)
  case (Cons l ls)
  then have "dh_line_json H l = Ok (line_text H l)" using codec_json [OF assms(1)] by simp
  with Cons show ?case by simp
qed simp

section \<open>Reading and repairing\<close>

lemma last_committed: "ls \<noteq> [] \<Longrightarrow> last (committed H ls) = nl \<and> committed H ls \<noteq> []"
  by (induction ls rule: rev_induct) auto

lemma split_physical_exact:
  assumes "journal_codec H L" and "set ls \<subseteq> L"
  shows "split_physical_journal_lines (committed H ls) = (map (line_text H) ls, False)"
proof (cases "ls = []")
  case False
  have "split_on nl (committed H ls) = map (line_text H) ls @ [[]]"
    using split_committed [OF assms, of "[]"] by simp
  with last_committed [OF False] show ?thesis by (simp add: split_physical_journal_lines_def Let_def)
qed (simp add: split_physical_journal_lines_def)

lemma split_physical_open:
  assumes "journal_codec H L" and "set ls \<subseteq> L" and "s \<noteq> []" and "nl \<notin> set s"
  shows "split_physical_journal_lines (committed H ls @ s) = (map (line_text H) ls @ [s], True)"
proof -
  have "last (committed H ls @ s) \<noteq> nl" using assms(3,4) by (auto simp: last_append dest: last_in_set)
  then show ?thesis using split_committed [OF assms(1,2,4)] assms(3)
    by (simp add: split_physical_journal_lines_def Let_def)
qed

lemma filter_lines:
  assumes "journal_codec H L" and "set ls \<subseteq> L"
  shows "filter (\<lambda>s. trim s \<noteq> []) (map (line_text H) ls) = map (line_text H) ls"
  using assms by (auto simp: filter_id_conv line_not_blank)

text \<open>
  A read reports that a file is not found only when it is missing.  The journal
  is repaired by rewriting it, which keeps a line at least, or by removing it
  when it has no committed line; the code ignores a failure of that removal.
\<close>

definition reads_found :: "DurableHost \<Rightarrow> bool" where
  "reads_found H \<longleftrightarrow> (\<forall>k m n. dh_io H ReadFile k \<noteq> IoFail (IoError NotFound m) n)"

definition newlines_done :: "DurableHost \<Rightarrow> bool" where
  "newlines_done H \<longleftrightarrow> (\<forall>k. dh_io H WriteNewline k = IoDone)"

definition removals_done :: "DurableHost \<Rightarrow> bool" where
  "removals_done H \<longleftrightarrow> (\<forall>k. dh_io H RemoveFile k = IoDone)"

definition repairs :: "DurableHost \<Rightarrow> DurableRunJournalLine list \<Rightarrow> bool" where
  "repairs H ls \<longleftrightarrow> reads_found H \<and> (ls \<noteq> [] \<or> removals_done H)"

text \<open>
  The failures after which the journal still holds whole lines and one torn rest
  at most: any but those of the newline of an append and of the removal of an
  emptied journal.
\<close>

definition recoverable_host :: "DurableHost \<Rightarrow> bool" where
  "recoverable_host H \<longleftrightarrow> reads_found H \<and> newlines_done H \<and> removals_done H"

lemma recoverable_repairs: "recoverable_host H \<Longrightarrow> repairs H ls"
  by (simp add: recoverable_host_def repairs_def)

lemma triple_rewrite_locked:
  assumes "journal_codec H L" and "repairs H ls"
  shows "triple (journal_holds H L ls) (rewrite_journal_file_locked H ls) (\<lambda>_. journal_exact H L ls) (journal_holds H L ls)"
proof (cases "ls = []")
  case True
  then have "dh_io H RemoveFile k = IoDone" for k using assms(2) by (simp add: repairs_def removals_done_def)
  with True show ?thesis
    by (auto simp: triple_def rewrite_journal_file_locked_def sys_set_def sys_def op_bind_def
          journal_exact_def jtext_def)
next
  case False
  show ?thesis
  proof (rule tripleI)
    fix d
    assume d: "journal_holds H L ls d"
    then have ls: "set ls \<subseteq> L" by (simp add: journal_holds_def)
    have "triple (journal_holds H L ls) (rewrite_journal_file_locked H ls) (\<lambda>_. journal_exact H L ls) (journal_holds H L ls)"
      unfolding rewrite_journal_file_locked_def journal_body_committed [OF assms(1) ls] io_data_def
      using False ls
      by (auto simp: jtext_def journal_exact_def intro!: triple_bind [OF triple_sys] triple_sys_set)
    with d show "case rewrite_journal_file_locked H ls d of (Ok x, d1) \<Rightarrow> journal_exact H L ls d1
        | (_, d1) \<Rightarrow> journal_holds H L ls d1" by (simp add: triple_def)
  qed
qed

lemma journal_holds_cases:
  assumes "journal_codec H L" and "journal_holds H L ls d" and "df_journal d = Some t"
  obtains "t = committed H ls" and "journal_exact H L ls d"
  | s where "t = committed H ls @ s" and "s \<noteq> []" and "nl \<notin> set s" and "CHR ''{'' \<in> set s"
      and "\<exists>e. dh_line_parse H s = Err e"
proof -
  obtain s where s: "set ls \<subseteq> L" "t = committed H ls @ s" "s = [] \<or> torn H L s"
    using assms(2,3) by (auto simp: journal_holds_def jtext_def)
  show thesis
  proof (cases "s = []")
    case True
    with s assms(3) show thesis by (intro that(1)) (simp_all add: journal_exact_def jtext_def)
  next
    case False
    with s(3) have "torn H L s" by simp
    note f = torn_facts [OF assms(1) this False]
    from f(3) False have "CHR ''{'' \<in> set s" by (cases s) auto
    with f s(2) False show thesis by (intro that(2))
  qed
qed

lemma triple_quarantine: "stable P \<Longrightarrow> triple P (quarantine_truncated_journal_tail H run_id bad) (\<lambda>_. P) P"
  unfolding quarantine_truncated_journal_tail_def
  by (rule triple_bind [OF triple_sys_set [where Q = P]])
    (auto simp: stable_tail stable_calls triple_def write_all_def append_tail_def Let_def split: io_outcome.splits)

text \<open>What the parser does with the text of a journal.\<close>

lemma parse_text_exact:
  assumes "journal_codec H L" and "set ls \<subseteq> L"
  shows "parse_journal_text H run_id (committed H ls) b = op_lift (Ok ls)"
  unfolding parse_journal_text_def
  by (cases "ls = []") (simp_all add: split_physical_exact [OF assms] split_physical_journal_lines_def [of "[]"]
    filter_lines [OF assms] parse_committed [OF assms] del: filter_map)

lemma parse_text_torn:
  assumes "journal_codec H L" and "set ls \<subseteq> L"
    and "s \<noteq> []" and "nl \<notin> set s" and "CHR ''{'' \<in> set s" and "dh_line_parse H s = Err e"
  shows "parse_journal_text H run_id (committed H ls @ s) b =
    op_bind (quarantine_truncated_journal_tail H run_id s) (\<lambda>_.
    op_bind (rewrite_journal_file H run_id ls b) (\<lambda>_. op_lift (Ok ls)))"
proof -
  have "filter (\<lambda>s. trim s \<noteq> []) (map (line_text H) ls @ [s]) = map (line_text H) ls @ [s]"
    using filter_lines [OF assms(1,2)] trim_not_blank [OF assms(5)] by simp
  then show ?thesis
    unfolding parse_journal_text_def split_physical_open [OF assms(1-4)]
    by (simp add: parse_committed [OF assms(1,2)] assms(6) butlast_append del: filter_append filter_map)
qed

lemma triple_parse_text:
  assumes "journal_codec H L" and "repairs H ls"
  shows "triple (\<lambda>d. journal_holds H L ls d \<and> df_journal d = Some t) (parse_journal_text H run_id t b)
     (\<lambda>xs d. xs = ls \<and> journal_exact H L ls d) (journal_holds H L ls)"
proof (rule tripleI)
  fix d
  assume d: "journal_holds H L ls d \<and> df_journal d = Some t"
  then have holds: "journal_holds H L ls d" and some: "df_journal d = Some t" by auto
  then have ls: "set ls \<subseteq> L" by (simp add: journal_holds_def)
  show "case parse_journal_text H run_id t b d of (Ok x, d1) \<Rightarrow> x = ls \<and> journal_exact H L ls d1
      | (_, d1) \<Rightarrow> journal_holds H L ls d1"
  proof (rule journal_holds_cases [OF assms(1) holds some])
    assume "t = committed H ls" "journal_exact H L ls d"
    then show ?thesis by (simp add: parse_text_exact [OF assms(1) ls] op_lift_def)
  next
    fix s
    assume s: "t = committed H ls @ s" "s \<noteq> []" "nl \<notin> set s" "CHR ''{'' \<in> set s"
    assume "\<exists>e. dh_line_parse H s = Err e"
    then obtain e where e: "dh_line_parse H s = Err e" by blast
    have rw: "triple (journal_holds H L ls) (rewrite_journal_file H run_id ls b) (\<lambda>_. journal_exact H L ls) (journal_holds H L ls)"
      unfolding rewrite_journal_file_def
      by (simp add: triple_rewrite_locked [OF assms] triple_lock)
    have "triple (journal_holds H L ls) (parse_journal_text H run_id t b)
      (\<lambda>xs d. xs = ls \<and> journal_exact H L ls d) (journal_holds H L ls)"
      unfolding s(1) parse_text_torn [OF assms(1) ls s(2-4) e]
      by (rule triple_bind [OF triple_quarantine [OF stable_journal(1)] triple_bind [OF rw triple_lift]])
        (auto simp: journal_exact_holds)
    with holds show ?thesis by (simp add: triple_def)
  qed
qed

lemma triple_read_or_missing:
  assumes "reads_found H" and "stable P"
    and "\<And>t. triple (\<lambda>d. P d \<and> sel d = Some t) (f t) Q E"
    and "triple (\<lambda>d. P d \<and> sel d = None) g Q E" and "\<And>d. P d \<Longrightarrow> E d"
    and "\<And>d n. sel (d\<lparr>df_calls := n\<rparr>) = sel d"
  shows "triple P (read_or_missing (read_text H sel) f g) Q E"
proof (rule tripleI)
  fix d
  assume d: "P d"
  let ?d1 = "d\<lparr>df_calls := Suc (df_calls d)\<rparr>"
  have d1: "P ?d1" "sel ?d1 = sel d" using assms(2,6) d by (simp_all add: stable_calls)
  have f: "case f t ?d1 of (Ok x, e) \<Rightarrow> Q x e | (_, e) \<Rightarrow> E e" if "sel d = Some t" for t
    using assms(3) [of t] d1 that by (simp add: triple_def)
  have g: "case g ?d1 of (Ok x, e) \<Rightarrow> Q x e | (_, e) \<Rightarrow> E e" if "sel d = None"
    using assms(4) d1 that by (simp add: triple_def)
  have e: "E ?d1" using assms(5) d1 by simp
  show "case read_or_missing (read_text H sel) f g d of (Ok x, d1) \<Rightarrow> Q x d1 | (_, d1) \<Rightarrow> E d1"
  proof (cases "dh_io H ReadFile (df_calls d)")
    case IoDone
    then show ?thesis using f g e assms(6)
      by (cases "sel d") (simp_all add: read_or_missing_def read_text_def sys_def op_bind_def)
  next
    case (IoFail e' n)
    obtain k m where e': "e' = IoError k m" by (cases e')
    with IoFail assms(1) have "k \<noteq> NotFound" by (auto simp: reads_found_def)
    with IoFail e e' show ?thesis by (simp add: read_or_missing_def read_text_def sys_def op_bind_def)
  qed
qed

text \<open>A read under any failures keeps the committed lines; one that answers gives them and leaves only them.\<close>

lemma triple_read_journal:
  assumes "journal_codec H L" and "repairs H ls"
  shows "triple (journal_holds H L ls) (read_journal_lines_impl H run_id b)
     (\<lambda>xs d. xs = ls \<and> journal_exact H L ls d) (journal_holds H L ls)"
proof -
  have reads: "reads_found H" using assms(2) by (simp add: repairs_def)
  have none: "triple (\<lambda>d. journal_holds H L ls d \<and> df_journal d = None) (op_lift (Ok []))
     (\<lambda>xs d. xs = ls \<and> journal_exact H L ls d) (journal_holds H L ls)"
    by (rule triple_lift; cases ls) (auto simp: journal_holds_def journal_exact_def jtext_def)
  show ?thesis
    unfolding read_journal_lines_impl_def
    by (rule triple_bind [OF triple_lift [where Q = "\<lambda>_. journal_holds H L ls"]
          triple_read_or_missing [OF reads stable_journal(1) triple_parse_text [OF assms] none]]) auto
qed

section \<open>Appending and the transitions\<close>

lemma triple_append:
  assumes "journal_codec H L" and "line \<in> L"
  shows "triple (journal_exact H L ls) (append_journal_line H run_id line) (\<lambda>_. journal_exact H L (ls @ [line]))
     (\<lambda>d. journal_holds H L ls d \<or> journal_exact H L (ls @ [line]) d \<or>
        (\<not> newlines_done H \<and> journal_open H L (ls @ [line]) d))"
    (is "triple ?P _ _ ?E")
proof -
  let ?m = "\<lambda>d. jtext d = committed H ls @ line_text H line \<and> set (ls @ [line]) \<subseteq> L"
  have s: "triple ?P (sys H c) (\<lambda>_. ?P) ?E" for c
    by (rule triple_conseq [OF triple_sys [OF stable_journal(2) [of H L ls]]]) (auto intro: journal_exact_holds)
  have s': "triple (journal_exact H L (ls @ [line])) (sys H c) (\<lambda>_. journal_exact H L (ls @ [line])) ?E" for c
    by (rule triple_conseq [OF triple_sys [OF stable_journal(2) [of H L "ls @ [line]"]]]) simp_all
  have o: "triple ?P (sys_set H OpenAppend (append_journal [])) (\<lambda>_. ?P) ?E"
    by (rule triple_conseq [OF triple_sys_set [OF stable_journal(2) [of H L ls], where Q = ?P]])
      (auto simp: journal_exact_def journal_holds_def append_journal_def jtext_def split: option.splits)
  have w: "triple ?P (write_all H WriteBody append_journal (line_text H line)) (\<lambda>_. ?m) ?E"
  proof (rule tripleI)
    fix d
    assume d: "?P d"
    obtain r where r: "line_text H line = CHR ''{'' # r" using codec_open [OF assms(1,2)] by blast
    have jt: "jtext (append_journal s (d\<lparr>df_calls := k\<rparr>)) = committed H ls @ s" for s k
      using d by (auto simp: journal_exact_def jtext_def append_journal_def split: option.splits)
    have "torn H L (take (min n (length (line_text H line) - 1)) (line_text H line))" for n
      unfolding torn_def using assms(2) r by (intro bexI [of _ line] exI [of _ "min n (length (line_text H line) - 1)"]) auto
    then show "case write_all H WriteBody append_journal (line_text H line) d of (Ok x, d1) \<Rightarrow> ?m d1 | (_, d1) \<Rightarrow> ?E d1"
      using d assms(2) jt by (auto simp: write_all_def Let_def journal_exact_def journal_holds_def split: io_outcome.splits)
  qed
  have n: "triple ?m (write_all H WriteNewline append_journal [nl]) (\<lambda>_. journal_exact H L (ls @ [line])) ?E"
  proof (rule tripleI)
    fix d
    assume d: "?m d"
    have jt: "jtext (append_journal s (d\<lparr>df_calls := k\<rparr>)) = jtext d @ s" for s k
      by (simp add: append_journal_def jtext_def split: option.splits)
    show "case write_all H WriteNewline append_journal [nl] d of
        (Ok x, d1) \<Rightarrow> journal_exact H L (ls @ [line]) d1 | (_, d1) \<Rightarrow> ?E d1"
    proof (cases "dh_io H WriteNewline (df_calls d)")
      case IoDone
      then show ?thesis using d by (simp add: write_all_def Let_def journal_exact_def jt)
    next
      case (IoFail e n)
      then have "\<not> newlines_done H" unfolding newlines_done_def by (metis io_outcome.distinct(1))
      then show ?thesis using d IoFail by (simp add: write_all_def Let_def journal_open_def jt)
    qed
  qed
  show ?thesis
    unfolding append_journal_line_def codec_json [OF assms(1,2)] io_data_def map_err.simps op_bind_Ok
    by (rule triple_bind [OF triple_lift [where Q = "\<lambda>_. ?P"]
          triple_bind [OF s triple_bind [OF o triple_bind [OF w triple_bind [OF n s']]]]])
      (auto intro: journal_exact_holds)
qed

text \<open>
  Sequence numbers count the lines from one, a start line carries the attempt id
  of its own sequence, and no two terminal lines belong to one attempt.
\<close>

definition journal_wf :: "string \<Rightarrow> DurableRunJournalLine list \<Rightarrow> bool" where
  "journal_wf run_id ls \<longleftrightarrow>
     map (\<lambda>l. unat (jl_sequence l)) ls = [1..<Suc (length ls)] \<and>
     (\<forall>l \<in> set ls. jl_kind l = ''supervisor_started'' \<longrightarrow>
        jl_transition_id l = Some (new_supervisor_attempt_transition_id run_id (jl_sequence l))) \<and>
     distinct (map jl_transition_id (filter (\<lambda>l. jl_kind l = ''supervisor_terminal'') ls))"

lemma journal_wf_Nil [simp]: "journal_wf run_id []"
  by (simp add: journal_wf_def)

lemma fold_max_sequence:
  fixes f :: "'a \<Rightarrow> 'k::len word"
  shows "map (\<lambda>l. unat (f l)) ls = [1..<Suc (length ls)] \<Longrightarrow> unat (fold max (map f ls) 0) = length ls"
proof (induction ls rule: rev_induct)
  case (snoc l ls)
  then have l: "unat (f l) = Suc (length ls)" and ih: "unat (fold max (map f ls) 0) = length ls" by simp_all
  have "fold max (map f ls) 0 \<le> f l" using l ih by (simp add: word_le_nat_alt)
  then have "max (f l) (fold max (map f ls) 0) = f l" by (rule max_absorb1)
  then show ?case using l by simp
qed simp

lemma triple_next_sequence:
  assumes "journal_codec H L" and "repairs H ls" and "journal_wf run_id ls" and "Suc (length ls) < 2 ^ 64"
  shows "triple (journal_holds H L ls) (next_journal_sequence_under_run_lock H run_id)
     (\<lambda>q d. unat q = Suc (length ls) \<and> journal_exact H L ls d) (journal_holds H L ls)"
proof -
  have "unat (saturating_add (fold max (map jl_sequence ls) 0) 1) = Suc (length ls)"
    using fold_max_sequence [of jl_sequence ls] assms(3,4)
    by (simp add: journal_wf_def unat_saturating_add)
  then show ?thesis
    unfolding next_journal_sequence_under_run_lock_def
    by (intro triple_bind [OF triple_read_journal [OF assms(1,2)]] triple_lift) (auto simp: journal_exact_holds)
qed

lemma journal_wf_snoc:
  assumes "journal_wf run_id ls" and "unat (jl_sequence l) = Suc (length ls)"
    and "jl_kind l = ''supervisor_started'' \<Longrightarrow>
      jl_transition_id l = Some (new_supervisor_attempt_transition_id run_id (jl_sequence l))"
    and "jl_kind l = ''supervisor_terminal'' \<Longrightarrow> \<exists>t. jl_transition_id l = Some t \<and> find (is_terminal_of t) ls = None"
  shows "journal_wf run_id (ls @ [l])"
  using assms by (auto simp: journal_wf_def find_None_iff is_terminal_of_def)

text \<open>The journal after a transition: as before, or one well-formed line longer.\<close>

definition journal_grown ::
  "DurableHost \<Rightarrow> DurableRunJournalLine set \<Rightarrow> string \<Rightarrow> DurableRunJournalLine list \<Rightarrow> DurableFiles \<Rightarrow> bool" where
  "journal_grown H L run_id ls d \<longleftrightarrow>
     (\<exists>new. length new \<le> 1 \<and> journal_wf run_id (ls @ new) \<and> journal_holds H L (ls @ new) d)"

lemma journal_grown_same: "journal_wf run_id ls \<Longrightarrow> journal_holds H L ls d \<Longrightarrow> journal_grown H L run_id ls d"
  unfolding journal_grown_def by (rule exI [of _ "[]"]) simp

lemma journal_grown_one:
  "journal_wf run_id (ls @ [l]) \<Longrightarrow> journal_exact H L (ls @ [l]) d \<Longrightarrow> journal_grown H L run_id ls d"
  unfolding journal_grown_def by (rule exI [of _ "[l]"]) (simp add: journal_exact_holds)

lemma stable_grown [simp]: "stable (journal_grown H L run_id ls)"
  unfolding stable_def journal_grown_def using stable_journal(1) [of H L] by (blast dest: stableD)

lemma triple_store:
  assumes "stable P" and "\<And>d s. P d \<Longrightarrow> P (d\<lparr>df_snapshot := s\<rparr>)"
  shows "triple P (store_durable_run H r) (\<lambda>_. P) P"
  unfolding store_durable_run_def write_atomic_json_def
  by (intro triple_bind [where Q = "\<lambda>_. P"] triple_lift triple_sys triple_sys_set assms) auto

lemma journal_snapshot [simp]:
  "journal_holds H L ls (d\<lparr>df_snapshot := s\<rparr>) = journal_holds H L ls d"
  "journal_exact H L ls (d\<lparr>df_snapshot := s\<rparr>) = journal_exact H L ls d"
  "journal_grown H L run_id ls (d\<lparr>df_snapshot := s\<rparr>) = journal_grown H L run_id ls d"
  by (simp_all add: journal_holds_def journal_exact_def journal_grown_def jtext_def)

lemma triple_append_grown:
  assumes "journal_codec H L" and "recoverable_host H" and "journal_wf run_id ls"
    and "\<And>n. line n \<in> L" and "\<And>n. journal_wf run_id (ls @ [line n])"
  shows "triple (journal_exact H L ls) (\<lambda>d. append_journal_line H run_id (line (dh_now H (df_calls d))) d)
     (\<lambda>_ d. \<exists>n. journal_exact H L (ls @ [line n]) d) (journal_grown H L run_id ls)"
proof (rule tripleI)
  fix d
  assume "journal_exact H L ls d"
  with triple_append [OF assms(1) assms(4), of ls run_id "dh_now H (df_calls d)"]
  show "case append_journal_line H run_id (line (dh_now H (df_calls d))) d of
      (Ok x, d1) \<Rightarrow> \<exists>n. journal_exact H L (ls @ [line n]) d1 | (_, d1) \<Rightarrow> journal_grown H L run_id ls d1"
    unfolding triple_def using assms(2) [unfolded recoverable_host_def] journal_grown_same [OF assms(3)] journal_grown_one [OF assms(5)]
    by (fastforce split: prod.splits outcome.splits)
qed

lemma triple_started:
  assumes "journal_codec H L" and "recoverable_host H" and "journal_wf run_id ls" and "Suc (length ls) < 2 ^ 64"
    and "\<And>q n t. started_line q n command t \<in> L"
  shows "triple (journal_holds H L ls) (sync_supervisor_started H run_id command)
     (\<lambda>_. journal_grown H L run_id ls) (journal_grown H L run_id ls)"
proof -
  let ?G = "journal_grown H L run_id ls"
  have rec: "triple (\<lambda>d. unat q = Suc (length ls) \<and> journal_exact H L ls d)
      (let t = new_supervisor_attempt_transition_id run_id q in
       op_bind (\<lambda>d. append_journal_line H run_id (started_line q (dh_now H (df_calls d)) command t) d) (\<lambda>_.
       store_durable_run H (r t))) (\<lambda>_. ?G) ?G" for q r
  proof (cases "unat q = Suc (length ls)")
    case True
    let ?line = "\<lambda>n. started_line q n command (new_supervisor_attempt_transition_id run_id q)"
    have wf: "journal_wf run_id (ls @ [?line n])" for n
      by (rule journal_wf_snoc [OF assms(3)]) (simp_all add: started_line_def True)
    have "triple (journal_exact H L ls) (\<lambda>d. append_journal_line H run_id (?line (dh_now H (df_calls d))) d) (\<lambda>_. ?G) ?G"
      by (rule triple_conseq [OF triple_append_grown [OF assms(1-3), of ?line]])
        (auto simp: assms(5) wf intro: journal_grown_one [OF wf])
    from triple_bind [OF this triple_store [OF stable_grown]]
    show ?thesis unfolding Let_def by (rule triple_conseq) simp_all
  qed (simp add: triple_def)
  have "triple (journal_holds H L ls) (start_under_run_lock H run_id command) (\<lambda>_. ?G) ?G"
  proof (rule tripleI)
    fix d0
    assume d0: "journal_holds H L ls d0"
    let ?r = "\<lambda>q t. DurableRunRecord_pending H run_id (NativeCommand command) d0
        \<lparr>dr_status := RunRunning, dr_attempt_transition_id := Some t, dr_event_sequence := q\<rparr>"
    have nextq: "triple (journal_holds H L ls) (next_journal_sequence_under_run_lock H run_id)
        (\<lambda>q d. unat q = Suc (length ls) \<and> journal_exact H L ls d) ?G"
      by (rule triple_conseq [OF triple_next_sequence [OF assms(1) recoverable_repairs [OF assms(2)] assms(3,4)]]) (auto intro: journal_grown_same assms(3))
    from triple_bind [OF nextq rec, of "\<lambda>q. ?r q"] d0
    show "case start_under_run_lock H run_id command d0 of (Ok x, d1) \<Rightarrow> ?G d1 | (_, d1) \<Rightarrow> ?G d1"
      by (simp add: triple_def Let_def start_under_run_lock_def)
  qed
  then show ?thesis
    unfolding sync_supervisor_started_def
    by (intro triple_bind [OF triple_lift [where Q = "\<lambda>_. journal_holds H L ls"]] triple_lock)
      (auto intro: journal_grown_same assms(3))
qed

lemma triple_load:
  assumes "journal_codec H L" and "repairs H ls"
  shows "triple (journal_holds H L ls) (load_record H run_id b) (\<lambda>_. journal_holds H L ls) (journal_holds H L ls)"
    (is "triple ?P _ _ _")
proof -
  have reads: "reads_found H" using assms(2) by (simp add: repairs_def)
  have j: "triple ?P (read_journal_lines_impl H run_id b) (\<lambda>_. ?P) ?P"
    by (rule triple_conseq [OF triple_read_journal [OF assms]]) (auto intro: journal_exact_holds)
  have some: "triple ?P (op_bind (op_lift (io_data (dh_record_parse H t))) (\<lambda>r.
      op_bind (read_journal_lines_impl H run_id b) (\<lambda>ls. op_lift (Ok (apply_journal_tail_to_record r ls))))) (\<lambda>_. ?P) ?P" for t
    by (rule triple_bind [OF triple_lift [where Q = "\<lambda>_. ?P"] triple_bind [OF j triple_lift]]) auto
  have none: "triple ?P (op_bind (read_journal_lines_impl H run_id b) (\<lambda>ls.
      materialize_record_from_journal_lines H run_id ls)) (\<lambda>_. ?P) ?P"
    by (rule triple_bind [OF j])
      (auto simp: triple_def materialize_record_from_journal_lines_def Let_def split: option.splits)
  have some': "triple (\<lambda>d. ?P d \<and> df_snapshot d = Some t) (op_bind (op_lift (io_data (dh_record_parse H t))) (\<lambda>r.
      op_bind (read_journal_lines_impl H run_id b) (\<lambda>ls. op_lift (Ok (apply_journal_tail_to_record r ls))))) (\<lambda>_. ?P) ?P" for t
    by (rule triple_conseq [OF some]) auto
  have none': "triple (\<lambda>d. ?P d \<and> df_snapshot d = None) (op_bind (read_journal_lines_impl H run_id b) (\<lambda>ls.
      materialize_record_from_journal_lines H run_id ls)) (\<lambda>_. ?P) ?P"
    by (rule triple_conseq [OF none]) auto
  show ?thesis
    unfolding load_record_def
    by (rule triple_bind [OF triple_lift [where Q = "\<lambda>_. ?P"]
          triple_read_or_missing [OF reads stable_journal(1) some' none']]) auto
qed

lemma triple_terminal:
  assumes "journal_codec H L" and "recoverable_host H" and "journal_wf run_id ls" and "Suc (length ls) < 2 ^ 64"
    and "\<And>q n t. terminal_line q n st code t \<in> L"
  shows "triple (journal_holds H L ls) (sync_supervisor_terminal H run_id st code)
     (\<lambda>_. journal_grown H L run_id ls) (journal_grown H L run_id ls)"
proof -
  let ?G = "journal_grown H L run_id ls" and ?P = "journal_holds H L ls"
  have G: "?G d" if "?P d" for d using that by (rule journal_grown_same [OF assms(3)])
  have append: "triple (\<lambda>d. unat q = Suc (length ls) \<and> journal_exact H L ls d)
      (op_bind (\<lambda>d. append_journal_line H run_id (terminal_line q (dh_now H (df_calls d)) st code t) d) (\<lambda>_.
       store_durable_run H r)) (\<lambda>_. ?G) ?G" if free: "find (is_terminal_of t) ls = None" for q t r
  proof (cases "unat q = Suc (length ls)")
    case True
    let ?line = "\<lambda>n. terminal_line q n st code t"
    have wf: "journal_wf run_id (ls @ [?line n])" for n
      by (rule journal_wf_snoc [OF assms(3)]) (simp_all add: terminal_line_def True free)
    have "triple (journal_exact H L ls) (\<lambda>d. append_journal_line H run_id (?line (dh_now H (df_calls d))) d) (\<lambda>_. ?G) ?G"
      by (rule triple_conseq [OF triple_append_grown [OF assms(1-3), of ?line]])
        (auto simp: assms(5) wf intro: journal_grown_one [OF wf])
    from triple_bind [OF this triple_store [OF stable_grown]]
    show ?thesis by (rule triple_conseq) simp_all
  qed (simp add: triple_def)
  have store: "triple (\<lambda>d. xs = ls \<and> journal_exact H L ls d) (store_durable_run H r) (\<lambda>_. ?G) ?G" for xs r
    by (rule triple_conseq [OF triple_store [OF stable_grown [of H L run_id ls]]])
      (auto intro: G journal_exact_holds)
  have nextq: "triple (\<lambda>d. xs = ls \<and> journal_exact H L ls d) (next_journal_sequence_under_run_lock H run_id)
      (\<lambda>q d. unat q = Suc (length ls) \<and> journal_exact H L ls d) ?G" for xs
    by (rule triple_conseq [OF triple_next_sequence [OF assms(1) recoverable_repairs [OF assms(2)] assms(3,4)]]) (auto intro: G journal_exact_holds)
  have wr: "triple (\<lambda>d. xs = ls \<and> journal_exact H L ls d)
      (case find (is_terminal_of t) xs of
         Some l \<Rightarrow> store_durable_run H (r l)
       | None \<Rightarrow> op_bind (next_journal_sequence_under_run_lock H run_id) (\<lambda>q.
           op_bind (\<lambda>d. append_journal_line H run_id (terminal_line q (dh_now H (df_calls d)) st code t) d) (\<lambda>_.
           store_durable_run H (r' q)))) (\<lambda>_. ?G) ?G" for xs t r r'
  proof (cases "xs = ls \<and> find (is_terminal_of t) xs = None")
    case True
    from True have free: "find (is_terminal_of t) ls = None" by fast
    from True have "find (is_terminal_of t) xs = None" by fast
    then show ?thesis by (simp only: option.case) (rule triple_bind [OF nextq append [OF free]])
  next
    case False
    have st: "triple (journal_exact H L ls) (store_durable_run H (r l)) (\<lambda>_. ?G) ?G" for l
      using store [of ls "r l"] by simp
    with False show ?thesis
      by (cases "xs = ls") (auto simp: triple_def [of "\<lambda>d. False"] split: option.splits)
  qed
  have load: "triple ?P (load_durable_run_or_default_under_run_lock H run_id) (\<lambda>_. ?P) ?G"
    unfolding load_durable_run_or_default_under_run_lock_def
    by (rule triple_conseq [OF triple_load [OF assms(1) recoverable_repairs [OF assms(2)]]]) (auto intro: G)
  have read: "triple ?P (read_journal_lines_impl H run_id True) (\<lambda>xs d. xs = ls \<and> journal_exact H L ls d) ?G"
    by (rule triple_conseq [OF triple_read_journal [OF assms(1) recoverable_repairs [OF assms(2)]]]) (auto intro: G)
  have lift: "triple (\<lambda>d. xs = ls \<and> journal_exact H L ls d) (op_lift r) (\<lambda>_ d. xs = ls \<and> journal_exact H L ls d) ?G"
    for r :: "(io_error, string) outcome" and xs
    by (rule triple_lift) (auto intro: G journal_exact_holds)
  show ?thesis
    unfolding sync_supervisor_terminal_def terminal_under_run_lock_def Let_def
    by (rule triple_bind [OF triple_lift [where Q = "\<lambda>_. ?P"] triple_lock [OF stable_journal(1)
          triple_bind [OF load triple_bind [OF read triple_bind [OF lift wr]]]]]) (auto intro: G)
qed

section \<open>Any sequence of transitions\<close>

datatype durable_op =
    OpStart "string list"
  | OpTerminal DurableRunStatus "i32 option"
  | OpReconcile DurableRunStatus "i32 option"
  | OpLoad

fun run_durable_op :: "DurableHost \<Rightarrow> string \<Rightarrow> durable_op \<Rightarrow> DurableFiles \<Rightarrow> DurableFiles" where
  "run_durable_op H run_id (OpStart command) d = snd (sync_supervisor_started H run_id command d)"
| "run_durable_op H run_id (OpTerminal st code) d = snd (sync_supervisor_terminal H run_id st code d)"
| "run_durable_op H run_id (OpReconcile st code) d = snd (sync_supervisor_terminal_with_reconcile H run_id st code d)"
| "run_durable_op H run_id OpLoad d = snd (load_durable_run H run_id d)"

definition run_durable_ops :: "DurableHost \<Rightarrow> string \<Rightarrow> durable_op list \<Rightarrow> DurableFiles \<Rightarrow> DurableFiles" where
  "run_durable_ops H run_id ops d = fold (run_durable_op H run_id) ops d"

text \<open>The lines an operation can append.\<close>

fun op_lines :: "durable_op \<Rightarrow> DurableRunJournalLine set" where
  "op_lines (OpStart command) = {started_line q n command t | q n t. True}"
| "op_lines (OpTerminal st code) = {terminal_line q n st code t | q n t. True}"
| "op_lines (OpReconcile st code) = {terminal_line q n st code t | q n t. True}"
| "op_lines OpLoad = {}"

text \<open>The journal after some operations: the lines it had and at most \<open>k\<close> new ones.\<close>

definition journal_extends ::
  "DurableHost \<Rightarrow> DurableRunJournalLine set \<Rightarrow> string \<Rightarrow> DurableRunJournalLine list \<Rightarrow> nat \<Rightarrow> DurableFiles \<Rightarrow> bool" where
  "journal_extends H L run_id ls k d \<longleftrightarrow>
     (\<exists>new. length new \<le> k \<and> journal_wf run_id (ls @ new) \<and> journal_holds H L (ls @ new) d)"

lemma journal_extends_grown:
  assumes "journal_extends H L run_id ls k d"
    and "\<And>xs. journal_wf run_id xs \<Longrightarrow> length xs \<le> length ls + k \<Longrightarrow> journal_holds H L xs d \<Longrightarrow>
      journal_grown H L run_id xs e"
  shows "journal_extends H L run_id ls (Suc k) e"
proof -
  obtain new where new: "length new \<le> k" "journal_wf run_id (ls @ new)" "journal_holds H L (ls @ new) d"
    using assms(1) by (auto simp: journal_extends_def)
  then have "journal_grown H L run_id (ls @ new) e" by (intro assms(2)) auto
  then obtain one where "length one \<le> 1" "journal_wf run_id ((ls @ new) @ one)" "journal_holds H L ((ls @ new) @ one) e"
    by (auto simp: journal_grown_def)
  with new(1) show ?thesis unfolding journal_extends_def by (intro exI [of _ "new @ one"]) auto
qed

lemma journal_extends_mono: "journal_extends H L run_id ls j d \<Longrightarrow> j \<le> k \<Longrightarrow> journal_extends H L run_id ls k d"
  unfolding journal_extends_def by (meson order_trans)

lemma terminal_extends:
  assumes "journal_codec H L" and "recoverable_host H" and "op_lines (OpTerminal st code) \<subseteq> L"
    and "journal_extends H L run_id ls k d" and "Suc (length ls + k) < 2 ^ 64"
  shows "journal_extends H L run_id ls (Suc k) (snd (sync_supervisor_terminal H run_id st code d))"
proof (rule journal_extends_grown [OF assms(4)])
  fix xs
  assume xs: "journal_wf run_id xs" "length xs \<le> length ls + k" "journal_holds H L xs d"
  have len: "Suc (length xs) < 2 ^ 64" using xs(2) assms(5) by linarith
  have "terminal_line q n st code t \<in> L" for q n t using assms(3) by auto
  from triple_snd [OF triple_terminal [OF assms(1,2) xs(1) len this] xs(3)]
  show "journal_grown H L run_id xs (snd (sync_supervisor_terminal H run_id st code d))" .
qed

lemma run_durable_op_extends:
  assumes "journal_codec H L" and "recoverable_host H" and "op_lines op \<subseteq> L"
    and "journal_extends H L run_id ls k d" and "length ls + k + 2 < 2 ^ 64"
  shows "journal_extends H L run_id ls (k + 2) (run_durable_op H run_id op d)"
proof (cases op)
  case (OpStart command)
  have "journal_extends H L run_id ls (Suc k) (run_durable_op H run_id op d)"
  proof (rule journal_extends_grown [OF assms(4)])
    fix xs
    assume xs: "journal_wf run_id xs" "length xs \<le> length ls + k" "journal_holds H L xs d"
    have len: "Suc (length xs) < 2 ^ 64" using xs(2) assms(5) by linarith
    have "started_line q n command t \<in> L" for q n t using assms(3) OpStart by auto
    from triple_snd [OF triple_started [OF assms(1,2) xs(1) len this] xs(3)] OpStart
    show "journal_grown H L run_id xs (run_durable_op H run_id op d)" by simp
  qed
  then show ?thesis by (rule journal_extends_mono) simp
next
  case (OpTerminal st code)
  have "journal_extends H L run_id ls (Suc k) (run_durable_op H run_id op d)"
    using terminal_extends [OF assms(1,2) _ assms(4)] assms(3,5) OpTerminal by simp
  then show ?thesis by (rule journal_extends_mono) simp
next
  case (OpReconcile st code)
  have L: "op_lines (OpTerminal st code) \<subseteq> L" using assms(3) OpReconcile by simp
  let ?m = "sync_supervisor_terminal H run_id st code"
  have one: "journal_extends H L run_id ls (Suc k) (snd (?m d))"
    using terminal_extends [OF assms(1,2) L assms(4)] assms(5) by simp
  have two: "journal_extends H L run_id ls (Suc (Suc k)) (snd (?m (snd (?m d))))"
    using terminal_extends [OF assms(1,2) L one] assms(5) by simp
  have "run_durable_op H run_id op d = snd (?m d) \<or> run_durable_op H run_id op d = snd (?m (snd (?m d)))"
    using OpReconcile by (auto simp: sync_supervisor_terminal_with_reconcile_def split: prod.splits outcome.splits)
  with journal_extends_mono [OF one, of "k + 2"] two show ?thesis by auto
next
  case OpLoad
  have "journal_extends H L run_id ls (Suc k) (run_durable_op H run_id op d)"
  proof (rule journal_extends_grown [OF assms(4)])
    fix xs
    assume xs: "journal_wf run_id xs" "journal_holds H L xs d"
    have "journal_holds H L xs (snd (load_durable_run H run_id d))"
      unfolding load_durable_run_def by (rule triple_snd [OF triple_load [OF assms(1) recoverable_repairs [OF assms(2)]] xs(2)])
    then show "journal_grown H L run_id xs (run_durable_op H run_id op d)"
      using OpLoad journal_grown_same [OF xs(1)] by simp
  qed
  then show ?thesis by (rule journal_extends_mono) simp
qed

lemma run_durable_ops_extends:
  assumes "journal_codec H L" and "recoverable_host H"
  shows "\<Union> (op_lines ` set ops) \<subseteq> L \<Longrightarrow> journal_extends H L run_id ls k d \<Longrightarrow>
    length ls + k + 2 * length ops < 2 ^ 64 \<Longrightarrow>
    journal_extends H L run_id ls (k + 2 * length ops) (run_durable_ops H run_id ops d)"
proof (induction ops arbitrary: k d)
  case (Cons op ops)
  have "journal_extends H L run_id ls (k + 2) (run_durable_op H run_id op d)"
    using run_durable_op_extends [OF assms _ Cons.prems(2)] Cons.prems(1,3) by simp
  from Cons.IH [OF _ this] Cons.prems(1,3) show ?case by (simp add: run_durable_ops_def algebra_simps)
qed (simp add: run_durable_ops_def)

section \<open>No failure loses a committed line\<close>

text \<open>
  Under any failures, those of newlines and removals included, and from any
  journal that opens with some committed lines: they stay.
\<close>

definition journal_has :: "DurableHost \<Rightarrow> DurableRunJournalLine list \<Rightarrow> DurableFiles \<Rightarrow> bool" where
  "journal_has H ls d \<longleftrightarrow> prefix (committed H ls) (jtext d)"

abbreviation lines_kept :: "DurableHost \<Rightarrow> DurableRunJournalLine list \<Rightarrow> 'a file_op \<Rightarrow> bool" where
  "lines_kept H ls m \<equiv> triple (journal_has H ls) m (\<lambda>_. journal_has H ls) (journal_has H ls)"

named_theorems kept \<open>operations after which the journal still has its committed lines\<close>

lemma stable_has [simp]: "stable (journal_has H ls)"
  by (simp add: stable_def journal_has_def jtext_def)

lemma has_append [simp]: "journal_has H ls d \<Longrightarrow> journal_has H ls (append_journal s d)"
  by (auto simp: journal_has_def append_journal_def jtext_def split: option.splits)

lemma kept_bind [kept]: "lines_kept H ls m \<Longrightarrow> (\<And>x. lines_kept H ls (f x)) \<Longrightarrow> lines_kept H ls (op_bind m f)"
  by (rule triple_bind)

lemma kept_lift [kept]: "lines_kept H ls (op_lift r)"
  by (rule triple_lift)

lemma kept_bind_lift:
  "(\<And>x. r = Ok x \<Longrightarrow> lines_kept H ls (f x)) \<Longrightarrow> lines_kept H ls (op_bind (op_lift r) f)"
  by (cases r) (auto simp: triple_def op_bind_def op_lift_def)

lemma kept_sys [kept]: "lines_kept H ls (sys H c)"
  by (rule triple_sys) simp

lemma kept_sys_set [kept]: "(\<And>d. journal_has H ls d \<Longrightarrow> journal_has H ls (f d)) \<Longrightarrow> lines_kept H ls (sys_set H c f)"
  by (rule triple_sys_set) simp_all

lemma kept_write [kept]:
  "(\<And>s d. journal_has H ls d \<Longrightarrow> journal_has H ls (put s d)) \<Longrightarrow> lines_kept H ls (write_all H c put s)"
  by (auto simp: triple_def write_all_def Let_def stable_calls split: io_outcome.splits)

lemma kept_lock [kept]: "lines_kept H ls m \<Longrightarrow> lines_kept H ls (with_run_lock H run_id m)"
  by (rule triple_lock) simp_all

lemma kept_store [kept]: "lines_kept H ls (store_durable_run H r)"
  by (rule triple_store) (simp_all add: journal_has_def jtext_def)

lemma kept_append [kept]: "lines_kept H ls (append_journal_line H run_id line)"
  unfolding append_journal_line_def by (intro kept) simp_all

lemma kept_append_now [kept]: "lines_kept H ls (\<lambda>d. append_journal_line H run_id (line d) d)"
  using kept_append [of H ls run_id] by (simp add: triple_def)

lemma journal_body_prefix:
  assumes "journal_codec H L" and "set ls \<subseteq> L"
  shows "journal_body H (ls @ q) = Ok body \<Longrightarrow> prefix (committed H ls) body"
  using assms(2)
proof (induction ls arbitrary: body)
  case (Cons l ls)
  then have "dh_line_json H l = Ok (line_text H l)" using codec_json [OF assms(1)] by simp
  with Cons.prems obtain t where "journal_body H (ls @ q) = Ok t" "body = line_text H l @ [nl] @ t"
    by (cases "journal_body H (ls @ q)") auto
  with Cons.IH [of t] Cons.prems show ?case by simp
qed simp

lemma kept_rewrite:
  assumes "journal_codec H L" and "set ls \<subseteq> L"
  shows "lines_kept H ls (rewrite_journal_file H run_id (ls @ q) b)"
proof -
  have "lines_kept H ls (rewrite_journal_file_locked H (ls @ q))"
  proof (cases "ls @ q = []")
    case True
    then show ?thesis by (auto simp: triple_def rewrite_journal_file_locked_def journal_has_def)
  next
    case False
    have body: "lines_kept H ls (op_bind (sys H CreateFile) (\<lambda>_. op_bind (sys H WriteBody) (\<lambda>_.
        op_bind (sys H SyncFile) (\<lambda>_. sys_set H RenameFile (\<lambda>d. d\<lparr>df_journal := Some body\<rparr>)))))"
      if "prefix (committed H ls) body" for body
      by (intro kept) (simp add: journal_has_def jtext_def that)
    show ?thesis
    proof (cases "journal_body H (ls @ q)")
      case (Ok body)
      from body [OF journal_body_prefix [OF assms Ok]] Ok False
      show ?thesis by (auto simp: rewrite_journal_file_locked_def io_data_def)
    qed (use False in \<open>auto simp: rewrite_journal_file_locked_def io_data_def triple_def op_bind_def op_lift_def\<close>)
  qed
  then show ?thesis unfolding rewrite_journal_file_def by (auto intro: kept_lock)
qed

lemma split_on_not_Nil [simp]: "split_on c s \<noteq> []"
  by (induction s) (auto split: list.splits)

lemma parse_lines_append:
  assumes "journal_codec H L" and "set ls \<subseteq> L"
  shows "parse_journal_lines H (map (line_text H) ls @ p) = bind (parse_journal_lines H p) (\<lambda>q. Ok (ls @ q))"
  using assms(2)
proof (induction ls)
  case Nil
  show ?case by (cases "parse_journal_lines H p") simp_all
next
  case (Cons l ls)
  then have "dh_line_parse H (line_text H l) = Ok l" using codec_parse [OF assms(1)] by simp
  with Cons show ?case by (cases "parse_journal_lines H p") simp_all
qed

lemma physical_has:
  assumes "journal_codec H L" and "set ls \<subseteq> L" and "prefix (committed H ls) t"
  obtains p u where "split_physical_journal_lines t = (map (line_text H) ls @ p, u)"
proof -
  obtain x where t: "t = committed H ls @ x" using assms(3) by (auto simp: prefix_def)
  note sp = split_committed_any [OF assms(1,2), of x]
  consider "t = []" | "t \<noteq> []" "last t = nl" "last (split_on nl x) = []" | "t \<noteq> []" "\<not> (last t = nl \<and> last (split_on nl x) = [])"
    by blast
  then show thesis
  proof cases
    case 1
    with t have "ls = []" by (cases ls) auto
    with 1 have "split_physical_journal_lines t = (map (line_text H) ls @ [], False)" by (simp add: split_physical_journal_lines_def)
    then show thesis by (rule that)
  next
    case 2
    then have "split_physical_journal_lines t = (map (line_text H) ls @ butlast (split_on nl x), False)"
      unfolding split_physical_journal_lines_def Let_def by (simp add: sp [folded t] butlast_append)
    then show thesis by (rule that)
  next
    case 3
    then have "split_physical_journal_lines t = (map (line_text H) ls @ split_on nl x, last t \<noteq> nl)"
      unfolding split_physical_journal_lines_def Let_def by (auto simp: sp [folded t])
    then show thesis by (rule that)
  qed
qed

lemma kept_parse_text:
  assumes "journal_codec H L" and "set ls \<subseteq> L" and "prefix (committed H ls) t"
  shows "lines_kept H ls (parse_journal_text H run_id t b)"
proof -
  obtain p0 u where split: "split_physical_journal_lines t = (map (line_text H) ls @ p0, u)"
    using physical_has [OF assms] .
  define p where "p = filter (\<lambda>s. trim s \<noteq> []) p0"
  have f: "filter (\<lambda>s. trim s \<noteq> []) (map (line_text H) ls @ p0) = map (line_text H) ls @ p"
    using filter_lines [OF assms(1,2)] by (simp add: p_def del: filter_map)
  let ?ph = "map (line_text H) ls @ p"
  have repair: "lines_kept H ls (op_bind (quarantine_truncated_journal_tail H run_id bad) (\<lambda>_.
      op_bind (rewrite_journal_file H run_id (ls @ q) b) (\<lambda>_. op_lift (Ok (ls @ q)))))" for q bad
    by (intro kept_bind triple_quarantine kept_rewrite [OF assms(1,2)] kept_lift stable_has)
  have open': "lines_kept H ls (op_bind (op_lift (parse_journal_lines H (butlast ?ph))) (\<lambda>parsed.
      case dh_line_parse H (last ?ph) of
        Ok l \<Rightarrow> op_lift (Ok (parsed @ [l]))
      | Err _ \<Rightarrow> op_bind (quarantine_truncated_journal_tail H run_id (last ?ph)) (\<lambda>_.
          op_bind (rewrite_journal_file H run_id parsed b) (\<lambda>_. op_lift (Ok parsed)))
      | Panic \<Rightarrow> op_lift Panic))" if ne: "?ph \<noteq> []"
  proof (cases "p = []")
    case True
    then have "ls \<noteq> []" using ne by simp
    then have "last ls \<in> L" using assms(2) last_in_set by blast
    from codec_parse [OF assms(1) this] have "dh_line_parse H (last ?ph) = Ok (last ls)"
      using True \<open>ls \<noteq> []\<close> by (simp add: last_map)
    then show ?thesis by (auto intro!: kept)
  next
    case False
    then have "butlast ?ph = map (line_text H) ls @ butlast p" by (simp add: butlast_append)
    then have parsed: "\<exists>q. xs = ls @ q" if "parse_journal_lines H (butlast ?ph) = Ok xs" for xs
      using that parse_lines_append [OF assms(1,2), of "butlast p"] by (cases "parse_journal_lines H (butlast p)") auto
    show ?thesis
    proof (rule kept_bind_lift)
      fix xs
      assume "parse_journal_lines H (butlast ?ph) = Ok xs"
      then obtain q where "xs = ls @ q" using parsed by blast
      then show "lines_kept H ls (case dh_line_parse H (last ?ph) of
            Ok l \<Rightarrow> op_lift (Ok (xs @ [l]))
          | Err _ \<Rightarrow> op_bind (quarantine_truncated_journal_tail H run_id (last ?ph)) (\<lambda>_.
              op_bind (rewrite_journal_file H run_id xs b) (\<lambda>_. op_lift (Ok xs)))
          | Panic \<Rightarrow> op_lift Panic)"
        by (cases "dh_line_parse H (last ?ph)") (simp_all only: outcome.case kept_lift repair)
    qed
  qed
  show ?thesis unfolding parse_journal_text_def split Let_def prod.case f
    by (cases "?ph = []"; cases u) (simp_all only: if_True if_False simp_thms kept_lift open')
qed

lemma kept_read_or_missing:
  assumes "\<And>t. triple (\<lambda>d. journal_has H ls d \<and> sel d = Some t) (f t) (\<lambda>_. journal_has H ls) (journal_has H ls)"
    and "lines_kept H ls g" and "\<And>d n. sel (d\<lparr>df_calls := n\<rparr>) = sel d"
  shows "lines_kept H ls (read_or_missing (read_text H sel) f g)"
proof (rule tripleI)
  fix d
  assume d: "journal_has H ls d"
  let ?d1 = "d\<lparr>df_calls := Suc (df_calls d)\<rparr>"
  have d1: "journal_has H ls ?d1" using d by (simp add: stable_calls)
  have f: "case f t ?d1 of (Ok x, e) \<Rightarrow> journal_has H ls e | (_, e) \<Rightarrow> journal_has H ls e" if "sel d = Some t" for t
    using assms(1) [of t] d1 that assms(3) by (simp add: triple_def)
  have g: "case g ?d1 of (Ok x, e) \<Rightarrow> journal_has H ls e | (_, e) \<Rightarrow> journal_has H ls e"
    using assms(2) d1 by (simp add: triple_def)
  define r where "r = fst (read_text H sel d)"
  have r: "read_text H sel d = (r, ?d1)"
    by (auto simp: r_def read_text_def sys_def op_bind_def assms(3) split: io_outcome.splits option.splits)
  have sel: "sel d = Some t" if "r = Ok t" for t
    using that by (auto simp: r_def read_text_def sys_def op_bind_def assms(3) split: io_outcome.splits option.splits if_splits)
  then show "case read_or_missing (read_text H sel) f g d of (Ok x, d1) \<Rightarrow> journal_has H ls d1 | (_, d1) \<Rightarrow> journal_has H ls d1"
    using r sel f g d1 by (cases r) (auto simp: read_or_missing_def split: io_error.splits)
qed

lemma kept_read_journal:
  assumes "journal_codec H L" and "set ls \<subseteq> L"
  shows "lines_kept H ls (read_journal_lines_impl H run_id b)"
proof -
  have "triple (\<lambda>d. journal_has H ls d \<and> df_journal d = Some t) (parse_journal_text H run_id t b)
      (\<lambda>_. journal_has H ls) (journal_has H ls)" for t
  proof (cases "prefix (committed H ls) t")
    case True
    show ?thesis by (rule triple_conseq [OF kept_parse_text [OF assms True]]) auto
  qed (auto simp: triple_def journal_has_def jtext_def)
  then show ?thesis
    unfolding read_journal_lines_impl_def by (intro kept_bind kept_read_or_missing kept_lift) simp_all
qed

lemma kept_load:
  assumes "journal_codec H L" and "set ls \<subseteq> L"
  shows "lines_kept H ls (load_record H run_id b)"
proof -
  note read = kept_read_journal [OF assms]
  have found: "lines_kept H ls (op_bind (op_lift (io_data (dh_record_parse H t))) (\<lambda>r.
      op_bind (read_journal_lines_impl H run_id b) (\<lambda>ls. op_lift (Ok (apply_journal_tail_to_record r ls)))))" for t
    by (intro kept read)
  have "lines_kept H ls (materialize_record_from_journal_lines H run_id xs)" for xs
    by (auto simp: triple_def materialize_record_from_journal_lines_def Let_def split: option.splits)
  then have missing': "lines_kept H ls (op_bind (read_journal_lines_impl H run_id b) (\<lambda>ls.
      materialize_record_from_journal_lines H run_id ls))" by (intro kept read)
  show ?thesis unfolding load_record_def
    by (intro kept_bind kept_lift kept_read_or_missing triple_conseq [OF found] missing') simp_all
qed

lemma kept_next:
  assumes "journal_codec H L" and "set ls \<subseteq> L"
  shows "lines_kept H ls (next_journal_sequence_under_run_lock H run_id)"
  unfolding next_journal_sequence_under_run_lock_def by (intro kept kept_read_journal [OF assms])

lemma kept_started:
  assumes "journal_codec H L" and "set ls \<subseteq> L"
  shows "lines_kept H ls (sync_supervisor_started H run_id command)"
proof -
  have "lines_kept H ls (start_under_run_lock H run_id command)"
  proof (rule triple_pre)
    fix d0
    assume d0: "journal_has H ls d0"
    let ?r = "\<lambda>q t. DurableRunRecord_pending H run_id (NativeCommand command) d0
        \<lparr>dr_status := RunRunning, dr_attempt_transition_id := Some t, dr_event_sequence := q\<rparr>"
    have "lines_kept H ls (op_bind (next_journal_sequence_under_run_lock H run_id) (\<lambda>q.
        let t = new_supervisor_attempt_transition_id run_id q in
        op_bind (\<lambda>d. append_journal_line H run_id (started_line q (dh_now H (df_calls d)) command t) d) (\<lambda>_.
        store_durable_run H (?r q t))))" unfolding Let_def by (intro kept kept_next [OF assms])
    with d0 show "triple (\<lambda>x. x = d0) (start_under_run_lock H run_id command) (\<lambda>_. journal_has H ls) (journal_has H ls)"
      by (simp add: triple_def start_under_run_lock_def Let_def)
  qed
  then show ?thesis unfolding sync_supervisor_started_def by (intro kept)
qed

lemma kept_terminal:
  assumes "journal_codec H L" and "set ls \<subseteq> L"
  shows "lines_kept H ls (sync_supervisor_terminal H run_id st code)"
proof -
  have "lines_kept H ls (case find f xs of
      Some l \<Rightarrow> store_durable_run H (r l)
    | None \<Rightarrow> op_bind (next_journal_sequence_under_run_lock H run_id) (\<lambda>q.
        op_bind (\<lambda>d. append_journal_line H run_id (terminal_line q (dh_now H (df_calls d)) st code t) d) (\<lambda>_.
        store_durable_run H (r' q))))" for f xs r r' t
    by (cases "find f xs") (auto intro!: kept kept_next [OF assms])
  then show ?thesis
    unfolding sync_supervisor_terminal_def terminal_under_run_lock_def Let_def
      load_durable_run_or_default_under_run_lock_def
    by (intro kept kept_load [OF assms] kept_read_journal [OF assms])
qed

lemma kept_durable_op:
  assumes "journal_codec H L" and "set ls \<subseteq> L" and "journal_has H ls d"
  shows "journal_has H ls (run_durable_op H run_id op d)"
proof (cases op)
  case (OpStart command)
  then show ?thesis using triple_snd [OF kept_started [OF assms(1,2)] assms(3)] by simp
next
  case (OpTerminal st code)
  then show ?thesis using triple_snd [OF kept_terminal [OF assms(1,2)] assms(3)] by simp
next
  case (OpReconcile st code)
  note t = triple_snd [OF kept_terminal [OF assms(1,2), of run_id st code]]
  from t [OF assms(3)] t [OF t [OF assms(3)]] OpReconcile
  show ?thesis by (auto simp: sync_supervisor_terminal_with_reconcile_def split: prod.splits outcome.splits)
next
  case OpLoad
  then show ?thesis using triple_snd [OF kept_load [OF assms(1,2)] assms(3)] by (simp add: load_durable_run_def)
qed

lemma kept_durable_ops:
  assumes "journal_codec H L" and "set ls \<subseteq> L"
  shows "journal_has H ls d \<Longrightarrow> journal_has H ls (run_durable_ops H run_id ops d)"
  unfolding run_durable_ops_def
  by (induction ops arbitrary: d) (simp_all add: kept_durable_op [OF assms])

subsection \<open>A concrete codec\<close>

text \<open>
  A printer and parser of the lines and records of one supervised run, which
  meets the assumptions: the fields that vary, as a list of numbers.
\<close>

definition nats_text :: "nat list \<Rightarrow> string" where
  "nats_text ns = CHR ''{'' # concat (map (\<lambda>n. show_nat n @ '','') ns) @ ''}''"

definition parse_nats :: "string \<Rightarrow> nat list option" where
  "parse_nats s = (if s \<noteq> [] \<and> last s = CHR ''}''
     then Some (map digits_value (butlast (split_on (CHR '','') (butlast (tl s))))) else None)"

definition example_line_json :: "DurableRunJournalLine \<Rightarrow> (string, string) outcome" where
  "example_line_json l = Ok (nats_text ([if jl_kind l = ''supervisor_started'' then 0 else 1,
     unat (jl_sequence l), unat (jl_at l)] @ map of_char (case jl_transition_id l of Some t \<Rightarrow> t | None \<Rightarrow> [])))"

definition example_line_parse ::
  "string list \<Rightarrow> DurableRunStatus \<Rightarrow> i32 option \<Rightarrow> string \<Rightarrow> (string, DurableRunJournalLine) outcome" where
  "example_line_parse command st code s = (case parse_nats s of
       Some (k # q # n # t) \<Rightarrow>
         Ok (if k = 0 then started_line (of_nat q) (of_nat n) command (map char_of t)
             else terminal_line (of_nat q) (of_nat n) st code (map char_of t))
     | _ \<Rightarrow> Err ''EOF while parsing an object'')"

definition example_lines :: "string list \<Rightarrow> DurableRunStatus \<Rightarrow> i32 option \<Rightarrow> DurableRunJournalLine set" where
  "example_lines command st code = op_lines (OpStart command) \<union> op_lines (OpTerminal st code)"

lemma show_nat_chars: "c \<in> set (show_nat n) \<Longrightarrow> of_char c < (58 :: nat) \<and> 47 < (of_char c :: nat)"
  using show_nat_digits [of n] by (auto simp: list_all_iff is_ascii_digit_def)

lemma nats_chars:
  assumes "c \<in> set (concat (map (\<lambda>n. show_nat n @ '','') ns))"
  shows "of_char c < (58 :: nat) \<and> 43 < (of_char c :: nat)"
proof -
  obtain n where "c \<in> set (show_nat n) \<or> c = CHR '',''" using assms by (auto split: if_splits)
  then show ?thesis using show_nat_chars [of c n] by auto
qed

lemma split_nats: "split_on (CHR '','') (concat (map (\<lambda>n. show_nat n @ '','') ns)) = map show_nat ns @ [[]]"
proof (induction ns)
  case (Cons n ns)
  have "CHR '','' \<notin> set (show_nat n)" using show_nat_chars [of "CHR '',''" n] by auto
  with Cons show ?case by (simp add: split_on_append)
qed simp

lemma parse_nats_text: "parse_nats (nats_text ns) = Some ns"
proof -
  let ?c = "concat (map (\<lambda>n. show_nat n @ '','') ns)"
  have "butlast (tl (nats_text ns)) = ?c" by (simp add: nats_text_def butlast_append)
  moreover have "last (nats_text ns) = CHR ''}''" "nats_text ns \<noteq> []" by (simp_all add: nats_text_def)
  ultimately show ?thesis unfolding parse_nats_def by (simp add: split_nats comp_def)
qed

lemma parse_nats_torn:
  assumes "0 < k" and "k < length (nats_text ns)"
  shows "parse_nats (take k (nats_text ns)) = None"
proof -
  let ?c = "concat (map (\<lambda>n. show_nat n @ '','') ns)"
  have t: "take k (nats_text ns) = CHR ''{'' # take (k - 1) ?c"
    using assms by (cases k) (simp_all add: nats_text_def)
  have "last (take k (nats_text ns)) \<noteq> CHR ''}''"
  proof (cases "take (k - 1) ?c = []")
    case False
    then have "last (take (k - 1) ?c) \<in> set ?c" by (meson in_set_takeD last_in_set)
    from nats_chars [OF this] t False show ?thesis by auto
  qed (simp add: t)
  then show ?thesis by (simp add: parse_nats_def)
qed

lemma map_char_of_char: "map (\<lambda>x. char_of (of_char x :: nat)) t = t"
  by (induction t) simp_all

lemma example_roundtrip:
  assumes "l \<in> example_lines command st code"
  shows "\<exists>ns. example_line_json l = Ok (nats_text ns) \<and> example_line_parse command st code (nats_text ns) = Ok l"
  using assms
  by (auto simp: example_lines_def example_line_json_def example_line_parse_def parse_nats_text started_line_def
        terminal_line_def comp_def map_char_of_char)

lemma example_codec:
  assumes "dh_line_json H = example_line_json" and "dh_line_parse H = example_line_parse command st code"
  shows "journal_codec H (example_lines command st code)"
  unfolding journal_codec_def assms
proof
  fix l
  assume "l \<in> example_lines command st code"
  then obtain ns where ns: "example_line_json l = Ok (nats_text ns)"
    "example_line_parse command st code (nats_text ns) = Ok l" using example_roundtrip by blast
  let ?s = "tl (nats_text ns)"
  have t: "nats_text ns = CHR ''{'' # ?s" by (simp add: nats_text_def)
  have chars: "of_char c < (128 :: nat) \<and> 43 < (of_char c :: nat)" if "c \<in> set ?s" for c
  proof -
    from that have "c \<in> set (concat (map (\<lambda>n. show_nat n @ '','') ns)) \<or> c = CHR ''}''" by (auto simp: nats_text_def split: if_splits)
    then show ?thesis using nats_chars [of c ns] by auto
  qed
  have "example_line_parse command st code (take n (nats_text ns)) = Err ''EOF while parsing an object''"
    if "n \<le> length ?s" "0 < n" for n
    using parse_nats_torn [of n ns] that t by (simp add: example_line_parse_def less_Suc_eq_le nats_text_def)
  then show "\<exists>s. example_line_json l = Ok (CHR ''{'' # s) \<and> list_all (\<lambda>c. of_char c < (128 :: nat)) s \<and> nl \<notin> set s \<and>
      example_line_parse command st code (CHR ''{'' # s) = Ok l \<and>
      (\<forall>n \<le> length s. 0 < n \<longrightarrow> (\<exists>e. example_line_parse command st code (take n (CHR ''{'' # s)) = Err e))"
    using ns chars chars [of nl] t by (intro exI [of _ ?s]) (auto simp: list_all_iff nl_def)
qed

definition example_host :: "(io_call \<Rightarrow> nat \<Rightarrow> io_outcome) \<Rightarrow> DurableHost" where
  "example_host io =
     \<lparr>dh_io = io, dh_now = (\<lambda>_. 0), dh_line_json = example_line_json,
      dh_line_parse = example_line_parse [''serve''] RunStSucceeded (Some 0),
      dh_record_json = (\<lambda>r. Ok (nats_text [if dr_status r = RunRunning then 0 else 1, unat (dr_created_at r)])),
      dh_record_parse = (\<lambda>s. case parse_nats s of
         Some [k, c] \<Rightarrow> Ok \<lparr>dr_schema_version = DURABLE_RUN_SCHEMA_VERSION, dr_run_id = ''web'',
            dr_status = (if k = 0 then RunRunning else RunStSucceeded), dr_created_at = of_nat c,
            dr_operation = OperationIrEnvelope_new (NativeCommand [''serve'']),
            dr_event_sequence = (if k = 0 then 1 else 2), dr_exit_code = (if k = 0 then None else Some 0),
            dr_attempt_transition_id = Some (new_supervisor_attempt_transition_id ''web'' 1)\<rparr>
       | _ \<Rightarrow> Err ''invalid record'')\<rparr>"

definition no_files :: DurableFiles where
  "no_files = \<lparr>df_snapshot = None, df_journal = None, df_tail = None, df_lock = False, df_calls = 0\<rparr>"

lemma example_host_codec: "journal_codec (example_host io) (example_lines [''serve''] RunStSucceeded (Some 0))"
  by (rule example_codec) (simp_all add: example_host_def)

text \<open>Renames and the first write of a body that fail.\<close>

definition example_failures :: "io_call \<Rightarrow> nat \<Rightarrow> io_outcome" where
  "example_failures c n =
     (if c = RenameFile then IoFail (IoError OtherIo ''No space left on device'') 0
      else if c = WriteBody \<and> n < 40 then IoFail (IoError OtherIo ''No space left on device'') 5 else IoDone)"

lemma example_failures_recoverable: "recoverable_host (example_host example_failures)"
  by (simp add: recoverable_host_def reads_found_def newlines_done_def removals_done_def example_host_def
        example_failures_def)

text \<open>
  C12: Whatever sequence of starts, terminal syncs, reconciled terminal syncs and
  loads runs on the files of a run, and wherever their file system calls fail
  or the process dies, the committed lines of the journal stay where they were.
  As long as the calls that fail are not the write of the newline of an append or
  the removal of an emptied journal, and a read reports only a missing file as
  not found, the journal afterwards holds those lines and new ones after them,
  with at most the torn rest of one append behind: the sequence numbers go on
  counting the lines, every start line has the attempt id of its own sequence,
  and no attempt has two terminal lines.  The lines are those whose JSON is ASCII
  (\<open>journal_codec\<close>).  (When such a newline is lost, the next
  append spoils the line: \<open>lost_newline_corrupts\<close>; a load that overlaps an
  append is not one step: \<open>stale_repair_drops_line\<close>.)
\<close>

theorem durable_journal_invariant:
  assumes "journal_codec H L" and "\<Union> (op_lines ` set ops) \<subseteq> L"
    and "journal_wf run_id ls" and "journal_holds H L ls d" and "length ls + 2 * length ops < 2 ^ 64"
  shows "journal_has H ls (run_durable_ops H run_id ops d) \<and>
    (recoverable_host H \<longrightarrow> (\<exists>new. length new \<le> 2 * length ops \<and> journal_wf run_id (ls @ new) \<and>
      journal_holds H L (ls @ new) (run_durable_ops H run_id ops d)))"
proof (intro conjI impI)
  have "set ls \<subseteq> L" "journal_has H ls d" using assms(4) by (auto simp: journal_holds_def journal_has_def)
  then show "journal_has H ls (run_durable_ops H run_id ops d)" by (intro kept_durable_ops [OF assms(1)])
  assume host: "recoverable_host H"
  have "journal_extends H L run_id ls 0 d"
    unfolding journal_extends_def using assms(3,4) by (intro exI [of _ "[]"]) simp
  from run_durable_ops_extends [OF assms(1) host assms(2) this] assms(5)
  show "\<exists>new. length new \<le> 2 * length ops \<and> journal_wf run_id (ls @ new) \<and>
      journal_holds H L (ls @ new) (run_durable_ops H run_id ops d)" by (simp add: journal_extends_def)
qed

theorem durable_journal_invariant_witness:
  "\<exists>d new. let H = example_host example_failures; ops = [OpReconcile RunStSucceeded (Some 0), OpStart [''serve''], OpLoad];
       ls = [started_line 1 0 [''serve''] (new_supervisor_attempt_transition_id ''web'' 1)];
       L = example_lines [''serve''] RunStSucceeded (Some 0) in
     jtext d = committed H ls @ ''{'' \<and> prefix (committed H ls) (jtext (run_durable_ops H ''web'' ops d)) \<and>
     length new \<le> 6 \<and> journal_wf ''web'' (ls @ new) \<and> journal_holds H L (ls @ new) (run_durable_ops H ''web'' ops d)"
proof -
  let ?H = "example_host example_failures" and ?L = "example_lines [''serve''] RunStSucceeded (Some 0)"
  let ?ops = "[OpReconcile RunStSucceeded (Some 0), OpStart [''serve''], OpLoad]"
  let ?l = "started_line 1 0 [''serve''] (new_supervisor_attempt_transition_id ''web'' 1)"
  let ?d = "no_files\<lparr>df_journal := Some (committed ?H [?l] @ ''{'')\<rparr>"
  have l: "?l \<in> ?L" unfolding example_lines_def op_lines.simps by blast
  have "journal_wf ''web'' [?l]" by (simp add: journal_wf_def started_line_def)
  moreover have "torn ?H ?L ''{''"
    unfolding torn_def using l
    by (intro bexI [of _ ?l] exI [of _ 1]) (simp_all add: line_text_def example_host_def example_line_json_def nats_text_def)
  then have "journal_holds ?H ?L [?l] ?d" using l by (auto simp: journal_holds_def jtext_def)
  ultimately have "journal_has ?H [?l] (run_durable_ops ?H ''web'' ?ops ?d) \<and>
    (recoverable_host ?H \<longrightarrow> (\<exists>new. length new \<le> 2 * length ?ops \<and> journal_wf ''web'' ([?l] @ new) \<and>
      journal_holds ?H ?L ([?l] @ new) (run_durable_ops ?H ''web'' ?ops ?d)))"
    by (intro durable_journal_invariant [OF example_host_codec]) (auto simp: example_lines_def)
  then obtain new where "journal_has ?H [?l] (run_durable_ops ?H ''web'' ?ops ?d)" "length new \<le> 6"
    "journal_wf ''web'' ([?l] @ new)" "journal_holds ?H ?L ([?l] @ new) (run_durable_ops ?H ''web'' ?ops ?d)"
    using example_failures_recoverable by auto
  then show ?thesis unfolding Let_def journal_has_def
    by (intro exI [of _ ?d] exI [of _ new]) (simp add: jtext_def)
qed

end
