(* ===== verification/Durable_Recovery.thy ===== *)
theory Durable_Recovery
  imports Durable_Journal
begin

text \<open>
  Loading a durable run: the record a load gives after failures, and the
  executions in which the record and the journal part.
\<close>

section \<open>Reading a journal whose last newline was lost\<close>

lemma repairs_Cons [simp]: "repairs H (l # ls) = reads_found H"
  by (simp add: repairs_def)

text \<open>Whole lines, the last with or without its newline, and at most a torn line behind them.\<close>

definition journal_kept ::
  "DurableHost \<Rightarrow> DurableRunJournalLine set \<Rightarrow> DurableRunJournalLine list \<Rightarrow> DurableFiles \<Rightarrow> bool" where
  "journal_kept H L ls d \<longleftrightarrow> journal_holds H L ls d \<or> journal_open H L ls d"

text \<open>Whole lines, the last with or without its newline.\<close>

definition journal_clean ::
  "DurableHost \<Rightarrow> DurableRunJournalLine set \<Rightarrow> DurableRunJournalLine list \<Rightarrow> DurableFiles \<Rightarrow> bool" where
  "journal_clean H L ls d \<longleftrightarrow> journal_exact H L ls d \<or> journal_open H L ls d"

lemma stable_kept [simp]: "stable (journal_kept H L ls)"
  by (auto simp: stable_def journal_kept_def dest: stableD [OF stable_journal(1)] stableD [OF stable_journal(3)])

lemma journal_clean_kept: "journal_clean H L ls d \<Longrightarrow> journal_kept H L ls d"
  by (auto simp: journal_clean_def journal_kept_def intro: journal_exact_holds)

lemma journal_kept_snapshot [simp]: "journal_kept H L ls (d\<lparr>df_snapshot := s\<rparr>) = journal_kept H L ls d"
  by (simp add: journal_kept_def journal_open_def jtext_def)

lemma parse_text_open:
  assumes "journal_codec H L" and "set ls \<subseteq> L" and "l \<in> L"
  shows "parse_journal_text H run_id (committed H ls @ line_text H l) b = op_lift (Ok (ls @ [l]))"
proof -
  have s: "line_text H l \<noteq> []" "nl \<notin> set (line_text H l)"
    using codec_open [OF assms(1,3)] codec_no_nl [OF assms(1,3)] by auto
  show ?thesis
    unfolding parse_journal_text_def split_physical_open [OF assms(1,2) s]
    using filter_lines [OF assms(1,2)] line_not_blank [OF assms(1,3)]
    by (simp add: parse_committed [OF assms(1,2)] codec_parse [OF assms(1,3)] butlast_append del: filter_map)
qed

lemma journal_open_text:
  assumes "journal_codec H L" and "journal_open H L ls d"
  obtains l where "l \<in> L" and "set (butlast ls) \<subseteq> L" and "ls = butlast ls @ [l]"
    and "df_journal d = Some (committed H (butlast ls) @ line_text H l)"
proof -
  from assms(2) obtain xs l where ls: "ls = xs @ [l]" by (cases ls rule: rev_cases) (auto simp: journal_open_def)
  with assms(2) have j: "jtext d = committed H xs @ line_text H l" "set ls \<subseteq> L" by (auto simp: journal_open_def)
  moreover have "line_text H l \<noteq> []" using codec_open [OF assms(1), of l] j(2) ls by auto
  ultimately have "df_journal d = Some (committed H xs @ line_text H l)"
    by (cases "df_journal d") (auto simp: jtext_def)
  with j(2) ls show thesis by (intro that [of l]) auto
qed

lemma triple_read_fixed:
  assumes "reads_found H" and "stable P"
    and "\<And>d t. P d \<Longrightarrow> df_journal d = Some t \<Longrightarrow> parse_journal_text H run_id t b = op_lift (Ok ls)"
    and "\<And>d. P d \<Longrightarrow> df_journal d = None \<Longrightarrow> ls = []"
  shows "triple P (read_journal_lines_impl H run_id b) (\<lambda>xs d. xs = ls \<and> P d) P"
proof -
  have found: "triple (\<lambda>d. P d \<and> df_journal d = Some t) (parse_journal_text H run_id t b) (\<lambda>xs d. xs = ls \<and> P d) P" for t
    using assms(3) by (auto simp: triple_def op_lift_def)
  have none: "triple (\<lambda>d. P d \<and> df_journal d = None) (op_lift (Ok [])) (\<lambda>xs d. xs = ls \<and> P d) P"
    by (rule triple_lift) (use assms(4) in auto)
  show ?thesis
    unfolding read_journal_lines_impl_def
    by (rule triple_bind [OF triple_lift [where Q = "\<lambda>_. P"]
          triple_read_or_missing [OF assms(1,2) found none]]) auto
qed

lemma triple_read_exact:
  assumes "journal_codec H L" and "reads_found H"
  shows "triple (journal_exact H L ls) (read_journal_lines_impl H run_id b)
     (\<lambda>xs d. xs = ls \<and> journal_exact H L ls d) (journal_exact H L ls)"
proof (rule triple_read_fixed [OF assms(2) stable_journal(2)])
  show "parse_journal_text H run_id t b = op_lift (Ok ls)" if "journal_exact H L ls d" "df_journal d = Some t" for d t
    using that parse_text_exact [OF assms(1)] by (simp add: journal_exact_def jtext_def)
  show "ls = []" if "journal_exact H L ls d" "df_journal d = None" for d
    using that by (cases ls) (simp_all add: journal_exact_def jtext_def)
qed

lemma triple_read_open:
  assumes "journal_codec H L" and "reads_found H"
  shows "triple (journal_open H L ls) (read_journal_lines_impl H run_id b)
     (\<lambda>xs d. xs = ls \<and> journal_open H L ls d) (journal_open H L ls)"
proof (rule triple_read_fixed [OF assms(2) stable_journal(3)])
  fix d t
  assume "journal_open H L ls d" "df_journal d = Some t"
  then show "parse_journal_text H run_id t b = op_lift (Ok ls)"
    by (elim journal_open_text [OF assms(1)]) (metis option.inject parse_text_open [OF assms(1)])
next
  fix d
  assume "journal_open H L ls d" "df_journal d = None"
  then show "ls = []" by (elim journal_open_text [OF assms(1)]) simp
qed

lemma triple_read_kept:
  assumes "journal_codec H L" and "reads_found H" and "ls \<noteq> []"
  shows "triple (journal_kept H L ls) (read_journal_lines_impl H run_id b)
     (\<lambda>xs d. xs = ls \<and> journal_clean H L ls d) (journal_kept H L ls)"
proof -
  have "triple (journal_holds H L ls) (read_journal_lines_impl H run_id b)
     (\<lambda>xs d. xs = ls \<and> journal_clean H L ls d) (journal_kept H L ls)"
    by (rule triple_conseq [OF triple_read_journal [OF assms(1)]])
      (use assms(2,3) in \<open>auto simp: repairs_def journal_clean_def journal_kept_def\<close>)
  moreover have "triple (journal_open H L ls) (read_journal_lines_impl H run_id b)
     (\<lambda>xs d. xs = ls \<and> journal_clean H L ls d) (journal_kept H L ls)"
    by (rule triple_conseq [OF triple_read_open [OF assms(1,2)]]) (auto simp: journal_clean_def journal_kept_def)
  ultimately show ?thesis by (simp add: triple_def journal_kept_def)
qed

section \<open>The snapshot under journal operations\<close>

definition keeps_snapshot :: "'a file_op \<Rightarrow> bool" where
  "keeps_snapshot m \<longleftrightarrow> (\<forall>d. df_snapshot (snd (m d)) = df_snapshot d)"

named_theorems keeps \<open>operations that leave the snapshot alone\<close>

lemma keeps_bind [keeps]: "keeps_snapshot m \<Longrightarrow> (\<And>x. keeps_snapshot (f x)) \<Longrightarrow> keeps_snapshot (op_bind m f)"
  unfolding keeps_snapshot_def op_bind_def by (auto split: prod.splits outcome.splits) (metis snd_conv)+

lemma keeps_lift [keeps]: "keeps_snapshot (op_lift r)"
  by (simp add: keeps_snapshot_def op_lift_def)

lemma keeps_sys [keeps]: "keeps_snapshot (sys H c)"
  by (simp add: keeps_snapshot_def sys_def split: io_outcome.splits)

lemma keeps_sys_set [keeps]: "(\<And>d. df_snapshot (f d) = df_snapshot d) \<Longrightarrow> keeps_snapshot (sys_set H c f)"
  unfolding sys_set_def by (intro keeps) (simp add: keeps_snapshot_def)

lemma keeps_write_all [keeps]: "(\<And>s d. df_snapshot (put s d) = df_snapshot d) \<Longrightarrow> keeps_snapshot (write_all H c put s)"
  by (simp add: keeps_snapshot_def write_all_def Let_def split: io_outcome.splits)

lemma keeps_append_sets [simp]:
  "df_snapshot (append_journal s d) = df_snapshot d" "df_snapshot (append_tail s d) = df_snapshot d"
  by (simp_all add: append_journal_def append_tail_def)

lemma keeps_lock [keeps]: "keeps_snapshot m \<Longrightarrow> keeps_snapshot (with_run_lock H run_id m)"
  unfolding with_run_lock_def by (intro keeps) simp_all

lemma keeps_rewrite_locked [keeps]: "keeps_snapshot (rewrite_journal_file_locked H ls)"
  unfolding rewrite_journal_file_locked_def
  by (auto intro!: keeps) (simp add: keeps_snapshot_def sys_set_def sys_def op_bind_def split: io_outcome.splits)

lemma keeps_rewrite [keeps]: "keeps_snapshot (rewrite_journal_file H run_id ls b)"
  unfolding rewrite_journal_file_def by (auto intro!: keeps)

lemma keeps_quarantine [keeps]: "keeps_snapshot (quarantine_truncated_journal_tail H run_id bad)"
  unfolding quarantine_truncated_journal_tail_def by (intro keeps) simp_all

lemma keeps_parse_text [keeps]: "keeps_snapshot (parse_journal_text H run_id t b)"
  unfolding parse_journal_text_def Let_def by (auto intro!: keeps split: prod.splits outcome.splits)

lemma keeps_read_text [keeps]: "keeps_snapshot (read_text H sel)"
  unfolding read_text_def by (intro keeps) (simp add: keeps_snapshot_def)

lemma keeps_read_or_missing [keeps]:
  assumes "keeps_snapshot m" and "\<And>t. keeps_snapshot (f t)" and "keeps_snapshot g"
  shows "keeps_snapshot (read_or_missing m f g)"
  unfolding keeps_snapshot_def
proof
  fix d
  obtain r d1 where r: "m d = (r, d1)" by (cases "m d")
  then have d1: "df_snapshot d1 = df_snapshot d" using assms(1) by (metis keeps_snapshot_def snd_conv)
  show "df_snapshot (snd (read_or_missing m f g d)) = df_snapshot d"
    using r d1 assms(2,3) by (auto simp: read_or_missing_def keeps_snapshot_def split: outcome.splits io_error.splits)
qed

lemma keeps_read_journal [keeps]: "keeps_snapshot (read_journal_lines_impl H run_id b)"
  unfolding read_journal_lines_impl_def by (intro keeps)

lemma keeps_next [keeps]: "keeps_snapshot (next_journal_sequence_under_run_lock H run_id)"
  unfolding next_journal_sequence_under_run_lock_def by (intro keeps)

lemma keeps_append [keeps]: "keeps_snapshot (append_journal_line H run_id l)"
  unfolding append_journal_line_def by (intro keeps) simp_all

lemma keeps_load [keeps]: "keeps_snapshot (load_record H run_id b)"
  unfolding load_record_def
  by (intro keeps) (simp add: keeps_snapshot_def materialize_record_from_journal_lines_def Let_def split: option.splits)

lemma triple_frame:
  assumes "triple P m Q E" and "keeps_snapshot m"
  shows "triple (\<lambda>d. P d \<and> F (df_snapshot d)) m (\<lambda>x d. Q x d \<and> F (df_snapshot d)) (\<lambda>d. E d \<and> F (df_snapshot d))"
proof (rule tripleI)
  fix d
  assume d: "P d \<and> F (df_snapshot d)"
  have "df_snapshot (snd (m d)) = df_snapshot d" using assms(2) by (simp add: keeps_snapshot_def)
  moreover have "case m d of (Ok x, d1) \<Rightarrow> Q x d1 | (_, d1) \<Rightarrow> E d1" using assms(1) d by (simp add: triple_def)
  ultimately show "case m d of (Ok x, d1) \<Rightarrow> Q x d1 \<and> F (df_snapshot d1) | (_, d1) \<Rightarrow> E d1 \<and> F (df_snapshot d1)"
    using d by (cases "m d"; cases "fst (m d)") auto
qed

section \<open>The snapshot\<close>

definition record_codec :: "DurableHost \<Rightarrow> DurableRunRecord set \<Rightarrow> bool" where
  "record_codec H R \<longleftrightarrow>
     (\<forall>r \<in> R. \<exists>s. dh_record_json H r = Ok s \<and> valid_utf8 s \<and> dh_record_parse H s = Ok r)"

definition snapshot_of :: "DurableHost \<Rightarrow> DurableRunRecord \<Rightarrow> string option \<Rightarrow> bool" where
  "snapshot_of H r s \<longleftrightarrow> (\<exists>t. s = Some t \<and> valid_utf8 t \<and> dh_record_parse H t = Ok r)"

lemma triple_store_record:
  assumes "record_codec H R" and "r \<in> R" and "stable P" and "\<And>d s. P d \<Longrightarrow> P (d\<lparr>df_snapshot := s\<rparr>)"
    and "\<And>d. E d \<longleftrightarrow> P d \<and> F (df_snapshot d)"
  shows "triple E (store_durable_run H r) (\<lambda>_ d. P d \<and> snapshot_of H r (df_snapshot d)) E"
proof -
  obtain t where t: "dh_record_json H r = Ok t" "valid_utf8 t" "dh_record_parse H t = Ok r"
    using assms(1,2) by (auto simp: record_codec_def)
  have st: "stable E" using assms(3) unfolding stable_def assms(5) by simp
  have ren: "triple E (sys_set H RenameFile (\<lambda>d. d\<lparr>df_snapshot := Some t\<rparr>))
      (\<lambda>_ d. P d \<and> snapshot_of H r (df_snapshot d)) E"
    by (rule triple_sys_set [OF st]) (use t assms(4,5) in \<open>auto simp: snapshot_of_def\<close>)
  show ?thesis
    unfolding store_durable_run_def write_atomic_json_def io_data_def t(1) map_err.simps op_bind_Ok
    by (rule triple_bind [OF triple_lift [where Q = "\<lambda>_. E"]
          triple_bind [OF triple_sys [OF st] triple_bind [OF triple_sys [OF st] ren]]])
qed

text \<open>
  What a load gives when the snapshot is that of \<open>r\<close> and the journal, in a state
  of \<open>J\<close>, is read as the lines \<open>ls\<close>.
\<close>

lemma triple_load_value:
  assumes "reads_found H" and "stable J" and "\<And>d. J' d \<Longrightarrow> J d"
    and "triple J (read_journal_lines_impl H run_id b) (\<lambda>xs d. xs = ls \<and> J' d) J"
  shows "triple (\<lambda>d. J d \<and> snapshot_of H r (df_snapshot d)) (load_record H run_id b)
     (\<lambda>x d. x = apply_journal_tail_to_record r ls \<and> J' d \<and> snapshot_of H r (df_snapshot d))
     (\<lambda>d. J d \<and> snapshot_of H r (df_snapshot d))"
    (is "triple ?P _ ?Q _")
proof -
  have st: "stable ?P" using assms(2) unfolding stable_def by simp
  have j: "triple ?P (read_journal_lines_impl H run_id b)
      (\<lambda>xs d. (xs = ls \<and> J' d) \<and> snapshot_of H r (df_snapshot d)) ?P"
    by (rule triple_frame [OF assms(4) keeps_read_journal])
  have j': "triple ?P (op_bind (read_journal_lines_impl H run_id b) (\<lambda>ls. op_lift (Ok (apply_journal_tail_to_record r ls)))) ?Q ?P"
    by (rule triple_bind [OF j triple_lift]) (auto intro: assms(3))
  have some: "triple (\<lambda>d. ?P d \<and> df_snapshot d = Some t) (op_bind (op_lift (io_data (dh_record_parse H t))) (\<lambda>r.
      op_bind (read_journal_lines_impl H run_id b) (\<lambda>ls. op_lift (Ok (apply_journal_tail_to_record r ls))))) ?Q ?P" for t
  proof (cases "dh_record_parse H t = Ok r")
    case True
    show ?thesis unfolding True io_data_def map_err.simps op_bind_Ok by (rule triple_conseq [OF j']) auto
  next
    case False
    then show ?thesis by (auto simp: triple_def snapshot_of_def)
  qed
  have none: "triple (\<lambda>d. ?P d \<and> df_snapshot d = None) m ?Q ?P" for m
    by (auto simp: triple_def snapshot_of_def)
  show ?thesis
    unfolding load_record_def
    by (rule triple_bind [OF triple_lift [where Q = "\<lambda>_. ?P"] triple_read_or_missing [OF assms(1) st some none]]) auto
qed

lemma triple_load_holds:
  assumes "journal_codec H L" and "reads_found H" and "ls \<noteq> []"
  shows "triple (\<lambda>d. journal_holds H L ls d \<and> snapshot_of H r (df_snapshot d)) (load_record H run_id b)
     (\<lambda>x d. x = apply_journal_tail_to_record r ls \<and> journal_exact H L ls d \<and> snapshot_of H r (df_snapshot d))
     (\<lambda>d. journal_holds H L ls d \<and> snapshot_of H r (df_snapshot d))"
  using triple_load_value [OF assms(2) stable_journal(1) journal_exact_holds triple_read_journal [OF assms(1)]] assms(2,3)
  by (simp add: repairs_def)

lemma triple_load_kept:
  assumes "journal_codec H L" and "reads_found H" and "ls \<noteq> []"
  shows "triple (\<lambda>d. journal_kept H L ls d \<and> snapshot_of H r (df_snapshot d)) (load_record H run_id b)
     (\<lambda>x d. x = apply_journal_tail_to_record r ls \<and> journal_clean H L ls d \<and> snapshot_of H r (df_snapshot d))
     (\<lambda>d. journal_kept H L ls d \<and> snapshot_of H r (df_snapshot d))"
  by (rule triple_load_value [OF assms(2) stable_kept journal_clean_kept triple_read_kept [OF assms]])

section \<open>One attempt\<close>

definition run_record ::
  "string \<Rightarrow> string list \<Rightarrow> u64 \<Rightarrow> DurableRunStatus \<Rightarrow> i32 option \<Rightarrow> u64 \<Rightarrow> DurableRunRecord" where
  "run_record run_id command created st code q =
     \<lparr>dr_schema_version = DURABLE_RUN_SCHEMA_VERSION, dr_run_id = run_id, dr_status = st, dr_created_at = created,
      dr_operation = OperationIrEnvelope_new (NativeCommand command), dr_event_sequence = q, dr_exit_code = code,
      dr_attempt_transition_id = Some (new_supervisor_attempt_transition_id run_id 1)\<rparr>"

abbreviation first_started :: "string \<Rightarrow> string list \<Rightarrow> u64 \<Rightarrow> DurableRunJournalLine" where
  "first_started run_id command n \<equiv> started_line 1 n command (new_supervisor_attempt_transition_id run_id 1)"

abbreviation first_terminal :: "string \<Rightarrow> DurableRunStatus \<Rightarrow> i32 option \<Rightarrow> u64 \<Rightarrow> DurableRunJournalLine" where
  "first_terminal run_id st code m \<equiv> terminal_line 2 m st code (new_supervisor_attempt_transition_id run_id 1)"

text \<open>The files after the start, and after the terminal line is in the journal.\<close>

definition run_started :: "DurableHost \<Rightarrow> DurableRunJournalLine set \<Rightarrow> string \<Rightarrow> string list \<Rightarrow> u64 \<Rightarrow> u64 \<Rightarrow> DurableFiles \<Rightarrow> bool" where
  "run_started H L run_id command c n d \<longleftrightarrow>
     journal_holds H L [first_started run_id command n] d \<and>
     snapshot_of H (run_record run_id command c RunRunning None 1) (df_snapshot d)"

definition run_ended ::
  "DurableHost \<Rightarrow> DurableRunJournalLine set \<Rightarrow> string \<Rightarrow> string list \<Rightarrow> DurableRunStatus \<Rightarrow> i32 option \<Rightarrow>
   u64 \<Rightarrow> u64 \<Rightarrow> u64 \<Rightarrow> DurableFiles \<Rightarrow> bool" where
  "run_ended H L run_id command st code c n m d \<longleftrightarrow>
     journal_kept H L [first_started run_id command n, first_terminal run_id st code m] d \<and>
     (snapshot_of H (run_record run_id command c RunRunning None 1) (df_snapshot d) \<or>
      snapshot_of H (run_record run_id command c st code 2) (df_snapshot d))"

lemma journal_wf_started: "journal_wf run_id [first_started run_id command n]"
  by (simp add: journal_wf_def started_line_def)

lemma journal_wf_ended: "journal_wf run_id [first_started run_id command n, first_terminal run_id st code m]"
  by (simp add: journal_wf_def started_line_def terminal_line_def)

lemma load_started:
  "apply_journal_tail_to_record (run_record run_id command c RunRunning None 1) [first_started run_id command n] =
   run_record run_id command c RunRunning None 1"
  by (simp add: apply_journal_tail_to_record_def run_record_def started_line_def Let_def)

lemma load_ended:
  "apply_journal_tail_to_record (run_record run_id command c RunRunning None 1)
     [first_started run_id command n, first_terminal run_id st code m] = run_record run_id command c st code 2"
  "apply_journal_tail_to_record (run_record run_id command c st code 2)
     [first_started run_id command n, first_terminal run_id st code m] = run_record run_id command c st code 2"
  by (auto simp: apply_journal_tail_to_record_def run_record_def started_line_def terminal_line_def Let_def word_less_nat_alt
        word_le_nat_alt)

lemma triple_frame_eq:
  assumes "triple P m Q E" and "keeps_snapshot m" and "\<And>d. P' d \<Longrightarrow> P d \<and> F (df_snapshot d)"
    and "\<And>d. E d \<and> F (df_snapshot d) \<Longrightarrow> E' d"
  shows "triple P' m (\<lambda>x d. Q x d \<and> F (df_snapshot d)) E'"
  by (rule triple_conseq [OF triple_frame [OF assms(1,2), of F]]) (use assms(3,4) in auto)

lemma word_unat_eqI: "unat (q :: 'a::len word) = k \<Longrightarrow> unat r = k \<Longrightarrow> q = r"
  by (simp add: word_unat_eq_iff)

lemma triple_append_now:
  assumes "journal_codec H L" and "\<And>n. line n \<in> L"
  shows "triple (journal_exact H L ls) (\<lambda>d. append_journal_line H run_id (line (dh_now H (df_calls d))) d)
     (\<lambda>_ d. \<exists>n. journal_exact H L (ls @ [line n]) d)
     (\<lambda>d. journal_holds H L ls d \<or> (\<exists>n. journal_clean H L (ls @ [line n]) d))"
proof (rule tripleI)
  fix d
  assume "journal_exact H L ls d"
  with triple_append [OF assms(1) assms(2), of ls run_id "dh_now H (df_calls d)"]
  show "case append_journal_line H run_id (line (dh_now H (df_calls d))) d of
      (Ok x, d1) \<Rightarrow> \<exists>n. journal_exact H L (ls @ [line n]) d1
    | (_, d1) \<Rightarrow> journal_holds H L ls d1 \<or> (\<exists>n. journal_clean H L (ls @ [line n]) d1)"
    unfolding triple_def by (fastforce simp: journal_clean_def split: prod.splits outcome.splits)
qed

lemma keeps_append_now [keeps]: "keeps_snapshot (\<lambda>d. append_journal_line H run_id (line d) d)"
  using keeps_append [of H run_id] by (simp add: keeps_snapshot_def)

lemma triple_next_exact:
  assumes "journal_codec H L" and "reads_found H" and "journal_wf run_id ls" and "Suc (length ls) < 2 ^ 64"
  shows "triple (journal_exact H L ls) (next_journal_sequence_under_run_lock H run_id)
     (\<lambda>q d. unat q = Suc (length ls) \<and> journal_exact H L ls d) (journal_exact H L ls)"
proof -
  have "unat (saturating_add (fold max (map jl_sequence ls) 0) 1) = Suc (length ls)"
    using fold_max_sequence [of jl_sequence ls] assms(3,4)
    by (simp add: journal_wf_def unat_saturating_add)
  then show ?thesis
    unfolding next_journal_sequence_under_run_lock_def
    by (intro triple_bind [OF triple_read_exact [OF assms(1,2)]] triple_lift) auto
qed

text \<open>A start on fresh files.\<close>

lemma triple_first_start:
  assumes "journal_codec H L" and "reads_found H" and "record_codec H R"
    and "\<And>n. first_started run_id command n \<in> L" and "\<And>c. run_record run_id command c RunRunning None 1 \<in> R"
  shows "triple (\<lambda>d. journal_exact H L [] d \<and> df_snapshot d = None) (sync_supervisor_started H run_id command)
     (\<lambda>_ d. \<exists>c n. run_started H L run_id command c n d) (\<lambda>_. True)"
    (is "triple ?P _ ?Q _")
proof -
  have st: "stable ?P" using stable_journal(2) [of H L "[]"] unfolding stable_def by simp
  have nextq: "triple ?P (next_journal_sequence_under_run_lock H run_id) (\<lambda>q d. q = 1 \<and> journal_exact H L [] d) (\<lambda>_. True)"
    by (rule triple_conseq [OF triple_next_exact [OF assms(1,2), of run_id "[]"]])
      (auto intro: word_unat_eqI [where k = 1])
  have tail: "triple (\<lambda>d. q = 1 \<and> journal_exact H L [] d)
      (op_bind (\<lambda>d. append_journal_line H run_id (started_line q (dh_now H (df_calls d)) command
          (new_supervisor_attempt_transition_id run_id q)) d) (\<lambda>_.
       store_durable_run H (run_record run_id command c RunRunning None q))) ?Q (\<lambda>_. True)" for q c
  proof (cases "q = 1")
    case True
    have store: "triple (\<lambda>d. \<exists>n. journal_exact H L ([] @ [first_started run_id command n]) d)
        (store_durable_run H (run_record run_id command c RunRunning None 1)) ?Q (\<lambda>_. True)" for c
      by (rule triple_conseq [OF triple_store_record [OF assms(3) assms(5), where F = "\<lambda>_. True" and
              P = "\<lambda>d. \<exists>n. journal_exact H L [first_started run_id command n] d" and
              E = "\<lambda>d. \<exists>n. journal_exact H L [first_started run_id command n] d"]])
        (auto simp: stable_def run_started_def dest: stableD [OF stable_journal(2)] intro: journal_exact_holds)
    have app: "triple (journal_exact H L []) (\<lambda>d. append_journal_line H run_id (first_started run_id command (dh_now H (df_calls d))) d)
        (\<lambda>_ d. \<exists>n. journal_exact H L ([] @ [first_started run_id command n]) d) (\<lambda>_. True)"
      by (rule triple_conseq [OF triple_append_now [OF assms(1,4)]]) auto
    show ?thesis using triple_bind [OF app store] True by simp
  qed (simp add: triple_def)
  have body: "triple ?P (start_under_run_lock H run_id command) ?Q (\<lambda>_. True)"
  proof (rule tripleI)
    fix d0
    assume d0: "?P d0"
    have rec: "\<lparr>dr_schema_version = DURABLE_RUN_SCHEMA_VERSION, dr_run_id = run_id, dr_status = RunRunning,
        dr_created_at = dh_now H (df_calls d0), dr_operation = OperationIrEnvelope_new (NativeCommand command),
        dr_event_sequence = q, dr_exit_code = None,
        dr_attempt_transition_id = Some (new_supervisor_attempt_transition_id run_id q)\<rparr> =
      run_record run_id command (dh_now H (df_calls d0)) RunRunning None q" if "q = 1" for q
      by (simp add: run_record_def that)
    have "triple (\<lambda>d. q = 1 \<and> journal_exact H L [] d)
      (op_bind (\<lambda>d. append_journal_line H run_id (started_line q (dh_now H (df_calls d)) command
          (new_supervisor_attempt_transition_id run_id q)) d) (\<lambda>_.
       store_durable_run H \<lparr>dr_schema_version = DURABLE_RUN_SCHEMA_VERSION, dr_run_id = run_id, dr_status = RunRunning,
        dr_created_at = dh_now H (df_calls d0), dr_operation = OperationIrEnvelope_new (NativeCommand command),
        dr_event_sequence = q, dr_exit_code = None,
        dr_attempt_transition_id = Some (new_supervisor_attempt_transition_id run_id q)\<rparr>)) ?Q (\<lambda>_. True)" for q
      by (cases "q = 1") (simp_all only: rec tail, simp add: triple_def)
    from triple_bind [OF nextq this] d0
    show "case start_under_run_lock H run_id command d0 of (Ok x, d1) \<Rightarrow> ?Q x d1 | (_, d1) \<Rightarrow> True"
      by (simp add: triple_def Let_def DurableRunRecord_pending_def start_under_run_lock_def)
  qed
  show ?thesis
    unfolding sync_supervisor_started_def
    by (rule triple_bind [OF triple_lift [where Q = "\<lambda>_. ?P"] triple_lock [OF st body]]) auto
qed

text \<open>A terminal sync of the running attempt: one that answers has ended the run.\<close>

lemma run_record_update:
  "(run_record run_id command c st0 code0 q0)\<lparr>dr_status := st, dr_exit_code := code,
     dr_attempt_transition_id := Some (new_supervisor_attempt_transition_id run_id 1), dr_event_sequence := q\<rparr> =
   run_record run_id command c st code q"
  "dr_attempt_transition_id (run_record run_id command c st0 code0 q0) =
     Some (new_supervisor_attempt_transition_id run_id 1)"
  by (simp_all add: run_record_def)

lemma find_first_terminal:
  "find (is_terminal_of (new_supervisor_attempt_transition_id run_id 1)) [first_started run_id command n] = None"
  "find (is_terminal_of (new_supervisor_attempt_transition_id run_id 1))
     [first_started run_id command n, first_terminal run_id st code m] = Some (first_terminal run_id st code m)"
  by (simp_all add: is_terminal_of_def started_line_def terminal_line_def)

lemma triple_terminal_append:
  assumes "journal_codec H L" and "reads_found H" and "record_codec H R"
    and "\<And>m. first_terminal run_id st code m \<in> L" and "run_record run_id command c st code 2 \<in> R"
  shows "triple (\<lambda>d. journal_exact H L [first_started run_id command n] d \<and>
       snapshot_of H (run_record run_id command c RunRunning None 1) (df_snapshot d))
     (op_bind (next_journal_sequence_under_run_lock H run_id) (\<lambda>q.
      op_bind (\<lambda>d. append_journal_line H run_id (terminal_line q (dh_now H (df_calls d)) st code
          (new_supervisor_attempt_transition_id run_id 1)) d) (\<lambda>_.
      store_durable_run H (run_record run_id command c st code q))))
     (\<lambda>_ d. \<exists>m. run_ended H L run_id command st code c n m d)
     (\<lambda>d. run_started H L run_id command c n d \<or> (\<exists>m. run_ended H L run_id command st code c n m d))"
    (is "triple _ _ ?Q ?E")
proof -
  let ?s = "first_started run_id command n" and ?t = "first_terminal run_id st code"
  let ?snap = "snapshot_of H (run_record run_id command c RunRunning None 1)"
  have nextq: "triple (\<lambda>d. journal_exact H L [?s] d \<and> ?snap (df_snapshot d)) (next_journal_sequence_under_run_lock H run_id)
      (\<lambda>q d. (unat q = Suc (length [?s]) \<and> journal_exact H L [?s] d) \<and> ?snap (df_snapshot d)) ?E"
    by (rule triple_frame_eq [OF triple_next_exact [OF assms(1,2) journal_wf_started] keeps_next])
      (auto simp: run_started_def intro: journal_exact_holds)
  have app: "triple (\<lambda>d. journal_exact H L [?s] d \<and> ?snap (df_snapshot d))
      (\<lambda>d. append_journal_line H run_id (?t (dh_now H (df_calls d))) d)
      (\<lambda>_ d. (\<exists>m. journal_exact H L ([?s] @ [?t m]) d) \<and> ?snap (df_snapshot d)) ?E"
    by (rule triple_frame_eq [OF triple_append_now [OF assms(1,4)] keeps_append_now])
      (auto simp: run_started_def run_ended_def intro: journal_exact_holds journal_clean_kept)
  have store: "triple (\<lambda>d. (\<exists>m. journal_exact H L ([?s] @ [?t m]) d) \<and> ?snap (df_snapshot d))
      (store_durable_run H (run_record run_id command c st code 2)) ?Q ?E"
    by (rule triple_conseq [OF triple_store_record [OF assms(3,5), where F = ?snap and
            P = "\<lambda>d. \<exists>m. journal_exact H L ([?s] @ [?t m]) d" and
            E = "\<lambda>d. (\<exists>m. journal_exact H L ([?s] @ [?t m]) d) \<and> ?snap (df_snapshot d)"]])
      (auto simp: stable_def run_ended_def journal_kept_def dest: stableD [OF stable_journal(2)] intro: journal_exact_holds)
  have rest: "triple (\<lambda>d. (unat q = Suc (length [?s]) \<and> journal_exact H L [?s] d) \<and> ?snap (df_snapshot d))
      (op_bind (\<lambda>d. append_journal_line H run_id (terminal_line q (dh_now H (df_calls d)) st code
          (new_supervisor_attempt_transition_id run_id 1)) d) (\<lambda>_.
       store_durable_run H (run_record run_id command c st code q))) ?Q ?E" for q
  proof (cases "unat q = 2")
    case True
    then have "q = 2" by (rule word_unat_eqI) simp
    with triple_bind [OF app store] show ?thesis by simp
  qed (simp add: triple_def)
  show ?thesis by (rule triple_bind [OF nextq rest])
qed

lemma triple_first_terminal:
  assumes "journal_codec H L" and "reads_found H" and "record_codec H R"
    and "\<And>m. first_terminal run_id st code m \<in> L" and "run_record run_id command c st code 2 \<in> R"
  shows "triple (run_started H L run_id command c n) (sync_supervisor_terminal H run_id st code)
     (\<lambda>_ d. \<exists>m. run_ended H L run_id command st code c n m d)
     (\<lambda>d. run_started H L run_id command c n d \<or> (\<exists>m. run_ended H L run_id command st code c n m d))"
    (is "triple ?P _ ?Q ?E")
proof -
  let ?s = "first_started run_id command n" and ?r = "run_record run_id command c RunRunning None 1"
  let ?t = "new_supervisor_attempt_transition_id run_id 1" and ?snap = "\<lambda>d. snapshot_of H ?r (df_snapshot d)"
  let ?X = "\<lambda>d. journal_exact H L [?s] d \<and> ?snap d"
  have st: "stable ?P" using stable_journal(1) [of H L "[?s]"] unfolding stable_def run_started_def by simp
  have load: "triple ?P (load_durable_run_or_default_under_run_lock H run_id) (\<lambda>x d. x = ?r \<and> ?P d) ?E"
    unfolding load_durable_run_or_default_under_run_lock_def
    by (rule triple_conseq [OF triple_load_holds [OF assms(1,2), of "[?s]" ?r run_id True]])
      (auto simp: run_started_def load_started intro: journal_exact_holds)
  have read: "triple ?P (read_journal_lines_impl H run_id True)
      (\<lambda>xs d. (xs = [?s] \<and> journal_exact H L [?s] d) \<and> ?snap d) ?E"
    by (rule triple_frame_eq [OF triple_read_journal [OF assms(1)] keeps_read_journal])
      (use assms(2) in \<open>auto simp: run_started_def intro: journal_exact_holds\<close>)
  have step: "triple (\<lambda>d. x = ?r \<and> ?P d) (op_bind (read_journal_lines_impl H run_id True) (\<lambda>ls.
     op_bind (op_lift (ok_or (IoError InvalidData ''supervisor attempt transition id missing'')
                (case dr_attempt_transition_id x of
                   Some t \<Rightarrow> Some t | None \<Rightarrow> supervisor_attempt_transition_id_from_journal ls))) (\<lambda>t.
     case find (is_terminal_of t) ls of
          Some l \<Rightarrow> store_durable_run H (x\<lparr>dr_status := st, dr_exit_code := code, dr_attempt_transition_id := Some t,
            dr_event_sequence := jl_sequence l\<rparr>)
        | None \<Rightarrow>
            op_bind (next_journal_sequence_under_run_lock H run_id) (\<lambda>sequence.
            op_bind (\<lambda>d. append_journal_line H run_id (terminal_line sequence (dh_now H (df_calls d)) st code t) d) (\<lambda>_.
            store_durable_run H (x\<lparr>dr_status := st, dr_exit_code := code, dr_attempt_transition_id := Some t,
              dr_event_sequence := sequence\<rparr>)))))) ?Q ?E" for x
  proof (cases "x = ?r")
    case True
    show ?thesis
      unfolding True run_record_update option.case ok_or.simps op_bind_Ok simp_thms
    proof (rule triple_bind [OF read])
      fix ls
      show "triple (\<lambda>d. (ls = [?s] \<and> journal_exact H L [?s] d) \<and> ?snap d)
        (case find (is_terminal_of ?t) ls of
          Some l \<Rightarrow> store_durable_run H (run_record run_id command c st code (jl_sequence l))
        | None \<Rightarrow> op_bind (next_journal_sequence_under_run_lock H run_id) (\<lambda>sequence.
            op_bind (\<lambda>d. append_journal_line H run_id (terminal_line sequence (dh_now H (df_calls d)) st code ?t) d) (\<lambda>_.
            store_durable_run H (run_record run_id command c st code sequence)))) ?Q ?E"
      proof (cases "ls = [?s]")
        case True
        show ?thesis unfolding True find_first_terminal option.case
          by (rule triple_conseq [OF triple_terminal_append [OF assms]]) auto
      qed (simp add: triple_def)
    qed
  qed (simp add: triple_def)
  show ?thesis
    unfolding sync_supervisor_terminal_def terminal_under_run_lock_def Let_def
    by (rule triple_bind [OF triple_lift [where Q = "\<lambda>_. ?P"] triple_lock [OF st triple_bind [OF load step]]])
      (auto simp: run_started_def)
qed

lemma triple_disj: "triple P m Q E \<Longrightarrow> triple P' m Q E \<Longrightarrow> triple (\<lambda>d. P d \<or> P' d) m Q E"
  by (simp add: triple_def)

lemma triple_load_ended:
  assumes "journal_codec H L" and "reads_found H"
  shows "triple (run_ended H L run_id command st code c n m) (load_record H run_id b)
     (\<lambda>x d. x = run_record run_id command c st code 2 \<and> run_ended H L run_id command st code c n m d)
     (run_ended H L run_id command st code c n m)"
    (is "triple ?P _ ?Q _")
proof -
  let ?ls = "[first_started run_id command n, first_terminal run_id st code m]"
  have one: "triple (\<lambda>d. journal_kept H L ?ls d \<and> snapshot_of H r (df_snapshot d)) (load_record H run_id b) ?Q ?P"
    if "r = run_record run_id command c RunRunning None 1 \<or> r = run_record run_id command c st code 2" for r
    by (rule triple_conseq [OF triple_load_kept [OF assms, of ?ls r run_id b]])
      (use that in \<open>auto simp: run_ended_def load_ended intro: journal_clean_kept\<close>)
  show ?thesis
    by (rule triple_conseq [OF triple_disj [OF one [OF disjI1 [OF refl]] one [OF disjI2 [OF refl]]]]) (auto simp: run_ended_def)
qed

text \<open>
  A terminal sync of an ended run appends nothing; its status and exit code go
  into the snapshot all the same.
\<close>

lemma triple_again_terminal:
  assumes "journal_codec H L" and "reads_found H" and "record_codec H R"
    and "run_record run_id command c st' code' 2 \<in> R"
  shows "triple (run_ended H L run_id command st code c n m) (sync_supervisor_terminal H run_id st' code')
     (\<lambda>_ d. journal_kept H L [first_started run_id command n, first_terminal run_id st code m] d \<and>
        snapshot_of H (run_record run_id command c st' code' 2) (df_snapshot d))
     (run_ended H L run_id command st code c n m)"
    (is "triple ?P _ ?Q _")
proof -
  let ?ls = "[first_started run_id command n, first_terminal run_id st code m]"
  let ?r = "run_record run_id command c st code 2" and ?r1 = "run_record run_id command c RunRunning None 1"
  let ?F = "\<lambda>s. snapshot_of H ?r1 s \<or> snapshot_of H ?r s"
  have st: "stable ?P" using stable_kept [of H L ?ls] unfolding stable_def run_ended_def by simp
  have load: "triple ?P (load_durable_run_or_default_under_run_lock H run_id) (\<lambda>x d. x = ?r \<and> ?P d) ?P"
    unfolding load_durable_run_or_default_under_run_lock_def by (rule triple_load_ended [OF assms(1,2)])
  have read: "triple ?P (read_journal_lines_impl H run_id True)
      (\<lambda>xs d. (xs = ?ls \<and> journal_clean H L ?ls d) \<and> ?F (df_snapshot d)) ?P"
    by (rule triple_frame_eq [OF triple_read_kept [OF assms(1,2)] keeps_read_journal]) (auto simp: run_ended_def)
  have store: "triple ?P (store_durable_run H (run_record run_id command c st' code' 2)) ?Q ?P"
    by (rule triple_store_record [OF assms(3,4) stable_kept, where F = ?F]) (auto simp: run_ended_def)
  have found: "jl_sequence (first_terminal run_id st code m) = 2" by (simp add: terminal_line_def)
  have step: "triple (\<lambda>d. x = ?r \<and> ?P d) (op_bind (read_journal_lines_impl H run_id True) (\<lambda>ls.
     op_bind (op_lift (ok_or (IoError InvalidData ''supervisor attempt transition id missing'')
                (case dr_attempt_transition_id x of
                   Some t \<Rightarrow> Some t | None \<Rightarrow> supervisor_attempt_transition_id_from_journal ls))) (\<lambda>t.
     case find (is_terminal_of t) ls of
          Some l \<Rightarrow> store_durable_run H (x\<lparr>dr_status := st', dr_exit_code := code', dr_attempt_transition_id := Some t,
            dr_event_sequence := jl_sequence l\<rparr>)
        | None \<Rightarrow> f ls t))) ?Q ?P" for x f
  proof (cases "x = ?r")
    case True
    show ?thesis
      unfolding True run_record_update option.case ok_or.simps op_bind_Ok simp_thms
    proof (rule triple_bind [OF read])
      fix ls
      let ?t = "new_supervisor_attempt_transition_id run_id 1"
      show "triple (\<lambda>d. (ls = ?ls \<and> journal_clean H L ?ls d) \<and> ?F (df_snapshot d))
        (case find (is_terminal_of ?t) ls of
          Some l \<Rightarrow> store_durable_run H (run_record run_id command c st' code' (jl_sequence l))
        | None \<Rightarrow> f ls ?t) ?Q ?P"
      proof (cases "ls = ?ls")
        case True
        show ?thesis unfolding True find_first_terminal option.case found
          by (rule triple_conseq [OF store]) (auto simp: run_ended_def intro: journal_clean_kept)
      qed (simp add: triple_def)
    qed
  qed (simp add: triple_def)
  show ?thesis
    unfolding sync_supervisor_terminal_def terminal_under_run_lock_def Let_def
    by (rule triple_bind [OF triple_lift [where Q = "\<lambda>_. ?P"] triple_lock [OF st triple_bind [OF load step]]]) auto
qed

text \<open>A load when no file system call fails.\<close>

definition quiet :: "DurableHost \<Rightarrow> DurableHost" where
  "quiet H = H\<lparr>dh_io := \<lambda>_ _. IoDone\<rparr>"

definition answers :: "'a file_op \<Rightarrow> DurableFiles \<Rightarrow> bool" where
  "answers m d \<longleftrightarrow> (\<exists>x d1. m d = (Ok x, d1))"

lemma answers_bind: "answers m d \<Longrightarrow> (\<And>x d1. m d = (Ok x, d1) \<Longrightarrow> answers (f x) d1) \<Longrightarrow> answers (op_bind m f) d"
  by (auto simp: answers_def op_bind_def)

lemma answers_lift [simp]: "answers (op_lift r) d \<longleftrightarrow> (\<exists>x. r = Ok x)"
  by (simp add: answers_def op_lift_def)

lemma quiet_sys [simp]: "answers (sys (quiet H) c) d"
  by (simp add: answers_def sys_def quiet_def)

lemma quiet_sys_set [simp]: "answers (sys_set (quiet H) c f) d"
  by (simp add: answers_def sys_set_def sys_def quiet_def op_bind_def)

lemma quiet_write_all [simp]: "answers (write_all (quiet H) c f s) d"
  by (simp add: answers_def write_all_def quiet_def Let_def)

lemma quiet_codec:
  "journal_codec (quiet H) L = journal_codec H L" "reads_found (quiet H)" "repairs (quiet H) ls"
  "journal_kept (quiet H) L ls = journal_kept H L ls" "journal_clean (quiet H) L ls = journal_clean H L ls"
  "journal_holds (quiet H) L ls = journal_holds H L ls" "journal_exact (quiet H) L ls = journal_exact H L ls"
  "run_ended (quiet H) L run_id command st code c n m = run_ended H L run_id command st code c n m"
  "run_started (quiet H) L run_id command c n = run_started H L run_id command c n"
  "dh_record_parse (quiet H) = dh_record_parse H" "snapshot_of (quiet H) = snapshot_of H"
  by (auto simp: fun_eq_iff quiet_def journal_codec_def reads_found_def repairs_def removals_done_def
        journal_kept_def journal_clean_def journal_open_def journal_holds_def journal_exact_def committed_def
        line_text_def torn_def run_ended_def run_started_def snapshot_of_def)

lemma quiet_open: "journal_open (quiet H) L ls d = journal_open H L ls d"
  by (simp add: journal_open_def committed_def line_text_def quiet_def)

lemma quiet_read_missing:
  assumes "\<And>t d1. sel d = Some t \<Longrightarrow> d1 = d\<lparr>df_calls := Suc (df_calls d)\<rparr> \<Longrightarrow> valid_utf8 t \<and> answers (f t) d1"
    and "\<And>d1. sel d = None \<Longrightarrow> d1 = d\<lparr>df_calls := Suc (df_calls d)\<rparr> \<Longrightarrow> answers g d1"
    and "\<And>d n. sel (d\<lparr>df_calls := n\<rparr>) = sel d"
  shows "answers (read_or_missing (read_text (quiet H) sel) f g) d"
  using assms
  by (cases "sel d") (auto simp: read_or_missing_def read_text_def sys_def quiet_def op_bind_def answers_def)

lemma quiet_steps:
  "sys (quiet H) c d = (Ok (), d\<lparr>df_calls := Suc (df_calls d)\<rparr>)"
  "sys_set (quiet H) c f d = (Ok (), f (d\<lparr>df_calls := Suc (df_calls d)\<rparr>))"
  "write_all (quiet H) c put s d = (Ok (), put s (d\<lparr>df_calls := Suc (df_calls d)\<rparr>))"
  by (simp_all add: sys_def sys_set_def op_bind_def write_all_def quiet_def)

lemma op_bind_step: "m d = (Ok x, d1) \<Longrightarrow> op_bind m f d = f x d1"
  by (simp add: op_bind_def)

lemma quiet_lock_at:
  assumes "validate_run_id run_id = Ok ()" and "stable P" and "P d" and "\<And>x. P x \<Longrightarrow> answers m x"
  shows "answers (with_run_lock (quiet H) run_id m) d"
proof -
  let ?d = "d\<lparr>df_calls := Suc (df_calls d)\<rparr>"
  let ?e = "(?d\<lparr>df_calls := Suc (df_calls ?d)\<rparr>)\<lparr>df_lock := True\<rparr>"
  have "P ?e" by (intro stable_lock [OF assms(2)] stable_calls [OF assms(2)] assms(3))
  then have "answers m (?e\<lparr>df_calls := Suc (df_calls ?e)\<rparr>)" by (intro assms(4) stable_calls [OF assms(2)])
  then show ?thesis
    unfolding with_run_lock_def assms(1) op_bind_Ok answers_def
    by (simp only: op_bind_step [OF quiet_steps(1)] op_bind_step [OF quiet_steps(2)])
qed

lemma quiet_lock: "validate_run_id run_id = Ok () \<Longrightarrow> (\<And>d. answers m d) \<Longrightarrow> answers (with_run_lock (quiet H) run_id m) d"
  by (rule quiet_lock_at [where P = "\<lambda>_. True"]) (simp_all add: stable_def)

lemma quiet_rewrite:
  assumes "journal_codec H L" and "set ls \<subseteq> L" and "validate_run_id run_id = Ok ()"
  shows "answers (rewrite_journal_file (quiet H) run_id ls b) d"
proof -
  have "journal_body (quiet H) ls = Ok (committed (quiet H) ls)"
    by (rule journal_body_committed [of "quiet H" L]) (use assms quiet_codec in auto)
  then have "answers (rewrite_journal_file_locked (quiet H) ls) d" for d
    unfolding rewrite_journal_file_locked_def io_data_def
    by (cases "ls = []") (auto intro!: answers_bind, simp add: answers_def)
  then show ?thesis unfolding rewrite_journal_file_def by (auto intro: quiet_lock assms(3))
qed

lemma quiet_parse_text:
  assumes "journal_codec H L" and "validate_run_id run_id = Ok ()"
    and "journal_kept H L ls d" and "df_journal d = Some t"
  shows "answers (parse_journal_text (quiet H) run_id t b) d"
proof (cases "journal_open H L ls d")
  case True
  then have op: "journal_open (quiet H) L ls d" by (simp add: quiet_open)
  have codec: "journal_codec (quiet H) L" using assms(1) quiet_codec by auto
  obtain l where l: "l \<in> L" "set (butlast ls) \<subseteq> L" "df_journal d = Some (committed (quiet H) (butlast ls) @ line_text (quiet H) l)"
    by (rule journal_open_text [OF codec op])
  from parse_text_open [OF codec l(2,1), of run_id b] l(3) assms(4) show ?thesis by simp
next
  case False
  then have holds: "journal_holds (quiet H) L ls d" using assms(3) quiet_codec by (simp add: journal_kept_def)
  have codec: "journal_codec (quiet H) L" using assms(1) quiet_codec by auto
  from holds have ls: "set ls \<subseteq> L" by (simp add: journal_holds_def)
  show ?thesis
  proof (rule journal_holds_cases [OF codec holds assms(4)])
    assume "t = committed (quiet H) ls"
    then show ?thesis by (simp add: parse_text_exact [OF codec ls])
  next
    fix s
    assume s: "t = committed (quiet H) ls @ s" "s \<noteq> []" "nl \<notin> set s" "CHR ''{'' \<in> set s"
    assume "\<exists>e. dh_line_parse (quiet H) s = Err e"
    then obtain e where e: "dh_line_parse (quiet H) s = Err e" by blast
    show ?thesis unfolding s(1) parse_text_torn [OF codec ls s(2-4) e] quarantine_truncated_journal_tail_def
      by (intro answers_bind) (simp_all add: quiet_rewrite [OF assms(1) ls assms(2)])
  qed
qed

lemma kept_valid_utf8:
  assumes "journal_codec H L" and "journal_kept H L ls d"
  shows "valid_utf8 (jtext d)"
proof (rule ascii_valid_utf8)
  let ?A = "list_all (\<lambda>c. of_char c < (128 :: nat))"
  show "?A (jtext d)"
  proof (cases "journal_open H L ls d")
    case True
    then have "?A (jtext d @ [nl])" using committed_ascii [OF assms(1), of ls] by (simp add: journal_open_def)
    then show ?thesis by simp
  next
    case False
    then obtain s where j: "set ls \<subseteq> L" "jtext d = committed H ls @ s" "s = [] \<or> torn H L s"
      using assms(2) by (auto simp: journal_kept_def journal_holds_def)
    have "?A s" using j(3) torn_facts(1) [OF assms(1)] by (cases "s = []") auto
    with committed_ascii [OF assms(1) j(1)] j(2) show ?thesis by simp
  qed
qed

lemma quiet_read_journal:
  assumes "journal_codec H L" and "validate_run_id run_id = Ok ()" and "journal_kept H L ls d"
  shows "answers (read_journal_lines_impl (quiet H) run_id b) d"
proof -
  have valid: "valid_utf8 t" if "df_journal d = Some t" for t
    using kept_valid_utf8 [OF assms(1,3)] that by (simp add: jtext_def)
  have kept: "journal_kept H L ls (d\<lparr>df_calls := Suc (df_calls d)\<rparr>)" using assms(3) by (simp add: stable_calls)
  show ?thesis
    unfolding read_journal_lines_impl_def assms(2) op_bind_Ok
    by (rule quiet_read_missing) (auto simp: valid intro: quiet_parse_text [OF assms(1,2) kept])
qed

lemma quiet_load:
  assumes "journal_codec H L" and "validate_run_id run_id = Ok ()" and "journal_kept H L ls d" and "ls \<noteq> []"
    and "snapshot_of H r (df_snapshot d)"
  obtains d1 where "load_durable_run (quiet H) run_id d = (Ok (apply_journal_tail_to_record r ls), d1)"
    and "journal_clean H L ls d1" and "journal_holds H L ls d \<Longrightarrow> journal_exact H L ls d1"
proof -
  have kept: "journal_kept H L ls (d\<lparr>df_calls := Suc (df_calls d)\<rparr>)" using assms(3) by (simp add: stable_calls)
  have "answers (load_record (quiet H) run_id False) d"
    unfolding load_record_def assms(2) op_bind_Ok
    by (rule quiet_read_missing)
      (use assms(5) in \<open>auto simp: snapshot_of_def quiet_codec(10) io_data_def
        intro!: answers_bind quiet_read_journal [OF assms(1,2) kept]\<close>)
  then obtain x d1 where x: "load_record (quiet H) run_id False d = (Ok x, d1)" by (auto simp: answers_def)
  have codec: "journal_codec (quiet H) L" using assms(1) quiet_codec(1) by simp
  note k = triple_load_kept [OF codec quiet_codec(2) assms(4), of r run_id False, unfolded triple_def quiet_codec,
      rule_format, of d]
  have clean: "x = apply_journal_tail_to_record r ls \<and> journal_clean H L ls d1" using k assms(3,5) x by simp
  note h = triple_load_holds [OF codec quiet_codec(2) assms(4), of r run_id False, unfolded triple_def quiet_codec,
      rule_format, of d]
  have "journal_exact H L ls d1" if "journal_holds H L ls d" using h that assms(5) x by simp
  with x clean that show thesis by (simp add: load_durable_run_def)
qed

section \<open>Crash recovery\<close>

lemma reconcile_ended:
  assumes "journal_codec H L" and "reads_found H" and "record_codec H R"
    and "\<And>m. first_terminal run_id st code m \<in> L" and "run_record run_id command c st code 2 \<in> R"
    and "run_started H L run_id command c n d"
    and "sync_supervisor_terminal_with_reconcile H run_id st code d = (res, e)"
  shows "(res \<noteq> Ok () \<and> run_started H L run_id command c n e) \<or> (\<exists>m. run_ended H L run_id command st code c n m e)"
    (is "?A e \<or> ?B e")
proof -
  let ?m = "sync_supervisor_terminal H run_id st code"
  note first = triple_first_terminal [OF assms(1-5), unfolded triple_def, rule_format]
  have again: "?B (snd (?m x))" if "?B x" for x
  proof -
    obtain m where m: "run_ended H L run_id command st code c n m x" using \<open>?B x\<close> by blast
    have "triple (run_ended H L run_id command st code c n m) ?m (\<lambda>_. run_ended H L run_id command st code c n m)
        (run_ended H L run_id command st code c n m)"
      by (rule triple_conseq [OF triple_again_terminal [OF assms(1-3,5)]]) (auto simp: run_ended_def)
    from triple_snd [OF this m] show ?thesis by blast
  qed
  have step: "(case ?m x of (Ok _, y) \<Rightarrow> ?B y | (_, y) \<Rightarrow> run_started H L run_id command c n y \<or> ?B y)"
    if "run_started H L run_id command c n x" for x using first [OF that] .
  obtain r1 d1 where one: "?m d = (r1, d1)" by (cases "?m d")
  obtain r2 d2 where two: "?m d1 = (r2, d2)" by (cases "?m d1")
  show ?thesis
  proof (cases r1)
    case (Ok u)
    then show ?thesis using step [OF assms(6)] one assms(7)
      by (simp add: sync_supervisor_terminal_with_reconcile_def)
  next
    case (Err x)
    then have e: "res = r2" "e = d2" and d1: "run_started H L run_id command c n d1 \<or> ?B d1"
      using step [OF assms(6)] one two assms(7) by (simp_all add: sync_supervisor_terminal_with_reconcile_def)
    show ?thesis
    proof (cases "?B d1")
      case True
      from again [OF this] two e show ?thesis by simp
    next
      case False
      with d1 have "run_started H L run_id command c n d1" by blast
      from step [OF this] two e show ?thesis by (cases r2) auto
    qed
  next
    case Panic
    then show ?thesis using step [OF assms(6)] one assms(7)
      by (auto simp: sync_supervisor_terminal_with_reconcile_def)
  qed
qed

text \<open>
  C13: After a run on fresh files was started, wherever the calls of the terminal
  sync and of its one retry fail or the process dies, a later load on a working
  file system answers: with the terminal status and exit code when the terminal
  line got into the journal, which it did when the sync succeeded, and with the
  running record otherwise.  The load leaves exactly the lines it answers from,
  the terminal line perhaps without the newline whose write failed.  The calls of
  the start fail no less freely, but it answered.  The lines of the journal are
  ASCII (\<open>journal_codec\<close>).  A read reports a file as not
  found only when it is missing.
\<close>

theorem durable_crash_recovery:
  assumes "journal_codec H L" and "reads_found H" and "record_codec H R"
    and "\<And>n. first_started run_id command n \<in> L" and "\<And>m. first_terminal run_id st code m \<in> L"
    and "\<And>c. run_record run_id command c RunRunning None 1 \<in> R" and "\<And>c. run_record run_id command c st code 2 \<in> R"
    and "validate_run_id run_id = Ok ()" and "df_journal d0 = None" and "df_snapshot d0 = None"
    and "sync_supervisor_started H run_id command d0 = (Ok (), d1)"
    and "sync_supervisor_terminal_with_reconcile H run_id st code d1 = (res, d2)"
  shows "\<exists>c n r d3. load_durable_run (quiet H) run_id d2 = (Ok r, d3) \<and>
    ((res \<noteq> Ok () \<and> r = run_record run_id command c RunRunning None 1 \<and>
        journal_exact H L [first_started run_id command n] d3) \<or>
     (\<exists>m. r = run_record run_id command c st code 2 \<and>
        journal_clean H L [first_started run_id command n, first_terminal run_id st code m] d3))"
proof -
  have fresh: "journal_exact H L [] d0 \<and> df_snapshot d0 = None"
    using assms(9,10) by (simp add: journal_exact_def jtext_def)
  obtain c n where started: "run_started H L run_id command c n d1"
    using triple_first_start [OF assms(1-4,6), unfolded triple_def, rule_format, OF fresh] assms(11) by auto
  from reconcile_ended [OF assms(1-3,5,7) started assms(12)]
  show ?thesis
  proof (elim disjE conjE exE)
    assume res: "res \<noteq> Ok ()" and "run_started H L run_id command c n d2"
    then have "journal_holds H L [first_started run_id command n] d2"
      "snapshot_of H (run_record run_id command c RunRunning None 1) (df_snapshot d2)" by (simp_all add: run_started_def)
    then obtain d3 where "load_durable_run (quiet H) run_id d2 = (Ok (run_record run_id command c RunRunning None 1), d3)"
      "journal_exact H L [first_started run_id command n] d3"
      by (rule_tac quiet_load [OF assms(1,8), of "[first_started run_id command n]" d2])
        (auto simp: journal_kept_def load_started)
    with res show ?thesis by blast
  next
    fix m
    assume "run_ended H L run_id command st code c n m d2"
    then obtain r where r: "journal_kept H L [first_started run_id command n, first_terminal run_id st code m] d2"
      "snapshot_of H r (df_snapshot d2)"
      "r = run_record run_id command c RunRunning None 1 \<or> r = run_record run_id command c st code 2"
      by (auto simp: run_ended_def)
    let ?r = "run_record run_id command c st code 2"
    obtain d3 where "load_durable_run (quiet H) run_id d2 = (Ok ?r, d3)"
      "journal_clean H L [first_started run_id command n, first_terminal run_id st code m] d3"
      using r(3) by (rule_tac quiet_load [OF assms(1,8) r(1) _ r(2)]) (auto simp: load_ended)
    then show ?thesis by blast
  qed
qed

text \<open>
  A cancel followed by the terminal sync of the waiting thread: the journal keeps
  the cancellation, and the record loaded has the status of the second sync.
\<close>

lemma second_terminal_overrides:
  assumes "journal_codec H L" and "reads_found H" and "record_codec H R"
    and "run_record run_id command c st' code' 2 \<in> R" and "validate_run_id run_id = Ok ()"
    and "run_ended H L run_id command st code c n m d"
    and "sync_supervisor_terminal H run_id st' code' d = (Ok (), e)"
  shows "\<exists>d1. load_durable_run (quiet H) run_id e = (Ok (run_record run_id command c st' code' 2), d1) \<and>
    journal_clean H L [first_started run_id command n, first_terminal run_id st code m] d1"
proof -
  have "journal_kept H L [first_started run_id command n, first_terminal run_id st code m] e \<and>
      snapshot_of H (run_record run_id command c st' code' 2) (df_snapshot e)"
    using triple_again_terminal [OF assms(1-4), unfolded triple_def, rule_format, OF assms(6)] assms(7) by simp
  moreover have "apply_journal_tail_to_record (run_record run_id command c st' code' 2)
      [first_started run_id command n, first_terminal run_id st code m] = run_record run_id command c st' code' 2"
    by (simp add: apply_journal_tail_to_record_def run_record_def started_line_def terminal_line_def Let_def word_le_nat_alt)
  ultimately show ?thesis using quiet_load [OF assms(1,5)] by (metis list.distinct(1))
qed

section \<open>A concrete run\<close>

definition example_records :: "DurableRunRecord set" where
  "example_records = {run_record ''web'' [''serve''] c st code q | c st code q.
     (st, code, q) \<in> {(RunRunning, None, 1), (RunStSucceeded, Some 0, 2)}}"

lemma nats_text_utf8: "valid_utf8 (nats_text ns)"
proof (rule ascii_valid_utf8)
  have "of_char c < (128 :: nat)" if "c \<in> set (concat (map (\<lambda>n. show_nat n @ '','') ns))" for c
    using nats_chars [OF that] by simp
  then show "list_all (\<lambda>c. of_char c < (128 :: nat)) (nats_text ns)"
    unfolding nats_text_def list_all_iff by auto
qed

lemma example_record_codec: "record_codec (example_host io) example_records"
  unfolding record_codec_def
proof
  fix r
  assume "r \<in> example_records"
  then show "\<exists>s. dh_record_json (example_host io) r = Ok s \<and> valid_utf8 s \<and> dh_record_parse (example_host io) s = Ok r"
    by (auto simp: example_records_def example_host_def run_record_def parse_nats_text nats_text_utf8)
qed

text \<open>Newlines and renames that fail once the start has made its twelve calls.\<close>

definition late_failures :: "io_call \<Rightarrow> nat \<Rightarrow> io_outcome" where
  "late_failures c n =
     (if 12 \<le> n \<and> (c = WriteNewline \<or> c = RenameFile) then IoFail (IoError OtherIo ''No space left on device'') 0 else IoDone)"

lemma start_no_files:
  assumes "\<And>c n. n < 12 \<Longrightarrow> dh_io H c n = IoDone" and "validate_run_id run_id = Ok ()"
    and "\<And>l. \<exists>s. dh_line_json H l = Ok s" and "\<And>r. \<exists>s. dh_record_json H r = Ok s"
  shows "\<exists>d1. sync_supervisor_started H run_id command no_files = (Ok (), d1)"
proof -
  obtain lj where lj: "\<And>l. dh_line_json H l = Ok (lj l)" using assms(3) by metis
  obtain rj where rj: "\<And>l. dh_record_json H l = Ok (rj l)" using assms(4) by metis
  have next1: "next_journal_sequence_under_run_lock H run_id d = (Ok 1, d\<lparr>df_calls := Suc (df_calls d)\<rparr>)"
    if "df_journal d = None" "df_calls d < 12" for d
    using that by (simp add: next_journal_sequence_under_run_lock_def read_journal_lines_impl_def assms(1,2) op_bind_def op_lift_def
       read_or_missing_def read_text_def sys_def saturating_add_def)
  show ?thesis
    by (simp add: sync_supervisor_started_def assms(1,2) with_run_lock_def op_bind_def op_lift_def sys_def sys_set_def no_files_def
      start_under_run_lock_def next1 append_journal_line_def lj rj write_all_def io_data_def store_durable_run_def write_atomic_json_def
      append_journal_def Let_def DurableRunRecord_pending_def)
qed

theorem durable_crash_recovery_witness:
  "\<exists>d1 res d2 c n r d3. let H = example_host late_failures; L = example_lines [''serve''] RunStSucceeded (Some 0) in
     sync_supervisor_started H ''web'' [''serve''] no_files = (Ok (), d1) \<and>
     sync_supervisor_terminal_with_reconcile H ''web'' RunStSucceeded (Some 0) d1 = (res, d2) \<and>
     load_durable_run (quiet H) ''web'' d2 = (Ok r, d3) \<and>
     ((res \<noteq> Ok () \<and> r = run_record ''web'' [''serve''] c RunRunning None 1 \<and>
         journal_exact H L [first_started ''web'' [''serve''] n] d3) \<or>
      (\<exists>m. r = run_record ''web'' [''serve''] c RunStSucceeded (Some 0) 2 \<and>
         journal_clean H L [first_started ''web'' [''serve''] n, first_terminal ''web'' RunStSucceeded (Some 0) m] d3))"
proof -
  let ?H = "example_host late_failures" and ?L = "example_lines [''serve''] RunStSucceeded (Some 0)"
  have valid: "validate_run_id ''web'' = Ok ()" by code_simp
  have lines: "first_started ''web'' [''serve''] n \<in> ?L" "first_terminal ''web'' RunStSucceeded (Some 0) m \<in> ?L" for n m
    unfolding example_lines_def op_lines.simps by blast+
  have records: "run_record ''web'' [''serve''] c RunRunning None 1 \<in> example_records"
    "run_record ''web'' [''serve''] c RunStSucceeded (Some 0) 2 \<in> example_records" for c
    by (auto simp: example_records_def)
  have reads: "reads_found ?H" by (simp add: reads_found_def example_host_def late_failures_def)
  have fresh: "df_journal no_files = None" "df_snapshot no_files = None" by (simp_all add: no_files_def)
  obtain d1 where d1: "sync_supervisor_started ?H ''web'' [''serve''] no_files = (Ok (), d1)"
    using start_no_files [of ?H "''web''" "[''serve'']"] valid
    by (auto simp: example_host_def late_failures_def example_line_json_def)
  obtain res d2 where d2: "sync_supervisor_terminal_with_reconcile ?H ''web'' RunStSucceeded (Some 0) d1 = (res, d2)"
    by (cases "sync_supervisor_terminal_with_reconcile ?H ''web'' RunStSucceeded (Some 0) d1")
  from durable_crash_recovery [OF example_host_codec reads example_record_codec lines(1) lines(2) records valid fresh d1 d2] d1 d2
  show ?thesis unfolding Let_def by blast
qed

section \<open>Where the journal and its readers part\<close>

text \<open>
  A last line whose newline was lost is read as committed and left in the file
  without its newline; the next append runs into it.
\<close>

lemma lost_newline_corrupts:
  assumes "journal_codec H L" and "set ls \<subseteq> L" and "l \<in> L" and "l' \<in> L"
    and "dh_line_parse H (line_text H l @ line_text H l') = Err e"
  shows "parse_journal_text H run_id (committed H ls @ line_text H l) b = op_lift (Ok (ls @ [l]))"
    and "parse_journal_text H run_id (committed H ls @ line_text H l @ line_text H l' @ [nl]) b =
      op_lift (Err (IoError InvalidData (''corrupt durable run journal line: '' @ e)))"
proof -
  have s: "line_text H l \<noteq> []" "nl \<notin> set (line_text H l)" "nl \<notin> set (line_text H l')"
    using codec_open [OF assms(1,3)] codec_no_nl [OF assms(1)] assms(3,4) by auto
  note fl = filter_lines [OF assms(1,2)] and pc = parse_committed [OF assms(1,2)]
  show "parse_journal_text H run_id (committed H ls @ line_text H l) b = op_lift (Ok (ls @ [l]))"
    by (rule parse_text_open [OF assms(1-3)])
  have split: "split_physical_journal_lines (committed H ls @ (line_text H l @ line_text H l') @ [nl]) =
      (map (line_text H) ls @ [line_text H l @ line_text H l'], False)"
  proof -
    have "split_on nl ((line_text H l @ line_text H l') @ [nl]) = [line_text H l @ line_text H l', []]"
      using s(2,3) by (subst split_on_append) auto
    moreover note split_committed_any [OF assms(1,2), of "(line_text H l @ line_text H l') @ [nl]"]
    ultimately show ?thesis by (simp add: split_physical_journal_lines_def Let_def butlast_append del: append_assoc)
  qed
  have parse: "parse_journal_lines H (map (line_text H) ls @ [x]) =
      Err (IoError InvalidData (''corrupt durable run journal line: '' @ e))" if "dh_line_parse H x = Err e" for x
    using assms(2)
    by (induction ls) (simp_all add: that codec_parse [OF assms(1)])
  have "trim (line_text H l @ line_text H l') \<noteq> []"
    by (rule trim_not_blank) (use codec_open [OF assms(1,3)] in auto)
  then show "parse_journal_text H run_id (committed H ls @ line_text H l @ line_text H l' @ [nl]) b =
      op_lift (Err (IoError InvalidData (''corrupt durable run journal line: '' @ e)))"
    unfolding parse_journal_text_def using split fl parse [OF assms(5)]
    by (simp del: filter_map)
qed

text \<open>
  A reader without the lock that saw an append half done: its repair writes back
  the lines it saw, and the line committed meanwhile is gone.
\<close>

lemma stale_repair_drops_line:
  assumes "journal_codec H L" and "set ls \<subseteq> L" and "l \<in> L" and "ls \<noteq> []"
    and "0 < k" and "k < length (line_text H l)" and "validate_run_id run_id = Ok ()"
    and "journal_exact H L (ls @ [l]) d"
    and "parse_journal_text (quiet H) run_id (committed H ls @ take k (line_text H l)) False d = (res, d1)"
  shows "res = Ok ls \<and> jtext d1 = committed H ls"
proof -
  have codec: "journal_codec (quiet H) L" using assms(1) quiet_codec by simp
  have same: "committed (quiet H) ls = committed H ls" by (simp add: committed_def line_text_def quiet_def)
  have torn: "torn (quiet H) L (take k (line_text H l))"
    using assms(3,6) by (auto simp: torn_def line_text_def quiet_def)
  have ne: "take k (line_text H l) \<noteq> []" using assms(5,6) by auto
  note f = torn_facts [OF codec torn ne]
  then have brace: "CHR ''{'' \<in> set (take k (line_text H l))" using ne by (metis hd_in_set)
  from f(4) obtain e where e: "dh_line_parse (quiet H) (take k (line_text H l)) = Err e" by blast
  have body: "journal_body (quiet H) ls = Ok (committed H ls)"
    using journal_body_committed [OF codec assms(2)] same by simp
  have eq: "parse_journal_text (quiet H) run_id (committed H ls @ take k (line_text H l)) False =
      op_bind (quarantine_truncated_journal_tail (quiet H) run_id (take k (line_text H l))) (\<lambda>_.
      op_bind (rewrite_journal_file (quiet H) run_id ls False) (\<lambda>_. op_lift (Ok ls)))"
    using parse_text_torn [OF codec assms(2) ne f(2) brace e, of run_id False] same by simp
  have tail: "\<exists>x. quarantine_truncated_journal_tail (quiet H) run_id bad d = (Ok (), x)" for bad
    unfolding quarantine_truncated_journal_tail_def by (simp add: op_bind_def quiet_steps)
  have rewrite: "\<exists>y. rewrite_journal_file (quiet H) run_id ls False x = (Ok (), y) \<and> jtext y = committed H ls" for x
    unfolding rewrite_journal_file_def rewrite_journal_file_locked_def with_run_lock_def assms(7) io_data_def body
    using assms(4) by (simp add: op_bind_step [OF quiet_steps(1)] op_bind_step [OF quiet_steps(2)] quiet_steps jtext_def)
  obtain x where x: "quarantine_truncated_journal_tail (quiet H) run_id (take k (line_text H l)) d = (Ok (), x)"
    using tail by blast
  obtain y where "rewrite_journal_file (quiet H) run_id ls False x = (Ok (), y)" "jtext y = committed H ls"
    using rewrite by blast
  with x assms(9) show ?thesis unfolding eq by (simp add: op_bind_step op_lift_def)
qed

end
