(* ===== verification/Identity.thy ===== *)
theory Identity
  imports Workflows "HOL-Library.Multiset"
begin

text \<open>
  Identity of sources and operations (\<open>crates/nxr-task/src/identity.rs\<close>): the
  fields hashed into a source set digest, an operation id and a dirty snapshot
  id, and what two equal preimages have in common.  SHA-256 and the JSON text of
  scalars are arguments; every string is the list of its bytes.
\<close>

section \<open>Records\<close>

definition SOURCE_SET_V1 :: string where
  "SOURCE_SET_V1 = ''source-set-v1''"

definition EXECUTION_SPEC_V2 :: string where
  "EXECUTION_SPEC_V2 = ''execution-spec-v2''"

record SubmodulePin =
  sm_path :: string
  sm_commit :: string

record LockfileDigest =
  lf_path :: string
  lf_digest :: string

record SourceSetV1 =
  ss_schema_version :: string
  ss_kind :: string
  ss_commit :: string
  ss_submodules :: "SubmodulePin list"
  ss_lockfiles :: "LockfileDigest list"
  ss_dirty_snapshot_id :: "string option"

definition SourceSetV1_fixture :: "string \<Rightarrow> SourceSetV1" where
  "SourceSetV1_fixture commit =
     \<lparr>ss_schema_version = SOURCE_SET_V1, ss_kind = ''fixture'', ss_commit = commit, ss_submodules = [],
      ss_lockfiles = [], ss_dirty_snapshot_id = None\<rparr>"

record BindingDestination =
  bd_name :: string
  bd_reference :: string
  bd_delivery :: string

record ExecutionEnvironment =
  ee_ordinary :: "(string, string) btmap"
  ee_bindings :: "BindingDestination list"

record WorkingDirectoryPolicy =
  wp_kind :: string
  wp_path :: string

record ExecutionResources =
  er_cpu :: u32
  er_memory_bytes :: u64
  er_exclusive :: "string list"

record OperationIdentity =
  oi_source_set_digest :: string
  oi_workflow_definition_digest :: string
  oi_task_id :: string
  oi_leaf :: JsonValue
  oi_platform :: string
  oi_architecture :: string
  oi_working_directory_kind :: string
  oi_working_directory_path :: string
  oi_ordinary :: "(string, string) btmap"
  oi_bindings :: "BindingDestination list"
  oi_cancel :: string
  oi_jobs :: u32
  oi_timeout_ms :: string
  oi_cpu :: u32
  oi_memory_bytes :: u64
  oi_exclusive :: "string list"
  oi_outputs :: "string list"

record DirtySnapshotEntry =
  de_path :: string
  de_mode :: string
  de_kind :: string
  de_payload :: string

text \<open>The functions of other packages: SHA-256 (32 bytes) and JSON text of scalars and keys.\<close>

record Digests =
  sha256 :: "string \<Rightarrow> string"
  json_scalar :: "JsonValue \<Rightarrow> string"

section \<open>Framed fields\<close>

text \<open>\<open>u64::to_be_bytes\<close>, by the number of bytes.\<close>

fun be_bytes :: "nat \<Rightarrow> nat \<Rightarrow> string" where
  "be_bytes 0 n = []"
| "be_bytes (Suc k) n = be_bytes k (n div 256) @ [char_of (n mod 256)]"

definition push_field :: "string \<Rightarrow> string" where
  "push_field bytes = be_bytes 8 (length bytes) @ bytes"

definition framed :: "string list \<Rightarrow> string" where
  "framed fs = concat (map push_field fs)"

definition hex_char :: "nat \<Rightarrow> char" where
  "hex_char n = (if n < 10 then char_of (48 + n) else char_of (87 + n))"

definition hex_digest :: "string \<Rightarrow> string" where
  "hex_digest bytes = concat (map (\<lambda>b. [hex_char (of_char b div 16), hex_char (of_char b mod 16)]) bytes)"

definition workflow_definition_digest :: "Digests \<Rightarrow> string \<Rightarrow> string" where
  "workflow_definition_digest D bytes = ''wf_'' @ hex_digest (sha256 D bytes)"

section \<open>Canonical JSON\<close>

fun canonical_json :: "Digests \<Rightarrow> JsonValue \<Rightarrow> string" where
  "canonical_json D (JObject obj) =
     ''{'' @ join '','' (map snd (sort_key fst (map (\<lambda>(k, v). (k, json_scalar D (JString k) @ '':'' @ canonical_json D v)) obj))) @ ''}''"
| "canonical_json D (JArray items) = ''['' @ join '','' (map (canonical_json D) items) @ '']''"
| "canonical_json D v = json_scalar D v"

section \<open>Source sets\<close>

definition source_set_fields :: "SourceSetV1 \<Rightarrow> string list" where
  "source_set_fields s =
     [ss_kind s, ss_commit s]
     @ concat (map (\<lambda>p. [sm_path p, sm_commit p]) (sort_key sm_path (ss_submodules s)))
     @ [''submodules-end'']
     @ concat (map (\<lambda>l. [lf_path l, lf_digest l]) (sort_key lf_path (ss_lockfiles s)))
     @ [''lockfiles-end'']
     @ [case ss_dirty_snapshot_id s of Some d \<Rightarrow> d | None \<Rightarrow> []]"

definition source_set_digest :: "Digests \<Rightarrow> SourceSetV1 \<Rightarrow> string" where
  "source_set_digest D s = ''src_'' @ hex_digest (sha256 D (framed (source_set_fields s)))"

section \<open>Operations\<close>

definition operation_fields :: "Digests \<Rightarrow> OperationIdentity \<Rightarrow> string list" where
  "operation_fields D i =
     [oi_source_set_digest i, oi_workflow_definition_digest i, oi_task_id i, canonical_json D (oi_leaf i),
      oi_platform i, oi_architecture i, oi_working_directory_kind i, oi_working_directory_path i]
     @ concat (map (\<lambda>(k, v). [k, v]) (oi_ordinary i))
     @ [''ordinary-end'']
     @ concat (map (\<lambda>b. [bd_name b, bd_reference b, bd_delivery b]) (sort_key bd_name (oi_bindings i)))
     @ [''bindings-end'']
     @ [oi_cancel i, show_nat (unat (oi_jobs i)), oi_timeout_ms i, show_nat (unat (oi_cpu i)),
        show_nat (unat (oi_memory_bytes i)), join [CHR 0x0A] (sort (oi_exclusive i)), ''exclusive-end'',
        join [CHR 0x0A] (sort (oi_outputs i)), ''outputs-end'']"

definition operation_id :: "Digests \<Rightarrow> OperationIdentity \<Rightarrow> string" where
  "operation_id D i = ''op_'' @ hex_digest (take 16 (sha256 D (framed (operation_fields D i))))"

section \<open>Dirty snapshots\<close>

definition dirty_fields :: "DirtySnapshotEntry list \<Rightarrow> string list" where
  "dirty_fields entries =
     concat (map (\<lambda>e. [de_path e, de_mode e, de_kind e, de_payload e]) (sort_key de_path entries))"

definition dirty_snapshot_digest :: "Digests \<Rightarrow> DirtySnapshotEntry list \<Rightarrow> string" where
  "dirty_snapshot_digest D entries = ''dirty_'' @ hex_digest (sha256 D (framed (dirty_fields entries)))"

section \<open>Framing determines the fields\<close>

lemma length_be_bytes [simp]: "length (be_bytes k n) = k"
  by (induction k arbitrary: n) simp_all

lemma char_of_byte_inj: "m < 256 \<Longrightarrow> n < 256 \<Longrightarrow> char_of m = (char_of n :: char) \<longleftrightarrow> m = (n :: nat)"
  by (metis of_char_of mod_less)

lemma be_bytes_inj: "m < 256 ^ k \<Longrightarrow> n < 256 ^ k \<Longrightarrow> be_bytes k m = be_bytes k n \<Longrightarrow> m = n"
proof (induction k arbitrary: m n)
  case (Suc k)
  have "m div 256 < 256 ^ k" "n div 256 < 256 ^ k"
    using Suc.prems(1,2) by (simp_all add: less_mult_imp_div_less mult.commute)
  with Suc have "m div 256 = n div 256" by simp
  moreover have "m mod 256 = n mod 256" using Suc.prems(3) by (simp add: char_of_byte_inj)
  ultimately show ?case by (metis mod_div_mult_eq)
qed simp

definition short_fields :: "string list \<Rightarrow> bool" where
  "short_fields fs \<longleftrightarrow> (\<forall>f \<in> set fs. length f < 2 ^ 64)"

lemma framed_Cons [simp]: "framed (f # fs) = push_field f @ framed fs"
  by (simp add: framed_def)

lemma framed_nonempty: "framed (f # fs) \<noteq> []"
proof
  assume "framed (f # fs) = []"
  then have "length (push_field f) = 0" by simp
  then show False by (simp add: push_field_def)
qed

lemma framed_inj: "short_fields fs \<Longrightarrow> short_fields gs \<Longrightarrow> framed fs = framed gs \<Longrightarrow> fs = gs"
proof (induction fs arbitrary: gs)
  case Nil
  then show ?case using framed_nonempty by (cases gs) (auto simp: framed_def simp del: framed_Cons)
next
  case (Cons f fs)
  show ?case
  proof (cases gs)
    case Nil
    with Cons.prems(3) show ?thesis using framed_nonempty [of f fs] by (simp add: framed_def)
  next
    case (Cons g gs')
    have eq: "be_bytes 8 (length f) @ f @ framed fs = be_bytes 8 (length g) @ g @ framed gs'"
      using Cons.prems(3) Cons by (simp add: push_field_def)
    have len: "be_bytes 8 (length f) = be_bytes 8 (length g)" and rest: "f @ framed fs = g @ framed gs'"
      using eq append_eq_append_conv [of "be_bytes 8 (length f)" "be_bytes 8 (length g)"] by (metis length_be_bytes)+
    have "length f < 256 ^ 8" "length g < 256 ^ 8"
      using Cons.prems(1,2) Cons by (simp_all add: short_fields_def)
    from be_bytes_inj [OF this len] rest have "f = g" "framed fs = framed gs'" by auto
    moreover have "short_fields fs" "short_fields gs'"
      using Cons.prems(1,2) Cons by (simp_all add: short_fields_def)
    ultimately show ?thesis using Cons.IH [of gs'] Cons by blast
  qed
qed

lemma hex_char_inj: "m < 16 \<Longrightarrow> n < 16 \<Longrightarrow> hex_char m = hex_char n \<longleftrightarrow> m = n"
  by (auto simp: hex_char_def char_of_byte_inj)

lemma hex_digest_inj: "hex_digest xs = hex_digest ys \<longleftrightarrow> xs = ys"
proof (induction xs arbitrary: ys)
  case Nil
  show ?case by (cases ys) (simp_all add: hex_digest_def)
next
  case (Cons x xs)
  show ?case
  proof (cases ys)
    case (Cons y ys')
    have lt: "of_char x < (256 :: nat)" "of_char y < (256 :: nat)" by simp_all
    have "hex_char (of_char x div 16) = hex_char (of_char y div 16) \<longleftrightarrow> of_char x div 16 = (of_char y div 16 :: nat)"
      "hex_char (of_char x mod 16) = hex_char (of_char y mod 16) \<longleftrightarrow> of_char x mod 16 = (of_char y mod 16 :: nat)"
      by (rule hex_char_inj; use lt in \<open>simp add: less_mult_imp_div_less\<close>)+
    moreover have "x = y \<longleftrightarrow> of_char x div 16 = (of_char y div 16 :: nat) \<and> of_char x mod 16 = (of_char y mod 16 :: nat)"
      by (metis div_mult_mod_eq of_char_eq_iff)
    ultimately show ?thesis using Cons Cons.IH [of ys'] by (simp add: hex_digest_def)
  qed (simp add: hex_digest_def)
qed

section \<open>Marked lists of fields\<close>

text \<open>Concatenated chunks of one length, and a marker between two runs of chunks.\<close>

definition chunks :: "nat \<Rightarrow> string list list \<Rightarrow> bool" where
  "chunks k cs \<longleftrightarrow> (\<forall>c \<in> set cs. length c = k)"

lemma chunks_simps [simp]:
  "chunks k []" "chunks k (c # cs) \<longleftrightarrow> length c = k \<and> chunks k cs" "chunks k (xs @ ys) \<longleftrightarrow> chunks k xs \<and> chunks k ys"
  by (auto simp: chunks_def)

lemma length_chunks: "chunks k cs \<Longrightarrow> length (concat cs) = k * length cs"
  by (induction cs) auto

lemma chunks_inj: "0 < k \<Longrightarrow> chunks k xs \<Longrightarrow> chunks k ys \<Longrightarrow> concat xs = concat ys \<Longrightarrow> xs = ys"
proof (induction xs arbitrary: ys)
  case (Cons x xs)
  then obtain y ys' where ys: "ys = y # ys'" by (cases ys) auto
  with Cons.prems have "length x = length y" "x @ concat xs = y @ concat ys'" by simp_all
  then have "x = y" "concat xs = concat ys'" by (metis append_eq_append_conv)+
  with Cons.IH [of ys'] Cons.prems ys show ?case by simp
next
  case Nil
  then show ?case by (cases ys) auto
qed

lemma nth_chunks: "chunks k cs \<Longrightarrow> i < length cs \<Longrightarrow> j < k \<Longrightarrow> concat cs ! (k * i + j) = cs ! i ! j"
proof (induction cs arbitrary: i)
  case (Cons c cs)
  then show ?case by (cases i) (auto simp: nth_append)
qed simp

lemma marker_not_inside:
  assumes "k = 2 \<or> k = 3" and "chunks 2 xs" and "chunks k bs" and "chunks k bs'"
    and "\<forall>c \<in> set bs. last c \<noteq> m" and "concat bs = v # concat xs @ m # concat bs'"
  shows False
proof -
  let ?n = "Suc (2 * length xs)"
  have len: "k * length bs = Suc ?n + k * length bs'"
    using arg_cong [OF assms(6), of length] length_chunks [OF assms(2)] length_chunks [OF assms(3)] length_chunks [OF assms(4)]
    by simp
  then have "k dvd Suc ?n" by (metis dvd_add_left_iff dvd_triv_left)
  then have idx: "?n = k * (?n div k) + (k - 1)" using assms(1)
    by (elim disjE; hypsubst; presburger)
  have q: "?n div k < length bs" using len assms(1) by (elim disjE; hypsubst; presburger)
  have "concat bs ! ?n = m" using length_chunks [OF assms(2)] unfolding assms(6) by (simp add: nth_append)
  moreover have "concat bs ! (k * (?n div k) + (k - 1)) = bs ! (?n div k) ! (k - 1)"
    by (rule nth_chunks [OF assms(3) q]) (use assms(1) in auto)
  moreover have "length (bs ! (?n div k)) = k" using assms(3) q by (simp add: chunks_def)
  then have "bs ! (?n div k) ! (k - 1) = last (bs ! (?n div k))" using assms(1)
    by (metis last_conv_nth length_0_conv zero_neq_numeral)
  ultimately show False using idx assms(5) q by (metis nth_mem)
qed

lemma marker_unique:
  assumes "k = 2 \<or> k = 3" and "chunks k bs" and "chunks k bs'"
    and "\<forall>c \<in> set bs \<union> set bs'. last c \<noteq> m"
  shows "chunks 2 xs \<Longrightarrow> chunks 2 xs' \<Longrightarrow> concat xs @ m # concat bs = concat xs' @ m # concat bs' \<Longrightarrow> xs = xs' \<and> bs = bs'"
proof (induction xs arbitrary: xs')
  case Nil
  show ?case
  proof (cases xs')
    case Nil
    have "0 < k" using assms(1) by auto
    with Nil Nil.prems chunks_inj [OF _ assms(2,3)] show ?thesis by auto
  next
    case (Cons x ys)
    then obtain a v where "x = [a, v]" using Nil.prems(2) by (auto simp: length_Suc_conv numeral_2_eq_2)
    with Nil.prems Cons have "concat bs = v # concat ys @ m # concat bs'" "chunks 2 ys" by auto
    from marker_not_inside [OF assms(1) this(2) assms(2,3) _ this(1)] assms(4) show ?thesis by blast
  qed
next
  case (Cons x xs)
  obtain a v where x: "x = [a, v]" using Cons.prems(1) by (auto simp: length_Suc_conv numeral_2_eq_2)
  show ?case
  proof (cases xs')
    case Nil
    with Cons.prems x have "concat bs' = v # concat xs @ m # concat bs" "chunks 2 xs" by auto
    from marker_not_inside [OF assms(1) this(2) assms(3,2) _ this(1)] assms(4) show ?thesis by blast
  next
    case (Cons y ys)
    then obtain b w where "y = [b, w]" using Cons.prems(2) by (auto simp: length_Suc_conv numeral_2_eq_2)
    with Cons Cons.prems x have "concat xs @ m # concat bs = concat ys @ m # concat bs'" "chunks 2 xs" "chunks 2 ys" "x = y"
      by auto
    with Cons.IH [OF this(2,3,1)] Cons show ?thesis by simp
  qed
qed

section \<open>Joined names\<close>

lemma join_eq_Nil: "list_all (\<lambda>s. s \<noteq> []) xs \<Longrightarrow> join sep xs = [] \<longleftrightarrow> xs = []"
  by (cases xs; cases "tl xs") (auto simp: neq_Nil_conv)

lemma split_on_join: "list_all (\<lambda>s. c \<notin> set s) (x # xs) \<Longrightarrow> split_on c (join [c] (x # xs)) = x # xs"
proof (induction xs arbitrary: x)
  case Nil
  then have "c \<notin> set x" by simp
  then show ?case by (induction x) auto
next
  case (Cons y ys)
  have app: "c \<notin> set p \<Longrightarrow> split_on c (p @ c # s) = p # split_on c s" for p s by (induction p) auto
  from Cons show ?case by (simp add: app)
qed

definition plain_names :: "string list \<Rightarrow> bool" where
  "plain_names ns \<longleftrightarrow> list_all (\<lambda>s. s \<noteq> [] \<and> CHR 0x0A \<notin> set s) ns"

lemma join_names_inj:
  assumes "plain_names xs" and "plain_names ys" and "join [CHR 0x0A] xs = join [CHR 0x0A] ys"
  shows "xs = ys"
proof (cases "xs = [] \<or> ys = []")
  case True
  have "list_all (\<lambda>s. s \<noteq> []) xs" "list_all (\<lambda>s. s \<noteq> []) ys"
    using assms(1,2) by (auto simp: plain_names_def list_all_iff)
  with True assms(3) join_eq_Nil [of xs "[CHR 0x0A]"] join_eq_Nil [of ys "[CHR 0x0A]"] show ?thesis by auto
next
  case False
  then obtain x xs' y ys' where xs: "xs = x # xs'" "ys = y # ys'" by (auto simp: neq_Nil_conv)
  have "list_all (\<lambda>s. CHR 0x0A \<notin> set s) xs" "list_all (\<lambda>s. CHR 0x0A \<notin> set s) ys"
    using assms(1,2) by (auto simp: plain_names_def list_all_iff)
  with assms(3) show ?thesis unfolding xs by (metis split_on_join)
qed

section \<open>What an id identifies\<close>

text \<open>The inputs of two operations agree, lists that the id sorts up to their order.\<close>

definition same_operation :: "Digests \<Rightarrow> OperationIdentity \<Rightarrow> OperationIdentity \<Rightarrow> bool" where
  "same_operation D a b \<longleftrightarrow>
     oi_source_set_digest a = oi_source_set_digest b \<and>
     oi_workflow_definition_digest a = oi_workflow_definition_digest b \<and>
     oi_task_id a = oi_task_id b \<and> canonical_json D (oi_leaf a) = canonical_json D (oi_leaf b) \<and>
     oi_platform a = oi_platform b \<and> oi_architecture a = oi_architecture b \<and>
     oi_working_directory_kind a = oi_working_directory_kind b \<and>
     oi_working_directory_path a = oi_working_directory_path b \<and>
     oi_ordinary a = oi_ordinary b \<and> mset (oi_bindings a) = mset (oi_bindings b) \<and>
     oi_cancel a = oi_cancel b \<and> oi_jobs a = oi_jobs b \<and> oi_timeout_ms a = oi_timeout_ms b \<and>
     oi_cpu a = oi_cpu b \<and> oi_memory_bytes a = oi_memory_bytes b \<and>
     mset (oi_exclusive a) = mset (oi_exclusive b) \<and> mset (oi_outputs a) = mset (oi_outputs b)"

definition identity_ok :: "Digests \<Rightarrow> OperationIdentity \<Rightarrow> bool" where
  "identity_ok D i \<longleftrightarrow> short_fields (operation_fields D i) \<and>
     list_all (\<lambda>b. bd_delivery b = ''environment'' \<or> bd_delivery b = ''file'') (oi_bindings i) \<and>
     distinct (map bd_name (oi_bindings i)) \<and> plain_names (oi_exclusive i) \<and> plain_names (oi_outputs i)"

abbreviation binding_chunk :: "BindingDestination \<Rightarrow> string list" where
  "binding_chunk b \<equiv> [bd_name b, bd_reference b, bd_delivery b]"

lemma inj_binding_chunk: "inj binding_chunk"
  by (rule injI) simp

lemma inj_pair_chunk: "inj (\<lambda>(k, v). [k, v])"
  by (rule injI) auto

lemma sorted_names_mset:
  assumes "plain_names xs" and "plain_names ys" and "join [CHR 0x0A] (sort xs) = join [CHR 0x0A] (sort ys)"
  shows "mset xs = mset ys"
proof -
  have "sort xs = sort ys"
    by (rule join_names_inj [OF _ _ assms(3)]) (use assms(1,2) in \<open>simp_all add: plain_names_def list_all_iff\<close>)
  then show ?thesis by (metis mset_sort)
qed

lemma append_ends_eq:
  assumes "length h = length h'" and "length t = length t'" and "h @ m @ t = h' @ m' @ t'"
  shows "h = h' \<and> m = m' \<and> t = t'"
  using assms by (metis append_eq_append_conv)

lemma operation_fields_inj:
  assumes "identity_ok D a" and "identity_ok D b" and "operation_fields D a = operation_fields D b"
  shows "same_operation D a b"
proof -
  let ?P = "\<lambda>i. map (\<lambda>(k, v). [k, v]) (oi_ordinary i)" and ?B = "\<lambda>i. map binding_chunk (sort_key bd_name (oi_bindings i))"
  let ?H = "\<lambda>i. [oi_source_set_digest i, oi_workflow_definition_digest i, oi_task_id i, canonical_json D (oi_leaf i),
      oi_platform i, oi_architecture i, oi_working_directory_kind i, oi_working_directory_path i]"
  let ?T = "\<lambda>i. [''bindings-end'', oi_cancel i, show_nat (unat (oi_jobs i)), oi_timeout_ms i, show_nat (unat (oi_cpu i)),
        show_nat (unat (oi_memory_bytes i)), join [CHR 0x0A] (sort (oi_exclusive i)), ''exclusive-end'',
        join [CHR 0x0A] (sort (oi_outputs i)), ''outputs-end'']"
  have split: "operation_fields D i = ?H i @ (concat (?P i) @ ''ordinary-end'' # concat (?B i)) @ ?T i" for i
    unfolding operation_fields_def by simp
  have "length (?H a) = length (?H b)" "length (?T a) = length (?T b)" by simp_all
  then have parts: "?H a = ?H b" "?T a = ?T b"
      "concat (?P a) @ ''ordinary-end'' # concat (?B a) = concat (?P b) @ ''ordinary-end'' # concat (?B b)"
    using append_ends_eq [OF _ _ assms(3) [unfolded split]] by blast+
  have deliveries: "\<forall>c \<in> set (?B i). last c \<noteq> ''ordinary-end''" if "identity_ok D i" for i
    using that by (auto simp: identity_ok_def list_all_iff)
  have "?P a = ?P b \<and> ?B a = ?B b"
    by (rule marker_unique [where k = 3, OF _ _ _ _ _ _ parts(3)])
      (use deliveries [OF assms(1)] deliveries [OF assms(2)] in \<open>auto simp: chunks_def\<close>)
  then have ordinary: "oi_ordinary a = oi_ordinary b" and bindings: "sort_key bd_name (oi_bindings a) = sort_key bd_name (oi_bindings b)"
    using inj_map_eq_map [OF inj_binding_chunk] inj_map_eq_map [OF inj_pair_chunk] by blast+
  from bindings have bindings': "mset (oi_bindings a) = mset (oi_bindings b)" by (metis mset_sort)
  have names: "mset (oi_exclusive a) = mset (oi_exclusive b)" "mset (oi_outputs a) = mset (oi_outputs b)"
    using assms(1,2) parts(2) by (auto simp: identity_ok_def intro: sorted_names_mset)
  show ?thesis
    unfolding same_operation_def using parts(1,2) ordinary bindings' names
    by (simp add: show_nat_inj word_unat_eq_iff)
qed

lemma sort_key_mset:
  assumes "mset xs = mset ys" and "distinct (map f xs)"
  shows "sort_key f xs = sort_key f ys"
proof (rule map_sorted_distinct_set_unique [where f = f])
  have set: "set xs = set ys" by (metis assms(1) set_mset_mset)
  have "length xs = length ys" by (metis assms(1) size_mset)
  with assms(2) set have dist: "distinct (map f ys)" by (metis card_distinct distinct_card length_map list.set_map)
  have inj: "inj_on f (set xs)" using assms(2) by (simp add: distinct_map)
  then show "inj_on f (set (sort_key f xs) \<union> set (sort_key f ys))" using set by simp
  show "set (sort_key f xs) = set (sort_key f ys)" using set by simp
  have "distinct xs" "distinct ys" using assms(2) dist by (simp_all add: distinct_map)
  then show "distinct (map f (sort_key f xs))" "distinct (map f (sort_key f ys))"
    using inj set by (simp_all add: distinct_map)
qed (simp_all add: sorted_sort_key)

lemma sort_mset_eq: "mset xs = mset ys \<Longrightarrow> sort xs = sort ys"
  by (metis mset_sort properties_for_sort sorted_sort)

lemma operation_fields_cong:
  assumes "identity_ok D a" and "same_operation D a b"
  shows "operation_fields D a = operation_fields D b"
  using assms sort_key_mset [of "oi_bindings a" "oi_bindings b" bd_name]
    sort_mset_eq [of "oi_exclusive a" "oi_exclusive b"] sort_mset_eq [of "oi_outputs a" "oi_outputs b"]
  by (simp add: operation_fields_def same_operation_def identity_ok_def)

text \<open>
  C16: Two operations have one operation id exactly when every input the id is
  to cover agrees: source, workflow digest, task, leaf, platform, working
  directory, environment, bindings, admission, resources and outputs.  The order
  of bindings, exclusive resources and outputs does not matter; nothing else can
  be moved between fields.  The digest is taken to tell these two preimages
  apart, deliveries are those admission accepts, and names hold no newline.
\<close>

theorem operation_id_identifies:
  assumes "identity_ok D a" and "identity_ok D b"
    and "take 16 (sha256 D (framed (operation_fields D a))) = take 16 (sha256 D (framed (operation_fields D b))) \<Longrightarrow>
      framed (operation_fields D a) = framed (operation_fields D b)"
  shows "operation_id D a = operation_id D b \<longleftrightarrow> same_operation D a b"
proof
  assume "operation_id D a = operation_id D b"
  then have "framed (operation_fields D a) = framed (operation_fields D b)"
    by (intro assms(3)) (simp add: operation_id_def hex_digest_inj)
  then have "operation_fields D a = operation_fields D b"
    by (rule framed_inj [rotated 2]) (use assms(1,2) in \<open>simp_all add: identity_ok_def\<close>)
  then show "same_operation D a b" by (rule operation_fields_inj [OF assms(1,2)])
next
  assume "same_operation D a b"
  from operation_fields_cong [OF assms(1) this] show "operation_id D a = operation_id D b"
    by (simp add: operation_id_def)
qed

definition example_digests :: Digests where
  "example_digests = \<lparr>sha256 = drop 8, json_scalar = (\<lambda>v. case v of JString t \<Rightarrow> t | _ \<Rightarrow> [])\<rparr>"

definition example_identity :: "string \<Rightarrow> OperationIdentity" where
  "example_identity commit =
     \<lparr>oi_source_set_digest = commit, oi_workflow_definition_digest = ''wf_1'', oi_task_id = ''lint'',
      oi_leaf = JNull, oi_platform = ''any'', oi_architecture = [], oi_working_directory_kind = ''workspace_relative'',
      oi_working_directory_path = ''.'', oi_ordinary = [(''CI'', ''1'')],
      oi_bindings = [\<lparr>bd_name = ''TOKEN'', bd_reference = ''nixplane://binding/t'', bd_delivery = ''environment''\<rparr>],
      oi_cancel = ''cooperative'', oi_jobs = 1, oi_timeout_ms = [], oi_cpu = 1, oi_memory_bytes = 0,
      oi_exclusive = [''gpu''], oi_outputs = [''log'']\<rparr>"

lemma example_identity_ok: "length commit < 100 \<Longrightarrow> identity_ok example_digests (example_identity commit)"
  by (simp add: identity_ok_def example_identity_def example_digests_def operation_fields_def short_fields_def plain_names_def show_nat.simps)

theorem operation_id_identifies_witness:
  "(operation_id example_digests (example_identity ''src_1'') = operation_id example_digests (example_identity ''src_2'')) =
     same_operation example_digests (example_identity ''src_1'') (example_identity ''src_2'') \<and>
   \<not> same_operation example_digests (example_identity ''src_1'') (example_identity ''src_2'')"
proof
  show "(operation_id example_digests (example_identity ''src_1'') = operation_id example_digests (example_identity ''src_2'')) =
     same_operation example_digests (example_identity ''src_1'') (example_identity ''src_2'')"
    by (rule operation_id_identifies [OF example_identity_ok example_identity_ok])
      (simp_all add: example_digests_def example_identity_def operation_fields_def push_field_def)
  show "\<not> same_operation example_digests (example_identity ''src_1'') (example_identity ''src_2'')"
    by (simp add: same_operation_def example_identity_def)
qed

section \<open>Source sets\<close>

definition same_source :: "SourceSetV1 \<Rightarrow> SourceSetV1 \<Rightarrow> bool" where
  "same_source a b \<longleftrightarrow> ss_kind a = ss_kind b \<and> ss_commit a = ss_commit b \<and>
     mset (ss_submodules a) = mset (ss_submodules b) \<and> mset (ss_lockfiles a) = mset (ss_lockfiles b) \<and>
     (case ss_dirty_snapshot_id a of Some d \<Rightarrow> d | None \<Rightarrow> []) = (case ss_dirty_snapshot_id b of Some d \<Rightarrow> d | None \<Rightarrow> [])"

definition source_ok :: "SourceSetV1 \<Rightarrow> bool" where
  "source_ok s \<longleftrightarrow> short_fields (source_set_fields s) \<and>
     distinct (map sm_path (ss_submodules s)) \<and> distinct (map lf_path (ss_lockfiles s)) \<and>
     list_all (\<lambda>l. lf_digest l \<noteq> ''submodules-end'') (ss_lockfiles s)"

lemma inj_pin_chunks: "inj (\<lambda>p :: SubmodulePin. [sm_path p, sm_commit p])" "inj (\<lambda>l :: LockfileDigest. [lf_path l, lf_digest l])"
  by (auto intro!: injI SubmodulePin.equality LockfileDigest.equality)

lemma source_set_fields_inj:
  assumes "source_ok a" and "source_ok b" and "source_set_fields a = source_set_fields b"
  shows "same_source a b"
proof -
  let ?S = "\<lambda>s. map (\<lambda>p. [sm_path p, sm_commit p]) (sort_key sm_path (ss_submodules s))"
  let ?L = "\<lambda>s. map (\<lambda>l. [lf_path l, lf_digest l]) (sort_key lf_path (ss_lockfiles s))"
  let ?H = "\<lambda>s. [ss_kind s, ss_commit s]"
  let ?T = "\<lambda>s. [''lockfiles-end'', case ss_dirty_snapshot_id s of Some d \<Rightarrow> d | None \<Rightarrow> []]"
  have split: "source_set_fields s = ?H s @ (concat (?S s) @ ''submodules-end'' # concat (?L s)) @ ?T s" for s
    by (simp add: source_set_fields_def)
  have "length (?H a) = length (?H b)" "length (?T a) = length (?T b)" by simp_all
  then have parts: "?H a = ?H b" "?T a = ?T b"
      "concat (?S a) @ ''submodules-end'' # concat (?L a) = concat (?S b) @ ''submodules-end'' # concat (?L b)"
    using append_ends_eq [OF _ _ assms(3) [unfolded split]] by blast+
  have digests: "\<forall>c \<in> set (?L s). last c \<noteq> ''submodules-end''" if "source_ok s" for s
    using that by (auto simp: source_ok_def list_all_iff)
  have "?S a = ?S b \<and> ?L a = ?L b"
    by (rule marker_unique [where k = 2, OF _ _ _ _ _ _ parts(3)])
      (use digests [OF assms(1)] digests [OF assms(2)] in \<open>auto simp: chunks_def\<close>)
  then have "sort_key sm_path (ss_submodules a) = sort_key sm_path (ss_submodules b)"
    "sort_key lf_path (ss_lockfiles a) = sort_key lf_path (ss_lockfiles b)"
    using inj_map_eq_map [OF inj_pin_chunks(1)] inj_map_eq_map [OF inj_pin_chunks(2)] by blast+
  then have "mset (ss_submodules a) = mset (ss_submodules b)" "mset (ss_lockfiles a) = mset (ss_lockfiles b)"
    by (metis mset_sort)+
  with parts(1,2) show ?thesis by (simp add: same_source_def)
qed

text \<open>The digest of a source set identifies it, with the order of submodules and lock files left out.\<close>

lemma source_set_digest_identifies:
  assumes "source_ok a" and "source_ok b"
    and "sha256 D (framed (source_set_fields a)) = sha256 D (framed (source_set_fields b)) \<Longrightarrow>
      framed (source_set_fields a) = framed (source_set_fields b)"
  shows "source_set_digest D a = source_set_digest D b \<longleftrightarrow> same_source a b"
proof
  assume "source_set_digest D a = source_set_digest D b"
  then have "framed (source_set_fields a) = framed (source_set_fields b)"
    by (intro assms(3)) (simp add: source_set_digest_def hex_digest_inj)
  then have "source_set_fields a = source_set_fields b"
    by (rule framed_inj [rotated 2]) (use assms(1,2) in \<open>simp_all add: source_ok_def\<close>)
  then show "same_source a b" by (rule source_set_fields_inj [OF assms(1,2)])
next
  assume "same_source a b"
  with assms(1) have "source_set_fields a = source_set_fields b"
    using sort_key_mset [of "ss_submodules a" "ss_submodules b" sm_path]
      sort_key_mset [of "ss_lockfiles a" "ss_lockfiles b" lf_path]
    by (simp add: source_set_fields_def same_source_def source_ok_def)
  then show "source_set_digest D a = source_set_digest D b" by (simp add: source_set_digest_def)
qed

text \<open>Names with newlines share an id: two outputs and one output named by both.\<close>

lemma outputs_collide:
  "operation_id D (i\<lparr>oi_outputs := [''a'', ''b'']\<rparr>) = operation_id D (i\<lparr>oi_outputs := [[CHR ''a'', CHR 0x0A, CHR ''b'']]\<rparr>)"
proof -
  have "sort [''a'', ''b''] = [''a'', ''b'']" by code_simp
  then show ?thesis by (simp add: operation_id_def operation_fields_def)
qed

text \<open>Canonical JSON does not depend on the order of object keys.\<close>

lemma canonical_json_key_order:
  assumes "mset m = mset n" and "distinct (map fst m)"
  shows "canonical_json D (JObject m) = canonical_json D (JObject n)"
proof -
  let ?f = "\<lambda>(k, v). (k, json_scalar D (JString k) @ '':'' @ canonical_json D v)"
  have "mset (map ?f m) = mset (map ?f n)" by (simp add: assms(1))
  moreover have "map fst (map ?f m) = map fst m" by (induction m) auto
  then have "distinct (map fst (map ?f m))" using assms(2) by (simp only:)
  ultimately show ?thesis by (simp only: canonical_json.simps sort_key_mset)
qed

end
