(* ===== verification/Execution_Spec.thy ===== *)
theory Execution_Spec
  imports Identity Events
begin

text \<open>
  Executable workflow leaves (\<open>crates/nxr-task/src/execution_spec.rs\<close>): the envelope built for a
  task, its admission on a host, and the dirty inventory of a checkout.  Git, the
  worktree and the digests are arguments.
\<close>

section \<open>The envelope\<close>

record AdmissionPolicy =
  ap_cancel :: string
  ap_jobs :: u32
  ap_timeout_ms :: "u64 option"

record CiIdentity =
  ci_provider :: string
  ci_external_job_id :: string
  ci_run_url :: "string option"

record ExecutionSpecV2 =
  es_schema_version :: string
  es_source_set_id :: string
  es_workflow_definition_digest :: string
  es_task_id :: string
  es_operation_id :: string
  es_platform :: string
  es_architecture :: "string option"
  es_capabilities :: "string list"
  es_admission :: AdmissionPolicy
  es_environment :: ExecutionEnvironment
  es_working_directory :: WorkingDirectoryPolicy
  es_resources :: ExecutionResources
  es_secret_refs :: "string list"
  es_outputs :: "string list"
  es_parent_run_id :: "string option"
  es_ci :: "CiIdentity option"
  es_idempotency_key :: string
  es_leaf :: JsonValue

definition spec_identity :: "ExecutionSpecV2 \<Rightarrow> OperationIdentity" where
  "spec_identity s =
     \<lparr>oi_source_set_digest = es_source_set_id s,
      oi_workflow_definition_digest = es_workflow_definition_digest s,
      oi_task_id = es_task_id s, oi_leaf = es_leaf s, oi_platform = es_platform s,
      oi_architecture = (case es_architecture s of Some a \<Rightarrow> a | None \<Rightarrow> []),
      oi_working_directory_kind = wp_kind (es_working_directory s),
      oi_working_directory_path = wp_path (es_working_directory s),
      oi_ordinary = ee_ordinary (es_environment s), oi_bindings = ee_bindings (es_environment s),
      oi_cancel = ap_cancel (es_admission s), oi_jobs = ap_jobs (es_admission s),
      oi_timeout_ms = (case ap_timeout_ms (es_admission s) of Some t \<Rightarrow> show_nat (unat t) | None \<Rightarrow> []),
      oi_cpu = er_cpu (es_resources s), oi_memory_bytes = er_memory_bytes (es_resources s),
      oi_exclusive = er_exclusive (es_resources s), oi_outputs = es_outputs s\<rparr>"

definition recomputed_operation_id :: "Digests \<Rightarrow> ExecutionSpecV2 \<Rightarrow> string" where
  "recomputed_operation_id D s = operation_id D (spec_identity s)"

definition redacted :: "ExecutionSpecV2 \<Rightarrow> ExecutionSpecV2" where
  "redacted s = s\<lparr>es_environment := (es_environment s)\<lparr>ee_ordinary := map (\<lambda>(k, v). (k, [])) (ee_ordinary (es_environment s))\<rparr>\<rparr>"

definition BINDING_REF_PREFIX :: string where
  "BINDING_REF_PREFIX = ''nixplane://binding/''"

definition validate_binding :: "BindingDestination \<Rightarrow> (string, unit) outcome" where
  "validate_binding b =
     (if \<not> starts_with (bd_reference b) BINDING_REF_PREFIX
      then Err (''binding `'' @ bd_name b @ ''` ref is not a nixplane binding'')
      else if bd_delivery b \<noteq> ''environment'' \<and> bd_delivery b \<noteq> ''file''
      then Err (''binding `'' @ bd_name b @ ''` delivery `'' @ bd_delivery b @ ''` is unknown'')
      else Ok ())"

fun split_environment :: "(string, string) btmap \<Rightarrow> (string, ExecutionEnvironment) outcome" where
  "split_environment [] = Ok \<lparr>ee_ordinary = [], ee_bindings = []\<rparr>"
| "split_environment ((name, v) # rest) =
     (if starts_with v BINDING_REF_PREFIX then
        bind (split_environment rest) (\<lambda>e.
          Ok (e\<lparr>ee_bindings := \<lparr>bd_name = name, bd_reference = v, bd_delivery = ''environment''\<rparr> # ee_bindings e\<rparr>))
      else if starts_with v ''nixplane://'' then Err (''environment `'' @ name @ ''` is not a binding ref'')
      else bind (split_environment rest) (\<lambda>e. Ok (e\<lparr>ee_ordinary := (name, v) # ee_ordinary e\<rparr>)))"

definition working_directory_policy :: "string option \<Rightarrow> (string, WorkingDirectoryPolicy) outcome" where
  "working_directory_policy path =
     (let p = (case path of Some p \<Rightarrow> p | None \<Rightarrow> ''.'')
      in if starts_with p ''/'' \<or> starts_with p [CHR 0x5C] \<or> str_contains p ''..''
         then Err ''working directory must be workspace-relative''
         else Ok \<lparr>wp_kind = ''workspace_relative'', wp_path = p\<rparr>)"

fun platform_label :: "WorkflowPlatform \<Rightarrow> string" where
  "platform_label PlatformAny = ''any''"
| "platform_label PlatformUnix = ''unix''"
| "platform_label PlatformMacos = ''macos''"
| "platform_label PlatformLinux = ''linux''"
| "platform_label PlatformWindows = ''windows''"

text \<open>\<open>serde_json::to_value\<close> of an operation, as its derive attributes say; objects are sorted maps.\<close>

definition json_object :: "(string \<times> JsonValue) list \<Rightarrow> JsonValue" where
  "json_object ps = JObject (fold (\<lambda>(k, v). bt_insert k v) ps [])"

definition opt_field :: "string \<Rightarrow> string \<Rightarrow> (string \<times> JsonValue) list" where
  "opt_field k v = (if v = [] then [] else [(k, JString v)])"

definition restart_json :: "ProcessRestartPolicy \<Rightarrow> JsonValue" where
  "restart_json r = JString (case r of PolicyNever \<Rightarrow> ''never'' | PolicyOnFailure \<Rightarrow> ''on_failure'' | PolicyAlways \<Rightarrow> ''always'')"

fun operation_fields_json :: "Operation \<Rightarrow> (string \<times> JsonValue) list" where
  "operation_fields_json (FlakeApp name) = [(''name'', JString name)]"
| "operation_fields_json (NixBuild installable) = [(''installable'', JString installable)]"
| "operation_fields_json (NativeCommand argv) = [(''argv'', JArray (map JString argv))]"
| "operation_fields_json (WorkspaceScript path interpreter) =
     (''path'', JString path) # (case interpreter of Some i \<Rightarrow> [(''interpreter'', JString i)] | None \<Rightarrow> [])"
| "operation_fields_json (Process app readiness restart) =
     (''app'', JString app) # opt_field ''readiness'' readiness @
       (case restart of Some r \<Rightarrow> [(''restart'', restart_json r)] | None \<Rightarrow> [])"
| "operation_fields_json (WasiComponent component world capabilities) =
     (''component'', JString component) # opt_field ''world'' world @
       (if capabilities = [] then [] else [(''capabilities'', JArray (map JString capabilities))])"
| "operation_fields_json (Adapter k configuration) =
     (''adapter_kind'', JString k) # (if configuration = JNull then [] else [(''configuration'', configuration)])"
| "operation_fields_json (WinBuildTask t manifest) = [(''task_id'', JString t), (''manifest'', JString manifest)]"
| "operation_fields_json (Remote target task source_url source_revision lock_digest source_ref lock_file build_root manifest) =
     (''target'', JString target) # opt_field ''task'' task @ opt_field ''source_url'' source_url @
       opt_field ''source_revision'' source_revision @ opt_field ''lock_digest'' lock_digest @
       opt_field ''source_ref'' source_ref @ opt_field ''lock_file'' lock_file @
       opt_field ''build_root'' build_root @ opt_field ''manifest'' manifest"

definition operation_json :: "Operation \<Rightarrow> JsonValue" where
  "operation_json op = json_object ((''kind'', JString (operation_kind op)) # operation_fields_json op)"

definition execution_spec_for_task ::
  "Digests \<Rightarrow> SourceSetV1 \<Rightarrow> string \<Rightarrow> string \<Rightarrow> WorkflowTask \<Rightarrow> (string, ExecutionSpecV2) outcome" where
  "execution_spec_for_task D source workflow_digest task_id task =
     bind (split_environment (wt_environment task)) (\<lambda>environment.
     bind (for_each validate_binding (ee_bindings environment)) (\<lambda>_.
     bind (working_directory_policy (wt_working_directory task)) (\<lambda>directory.
       let spec = \<lparr>es_schema_version = EXECUTION_SPEC_V2, es_source_set_id = source_set_digest D source,
             es_workflow_definition_digest = workflow_digest, es_task_id = task_id, es_operation_id = [],
             es_platform = platform_label (wt_platform task), es_architecture = wt_architecture task,
             es_capabilities = [operation_kind (wt_operation task)],
             es_admission = \<lparr>ap_cancel = ''cooperative'', ap_jobs = max (nr_cpu (wt_resources task)) 1, ap_timeout_ms = None\<rparr>,
             es_environment = environment, es_working_directory = directory,
             es_resources = \<lparr>er_cpu = nr_cpu (wt_resources task), er_memory_bytes = nr_memory_bytes (wt_resources task),
               er_exclusive = nr_exclusive (wt_resources task)\<rparr>,
             es_secret_refs = map bd_reference (ee_bindings environment), es_outputs = wt_artifacts task,
             es_parent_run_id = None, es_ci = None, es_idempotency_key = [],
             es_leaf = operation_json (wt_operation task)\<rparr>;
           spec1 = spec\<lparr>es_operation_id := recomputed_operation_id D spec\<rparr>
       in Ok (spec1\<lparr>es_idempotency_key := es_operation_id spec1\<rparr>))))"

fun execution_specs ::
  "Digests \<Rightarrow> SourceSetV1 \<Rightarrow> string \<Rightarrow> (string \<times> WorkflowTask) list \<Rightarrow> (string, ExecutionSpecV2 list) outcome" where
  "execution_specs D source workflow_digest [] = Ok []"
| "execution_specs D source workflow_digest ((task_id, task) # rest) =
     bind (execution_spec_for_task D source workflow_digest task_id task) (\<lambda>s.
     bind (execution_specs D source workflow_digest rest) (\<lambda>ss. Ok (s # ss)))"

definition execution_specs_for_document ::
  "Digests \<Rightarrow> WorkflowDocument \<Rightarrow> SourceSetV1 \<Rightarrow> string \<Rightarrow> (string, ExecutionSpecV2 list) outcome" where
  "execution_specs_for_document D doc source workflow_digest = execution_specs D source workflow_digest (wd_tasks doc)"

section \<open>Admission\<close>

text \<open>The host is \<open>std::env::consts::OS\<close> and \<open>ARCH\<close>.\<close>

definition spec_platform_matches_host :: "string \<Rightarrow> string \<Rightarrow> bool" where
  "spec_platform_matches_host os platform \<longleftrightarrow>
     (if platform = ''any'' then True
      else if platform = ''unix'' then os = ''macos'' \<or> os = ''linux''
      else if platform = ''macos'' then os = ''macos''
      else if platform = ''linux'' then os = ''linux''
      else if platform = ''windows'' then os = ''windows''
      else False)"

definition admit_spec :: "Digests \<Rightarrow> string \<Rightarrow> string \<Rightarrow> ExecutionSpecV2 \<Rightarrow> (string, unit) outcome" where
  "admit_spec D os arch s =
     (if recomputed_operation_id D s \<noteq> es_operation_id s
      then Err ''operation id does not match the execution inputs''
      else if \<not> list_ex (\<lambda>c. c = ''native_command'') (es_capabilities s)
      then Err ''missing capability native_command''
      else if \<not> spec_platform_matches_host os (es_platform s)
      then Err (''platform `'' @ es_platform s @ ''` does not match host `'' @ os @ ''`'')
      else case es_architecture s of
        Some a \<Rightarrow> if a \<noteq> arch then Err (''architecture `'' @ a @ ''` does not match host `'' @ arch @ ''`'')
                  else bind (for_each validate_binding (ee_bindings (es_environment s))) (\<lambda>_.
                    if wp_kind (es_working_directory s) \<noteq> ''workspace_relative''
                    then Err ''working directory must be workspace_relative'' else Ok ())
      | None \<Rightarrow> bind (for_each validate_binding (ee_bindings (es_environment s))) (\<lambda>_.
                    if wp_kind (es_working_directory s) \<noteq> ''workspace_relative''
                    then Err ''working directory must be workspace_relative'' else Ok ()))"

definition native_argv :: "JsonValue \<Rightarrow> (string, string list) outcome" where
  "native_argv leaf =
     (let kind = (case Option.bind (json_get ''kind'' leaf) json_str of Some k \<Rightarrow> k | None \<Rightarrow> [])
      in if kind \<noteq> ''native_command''
         then Err (''local consumer runs native_command leaves, got `'' @ kind @ ''`'')
         else case json_get ''argv'' leaf of
           Some (JArray items) \<Rightarrow>
             let argv = List.map_filter json_str items
             in if argv = [] then Err ''native argv is empty'' else Ok argv
         | _ \<Rightarrow> Err ''native leaf is missing argv'')"

text \<open>
  \<open>Path::components\<close> are all normal: no root, no parent, and no current directory
  at the front (an inner one is skipped).
\<close>

definition normal_components :: "string \<Rightarrow> bool" where
  "normal_components p \<longleftrightarrow>
     \<not> starts_with p ''/'' \<and> (case split_on (CHR ''/'') p of c # _ \<Rightarrow> c \<noteq> ''.'' | [] \<Rightarrow> True) \<and>
     list_all (\<lambda>c. c \<noteq> ''..'') (split_on (CHR ''/'') p)"

definition safe_output_name :: "string \<Rightarrow> (string, string) outcome" where
  "safe_output_name path =
     (if path = [] \<or> starts_with path ''/'' \<or> starts_with path [CHR 0x5C] \<or> str_contains path '':''
      then Err (''output '' @ path @ '' escapes the workspace'')
      else if \<not> normal_components path then Err (''output '' @ path @ '' escapes the workspace'')
      else Ok path)"

definition workspace_cwd :: "ExecutionSpecV2 \<Rightarrow> string \<Rightarrow> (string, string) outcome" where
  "workspace_cwd s journal_dir =
     (if wp_kind (es_working_directory s) \<noteq> ''workspace_relative''
      then Err ''working directory must be workspace_relative''
      else let path = trim (wp_path (es_working_directory s))
        in if path = [] \<or> path = ''.'' then Ok journal_dir
           else bind (safe_output_name path) (\<lambda>relative. Ok (path_join journal_dir relative)))"

definition require_outputs :: "(string \<Rightarrow> bool) \<Rightarrow> ExecutionSpecV2 \<Rightarrow> string \<Rightarrow> (string, unit) outcome" where
  "require_outputs is_file s cwd =
     for_each (\<lambda>name. bind (safe_output_name name) (\<lambda>relative.
       if \<not> is_file (path_join cwd relative) then Err (''output '' @ name @ '' is missing'') else Ok ())) (es_outputs s)"

section \<open>The environment is split into values and binding references\<close>

definition is_binding_value :: "string \<Rightarrow> bool" where
  "is_binding_value v \<longleftrightarrow> starts_with v BINDING_REF_PREFIX"

definition environment_binding :: "string \<times> string \<Rightarrow> BindingDestination" where
  "environment_binding p = \<lparr>bd_name = fst p, bd_reference = snd p, bd_delivery = ''environment''\<rparr>"

lemma split_environment_Ok:
  "split_environment env = Ok e \<longleftrightarrow>
     (\<forall>p \<in> set env. starts_with (snd p) ''nixplane://'' \<longrightarrow> is_binding_value (snd p)) \<and>
     e = \<lparr>ee_ordinary = filter (\<lambda>p. \<not> is_binding_value (snd p)) env,
          ee_bindings = map environment_binding (filter (\<lambda>p. is_binding_value (snd p)) env)\<rparr>"
proof (induction env arbitrary: e)
  case (Cons p env)
  obtain name v where p: "p = (name, v)" by (cases p)
  show ?case unfolding p
    by (auto simp: Cons.IH outcome_simps is_binding_value_def environment_binding_def)
qed auto

lemma split_environment_bindings:
  "split_environment env = Ok e \<Longrightarrow> for_each validate_binding (ee_bindings e) = Ok ()"
  by (auto simp: split_environment_Ok for_each_Ok validate_binding_def environment_binding_def is_binding_value_def)

lemma working_directory_Ok:
  "working_directory_policy path = Ok w \<longleftrightarrow>
     (let p = (case path of Some p \<Rightarrow> p | None \<Rightarrow> ''.'') in
      \<not> starts_with p ''/'' \<and> \<not> starts_with p [CHR 0x5C] \<and> \<not> str_contains p ''..'' \<and>
      w = \<lparr>wp_kind = ''workspace_relative'', wp_path = p\<rparr>)"
  by (auto simp: working_directory_policy_def Let_def)

text \<open>Exactly the tasks with no malformed reference and a relative directory have a spec.\<close>

lemma execution_spec_exists:
  "(\<exists>s. execution_spec_for_task D source wd i task = Ok s) \<longleftrightarrow>
     (\<forall>p \<in> set (wt_environment task). starts_with (snd p) ''nixplane://'' \<longrightarrow> is_binding_value (snd p)) \<and>
     (\<exists>w. working_directory_policy (wt_working_directory task) = Ok w)"
  unfolding execution_spec_for_task_def Let_def outcome_simps
  using split_environment_bindings by (fastforce simp: split_environment_Ok)

lemma native_argv_operation:
  "native_argv (operation_json op) = Ok argv \<longleftrightarrow> op = NativeCommand argv \<and> argv \<noteq> []"
proof (cases "operation_kind op = ''native_command''")
  case True
  then obtain xs where op: "op = NativeCommand xs" by (cases op) auto
  have "List.map_filter json_str (map JString xs) = xs"
    by (induction xs) (simp_all add: json_str_def List.map_filter_simps)
  moreover have "json_get ''kind'' (operation_json op) = Some (JString ''native_command'')"
    "json_get ''argv'' (operation_json op) = Some (JArray (map JString xs))"
    unfolding op by (simp_all add: operation_json_def json_object_def)
  ultimately show ?thesis unfolding native_argv_def Let_def by (auto simp: json_str_def op)
next
  case False
  have keep: "map_of (fold (\<lambda>(k, v). bt_insert k v) ps m) k = map_of m k" if "k \<notin> fst ` set ps" for ps m k
    using that by (induction ps arbitrary: m) auto
  have "''kind'' \<notin> fst ` set (operation_fields_json op)"
    by (cases op) (auto simp: opt_field_def split: option.splits if_splits)
  then have "json_get ''kind'' (operation_json op) = Some (JString (operation_kind op))"
    by (simp add: operation_json_def json_object_def keep)
  with False show ?thesis by (auto simp: native_argv_def Let_def json_str_def)
qed

text \<open>
  C18: The spec of a workflow task is admitted on a host exactly when the task is
  a native command for that platform and architecture; the command then run is
  the task's own argument list.  Its environment holds the task's plain values
  and, apart from them, a reference for every binding and no other use of the
  binding scheme, and the public copy holds no value.
\<close>

theorem execution_spec_admitted:
  assumes "execution_spec_for_task D source wd i task = Ok s"
  shows "(admit_spec D os arch s = Ok () \<longleftrightarrow>
      operation_kind (wt_operation task) = ''native_command'' \<and>
      spec_platform_matches_host os (platform_label (wt_platform task)) \<and>
      (wt_architecture task = None \<or> wt_architecture task = Some arch)) \<and>
    (native_argv (es_leaf s) = Ok argv \<longleftrightarrow> wt_operation task = NativeCommand argv \<and> argv \<noteq> []) \<and>
    ee_ordinary (es_environment s) = filter (\<lambda>p. \<not> starts_with (snd p) ''nixplane://'') (wt_environment task) \<and>
    es_secret_refs s = map snd (filter (\<lambda>p. starts_with (snd p) BINDING_REF_PREFIX) (wt_environment task)) \<and>
    (\<forall>p \<in> set (ee_ordinary (es_environment (redacted s))). snd p = [])"
proof -
  obtain e w where e: "split_environment (wt_environment task) = Ok e"
    and w: "working_directory_policy (wt_working_directory task) = Ok w"
    and env: "es_environment s = e" and dir: "es_working_directory s = w"
    and refs: "es_secret_refs s = map bd_reference (ee_bindings e)"
    and leaf: "es_leaf s = operation_json (wt_operation task)"
    and caps: "es_capabilities s = [operation_kind (wt_operation task)]"
    and plat: "es_platform s = platform_label (wt_platform task)" and arch: "es_architecture s = wt_architecture task"
    and same: "recomputed_operation_id D s = es_operation_id s"
    using assms by (auto simp: execution_spec_for_task_def Let_def outcome_simps recomputed_operation_id_def spec_identity_def)
  have kind: "wp_kind w = ''workspace_relative''" using w by (auto simp: working_directory_Ok Let_def)
  have scheme: "starts_with v BINDING_REF_PREFIX \<Longrightarrow> starts_with v ''nixplane://''" for v
    by (auto simp: starts_with_def BINDING_REF_PREFIX_def prefix_def)
  note e' = e [unfolded split_environment_Ok]
  have "admit_spec D os arch s = Ok () \<longleftrightarrow>
      operation_kind (wt_operation task) = ''native_command'' \<and>
      spec_platform_matches_host os (platform_label (wt_platform task)) \<and>
      (wt_architecture task = None \<or> wt_architecture task = Some arch)"
    using split_environment_bindings [OF e] kind
    by (auto simp: admit_spec_def same caps plat arch env dir split: option.splits)
  moreover have "ee_ordinary e = filter (\<lambda>p. \<not> starts_with (snd p) ''nixplane://'') (wt_environment task)"
    using e' scheme by (auto simp: is_binding_value_def intro!: filter_cong)
  moreover have "map bd_reference (ee_bindings e) = map snd (filter (\<lambda>p. starts_with (snd p) BINDING_REF_PREFIX) (wt_environment task))"
    using e' by (simp add: is_binding_value_def environment_binding_def comp_def)
  ultimately show ?thesis
    by (auto simp: native_argv_operation leaf env refs redacted_def)
qed

definition example_task :: WorkflowTask where
  "example_task = \<lparr>wt_depends_on = [], wt_platform = PlatformLinux, wt_architecture = Some ''x86_64'',
     wt_resources = NodeResources_EMPTY, wt_environment = [(''CI'', ''1''), (''TOKEN'', ''nixplane://binding/t'')],
     wt_working_directory = Some ''crates'', wt_artifacts = [''log''], wt_inputs = [],
     wt_operation = NativeCommand [''make'', ''test'']\<rparr>"

theorem execution_spec_admitted_witness:
  "\<exists>s. execution_spec_for_task example_digests (SourceSetV1_fixture ''c1'') ''wf_1'' ''test'' example_task = Ok s \<and>
    (admit_spec example_digests ''linux'' ''x86_64'' s = Ok () \<longleftrightarrow>
      operation_kind (wt_operation example_task) = ''native_command'' \<and>
      spec_platform_matches_host ''linux'' (platform_label (wt_platform example_task)) \<and>
      (wt_architecture example_task = None \<or> wt_architecture example_task = Some ''x86_64'')) \<and>
    (native_argv (es_leaf s) = Ok [''make'', ''test''] \<longleftrightarrow>
      wt_operation example_task = NativeCommand [''make'', ''test''] \<and> [''make'', ''test''] \<noteq> []) \<and>
    ee_ordinary (es_environment s) = filter (\<lambda>p. \<not> starts_with (snd p) ''nixplane://'') (wt_environment example_task) \<and>
    es_secret_refs s = map snd (filter (\<lambda>p. starts_with (snd p) BINDING_REF_PREFIX) (wt_environment example_task)) \<and>
    (\<forall>p \<in> set (ee_ordinary (es_environment (redacted s))). snd p = [])"
proof -
  have "working_directory_policy (wt_working_directory example_task) = Ok \<lparr>wp_kind = ''workspace_relative'', wp_path = ''crates''\<rparr>"
    by (simp add: example_task_def) code_simp
  moreover have "\<forall>p \<in> set (wt_environment example_task). starts_with (snd p) ''nixplane://'' \<longrightarrow> is_binding_value (snd p)"
    by (simp add: example_task_def is_binding_value_def BINDING_REF_PREFIX_def starts_with_def)
  ultimately obtain s where
    "execution_spec_for_task example_digests (SourceSetV1_fixture ''c1'') ''wf_1'' ''test'' example_task = Ok s"
    using execution_spec_exists by blast
  then show ?thesis
    by (intro exI [of _ s] conjI [OF _ execution_spec_admitted])
qed

text \<open>A directory written with a leading dot has a spec, and no run accepts it.\<close>

lemma dot_directory_refused:
  "working_directory_policy (Some ''./sub'') = Ok \<lparr>wp_kind = ''workspace_relative'', wp_path = ''./sub''\<rparr>"
  "safe_output_name ''./sub'' = Err ''output ./sub escapes the workspace''"
  by code_simp+

end
