(* ===== verification/Dirty_Inventory.thy ===== *)
theory Dirty_Inventory
  imports Execution_Spec
begin

text \<open>
  The dirty inventory of a checkout and the source set read from it
  (\<open>crates/nxr-task/src/execution_spec.rs\<close>).  The worktree and git are arguments; texts of git
  are bytes, of which the status letters at the front of a record are ASCII.
\<close>

section \<open>The worktree\<close>

text \<open>\<open>symlink_metadata\<close>: a file with whether an execute bit is set.\<close>

datatype WorkNode = WorkLink | WorkFile bool | WorkDir

record Worktree =
  wk_node :: "string \<Rightarrow> WorkNode option"
  wk_exists :: "string \<Rightarrow> bool"
  wk_is_file :: "string \<Rightarrow> bool"
  wk_read_link :: "string \<Rightarrow> (string, string) outcome"
  wk_read :: "string \<Rightarrow> (string, string) outcome"
  wk_git :: "string \<Rightarrow> string list \<Rightarrow> (string, string) outcome"

definition file_mode :: "bool \<Rightarrow> string" where
  "file_mode executable = (if executable then ''100755'' else ''100644'')"

definition unix_path :: "string \<Rightarrow> string" where
  "unix_path p = replace_char (CHR 0x5C) ''/'' p"

definition tombstone :: "string \<Rightarrow> DirtySnapshotEntry" where
  "tombstone path = \<lparr>de_path = unix_path path, de_mode = ''000000'', de_kind = ''deleted'', de_payload = []\<rparr>"

definition split_nul :: "string \<Rightarrow> string \<times> string" where
  "split_nul t = (takeWhile (\<lambda>c. c \<noteq> CHR 0x00) t, tl (dropWhile (\<lambda>c. c \<noteq> CHR 0x00) t))"

lemma split_nul_shorter: "t \<noteq> [] \<Longrightarrow> length (snd (split_nul t)) < length t"
  using length_dropWhile_le [of "\<lambda>c. c \<noteq> CHR 0x00" t]
  by (cases t) (auto simp: split_nul_def le_less_trans less_Suc_eq_le intro: le_trans [OF diff_le_self])

lemma split_nul_le: "length (snd (split_nul t)) \<le> length t"
  using split_nul_shorter [of t] by (cases "t = []") (auto simp: split_nul_def)

section \<open>Porcelain records\<close>

text \<open>
  One pass over \<open>git status --porcelain=v1 -z\<close>; \<open>exists\<close> and \<open>entry\<close> are those of
  the root it was run in.
\<close>

definition add_entry ::
  "(string, DirtySnapshotEntry option) outcome \<Rightarrow> (string, DirtySnapshotEntry list) outcome \<Rightarrow>
   (string, DirtySnapshotEntry list) outcome" where
  "add_entry one rest = bind one (\<lambda>e. bind rest (\<lambda>es. Ok ((case e of Some x \<Rightarrow> [x] | None \<Rightarrow> []) @ es)))"

function parse_porcelain ::
  "(string \<Rightarrow> bool) \<Rightarrow> (string \<Rightarrow> (string, DirtySnapshotEntry option) outcome) \<Rightarrow> string \<Rightarrow>
   (string, DirtySnapshotEntry list) outcome" where
  "parse_porcelain present entry t =
     (if t = [] then Ok []
      else let r = fst (split_nul t); n = snd (split_nul t) in
        if length r < 3 then parse_porcelain present entry n
        else let status = take 2 r; path = drop 3 r in
          if starts_with status ''R'' \<or> starts_with status ''C'' then
            add_entry (Ok (Some (tombstone path)))
              (add_entry (entry (fst (split_nul n))) (parse_porcelain present entry (snd (split_nul n))))
          else if (status ! 1 = CHR ''D'' \<or> status ! 0 = CHR ''D'') \<and> \<not> present path
          then add_entry (Ok (Some (tombstone path))) (parse_porcelain present entry n)
          else add_entry (entry path) (parse_porcelain present entry n))"
  by pat_completeness auto
termination
  by (relation "measure (\<lambda>(p, e, t). length t)")
    (auto intro: split_nul_shorter le_less_trans [OF split_nul_le split_nul_shorter])

declare parse_porcelain.simps [simp del]

section \<open>Entries of the worktree\<close>

text \<open>
  A directory is a nested checkout and its own inventory is digested into its
  entry; the recursion follows the nesting, of which the first argument is a
  bound.
\<close>

fun entry_for_worktree ::
  "Digests \<Rightarrow> Worktree \<Rightarrow> nat \<Rightarrow> string \<Rightarrow> string \<Rightarrow> (string, DirtySnapshotEntry option) outcome" where
  "entry_for_worktree D W 0 root path = Panic"
| "entry_for_worktree D W (Suc n) root path =
     (let full = path_join root path in
      case wk_node W full of
        None \<Rightarrow> Ok (Some (tombstone path))
      | Some WorkLink \<Rightarrow>
          bind (map_err (\<lambda>e. ''read link '' @ path @ '': '' @ e) (wk_read_link W full)) (\<lambda>tgt.
          Ok (Some \<lparr>de_path = unix_path path, de_mode = ''120000'', de_kind = ''symlink'', de_payload = tgt\<rparr>))
      | Some WorkDir \<Rightarrow>
          let commit = (case wk_git W full [''rev-parse'', ''HEAD''] of Ok c \<Rightarrow> c | _ \<Rightarrow> []);
              porcelain = (case wk_git W full [''status'', ''--porcelain=v1'', ''--untracked-files=all'', ''-z''] of
                             Ok p \<Rightarrow> p | _ \<Rightarrow> []);
              head_part = trim commit
          in case parse_porcelain (\<lambda>p. wk_exists W (path_join full p)) (entry_for_worktree D W n full) porcelain of
               Panic \<Rightarrow> Panic
             | Ok (e # es) \<Rightarrow> Ok (Some \<lparr>de_path = unix_path path, de_mode = ''040000'', de_kind = ''directory'',
                 de_payload = head_part @ (if head_part = [] then [] else [CHR 0x0A]) @ dirty_snapshot_digest D (e # es)\<rparr>)
             | _ \<Rightarrow> Ok (Some \<lparr>de_path = unix_path path, de_mode = ''040000'', de_kind = ''directory'',
                 de_payload = head_part\<rparr>)
      | Some (WorkFile executable) \<Rightarrow>
          bind (map_err (\<lambda>e. ''read '' @ path @ '': '' @ e) (wk_read W full)) (\<lambda>bytes.
          Ok (Some \<lparr>de_path = unix_path path, de_mode = file_mode executable, de_kind = ''file'',
                    de_payload = hex_digest (sha256 D bytes)\<rparr>)))"

definition dirty_entries ::
  "Digests \<Rightarrow> Worktree \<Rightarrow> nat \<Rightarrow> string \<Rightarrow> (string, DirtySnapshotEntry list) outcome" where
  "dirty_entries D W n root =
     parse_porcelain (\<lambda>p. wk_exists W (path_join root p)) (entry_for_worktree D W n root)
       (case wk_git W root [''status'', ''--porcelain=v1'', ''--untracked-files=all'', ''-z''] of Ok p \<Rightarrow> p | _ \<Rightarrow> [])"

fun explicit_entries ::
  "Digests \<Rightarrow> Worktree \<Rightarrow> nat \<Rightarrow> string \<Rightarrow> string list \<Rightarrow> DirtySnapshotEntry list \<Rightarrow>
   (string, DirtySnapshotEntry list) outcome" where
  "explicit_entries D W n root [] es = Ok es"
| "explicit_entries D W n root (p # ps) es =
     (if list_ex (\<lambda>e. de_path e = p) es then explicit_entries D W n root ps es
      else bind (entry_for_worktree D W n root p) (\<lambda>e.
        explicit_entries D W n root ps (es @ (case e of Some x \<Rightarrow> [x] | None \<Rightarrow> []))))"

definition dirty_snapshot_id ::
  "Digests \<Rightarrow> Worktree \<Rightarrow> nat \<Rightarrow> string \<Rightarrow> string list \<Rightarrow> (string, string option) outcome" where
  "dirty_snapshot_id D W n root explicit_inputs =
     bind (dirty_entries D W n root) (\<lambda>es0.
     bind (explicit_entries D W n root explicit_inputs es0) (\<lambda>es.
       if es = [] then Ok None else Ok (Some (dirty_snapshot_digest D (sort_key de_path es)))))"

section \<open>The source set of a checkout\<close>

definition submodule_line :: "string \<Rightarrow> SubmodulePin option" where
  "submodule_line line =
     (case split_whitespace (dropWhile (\<lambda>c. c \<in> set ''+-U'') (trim line)) of
        commit # path # _ \<Rightarrow> if 7 \<le> length commit then Some \<lparr>sm_path = path, sm_commit = commit\<rparr> else None
      | _ \<Rightarrow> None)"

fun lockfiles_of :: "Digests \<Rightarrow> Worktree \<Rightarrow> string \<Rightarrow> string list \<Rightarrow> (string, LockfileDigest list) outcome" where
  "lockfiles_of D W root [] = Ok []"
| "lockfiles_of D W root (name # names) =
     (if wk_is_file W (path_join root name) then
        bind (map_err (\<lambda>e. ''read '' @ name @ '': '' @ e) (wk_read W (path_join root name))) (\<lambda>bytes.
        bind (lockfiles_of D W root names) (\<lambda>ls.
        Ok (\<lparr>lf_path = name, lf_digest = ''sha256:'' @ hex_digest (sha256 D bytes)\<rparr> # ls)))
      else lockfiles_of D W root names)"

definition source_set_from_repo_inputs ::
  "Digests \<Rightarrow> Worktree \<Rightarrow> nat \<Rightarrow> string \<Rightarrow> string list \<Rightarrow> (string, SourceSetV1) outcome" where
  "source_set_from_repo_inputs D W n root explicit_inputs =
     bind (wk_git W root [''rev-parse'', ''HEAD'']) (\<lambda>commit.
     bind (dirty_snapshot_id D W n root explicit_inputs) (\<lambda>dirty.
       let submodules = (case wk_git W root [''submodule'', ''status''] of
             Ok status \<Rightarrow> List.map_filter submodule_line (str_lines status) | _ \<Rightarrow> [])
       in bind (lockfiles_of D W root [''flake.lock'', ''Cargo.lock'']) (\<lambda>lockfiles.
          Ok \<lparr>ss_schema_version = SOURCE_SET_V1, ss_kind = ''git'', ss_commit = trim commit, ss_submodules = submodules,
              ss_lockfiles = lockfiles, ss_dirty_snapshot_id = dirty\<rparr>)))"

definition verify_source_checkout :: "Digests \<Rightarrow> Worktree \<Rightarrow> nat \<Rightarrow> string \<Rightarrow> SourceSetV1 \<Rightarrow> (string, unit) outcome" where
  "verify_source_checkout D W n root expected =
     bind (source_set_from_repo_inputs D W n root []) (\<lambda>actual.
       if ss_commit actual \<noteq> trim (ss_commit expected)
       then Err (''checked out commit '' @ ss_commit actual @ '' does not match '' @ trim (ss_commit expected))
       else bind (for_each (\<lambda>pin. if list_ex (\<lambda>item. sm_path item = sm_path pin \<and> sm_commit item = sm_commit pin) (ss_submodules actual)
                      then Ok () else Err (''submodule `'' @ sm_path pin @ ''` is not pinned to '' @ sm_commit pin))
                  (ss_submodules expected)) (\<lambda>_.
            if source_set_digest D actual \<noteq> source_set_digest D expected
            then Err (''source set digest '' @ source_set_digest D actual @ '' does not match '' @ source_set_digest D expected)
            else Ok ()))"

section \<open>What the inventory holds\<close>

text \<open>Records of git, as its documentation has them with \<open>-z\<close>.\<close>

definition nul_free :: "string \<Rightarrow> bool" where
  "nul_free s \<longleftrightarrow> CHR 0x00 \<notin> set s"

lemma split_nul_record: "nul_free r \<Longrightarrow> split_nul (r @ CHR 0x00 # t) = (r, t)"
  by (induction r) (auto simp: split_nul_def nul_free_def)

definition change_record :: "char \<times> char \<times> string \<Rightarrow> string" where
  "change_record c = (case c of (x, y, path) \<Rightarrow> x # y # CHR '' '' # path @ [CHR 0x00])"

definition plain_change :: "char \<times> char \<times> string \<Rightarrow> bool" where
  "plain_change c = (case c of (x, y, path) \<Rightarrow>
     x \<noteq> CHR ''R'' \<and> x \<noteq> CHR ''C'' \<and> x \<noteq> CHR 0x00 \<and> y \<noteq> CHR 0x00 \<and> nul_free path)"

text \<open>What is to be recorded for a change: a deletion that left no file, or the path as it is.\<close>

fun change_entries ::
  "(string \<Rightarrow> bool) \<Rightarrow> (string \<Rightarrow> (string, DirtySnapshotEntry option) outcome) \<Rightarrow> (char \<times> char \<times> string) list \<Rightarrow>
   (string, DirtySnapshotEntry list) outcome" where
  "change_entries present entry [] = Ok []"
| "change_entries present entry ((x, y, path) # cs) =
     add_entry (if (x = CHR ''D'' \<or> y = CHR ''D'') \<and> \<not> present path then Ok (Some (tombstone path)) else entry path)
       (change_entries present entry cs)"

lemma parse_porcelain_plain:
  "list_all plain_change cs \<Longrightarrow>
   parse_porcelain present entry (concat (map change_record cs)) = change_entries present entry cs"
proof (induction cs)
  case Nil
  show ?case by (simp add: parse_porcelain.simps)
next
  case (Cons c cs)
  obtain x y path where c: "c = (x, y, path)" by (cases c) auto
  let ?rest = "concat (map change_record cs)"
  have "nul_free (x # y # CHR '' '' # path)" using Cons.prems by (auto simp: c plain_change_def nul_free_def)
  from split_nul_record [OF this, of ?rest]
  have split: "split_nul (concat (map change_record (c # cs))) = (x # y # CHR '' '' # path, ?rest)"
    by (simp add: c change_record_def)
  have ne: "concat (map change_record (c # cs)) \<noteq> []" by (simp add: c change_record_def)
  have r: "\<not> starts_with [x, y] ''R''" "\<not> starts_with [x, y] ''C''"
    using Cons.prems by (auto simp: c plain_change_def starts_with_def)
  then have status: "starts_with (take 2 (x # y # CHR '' '' # path)) ''R'' = False"
    "starts_with (take 2 (x # y # CHR '' '' # path)) ''C'' = False" by simp_all
  have ih: "parse_porcelain present entry ?rest = change_entries present entry cs" using Cons by simp
  obtain t where t: "t = concat (map change_record (c # cs))" by blast
  show ?case
    unfolding t [symmetric] parse_porcelain.simps [of present entry t]
    unfolding Let_def split [folded t] fst_conv snd_conv status
    using ne [folded t] ih by (simp add: c disj_commute)
qed

text \<open>
  Git writes a rename as the new path and then the old one.  The reader takes
  them the other way round: the new path is recorded as deleted, whatever the
  file holds.
\<close>

lemma renamed_content_dropped:
  assumes "nul_free new" and "nul_free old" and "wk_node W (path_join root old) = None"
    and "wk_git W root [''status'', ''--porcelain=v1'', ''--untracked-files=all'', ''-z''] =
      Ok (''R  '' @ new @ [CHR 0x00] @ old @ [CHR 0x00])"
  shows "dirty_entries D W (Suc n) root = Ok [tombstone new, tombstone old]"
proof -
  let ?t = "''R  '' @ new @ [CHR 0x00] @ old @ [CHR 0x00]"
  have a: "split_nul ?t = (''R  '' @ new, old @ [CHR 0x00])"
    using split_nul_record [of "''R  '' @ new" "old @ [CHR 0x00]"] assms(1) by (simp add: nul_free_def)
  have b: "split_nul (old @ [CHR 0x00]) = (old, [])" using split_nul_record [OF assms(2), of "[]"] by simp
  have e: "entry_for_worktree D W (Suc n) root old = Ok (Some (tombstone old))" using assms(3) by (simp add: Let_def)
  have "parse_porcelain present (entry_for_worktree D W (Suc n) root) ?t = Ok [tombstone new, tombstone old]" for present
    unfolding parse_porcelain.simps [of _ _ ?t] a
    by (simp add: Let_def starts_with_def b e add_entry_def parse_porcelain.simps [of _ _ "[]"] del: entry_for_worktree.simps)
  then show ?thesis by (simp add: dirty_entries_def assms(4) del: entry_for_worktree.simps)
qed

lemma dirty_snapshot_none: "dirty_snapshot_id D W n root [] = Ok None \<longleftrightarrow> dirty_entries D W n root = Ok []"
  unfolding dirty_snapshot_id_def bind_eq_Ok explicit_entries.simps by (auto split: if_splits)

text \<open>
  C19: A checkout that is accepted for a source set is that source: it has the
  commit, every submodule at its pin and no other, the same lock files, and the
  same dirty snapshot, which is none only when git reports no change.
\<close>

theorem verified_checkout_is_source:
  assumes "verify_source_checkout D W n root expected = Ok ()"
    and "source_ok expected" and "\<And>actual. source_set_from_repo_inputs D W n root [] = Ok actual \<Longrightarrow> source_ok actual \<and>
      (sha256 D (framed (source_set_fields actual)) = sha256 D (framed (source_set_fields expected)) \<longrightarrow>
       framed (source_set_fields actual) = framed (source_set_fields expected))"
  shows "\<exists>actual. source_set_from_repo_inputs D W n root [] = Ok actual \<and> same_source actual expected \<and>
    ss_commit actual = trim (ss_commit expected) \<and>
    (ss_dirty_snapshot_id actual = None \<longleftrightarrow> dirty_entries D W n root = Ok [])"
proof -
  obtain actual where actual: "source_set_from_repo_inputs D W n root [] = Ok actual"
    and commit: "ss_commit actual = trim (ss_commit expected)"
    and digest: "source_set_digest D actual = source_set_digest D expected"
    using assms(1) unfolding verify_source_checkout_def
    by (auto simp only: bind_eq_Ok outcome.distinct outcome.inject simp_thms split: if_splits)
  from assms(3) [OF actual] have ok: "source_ok actual"
    "sha256 D (framed (source_set_fields actual)) = sha256 D (framed (source_set_fields expected)) \<Longrightarrow>
     framed (source_set_fields actual) = framed (source_set_fields expected)" by blast+
  have "same_source actual expected"
    using source_set_digest_identifies [OF ok(1) assms(2) ok(2)] digest by blast
  moreover have "ss_dirty_snapshot_id actual = None \<longleftrightarrow> dirty_entries D W n root = Ok []"
  proof -
    obtain dirty where "dirty_snapshot_id D W n root [] = Ok dirty" "ss_dirty_snapshot_id actual = dirty"
      using actual unfolding source_set_from_repo_inputs_def Let_def bind_eq_Ok by (auto simp del: lockfiles_of.simps)
    then show ?thesis unfolding dirty_snapshot_none [symmetric] by simp
  qed
  ultimately show ?thesis by (intro exI [of _ actual] conjI actual commit)
qed

definition example_tree :: Worktree where
  "example_tree =
     \<lparr>wk_node = (\<lambda>_. None), wk_exists = (\<lambda>_. False), wk_is_file = (\<lambda>_. False), wk_read_link = (\<lambda>_. Err ''missing''),
      wk_read = (\<lambda>_. Err ''missing''),
      wk_git = (\<lambda>root args. if args = [''rev-parse'', ''HEAD''] then Ok ''c1''
        else if hd args = ''status'' then Ok '' D gone'' else Err ''no submodules'')\<rparr>"

definition example_source :: SourceSetV1 where
  "example_source =
     \<lparr>ss_schema_version = SOURCE_SET_V1, ss_kind = ''git'', ss_commit = ''c1'', ss_submodules = [], ss_lockfiles = [],
      ss_dirty_snapshot_id = Some (dirty_snapshot_digest example_digests [tombstone ''gone''])\<rparr>"

lemma example_dirty: "dirty_entries example_digests example_tree 1 ''/w'' = Ok [tombstone ''gone'']"
  by (simp add: dirty_entries_def example_tree_def parse_porcelain.simps split_nul_def starts_with_def add_entry_def Let_def)

lemma example_checkout: "source_set_from_repo_inputs example_digests example_tree 1 ''/w'' [] = Ok example_source"
proof -
  have "trim ''c1'' = ''c1''" by (rule trim_id) (simp_all add: ascii_graph_def)
  moreover have "dirty_snapshot_id example_digests example_tree 1 ''/w'' [] =
      Ok (Some (dirty_snapshot_digest example_digests [tombstone ''gone'']))"
    unfolding dirty_snapshot_id_def example_dirty by simp
  ultimately show ?thesis
    unfolding source_set_from_repo_inputs_def by (simp add: example_tree_def example_source_def)
qed

theorem verified_checkout_is_source_witness:
  "\<exists>actual. source_set_from_repo_inputs example_digests example_tree 1 ''/w'' [] = Ok actual \<and> same_source actual example_source \<and>
    ss_commit actual = trim (ss_commit example_source) \<and>
    (ss_dirty_snapshot_id actual = None \<longleftrightarrow> dirty_entries example_digests example_tree 1 ''/w'' = Ok [])"
proof (rule verified_checkout_is_source)
  have "trim ''c1'' = ''c1''" by (rule trim_id) (simp_all add: ascii_graph_def)
  then show "verify_source_checkout example_digests example_tree 1 ''/w'' example_source = Ok ()"
    unfolding verify_source_checkout_def example_checkout by (simp add: example_source_def)
  have "length (dirty_snapshot_digest example_digests [tombstone ''gone'']) < 2 ^ 64"
  proof -
    have "length (dirty_snapshot_digest example_digests [tombstone ''gone'']) < 200" by code_simp
    then show ?thesis by simp
  qed
  then show ok: "source_ok example_source"
    by (simp add: source_ok_def example_source_def short_fields_def source_set_fields_def)
  fix actual
  assume "source_set_from_repo_inputs example_digests example_tree 1 ''/w'' [] = Ok actual"
  then have "actual = example_source" unfolding example_checkout by simp
  with ok show "source_ok actual \<and>
      (sha256 example_digests (framed (source_set_fields actual)) = sha256 example_digests (framed (source_set_fields example_source)) \<longrightarrow>
       framed (source_set_fields actual) = framed (source_set_fields example_source))" by simp
qed

end
