(* ===== verification/Run_Journal.thy ===== *)
theory Run_Journal
  imports Execution_Spec
begin

text \<open>
  The run journal (\<open>crates/nxr-task/src/run_journal.rs\<close>) and the local consumer of execution
  specs that writes it (\<open>execution_spec.rs\<close>).  The tables of the database and the chunk
  files are a record; a transaction that fails leaves the tables as they were, a
  chunk write that fails leaves a prefix of the chunk.
\<close>

section \<open>The journal\<close>

record JournalEvent =
  je_schema_version :: string
  je_run_id :: string
  je_operation_id :: string
  je_sequence :: nat
  je_timestamp :: string
  je_event_type :: string
  je_source :: string
  je_exit_code :: "int option"
  je_log_ref :: "string option"

record RunJournal =
  rj_events :: "JournalEvent list"
  rj_chunks :: "(string, string \<times> nat) btmap"
  rj_files :: "(string, string) btmap"
  rj_calls :: nat

text \<open>Whether the next database or file call fails, and how much a failing write got out.\<close>

record JournalHost =
  jh_fail :: "nat \<Rightarrow> string option"
  jh_written :: "nat \<Rightarrow> nat"
  jh_now :: "nat \<Rightarrow> string"

definition journal_call :: "JournalHost \<Rightarrow> string \<Rightarrow> RunJournal \<Rightarrow> (string, unit) outcome \<times> RunJournal" where
  "journal_call H label j =
     (case jh_fail H (rj_calls j) of None \<Rightarrow> Ok () | Some e \<Rightarrow> Err (label @ e), j\<lparr>rj_calls := Suc (rj_calls j)\<rparr>)"

definition i64_max :: nat where
  "i64_max = 2 ^ 63 - 1"

definition last_sequence :: "RunJournal \<Rightarrow> nat" where
  "last_sequence j = fold max (map je_sequence (rj_events j)) 0"

text \<open>
  Begin, read, insert and commit are one call here: any failure of theirs rolls
  back.  A sequence past \<open>i64::MAX\<close> is clamped to a key already taken.
\<close>

definition journal_append :: "JournalHost \<Rightarrow> JournalEvent \<Rightarrow> RunJournal \<Rightarrow> (string, unit) outcome \<times> RunJournal" where
  "journal_append H e j =
     (let expected = last_sequence j + 1 in
      if je_sequence e \<noteq> expected
      then (Err (''event sequence '' @ show_nat (je_sequence e) @ '' does not follow '' @ show_nat expected), j)
      else if i64_max < je_sequence e then (Err ''insert event: UNIQUE constraint failed: events.sequence'', j)
      else case journal_call H ''append event: '' j of
        (Ok _, j1) \<Rightarrow> (Ok (), j1\<lparr>rj_events := rj_events j1 @ [e]\<rparr>)
      | (r, j1) \<Rightarrow> (r, j1))"

definition content_hash :: "Digests \<Rightarrow> string \<Rightarrow> string" where
  "content_hash D bytes = hex_digest (sha256 D bytes)"

definition chunk_path :: "string \<Rightarrow> (string, string) outcome" where
  "chunk_path hash =
     (if length hash \<noteq> 64 \<or> \<not> list_all is_hexdigit hash then Err (''chunk hash `'' @ hash @ ''` is not sha256'') else Ok hash)"

definition index_chunk :: "JournalHost \<Rightarrow> string \<Rightarrow> string \<Rightarrow> nat \<Rightarrow> RunJournal \<Rightarrow> (string, unit) outcome \<times> RunJournal" where
  "index_chunk H log_ref hash n j =
     (case journal_call H ''index log: '' j of
        (Ok _, j1) \<Rightarrow> (Ok (), j1\<lparr>rj_chunks := bt_insert log_ref (hash, n) (rj_chunks j1)\<rparr>)
      | (r, j1) \<Rightarrow> (r, j1))"

definition write_log :: "Digests \<Rightarrow> JournalHost \<Rightarrow> string \<Rightarrow> string \<Rightarrow> RunJournal \<Rightarrow> (string, unit) outcome \<times> RunJournal" where
  "write_log D H log_ref bytes j =
     (let hash = content_hash D bytes in
      case map_of (rj_chunks j) log_ref of
        Some (stored, _) \<Rightarrow>
          if stored \<noteq> hash then (Err (''log `'' @ log_ref @ ''` already stores different bytes''), j) else (Ok (), j)
      | None \<Rightarrow>
          (case chunk_path hash of
             Ok p \<Rightarrow>
               (case map_of (rj_files j) p of
                  Some existing \<Rightarrow>
                    if existing \<noteq> bytes then (Err (''chunk `'' @ hash @ ''` already stores different bytes''), j)
                    else index_chunk H log_ref hash (length bytes) j
                | None \<Rightarrow>
                    (case journal_call H ''write log: '' j of
                       (Ok _, j1) \<Rightarrow> index_chunk H log_ref hash (length bytes) (j1\<lparr>rj_files := bt_insert p bytes (rj_files j1)\<rparr>)
                     | (r, j1) \<Rightarrow> (r, j1\<lparr>rj_files := bt_insert p (take (jh_written H (rj_calls j)) bytes) (rj_files j1)\<rparr>)))
           | Err e \<Rightarrow> (Err e, j)
           | Panic \<Rightarrow> (Panic, j)))"

definition read_log :: "Digests \<Rightarrow> string \<Rightarrow> RunJournal \<Rightarrow> (string, string) outcome" where
  "read_log D log_ref j =
     (case map_of (rj_chunks j) log_ref of
        None \<Rightarrow> Err (''log `'' @ log_ref @ ''` is not acknowledged'')
      | Some (hash, stored_len) \<Rightarrow>
          bind (chunk_path hash) (\<lambda>p.
          bind (ok_or ''read log: No such file or directory'' (map_of (rj_files j) p)) (\<lambda>bytes.
            if length bytes \<noteq> stored_len \<or> content_hash D bytes \<noteq> hash
            then Err (''log `'' @ log_ref @ ''` does not match its content hash'')
            else Ok bytes)))"

definition replay_after :: "nat \<Rightarrow> nat \<Rightarrow> RunJournal \<Rightarrow> JournalEvent list" where
  "replay_after after limit j =
     (let after' = (if i64_max < after then 0 else after); limit' = (if i64_max < limit then 0 else limit)
      in take limit' (filter (\<lambda>e. after' < je_sequence e) (rj_events j)))"

section \<open>Local execution of a spec\<close>

record SpecRun =
  sr_operation_id :: string
  sr_exit_code :: int

definition RUN_EVENT_V2 :: string where
  "RUN_EVENT_V2 = ''run-event-v2''"

definition journal_event ::
  "JournalHost \<Rightarrow> ExecutionSpecV2 \<Rightarrow> string \<Rightarrow> nat \<Rightarrow> string \<Rightarrow> int option \<Rightarrow> string option \<Rightarrow> RunJournal \<Rightarrow> JournalEvent" where
  "journal_event H s run_id sequence event_type exit_code log_ref j =
     \<lparr>je_schema_version = RUN_EVENT_V2, je_run_id = run_id, je_operation_id = es_operation_id s, je_sequence = sequence,
      je_timestamp = jh_now H (rj_calls j), je_event_type = event_type, je_source = ''local'',
      je_exit_code = exit_code, je_log_ref = log_ref\<rparr>"

definition record_chunk ::
  "Digests \<Rightarrow> JournalHost \<Rightarrow> ExecutionSpecV2 \<Rightarrow> string \<Rightarrow> nat \<Rightarrow> string \<times> string \<Rightarrow> RunJournal \<Rightarrow>
   (string, unit) outcome \<times> RunJournal" where
  "record_chunk D H s run_id sequence chunk j =
     (let log_ref = ''sha256:'' @ content_hash D (snd chunk) in
      case write_log D H log_ref (snd chunk) j of
        (Ok _, j1) \<Rightarrow>
          journal_append H ((journal_event H s run_id sequence ''log'' None (Some log_ref) j1)\<lparr>je_source := fst chunk\<rparr>) j1
      | (r, j1) \<Rightarrow> (r, j1))"

text \<open>The chunks come in the order the channel gives them.\<close>

fun record_chunks ::
  "Digests \<Rightarrow> JournalHost \<Rightarrow> ExecutionSpecV2 \<Rightarrow> string \<Rightarrow> nat \<Rightarrow> (string \<times> string) list \<Rightarrow> RunJournal \<Rightarrow>
   (string, nat) outcome \<times> RunJournal" where
  "record_chunks D H s run_id sequence [] j = (Ok sequence, j)"
| "record_chunks D H s run_id sequence (c # cs) j =
     (case record_chunk D H s run_id (sequence + 1) c j of
        (Ok _, j1) \<Rightarrow> record_chunks D H s run_id (sequence + 1) cs j1
      | (Err e, j1) \<Rightarrow> (Err e, j1)
      | (Panic, j1) \<Rightarrow> (Panic, j1))"

text \<open>
  The machine: its platform, whether a directory can be made, the compiler cache
  variables, a process (its output chunks and, unless a signal ended it, its exit
  code), and which files exist after it.
\<close>

record SpecMachine =
  mc_os :: string
  mc_arch :: string
  mc_create_dir :: "string \<Rightarrow> (string, unit) outcome"
  mc_cache_env :: "(string \<times> string) list"
  mc_process :: "string \<Rightarrow> string list \<Rightarrow> (string \<times> string) list \<Rightarrow> (string, (string \<times> string) list \<times> int option) outcome"
  mc_is_file :: "string \<Rightarrow> bool"

text \<open>The parent's compiler cache variables the spec does not set itself.\<close>

definition cache_additions :: "SpecMachine \<Rightarrow> ExecutionSpecV2 \<Rightarrow> (string \<times> string) list" where
  "cache_additions M s =
     filter (\<lambda>p. \<not> bt_contains (ee_ordinary (es_environment s)) (fst p))
       (List.map_filter (\<lambda>k. case map_of (mc_cache_env M) k of
          Some v \<Rightarrow> if v = [] then None else Some (k, v) | None \<Rightarrow> None)
        [''SCCACHE_ENDPOINT'', ''SCCACHE_BUCKET'', ''CARGO_INCREMENTAL''])"

text \<open>From the output of the child to the last event.\<close>

definition finish_spec_run ::
  "Digests \<Rightarrow> JournalHost \<Rightarrow> SpecMachine \<Rightarrow> ExecutionSpecV2 \<Rightarrow> string \<Rightarrow> string \<Rightarrow> nat \<Rightarrow> (string \<times> string) list \<Rightarrow>
   int option \<Rightarrow> RunJournal \<Rightarrow> (string, SpecRun) outcome \<times> RunJournal" where
  "finish_spec_run D H M s run_id cwd sequence outs status j1 =
     (case record_chunks D H s run_id sequence outs j1 of
        (Err e, j2) \<Rightarrow> (Err e, j2) | (Panic, j2) \<Rightarrow> (Panic, j2)
      | (Ok sequence2, j2) \<Rightarrow>
        let exit_code = (case status of Some c \<Rightarrow> c | None \<Rightarrow> 1);
            event_type = (if status = None then ''cancelled'' else ''exited'')
        in (case (if exit_code = 0 then require_outputs (mc_is_file M) s cwd else Ok ()) of
              Err e \<Rightarrow> (Err e, j2) | Panic \<Rightarrow> (Panic, j2)
            | Ok _ \<Rightarrow>
              (case journal_append H (journal_event H s run_id (sequence2 + 1) event_type (Some exit_code) None j2) j2 of
                 (Ok _, j3) \<Rightarrow> (Ok \<lparr>sr_operation_id = es_operation_id s, sr_exit_code = exit_code\<rparr>, j3)
               | (Err e, j3) \<Rightarrow> (Err e, j3) | (Panic, j3) \<Rightarrow> (Panic, j3))))"

definition execute_spec_locally ::
  "Digests \<Rightarrow> JournalHost \<Rightarrow> SpecMachine \<Rightarrow> ExecutionSpecV2 \<Rightarrow> string \<Rightarrow> string \<Rightarrow> RunJournal \<Rightarrow>
   (string, SpecRun) outcome \<times> RunJournal" where
  "execute_spec_locally D H M s journal_dir run_id j =
     (case bind (admit_spec D (mc_os M) (mc_arch M) s) (\<lambda>_. native_argv (es_leaf s)) of
        Err e \<Rightarrow> (Err e, j) | Panic \<Rightarrow> (Panic, j)
      | Ok argv \<Rightarrow>
        let sequence = last_sequence j + 1 in
        (case journal_append H (journal_event H s run_id sequence ''started'' None None j) j of
           (Err e, j1) \<Rightarrow> (Err e, j1) | (Panic, j1) \<Rightarrow> (Panic, j1)
         | (Ok _, j1) \<Rightarrow>
           (case bind (workspace_cwd s journal_dir) (\<lambda>cwd. bind (mc_create_dir M cwd) (\<lambda>_.
                 bind (mc_process M cwd argv (ee_ordinary (es_environment s) @ cache_additions M s)) (\<lambda>p. Ok (cwd, p)))) of
              Err e \<Rightarrow> (Err e, j1) | Panic \<Rightarrow> (Panic, j1)
            | Ok (cwd, outs, status) \<Rightarrow> finish_spec_run D H M s run_id cwd sequence outs status j1)))"

section \<open>The journal's invariant\<close>

text \<open>
  Events are numbered from one without a gap, and every acknowledged log is in
  its chunk file, whole.
\<close>

definition events_numbered :: "JournalEvent list \<Rightarrow> bool" where
  "events_numbered es \<longleftrightarrow> map je_sequence es = [1..<Suc (length es)]"

definition logs_whole :: "Digests \<Rightarrow> (string, string \<times> nat) btmap \<Rightarrow> (string, string) btmap \<Rightarrow> bool" where
  "logs_whole D cs fs \<longleftrightarrow> (\<forall>r hash n. map_of cs r = Some (hash, n) \<longrightarrow> chunk_path hash = Ok hash \<and>
     (\<exists>bytes. map_of fs hash = Some bytes \<and> length bytes = n \<and> content_hash D bytes = hash))"

definition run_journal_ok :: "Digests \<Rightarrow> RunJournal \<Rightarrow> bool" where
  "run_journal_ok D j \<longleftrightarrow> events_numbered (rj_events j) \<and> logs_whole D (rj_chunks j) (rj_files j)"

lemma events_numbered_snoc:
  "events_numbered es \<Longrightarrow> je_sequence e = Suc (length es) \<Longrightarrow> events_numbered (es @ [e])"
  by (simp add: events_numbered_def)

lemma last_sequence_ok:
  assumes "run_journal_ok D j"
  shows "last_sequence j = length (rj_events j)"
proof -
  have "fold max [1..<Suc n] 0 = n" for n :: nat by (induction n) (simp_all add: max_def)
  then show ?thesis using assms by (simp only: run_journal_ok_def events_numbered_def last_sequence_def)
qed

lemma journal_append_ok:
  assumes "run_journal_ok D j" and "journal_append H e j = (r, j')"
  shows "run_journal_ok D j'" and "rj_chunks j' = rj_chunks j" and "rj_files j' = rj_files j"
    and "r = Ok () \<Longrightarrow> rj_events j' = rj_events j @ [e] \<and> je_sequence e = Suc (length (rj_events j))"
    and "r \<noteq> Ok () \<Longrightarrow> rj_events j' = rj_events j"
  using assms last_sequence_ok [OF assms(1)]
  by (auto simp: journal_append_def Let_def journal_call_def run_journal_ok_def events_numbered_snoc split: if_splits option.splits)

lemma chunk_path_Ok: "chunk_path h = Ok p \<longleftrightarrow> p = h \<and> length h = 64 \<and> list_all is_hexdigit h"
  by (auto simp: chunk_path_def)

lemma index_chunk_ok:
  assumes "run_journal_ok D j" and "index_chunk H log_ref hash n j = (r, j')"
    and "chunk_path hash = Ok hash" and "map_of (rj_files j) hash = Some bytes" and "length bytes = n"
    and "content_hash D bytes = hash"
  shows "run_journal_ok D j'" and "rj_events j' = rj_events j"
    and "r = Ok () \<Longrightarrow> map_of (rj_chunks j') log_ref = Some (hash, n)"
proof -
  have "logs_whole D (bt_insert log_ref (hash, n) (rj_chunks j)) (rj_files j)"
    using assms(1,3-6) by (auto simp: run_journal_ok_def logs_whole_def)
  then show "run_journal_ok D j'" "rj_events j' = rj_events j"
    "r = Ok () \<Longrightarrow> map_of (rj_chunks j') log_ref = Some (hash, n)"
    using assms(1,2) by (auto simp: index_chunk_def journal_call_def run_journal_ok_def split: option.splits)
qed

text \<open>A chunk file that is not there is of no acknowledged log, so a torn one harms none.\<close>

lemma add_file_ok:
  assumes "run_journal_ok D j" and "map_of (rj_files j) p = None"
  shows "run_journal_ok D ((j\<lparr>rj_calls := k\<rparr>)\<lparr>rj_files := bt_insert p bytes (rj_files j)\<rparr>)"
  using assms unfolding run_journal_ok_def logs_whole_def
  by (simp, metis option.distinct(1))

lemma write_log_ok:
  assumes "run_journal_ok D j" and "write_log D H log_ref bytes j = (r, j')"
  shows "run_journal_ok D j' \<and> rj_events j' = rj_events j \<and>
    (r = Ok () \<longrightarrow> (\<exists>n. map_of (rj_chunks j') log_ref = Some (content_hash D bytes, n)))"
proof (cases "map_of (rj_chunks j) log_ref")
  case (Some c)
  then show ?thesis using assms by (cases c) (auto simp: write_log_def Let_def split: if_splits)
next
  case None
  let ?h = "content_hash D bytes"
  show ?thesis
  proof (cases "chunk_path ?h")
    case (Ok p)
    then have p: "p = ?h" "chunk_path ?h = Ok ?h" by (auto simp: chunk_path_Ok)
    show ?thesis
    proof (cases "map_of (rj_files j) ?h")
      case (Some existing)
      then show ?thesis
        using assms None p index_chunk_ok [OF assms(1) _ p(2), of H log_ref "length bytes" r j' bytes]
        by (auto simp: write_log_def Let_def split: if_splits)
    next
      case files: None
      let ?j = "\<lambda>b. (j\<lparr>rj_calls := Suc (rj_calls j)\<rparr>)\<lparr>rj_files := bt_insert ?h b (rj_files j)\<rparr>"
      have ok: "run_journal_ok D (?j b)" for b
        using add_file_ok [OF assms(1) files, where bytes = b and k = "Suc (rj_calls j)"] by simp
      show ?thesis
      proof (cases "jh_fail H (rj_calls j)")
        case fail: None
        then have "index_chunk H log_ref ?h (length bytes) (?j bytes) = (r, j')"
          using assms(2) None p files by (simp add: write_log_def Let_def journal_call_def)
        from index_chunk_ok [OF ok this p(2), of bytes] show ?thesis by auto
      next
        case (Some e)
        then show ?thesis using assms(2) None p files ok
          by (auto simp: write_log_def Let_def journal_call_def)
      qed
    qed
  next
    case (Err e)
    with assms None show ?thesis by (auto simp: write_log_def Let_def)
  next
    case Panic
    with assms None show ?thesis by (auto simp: write_log_def Let_def)
  qed
qed

section \<open>A local run\<close>

lemma read_log_whole:
  assumes "run_journal_ok D j" and "map_of (rj_chunks j) log_ref = Some (hash, n)"
  shows "\<exists>b. read_log D log_ref j = Ok b \<and> content_hash D b = hash"
proof -
  obtain b where "chunk_path hash = Ok hash"
    "map_of (rj_files j) hash = Some b" "length b = n" "content_hash D b = hash"
    using assms(1,2) unfolding run_journal_ok_def logs_whole_def by blast
  with assms(2) show ?thesis by (simp add: read_log_def)
qed

text \<open>A journal only grows: events at the end, no acknowledged log taken back.\<close>

definition journal_grows :: "Digests \<Rightarrow> RunJournal \<Rightarrow> RunJournal \<Rightarrow> JournalEvent list \<Rightarrow> bool" where
  "journal_grows D j j' es \<longleftrightarrow> run_journal_ok D j' \<and> rj_events j' = rj_events j @ es \<and>
     (\<forall>r c. map_of (rj_chunks j) r = Some c \<longrightarrow> map_of (rj_chunks j') r = Some c)"

lemma journal_grows_trans:
  "journal_grows D j1 j2 xs \<Longrightarrow> journal_grows D j2 j3 ys \<Longrightarrow> journal_grows D j1 j3 (xs @ ys)"
  by (simp add: journal_grows_def)

lemma journal_grows_refl: "run_journal_ok D j \<Longrightarrow> journal_grows D j j []"
  by (simp add: journal_grows_def)

lemma append_grows:
  assumes "run_journal_ok D j" and "journal_append H e j = (r, j')"
  shows "journal_grows D j j' (if r = Ok () then [e] else [])"
  using journal_append_ok [OF assms] by (simp add: journal_grows_def)

lemma write_log_keeps:
  assumes "write_log D H log_ref bytes j = (r, j')" and "map_of (rj_chunks j) k = Some c"
  shows "map_of (rj_chunks j') k = Some c"
  using assms
  by (auto simp: write_log_def Let_def index_chunk_def journal_call_def split: option.splits if_splits outcome.splits)

lemma write_log_grows:
  assumes "run_journal_ok D j" and "write_log D H log_ref bytes j = (r, j')"
  shows "journal_grows D j j' []"
  using write_log_ok [OF assms] write_log_keeps [OF assms(2)] by (simp add: journal_grows_def)

definition chunk_ref :: "Digests \<Rightarrow> string \<Rightarrow> string" where
  "chunk_ref D bytes = ''sha256:'' @ content_hash D bytes"

text \<open>The event of one chunk, up to its time.\<close>

definition is_log_of :: "Digests \<Rightarrow> ExecutionSpecV2 \<Rightarrow> string \<Rightarrow> string \<times> string \<Rightarrow> JournalEvent \<Rightarrow> bool" where
  "is_log_of D s run_id c e \<longleftrightarrow> je_event_type e = ''log'' \<and> je_source e = fst c \<and>
     je_log_ref e = Some (chunk_ref D (snd c)) \<and> je_run_id e = run_id \<and> je_operation_id e = es_operation_id s \<and>
     je_exit_code e = None"

definition log_stored :: "Digests \<Rightarrow> RunJournal \<Rightarrow> string \<times> string \<Rightarrow> bool" where
  "log_stored D j c \<longleftrightarrow> (\<exists>n. map_of (rj_chunks j) (chunk_ref D (snd c)) = Some (content_hash D (snd c), n))"

lemma log_stored_grows: "log_stored D j c \<Longrightarrow> journal_grows D j j' es \<Longrightarrow> log_stored D j' c"
  by (auto simp: log_stored_def journal_grows_def)

lemma record_chunk_grows:
  assumes "run_journal_ok D j" and "record_chunk D H s run_id q c j = (r, j')"
  shows "\<exists>es. journal_grows D j j' es \<and> (r = Ok () \<longrightarrow> log_stored D j' c \<and> list_all2 (is_log_of D s run_id) [c] es) \<and>
    list_all (\<lambda>e. je_event_type e = ''log'') es"
proof -
  obtain r1 j1 where w: "write_log D H (chunk_ref D (snd c)) (snd c) j = (r1, j1)"
    by (cases "write_log D H (chunk_ref D (snd c)) (snd c) j")
  note g = write_log_grows [OF assms(1) w]
  have ok: "run_journal_ok D j1" using g by (simp add: journal_grows_def)
  show ?thesis
  proof (cases r1)
    case (Ok u)
    let ?e = "(journal_event H s run_id q ''log'' None (Some (chunk_ref D (snd c))) j1)\<lparr>je_source := fst c\<rparr>"
    have a: "journal_append H ?e j1 = (r, j')"
      using assms(2) w Ok by (simp add: record_chunk_def Let_def chunk_ref_def)
    have "log_stored D j1 c" using write_log_ok [OF assms(1) w] Ok by (auto simp: log_stored_def)
    then have "log_stored D j' c" by (rule log_stored_grows [OF _ append_grows [OF ok a]])
    moreover have "is_log_of D s run_id c ?e" by (simp add: is_log_of_def journal_event_def)
    ultimately show ?thesis
      using journal_grows_trans [OF g append_grows [OF ok a]]
      by (intro exI [of _ "if r = Ok () then [?e] else []"]) (auto simp: journal_event_def)
  qed (use assms(2) w g in \<open>auto simp: record_chunk_def Let_def chunk_ref_def intro!: exI [of _ "[]"]\<close>)
qed

lemma record_chunks_grows:
  "run_journal_ok D j \<Longrightarrow> record_chunks D H s run_id q cs j = (r, j') \<Longrightarrow>
   \<exists>es. journal_grows D j j' es \<and> list_all (\<lambda>e. je_event_type e = ''log'') es \<and>
     (\<forall>n. r = Ok n \<longrightarrow> list_all (log_stored D j') cs \<and> list_all2 (is_log_of D s run_id) cs es)"
proof (induction cs arbitrary: q j)
  case Nil
  then show ?case by (intro exI [of _ "[]"]) (auto intro: journal_grows_refl)
next
  case (Cons c cs)
  obtain r1 j1 where one: "record_chunk D H s run_id (q + 1) c j = (r1, j1)"
    by (cases "record_chunk D H s run_id (q + 1) c j")
  obtain es where es: "journal_grows D j j1 es" "list_all (\<lambda>e. je_event_type e = ''log'') es"
    "r1 = Ok () \<Longrightarrow> log_stored D j1 c \<and> list_all2 (is_log_of D s run_id) [c] es"
    using record_chunk_grows [OF Cons.prems(1) one] by blast
  show ?case
  proof (cases r1)
    case (Ok u)
    then have rest: "record_chunks D H s run_id (q + 1) cs j1 = (r, j')" using Cons.prems(2) one by simp
    have "run_journal_ok D j1" using es(1) by (simp add: journal_grows_def)
    from Cons.IH [OF this rest] obtain fs where fs: "journal_grows D j1 j' fs" "list_all (\<lambda>e. je_event_type e = ''log'') fs"
      "\<forall>n. r = Ok n \<longrightarrow> list_all (log_stored D j') cs \<and> list_all2 (is_log_of D s run_id) cs fs" by blast
    have "log_stored D j' c" using es(3) Ok log_stored_grows [OF _ fs(1)] by simp
    moreover have "list_all2 (is_log_of D s run_id) (c # cs) (es @ fs)" if "list_all2 (is_log_of D s run_id) cs fs"
      using es(3) Ok list_all2_appendI [OF _ that, of "[c]" es] by simp
    ultimately show ?thesis using journal_grows_trans [OF es(1) fs(1)] es(2) fs(2,3)
      by (intro exI [of _ "es @ fs"]) auto
  qed (use Cons.prems(2) one es(1,2) in \<open>auto intro!: exI [of _ es]\<close>)
qed

text \<open>The events of a whole run: started, the logs, and the end with the exit code.\<close>

definition is_whole_run ::
  "Digests \<Rightarrow> ExecutionSpecV2 \<Rightarrow> string \<Rightarrow> (string \<times> string) list \<Rightarrow> int option \<Rightarrow> JournalEvent list \<Rightarrow> bool" where
  "is_whole_run D s run_id outs status es \<longleftrightarrow> (\<exists>first logs final. es = first # logs @ [final] \<and>
     je_event_type first = ''started'' \<and> list_all2 (is_log_of D s run_id) outs logs \<and>
     je_event_type final = (if status = None then ''cancelled'' else ''exited'') \<and>
     je_exit_code final = Some (case status of Some c \<Rightarrow> c | None \<Rightarrow> 1))"

definition unfinished :: "JournalEvent list \<Rightarrow> bool" where
  "unfinished es \<longleftrightarrow> list_all (\<lambda>e. je_event_type e = ''started'' \<or> je_event_type e = ''log'') es"

lemma unfinished_logs: "list_all (\<lambda>e. je_event_type e = ''log'') es \<Longrightarrow> unfinished es"
  by (auto simp: unfinished_def list_all_iff)

text \<open>What the machine did: the argument list of the spec, in its directory, with its environment.\<close>

definition process_run ::
  "SpecMachine \<Rightarrow> ExecutionSpecV2 \<Rightarrow> string \<Rightarrow> (string \<times> string) list \<Rightarrow> int option \<Rightarrow> bool" where
  "process_run M s journal_dir outs status \<longleftrightarrow> (\<exists>cwd argv. workspace_cwd s journal_dir = Ok cwd \<and>
     native_argv (es_leaf s) = Ok argv \<and>
     mc_process M cwd argv (ee_ordinary (es_environment s) @ cache_additions M s) = Ok (outs, status) \<and>
     (status = Some 0 \<longrightarrow> require_outputs (mc_is_file M) s cwd = Ok ()))"

text \<open>The part of a run after the process: the logs and the end, or logs alone.\<close>

lemma finish_spec_run_grows:
  assumes "run_journal_ok D j1" and "finish_spec_run D H M s run_id cwd q outs status j1 = (r, j')"
  shows "\<exists>logs. list_all (\<lambda>e. je_event_type e = ''log'') logs \<and>
    ((\<forall>x. r \<noteq> Ok x) \<and> journal_grows D j1 j' logs \<or>
     (\<exists>final. r = Ok \<lparr>sr_operation_id = es_operation_id s, sr_exit_code = (case status of Some c \<Rightarrow> c | None \<Rightarrow> 1)\<rparr> \<and>
        journal_grows D j1 j' (logs @ [final]) \<and> list_all2 (is_log_of D s run_id) outs logs \<and>
        list_all (log_stored D j') outs \<and>
        je_event_type final = (if status = None then ''cancelled'' else ''exited'') \<and>
        je_exit_code final = Some (case status of Some c \<Rightarrow> c | None \<Rightarrow> 1) \<and>
        (status = Some 0 \<longrightarrow> require_outputs (mc_is_file M) s cwd = Ok ())))"
proof -
  let ?code = "case status of Some c \<Rightarrow> c | None \<Rightarrow> 1"
  obtain r2 j2 where c: "record_chunks D H s run_id q outs j1 = (r2, j2)" by (cases "record_chunks D H s run_id q outs j1")
  obtain es where es: "journal_grows D j1 j2 es" "list_all (\<lambda>e. je_event_type e = ''log'') es"
    "\<forall>n. r2 = Ok n \<longrightarrow> list_all (log_stored D j2) outs \<and> list_all2 (is_log_of D s run_id) outs es"
    using record_chunks_grows [OF assms(1) c] by blast
  have stop: ?thesis if "j' = j2" and "\<forall>x. r \<noteq> Ok x" using that es(1,2) by blast
  show ?thesis
  proof (cases r2)
    case r2: (Ok n)
    show ?thesis
    proof (cases "if ?code = 0 then require_outputs (mc_is_file M) s cwd else Ok ()")
      case o: (Ok u2)
      let ?e3 = "journal_event H s run_id (n + 1) (if status = None then ''cancelled'' else ''exited'') (Some ?code) None j2"
      obtain r3 j3 where a3: "journal_append H ?e3 j2 = (r3, j3)" by (cases "journal_append H ?e3 j2")
      have ok2: "run_journal_ok D j2" using es(1) by (simp add: journal_grows_def)
      note g3 = append_grows [OF ok2 a3]
      show ?thesis
      proof (cases r3)
        case (Ok u3)
        then have r: "r = Ok \<lparr>sr_operation_id = es_operation_id s, sr_exit_code = ?code\<rparr>" "j' = j3"
          using assms(2) c r2 o a3 by (simp_all add: finish_spec_run_def Let_def)
        have "list_all (log_stored D j') outs"
          using es(3) r2 r(2) g3 by (auto simp: list_all_iff intro: log_stored_grows)
        moreover have "journal_grows D j1 j' (es @ [?e3])" using journal_grows_trans [OF es(1) g3] Ok r(2) by simp
        moreover have "status = Some 0 \<longrightarrow> require_outputs (mc_is_file M) s cwd = Ok ()" using o by auto
        ultimately show ?thesis using es(2,3) r2 r(1)
          by (intro exI [of _ es] conjI disjI2 exI [of _ ?e3]) (simp_all add: journal_event_def)
      next
        case (Err e)
        with assms(2) c r2 o a3 have "r = Err e" "j' = j3" by (simp_all add: finish_spec_run_def Let_def)
        with journal_grows_trans [OF es(1) g3] Err es(2) show ?thesis by (intro exI [of _ es]) auto
      next
        case Panic
        with assms(2) c r2 o a3 have "r = Panic" "j' = j3" by (simp_all add: finish_spec_run_def Let_def)
        with journal_grows_trans [OF es(1) g3] Panic es(2) show ?thesis by (intro exI [of _ es]) auto
      qed
    qed (rule stop; use assms(2) c r2 in \<open>auto simp: finish_spec_run_def Let_def\<close>)+
  qed (rule stop; use assms(2) c in \<open>auto simp: finish_spec_run_def Let_def\<close>)+
qed

text \<open>What a run leaves behind, by its result.\<close>

definition run_account ::
  "Digests \<Rightarrow> SpecMachine \<Rightarrow> ExecutionSpecV2 \<Rightarrow> string \<Rightarrow> string \<Rightarrow> RunJournal \<Rightarrow> (string, SpecRun) outcome \<Rightarrow>
   JournalEvent list \<Rightarrow> bool" where
  "run_account D M s journal_dir run_id j' r es \<longleftrightarrow>
    (case r of
       Ok run \<Rightarrow> admit_spec D (mc_os M) (mc_arch M) s = Ok () \<and> sr_operation_id run = es_operation_id s \<and>
         (\<exists>outs status. process_run M s journal_dir outs status \<and> is_whole_run D s run_id outs status es \<and>
            sr_exit_code run = (case status of Some c \<Rightarrow> c | None \<Rightarrow> 1) \<and>
            (\<forall>c \<in> set outs. \<exists>b. read_log D (chunk_ref D (snd c)) j' = Ok b \<and> content_hash D b = content_hash D (snd c)))
     | _ \<Rightarrow> unfinished es)"

lemma run_account_failed: "\<forall>x. r \<noteq> Ok x \<Longrightarrow> unfinished es \<Longrightarrow> run_account D M s journal_dir run_id j' r es"
  by (auto simp: run_account_def split: outcome.splits)

lemma finish_spec_run_account:
  assumes "journal_grows D j j1 [e1]" and "je_event_type e1 = ''started''"
    and "admit_spec D (mc_os M) (mc_arch M) s = Ok ()" and "native_argv (es_leaf s) = Ok argv"
    and "workspace_cwd s journal_dir = Ok cwd"
    and "mc_process M cwd argv (ee_ordinary (es_environment s) @ cache_additions M s) = Ok (outs, status)"
    and "finish_spec_run D H M s run_id cwd q outs status j1 = (r, j')"
  shows "\<exists>es. journal_grows D j j' es \<and> run_account D M s journal_dir run_id j' r es"
proof -
  let ?code = "case status of Some c \<Rightarrow> c | None \<Rightarrow> 1"
  have "run_journal_ok D j1" using assms(1) by (simp add: journal_grows_def)
  from finish_spec_run_grows [OF this assms(7)] obtain logs where
    logs: "list_all (\<lambda>e. je_event_type e = ''log'') logs" and
    cases: "(\<forall>x. r \<noteq> Ok x) \<and> journal_grows D j1 j' logs \<or>
     (\<exists>final. r = Ok \<lparr>sr_operation_id = es_operation_id s, sr_exit_code = ?code\<rparr> \<and>
        journal_grows D j1 j' (logs @ [final]) \<and> list_all2 (is_log_of D s run_id) outs logs \<and>
        list_all (log_stored D j') outs \<and>
        je_event_type final = (if status = None then ''cancelled'' else ''exited'') \<and>
        je_exit_code final = Some ?code \<and> (status = Some 0 \<longrightarrow> require_outputs (mc_is_file M) s cwd = Ok ()))" by blast
  have un: "unfinished (e1 # logs)" using unfinished_logs [OF logs] assms(2) by (simp add: unfinished_def)
  from cases show ?thesis
  proof (elim disjE conjE exE)
    assume "\<forall>x. r \<noteq> Ok x" "journal_grows D j1 j' logs"
    with run_account_failed [OF this(1) un] journal_grows_trans [OF assms(1) this(2)] show ?thesis by fastforce
  next
    fix final
    assume r: "r = Ok \<lparr>sr_operation_id = es_operation_id s, sr_exit_code = ?code\<rparr>"
      and g: "journal_grows D j1 j' (logs @ [final])" and l: "list_all2 (is_log_of D s run_id) outs logs"
      and st: "list_all (log_stored D j') outs"
      and ty: "je_event_type final = (if status = None then ''cancelled'' else ''exited'')"
      and ex: "je_exit_code final = Some ?code" and out: "status = Some 0 \<longrightarrow> require_outputs (mc_is_file M) s cwd = Ok ()"
    have g': "journal_grows D j j' (e1 # logs @ [final])" using journal_grows_trans [OF assms(1) g] by simp
    have whole: "is_whole_run D s run_id outs status (e1 # logs @ [final])"
      unfolding is_whole_run_def using l ty ex assms(2) by blast
    have run: "process_run M s journal_dir outs status" unfolding process_run_def using assms(4-6) out by blast
    have readable: "\<forall>c \<in> set outs. \<exists>b. read_log D (chunk_ref D (snd c)) j' = Ok b \<and> content_hash D b = content_hash D (snd c)"
      using st g' read_log_whole unfolding log_stored_def journal_grows_def list_all_iff by blast
    show ?thesis using g' whole run readable assms(3) r
      by (intro exI [of _ "e1 # logs @ [final]"]) (auto simp: run_account_def)
  qed
qed

text \<open>
  C17: A local run of a spec that answers has admitted it, run its own command,
  and left a whole account in the journal: a start, every chunk of output in the
  order received and readable under its reference, and the end with the exit
  code returned; an exit of zero means the declared outputs are there.  A run
  that fails anywhere, the journal's own calls included, leaves a journal in
  order that holds no end for it.  No acknowledged log is ever lost.
\<close>

theorem local_run_journalled:
  assumes "run_journal_ok D j" and "execute_spec_locally D H M s journal_dir run_id j = (r, j')"
  shows "\<exists>es. journal_grows D j j' es \<and>
    (case r of
       Ok run \<Rightarrow> admit_spec D (mc_os M) (mc_arch M) s = Ok () \<and> sr_operation_id run = es_operation_id s \<and>
         (\<exists>outs status. process_run M s journal_dir outs status \<and> is_whole_run D s run_id outs status es \<and>
            sr_exit_code run = (case status of Some c \<Rightarrow> c | None \<Rightarrow> 1) \<and>
            (\<forall>c \<in> set outs. \<exists>b. read_log D (chunk_ref D (snd c)) j' = Ok b \<and> content_hash D b = content_hash D (snd c)))
     | _ \<Rightarrow> unfinished es)"
proof -
  let ?T = "\<exists>es. journal_grows D j j' es \<and> run_account D M s journal_dir run_id j' r es"
  let ?e1 = "journal_event H s run_id (last_sequence j + 1) ''started'' None None j"
  let ?admitted = "bind (admit_spec D (mc_os M) (mc_arch M) s) (\<lambda>_. native_argv (es_leaf s))"
  obtain r1 j1 where a1: "journal_append H ?e1 j = (r1, j1)" by (cases "journal_append H ?e1 j")
  note g1 = append_grows [OF assms(1) a1]
  have e1: "je_event_type ?e1 = ''started''" by (simp add: journal_event_def)
  have same: ?T if "j' = j" and "\<forall>x. r \<noteq> Ok x"
    using that journal_grows_refl [OF assms(1)] by (intro exI [of _ "[]"]) (simp add: run_account_failed unfinished_def)
  have first: ?T if "j' = j1" and "\<forall>x. r \<noteq> Ok x"
    using that g1 e1 by (intro exI conjI) (assumption | rule run_account_failed | simp add: unfinished_def)+
  have ?T
  proof (cases ?admitted)
    case argv: (Ok argv)
    then have admit: "admit_spec D (mc_os M) (mc_arch M) s = Ok ()" "native_argv (es_leaf s) = Ok argv"
      by (simp_all add: bind_eq_Ok)
    show ?T
    proof (cases r1)
      case r1: (Ok u)
      have g: "journal_grows D j j1 [?e1]" using g1 r1 by simp
      show ?T
      proof (cases "bind (workspace_cwd s journal_dir) (\<lambda>cwd. bind (mc_create_dir M cwd) (\<lambda>_.
                 bind (mc_process M cwd argv (ee_ordinary (es_environment s) @ cache_additions M s)) (\<lambda>p. Ok (cwd, p))))")
        case p: (Ok q)
        obtain cwd outs status where q: "q = (cwd, outs, status)" by (cases q) auto
        from p have proc: "workspace_cwd s journal_dir = Ok cwd"
          "mc_process M cwd argv (ee_ordinary (es_environment s) @ cache_additions M s) = Ok (outs, status)"
          unfolding q by (auto simp: bind_eq_Ok)
        have "finish_spec_run D H M s run_id cwd (last_sequence j + 1) outs status j1 = (r, j')"
          using assms(2) argv a1 r1 p q by (simp add: execute_spec_locally_def Let_def)
        from finish_spec_run_account [OF g e1 admit proc this] show ?T .
      qed (rule first; use assms(2) argv a1 r1 in \<open>auto simp: execute_spec_locally_def Let_def\<close>)+
    qed (rule first; use assms(2) argv a1 in \<open>auto simp: execute_spec_locally_def Let_def\<close>)+
  qed (rule same; use assms(2) in \<open>auto simp: execute_spec_locally_def Let_def\<close>)+
  then show ?thesis unfolding run_account_def .
qed

definition example_hash :: Digests where
  "example_hash = \<lparr>sha256 = (\<lambda>s. take 32 (rev s @ replicate 32 (CHR ''0''))), json_scalar = (\<lambda>v. case v of JString t \<Rightarrow> t | _ \<Rightarrow> [])\<rparr>"

definition example_leaf :: WorkflowTask where
  "example_leaf = \<lparr>wt_depends_on = [], wt_platform = PlatformAny, wt_architecture = None, wt_resources = NodeResources_EMPTY,
     wt_environment = [(''CI'', ''1'')], wt_working_directory = None, wt_artifacts = [], wt_inputs = [],
     wt_operation = NativeCommand [''make'', ''test'']\<rparr>"

definition example_machine :: SpecMachine where
  "example_machine = \<lparr>mc_os = ''linux'', mc_arch = ''x86_64'', mc_create_dir = (\<lambda>_. Ok ()), mc_cache_env = [],
     mc_process = (\<lambda>_ _ _. Ok ([(''stdout'', ''ok''), (''stderr'', ''warn'')], Some 0)), mc_is_file = (\<lambda>_. True)\<rparr>"

definition example_journal_host :: JournalHost where
  "example_journal_host = \<lparr>jh_fail = (\<lambda>_. None), jh_written = (\<lambda>_. 0), jh_now = (\<lambda>_. ''2026-10-21T00:00:00Z'')\<rparr>"

definition empty_journal :: RunJournal where
  "empty_journal = \<lparr>rj_events = [], rj_chunks = [], rj_files = [], rj_calls = 0\<rparr>"

definition example_spec :: ExecutionSpecV2 where
  "example_spec = (case execution_spec_for_task example_hash (SourceSetV1_fixture ''c1'') ''wf_1'' ''test'' example_leaf of Ok s \<Rightarrow> s)"

theorem local_run_journalled_witness:
  "\<exists>r j' es. execute_spec_locally example_hash example_journal_host example_machine example_spec ''/j'' ''r1'' empty_journal = (r, j') \<and>
    journal_grows example_hash empty_journal j' es \<and>
    (case r of
       Ok run \<Rightarrow> admit_spec example_hash (mc_os example_machine) (mc_arch example_machine) example_spec = Ok () \<and>
         sr_operation_id run = es_operation_id example_spec \<and>
         (\<exists>outs status. process_run example_machine example_spec ''/j'' outs status \<and>
            is_whole_run example_hash example_spec ''r1'' outs status es \<and>
            sr_exit_code run = (case status of Some c \<Rightarrow> c | None \<Rightarrow> 1) \<and>
            (\<forall>c \<in> set outs. \<exists>b. read_log example_hash (chunk_ref example_hash (snd c)) j' = Ok b \<and>
               content_hash example_hash b = content_hash example_hash (snd c)))
     | _ \<Rightarrow> unfinished es)"
proof -
  have "run_journal_ok example_hash empty_journal"
    by (simp add: run_journal_ok_def events_numbered_def logs_whole_def empty_journal_def)
  moreover obtain r j' where "execute_spec_locally example_hash example_journal_host example_machine example_spec ''/j'' ''r1'' empty_journal = (r, j')"
    by (cases "execute_spec_locally example_hash example_journal_host example_machine example_spec ''/j'' ''r1'' empty_journal")
  ultimately show ?thesis using local_run_journalled by blast
qed

text \<open>
  A chunk file torn by a failed write stays: writing the same bytes again is
  refused for ever, and so is every run with that output.
\<close>

lemma torn_chunk_refused:
  assumes "map_of (rj_chunks j) log_ref = None" and "chunk_path (content_hash D bytes) = Ok (content_hash D bytes)"
    and "map_of (rj_files j) (content_hash D bytes) = None" and "jh_fail H (rj_calls j) = Some e"
    and "jh_written H (rj_calls j) < length bytes" and "write_log D H log_ref bytes j = (r, j')"
  shows "write_log D G log_ref bytes j' =
    (Err (''chunk `'' @ content_hash D bytes @ ''` already stores different bytes''), j')"
proof -
  have "take (jh_written H (rj_calls j)) bytes \<noteq> bytes" using assms(5) by (metis length_take min.absorb_iff2 min.strict_order_iff nat_less_le)
  then show ?thesis using assms by (auto simp: write_log_def Let_def journal_call_def)
qed

end
