(* ===== verification/Execution_Owner.thy ===== *)
theory Execution_Owner
  imports Durable_Recovery
begin

text \<open>
  The process owner of \<open>nxr session\<close> (\<open>crates/nxr-core/src/execution_owner.rs\<close>): admission
  of runs under a budget, their records and events, reconciliation of lost
  processes, cancellation, and the thread that waits for each child, with the
  durable metadata each of them writes.  Processes, the lock, record and log
  files and new ids are arguments, by the number of the call; records that do
  not parse are not modelled.
\<close>

section \<open>Records\<close>

record RunEvent =
  re_cursor :: nat
  re_message :: string

record OwnedRun =
  or_id :: string
  or_label :: string
  or_status :: string
  or_kind :: string
  or_command :: "string list"
  or_remote :: "string option"
  or_attempt_id :: "string option"
  or_pid :: "u32 option"
  or_start_time :: "u64 option"
  or_cpu :: u32
  or_memory_mib :: u64
  or_exit_code :: "i32 option"
  or_log_path :: string
  or_events :: "RunEvent list"

definition push_event :: "OwnedRun \<Rightarrow> string \<Rightarrow> OwnedRun" where
  "push_event r message =
     (let cursor = (if or_events r = [] then 0 else re_cursor (last (or_events r))) + 1
      in r\<lparr>or_events := or_events r @ [\<lparr>re_cursor = cursor, re_message = message\<rparr>]\<rparr>)"

definition kind_of :: "string option \<Rightarrow> string" where
  "kind_of remote = (if remote \<noteq> None then ''remote'' else ''local'')"

section \<open>State and machine\<close>

record OwnerState =
  os_records :: "(string, OwnedRun) btmap"
  os_durable :: "string \<Rightarrow> DurableFiles"
  os_spawned :: "u32 list"
  os_stopped :: "u32 list"
  os_calls :: nat

record OwnerHost =
  oh_lock :: "nat \<Rightarrow> (string, unit) outcome"
  oh_log_file :: "nat \<Rightarrow> (string, unit) outcome"
  oh_store :: "nat \<Rightarrow> (string, unit) outcome"
  oh_remove :: "nat \<Rightarrow> (string, unit) outcome"
  oh_spawn :: "nat \<Rightarrow> string list \<Rightarrow> (string \<times> string) list \<Rightarrow> (string, u32) outcome"
  oh_stop :: "nat \<Rightarrow> u32 \<Rightarrow> (string, unit) outcome"
  oh_alive :: "nat \<Rightarrow> u32 \<Rightarrow> bool"
  oh_start_time :: "nat \<Rightarrow> u32 \<Rightarrow> u64 option"
  oh_new_id :: "nat \<Rightarrow> string"
  oh_durable :: DurableHost

type_synonym 'a owner_op = "(OwnerState, string, 'a) state_op"

text \<open>A call of the machine, by its number.\<close>

definition ow_call :: "(nat \<Rightarrow> (string, 'a) outcome) \<Rightarrow> 'a owner_op" where
  "ow_call f s = (f (os_calls s), s\<lparr>os_calls := Suc (os_calls s)\<rparr>)"

definition owner_store :: "OwnerHost \<Rightarrow> OwnedRun \<Rightarrow> unit owner_op" where
  "owner_store H r = op_bind (ow_call (oh_store H)) (\<lambda>_ s. (Ok (), s\<lparr>os_records := bt_insert (or_id r) r (os_records s)\<rparr>))"

definition owner_load :: "string \<Rightarrow> OwnerState \<Rightarrow> (string, OwnedRun) outcome" where
  "owner_load run_id s =
     (if run_id = [] \<or> str_contains run_id ''/'' \<or> str_contains run_id ''..''
      then Err ''run id is not a session name''
      else ok_or (''session '' @ run_id @ '': No such file or directory'') (map_of (os_records s) run_id))"

definition owner_with_lock :: "OwnerHost \<Rightarrow> 'a owner_op \<Rightarrow> 'a owner_op" where
  "owner_with_lock H body = op_bind (ow_call (oh_lock H)) (\<lambda>_. body)"

section \<open>Durable metadata\<close>

definition io_error_text :: "io_error \<Rightarrow> string" where
  "io_error_text e = (case e of IoError _ m \<Rightarrow> m)"

text \<open>An operation on the durable files of one run.\<close>

definition on_durable :: "string \<Rightarrow> 'a file_op \<Rightarrow> 'a owner_op" where
  "on_durable run_id m s =
     (let p = m (os_durable s run_id)
      in (map_err io_error_text (fst p), s\<lparr>os_durable := (os_durable s)(run_id := snd p)\<rparr>))"

section \<open>Parameters\<close>

fun json_strings :: "string \<Rightarrow> JsonValue list \<Rightarrow> (string, string list) outcome" where
  "json_strings field [] = Ok []"
| "json_strings field (v # vs) =
     bind (ok_or (field @ '' entries must be strings'') (json_str v)) (\<lambda>s.
     bind (json_strings field vs) (\<lambda>ss. Ok (s # ss)))"

definition string_list_param :: "JsonValue \<Rightarrow> string \<Rightarrow> (string, string list) outcome" where
  "string_list_param params field = (case json_get field params of
       None \<Rightarrow> Ok []
     | Some (JArray items) \<Rightarrow> json_strings field items
     | Some _ \<Rightarrow> Err (field @ '' must be a list''))"

definition optional_string :: "JsonValue \<Rightarrow> string \<Rightarrow> string option" where
  "optional_string params field =
     (case Option.bind (json_get field params) json_str of Some s \<Rightarrow> if s = [] then None else Some s | None \<Rightarrow> None)"

definition cache_assignments :: "JsonValue option \<Rightarrow> (string, (string \<times> string) list) outcome" where
  "cache_assignments v = (case v of
       None \<Rightarrow> Ok []
     | Some JNull \<Rightarrow> Ok []
     | Some (JObject obj) \<Rightarrow>
         Ok (List.map_filter (\<lambda>key. case Option.bind (map_of obj key) json_str of
               Some raw \<Rightarrow> if raw = [] then None else Some (key, raw) | None \<Rightarrow> None)
             [''SCCACHE_ENDPOINT'', ''SCCACHE_BUCKET'', ''CARGO_INCREMENTAL''])
     | Some _ \<Rightarrow> Err ''cache_env must be an object'')"

text \<open>Amounts are read as \<open>u64\<close>; \<open>as u32\<close> keeps the low half.\<close>

definition u64_param :: "JsonValue \<Rightarrow> string \<Rightarrow> u64 \<Rightarrow> u64" where
  "u64_param params field d = (case Option.bind (json_get field params) json_as_u64 of Some n \<Rightarrow> n | None \<Rightarrow> d)"

definition u32_param :: "JsonValue \<Rightarrow> string \<Rightarrow> u64 \<Rightarrow> u32" where
  "u32_param params field d = ucast (u64_param params field d)"

section \<open>Reconciliation\<close>

definition MAX_RECONCILE_PASSES :: nat where
  "MAX_RECONCILE_PASSES = 8"

definition still_running :: "OwnerHost \<Rightarrow> nat \<Rightarrow> OwnedRun \<Rightarrow> bool" where
  "still_running H n r = (case or_pid r of
       None \<Rightarrow> False
     | Some pid \<Rightarrow> oh_alive H n pid \<and>
         (case or_start_time r of Some expected \<Rightarrow> oh_start_time H n pid = Some expected | None \<Rightarrow> True))"

fun reconcile_records :: "OwnerHost \<Rightarrow> OwnedRun list \<Rightarrow> bool \<Rightarrow> bool owner_op" where
  "reconcile_records H [] changed s = (Ok changed, s)"
| "reconcile_records H (r # rs) changed s =
     (if or_status r \<noteq> ''running'' then reconcile_records H rs changed s
      else if still_running H (os_calls s) r then reconcile_records H rs changed (s\<lparr>os_calls := Suc (os_calls s)\<rparr>)
      else op_bind (owner_store H (push_event (r\<lparr>or_status := ''lost'', or_exit_code := None\<rparr>) ''lost''))
             (\<lambda>_. reconcile_records H rs True) (s\<lparr>os_calls := Suc (os_calls s)\<rparr>))"

definition reconcile_pass :: "OwnerHost \<Rightarrow> bool owner_op" where
  "reconcile_pass H s = reconcile_records H (map snd (os_records s)) False s"

definition reconcile_once :: "OwnerHost \<Rightarrow> bool owner_op" where
  "reconcile_once H = owner_with_lock H (reconcile_pass H)"

fun reconcile_with_limit :: "OwnerHost \<Rightarrow> nat \<Rightarrow> unit owner_op" where
  "reconcile_with_limit H 0 = op_lift (Ok ())"
| "reconcile_with_limit H (Suc n) =
     op_bind (reconcile_once H) (\<lambda>changed. if changed then reconcile_with_limit H n else op_lift (Ok ()))"

section \<open>Start\<close>

definition is_running :: "OwnedRun \<Rightarrow> bool" where
  "is_running r \<longleftrightarrow> or_status r = ''running''"

definition reserved :: "(string, OwnedRun) btmap \<Rightarrow> u32 \<times> u64" where
  "reserved rs = fold (\<lambda>p (cpu, memory).
       if is_running (snd p)
       then (saturating_add cpu (or_cpu (snd p)), saturating_add memory (or_memory_mib (snd p)))
       else (cpu, memory)) rs (0, 0)"

text \<open>The run a start asks for, before it is admitted.\<close>

definition requested_run :: "JsonValue \<Rightarrow> string \<Rightarrow> string list \<Rightarrow> OwnedRun" where
  "requested_run params run_id command =
     \<lparr>or_id = run_id, or_label = (case Option.bind (json_get ''label'' params) json_str of Some l \<Rightarrow> l | None \<Rightarrow> ''session''),
      or_status = ''refused'', or_kind = kind_of (optional_string params ''remote''), or_command = command,
      or_remote = optional_string params ''remote'', or_attempt_id = optional_string params ''attempt_id'',
      or_pid = None, or_start_time = None, or_cpu = u32_param params ''cpu'' 0,
      or_memory_mib = u64_param params ''memory_mib'' 0, or_exit_code = None, or_log_path = [], or_events = []\<rparr>"

definition over_budget :: "JsonValue \<Rightarrow> (string, OwnedRun) btmap \<Rightarrow> bool" where
  "over_budget params rs =
     (let (used_cpu, used_memory) = reserved rs
      in u32_param params ''cpu_budget'' (of_nat (2 ^ 32 - 1)) < saturating_add used_cpu (u32_param params ''cpu'' 0) \<or>
         u64_param params ''memory_budget'' (- 1) < saturating_add used_memory (u64_param params ''memory_mib'' 0))"

definition running_run :: "OwnerHost \<Rightarrow> nat \<Rightarrow> JsonValue \<Rightarrow> string \<Rightarrow> string list \<Rightarrow> u32 \<Rightarrow> string \<Rightarrow> OwnedRun" where
  "running_run H n params run_id command pid cache_mode =
     (let r0 = (requested_run params run_id command)
            \<lparr>or_status := ''running'', or_pid := Some pid, or_start_time := oh_start_time H n pid,
             or_log_path := run_id @ ''.log''\<rparr>;
          r1 = push_event r0 ''started'';
          r2 = (if or_kind r1 = ''remote'' then push_event r1 ''submitted'' else r1)
      in if cache_mode \<noteq> ''off'' then push_event r2 (''compiler-cache '' @ cache_mode) else r2)"

text \<open>The clean-up when the durable start cannot be written.\<close>

definition undo_start :: "OwnerHost \<Rightarrow> string \<Rightarrow> u32 \<Rightarrow> unit owner_op" where
  "undo_start H run_id pid =
     op_bind (ignore_result (op_bind (ow_call (\<lambda>n. oh_stop H n pid)) (\<lambda>_ s. (Ok (), s\<lparr>os_stopped := os_stopped s @ [pid]\<rparr>)))) (\<lambda>_.
     op_bind (ignore_result (op_bind (ow_call (oh_remove H)) (\<lambda>_ s. (Ok (), s\<lparr>os_records := bt_remove run_id (os_records s)\<rparr>)))) (\<lambda>_.
     ignore_result (on_durable run_id (remove_durable_run_artifacts (oh_durable H) run_id))))"

definition start_admitted ::
  "OwnerHost \<Rightarrow> JsonValue \<Rightarrow> string \<Rightarrow> string list \<Rightarrow> string \<Rightarrow> (string \<times> string) list \<Rightarrow> string owner_op" where
  "start_admitted H params run_id command cache_mode cache_env =
     op_bind (ow_call (oh_log_file H)) (\<lambda>_.
     op_bind (ow_call (\<lambda>n. map_err (\<lambda>e. ''spawn '' @ hd command @ '': '' @ e) (oh_spawn H n command cache_env))) (\<lambda>pid.
     op_bind (\<lambda>s. (Ok (), s\<lparr>os_spawned := os_spawned s @ [pid]\<rparr>)) (\<lambda>_.
     op_bind (\<lambda>s. owner_store H (running_run H (os_calls s) params run_id command pid cache_mode) s) (\<lambda>_ s.
       case on_durable run_id (sync_supervisor_started (oh_durable H) run_id command) s of
         (Ok _, s1) \<Rightarrow> (Ok run_id, s1)
       | (Err e, s1) \<Rightarrow> (Err (''durable run sync: '' @ e), snd (undo_start H run_id pid s1))
       | (Panic, s1) \<Rightarrow> (Panic, s1)))))"

text \<open>The part of a start that runs under the admission lock.\<close>

definition owner_admit ::
  "OwnerHost \<Rightarrow> JsonValue \<Rightarrow> string \<Rightarrow> string list \<Rightarrow> string \<Rightarrow> (string \<times> string) list \<Rightarrow> string owner_op" where
  "owner_admit H params run_id command cache_mode cache_env s =
     (if over_budget params (os_records s)
      then op_bind (owner_store H (push_event (requested_run params run_id command) ''refused''))
             (\<lambda>_. op_lift (Err ''local budget exceeded'')) s
      else start_admitted H params run_id command cache_mode cache_env s)"

definition owner_start :: "OwnerHost \<Rightarrow> JsonValue \<Rightarrow> string owner_op" where
  "owner_start H params =
     op_bind (reconcile_with_limit H MAX_RECONCILE_PASSES) (\<lambda>_.
     op_bind (op_lift (string_list_param params ''command'')) (\<lambda>command.
     if command = [] then op_lift (Err ''session start needs the command to run'')
     else
       let cache_mode = (case Option.bind (json_get ''cache_mode'' params) json_str of Some m \<Rightarrow> m | None \<Rightarrow> ''off'')
       in if str_contains cache_mode ''://'' \<or> str_contains cache_mode ''@''
          then op_lift (Err ''compiler cache mode must not contain an endpoint'')
          else op_bind (op_lift (cache_assignments (json_get ''cache_env'' params))) (\<lambda>cache_env.
               op_bind (ow_call (\<lambda>n. Ok (oh_new_id H n))) (\<lambda>run_id.
               owner_with_lock H (owner_admit H params run_id command cache_mode cache_env)))))"

section \<open>The waiting thread and cancellation\<close>

text \<open>The code is that of the child, \<open>-1\<close> when it has none.\<close>

definition record_exit :: "OwnerHost \<Rightarrow> string \<Rightarrow> i32 \<Rightarrow> unit owner_op" where
  "record_exit H run_id code s = (case owner_load run_id s of
       Ok stored \<Rightarrow>
         let s1 = stored\<lparr>or_exit_code := Some code\<rparr>;
             s2 = (if or_status s1 = ''running'' then push_event (s1\<lparr>or_status := ''exited''\<rparr>) ''exited'' else s1)
         in op_bind (owner_store H s2) (\<lambda>_.
            ignore_result (on_durable run_id (sync_supervisor_terminal_with_reconcile (oh_durable H) run_id
              (if code = 0 then RunStSucceeded else RunStFailed) (or_exit_code s2)))) s
     | _ \<Rightarrow> (Ok (), s))"

definition wait_finished :: "OwnerHost \<Rightarrow> string \<Rightarrow> i32 \<Rightarrow> unit owner_op" where
  "wait_finished H run_id code = ignore_result (owner_with_lock H (record_exit H run_id code))"

definition cancel_locked :: "OwnerHost \<Rightarrow> string \<Rightarrow> bool \<Rightarrow> OwnedRun owner_op" where
  "cancel_locked H run_id remote_confirmed s =
     op_bind (op_lift (owner_load run_id s)) (\<lambda>r.
       if or_attempt_id r \<noteq> None \<and> \<not> remote_confirmed
       then op_lift (Err ''remote cancel requires cancel_execution before the local client is stopped'')
       else if \<not> is_running r then op_lift (Ok r)
       else op_bind (case or_pid r of
               Some pid \<Rightarrow> op_bind (ow_call (\<lambda>n. oh_stop H n pid)) (\<lambda>_ s. (Ok (), s\<lparr>os_stopped := os_stopped s @ [pid]\<rparr>))
             | None \<Rightarrow> op_lift (Ok ())) (\<lambda>_.
            let r1 = push_event (r\<lparr>or_status := ''cancelled''\<rparr>) ''cancelled'' in
            op_bind (owner_store H r1) (\<lambda>_.
            op_bind (ignore_result (on_durable run_id (sync_supervisor_terminal_with_reconcile (oh_durable H) run_id
              RunStCancelled None))) (\<lambda>_. op_lift (Ok r1))))) s"

definition owner_cancel :: "OwnerHost \<Rightarrow> string \<Rightarrow> bool \<Rightarrow> OwnedRun owner_op" where
  "owner_cancel H run_id remote_confirmed =
     op_bind (reconcile_with_limit H MAX_RECONCILE_PASSES) (\<lambda>_.
     owner_with_lock H (cancel_locked H run_id remote_confirmed))"

definition owner_events :: "string \<Rightarrow> nat \<Rightarrow> OwnerState \<Rightarrow> (string, RunEvent list) outcome" where
  "owner_events run_id after s = bind (owner_load run_id s) (\<lambda>r. Ok (filter (\<lambda>e. after < re_cursor e) (or_events r)))"

definition owner_list :: "OwnerHost \<Rightarrow> OwnedRun list owner_op" where
  "owner_list H = op_bind (reconcile_with_limit H MAX_RECONCILE_PASSES) (\<lambda>_ s. (Ok (map snd (os_records s)), s))"

section \<open>What every step keeps of the records\<close>

definition keeps_records :: "((string, OwnedRun) btmap \<Rightarrow> bool) \<Rightarrow> 'a owner_op \<Rightarrow> bool" where
  "keeps_records Q m \<longleftrightarrow> (\<forall>s. Q (os_records s) \<longrightarrow> Q (os_records (snd (m s))))"

named_theorems keeps_intros

lemma keeps_recordsI: "(\<And>s. Q (os_records s) \<Longrightarrow> Q (os_records (snd (m s)))) \<Longrightarrow> keeps_records Q m"
  by (simp add: keeps_records_def)

lemma keeps_recordsD: "keeps_records Q m \<Longrightarrow> Q (os_records s) \<Longrightarrow> Q (os_records (snd (m s)))"
  by (simp add: keeps_records_def)

lemma records_bind [keeps_intros]:
  "keeps_records Q m \<Longrightarrow> (\<And>x. keeps_records Q (f x)) \<Longrightarrow> keeps_records Q (op_bind m f)"
  by (auto simp: keeps_records_def op_bind_def split: prod.splits outcome.splits)

lemma records_lift [keeps_intros]: "keeps_records Q (op_lift r)"
  by (simp add: keeps_records_def op_lift_def)

lemma keeps_call [keeps_intros]: "keeps_records Q (ow_call f)"
  by (simp add: keeps_records_def ow_call_def)

lemma keeps_durable [keeps_intros]: "keeps_records Q (on_durable k m)"
  by (simp add: keeps_records_def on_durable_def Let_def)

lemma keeps_ignore [keeps_intros]: "keeps_records Q m \<Longrightarrow> keeps_records Q (ignore_result m)"
  by (simp add: keeps_records_def ignore_result_def)

lemma records_lock [keeps_intros]: "keeps_records Q m \<Longrightarrow> keeps_records Q (owner_with_lock H m)"
  unfolding owner_with_lock_def by (intro keeps_intros)

lemma keeps_other [keeps_intros]: "(\<And>s. os_records (f s) = os_records s) \<Longrightarrow> keeps_records Q (\<lambda>s. (Ok x, f s))"
  by (simp add: keeps_records_def)

text \<open>A record is stored whole or not at all.\<close>

lemma store_then:
  assumes "Q (os_records s)" and "Q (bt_insert (or_id r) r (os_records s))" and "\<And>x. keeps_records Q (k x)"
  shows "Q (os_records (snd (op_bind (owner_store H r) k s)))"
proof (cases "oh_store H (os_calls s)")
  case (Ok u)
  let ?s1 = "s\<lparr>os_calls := Suc (os_calls s), os_records := bt_insert (or_id r) r (os_records s)\<rparr>"
  have "op_bind (owner_store H r) k s = k () ?s1"
    using Ok by (simp add: op_bind_def owner_store_def ow_call_def)
  then show ?thesis using keeps_recordsD [OF assms(3), of ?s1 "()"] assms(2) by simp
qed (use assms(1) in \<open>simp_all add: op_bind_def owner_store_def ow_call_def\<close>)

section \<open>The budget\<close>

text \<open>What the running records hold of a resource, without saturation.\<close>

definition weight :: "(OwnedRun \<Rightarrow> nat) \<Rightarrow> OwnedRun \<Rightarrow> nat" where
  "weight w r = (if is_running r then w r else 0)"

definition held :: "(OwnedRun \<Rightarrow> nat) \<Rightarrow> (string, OwnedRun) btmap \<Rightarrow> nat" where
  "held w rs = sum_list (map (\<lambda>p. weight w (snd p)) rs)"

definition cpu_of :: "OwnedRun \<Rightarrow> nat" where
  "cpu_of r = unat (or_cpu r)"

definition memory_of :: "OwnedRun \<Rightarrow> nat" where
  "memory_of r = unat (or_memory_mib r)"

lemma held_insert:
  assumes "bt_wf rs"
  shows "held w (bt_insert k r rs) + (case map_of rs k of Some r0 \<Rightarrow> weight w r0 | None \<Rightarrow> 0) = held w rs + weight w r"
  using assms
proof (induction rs)
  case Nil
  then show ?case by (simp add: held_def)
next
  case (Cons p rs)
  obtain k' r' where p: "p = (k', r')" by (cases p)
  have wf: "bt_wf rs" and above: "\<forall>x\<in>fst ` set rs. k' < x" using Cons.prems by (auto simp: p bt_wf_def)
  have none: "k \<le> k' \<Longrightarrow> map_of rs k = None" using above by (force simp: map_of_eq_None_iff)
  have held_Cons: "held w ((x, y) # ys) = weight w y + held w ys" for x y ys by (simp add: held_def)
  show ?case using Cons.IH [OF wf] none by (auto simp: p held_Cons)
qed

lemma held_insert_le: "bt_wf rs \<Longrightarrow> held w (bt_insert k r rs) \<le> held w rs + weight w r"
  using held_insert [of rs w k r] by linarith

lemma held_replace_le:
  assumes "bt_wf rs" and "map_of rs k = Some r0" and "weight w r \<le> weight w r0"
  shows "held w (bt_insert k r rs) \<le> held w rs"
  using held_insert [OF assms(1), of w k r] assms(2,3) by simp

lemma held_remove_le: "held w (bt_remove k rs) \<le> held w rs"
  unfolding held_def bt_remove_def by (induction rs) auto

lemma reserved_held:
  "unat (fst (reserved rs)) = min (2 ^ 32 - 1) (held cpu_of rs)"
  "unat (snd (reserved rs)) = min (2 ^ 64 - 1) (held memory_of rs)"
proof -
  let ?f = "\<lambda>p (cpu :: u32, memory :: u64). if is_running (snd p)
    then (saturating_add cpu (or_cpu (snd p)), saturating_add memory (or_memory_mib (snd p))) else (cpu, memory)"
  have "unat (fst (fold ?f rs (a, b))) = min (2 ^ 32 - 1) (unat a + held cpu_of rs) \<and>
      unat (snd (fold ?f rs (a, b))) = min (2 ^ 64 - 1) (unat b + held memory_of rs)" for a b
  proof (induction rs arbitrary: a b)
    case Nil
    have "unat a < 2 ^ LENGTH(32)" "unat b < 2 ^ LENGTH(64)" by (rule unsigned_less)+
    then show ?case by (simp add: held_def)
  next
    case (Cons p rs)
    have "min n (min n (i + j) + l) = min n (i + (j + l))" for n i j l :: nat by linarith
    then show ?case
      by (cases "is_running (snd p)")
        (simp_all add: Cons unat_saturating_add held_def weight_def cpu_of_def memory_of_def)
  qed
  then show "unat (fst (reserved rs)) = min (2 ^ 32 - 1) (held cpu_of rs)"
    "unat (snd (reserved rs)) = min (2 ^ 64 - 1) (held memory_of rs)"
    by (simp_all add: reserved_def case_prod_beta')
qed

definition run_cpu_budget :: "JsonValue \<Rightarrow> u32" where
  "run_cpu_budget params = u32_param params ''cpu_budget'' (of_nat (2 ^ 32 - 1))"

definition run_memory_budget :: "JsonValue \<Rightarrow> u64" where
  "run_memory_budget params = u64_param params ''memory_budget'' (- 1)"

text \<open>Below the largest value of the counter, what saturation hides cannot pass the guard.\<close>

lemma within_budget:
  assumes "\<not> over_budget params rs"
  shows "unat (run_cpu_budget params) < 2 ^ 32 - 1 \<Longrightarrow>
      held cpu_of rs + unat (u32_param params ''cpu'' 0) \<le> unat (run_cpu_budget params)"
    and "unat (run_memory_budget params) < 2 ^ 64 - 1 \<Longrightarrow>
      held memory_of rs + unat (u64_param params ''memory_mib'' 0) \<le> unat (run_memory_budget params)"
proof -
  have "saturating_add (fst (reserved rs)) (u32_param params ''cpu'' 0) \<le> run_cpu_budget params"
    and "saturating_add (snd (reserved rs)) (u64_param params ''memory_mib'' 0) \<le> run_memory_budget params"
    using assms by (auto simp: over_budget_def run_cpu_budget_def run_memory_budget_def case_prod_beta' Let_def)
  then have c: "min (2 ^ 32 - 1) (min (2 ^ 32 - 1) (held cpu_of rs) + unat (u32_param params ''cpu'' 0)) \<le>
        unat (run_cpu_budget params)"
    and m: "min (2 ^ 64 - 1) (min (2 ^ 64 - 1) (held memory_of rs) + unat (u64_param params ''memory_mib'' 0)) \<le>
        unat (run_memory_budget params)"
    by (simp_all add: word_le_nat_alt unat_saturating_add reserved_held)
  show "held cpu_of rs + unat (u32_param params ''cpu'' 0) \<le> unat (run_cpu_budget params)"
    if "unat (run_cpu_budget params) < 2 ^ 32 - 1" using that c by linarith
  show "held memory_of rs + unat (u64_param params ''memory_mib'' 0) \<le> unat (run_memory_budget params)"
    if "unat (run_memory_budget params) < 2 ^ 64 - 1" using that m by linarith
qed

section \<open>The invariant of the records\<close>

definition run_statuses :: "string list" where
  "run_statuses = [''refused'', ''running'', ''lost'', ''exited'', ''cancelled'']"

text \<open>Events are numbered from one, and there are at most four of them.\<close>

definition run_wf :: "string \<Rightarrow> OwnedRun \<Rightarrow> bool" where
  "run_wf k r \<longleftrightarrow> or_id r = k \<and> or_status r \<in> set run_statuses \<and>
     map re_cursor (or_events r) = [1..<Suc (length (or_events r))] \<and>
     length (or_events r) \<le> (if is_running r then 3 else 4) \<and> (is_running r \<longrightarrow> or_pid r \<noteq> None)"

definition records_wf :: "nat \<Rightarrow> nat \<Rightarrow> (string, OwnedRun) btmap \<Rightarrow> bool" where
  "records_wf C M rs \<longleftrightarrow> bt_wf rs \<and> list_all (\<lambda>p. run_wf (fst p) (snd p)) rs \<and> held cpu_of rs \<le> C \<and> held memory_of rs \<le> M"

lemma push_event_fields [simp]:
  "or_id (push_event r m) = or_id r" "or_status (push_event r m) = or_status r" "or_pid (push_event r m) = or_pid r"
  "or_cpu (push_event r m) = or_cpu r" "or_memory_mib (push_event r m) = or_memory_mib r"
  "or_attempt_id (push_event r m) = or_attempt_id r" "or_kind (push_event r m) = or_kind r"
  "length (or_events (push_event r m)) = Suc (length (or_events r))"
  by (simp_all add: push_event_def Let_def)

lemma push_event_cursors:
  assumes "map re_cursor (or_events r) = [1..<Suc (length (or_events r))]"
  shows "map re_cursor (or_events (push_event r m)) = [1..<Suc (Suc (length (or_events r)))]"
proof (cases "or_events r = []")
  case False
  then have "re_cursor (last (or_events r)) = last (map re_cursor (or_events r))" by (simp add: last_map)
  also have "\<dots> = length (or_events r)" using assms False by (cases "or_events r") simp_all
  finally show ?thesis using assms False by (simp add: push_event_def Let_def)
qed (simp add: push_event_def)

lemma records_wf_lookup: "records_wf C M rs \<Longrightarrow> map_of rs k = Some r \<Longrightarrow> run_wf k r"
  by (force simp: records_wf_def list_all_iff dest: map_of_SomeD)

lemma records_wf_insert:
  assumes "records_wf C M rs" and "run_wf (or_id r) r"
    and "held cpu_of (bt_insert (or_id r) r rs) \<le> C" and "held memory_of (bt_insert (or_id r) r rs) \<le> M"
  shows "records_wf C M (bt_insert (or_id r) r rs)"
proof -
  have wf: "bt_wf (bt_insert (or_id r) r rs)" using assms(1) by (simp add: records_wf_def)
  have "run_wf k x" if "(k, x) \<in> set (bt_insert (or_id r) r rs)" for k x
  proof -
    have "map_of (bt_insert (or_id r) r rs) k = Some x" using that by (simp only: bt_wf_lookup [OF wf])
    then show ?thesis using assms(1,2) records_wf_lookup by (auto split: if_splits)
  qed
  then show ?thesis using wf assms(3,4) by (auto simp: records_wf_def list_all_iff)
qed

text \<open>A record that holds nothing, or replaces one that held as much, may always be stored.\<close>

lemma records_wf_idle:
  assumes "records_wf C M rs" and "run_wf (or_id r) r" and "\<not> is_running r"
  shows "records_wf C M (bt_insert (or_id r) r rs)"
proof (rule records_wf_insert [OF assms(1,2)])
  have "bt_wf rs" and h: "held cpu_of rs \<le> C" "held memory_of rs \<le> M" using assms(1) by (simp_all add: records_wf_def)
  then have "held w (bt_insert (or_id r) r rs) \<le> held w rs" for w
    using held_insert_le [of rs w "or_id r" r] assms(3) by (simp add: weight_def)
  then show "held cpu_of (bt_insert (or_id r) r rs) \<le> C" "held memory_of (bt_insert (or_id r) r rs) \<le> M"
    using h le_trans by blast+
qed

lemma records_wf_remove: "records_wf C M rs \<Longrightarrow> records_wf C M (bt_remove k rs)"
  unfolding records_wf_def
  by (auto simp: list_all_iff bt_remove_def intro: bt_wf_map_filter
      le_trans [OF held_remove_le [unfolded bt_remove_def]])

text \<open>A running record ends with one more event.\<close>

lemma run_wf_stop:
  assumes "run_wf k r" and "is_running r" and "st \<in> set run_statuses" and "st \<noteq> ''running''"
  shows "run_wf k (push_event (r\<lparr>or_status := st\<rparr>) m)" "run_wf k (push_event (r\<lparr>or_status := st, or_exit_code := c\<rparr>) m)"
    "run_wf k (push_event (r\<lparr>or_exit_code := c, or_status := st\<rparr>) m)"
  using assms push_event_cursors [of "r\<lparr>or_status := st\<rparr>" m] push_event_cursors [of "r\<lparr>or_status := st, or_exit_code := c\<rparr>" m]
    push_event_cursors [of "r\<lparr>or_exit_code := c, or_status := st\<rparr>" m]
  by (simp_all add: run_wf_def is_running_def)

section \<open>Every step keeps the invariant\<close>

lemma keeps_reconcile:
  assumes "\<And>r. r \<in> set xs \<Longrightarrow> run_wf (or_id r) r" and "records_wf C M (os_records s)"
  shows "records_wf C M (os_records (snd (reconcile_records H xs b s)))"
  using assms
proof (induction xs arbitrary: b s)
  case (Cons r xs)
  let ?l = "push_event (r\<lparr>or_status := ''lost'', or_exit_code := None\<rparr>) ''lost''" and ?s = "s\<lparr>os_calls := Suc (os_calls s)\<rparr>"
  have IH: "records_wf C M (os_records (snd (reconcile_records H xs b' s')))" if "records_wf C M (os_records s')" for b' s'
    using Cons.IH [OF _ that] Cons.prems(1) by simp
  have keeps: "keeps_records (records_wf C M) (reconcile_records H xs b')" for b'
    by (rule keeps_recordsI) (rule IH)
  have lost: "run_wf (or_id ?l) ?l" "\<not> is_running ?l" if "or_status r = ''running''"
    using run_wf_stop(2) [OF Cons.prems(1) [of r], of "''lost''" None "''lost''"] that
    by (simp_all add: is_running_def run_statuses_def)
  have "records_wf C M (os_records (snd (op_bind (owner_store H ?l) (\<lambda>_. reconcile_records H xs True) ?s)))"
    if "or_status r = ''running''"
    by (rule store_then [OF _ _ keeps]) (use Cons.prems(2) records_wf_idle [OF Cons.prems(2) lost(1,2) [OF that]] in simp_all)
  then show ?case using Cons.prems(2) by (simp add: IH)
qed simp

lemma keeps_pass: "keeps_records (records_wf C M) (reconcile_pass H)"
proof (rule keeps_recordsI)
  fix s :: OwnerState
  assume wf: "records_wf C M (os_records s)"
  then have "run_wf (or_id r) r" if "r \<in> set (map snd (os_records s))" for r
    using that by (auto simp: records_wf_def list_all_iff run_wf_def)
  then show "records_wf C M (os_records (snd (reconcile_pass H s)))"
    unfolding reconcile_pass_def using keeps_reconcile wf by blast
qed

lemma run_wf_requested:
  "run_wf run_id (push_event (requested_run params run_id command) m)" "\<not> is_running (requested_run params run_id command)"
  by (simp_all add: run_wf_def requested_run_def push_event_def run_statuses_def is_running_def)

lemma run_wf_running:
  "run_wf run_id (running_run H n params run_id command pid mode)"
  "weight cpu_of (running_run H n params run_id command pid mode) = unat (u32_param params ''cpu'' 0)"
  "weight memory_of (running_run H n params run_id command pid mode) = unat (u64_param params ''memory_mib'' 0)"
  "or_id (running_run H n params run_id command pid mode) = run_id"
  by (simp_all add: running_run_def Let_def run_wf_def requested_run_def push_event_def run_statuses_def is_running_def
      weight_def cpu_of_def memory_of_def)

text \<open>A start asks for budgets of at most \<open>C\<close> and \<open>M\<close>, below the largest values of the counters.\<close>

definition budgets_at_most :: "nat \<Rightarrow> nat \<Rightarrow> JsonValue \<Rightarrow> bool" where
  "budgets_at_most C M params \<longleftrightarrow> unat (run_cpu_budget params) \<le> C \<and> C < 2 ^ 32 - 1 \<and>
     unat (run_memory_budget params) \<le> M \<and> M < 2 ^ 64 - 1"

lemma admitted_fits:
  assumes "\<not> over_budget params rs" and "budgets_at_most C M params"
  shows "held cpu_of rs + unat (u32_param params ''cpu'' 0) \<le> C \<and>
    held memory_of rs + unat (u64_param params ''memory_mib'' 0) \<le> M"
proof -
  have c: "unat (run_cpu_budget params) \<le> C" "C < 2 ^ 32 - 1"
    and m: "unat (run_memory_budget params) \<le> M" "M < 2 ^ 64 - 1"
    using assms(2) by (simp_all only: budgets_at_most_def)
  show ?thesis
    using within_budget(1) [OF assms(1) le_less_trans [OF c]] within_budget(2) [OF assms(1) le_less_trans [OF m]] c(1) m(1)
      le_trans by blast
qed

lemma keeps_undo: "keeps_records (records_wf C M) (undo_start H run_id pid)"
  unfolding undo_start_def
  by (intro keeps_intros keeps_recordsI) (simp_all add: records_wf_remove)

lemma admitted_stored:
  assumes "records_wf C M rs" and "\<not> over_budget params rs" and "budgets_at_most C M params"
  shows "records_wf C M (bt_insert run_id (running_run H n params run_id command pid mode) rs)"
proof -
  let ?r = "running_run H n params run_id command pid mode"
  note rr = run_wf_running [where H = H and n = n and params = params and run_id = run_id and command = command
      and pid = pid and mode = mode]
  have bt: "bt_wf rs" using assms(1) by (simp add: records_wf_def)
  have cpu: "held cpu_of rs + unat (u32_param params ''cpu'' 0) \<le> C"
    and mem: "held memory_of rs + unat (u64_param params ''memory_mib'' 0) \<le> M"
    using admitted_fits [OF assms(2,3)] by blast+
  have "held cpu_of (bt_insert run_id ?r rs) \<le> C"
    using held_insert_le [OF bt, of cpu_of run_id ?r] cpu unfolding rr(2) by (rule le_trans)
  moreover have "held memory_of (bt_insert run_id ?r rs) \<le> M"
    using held_insert_le [OF bt, of memory_of run_id ?r] mem unfolding rr(3) by (rule le_trans)
  ultimately show ?thesis using records_wf_insert [OF assms(1), of ?r] rr(1) unfolding rr(4) by blast
qed

lemma keeps_started:
  "keeps_records (records_wf C M) (\<lambda>s. case on_durable run_id (sync_supervisor_started (oh_durable H) run_id command) s of
       (Ok _, s1) \<Rightarrow> (Ok run_id, s1)
     | (Err e, s1) \<Rightarrow> (Err (''durable run sync: '' @ e), snd (undo_start H run_id pid s1))
     | (Panic, s1) \<Rightarrow> (Panic, s1))"
  using keeps_durable [of "records_wf C M" run_id "sync_supervisor_started (oh_durable H) run_id command"]
    keeps_undo [of C M H run_id pid]
  by (auto simp: keeps_records_def split: prod.splits outcome.splits)

text \<open>Until the record is stored, a start has changed no record.\<close>

lemma bind_before_store:
  assumes "os_records s' = rs" and "keeps_records (\<lambda>x. x = rs) m" and "Q rs"
    and "\<And>x s1. os_records s1 = rs \<Longrightarrow> Q (os_records (snd (f x s1)))"
  shows "Q (os_records (snd (op_bind m f s')))"
proof -
  have "os_records (snd (m s')) = rs" using assms(1,2) by (auto simp: keeps_records_def)
  then show ?thesis using assms(3,4) by (auto simp: op_bind_def split: prod.splits outcome.splits)
qed

lemma keeps_admit:
  assumes "budgets_at_most C M params"
  shows "keeps_records (records_wf C M) (owner_admit H params run_id command mode env)"
proof (rule keeps_recordsI)
  fix s :: OwnerState
  assume wf: "records_wf C M (os_records s)"
  let ?W = "records_wf C M"
  show "?W (os_records (snd (owner_admit H params run_id command mode env s)))"
  proof (cases "over_budget params (os_records s)")
    case True
    let ?r = "push_event (requested_run params run_id command) ''refused''"
    have r: "run_wf (or_id ?r) ?r" "\<not> is_running ?r" using run_wf_requested by (simp_all add: requested_run_def is_running_def)
    show ?thesis unfolding owner_admit_def if_P [OF True]
      by (rule store_then [where Q = ?W, OF wf records_wf_idle [OF wf r] records_lift])
  next
    case False
    have stored: "?W (os_records (snd (op_bind (owner_store H (running_run H n params run_id command pid mode)) k s')))"
      if "os_records s' = os_records s" "\<And>x. keeps_records ?W (k x)" for n pid k s'
      by (rule store_then [where Q = ?W]) (simp_all only: that wf admitted_stored [OF wf False assms] run_wf_running(4))
    show ?thesis unfolding owner_admit_def start_admitted_def if_not_P [OF False]
      by (rule bind_before_store [where Q = ?W, OF refl keeps_call wf], rule bind_before_store [where Q = ?W, OF _ keeps_call wf],
          assumption, rule bind_before_store [where Q = ?W, OF _ keeps_other wf], assumption, simp)
        (subst op_bind_at, rule stored [OF _ keeps_started], assumption)
  qed
qed

lemma owner_load_Ok: "owner_load run_id s = Ok r \<Longrightarrow> map_of (os_records s) run_id = Some r"
  by (cases "map_of (os_records s) run_id") (auto simp: owner_load_def split: if_splits)

lemma keeps_exit: "keeps_records (records_wf C M) (record_exit H run_id code)"
proof (rule keeps_recordsI)
  fix s :: OwnerState
  assume wf: "records_wf C M (os_records s)"
  show "records_wf C M (os_records (snd (record_exit H run_id code s)))"
  proof (cases "owner_load run_id s")
    case (Ok r)
    let ?r = "if or_status r = ''running'' then push_event (r\<lparr>or_exit_code := Some code, or_status := ''exited''\<rparr>) ''exited''
      else r\<lparr>or_exit_code := Some code\<rparr>"
    have rw: "run_wf run_id r" using records_wf_lookup [OF wf owner_load_Ok [OF Ok]] .
    have "or_id r = run_id" using rw by (simp add: run_wf_def)
    then have new: "run_wf (or_id ?r) ?r" "\<not> is_running ?r"
      using run_wf_stop(3) [OF rw, of "''exited''" "Some code" "''exited''"] rw
      by (auto simp: run_statuses_def is_running_def run_wf_def)
    show ?thesis unfolding record_exit_def Ok
      by (simp add: Let_def split del: if_split)
        (rule store_then [where Q = "records_wf C M", OF wf records_wf_idle [OF wf new]], intro keeps_intros)
  qed (use wf in \<open>simp_all add: record_exit_def\<close>)
qed

text \<open>A cancel stops the process before it writes anything.\<close>

lemma keeps_cancel: "keeps_records (records_wf C M) (cancel_locked H run_id confirmed)"
proof (rule keeps_recordsI)
  fix s :: OwnerState
  assume wf: "records_wf C M (os_records s)"
  let ?W = "records_wf C M"
  show "?W (os_records (snd (cancel_locked H run_id confirmed s)))"
  proof (cases "owner_load run_id s")
    case (Ok r)
    let ?r = "push_event (r\<lparr>or_status := ''cancelled''\<rparr>) ''cancelled''"
    have rw: "run_wf run_id r" using records_wf_lookup [OF wf owner_load_Ok [OF Ok]] .
    have new: "run_wf (or_id ?r) ?r" "\<not> is_running ?r" if "is_running r"
      using run_wf_stop(1) [OF rw that, of "''cancelled''" "''cancelled''"] rw
      by (simp_all add: run_statuses_def is_running_def run_wf_def)
    have stored: "?W (os_records (snd (op_bind (owner_store H ?r) k s')))"
      if "is_running r" "os_records s' = os_records s" "\<And>x. keeps_records ?W (k x)" for k s'
      by (rule store_then [where Q = ?W]) (simp_all only: that wf records_wf_idle [OF wf new [OF that(1)]])
    have stop: "keeps_records (\<lambda>x. x = os_records s) (case or_pid r of
          Some pid \<Rightarrow> op_bind (ow_call (\<lambda>n. oh_stop H n pid)) (\<lambda>_ s. (Ok (), s\<lparr>os_stopped := os_stopped s @ [pid]\<rparr>))
        | None \<Rightarrow> op_lift (Ok ()))"
      by (cases "or_pid r") (auto intro!: keeps_intros)
    show ?thesis
    proof (cases "is_running r \<and> (or_attempt_id r = None \<or> confirmed)")
      case True
      then have running: "is_running r" and "(or_attempt_id r \<noteq> None \<and> \<not> confirmed) = False" by auto
      then show ?thesis unfolding cancel_locked_def Ok
        by (simp only: op_bind_Ok op_bind_Err if_False not_True_eq_False Let_def)
          (rule bind_before_store [where Q = ?W, OF refl stop wf], rule stored [OF running], assumption, intro keeps_intros)
    next
      case False
      then show ?thesis using wf unfolding cancel_locked_def Ok by (auto simp: op_lift_def op_bind_def)
    qed
  qed (use wf in \<open>simp_all add: cancel_locked_def op_bind_def op_lift_def\<close>)
qed

section \<open>Reconciliation\<close>

text \<open>What a reconciliation makes of a record, when the process table does not change meanwhile.\<close>

definition dead_run :: "OwnerHost \<Rightarrow> OwnedRun \<Rightarrow> bool" where
  "dead_run H r \<longleftrightarrow> is_running r \<and> \<not> still_running H 0 r"

definition lost_run :: "OwnerHost \<Rightarrow> OwnedRun \<Rightarrow> OwnedRun" where
  "lost_run H r = (if dead_run H r then push_event (r\<lparr>or_status := ''lost'', or_exit_code := None\<rparr>) ''lost'' else r)"

definition stable_processes :: "OwnerHost \<Rightarrow> bool" where
  "stable_processes H \<longleftrightarrow> (\<forall>n. still_running H n = still_running H 0)"

lemma lost_run_settled [simp]: "\<not> dead_run H (lost_run H r)" "or_id (lost_run H r) = or_id r"
  by (auto simp: lost_run_def dead_run_def is_running_def)

lemma owner_store_Ok:
  "owner_store H r s = (Ok x, s1) \<Longrightarrow> s1 = s\<lparr>os_calls := Suc (os_calls s), os_records := bt_insert (or_id r) r (os_records s)\<rparr>"
  by (auto simp: owner_store_def op_bind_result ow_call_def)

lemma lock_Ok: "owner_with_lock H m s = (Ok x, s1) \<Longrightarrow> m (s\<lparr>os_calls := Suc (os_calls s)\<rparr>) = (Ok x, s1)"
  by (auto simp: owner_with_lock_def op_bind_result ow_call_def)

lemma reconcile_effect:
  assumes "stable_processes H" and "distinct (map or_id xs)" and "reconcile_records H xs b s = (Ok b', s')"
  shows "(b' \<longleftrightarrow> b \<or> (\<exists>r\<in>set xs. dead_run H r)) \<and>
    map_of (os_records s') k = (case map_of (map (\<lambda>r. (or_id r, r)) xs) k of
        Some r \<Rightarrow> if dead_run H r then Some (lost_run H r) else map_of (os_records s) k
      | None \<Rightarrow> map_of (os_records s) k)"
  using assms(2,3)
proof (induction xs arbitrary: b s)
  case (Cons r xs)
  have still: "still_running H n = still_running H 0" for n using assms(1) by (simp add: stable_processes_def)
  have fresh: "map_of (map (\<lambda>r. (or_id r, r)) xs) (or_id r) = None"
    using Cons.prems(1) by (force simp: map_of_eq_None_iff)
  have distinct: "distinct (map or_id xs)" using Cons.prems(1) by simp
  show ?case
  proof (cases "dead_run H r")
    case True
    then have "or_status r = ''running''" "\<not> still_running H 0 r" by (simp_all add: dead_run_def is_running_def)
    then obtain s1 where "reconcile_records H xs True s1 = (Ok b', s')"
      "os_records s1 = bt_insert (or_id r) (lost_run H r) (os_records s)"
      using Cons.prems(2) True
      by (auto simp: still [of "os_calls s"] op_bind_result lost_run_def dest!: owner_store_Ok)
    then show ?thesis using Cons.IH [OF distinct] fresh True by (auto split: option.splits)
  next
    case False
    have "(os_calls x, os_records x) = (os_calls s, os_records s) \<Longrightarrow> os_records x = os_records s" for x by simp
    obtain s1 where s1: "reconcile_records H xs b s1 = (Ok b', s')" "os_records s1 = os_records s"
      using Cons.prems(2) False
      by (force simp: still [of "os_calls s"] dead_run_def is_running_def split: if_splits)
    then show ?thesis using Cons.IH [OF distinct s1(1)] fresh False by (auto split: option.splits)
  qed
qed simp

lemma records_ids:
  assumes "records_wf C M rs"
  shows "map or_id (map snd rs) = map fst rs" and "map (\<lambda>r. (or_id r, r)) (map snd rs) = rs"
  using assms by (induction rs) (auto simp: records_wf_def run_wf_def bt_wf_def list_all_iff held_def)

lemma pass_effect:
  assumes "stable_processes H" and "records_wf C M (os_records s)" and "reconcile_once H s = (Ok b, s')"
  shows "map_of (os_records s') k = map_option (lost_run H) (map_of (os_records s) k)"
    and "b \<longleftrightarrow> (\<exists>r\<in>ran (map_of (os_records s)). dead_run H r)"
proof -
  have wf: "bt_wf (os_records s)" using assms(2) by (simp add: records_wf_def)
  have d: "distinct (map or_id (map snd (os_records s)))"
    unfolding records_ids(1) [OF assms(2)] by (rule bt_wf_distinct [OF wf])
  have calls: "os_records (s\<lparr>os_calls := Suc (os_calls s)\<rparr>) = os_records s" by simp
  have eff: "(b \<longleftrightarrow> False \<or> (\<exists>r\<in>set (map snd (os_records s)). dead_run H r)) \<and>
      map_of (os_records s') k = (case map_of (os_records s) k of
        Some r \<Rightarrow> if dead_run H r then Some (lost_run H r) else map_of (os_records s) k
      | None \<Rightarrow> map_of (os_records s) k)" for k
    using reconcile_effect [OF assms(1) d lock_Ok [OF assms(3) [unfolded reconcile_once_def], unfolded reconcile_pass_def, simplified]]
    unfolding records_ids(2) [OF assms(2)] calls by simp
  then show "map_of (os_records s') k = map_option (lost_run H) (map_of (os_records s) k)"
    by (auto simp: lost_run_def split: option.splits)
  have "set (map snd (os_records s)) = ran (map_of (os_records s))"
    using ran_distinct [OF bt_wf_distinct [OF wf]] by simp
  then show "b \<longleftrightarrow> (\<exists>r\<in>ran (map_of (os_records s)). dead_run H r)" using eff by simp
qed

lemma keeps_once: "keeps_records (records_wf C M) (reconcile_once H)"
  unfolding reconcile_once_def by (intro keeps_intros keeps_pass)

lemma keeps_limit: "keeps_records (records_wf C M) (reconcile_with_limit H n)"
  by (induction n) (auto intro!: keeps_intros keeps_once)

lemma limit_effect:
  assumes "stable_processes H" and "records_wf C M (os_records s)" and "reconcile_with_limit H (Suc n) s = (Ok u, s')"
  shows "map_of (os_records s') k = map_option (lost_run H) (map_of (os_records s) k)"
  using assms(2,3)
proof (induction n arbitrary: s)
  case 0
  then show ?case using pass_effect(1) [OF assms(1)]
    by (auto simp: op_bind_result op_lift_def split: if_splits)
next
  case (Suc n)
  then obtain b s1 where once: "reconcile_once H s = (Ok b, s1)"
    and rest: "(if b then reconcile_with_limit H (Suc n) else op_lift (Ok ())) s1 = (Ok u, s')"
    by (auto simp: op_bind_result)
  have wf: "records_wf C M (os_records s1)" using keeps_recordsD [OF keeps_once Suc.prems(1)] once by (metis snd_conv)
  note eff = pass_effect(1) [OF assms(1) Suc.prems(1) once]
  have idem: "lost_run H (lost_run H r) = lost_run H r" for r by (simp add: lost_run_def [of H "lost_run H r"])
  show ?case
  proof (cases b)
    case True
    then have "map_of (os_records s') k = map_option (lost_run H) (map_of (os_records s1) k)"
      using Suc.IH [OF wf] rest by simp
    then show ?thesis by (simp add: eff option.map_comp comp_def idem)
  qed (use rest eff in \<open>simp add: op_lift_def\<close>)
qed

section \<open>Sessions\<close>

text \<open>
  What concurrent callers do to the records: whole calls, and the bodies that
  run under the admission lock, of any caller, in any order.
\<close>

datatype session_step =
  CallStart JsonValue | CallCancel string bool | CallList
| LockedPass | LockedAdmit JsonValue string "string list" string "(string \<times> string) list"
| LockedCancel string bool | ChildExits string i32

fun do_step :: "OwnerHost \<Rightarrow> session_step \<Rightarrow> OwnerState \<Rightarrow> OwnerState" where
  "do_step H (CallStart params) s = snd (owner_start H params s)"
| "do_step H (CallCancel run_id confirmed) s = snd (owner_cancel H run_id confirmed s)"
| "do_step H CallList s = snd (owner_list H s)"
| "do_step H LockedPass s = snd (reconcile_once H s)"
| "do_step H (LockedAdmit params run_id command mode env) s =
     snd (owner_with_lock H (owner_admit H params run_id command mode env) s)"
| "do_step H (LockedCancel run_id confirmed) s = snd (owner_with_lock H (cancel_locked H run_id confirmed) s)"
| "do_step H (ChildExits run_id code) s = snd (wait_finished H run_id code s)"

definition run_session :: "OwnerHost \<Rightarrow> session_step list \<Rightarrow> OwnerState \<Rightarrow> OwnerState" where
  "run_session H steps s = fold (do_step H) steps s"

fun step_within :: "nat \<Rightarrow> nat \<Rightarrow> session_step \<Rightarrow> bool" where
  "step_within C M (CallStart params) = budgets_at_most C M params"
| "step_within C M (LockedAdmit params _ _ _ _) = budgets_at_most C M params"
| "step_within C M _ = True"

lemma keeps_owner_start: "budgets_at_most C M params \<Longrightarrow> keeps_records (records_wf C M) (owner_start H params)"
  unfolding owner_start_def Let_def
  by (auto intro!: keeps_intros keeps_limit keeps_admit)

lemma do_step_keeps:
  assumes "step_within C M st" and "records_wf C M (os_records s)"
  shows "records_wf C M (os_records (do_step H st s))"
proof -
  have exits: "keeps_records (records_wf C M) (wait_finished H run_id code)" for run_id code
    unfolding wait_finished_def by (intro keeps_intros keeps_exit)
  have cancels: "keeps_records (records_wf C M) (owner_cancel H run_id b)" for run_id b
    unfolding owner_cancel_def by (intro keeps_intros keeps_limit keeps_cancel)
  have lists: "keeps_records (records_wf C M) (owner_list H)"
    unfolding owner_list_def by (intro keeps_intros keeps_limit keeps_recordsI) simp
  show ?thesis using assms
    by (cases st) (simp_all add: keeps_recordsD [OF exits] keeps_recordsD [OF cancels] keeps_recordsD [OF lists]
        keeps_recordsD [OF keeps_once] keeps_recordsD [OF keeps_owner_start]
        keeps_recordsD [OF records_lock [OF keeps_admit]] keeps_recordsD [OF records_lock [OF keeps_cancel]])
qed

definition example_owner :: OwnerHost where
  "example_owner =
     \<lparr>oh_lock = (\<lambda>_. Ok ()), oh_log_file = (\<lambda>_. Ok ()), oh_store = (\<lambda>_. Ok ()), oh_remove = (\<lambda>_. Ok ()), oh_spawn = (\<lambda>_ _ _. Ok 7),
      oh_stop = (\<lambda>_ _. Ok ()), oh_alive = (\<lambda>_ pid. pid \<noteq> 7), oh_start_time = (\<lambda>_ _. None),
      oh_new_id = (\<lambda>n. ''run-'' @ show_nat n), oh_durable = quiet (example_host example_failures)\<rparr>"

definition example_params :: JsonValue where
  "example_params = JObject [(''command'', JArray [JString ''serve'']), (''cpu'', JNumber ''3''),
     (''cpu_budget'', JNumber ''4''), (''memory_mib'', JNumber ''16''), (''memory_budget'', JNumber ''64'')]"

definition no_runs :: OwnerState where
  "no_runs = \<lparr>os_records = [], os_durable = (\<lambda>_. no_files), os_spawned = [], os_stopped = [], os_calls = 0\<rparr>"

lemma example_budgets: "budgets_at_most 4 64 example_params"
  by (simp add: budgets_at_most_def run_cpu_budget_def run_memory_budget_def u32_param_def u64_param_def example_params_def
      parse_u64_def digits_value_def char_digit_def is_ascii_digit_def)

text \<open>
  C14: From an empty directory, whatever callers start, cancel, list and
  reconcile, in whole calls or with their locked bodies interleaved, whatever
  the machine answers and wherever a call fails: when no start asks for budgets
  above C and M (below the largest u32 and u64), the running records together
  never reserve more than C CPUs and M MiB.  Every record keeps the id of its
  file, one of the five statuses, a pid while it runs, and its events, at most
  four, are numbered from one without a gap.
\<close>

theorem session_budgets:
  assumes "list_all (step_within C M) steps" and "os_records s = []"
  shows "held cpu_of (os_records (run_session H steps s)) \<le> C \<and> held memory_of (os_records (run_session H steps s)) \<le> M \<and>
    list_all (\<lambda>p. run_wf (fst p) (snd p)) (os_records (run_session H steps s))"
proof -
  have "records_wf C M (os_records (fold (do_step H) steps s))" if "records_wf C M (os_records s)" for s
    using assms(1) that by (induction steps arbitrary: s) (simp_all add: do_step_keeps)
  moreover have "records_wf C M (os_records s)" using assms(2) by (simp add: records_wf_def held_def)
  ultimately show ?thesis by (simp add: run_session_def records_wf_def)
qed

theorem session_budgets_witness:
  "held cpu_of (os_records (run_session example_owner
     [CallStart example_params, LockedAdmit example_params ''run-x'' [''serve''] ''off'' [], LockedPass,
      CallCancel ''run-x'' False, ChildExits ''run-x'' 1, CallList] no_runs)) \<le> 4"
  using session_budgets [of 4 64 "[CallStart example_params, LockedAdmit example_params ''run-x'' [''serve''] ''off'' [],
      LockedPass, CallCancel ''run-x'' False, ChildExits ''run-x'' 1, CallList]" no_runs example_owner]
  by (simp add: example_budgets no_runs_def)

text \<open>
  C25: While the process table does not change, a successful list returns the
  stored records in the order of their ids: a running record whose process is
  gone, or whose start time is that of another process, is returned as lost,
  with one more event, every other record as it was; no record that is returned
  as running has a dead process.
\<close>

theorem listed_runs_alive:
  assumes "stable_processes H" and "records_wf C M (os_records s)" and "owner_list H s = (Ok rs, s')"
  shows "rs = map snd (os_records s') \<and> sorted_wrt (<) (map or_id rs) \<and> (\<forall>r. r \<in> set rs \<longrightarrow> \<not> dead_run H r) \<and>
    (\<forall>k. map_of (os_records s') k = map_option (lost_run H) (map_of (os_records s) k))"
proof -
  obtain u where lim: "reconcile_with_limit H (Suc 7) s = (Ok u, s')" and rs: "rs = map snd (os_records s')"
    using assms(3) by (auto simp: owner_list_def op_bind_result MAX_RECONCILE_PASSES_def simp del: reconcile_with_limit.simps)
  have eff: "map_of (os_records s') k = map_option (lost_run H) (map_of (os_records s) k)" for k
    by (rule limit_effect [OF assms(1,2) lim])
  have wf': "records_wf C M (os_records s')"
    using keeps_recordsD [OF keeps_limit assms(2), of H "Suc 7"] unfolding lim by simp
  have bt: "bt_wf (os_records s')" using wf' by (simp add: records_wf_def)
  have "\<not> dead_run H r" if "r \<in> set rs" for r
  proof -
    have "r \<in> snd ` set (os_records s')" using that unfolding rs by simp
    then obtain k where "(k, r) \<in> set (os_records s')" by force
    then have "map_of (os_records s') k = Some r" by (simp only: bt_wf_lookup [OF bt])
    then show ?thesis unfolding eff by auto
  qed
  moreover have "sorted_wrt (<) (map or_id rs)"
    using bt unfolding rs records_ids(1) [OF wf'] by (simp add: bt_wf_def)
  ultimately show ?thesis using rs eff by blast
qed

definition example_run :: OwnedRun where
  "example_run = (requested_run example_params ''run-1'' [''serve''])
     \<lparr>or_status := ''running'', or_pid := Some 7, or_events := [\<lparr>re_cursor = 1, re_message = ''started''\<rparr>]\<rparr>"

lemma example_run_wf: "records_wf 3 16 [(''run-1'', example_run)]"
  by (simp add: records_wf_def run_wf_def example_run_def run_statuses_def is_running_def bt_wf_def held_def weight_def
      cpu_of_def memory_of_def requested_run_def example_params_def u32_param_def u64_param_def
      parse_u64_def digits_value_def char_digit_def is_ascii_digit_def)

theorem listed_runs_alive_witness:
  "map (\<lambda>r. (or_status r, length (or_events r))) (case fst (owner_list example_owner (no_runs\<lparr>os_records := [(''run-1'', example_run)]\<rparr>)) of
     Ok rs \<Rightarrow> rs | _ \<Rightarrow> []) = [(''lost'', 2)] \<and>
   \<not> (\<exists>r. fst (owner_list example_owner (no_runs\<lparr>os_records := [(''run-1'', example_run)]\<rparr>)) = Ok [r] \<and> dead_run example_owner r)"
proof -
  let ?s = "no_runs\<lparr>os_records := [(''run-1'', example_run)]\<rparr>"
  obtain res s' where run: "owner_list example_owner ?s = (res, s')" by (cases "owner_list example_owner ?s")
  have listed: "map (\<lambda>r. (or_status r, length (or_events r))) (case fst (owner_list example_owner ?s) of
     Ok rs \<Rightarrow> rs | _ \<Rightarrow> []) = [(''lost'', 2)]"
    by (simp add: owner_list_def MAX_RECONCILE_PASSES_def numeral_eq_Suc op_bind_def reconcile_once_def owner_with_lock_def
        ow_call_def reconcile_pass_def example_owner_def example_run_def requested_run_def still_running_def owner_store_def
        no_runs_def op_lift_def push_event_def)
  then obtain rs where ok: "owner_list example_owner ?s = (Ok rs, s')" using run by (cases res) auto
  have "stable_processes example_owner"
    by (simp add: stable_processes_def still_running_def example_owner_def fun_eq_iff split: option.split)
  then have "\<not> dead_run example_owner r" if "r \<in> set rs" for r
    using listed_runs_alive [OF _ _ ok, of 3 16] example_run_wf that by simp
  then show ?thesis using listed ok by auto
qed

section \<open>Where the owner and its records part\<close>

text \<open>CPU requests are cut to 32 bits before they are compared with the budget.\<close>

lemma cpu_request_truncated:
  assumes "json_get ''cpu'' params = Some (JNumber t)" and "parse_u64 t = Some n"
  shows "unat (u32_param params ''cpu'' 0) = unat n mod 2 ^ 32"
  using assms by (simp add: u32_param_def u64_param_def unsigned_ucast_eq take_bit_eq_mod)

text \<open>A process whose record cannot be stored is neither stopped nor recorded.\<close>

lemma unrecorded_process:
  assumes "\<not> over_budget params (os_records s)" and "oh_log_file H (os_calls s) = Ok ()"
    and "oh_spawn H (Suc (os_calls s)) command env = Ok pid" and "oh_store H (Suc (Suc (os_calls s))) = Err e"
  shows "\<exists>s'. owner_admit H params run_id command mode env s = (Err e, s') \<and> os_spawned s' = os_spawned s @ [pid] \<and>
    os_stopped s' = os_stopped s \<and> os_records s' = os_records s \<and> os_durable s' = os_durable s"
  using assms by (simp add: owner_admit_def start_admitted_def op_bind_def ow_call_def owner_store_def)

text \<open>
  A cancelled run whose child then exits: the record says cancelled, and the
  durable run that is loaded has the status of the exit.
\<close>

lemma cancelled_run_loads_as_exited:
  assumes "journal_codec (oh_durable H) L" and "reads_found (oh_durable H)" and "record_codec (oh_durable H) R"
    and "\<And>m. first_terminal run_id RunStCancelled None m \<in> L"
    and "run_record run_id command c RunStCancelled None 2 \<in> R" and "run_record run_id command c st (Some code) 2 \<in> R"
    and "st = (if code = 0 then RunStSucceeded else RunStFailed)" and "validate_run_id run_id = Ok ()"
    and "run_started (oh_durable H) L run_id command c n (os_durable s run_id)"
    and "sync_supervisor_terminal (oh_durable H) run_id RunStCancelled None (os_durable s run_id) = (Ok (), e1)"
    and "sync_supervisor_terminal (oh_durable H) run_id st (Some code) e1 = (Ok (), e2)"
    and "\<And>k. oh_store H k = Ok ()" and "owner_load run_id s = Ok r" and "is_running r" and "or_id r = run_id"
    and "cancel_locked H run_id True s = (Ok r1, s1)" and "record_exit H run_id code s1 = (Ok (), s2)"
  shows "or_status (the (map_of (os_records s2) run_id)) = ''cancelled'' \<and>
    (\<exists>d. load_durable_run (quiet (oh_durable H)) run_id (os_durable s2 run_id) = (Ok (run_record run_id command c st (Some code) 2), d))"
proof -
  obtain m where ended: "run_ended (oh_durable H) L run_id command RunStCancelled None c n m e1"
    using triple_first_terminal [OF assms(1-5), unfolded triple_def, rule_format, OF assms(9)] assms(10) by auto
  have s1: "map_of (os_records s1) run_id = Some r1" "or_status r1 = ''cancelled''" "or_id r1 = run_id" "os_durable s1 run_id = e1"
    using assms(10,12-16)
    by (auto simp: cancel_locked_def is_running_def op_bind_result Let_def ignore_result_def on_durable_def op_lift_def ow_call_def
        sync_supervisor_terminal_with_reconcile_def owner_store_def split: option.splits)
  have "owner_load run_id s1 = Ok r1"
    using s1(1) assms(13) by (auto simp: owner_load_def split: if_splits)
  then have "os_durable s2 run_id = e2" "map_of (os_records s2) run_id = Some (r1\<lparr>or_exit_code := Some code\<rparr>)"
    using assms(7,11,12,17) s1
    by (auto simp: record_exit_def op_bind_result Let_def ignore_result_def on_durable_def ow_call_def
        sync_supervisor_terminal_with_reconcile_def owner_store_def)
  then show ?thesis using s1(2) second_terminal_overrides [OF assms(1-3,6,8) ended assms(11)] by auto
qed

end
