(* ===== verification/File_Tree.thy ===== *)
theory File_Tree
  imports Rust_State Events "HOL-Library.Sublist"
begin

text \<open>
  A file system as the code sees it: a tree of files, directories and links, and
  the calls of \<open>std::fs\<close> on paths given as lists of names.  Whether a call fails,
  how much a failed write or a failed \<open>create_dir_all\<close> got done, and what a failed
  \<open>remove_dir_all\<close> leaves are arguments, by the number of the call; so are the
  trees that links lead to, which are outside the modelled one: what is written
  through a link is not tracked.
\<close>

section \<open>Trees\<close>

datatype tree = TFile string | TLink string | TOther | TDir "(string \<times> tree) list"

type_synonym path = "string list"

record FsHost =
  fh_fail :: "nat \<Rightarrow> string option"
  fh_cut :: "nat \<Rightarrow> nat option"
  fh_rest :: "nat \<Rightarrow> tree \<Rightarrow> tree option"
  fh_target :: "string \<Rightarrow> tree option"
  fh_modified :: "path \<Rightarrow> nat"

definition resolve :: "FsHost \<Rightarrow> tree \<Rightarrow> tree option" where
  "resolve H t = (case t of TLink s \<Rightarrow> fh_target H s | _ \<Rightarrow> Some t)"

definition entries_of :: "FsHost \<Rightarrow> tree \<Rightarrow> (string \<times> tree) list" where
  "entries_of H t = (case resolve H t of Some (TDir es) \<Rightarrow> es | _ \<Rightarrow> [])"

text \<open>The node at a path; links on the way are followed, the last name is not.\<close>

fun node_at :: "FsHost \<Rightarrow> path \<Rightarrow> tree option \<Rightarrow> tree option" where
  "node_at H [] o' = o'"
| "node_at H (x # p) o' = (case o' of None \<Rightarrow> None | Some t \<Rightarrow> node_at H p (map_of (entries_of H t) x))"

text \<open>A change of the node at a path whose directories are in the tree itself.\<close>

fun alter :: "path \<Rightarrow> (tree option \<Rightarrow> tree option) \<Rightarrow> tree option \<Rightarrow> tree option" where
  "alter [] f o' = f o'"
| "alter (x # p) f (Some (TDir es)) =
     Some (TDir (if p = [] \<or> map_of es x \<noteq> None
       then case alter p f (map_of es x) of None \<Rightarrow> bt_remove x es | Some t \<Rightarrow> bt_insert x t es
       else es))"
| "alter (x # p) f o' = o'"

fun real_dir :: "path \<Rightarrow> tree option \<Rightarrow> bool" where
  "real_dir [] (Some (TDir es)) = True"
| "real_dir (x # p) (Some (TDir es)) = real_dir p (map_of es x)"
| "real_dir _ _ = False"

lemma entries_TDir [simp]: "entries_of H (TDir es) = es"
  by (simp add: entries_of_def resolve_def)

lemma node_at_None [simp]: "node_at H p None = None"
  by (induction p) auto

lemma real_dir_at: "real_dir p root \<Longrightarrow> \<exists>es. node_at H p root = Some (TDir es)"
  by (induction p root rule: real_dir.induct) auto

lemma node_at_append: "node_at H (p @ q) root = node_at H q (node_at H p root)"
  by (induction p arbitrary: root) (auto split: option.splits)

lemma alter_Some: "p \<noteq> [] \<Longrightarrow> \<exists>u. alter p f (Some t) = Some u"
  by (cases p; cases t) auto

text \<open>A change is seen at its own path and nowhere beside it.\<close>

lemma node_at_alter_same:
  assumes "real_dir p root"
  shows "node_at H (p @ [x]) (alter (p @ [x]) f root) = f (node_at H (p @ [x]) root)"
  using assms
proof (induction p root rule: real_dir.induct)
  case (1 es)
  then show ?case by (cases "f (map_of es x)") auto
next
  case (2 y p es)
  then obtain t where t: "map_of es y = Some t" by (cases "map_of es y") auto
  obtain u where "alter (p @ [x]) f (Some t) = Some u" using alter_Some [of "p @ [x]"] by blast
  then show ?case using 2 t by simp
qed auto

lemma node_at_alter_other:
  assumes "\<not> prefix p q" and "\<not> prefix q p"
  shows "node_at H q (alter p f root) = node_at H q root"
  using assms
proof (induction p f root arbitrary: q rule: alter.induct)
  case (2 x p f es)
  then obtain y q' where q: "q = y # q'" by (cases q) auto
  show ?case
  proof (cases "y = x")
    case True
    then have "\<not> prefix p q'" "\<not> prefix q' p" using 2(2,3) by (simp_all add: q)
    moreover from this have "p \<noteq> []" by auto
    ultimately show ?thesis using 2(1) [of q'] True
      by (cases "map_of es x"; cases "alter p f (map_of es x)") (auto simp: q)
  next
    case False
    then show ?thesis by (cases "alter p f (map_of es x)") (auto simp: q)
  qed
qed auto

lemma real_dir_alter:
  assumes "real_dir q root" and "\<not> prefix p q"
  shows "real_dir q (alter p f root)"
  using assms
proof (induction p f root arbitrary: q rule: alter.induct)
  case (2 x p f es)
  show ?case
  proof (cases q)
    case (Cons y q')
    show ?thesis
    proof (cases "y = x")
      case True
      then have "\<not> prefix p q'" using 2(3) by (simp add: Cons)
      moreover from this have "p \<noteq> []" by auto
      ultimately show ?thesis using 2(1) [of q'] 2(2) True
        by (cases "map_of es x"; cases "alter p f (map_of es x)") (auto simp: Cons)
    next
      case False
      then show ?thesis using 2(2) by (cases "alter p f (map_of es x)") (auto simp: Cons)
    qed
  qed simp
qed auto

section \<open>Calls\<close>

record FsState =
  fs_root :: "tree option"
  fs_calls :: nat

type_synonym 'a fs_op = "(FsState, string, 'a) state_op"

definition fs_call :: "FsHost \<Rightarrow> unit fs_op" where
  "fs_call H s = (case fh_fail H (fs_calls s) of None \<Rightarrow> Ok () | Some e \<Rightarrow> Err e, s\<lparr>fs_calls := Suc (fs_calls s)\<rparr>)"

definition set_root :: "(tree option \<Rightarrow> tree option) \<Rightarrow> unit fs_op" where
  "set_root f s = (Ok (), s\<lparr>fs_root := f (fs_root s)\<rparr>)"

definition not_found :: string where
  "not_found = ''No such file or directory''"

text \<open>What a path names, with the last link followed too.\<close>

definition stat :: "FsHost \<Rightarrow> path \<Rightarrow> FsState \<Rightarrow> tree option" where
  "stat H p s = Option.bind (node_at H p (fs_root s)) (resolve H)"

text \<open>\<open>exists\<close>, \<open>is_file\<close> and \<open>is_dir\<close> answer \<open>false\<close> when there is nothing there.\<close>

definition fs_exists :: "FsHost \<Rightarrow> path \<Rightarrow> FsState \<Rightarrow> bool" where
  "fs_exists H p s \<longleftrightarrow> stat H p s \<noteq> None"

definition is_file :: "FsHost \<Rightarrow> path \<Rightarrow> FsState \<Rightarrow> bool" where
  "is_file H p s = (case stat H p s of Some (TFile _) \<Rightarrow> True | _ \<Rightarrow> False)"

definition is_dir :: "FsHost \<Rightarrow> path \<Rightarrow> FsState \<Rightarrow> bool" where
  "is_dir H p s = (case stat H p s of Some (TDir _) \<Rightarrow> True | _ \<Rightarrow> False)"

definition is_symlink :: "FsHost \<Rightarrow> path \<Rightarrow> FsState \<Rightarrow> bool" where
  "is_symlink H p s = (case node_at H p (fs_root s) of Some (TLink _) \<Rightarrow> True | _ \<Rightarrow> False)"

definition fs_read :: "FsHost \<Rightarrow> path \<Rightarrow> string fs_op" where
  "fs_read H p = op_bind (fs_call H) (\<lambda>_ s.
     (case stat H p s of Some (TFile c) \<Rightarrow> Ok c | Some (TDir _) \<Rightarrow> Err ''Is a directory'' | _ \<Rightarrow> Err not_found, s))"

definition fs_read_text :: "FsHost \<Rightarrow> path \<Rightarrow> string fs_op" where
  "fs_read_text H p = op_bind (fs_read H p) (\<lambda>c.
     op_lift (if valid_utf8 c then Ok c else Err ''stream did not contain valid UTF-8''))"

text \<open>The entries of a directory, in the order of their names.\<close>

definition read_dir :: "FsHost \<Rightarrow> path \<Rightarrow> (string \<times> tree) list fs_op" where
  "read_dir H p = op_bind (fs_call H) (\<lambda>_ s.
     (case stat H p s of Some (TDir es) \<Rightarrow> Ok es | Some _ \<Rightarrow> Err ''Not a directory'' | None \<Rightarrow> Err not_found, s))"

text \<open>
  \<open>fs::write\<close> and \<open>fs::copy\<close> onto a path: a failure leaves the file as it was or
  with a part of the new contents.
\<close>

definition put_file :: "string \<Rightarrow> tree option \<Rightarrow> tree option" where
  "put_file c o' = (case o' of Some (TLink s) \<Rightarrow> Some (TLink s) | _ \<Rightarrow> Some (TFile c))"

definition write_file :: "FsHost \<Rightarrow> path \<Rightarrow> string \<Rightarrow> unit fs_op" where
  "write_file H p c s =
     (if \<not> is_dir H (butlast p) s then (Err not_found, s)
      else if is_dir H p s then (Err ''Is a directory'', s)
      else let s1 = s\<lparr>fs_calls := Suc (fs_calls s)\<rparr> in
        case fh_fail H (fs_calls s) of
          None \<Rightarrow> set_root (alter p (put_file c)) s1
        | Some e \<Rightarrow> (Err e, case fh_cut H (fs_calls s) of
            None \<Rightarrow> s1
          | Some k \<Rightarrow> snd (set_root (alter p (put_file (take (min k (length c - 1)) c))) s1)))"

text \<open>Opening a lock file creates it empty when it is not there.\<close>

definition open_lock :: "FsHost \<Rightarrow> path \<Rightarrow> unit fs_op" where
  "open_lock H p = op_bind (fs_call H) (\<lambda>_ s.
     if \<not> is_dir H (butlast p) s then (Err not_found, s)
     else set_root (alter p (\<lambda>o'. if o' = None then Some (TFile []) else o')) s)"

text \<open>\<open>rename\<close> replaces a file, or an empty directory by a directory.\<close>

definition may_replace :: "tree \<Rightarrow> tree option \<Rightarrow> bool" where
  "may_replace t o' = (case o' of
       None \<Rightarrow> True
     | Some (TDir es) \<Rightarrow> (case t of TDir _ \<Rightarrow> es = [] | _ \<Rightarrow> False)
     | Some _ \<Rightarrow> (case t of TDir _ \<Rightarrow> False | _ \<Rightarrow> True))"

definition rename_path :: "FsHost \<Rightarrow> path \<Rightarrow> path \<Rightarrow> unit fs_op" where
  "rename_path H p q = op_bind (fs_call H) (\<lambda>_ s.
     (case node_at H p (fs_root s) of
        None \<Rightarrow> (Err not_found, s)
      | Some t \<Rightarrow>
          if \<not> is_dir H (butlast q) s then (Err not_found, s)
          else if strict_prefix p q then (Err ''Invalid argument'', s)
          else if p = q then (Ok (), s)
          else if \<not> may_replace t (node_at H q (fs_root s)) then (Err ''Directory not empty'', s)
          else set_root (\<lambda>root. alter q (\<lambda>_. Some t) (alter p (\<lambda>_. None) root)) s))"

definition remove_file :: "FsHost \<Rightarrow> path \<Rightarrow> unit fs_op" where
  "remove_file H p = op_bind (fs_call H) (\<lambda>_ s. (case node_at H p (fs_root s) of
       None \<Rightarrow> (Err not_found, s)
     | Some (TDir _) \<Rightarrow> (Err ''Is a directory'', s)
     | Some _ \<Rightarrow> set_root (alter p (\<lambda>_. None)) s))"

definition remove_dir_all :: "FsHost \<Rightarrow> path \<Rightarrow> unit fs_op" where
  "remove_dir_all H p s = (let s1 = s\<lparr>fs_calls := Suc (fs_calls s)\<rparr> in
     case node_at H p (fs_root s) of
       None \<Rightarrow> (Err not_found, s1)
     | Some t \<Rightarrow>
         if (case t of TDir _ \<Rightarrow> False | TLink _ \<Rightarrow> False | _ \<Rightarrow> True) then (Err ''Not a directory'', s1)
         else (case fh_fail H (fs_calls s) of
            None \<Rightarrow> set_root (alter p (\<lambda>_. None)) s1
          | Some e \<Rightarrow> (Err e, snd (set_root (alter p (\<lambda>_. fh_rest H (fs_calls s) t)) s1))))"

text \<open>The directories of a path that are missing; \<open>None\<close> when something else is in the way.\<close>

fun make_dirs :: "FsHost \<Rightarrow> path \<Rightarrow> tree option \<Rightarrow> tree option" where
  "make_dirs H [] o' = (case o' of
       None \<Rightarrow> Some (TDir [])
     | Some t \<Rightarrow> (case resolve H t of Some (TDir _) \<Rightarrow> Some t | _ \<Rightarrow> None))"
| "make_dirs H (x # p) None = Option.bind (make_dirs H p None) (\<lambda>t. Some (TDir [(x, t)]))"
| "make_dirs H (x # p) (Some (TDir es)) =
     Option.bind (make_dirs H p (map_of es x)) (\<lambda>t. Some (TDir (bt_insert x t es)))"
| "make_dirs H (x # p) (Some t) =
     (case resolve H t of Some (TDir es) \<Rightarrow> Option.bind (make_dirs H p (map_of es x)) (\<lambda>_. Some t) | _ \<Rightarrow> None)"

definition create_dir_all :: "FsHost \<Rightarrow> path \<Rightarrow> unit fs_op" where
  "create_dir_all H p s = (let s1 = s\<lparr>fs_calls := Suc (fs_calls s)\<rparr> in
     case make_dirs H p (fs_root s) of
       None \<Rightarrow> (Err ''Not a directory'', s1)
     | Some root \<Rightarrow>
         (case fh_fail H (fs_calls s) of
            None \<Rightarrow> (Ok (), s1\<lparr>fs_root := Some root\<rparr>)
          | Some e \<Rightarrow> (Err e, case fh_cut H (fs_calls s) of
              None \<Rightarrow> s1
            | Some k \<Rightarrow> (case make_dirs H (take k p) (fs_root s) of None \<Rightarrow> s1 | some \<Rightarrow> s1\<lparr>fs_root := some\<rparr>))))"

text \<open>\<open>create_dir_all\<close> of the parent, opening the lock file and taking the lock.\<close>

definition with_exclusive_lock :: "FsHost \<Rightarrow> path \<Rightarrow> 'a fs_op \<Rightarrow> 'a fs_op" where
  "with_exclusive_lock H p body =
     op_bind (create_dir_all H (butlast p)) (\<lambda>_.
     op_bind (open_lock H p) (\<lambda>_.
     op_bind (fs_call H) (\<lambda>_. body)))"

definition map_fs_err :: "(string \<Rightarrow> string) \<Rightarrow> 'a fs_op \<Rightarrow> 'a fs_op" where
  "map_fs_err f m s = (let p = m s in (map_err f (fst p), snd p))"

text \<open>\<open>Path::with_extension\<close> on the last name: a leading dot does not start an extension.\<close>

definition file_stem :: "string \<Rightarrow> string" where
  "file_stem name = (case rsplit_once CHR ''.'' name of Some (stem, _) \<Rightarrow> if stem = [] then name else stem | None \<Rightarrow> name)"

definition with_extension :: "path \<Rightarrow> string \<Rightarrow> path" where
  "with_extension p ext = butlast p @ [file_stem (last p) @ ''.'' @ ext]"

definition file_extension :: "string \<Rightarrow> string option" where
  "file_extension name = (case rsplit_once CHR ''.'' name of
       Some (stem, ext) \<Rightarrow> if stem = [] then None else Some ext | None \<Rightarrow> None)"

text \<open>\<open>Path::file_name\<close> of a relative path: its last component, when that is a name.\<close>

definition path_file_name :: "string \<Rightarrow> string option" where
  "path_file_name name = (let cs = filter (\<lambda>c. c \<noteq> [] \<and> c \<noteq> ''.'') (split_on CHR ''/'' name) in
     if cs = [] \<or> last cs = ''..'' then None else Some (last cs))"

section \<open>What the calls keep\<close>

lemma tripleD: "triple P m Q E \<Longrightarrow> P s \<Longrightarrow> case m s of (Ok x, s1) \<Rightarrow> Q x s1 | (_, s1) \<Rightarrow> E s1"
  by (simp add: triple_def)

text \<open>Properties of the tree alone.\<close>

lemma triple_fs_call: "triple (\<lambda>s. Q (fs_root s)) (fs_call H) (\<lambda>_ s. Q (fs_root s)) (\<lambda>s. Q (fs_root s))"
  by (rule tripleI) (simp add: fs_call_def split: option.split)

lemma triple_set_root: "(\<And>r. Q r \<Longrightarrow> R (f r)) \<Longrightarrow> triple (\<lambda>s. Q (fs_root s)) (set_root f) (\<lambda>_ s. R (fs_root s)) E"
  by (rule tripleI) (simp add: set_root_def)

lemma triple_fs_read:
  "triple (\<lambda>s. Q (fs_root s)) (fs_read H p)
     (\<lambda>c s. Q (fs_root s) \<and> Option.bind (node_at H p (fs_root s)) (resolve H) = Some (TFile c)) (\<lambda>s. Q (fs_root s))"
  unfolding fs_read_def
  by (rule triple_bind [OF triple_fs_call]) (auto intro!: tripleI simp: stat_def split: option.splits tree.splits)

lemma triple_read_text_fs:
  "triple (\<lambda>s. Q (fs_root s)) (fs_read_text H p)
     (\<lambda>c s. Q (fs_root s) \<and> Option.bind (node_at H p (fs_root s)) (resolve H) = Some (TFile c) \<and> valid_utf8 c)
     (\<lambda>s. Q (fs_root s))"
  unfolding fs_read_text_def
  by (rule triple_bind [OF triple_fs_read]) (auto intro!: triple_lift split: if_splits)

lemma triple_read_dir:
  "triple (\<lambda>s. Q (fs_root s)) (read_dir H p)
     (\<lambda>es s. Q (fs_root s) \<and> Option.bind (node_at H p (fs_root s)) (resolve H) = Some (TDir es)) (\<lambda>s. Q (fs_root s))"
  unfolding read_dir_def
  by (rule triple_bind [OF triple_fs_call]) (auto intro!: tripleI simp: stat_def split: option.splits tree.splits)

text \<open>A rename moves the node, or changes nothing.\<close>

lemma rename_moves:
  assumes "rename_path H (d @ [x]) (d @ [y]) s = (r, s')" and "real_dir d (fs_root s)" and "x \<noteq> y"
  shows "(r = Ok () \<and> node_at H (d @ [x]) (fs_root s) \<noteq> None \<and>
      node_at H (d @ [y]) (fs_root s') = node_at H (d @ [x]) (fs_root s) \<and> node_at H (d @ [x]) (fs_root s') = None) \<or>
    (r \<noteq> Ok () \<and> fs_root s' = fs_root s)"
proof -
  have ne: "\<not> prefix (d @ [x]) (d @ [y])" "\<not> prefix (d @ [y]) (d @ [x])" "d @ [x] \<noteq> d @ [y]" using assms(3) by auto
  have d: "real_dir d (alter (d @ [x]) f (fs_root s))" for f
    by (rule real_dir_alter [OF assms(2)]) (simp add: prefix_def)
  note moves = node_at_alter_same [OF assms(2), of H x] node_at_alter_same [OF d, of H y]
    node_at_alter_other [OF ne(2,1), of H]
  show ?thesis using assms(1) ne
    by (auto simp: rename_path_def op_bind_def fs_call_def set_root_def moves split: option.splits if_splits)
qed

section \<open>Changes below a path\<close>

lemma make_dirs_node: "make_dirs H p o' = Some t \<Longrightarrow> \<not> prefix q p \<Longrightarrow> node_at H' q (Some t) = node_at H' q o'"
proof (induction H p o' arbitrary: q t rule: make_dirs.induct)
  case (1 H o')
  then obtain y r where "q = y # r" by (cases q) auto
  with 1 show ?case by (auto split: option.splits tree.splits)
next
  case (2 H x p)
  then show ?case by (cases q) (auto simp: bind_eq_Some_conv)
next
  case (3 H x p es)
  then obtain y r where q: "q = y # r" by (cases q) auto
  show ?case
  proof (cases "y = x")
    case True
    with 3 q show ?thesis by (auto simp: bind_eq_Some_conv)
  qed (use 3 q in \<open>auto simp: bind_eq_Some_conv\<close>)
qed (auto simp: bind_eq_Some_conv split: option.splits tree.splits)

lemma make_dirs_keeps_real: "make_dirs H p o' = Some t \<Longrightarrow> real_dir q o' \<Longrightarrow> real_dir q (Some t)"
proof (induction H p o' arbitrary: q t rule: make_dirs.induct)
  case (1 H o')
  then show ?case by (auto split: option.splits tree.splits)
next
  case (2 H x p)
  then show ?case by (cases q) auto
next
  case (3 H x p es)
  then show ?case by (cases q) (auto simp: bind_eq_Some_conv)
qed (auto simp: bind_eq_Some_conv split: option.splits tree.splits)

text \<open>No link among the directories of a path, as far as they exist.\<close>

fun plain_path :: "path \<Rightarrow> tree option \<Rightarrow> bool" where
  "plain_path p (Some (TLink s)) = False"
| "plain_path (x # p) (Some (TDir es)) = plain_path p (map_of es x)"
| "plain_path p o' = True"

lemma plain_path_None [simp]: "plain_path p None"
  by (cases p) auto

lemma make_dirs_real: "make_dirs H p o' = Some t \<Longrightarrow> plain_path p o' \<Longrightarrow> real_dir p (Some t)"
proof (induction H p o' arbitrary: t rule: make_dirs.induct)
  case (1 H o')
  then show ?case by (auto simp: resolve_def split: option.splits tree.splits)
qed (auto simp: bind_eq_Some_conv resolve_def split: option.splits tree.splits)

text \<open>A property of the tree that no change at or below a path, and no new directory on the way to it, can break.\<close>

definition spares :: "path \<Rightarrow> (tree option \<Rightarrow> bool) \<Rightarrow> bool" where
  "spares s Q \<longleftrightarrow> (\<forall>p f r. prefix s p \<longrightarrow> Q r \<longrightarrow> Q (alter p f r)) \<and>
     (\<forall>H p r t. prefix s p \<or> prefix p s \<longrightarrow> Q r \<longrightarrow> make_dirs H p r = Some t \<longrightarrow> Q (Some t))"

lemma spares_node:
  assumes "\<not> prefix s q" and "\<not> prefix q s"
  shows "spares s (\<lambda>r. P (node_at H q r))"
proof -
  have below: "\<not> prefix p q \<and> \<not> prefix q p" if "prefix s p" for p
    using assms that prefix_order.trans prefix_same_cases by blast
  have "\<not> prefix q p" if "prefix p s" for p
    using assms(2) that prefix_order.trans by blast
  with below have "node_at H q (Some t) = node_at H q r"
      if "make_dirs H' p r = Some t" "prefix s p \<or> prefix p s" for H' p r t
    using make_dirs_node [OF that(1)] that(2) by blast
  then show ?thesis unfolding spares_def
    using below by (auto simp: node_at_alter_other)
qed

lemma spares_real: "\<not> prefix s q \<Longrightarrow> spares s (real_dir q)"
  unfolding spares_def using real_dir_alter make_dirs_keeps_real prefix_order.trans by blast

lemma spares_conj: "spares s P \<Longrightarrow> spares s Q \<Longrightarrow> spares s (\<lambda>r. P r \<and> Q r)"
  unfolding spares_def by blast

lemma spares_const: "spares s (\<lambda>_. P)"
  by (simp add: spares_def)

lemma spares_deeper:
  assumes "spares s Q" and "prefix s p"
  shows "spares p Q"
proof -
  have "prefix s q" if "prefix p q" for q using assms(2) that by (rule prefix_order.trans)
  moreover have "prefix s q \<or> prefix q s" if "prefix q p" for q using prefix_same_cases [OF assms(2) that] .
  ultimately show ?thesis using assms(1) unfolding spares_def by blast
qed

lemma spares_alter: "spares s Q \<Longrightarrow> Q r \<Longrightarrow> Q (alter s f r)"
  by (simp add: spares_def)

lemma spares_dirs: "spares s Q \<Longrightarrow> Q r \<Longrightarrow> make_dirs H s r = Some t \<Longrightarrow> Q (Some t)"
  unfolding spares_def by blast

lemma triple_write:
  "spares p Q \<Longrightarrow> triple (\<lambda>s. Q (fs_root s)) (write_file H p c) (\<lambda>_ s. Q (fs_root s)) (\<lambda>s. Q (fs_root s))"
  by (rule tripleI) (simp add: write_file_def Let_def set_root_def spares_alter split: option.split)

lemma triple_remove_below:
  "spares p Q \<Longrightarrow> triple (\<lambda>s. Q (fs_root s)) (remove_dir_all H p) (\<lambda>_ s. Q (fs_root s)) (\<lambda>s. Q (fs_root s))"
  by (rule tripleI) (simp add: remove_dir_all_def Let_def set_root_def spares_alter split: option.split tree.split)

lemma triple_create_below:
  assumes "spares p Q"
  shows "triple (\<lambda>s. Q (fs_root s)) (create_dir_all H p) (\<lambda>_ s. Q (fs_root s)) (\<lambda>s. Q (fs_root s))"
proof (rule tripleI)
  fix s :: FsState
  assume Q: "Q (fs_root s)"
  have cut: "Q (Some t)" if "make_dirs H (take k p) (fs_root s) = Some t" for k t
    using assms Q that take_is_prefix unfolding spares_def by blast
  show "case create_dir_all H p s of (Ok x, d1) \<Rightarrow> Q (fs_root d1) | (_, d1) \<Rightarrow> Q (fs_root d1)"
    using Q cut spares_dirs [OF assms Q] by (auto simp: create_dir_all_def Let_def split: option.splits)
qed

text \<open>The parent of a node is made: it is a directory of the tree, and the node is as it was.\<close>

lemma triple_create_parent:
  assumes "\<And>p r t. prefix p d \<Longrightarrow> Q r \<Longrightarrow> make_dirs H p r = Some t \<Longrightarrow> Q (Some t)"
  shows "triple (\<lambda>s. plain_path d (fs_root s) \<and> Q (fs_root s)) (create_dir_all H d)
    (\<lambda>_ s. real_dir d (fs_root s) \<and> Q (fs_root s)) (\<lambda>s. Q (fs_root s))"
proof (rule tripleI)
  fix s :: FsState
  assume Q: "plain_path d (fs_root s) \<and> Q (fs_root s)"
  have made: "real_dir d (Some t) \<and> Q (Some t)" if "make_dirs H d (fs_root s) = Some t" for t
    using that Q make_dirs_real assms by blast
  have cut: "Q (Some t)" if "make_dirs H (take k d) (fs_root s) = Some t" for k t
    using assms [OF take_is_prefix _ that] Q by blast
  show "case create_dir_all H d s of (Ok x, d1) \<Rightarrow> real_dir d (fs_root d1) \<and> Q (fs_root d1) | (_, d1) \<Rightarrow> Q (fs_root d1)"
    using Q made cut by (auto simp: create_dir_all_def Let_def split: option.splits)
qed

text \<open>Renaming and removing a sibling.\<close>

lemma triple_rename:
  assumes "x \<noteq> y" and "spares (d @ [x]) F" and "spares (d @ [y]) F"
  shows "triple (\<lambda>s. real_dir d (fs_root s) \<and> node_at H (d @ [x]) (fs_root s) = a \<and> node_at H (d @ [y]) (fs_root s) = b \<and> F (fs_root s))
    (rename_path H (d @ [x]) (d @ [y]))
    (\<lambda>_ s. real_dir d (fs_root s) \<and> node_at H (d @ [x]) (fs_root s) = None \<and> node_at H (d @ [y]) (fs_root s) = a \<and> F (fs_root s))
    (\<lambda>s. real_dir d (fs_root s) \<and> node_at H (d @ [x]) (fs_root s) = a \<and> node_at H (d @ [y]) (fs_root s) = b \<and> F (fs_root s))"
proof (rule tripleI)
  fix s :: FsState
  assume P: "real_dir d (fs_root s) \<and> node_at H (d @ [x]) (fs_root s) = a \<and> node_at H (d @ [y]) (fs_root s) = b \<and> F (fs_root s)"
  obtain r s' where run: "rename_path H (d @ [x]) (d @ [y]) s = (r, s')"
    by (cases "rename_path H (d @ [x]) (d @ [y]) s")
  have "real_dir d (alter (d @ [z]) f R)" if "real_dir d R" for z f R
    by (rule real_dir_alter [OF that]) (simp add: prefix_def)
  then have "real_dir d (fs_root s') \<and> F (fs_root s')"
    using run P spares_alter [OF assms(2)] spares_alter [OF assms(3)]
    by (auto simp: rename_path_def op_bind_def fs_call_def set_root_def split: option.splits if_splits)
  then show "case rename_path H (d @ [x]) (d @ [y]) s of
      (Ok u, s) \<Rightarrow> real_dir d (fs_root s) \<and> node_at H (d @ [x]) (fs_root s) = None \<and> node_at H (d @ [y]) (fs_root s) = a \<and> F (fs_root s)
    | (_, s) \<Rightarrow> real_dir d (fs_root s) \<and> node_at H (d @ [x]) (fs_root s) = a \<and> node_at H (d @ [y]) (fs_root s) = b \<and> F (fs_root s)"
    using rename_moves [OF run _ assms(1)] P by (cases r) (auto simp: run)
qed

lemma triple_remove_dir:
  assumes "spares (d @ [x]) F"
  shows "triple (\<lambda>s. real_dir d (fs_root s) \<and> node_at H (d @ [x]) (fs_root s) = a \<and> F (fs_root s))
    (remove_dir_all H (d @ [x]))
    (\<lambda>_ s. real_dir d (fs_root s) \<and> node_at H (d @ [x]) (fs_root s) = None \<and> F (fs_root s))
    (\<lambda>s. real_dir d (fs_root s) \<and> F (fs_root s) \<and>
       (node_at H (d @ [x]) (fs_root s) = a \<or> (\<exists>t n. a = Some t \<and> node_at H (d @ [x]) (fs_root s) = fh_rest H n t)))"
proof (rule tripleI)
  fix s :: FsState
  assume P: "real_dir d (fs_root s) \<and> node_at H (d @ [x]) (fs_root s) = a \<and> F (fs_root s)"
  have "real_dir d (alter (d @ [x]) f (fs_root s))" for f
    using P by (intro real_dir_alter) (simp_all add: prefix_def)
  then show "case remove_dir_all H (d @ [x]) s of
      (Ok u, s) \<Rightarrow> real_dir d (fs_root s) \<and> node_at H (d @ [x]) (fs_root s) = None \<and> F (fs_root s)
    | (_, s) \<Rightarrow> real_dir d (fs_root s) \<and> F (fs_root s) \<and>
       (node_at H (d @ [x]) (fs_root s) = a \<or> (\<exists>t n. a = Some t \<and> node_at H (d @ [x]) (fs_root s) = fh_rest H n t))"
    using P spares_alter [OF assms] node_at_alter_same [of d "fs_root s" H x]
    by (auto simp: remove_dir_all_def Let_def set_root_def split: option.split tree.split)
qed

lemma plain_path_alter: "plain_path q root \<Longrightarrow> \<not> prefix p q \<Longrightarrow> plain_path q (alter p f root)"
proof (induction p f root arbitrary: q rule: alter.induct)
  case (2 x p f es)
  show ?case
  proof (cases q)
    case (Cons y q')
    show ?thesis
    proof (cases "y = x")
      case True
      then have "\<not> prefix p q'" using 2(3) by (simp add: Cons)
      moreover from this have "p \<noteq> []" by auto
      ultimately show ?thesis using 2(1) [of q'] 2(2) True
        by (cases "map_of es x"; cases "alter p f (map_of es x)") (auto simp: Cons)
    next
      case False
      then show ?thesis using 2(2) by (cases "alter p f (map_of es x)") (auto simp: Cons)
    qed
  qed simp
qed auto

lemma make_dirs_plain: "make_dirs H p o' = Some t \<Longrightarrow> plain_path q o' \<Longrightarrow> plain_path q (Some t)"
proof (induction H p o' arbitrary: q t rule: make_dirs.induct)
  case (1 H o')
  then show ?case by (cases q) (auto split: option.splits tree.splits)
next
  case (2 H x p)
  then show ?case by (cases q) (auto simp: bind_eq_Some_conv)
next
  case (3 H x p es)
  then show ?case by (cases q) (auto simp: bind_eq_Some_conv)
qed (auto simp: bind_eq_Some_conv split: option.splits tree.splits)

lemma spares_plain: "\<not> prefix s q \<Longrightarrow> spares s (plain_path q)"
  unfolding spares_def using plain_path_alter make_dirs_plain prefix_order.trans by blast

section \<open>Operations that stay below some paths\<close>

definition within :: "path set \<Rightarrow> 'a fs_op \<Rightarrow> bool" where
  "within S m \<longleftrightarrow> (\<forall>Q. (\<forall>p \<in> S. spares p Q) \<longrightarrow> triple (\<lambda>s. Q (fs_root s)) m (\<lambda>_ s. Q (fs_root s)) (\<lambda>s. Q (fs_root s)))"

definition below :: "path set \<Rightarrow> path \<Rightarrow> bool" where
  "below S p \<longleftrightarrow> (\<exists>q \<in> S. prefix q p)"

named_theorems within_intros

lemma withinD:
  "within S m \<Longrightarrow> (\<And>p. p \<in> S \<Longrightarrow> spares p Q) \<Longrightarrow>
   triple (\<lambda>s. Q (fs_root s)) m (\<lambda>_ s. Q (fs_root s)) (\<lambda>s. Q (fs_root s))"
  by (simp add: within_def)

lemma below_spares: "below S p \<Longrightarrow> \<forall>q \<in> S. spares q Q \<Longrightarrow> spares p Q"
  unfolding below_def using spares_deeper by blast

lemma within_bind [within_intros]: "within S m \<Longrightarrow> (\<And>x. within S (f x)) \<Longrightarrow> within S (op_bind m f)"
  unfolding within_def by (blast intro: triple_bind)

lemma within_lift [within_intros]: "within S (op_lift r)"
  unfolding within_def by (simp add: triple_def op_lift_def split: outcome.split)

lemma within_ignore [within_intros]: "within S m \<Longrightarrow> within S (ignore_result m)"
  unfolding within_def by (blast intro: triple_ignore)

lemma within_call [within_intros]: "within S (fs_call H)"
  unfolding within_def by (simp add: triple_fs_call)

lemma within_read [within_intros]: "within S (fs_read H p)" "within S (fs_read_text H p)" "within S (read_dir H p)"
  unfolding within_def
  by (blast intro: triple_conseq [OF triple_fs_read] triple_conseq [OF triple_read_text_fs] triple_conseq [OF triple_read_dir])+

lemma within_write [within_intros]: "below S p \<Longrightarrow> within S (write_file H p c)"
  unfolding within_def using triple_write below_spares by blast

lemma within_remove_dir [within_intros]: "below S p \<Longrightarrow> within S (remove_dir_all H p)"
  unfolding within_def using triple_remove_below below_spares by blast

definition near :: "path set \<Rightarrow> path \<Rightarrow> bool" where
  "near S p \<longleftrightarrow> (\<exists>q \<in> S. prefix q p \<or> prefix p q)"

lemma within_create [within_intros]:
  assumes "near S p"
  shows "within S (create_dir_all H p)"
  unfolding within_def
proof (intro allI impI tripleI)
  fix Q and s :: FsState
  assume Q: "\<forall>p \<in> S. spares p Q" "Q (fs_root s)"
  obtain q where q: "q \<in> S" "prefix q p \<or> prefix p q" using assms by (auto simp: near_def)
  have made: "Q (Some t)" if "prefix p' p" "make_dirs H p' (fs_root s) = Some t" for p' t
  proof -
    have "prefix q p' \<or> prefix p' q" using q(2) that(1) prefix_order.trans prefix_same_cases by blast
    then show ?thesis using Q q(1) that(2) unfolding spares_def by blast
  qed
  then show "case create_dir_all H p s of (Ok x, d1) \<Rightarrow> Q (fs_root d1) | (_, d1) \<Rightarrow> Q (fs_root d1)"
    using Q(2) take_is_prefix [of _ p] by (auto simp: create_dir_all_def Let_def split: option.splits)
qed

lemma within_each [within_intros]: "(\<And>x. x \<in> set xs \<Longrightarrow> within S (f x)) \<Longrightarrow> within S (op_each f xs)"
  by (induction xs) (auto intro: within_intros)

lemma within_rename [within_intros]: "below S p \<Longrightarrow> below S q \<Longrightarrow> within S (rename_path H p q)"
proof -
  assume b: "below S p" "below S q"
  have "triple (\<lambda>s. Q (fs_root s)) (rename_path H p q) (\<lambda>_ s. Q (fs_root s)) (\<lambda>s. Q (fs_root s))" if "\<forall>p \<in> S. spares p Q" for Q
    unfolding rename_path_def
    by (rule triple_bind [OF triple_fs_call], rule tripleI)
      (use spares_alter [OF below_spares [OF b(1) that]] spares_alter [OF below_spares [OF b(2) that]] in
        \<open>auto simp: set_root_def split: option.splits if_splits\<close>)
  then show ?thesis by (simp add: within_def)
qed

lemma within_remove_file [within_intros]: "below S p \<Longrightarrow> within S (remove_file H p)"
  unfolding within_def remove_file_def
  by (intro allI impI triple_bind [OF triple_fs_call] tripleI)
    (auto simp: set_root_def spares_alter [OF below_spares] split: option.split tree.split)

lemma within_open_lock [within_intros]: "below S p \<Longrightarrow> within S (open_lock H p)"
  unfolding within_def open_lock_def
  by (intro allI impI triple_bind [OF triple_fs_call] tripleI) (auto simp: set_root_def spares_alter [OF below_spares])

lemma within_err [within_intros]: "within S m \<Longrightarrow> within S (map_fs_err f m)"
  unfolding within_def triple_def map_fs_err_def Let_def
  by (fastforce split: prod.splits outcome.splits)

text \<open>An operation that looks at the state before it chooses what to do.\<close>

lemma withinI: "(\<And>s. within S (m s)) \<Longrightarrow> within S (\<lambda>s. m s s)"
  by (simp add: within_def triple_def)

lemma within_pure: "within S (\<lambda>s. (f s, s))"
  by (simp add: within_def triple_def split: outcome.split)

lemma within_lock [within_intros]:
  "near S (butlast p) \<Longrightarrow> below S p \<Longrightarrow> within S body \<Longrightarrow> within S (with_exclusive_lock H p body)"
  unfolding with_exclusive_lock_def by (intro within_intros)

lemma belowI: "q \<in> S \<Longrightarrow> prefix q p \<Longrightarrow> below S p"
  by (auto simp: below_def)

lemma nearI: "q \<in> S \<Longrightarrow> prefix q p \<or> prefix p q \<Longrightarrow> near S p"
  by (auto simp: near_def)

end
