(* ===== verification/Artifact_Tree.thy ===== *)
theory Artifact_Tree
  imports File_Tree Identity
begin

text \<open>
  Verified artifact trees (\<open>crates/nxr-task/src/artifact.rs\<close>): the check of a tree
  against the digest its manifest declares, the publication of a verified copy
  over a destination, with its stage and backup, and the restore of a stored
  object.  SHA-256 and JSON are arguments.
\<close>

section \<open>The host\<close>

record ArtifactHost =
  ah_fs :: FsHost
  ah_parse :: "string \<Rightarrow> (string, JsonValue) outcome"
  ah_print :: "JsonValue \<Rightarrow> string"
  ah_digests :: Digests
  ah_pid :: nat

definition artifact_hex :: "ArtifactHost \<Rightarrow> string \<Rightarrow> string" where
  "artifact_hex H bytes = hex_digest (sha256 (ah_digests H) bytes)"

definition display_path :: "path \<Rightarrow> string" where
  "display_path p = join ''/'' p"

section \<open>The digest of a manifest\<close>

definition str_field :: "string \<Rightarrow> JsonValue \<Rightarrow> string option" where
  "str_field field body = Option.bind (json_get field body) json_str"

definition text_field :: "JsonValue \<Rightarrow> string \<Rightarrow> string" where
  "text_field body field = (case str_field field body of Some s \<Rightarrow> s | None \<Rightarrow> [])"

definition json_entries :: "JsonValue \<Rightarrow> (string \<times> JsonValue) list option" where
  "json_entries v = (case v of JObject obj \<Rightarrow> Some obj | _ \<Rightarrow> None)"

definition json_items :: "JsonValue \<Rightarrow> JsonValue list option" where
  "json_items v = (case v of JArray items \<Rightarrow> Some items | _ \<Rightarrow> None)"

definition toolchain_field :: "(string \<times> JsonValue) list option \<Rightarrow> string \<Rightarrow> string" where
  "toolchain_field toolchain field =
     (case Option.bind (Option.bind toolchain (\<lambda>obj. map_of obj field)) json_str of Some s \<Rightarrow> s | None \<Rightarrow> [])"

definition is_stargate_manifest :: "JsonValue \<Rightarrow> bool" where
  "is_stargate_manifest body \<longleftrightarrow>
     list_all (\<lambda>field. text_field body field \<noteq> [])
       [''commit'', ''profile'', ''wasm'', ''glue'', ''computeWasm'', ''computeGlue''] \<and>
     Option.bind (json_get ''toolchain'' body) json_entries \<noteq> None"

definition header_lines :: "JsonValue \<Rightarrow> (string, string list) outcome" where
  "header_lines body =
     (if is_stargate_manifest body then
        let toolchain = Option.bind (json_get ''toolchain'' body) json_entries
        in Ok [text_field body ''commit'', text_field body ''profile'', toolchain_field toolchain ''rustc'',
               toolchain_field toolchain ''wasmBindgen'', toolchain_field toolchain ''binaryen'']
      else if str_field ''digestAlgorithm'' body = Some ''nxr-artifact-v1'' then Ok [''nxr-artifact-v1'']
      else Err ''artifact manifest has no recognized digest algorithm'')"

definition digest_payload :: "string list \<Rightarrow> (string \<times> string) list \<Rightarrow> string" where
  "digest_payload header files =
     join [nl] (header @ concat (map (\<lambda>(name, digest). [name, digest]) (sort_key fst files))) @ [nl]"

definition canonical_digest :: "ArtifactHost \<Rightarrow> JsonValue \<Rightarrow> (string \<times> string) list \<Rightarrow> (string, string) outcome" where
  "canonical_digest H body files =
     bind (header_lines body) (\<lambda>header. Ok (artifact_hex H (digest_payload header files)))"

section \<open>Verification\<close>

definition sha256_file :: "ArtifactHost \<Rightarrow> path \<Rightarrow> string fs_op" where
  "sha256_file H p = op_bind (fs_read (ah_fs H) p) (\<lambda>c. op_lift (Ok (artifact_hex H c)))"

definition single_segment :: "string \<Rightarrow> bool" where
  "single_segment name \<longleftrightarrow>
     \<not> (name \<noteq> (case path_file_name name of Some f \<Rightarrow> f | None \<Rightarrow> []) \<or> name = [] \<or> name = ''.'' \<or> name = ''..'')"

definition listed_entry :: "JsonValue \<Rightarrow> (string, string \<times> string) outcome" where
  "listed_entry item =
     bind (ok_or ''bundle file entry is missing a name'' (str_field ''name'' item)) (\<lambda>name.
     if \<not> single_segment name then Err (''bundle file name is not a single path segment: '' @ name)
     else bind (ok_or (name @ '' has no sha256'') (str_field ''sha256'' item)) (\<lambda>expect. Ok (name, expect)))"

definition verify_file :: "ArtifactHost \<Rightarrow> path \<Rightarrow> JsonValue \<Rightarrow> (string \<times> string) fs_op" where
  "verify_file H dir item =
     op_bind (op_lift (listed_entry item)) (\<lambda>(name, expect).
     op_bind (\<lambda>s. (if is_symlink (ah_fs H) (dir @ [name]) s \<or> \<not> is_file (ah_fs H) (dir @ [name]) s
                   then Err (''manifest names a missing file: '' @ name) else Ok (), s)) (\<lambda>_.
     op_bind (sha256_file H (dir @ [name])) (\<lambda>actual.
     op_lift (if actual \<noteq> expect then Err (name @ '' sha256 '' @ actual @ '' does not match '' @ expect)
              else Ok (name, expect)))))"

fun verify_files :: "ArtifactHost \<Rightarrow> path \<Rightarrow> JsonValue list \<Rightarrow> (string \<times> string) list fs_op" where
  "verify_files H dir [] = op_lift (Ok [])"
| "verify_files H dir (item # items) =
     op_bind (verify_file H dir item) (\<lambda>x. op_bind (verify_files H dir items) (\<lambda>xs. op_lift (Ok (x # xs))))"

definition manifest_files :: "JsonValue \<Rightarrow> string \<Rightarrow> (string, JsonValue list) outcome" where
  "manifest_files body expected =
     (let digest = text_field body ''bundleSha256''
      in if digest \<noteq> expected then Err (''manifest digest '' @ digest @ '' does not match '' @ expected)
         else bind (ok_or ''bundle manifest has no files'' (Option.bind (json_get ''files'' body) json_items)) (\<lambda>files.
              if files = [] then Err ''bundle manifest has no files'' else Ok files))"

definition verify_tree :: "ArtifactHost \<Rightarrow> path \<Rightarrow> string \<Rightarrow> unit fs_op" where
  "verify_tree H dir expected =
     op_bind (map_fs_err (\<lambda>_. display_path dir @ '' has no manifest'') (fs_read_text (ah_fs H) (dir @ [''manifest.json'']))) (\<lambda>raw.
     op_bind (op_lift (map_err (\<lambda>e. ''invalid manifest: '' @ e) (ah_parse H raw))) (\<lambda>body.
     op_bind (op_lift (manifest_files body expected)) (\<lambda>files.
     op_bind (verify_files H dir files) (\<lambda>checked.
     op_bind (op_lift (canonical_digest H body checked)) (\<lambda>recomputed.
     op_lift (if recomputed \<noteq> text_field body ''bundleSha256''
              then Err (''recomputed digest '' @ recomputed @ '' does not match '' @ text_field body ''bundleSha256'')
              else Ok ()))))))"

text \<open>\<open>verify_tree(...).is_ok()\<close>, which keeps nothing of a failure.\<close>

definition verifies :: "ArtifactHost \<Rightarrow> path \<Rightarrow> string \<Rightarrow> bool fs_op" where
  "verifies H dir expected s = (let p = verify_tree H dir expected s in (Ok (fst p = Ok ()), snd p))"

section \<open>Publication\<close>

text \<open>
  A directory is copied entry by entry; a link stops the copy, and what is
  neither file, directory nor link is left out.
\<close>

fun copy_tree :: "FsHost \<Rightarrow> path \<Rightarrow> path \<Rightarrow> tree \<Rightarrow> unit fs_op"
  and copy_entries :: "FsHost \<Rightarrow> path \<Rightarrow> path \<Rightarrow> (string \<times> tree) list \<Rightarrow> unit fs_op" where
  "copy_tree H src dst t = (case t of
       TLink _ \<Rightarrow> op_lift (Err (''refusing symlink '' @ display_path src))
     | TDir es \<Rightarrow>
         op_bind (create_dir_all H dst) (\<lambda>_.
         op_bind (fs_call H) (\<lambda>_. copy_entries H src dst es))
     | TFile c \<Rightarrow> write_file H dst c
     | TOther \<Rightarrow> op_lift (Ok ()))"
| "copy_entries H src dst [] = op_lift (Ok ())"
| "copy_entries H src dst ((x, t) # es) =
     op_bind (copy_tree H (src @ [x]) (dst @ [x]) t) (\<lambda>_. copy_entries H src dst es)"

definition copy_dir :: "FsHost \<Rightarrow> path \<Rightarrow> path \<Rightarrow> unit fs_op" where
  "copy_dir H src dst =
     op_bind (create_dir_all H dst) (\<lambda>_.
     op_bind (read_dir H src) (\<lambda>es. copy_entries H src dst es))"

definition stage_path :: "ArtifactHost \<Rightarrow> path \<Rightarrow> path" where
  "stage_path H dst = with_extension dst (''stage-'' @ show_nat (ah_pid H))"

definition backup_path :: "ArtifactHost \<Rightarrow> path \<Rightarrow> path" where
  "backup_path H dst = with_extension dst (''backup-'' @ show_nat (ah_pid H))"

text \<open>The two renames and the second check, with their undo.\<close>

definition restore_backup :: "ArtifactHost \<Rightarrow> path \<Rightarrow> bool \<Rightarrow> unit fs_op" where
  "restore_backup H dst had_previous =
     (if had_previous then ignore_result (rename_path (ah_fs H) (backup_path H dst) dst) else op_lift (Ok ()))"

definition or_else :: "'a fs_op \<Rightarrow> (string \<Rightarrow> 'a fs_op) \<Rightarrow> 'a fs_op" where
  "or_else m f s = (case m s of (Err e, s1) \<Rightarrow> f e s1 | (r, s1) \<Rightarrow> (r, s1))"

definition replace_destination :: "ArtifactHost \<Rightarrow> path \<Rightarrow> string \<Rightarrow> bool \<Rightarrow> unit fs_op" where
  "replace_destination H dst digest had_previous =
     op_bind (or_else (rename_path (ah_fs H) (stage_path H dst) dst) (\<lambda>e.
       op_bind (restore_backup H dst had_previous) (\<lambda>_. op_lift (Err e)))) (\<lambda>_.
     op_bind (or_else (verify_tree H dst digest) (\<lambda>e.
       op_bind (ignore_result (remove_dir_all (ah_fs H) dst)) (\<lambda>_.
       op_bind (restore_backup H dst had_previous) (\<lambda>_. op_lift (Err e))))) (\<lambda>_.
     if had_previous then ignore_result (remove_dir_all (ah_fs H) (backup_path H dst)) else op_lift (Ok ())))"

definition publish_copy :: "ArtifactHost \<Rightarrow> path \<Rightarrow> path \<Rightarrow> string \<Rightarrow> unit fs_op" where
  "publish_copy H src dst digest =
     op_bind (create_dir_all (ah_fs H) (butlast dst)) (\<lambda>_.
     op_bind (ignore_result (remove_dir_all (ah_fs H) (stage_path H dst))) (\<lambda>_.
     op_bind (copy_dir (ah_fs H) src (stage_path H dst)) (\<lambda>_.
     op_bind (verify_tree H (stage_path H dst) digest) (\<lambda>_ s.
       let had_previous = fs_exists (ah_fs H) dst s in
       op_bind (if had_previous
                then op_bind (ignore_result (remove_dir_all (ah_fs H) (backup_path H dst))) (\<lambda>_.
                     rename_path (ah_fs H) dst (backup_path H dst))
                else op_lift (Ok ())) (\<lambda>_.
       replace_destination H dst digest had_previous) s))))"

definition publish_tree :: "ArtifactHost \<Rightarrow> path \<Rightarrow> path \<Rightarrow> string \<Rightarrow> unit fs_op" where
  "publish_tree H src dst digest s =
     (if fs_exists (ah_fs H) dst s
      then op_bind (verifies H dst digest) (\<lambda>ok. if ok then op_lift (Ok ()) else publish_copy H src dst digest) s
      else publish_copy H src dst digest s)"

definition restore_object :: "ArtifactHost \<Rightarrow> path \<Rightarrow> path \<Rightarrow> string \<Rightarrow> unit fs_op" where
  "restore_object H src dst digest =
     op_bind (verify_tree H src digest) (\<lambda>_ s.
       if fs_exists (ah_fs H) dst s
       then op_bind (verifies H dst digest) (\<lambda>ok. if ok then op_lift (Ok ()) else publish_tree H src dst digest) s
       else publish_tree H src dst digest s)"

section \<open>What verification establishes\<close>

text \<open>An item of the manifest, its name and digest, and the file of the tree they name.\<close>

definition item_verified :: "ArtifactHost \<Rightarrow> tree \<Rightarrow> JsonValue \<Rightarrow> string \<times> string \<Rightarrow> bool" where
  "item_verified H t item x \<longleftrightarrow> listed_entry item = Ok x \<and>
     (\<exists>c. map_of (entries_of (ah_fs H) t) (fst x) = Some (TFile c) \<and> artifact_hex H c = snd x)"

definition tree_verified :: "ArtifactHost \<Rightarrow> tree \<Rightarrow> string \<Rightarrow> bool" where
  "tree_verified H t d \<longleftrightarrow> (\<exists>raw body items checked.
     Option.bind (map_of (entries_of (ah_fs H) t) ''manifest.json'') (resolve (ah_fs H)) = Some (TFile raw) \<and>
     valid_utf8 raw \<and> ah_parse H raw = Ok body \<and> manifest_files body d = Ok items \<and>
     list_all2 (item_verified H t) items checked \<and> canonical_digest H body checked = Ok d)"

text \<open>Reading changes nothing.\<close>

definition reads :: "tree option \<Rightarrow> 'a fs_op \<Rightarrow> ('a \<Rightarrow> bool) \<Rightarrow> bool" where
  "reads root m Q \<longleftrightarrow> triple (\<lambda>s. fs_root s = root) m (\<lambda>x s. fs_root s = root \<and> Q x) (\<lambda>s. fs_root s = root)"

lemma reads_bind: "reads root m P \<Longrightarrow> (\<And>x. P x \<Longrightarrow> reads root (f x) Q) \<Longrightarrow> reads root (op_bind m f) Q"
  unfolding reads_def by (rule triple_bind, assumption) (auto simp: triple_def)

lemma reads_lift: "(\<And>x. r = Ok x \<Longrightarrow> Q x) \<Longrightarrow> reads root (op_lift r) Q"
  unfolding reads_def by (rule triple_lift) auto

lemma reads_conseq: "reads root m P \<Longrightarrow> (\<And>x. P x \<Longrightarrow> Q x) \<Longrightarrow> reads root m Q"
  unfolding reads_def by (erule triple_conseq) auto

lemma reads_fs_read: "reads root (fs_read H p) (\<lambda>c. Option.bind (node_at H p root) (resolve H) = Some (TFile c))"
  unfolding reads_def by (rule triple_conseq [OF triple_fs_read [of "\<lambda>r. r = root"]]) auto

lemma reads_text:
  "reads root (fs_read_text H p) (\<lambda>c. Option.bind (node_at H p root) (resolve H) = Some (TFile c) \<and> valid_utf8 c)"
  unfolding reads_def by (rule triple_conseq [OF triple_read_text_fs [of "\<lambda>r. r = root"]]) auto

lemma reads_err:
  assumes "reads root m P"
  shows "reads root (map_fs_err f m) P"
  unfolding reads_def
proof (rule tripleI)
  fix s :: FsState
  assume "fs_root s = root"
  then have "case m s of (Ok x, s1) \<Rightarrow> fs_root s1 = root \<and> P x | (_, s1) \<Rightarrow> fs_root s1 = root"
    using assms by (simp add: reads_def triple_def)
  then show "case map_fs_err f m s of (Ok x, s1) \<Rightarrow> fs_root s1 = root \<and> P x | (_, s1) \<Rightarrow> fs_root s1 = root"
    by (cases "m s"; cases "fst (m s)") (simp_all add: map_fs_err_def)
qed

lemma node_in: "node_at H (p @ [x]) root = Option.bind (node_at H p root) (\<lambda>t. map_of (entries_of H t) x)"
  by (cases "node_at H p root") (simp_all add: node_at_append)

lemma reads_file:
  "reads root (verify_file H dir item) (\<lambda>x. \<exists>t. node_at (ah_fs H) dir root = Some t \<and> item_verified H t item x)"
proof -
  have guard: "reads root (\<lambda>s. (if is_symlink (ah_fs H) (dir @ [name]) s \<or> \<not> is_file (ah_fs H) (dir @ [name]) s
      then Err e else Ok (), s)) (\<lambda>_. \<exists>c. node_at (ah_fs H) (dir @ [name]) root = Some (TFile c))" for name e
    unfolding reads_def
    by (rule tripleI)
      (auto simp: is_symlink_def is_file_def stat_def resolve_def split: option.splits tree.splits bind_splits)
  show ?thesis
    unfolding verify_file_def sha256_file_def
  proof (rule reads_bind [OF reads_lift [of _ "\<lambda>x. listed_entry item = Ok x"]], simp, safe)
    fix name expect
    assume item: "listed_entry item = Ok (name, expect)"
    show "reads root (op_bind (\<lambda>s. (if is_symlink (ah_fs H) (dir @ [name]) s \<or> \<not> is_file (ah_fs H) (dir @ [name]) s
          then Err (''manifest names a missing file: '' @ name) else Ok (), s)) (\<lambda>_.
        op_bind (op_bind (fs_read (ah_fs H) (dir @ [name])) (\<lambda>c. op_lift (Ok (artifact_hex H c)))) (\<lambda>actual.
        op_lift (if actual \<noteq> expect then Err (name @ '' sha256 '' @ actual @ '' does not match '' @ expect) else Ok (name, expect)))))
      (\<lambda>x. \<exists>t. node_at (ah_fs H) dir root = Some t \<and> item_verified H t item x)"
      by (intro reads_bind [OF guard] reads_bind [OF reads_bind [OF reads_fs_read reads_lift [where Q = "\<lambda>d. \<exists>c.
            Option.bind (node_at (ah_fs H) (dir @ [name]) root) (resolve (ah_fs H)) = Some (TFile c) \<and> d = artifact_hex H c"]]]
          reads_lift)
        (auto simp: item_verified_def item node_in resolve_def bind_eq_Some_conv split: if_splits)
  qed
qed

lemma reads_files:
  "reads root (verify_files H dir items)
     (\<lambda>xs. (items \<noteq> [] \<longrightarrow> node_at (ah_fs H) dir root \<noteq> None) \<and>
        (\<forall>t. node_at (ah_fs H) dir root = Some t \<longrightarrow> list_all2 (item_verified H t) items xs))"
proof (induction items)
  case Nil
  show ?case unfolding verify_files.simps by (rule reads_lift) auto
next
  case (Cons item items)
  show ?case unfolding verify_files.simps
    by (rule reads_bind [OF reads_file], rule reads_bind [OF Cons.IH], rule reads_lift) auto
qed

lemma reads_verify:
  "reads root (verify_tree H dir d) (\<lambda>_. \<exists>t. node_at (ah_fs H) dir root = Some t \<and> tree_verified H t d)"
proof -
  let ?M = "\<lambda>raw. Option.bind (node_at (ah_fs H) (dir @ [''manifest.json'']) root) (resolve (ah_fs H)) = Some (TFile raw) \<and> valid_utf8 raw"
  have nonempty: "items \<noteq> [] \<and> text_field body ''bundleSha256'' = d" if "manifest_files body d = Ok items" for body items
    using that by (auto simp: manifest_files_def Let_def bind_eq_Ok split: if_splits)
  show ?thesis
    unfolding verify_tree_def
  proof (rule reads_bind [OF reads_err [OF reads_text]],
      rule reads_bind [OF reads_lift [where Q = "\<lambda>b. ah_parse H _ = Ok b"]], simp,
      rule reads_bind [OF reads_lift [where Q = "\<lambda>i. manifest_files _ d = Ok i"]], simp,
      rule reads_bind [OF reads_files],
      rule reads_bind [OF reads_lift [where Q = "\<lambda>r. canonical_digest H _ _ = Ok r"]], simp, rule reads_lift)
    fix raw body items checked recomputed u
    assume raw: "?M raw" and body: "ah_parse H raw = Ok body" and items: "manifest_files body d = Ok items"
      and checked: "(items \<noteq> [] \<longrightarrow> node_at (ah_fs H) dir root \<noteq> None) \<and>
        (\<forall>t. node_at (ah_fs H) dir root = Some t \<longrightarrow> list_all2 (item_verified H t) items checked)"
      and digest: "canonical_digest H body checked = Ok recomputed"
      and ok: "(if recomputed \<noteq> text_field body ''bundleSha256''
          then Err (''recomputed digest '' @ recomputed @ '' does not match '' @ text_field body ''bundleSha256'') else Ok ()) = Ok u"
    obtain t where t: "node_at (ah_fs H) dir root = Some t" using checked nonempty [OF items] by blast
    have "Option.bind (map_of (entries_of (ah_fs H) t) ''manifest.json'') (resolve (ah_fs H)) = Some (TFile raw)"
      using raw by (simp add: node_in t)
    moreover have "recomputed = d" using ok nonempty [OF items] by (simp split: if_splits)
    ultimately show "\<exists>t. node_at (ah_fs H) dir root = Some t \<and> tree_verified H t d"
      using t raw body items checked digest unfolding tree_verified_def by blast
  qed
qed

end
