(* ===== verification/Artifact_Publish.thy ===== *)
theory Artifact_Publish
  imports Artifact_Tree
begin

text \<open>
  Publication under failures: what a destination, its stage and its backup hold
  after \<open>publish_tree\<close> whatever calls fail, so also when the process dies; and what
  trees of one digest have in common.
\<close>

section \<open>Copies stay below the stage\<close>

lemma triple_tree_copy:
  "spares dst Q \<Longrightarrow> triple (\<lambda>s. Q (fs_root s)) (copy_tree H src dst t) (\<lambda>_ s. Q (fs_root s)) (\<lambda>s. Q (fs_root s))"
  "spares dst Q \<Longrightarrow> triple (\<lambda>s. Q (fs_root s)) (copy_entries H src dst es) (\<lambda>_ s. Q (fs_root s)) (\<lambda>s. Q (fs_root s))"
proof (induction H src dst t and H src dst es rule: copy_tree_copy_entries.induct)
  case (1 H src dst t)
  then show ?case
    by (cases t) (auto intro!: triple_lift triple_write triple_bind [OF triple_create_below] triple_bind [OF triple_fs_call])
next
  case (3 H src dst x t es)
  then have "spares (dst @ [x]) Q" using spares_deeper [OF 3(3)] by simp
  then show ?case using 3 by (auto intro!: triple_bind)
qed (auto intro!: triple_lift)

lemma triple_copy_dir:
  assumes "spares dst Q"
  shows "triple (\<lambda>s. Q (fs_root s)) (copy_dir H src dst) (\<lambda>_ s. Q (fs_root s)) (\<lambda>s. Q (fs_root s))"
  unfolding copy_dir_def
proof (rule triple_bind [OF triple_create_below [OF assms]], rule triple_bind [OF triple_read_dir])
  fix es
  show "triple (\<lambda>s. Q (fs_root s) \<and> Option.bind (node_at H src (fs_root s)) (resolve H) = Some (TDir es))
      (copy_entries H src dst es) (\<lambda>_ s. Q (fs_root s)) (\<lambda>s. Q (fs_root s))"
    by (rule triple_conseq [OF triple_tree_copy(2) [OF assms]]) auto
qed

section \<open>Reading in the middle of changes\<close>

lemma triple_reads:
  assumes "\<And>root. Q root \<Longrightarrow> reads root m (P root)"
  shows "triple (\<lambda>s. Q (fs_root s)) m (\<lambda>x s. Q (fs_root s) \<and> P (fs_root s) x) (\<lambda>s. Q (fs_root s))"
proof (rule triple_pre)
  fix d :: FsState
  assume "Q (fs_root d)"
  then show "triple (\<lambda>x. x = d) m (\<lambda>x s. Q (fs_root s) \<and> P (fs_root s) x) (\<lambda>s. Q (fs_root s))"
    using assms [of "fs_root d"] unfolding reads_def by (auto elim!: triple_conseq)
qed

lemma triple_verify:
  "triple (\<lambda>s. Q (fs_root s)) (verify_tree H dir d)
     (\<lambda>_ s. Q (fs_root s) \<and> (\<exists>t. node_at (ah_fs H) dir (fs_root s) = Some t \<and> tree_verified H t d)) (\<lambda>s. Q (fs_root s))"
  by (rule triple_reads) (rule reads_verify)

lemma triple_verifies:
  "triple (\<lambda>s. Q (fs_root s)) (verifies H dir d)
     (\<lambda>ok s. Q (fs_root s) \<and> (ok \<longrightarrow> (\<exists>t. node_at (ah_fs H) dir (fs_root s) = Some t \<and> tree_verified H t d))) E"
proof (rule tripleI)
  fix s :: FsState
  assume "Q (fs_root s)"
  then have "case verify_tree H dir d s of
      (Ok x, s1) \<Rightarrow> Q (fs_root s1) \<and> (\<exists>t. node_at (ah_fs H) dir (fs_root s1) = Some t \<and> tree_verified H t d)
    | (_, s1) \<Rightarrow> Q (fs_root s1)"
    using triple_verify [of Q H dir d] by (simp add: triple_def)
  then show "case verifies H dir d s of
      (Ok ok, s1) \<Rightarrow> Q (fs_root s1) \<and> (ok \<longrightarrow> (\<exists>t. node_at (ah_fs H) dir (fs_root s1) = Some t \<and> tree_verified H t d))
    | (_, s1) \<Rightarrow> E s1"
    by (cases "verify_tree H dir d s"; cases "fst (verify_tree H dir d s)") (simp_all add: verifies_def)
qed

lemma triple_or_else:
  assumes "triple P m Q R" and "\<And>e. triple R (f e) Q E" and "\<And>s. R s \<Longrightarrow> E s"
  shows "triple P (or_else m f) Q E"
proof (rule tripleI)
  fix s
  assume "P s"
  then have "case m s of (Ok x, s1) \<Rightarrow> Q x s1 | (_, s1) \<Rightarrow> R s1" using assms(1) by (simp add: triple_def)
  then show "case or_else m f s of (Ok x, s1) \<Rightarrow> Q x s1 | (_, s1) \<Rightarrow> E s1"
    using assms(2,3) by (cases "m s"; cases "fst (m s)") (auto simp: or_else_def triple_def)
qed

section \<open>Publication\<close>

text \<open>The parent of a destination, and the names of the destination, its stage and its backup.\<close>

definition stage_name :: "ArtifactHost \<Rightarrow> string \<Rightarrow> string" where
  "stage_name H x = file_stem x @ ''.stage-'' @ show_nat (ah_pid H)"

definition backup_name :: "ArtifactHost \<Rightarrow> string \<Rightarrow> string" where
  "backup_name H x = file_stem x @ ''.backup-'' @ show_nat (ah_pid H)"

lemma stage_backup_paths [simp]:
  "stage_path H (D @ [x]) = D @ [stage_name H x]" "backup_path H (D @ [x]) = D @ [backup_name H x]"
  "stage_name H x \<noteq> backup_name H x"
  by (simp_all add: stage_path_def backup_path_def with_extension_def stage_name_def backup_name_def)

text \<open>
  After a failure: the destination is as it was; or it was not there, or is kept
  as the backup, and the destination is missing, verified, or what a failed
  removal left of a verified tree.
\<close>

definition publish_undone ::
  "ArtifactHost \<Rightarrow> path \<Rightarrow> string \<Rightarrow> string \<Rightarrow> tree option \<Rightarrow> tree option \<Rightarrow> bool" where
  "publish_undone H D x d prev root \<longleftrightarrow>
     node_at (ah_fs H) (D @ [x]) root = prev \<or>
     (Option.bind prev (resolve (ah_fs H)) = None \<or> node_at (ah_fs H) (D @ [backup_name H x]) root = prev) \<and>
     (node_at (ah_fs H) (D @ [x]) root = None \<or>
      (\<exists>t n. tree_verified H t d \<and> (node_at (ah_fs H) (D @ [x]) root = Some t \<or>
         node_at (ah_fs H) (D @ [x]) root = fh_rest (ah_fs H) n t)))"

definition published :: "ArtifactHost \<Rightarrow> path \<Rightarrow> string \<Rightarrow> tree option \<Rightarrow> bool" where
  "published H p d root \<longleftrightarrow> (\<exists>t. node_at (ah_fs H) p root = Some t \<and> tree_verified H t d)"

text \<open>A property that publication to a path does not touch.\<close>

definition beside :: "ArtifactHost \<Rightarrow> path \<Rightarrow> string \<Rightarrow> (tree option \<Rightarrow> bool) \<Rightarrow> bool" where
  "beside H D x F \<longleftrightarrow> spares (D @ [x]) F \<and> spares (D @ [stage_name H x]) F \<and> spares (D @ [backup_name H x]) F"

text \<open>Undoing: the backup goes back when it is there.\<close>

lemma triple_restore_backup:
  assumes "beside H D x F" and "x \<noteq> backup_name H x"
  shows "triple (\<lambda>s. real_dir D (fs_root s) \<and> F (fs_root s) \<and>
        (had \<and> node_at (ah_fs H) (D @ [backup_name H x]) (fs_root s) = prev \<or>
         \<not> had \<and> Option.bind prev (resolve (ah_fs H)) = None) \<and>
        node_at (ah_fs H) (D @ [x]) (fs_root s) = now \<and> publish_undone H D x d prev (fs_root s))
     (restore_backup H (D @ [x]) had)
     (\<lambda>_ s. F (fs_root s) \<and> publish_undone H D x d prev (fs_root s)) E"
proof (cases had)
  case True
  let ?b = "D @ [backup_name H x]" and ?x = "D @ [x]" and ?N = "node_at (ah_fs H)"
  have sp: "spares ?b F" "spares ?x F" using assms(1) by (simp_all add: beside_def)
  have "triple (\<lambda>s. real_dir D (fs_root s) \<and> ?N ?b (fs_root s) = prev \<and> ?N ?x (fs_root s) = now \<and> F (fs_root s))
      (rename_path (ah_fs H) ?b ?x)
      (\<lambda>_ s. F (fs_root s) \<and> (?N ?x (fs_root s) = prev \<or> ?N ?b (fs_root s) = prev \<and> ?N ?x (fs_root s) = now))
      (\<lambda>s. F (fs_root s) \<and> (?N ?x (fs_root s) = prev \<or> ?N ?b (fs_root s) = prev \<and> ?N ?x (fs_root s) = now))"
    by (rule triple_conseq [OF triple_rename [OF assms(2) [symmetric] sp]]) auto
  note t = triple_ignore [OF this]
  show ?thesis
  proof (rule triple_pre)
    fix s0 :: FsState
    assume P: "real_dir D (fs_root s0) \<and> F (fs_root s0) \<and>
        (had \<and> ?N ?b (fs_root s0) = prev \<or> \<not> had \<and> Option.bind prev (resolve (ah_fs H)) = None) \<and>
        ?N ?x (fs_root s0) = now \<and> publish_undone H D x d prev (fs_root s0)"
    have "publish_undone H D x d prev R"
      if "?N ?x R = prev \<or> ?N ?b R = prev \<and> ?N ?x R = now" for R
      using that P unfolding publish_undone_def by metis
    then show "triple (\<lambda>s. s = s0) (restore_backup H ?x had)
        (\<lambda>_ s. F (fs_root s) \<and> publish_undone H D x d prev (fs_root s)) E"
      using P True unfolding restore_backup_def by (auto intro!: triple_conseq [OF t])
  qed
next
  case False
  then show ?thesis by (auto simp: restore_backup_def triple_def op_lift_def)
qed

lemma triple_fail: "(\<And>s. P s \<Longrightarrow> E s) \<Longrightarrow> triple P (op_lift (Err e)) Q E"
  by (simp add: triple_def op_lift_def)

text \<open>The stage holds a verified tree and the previous destination is out of the way.\<close>

definition staged ::
  "ArtifactHost \<Rightarrow> path \<Rightarrow> string \<Rightarrow> string \<Rightarrow> tree option \<Rightarrow> bool \<Rightarrow> tree \<Rightarrow> tree option \<Rightarrow> bool" where
  "staged H D x d prev had t root \<longleftrightarrow>
     real_dir D root \<and> tree_verified H t d \<and> node_at (ah_fs H) (D @ [stage_name H x]) root = Some t \<and>
     (had \<and> node_at (ah_fs H) (D @ [x]) root = None \<and> node_at (ah_fs H) (D @ [backup_name H x]) root = prev \<or>
      \<not> had \<and> node_at (ah_fs H) (D @ [x]) root = prev \<and> Option.bind prev (resolve (ah_fs H)) = None)"

lemma spares_siblings:
  "x \<noteq> y \<Longrightarrow> spares (D @ [x]) (\<lambda>r. P (node_at H (D @ [y]) r))" "spares (D @ [x]) (real_dir D)"
  by (rule spares_node; auto) (rule spares_real, simp add: prefix_def)

lemma triple_replace:
  assumes "beside H D x F" and "x \<noteq> stage_name H x" and "x \<noteq> backup_name H x"
  shows "triple (\<lambda>s. staged H D x d prev had t (fs_root s) \<and> F (fs_root s)) (replace_destination H (D @ [x]) d had)
     (\<lambda>_ s. published H (D @ [x]) d (fs_root s) \<and> F (fs_root s))
     (\<lambda>s. publish_undone H D x d prev (fs_root s) \<and> F (fs_root s))"
proof -
  let ?b = "D @ [backup_name H x]" and ?x = "D @ [x]" and ?s = "D @ [stage_name H x]" and ?N = "node_at (ah_fs H)"
  have sp: "spares ?b F" "spares ?x F" "spares ?s F" using assms(1) by (simp_all add: beside_def)
  define K where "K R \<longleftrightarrow> F R \<and> tree_verified H t d \<and> (had \<and> ?N ?b R = prev \<or> \<not> had \<and> Option.bind prev (resolve (ah_fs H)) = None)" for R
  have Ks: "spares ?s K" "spares ?x K"
    unfolding K_def using sp assms(3) stage_backup_paths(3) [of H x]
    by (auto intro!: spares_conj spares_const spares_node [where P = "\<lambda>n. had \<and> n = prev \<or> \<not> had \<and> Option.bind prev (resolve (ah_fs H)) = None"]
        simp del: stage_backup_paths)
  let ?U = "\<lambda>s. publish_undone H D x d prev (fs_root s) \<and> F (fs_root s)"
  let ?A = "if had then None else prev"
  have undo: "triple (\<lambda>s. real_dir D (fs_root s) \<and> K (fs_root s) \<and> publish_undone H D x d prev (fs_root s))
      (op_bind (restore_backup H ?x had) (\<lambda>_. op_lift (Err e))) Q ?U" for e and Q :: "unit \<Rightarrow> FsState \<Rightarrow> bool"
  proof (rule triple_pre)
    fix s0 :: FsState
    assume P: "real_dir D (fs_root s0) \<and> K (fs_root s0) \<and> publish_undone H D x d prev (fs_root s0)"
    show "triple (\<lambda>s. s = s0) (op_bind (restore_backup H ?x had) (\<lambda>_. op_lift (Err e))) Q ?U"
      by (rule triple_bind [OF triple_conseq [OF triple_restore_backup [OF assms(1,3), of had prev "?N ?x (fs_root s0)" d]] triple_fail])
        (use P in \<open>auto simp: K_def\<close>)
  qed
  have first: "triple (\<lambda>s. staged H D x d prev had t (fs_root s) \<and> F (fs_root s)) (rename_path (ah_fs H) ?s ?x)
      (\<lambda>_ s. real_dir D (fs_root s) \<and> K (fs_root s) \<and> ?N ?x (fs_root s) = Some t \<and> tree_verified H t d)
      (\<lambda>s. real_dir D (fs_root s) \<and> K (fs_root s) \<and> publish_undone H D x d prev (fs_root s))"
    by (rule triple_conseq [OF triple_rename [OF assms(2) [symmetric] Ks, of "ah_fs H" "Some t" ?A]])
      (auto simp: staged_def K_def publish_undone_def split: if_splits)
  have verified: "triple (\<lambda>s. real_dir D (fs_root s) \<and> K (fs_root s) \<and> ?N ?x (fs_root s) = Some t \<and> tree_verified H t d)
      (verify_tree H ?x d)
      (\<lambda>_ s. real_dir D (fs_root s) \<and> K (fs_root s) \<and> published H ?x d (fs_root s))
      (\<lambda>s. real_dir D (fs_root s) \<and> K (fs_root s) \<and> ?N ?x (fs_root s) = Some t \<and> tree_verified H t d)"
    by (rule triple_conseq [OF triple_verify [of "\<lambda>R. real_dir D R \<and> K R \<and> ?N ?x R = Some t \<and> tree_verified H t d"]])
      (auto simp: published_def)
  have removed: "triple (\<lambda>s. real_dir D (fs_root s) \<and> K (fs_root s) \<and> ?N ?x (fs_root s) = Some t \<and> tree_verified H t d)
      (ignore_result (remove_dir_all (ah_fs H) ?x) :: unit fs_op)
      (\<lambda>_ s. real_dir D (fs_root s) \<and> K (fs_root s) \<and> publish_undone H D x d prev (fs_root s)) E" for E
  proof (rule triple_ignore)
    show "triple (\<lambda>s. real_dir D (fs_root s) \<and> K (fs_root s) \<and> ?N ?x (fs_root s) = Some t \<and> tree_verified H t d)
        (remove_dir_all (ah_fs H) ?x)
        (\<lambda>_ s. real_dir D (fs_root s) \<and> K (fs_root s) \<and> publish_undone H D x d prev (fs_root s))
        (\<lambda>s. real_dir D (fs_root s) \<and> K (fs_root s) \<and> publish_undone H D x d prev (fs_root s))"
      by (rule triple_conseq [OF triple_remove_dir [OF Ks(2), of "ah_fs H" "Some t"]]) (auto simp: K_def publish_undone_def)
  qed
  have final: "triple (\<lambda>s. real_dir D (fs_root s) \<and> K (fs_root s) \<and> published H ?x d (fs_root s))
      (if had then ignore_result (remove_dir_all (ah_fs H) ?b) else op_lift (Ok ()))
      (\<lambda>_ s. published H ?x d (fs_root s) \<and> F (fs_root s)) E" for E
  proof (cases had)
    case True
    have "spares ?b (\<lambda>R. published H ?x d R \<and> F R)"
      unfolding published_def using assms(3) sp(1)
      by (auto intro!: spares_conj spares_node [where P = "\<lambda>n. \<exists>t. n = Some t \<and> tree_verified H t d"])
    then show ?thesis using True
      by (auto intro!: triple_conseq [OF triple_ignore [OF triple_remove_below]] simp: K_def)
  qed (auto simp: triple_def op_lift_def K_def)
  show ?thesis
    unfolding replace_destination_def stage_backup_paths(1,2)
  proof (rule triple_bind [OF triple_or_else [OF first undo]], simp add: K_def,
      rule triple_bind [OF triple_or_else [OF verified]])
    show "triple (\<lambda>s. real_dir D (fs_root s) \<and> K (fs_root s) \<and> ?N ?x (fs_root s) = Some t \<and> tree_verified H t d)
        (op_bind (ignore_result (remove_dir_all (ah_fs H) ?x)) (\<lambda>_. op_bind (restore_backup H ?x had) (\<lambda>_. op_lift (Err e))))
        (\<lambda>(_ :: unit) s. real_dir D (fs_root s) \<and> K (fs_root s) \<and> published H ?x d (fs_root s)) ?U" for e
      by (rule triple_bind [OF removed undo])
    show "publish_undone H D x d prev (fs_root s) \<and> F (fs_root s)"
      if "real_dir D (fs_root s) \<and> K (fs_root s) \<and> ?N ?x (fs_root s) = Some t \<and> tree_verified H t d" for s :: FsState
      using that by (auto simp: K_def publish_undone_def)
  qed (rule final)
qed

text \<open>Where a destination may be published: its directories are no links, and its name is no stage or backup.\<close>

definition publishable :: "ArtifactHost \<Rightarrow> path \<Rightarrow> string \<Rightarrow> bool" where
  "publishable H D x \<longleftrightarrow> x \<noteq> stage_name H x \<and> x \<noteq> backup_name H x"

lemma triple_make_way:
  assumes "beside H D x F" and "publishable H D x" and "had \<longleftrightarrow> Option.bind prev (resolve (ah_fs H)) \<noteq> None"
  shows "triple (\<lambda>s. real_dir D (fs_root s) \<and> F (fs_root s) \<and> tree_verified H t d \<and>
        node_at (ah_fs H) (D @ [stage_name H x]) (fs_root s) = Some t \<and> node_at (ah_fs H) (D @ [x]) (fs_root s) = prev)
     (if had then op_bind (ignore_result (remove_dir_all (ah_fs H) (D @ [backup_name H x])))
        (\<lambda>_. rename_path (ah_fs H) (D @ [x]) (D @ [backup_name H x])) else op_lift (Ok ()))
     (\<lambda>_ s. staged H D x d prev had t (fs_root s) \<and> F (fs_root s))
     (\<lambda>s. publish_undone H D x d prev (fs_root s) \<and> F (fs_root s))"
proof (cases had)
  case True
  let ?b = "D @ [backup_name H x]" and ?x = "D @ [x]" and ?s = "D @ [stage_name H x]" and ?N = "node_at (ah_fs H)"
  have ne: "x \<noteq> backup_name H x" using assms(2) by (simp add: publishable_def)
  define G where "G R \<longleftrightarrow> F R \<and> tree_verified H t d \<and> ?N ?s R = Some t" for R
  define K where "K R \<longleftrightarrow> G R \<and> real_dir D R \<and> ?N ?x R = prev" for R
  have G: "spares ?b G" "spares ?x G"
    unfolding G_def using assms(1,2) stage_backup_paths(3) [of H x]
    by (auto simp: beside_def publishable_def simp del: stage_backup_paths
        intro!: spares_conj spares_const spares_node [where P = "\<lambda>n. n = Some t"])
  have K: "spares ?b K"
    unfolding K_def using G(1) ne
    by (auto intro!: spares_conj spares_siblings spares_node [where P = "\<lambda>n. n = prev"])
  have remove: "triple (\<lambda>s. K (fs_root s)) (ignore_result (remove_dir_all (ah_fs H) ?b)) (\<lambda>_ s. K (fs_root s)) E" for E
    by (rule triple_ignore [OF triple_remove_below [OF K]])
  have move: "triple (\<lambda>s. K (fs_root s)) (rename_path (ah_fs H) ?x ?b)
      (\<lambda>_ s. staged H D x d prev had t (fs_root s) \<and> F (fs_root s)) (\<lambda>s. publish_undone H D x d prev (fs_root s) \<and> F (fs_root s))"
  proof (rule triple_pre)
    fix s0 :: FsState
    assume "K (fs_root s0)"
    then show "triple (\<lambda>s. s = s0) (rename_path (ah_fs H) ?x ?b)
        (\<lambda>_ s. staged H D x d prev had t (fs_root s) \<and> F (fs_root s)) (\<lambda>s. publish_undone H D x d prev (fs_root s) \<and> F (fs_root s))"
      using True
      by (auto intro!: triple_conseq [OF triple_rename [OF ne G(2,1), of "ah_fs H" prev "?N ?b (fs_root s0)"]]
          simp: K_def G_def staged_def publish_undone_def)
  qed
  show ?thesis using True
    by (auto intro!: triple_conseq [OF triple_bind [OF remove move]] simp: K_def G_def)
next
  case False
  then show ?thesis using assms(3) by (auto simp: triple_def op_lift_def staged_def)
qed

lemma triple_publish_copy:
  assumes "beside H D x F" and "publishable H D x"
  shows "triple (\<lambda>s. plain_path D (fs_root s) \<and> node_at (ah_fs H) (D @ [x]) (fs_root s) = prev \<and> F (fs_root s))
     (publish_copy H src (D @ [x]) d)
     (\<lambda>_ s. published H (D @ [x]) d (fs_root s) \<and> F (fs_root s))
     (\<lambda>s. publish_undone H D x d prev (fs_root s) \<and> F (fs_root s))"
proof -
  let ?x = "D @ [x]" and ?s = "D @ [stage_name H x]" and ?N = "node_at (ah_fs H)"
  let ?E = "\<lambda>s. publish_undone H D x d prev (fs_root s) \<and> F (fs_root s)"
  define P where "P R \<longleftrightarrow> ?N ?x R = prev \<and> F R" for R
  define K where "K R \<longleftrightarrow> real_dir D R \<and> P R" for R
  have PE: "P R \<Longrightarrow> publish_undone H D x d prev R \<and> F R" for R by (simp add: P_def publish_undone_def)
  have dirs: "P (Some t)" if "prefix p D" "P r" "make_dirs (ah_fs H) p r = Some t" for p r t
  proof -
    have "\<not> prefix ?x p" using that(1) by (auto simp: prefix_def)
    moreover have "prefix p ?x" using that(1) by simp
    ultimately show ?thesis
      using that(2,3) assms(1) make_dirs_node [OF that(3), of ?x "ah_fs H"] unfolding P_def beside_def spares_def by metis
  qed
  have K: "spares ?s K"
    unfolding K_def P_def using assms
    by (auto simp: beside_def publishable_def intro!: spares_conj spares_siblings spares_node [where P = "\<lambda>n. n = prev"])
  have create: "triple (\<lambda>s. plain_path D (fs_root s) \<and> ?N ?x (fs_root s) = prev \<and> F (fs_root s))
      (create_dir_all (ah_fs H) D) (\<lambda>_ s. K (fs_root s)) ?E"
    by (rule triple_conseq [OF triple_create_parent [of D P, OF dirs]]) (auto simp: K_def PE P_def [symmetric])
  have clear: "triple (\<lambda>s. K (fs_root s)) (ignore_result (remove_dir_all (ah_fs H) ?s)) (\<lambda>_ s. K (fs_root s)) ?E"
    by (rule triple_ignore [OF triple_remove_below [OF K]])
  have copy: "triple (\<lambda>s. K (fs_root s)) (copy_dir (ah_fs H) src ?s) (\<lambda>_ s. K (fs_root s)) ?E"
    by (rule triple_conseq [OF triple_copy_dir [OF K]]) (auto simp: K_def PE)
  have check: "triple (\<lambda>s. K (fs_root s)) (verify_tree H ?s d) (\<lambda>_ s. K (fs_root s) \<and> published H ?s d (fs_root s)) ?E"
    by (rule triple_conseq [OF triple_verify [of K]]) (auto simp: K_def PE published_def)
  show ?thesis
    unfolding publish_copy_def stage_backup_paths(1,2) butlast_snoc
  proof (rule triple_bind [OF create], rule triple_bind [OF clear], rule triple_bind [OF copy], rule triple_bind [OF check], rule tripleI)
    fix s :: FsState
    assume s: "K (fs_root s) \<and> published H ?s d (fs_root s)"
    then obtain t where t: "?N ?s (fs_root s) = Some t" "tree_verified H t d" by (auto simp: published_def)
    define had where "had \<longleftrightarrow> fs_exists (ah_fs H) ?x s"
    have had: "had \<longleftrightarrow> Option.bind prev (resolve (ah_fs H)) \<noteq> None"
      using s by (simp add: had_def fs_exists_def stat_def K_def P_def)
    have "triple (\<lambda>s. real_dir D (fs_root s) \<and> F (fs_root s) \<and> tree_verified H t d \<and> ?N ?s (fs_root s) = Some t \<and> ?N ?x (fs_root s) = prev)
        (op_bind (if had then op_bind (ignore_result (remove_dir_all (ah_fs H) (D @ [backup_name H x])))
             (\<lambda>_. rename_path (ah_fs H) ?x (D @ [backup_name H x])) else op_lift (Ok ()))
           (\<lambda>_. replace_destination H ?x d had)) (\<lambda>_ s. published H ?x d (fs_root s) \<and> F (fs_root s)) ?E"
      by (rule triple_bind [OF triple_make_way [OF assms had] triple_replace [OF assms(1)]])
        (use assms(2) in \<open>simp_all add: publishable_def\<close>)
    then have run: "case op_bind (if had then op_bind (ignore_result (remove_dir_all (ah_fs H) (D @ [backup_name H x])))
             (\<lambda>_. rename_path (ah_fs H) ?x (D @ [backup_name H x])) else op_lift (Ok ()))
           (\<lambda>_. replace_destination H ?x d had) s of
        (Ok u, s) \<Rightarrow> published H ?x d (fs_root s) \<and> F (fs_root s) | (_, s) \<Rightarrow> ?E s"
      by (rule tripleD) (use s t in \<open>simp add: K_def P_def\<close>)
    show "case let had_previous = fs_exists (ah_fs H) ?x s in
          op_bind (if had_previous then op_bind (ignore_result (remove_dir_all (ah_fs H) (D @ [backup_name H x])))
             (\<lambda>_. rename_path (ah_fs H) ?x (D @ [backup_name H x])) else op_lift (Ok ()))
           (\<lambda>_. replace_destination H ?x d had_previous) s of
        (Ok u, s) \<Rightarrow> published H ?x d (fs_root s) \<and> F (fs_root s) | (_, s) \<Rightarrow> ?E s"
      using run unfolding had_def Let_def .
  qed
qed

lemma triple_publish_tree:
  assumes "beside H D x F" and "publishable H D x"
  shows "triple (\<lambda>s. plain_path D (fs_root s) \<and> node_at (ah_fs H) (D @ [x]) (fs_root s) = prev \<and> F (fs_root s))
     (publish_tree H src (D @ [x]) d)
     (\<lambda>_ s. published H (D @ [x]) d (fs_root s) \<and> F (fs_root s))
     (\<lambda>s. publish_undone H D x d prev (fs_root s) \<and> F (fs_root s))" (is "triple ?P _ ?Q ?E")
proof -
  define Q where "Q R \<longleftrightarrow> plain_path D R \<and> node_at (ah_fs H) (D @ [x]) R = prev \<and> F R" for R
  note copy = triple_publish_copy [OF assms, of prev src d, folded Q_def]
  have "triple (\<lambda>s. Q (fs_root s)) (op_bind (verifies H (D @ [x]) d) (\<lambda>ok. if ok then op_lift (Ok ()) else publish_copy H src (D @ [x]) d)) ?Q ?E"
  proof (rule triple_bind [OF triple_verifies])
    fix ok
    show "triple (\<lambda>s. Q (fs_root s) \<and> (ok \<longrightarrow> (\<exists>t. node_at (ah_fs H) (D @ [x]) (fs_root s) = Some t \<and> tree_verified H t d)))
        (if ok then op_lift (Ok ()) else publish_copy H src (D @ [x]) d) ?Q ?E"
    proof (cases ok)
      case True
      then show ?thesis by (auto simp: triple_def op_lift_def published_def Q_def)
    next
      case False
      then show ?thesis using copy by simp
    qed
  qed
  then show ?thesis using copy
    unfolding publish_tree_def by (auto simp: triple_def Q_def)
qed

section \<open>Publication is all or nothing\<close>

text \<open>
  C21: Publishing a tree over a destination, whatever calls fail and also when
  the process dies in the middle.  A success leaves a tree at the destination
  that verifies against the digest.  After a failure the destination is exactly
  as it was; or it was not there, or what was there is kept as the backup, and
  the destination is missing, verified, or what a failed removal left of a
  verified tree: never a partial copy.  In every case what lies outside the
  destination, its stage and its backup is untouched.
\<close>

theorem publish_tree_atomic:
  assumes "plain_path D (fs_root s)" and "publishable H D x" and "beside H D x F" and "F (fs_root s)"
    and "publish_tree H src (D @ [x]) d s = (r, s')"
  shows "(r = Ok () \<longrightarrow> published H (D @ [x]) d (fs_root s')) \<and>
    (r \<noteq> Ok () \<longrightarrow> publish_undone H D x d (node_at (ah_fs H) (D @ [x]) (fs_root s)) (fs_root s')) \<and> F (fs_root s')"
  using tripleD [OF triple_publish_tree [OF assms(3,2), where prev = "node_at (ah_fs H) (D @ [x]) (fs_root s)" and src = src and d = d],
    where s = s] assms(1,4,5)
  by (cases r) auto

section \<open>What a digest identifies\<close>

definition tree_manifest :: "ArtifactHost \<Rightarrow> tree \<Rightarrow> JsonValue option" where
  "tree_manifest H t = (case Option.bind (map_of (entries_of (ah_fs H) t) ''manifest.json'') (resolve (ah_fs H)) of
       Some (TFile raw) \<Rightarrow> (case ah_parse H raw of Ok body \<Rightarrow> Some body | _ \<Rightarrow> None)
     | _ \<Rightarrow> None)"

definition manifest_items :: "JsonValue \<Rightarrow> JsonValue list" where
  "manifest_items body = (case Option.bind (json_get ''files'' body) json_items of Some items \<Rightarrow> items | None \<Rightarrow> [])"

definition listed_names :: "JsonValue \<Rightarrow> string list" where
  "listed_names body = List.map_filter (str_field ''name'') (manifest_items body)"

text \<open>The contents of the files a manifest lists, by name.\<close>

definition listed_content :: "ArtifactHost \<Rightarrow> tree \<Rightarrow> string \<Rightarrow> string option" where
  "listed_content H t name = (case tree_manifest H t of
       None \<Rightarrow> None
     | Some body \<Rightarrow>
         if name \<notin> set (listed_names body) then None
         else (case map_of (entries_of (ah_fs H) t) name of Some (TFile c) \<Rightarrow> Some c | _ \<Rightarrow> None))"

text \<open>A manifest whose header and file names hold no newline.\<close>

definition one_line_manifest :: "JsonValue \<Rightarrow> bool" where
  "one_line_manifest body \<longleftrightarrow>
     (\<forall>header. header_lines body = Ok header \<longrightarrow> list_all (\<lambda>l. nl \<notin> set l) header) \<and>
     list_all (\<lambda>name. nl \<notin> set name) (listed_names body)"

lemma hex_no_newline: "nl \<notin> set (artifact_hex H c)"
proof -
  have "nl \<noteq> hex_char n" if "n < 16" for n
  proof
    assume "nl = hex_char n"
    then have "(of_char (hex_char n) :: nat) = 10" by (simp add: nl_def flip: \<open>nl = hex_char n\<close>)
    then show False using that by (simp add: hex_char_def split: if_splits)
  qed
  moreover have "of_char b div 16 < (16 :: nat)" "of_char b mod 16 < (16 :: nat)" for b :: char
  proof -
    have lt: "of_char b < (256 :: nat)" by simp
    then show "of_char b div 16 < (16 :: nat)" "of_char b mod 16 < (16 :: nat)" by (simp_all add: less_mult_imp_div_less)
  qed
  ultimately show ?thesis by (auto simp: artifact_hex_def hex_digest_def)
qed

lemma verified_files:
  assumes "list_all2 (item_verified H t) items checked"
  shows "map fst checked = List.map_filter (str_field ''name'') items"
    and "(name, digest) \<in> set checked \<Longrightarrow>
      \<exists>c. map_of (entries_of (ah_fs H) t) name = Some (TFile c) \<and> artifact_hex H c = digest"
proof -
  show "map fst checked = List.map_filter (str_field ''name'') items" using assms
    by (induction items checked)
      (auto simp: item_verified_def listed_entry_def bind_eq_Ok List.map_filter_simps split: option.splits if_splits
        elim!: ok_or.elims)
  show "(name, digest) \<in> set checked \<Longrightarrow>
      \<exists>c. map_of (entries_of (ah_fs H) t) name = Some (TFile c) \<and> artifact_hex H c = digest" using assms
    by (induction items checked) (auto simp: item_verified_def)
qed

lemma verified_parts:
  assumes "tree_verified H t d"
  obtains body checked header where "tree_manifest H t = Some body" "header_lines body = Ok header"
    "map fst checked = listed_names body"
    "\<And>name digest. (name, digest) \<in> set checked \<Longrightarrow>
      \<exists>c. map_of (entries_of (ah_fs H) t) name = Some (TFile c) \<and> artifact_hex H c = digest"
    "artifact_hex H (digest_payload header checked) = d"
proof -
  obtain raw body items checked where
    m: "Option.bind (map_of (entries_of (ah_fs H) t) ''manifest.json'') (resolve (ah_fs H)) = Some (TFile raw)"
    and body: "ah_parse H raw = Ok body" and items: "manifest_files body d = Ok items"
    and checked: "list_all2 (item_verified H t) items checked" and digest: "canonical_digest H body checked = Ok d"
    using assms by (auto simp: tree_verified_def)
  have "manifest_items body = items"
    using items by (cases "Option.bind (json_get ''files'' body) json_items")
      (auto simp: manifest_files_def Let_def manifest_items_def bind_eq_Ok split: if_splits)
  moreover obtain header where "header_lines body = Ok header" "artifact_hex H (digest_payload header checked) = d"
    using digest by (auto simp: canonical_digest_def bind_eq_Ok)
  ultimately show ?thesis
    using that [of body header checked] m body verified_files [OF checked] by (simp add: tree_manifest_def listed_names_def)
qed

lemma digest_payload_inj:
  assumes "digest_payload h xs = digest_payload k ys" and "length h = length k" and "h \<noteq> []"
    and "list_all (\<lambda>l. nl \<notin> set l) (h @ map fst xs @ map snd xs)" and "list_all (\<lambda>l. nl \<notin> set l) (k @ map fst ys @ map snd ys)"
  shows "h = k \<and> set xs = set ys"
proof -
  let ?pair = "\<lambda>(name, digest). [name, digest :: string]"
  have pairs: "concat (map ?pair as) = concat (map ?pair bs) \<Longrightarrow> as = bs" for as bs :: "(string \<times> string) list"
  proof (induction as arbitrary: bs)
    case (Cons a as)
    then show ?case by (cases a; cases bs) auto
  qed (case_tac bs, auto)
  have clean: "list_all P (concat (map ?pair (sort_key fst as))) \<longleftrightarrow> list_all P (map fst as) \<and> list_all P (map snd as)" for P as
  proof -
    have "list_all P (concat (map ?pair bs)) \<longleftrightarrow> list_all P (map fst bs) \<and> list_all P (map snd bs)" for bs
      by (induction bs) auto
    then show ?thesis by (simp only: list_all_iff set_map set_sort)
  qed
  have lines: "list_all (\<lambda>l. nl \<notin> set l) (h @ concat (map ?pair (sort_key fst xs)))"
    "list_all (\<lambda>l. nl \<notin> set l) (k @ concat (map ?pair (sort_key fst ys)))"
    using assms(4,5) by (simp_all only: list_all_append clean)
  have split: "split_on nl (join [nl] (l @ ls)) = l @ ls" if ne: "l \<noteq> []" and clean: "list_all (\<lambda>l. nl \<notin> set l) (l @ ls)" for l ls
  proof -
    obtain a as where "l @ ls = a # as" using ne by (cases l) auto
    then show ?thesis using clean by (simp only: split_on_join)
  qed
  have k: "k \<noteq> []" using assms(2,3) by auto
  have "h @ concat (map ?pair (sort_key fst xs)) = split_on nl (join [nl] (h @ concat (map ?pair (sort_key fst xs))))"
    by (rule split [OF assms(3) lines(1), symmetric])
  also have "join [nl] (h @ concat (map ?pair (sort_key fst xs))) = join [nl] (k @ concat (map ?pair (sort_key fst ys)))"
    using assms(1) by (simp only: digest_payload_def append_same_eq)
  also have "split_on nl \<dots> = k @ concat (map ?pair (sort_key fst ys))" by (rule split [OF k lines(2)])
  finally have "h @ concat (map ?pair (sort_key fst xs)) = k @ concat (map ?pair (sort_key fst ys))" .
  then have "h = k" "sort_key fst xs = sort_key fst ys" using assms(2) pairs by auto
  then show ?thesis by (metis set_sort)
qed

lemma header_length:
  "header_lines body = Ok header \<Longrightarrow> length header = (if is_stargate_manifest body then 5 else 1)"
  by (auto simp: header_lines_def Let_def split: if_splits)

text \<open>The texts whose hashes the check of a tree compares: its listed files and the payload of its digest.\<close>

definition listed_text :: "ArtifactHost \<Rightarrow> tree \<Rightarrow> string \<Rightarrow> string" where
  "listed_text H t name = (case map_of (entries_of (ah_fs H) t) name of Some (TFile c) \<Rightarrow> c | _ \<Rightarrow> [])"

definition tree_payload :: "ArtifactHost \<Rightarrow> tree \<Rightarrow> JsonValue \<Rightarrow> string" where
  "tree_payload H t body = (case header_lines body of
       Ok header \<Rightarrow> digest_payload header (map (\<lambda>name. (name, artifact_hex H (listed_text H t name))) (listed_names body))
     | _ \<Rightarrow> [])"

definition hashed_texts :: "ArtifactHost \<Rightarrow> tree \<Rightarrow> string list" where
  "hashed_texts H t = (case tree_manifest H t of
       None \<Rightarrow> [] | Some body \<Rightarrow> tree_payload H t body # map (listed_text H t) (listed_names body))"

lemma verified_payload:
  assumes "tree_verified H t d" and "tree_manifest H t = Some body"
  obtains header where "header_lines body = Ok header" and "artifact_hex H (tree_payload H t body) = d"
    and "\<And>name. name \<in> set (listed_names body) \<Longrightarrow>
      map_of (entries_of (ah_fs H) t) name = Some (TFile (listed_text H t name))"
proof -
  obtain xs h where x: "header_lines body = Ok h" "map fst xs = listed_names body"
    "\<And>name digest. (name, digest) \<in> set xs \<Longrightarrow>
      \<exists>c. map_of (entries_of (ah_fs H) t) name = Some (TFile c) \<and> artifact_hex H c = digest"
    "artifact_hex H (digest_payload h xs) = d"
    using verified_parts [OF assms(1)] assms(2) by (metis option.inject)
  have each: "map_of (entries_of (ah_fs H) t) name = Some (TFile (listed_text H t name))"
    "digest = artifact_hex H (listed_text H t name)" if "(name, digest) \<in> set xs" for name digest
    using x(3) [OF that] by (auto simp: listed_text_def)
  have "map (\<lambda>name. (name, artifact_hex H (listed_text H t name))) (map fst xs) = xs"
    using each(2) by (auto simp: comp_def intro!: map_idI)
  then have "tree_payload H t body = digest_payload h xs" by (simp add: tree_payload_def x(1,2))
  moreover have "map_of (entries_of (ah_fs H) t) name = Some (TFile (listed_text H t name))"
    if "name \<in> set (listed_names body)" for name
  proof -
    obtain digest where "(name, digest) \<in> set xs" using \<open>name \<in> set (listed_names body)\<close> unfolding x(2) [symmetric] by auto
    then show ?thesis by (rule each(1))
  qed
  ultimately show thesis using that x(1,4) by metis
qed

text \<open>
  C24: Two trees that verify against the same digest, with manifests of the same
  kind that hold no newline in their header fields and file names, list the
  same files with the same contents, or the check of one has hashed a text and the
  check of the other a different text to the same value: those two texts
  are a collision of the hash.
\<close>

theorem artifact_digest_identifies:
  assumes "tree_verified H t d" and "tree_verified H u d"
    and "tree_manifest H t = Some a" and "tree_manifest H u = Some b"
    and "one_line_manifest a" and "one_line_manifest b" and "is_stargate_manifest a = is_stargate_manifest b"
  shows "listed_content H t = listed_content H u \<or>
    (\<exists>x \<in> set (hashed_texts H t). \<exists>y \<in> set (hashed_texts H u). x \<noteq> y \<and> artifact_hex H x = artifact_hex H y)"
proof (rule disjCI)
  assume "\<not> (\<exists>x \<in> set (hashed_texts H t). \<exists>y \<in> set (hashed_texts H u). x \<noteq> y \<and> artifact_hex H x = artifact_hex H y)"
  then have apart: "x = y" if "x \<in> set (hashed_texts H t)" "y \<in> set (hashed_texts H u)" "artifact_hex H x = artifact_hex H y" for x y
    using that by blast
  obtain h where x: "header_lines a = Ok h" "artifact_hex H (tree_payload H t a) = d"
    "\<And>name. name \<in> set (listed_names a) \<Longrightarrow> map_of (entries_of (ah_fs H) t) name = Some (TFile (listed_text H t name))"
    by (rule verified_payload [OF assms(1,3)]) (rule that; assumption)
  obtain k where y: "header_lines b = Ok k" "artifact_hex H (tree_payload H u b) = d"
    "\<And>name. name \<in> set (listed_names b) \<Longrightarrow> map_of (entries_of (ah_fs H) u) name = Some (TFile (listed_text H u name))"
    by (rule verified_payload [OF assms(2,4)]) (rule that; assumption)
  let ?row = "\<lambda>v name. (name, artifact_hex H (listed_text H v name))"
  have "tree_payload H t a = tree_payload H u b"
    by (rule apart) (simp_all add: hashed_texts_def assms(3,4) x(2) y(2))
  then have payload: "digest_payload h (map (?row t) (listed_names a)) = digest_payload k (map (?row u) (listed_names b))"
    by (simp add: tree_payload_def x(1) y(1))
  have clean: "list_all (\<lambda>l. nl \<notin> set l) (g @ map fst (map (?row v) ns) @ map snd (map (?row v) ns))"
    if "list_all (\<lambda>l. nl \<notin> set l) g" "list_all (\<lambda>l. nl \<notin> set l) ns" for g ns v
    using that hex_no_newline [of H] by (auto simp: list_all_iff)
  have "list_all (\<lambda>l. nl \<notin> set l) h" "list_all (\<lambda>l. nl \<notin> set l) (listed_names a)"
    "list_all (\<lambda>l. nl \<notin> set l) k" "list_all (\<lambda>l. nl \<notin> set l) (listed_names b)"
    using assms(5,6) x(1) y(1) by (simp_all add: one_line_manifest_def)
  note lines = clean [OF this(1,2), of t] clean [OF this(3,4), of u]
  have length: "length h = length k" "h \<noteq> []"
    using header_length [OF x(1)] header_length [OF y(1)] assms(7) by (auto split: if_splits)
  from digest_payload_inj [OF payload length lines]
  have same: "?row t ` set (listed_names a) = ?row u ` set (listed_names b)" by (simp only: set_map)
  have names: "set (listed_names a) = set (listed_names b)"
    using arg_cong [OF same, of "image fst"] by (simp add: image_image)
  have "listed_text H t name = listed_text H u name" if name: "name \<in> set (listed_names a)" for name
  proof (rule apart)
    have "?row t name \<in> ?row u ` set (listed_names b)" using name unfolding same [symmetric] by (rule imageI)
    then show "artifact_hex H (listed_text H t name) = artifact_hex H (listed_text H u name)" by auto
  qed (use name names in \<open>simp_all add: hashed_texts_def assms(3,4)\<close>)
  then have "map_of (entries_of (ah_fs H) t) name = map_of (entries_of (ah_fs H) u) name" if "name \<in> set (listed_names a)" for name
    using x(3) [of name] y(3) [of name] that names by simp
  then show "listed_content H t = listed_content H u"
    using names assms(3,4) by (auto simp: listed_content_def fun_eq_iff)
qed

definition example_fs :: FsHost where
  "example_fs = \<lparr>fh_fail = (\<lambda>n. if 11 \<le> n then Some ''stopped'' else None), fh_cut = (\<lambda>_. None), fh_rest = (\<lambda>_ t. Some t),
     fh_target = (\<lambda>_. None), fh_modified = (\<lambda>_. 0)\<rparr>"

definition one_file_manifest :: "string \<Rightarrow> string \<Rightarrow> JsonValue" where
  "one_file_manifest x d = JObject
     [(''bundleSha256'', JString d), (''digestAlgorithm'', JString ''nxr-artifact-v1''),
      (''files'', JArray [JObject [(''name'', JString ''a''), (''sha256'', JString x)]])]"

definition example_manifest :: JsonValue where
  "example_manifest = one_file_manifest (hex_digest ''x'')
     (hex_digest (digest_payload [''nxr-artifact-v1''] [(''a'', hex_digest ''x'')]))"

definition example_artifacts :: ArtifactHost where
  "example_artifacts = \<lparr>ah_fs = example_fs, ah_parse = (\<lambda>raw. if raw = ''m'' then Ok example_manifest else Err ''no json''),
     ah_print = (\<lambda>_. []), ah_digests = \<lparr>sha256 = (\<lambda>s. s), json_scalar = (\<lambda>_. [])\<rparr>, ah_pid = 7\<rparr>"

definition example_digest :: string where
  "example_digest = hex_digest (digest_payload [''nxr-artifact-v1''] [(''a'', hex_digest ''x'')])"

definition example_tree :: "(string \<times> tree) list \<Rightarrow> tree" where
  "example_tree unlisted = TDir ([(''a'', TFile ''x''), (''manifest.json'', TFile ''m'')] @ unlisted)"

lemma one_file_header: "header_lines (one_file_manifest x d) = Ok [''nxr-artifact-v1'']"
  "\<not> is_stargate_manifest (one_file_manifest x d)"
  by (simp_all add: header_lines_def is_stargate_manifest_def one_file_manifest_def text_field_def str_field_def json_str_def)

lemma one_file_names: "listed_names (one_file_manifest x d) = [''a'']"
  by (simp add: listed_names_def manifest_items_def one_file_manifest_def json_items_def str_field_def json_str_def
        List.map_filter_simps)

lemma one_file_verified:
  assumes "ah_parse H ''m'' = Ok (one_file_manifest x d)" and "x = artifact_hex H ''x''"
    and "d = artifact_hex H (digest_payload [''nxr-artifact-v1''] [(''a'', x)])"
  shows "tree_verified H (example_tree unlisted) d"
    and "tree_manifest H (example_tree unlisted) = Some (one_file_manifest x d)"
proof -
  have "path_file_name ''a'' = Some ''a''" by code_simp
  then have entry: "listed_entry (JObject [(''name'', JString ''a''), (''sha256'', JString x)]) = Ok (''a'', x)"
    by (simp add: listed_entry_def str_field_def json_str_def single_segment_def)
  have files: "manifest_files (one_file_manifest x d) d = Ok [JObject [(''name'', JString ''a''), (''sha256'', JString x)]]"
    by (simp add: manifest_files_def one_file_manifest_def text_field_def str_field_def json_str_def json_items_def)
  have "item_verified H (example_tree unlisted) (JObject [(''name'', JString ''a''), (''sha256'', JString x)]) (''a'', x)"
    unfolding item_verified_def entry by (simp add: example_tree_def assms(2))
  moreover have "canonical_digest H (one_file_manifest x d) [(''a'', x)] = Ok d"
    by (simp add: canonical_digest_def one_file_header assms(3))
  moreover have "valid_utf8 ''m''" by code_simp
  ultimately show "tree_verified H (example_tree unlisted) d"
    unfolding tree_verified_def using files assms(1)
    by (intro exI [of _ "''m''"] exI [of _ "one_file_manifest x d"] exI [of _ "[(''a'', x)]"]
        exI [of _ "[JObject [(''name'', JString ''a''), (''sha256'', JString x)]]"])
      (simp add: example_tree_def resolve_def)
  show "tree_manifest H (example_tree unlisted) = Some (one_file_manifest x d)"
    by (simp add: tree_manifest_def example_tree_def assms(1) resolve_def)
qed

text \<open>A checksum of 32 bytes, which has collisions, on a tree that is verified with it.\<close>

definition checksum :: "string \<Rightarrow> string" where
  "checksum s = replicate 31 (CHR ''0'') @ [char_of (sum_list (map of_char s) mod 256 :: nat)]"

definition checksum_manifest :: JsonValue where
  "checksum_manifest = one_file_manifest (hex_digest (checksum ''x''))
     (hex_digest (checksum (digest_payload [''nxr-artifact-v1''] [(''a'', hex_digest (checksum ''x''))])))"

definition checksum_artifacts :: ArtifactHost where
  "checksum_artifacts = \<lparr>ah_fs = example_fs, ah_parse = (\<lambda>raw. if raw = ''m'' then Ok checksum_manifest else Err ''no json''),
     ah_print = (\<lambda>_. []), ah_digests = \<lparr>sha256 = checksum, json_scalar = (\<lambda>_. [])\<rparr>, ah_pid = 7\<rparr>"

lemma checksum_collides: "checksum ''ab'' = checksum ''ba''" "length (checksum s) = 32"
  by (simp_all add: checksum_def)

lemma checksum_verified:
  "tree_verified checksum_artifacts (example_tree unlisted)
     (hex_digest (checksum (digest_payload [''nxr-artifact-v1''] [(''a'', hex_digest (checksum ''x''))])))"
  "tree_manifest checksum_artifacts (example_tree unlisted) = Some checksum_manifest"
proof -
  have parse: "ah_parse checksum_artifacts ''m'' = Ok checksum_manifest" and hex: "artifact_hex checksum_artifacts c = hex_digest (checksum c)" for c
    by (simp_all add: checksum_artifacts_def artifact_hex_def)
  note v = one_file_verified [OF parse [unfolded checksum_manifest_def] hex [symmetric] hex [symmetric]]
  show "tree_verified checksum_artifacts (example_tree unlisted)
     (hex_digest (checksum (digest_payload [''nxr-artifact-v1''] [(''a'', hex_digest (checksum ''x''))])))"
    by (rule v(1))
  show "tree_manifest checksum_artifacts (example_tree unlisted) = Some checksum_manifest"
    unfolding checksum_manifest_def by (rule v(2))
qed

theorem artifact_digest_identifies_witness:
  "listed_content checksum_artifacts (example_tree [(''z'', TFile ''y'')]) = listed_content checksum_artifacts (example_tree []) \<and>
   example_tree [(''z'', TFile ''y'')] \<noteq> example_tree [] \<and> listed_content checksum_artifacts (example_tree []) ''a'' = Some ''x''"
proof (intro conjI)
  let ?H = checksum_artifacts
  let ?p = "digest_payload [''nxr-artifact-v1''] [(''a'', hex_digest (checksum ''x''))]"
  have line: "one_line_manifest checksum_manifest"
    by (simp add: one_line_manifest_def checksum_manifest_def one_file_header one_file_names nl_def)
  have hex: "artifact_hex ?H c = hex_digest (checksum c)" for c by (simp add: checksum_artifacts_def artifact_hex_def)
  have texts: "hashed_texts ?H (example_tree unlisted) = [?p, ''x'']" for unlisted
    unfolding hashed_texts_def checksum_verified(2)
    by (simp add: checksum_manifest_def tree_payload_def one_file_header one_file_names listed_text_def example_tree_def hex)
  have "artifact_hex ?H ?p \<noteq> artifact_hex ?H ''x''" unfolding hex by code_simp
  then have "\<not> (\<exists>x \<in> set (hashed_texts ?H (example_tree [(''z'', TFile ''y'')])). \<exists>y \<in> set (hashed_texts ?H (example_tree [])).
      x \<noteq> y \<and> artifact_hex ?H x = artifact_hex ?H y)" unfolding texts by auto
  with artifact_digest_identifies [OF checksum_verified(1) checksum_verified(1) checksum_verified(2) checksum_verified(2) line line refl]
  show "listed_content ?H (example_tree [(''z'', TFile ''y'')]) = listed_content ?H (example_tree [])" by blast
  show "example_tree [(''z'', TFile ''y'')] \<noteq> example_tree []" by (simp add: example_tree_def)
  show "listed_content ?H (example_tree []) ''a'' = Some ''x''"
    by (simp add: listed_content_def checksum_verified(2)) (simp add: checksum_manifest_def one_file_names example_tree_def)
qed

text \<open>A name that holds a newline lists one file where two others give the same digest.\<close>

lemma newline_names_collide:
  "digest_payload header [(''a'' @ [nl] @ p @ [nl] @ ''b'', q)] = digest_payload header [(''a'', p), (''b'', q)]"
proof -
  have "join [nl] (xs @ [x @ [nl] @ y, z]) = join [nl] (xs @ [x, y, z])" for xs x y z
  proof (induction xs)
    case (Cons a xs)
    then show ?case by (cases xs) auto
  qed simp
  from this [of header "''a''" "p @ [nl] @ ''b''" q] this [of "header @ [''a'']" p "''b''" q]
  show ?thesis by (simp add: digest_payload_def)
qed

text \<open>A file the manifest does not list changes nothing for the check.\<close>

lemma unlisted_files_pass:
  assumes "tree_verified H (TDir es) d" and "tree_manifest H (TDir es) = Some body"
    and "x \<noteq> ''manifest.json''" and "x \<notin> set (listed_names body)"
  shows "tree_verified H (TDir (bt_insert x t es)) d"
proof -
  obtain raw body' items checked where m: "Option.bind (map_of es ''manifest.json'') (resolve (ah_fs H)) = Some (TFile raw)"
    "valid_utf8 raw" "ah_parse H raw = Ok body'" "manifest_files body' d = Ok items"
    "list_all2 (item_verified H (TDir es)) items checked" "canonical_digest H body' checked = Ok d"
    using assms(1) by (auto simp: tree_verified_def)
  have "body' = body" using assms(2) m(1,3) by (simp add: tree_manifest_def)
  moreover have "manifest_items body' = items"
    using m(4) by (cases "Option.bind (json_get ''files'' body') json_items")
      (auto simp: manifest_files_def Let_def manifest_items_def bind_eq_Ok split: if_splits)
  ultimately have "x \<notin> fst ` set checked"
    using assms(4) verified_files(1) [OF m(5)] by (metis listed_names_def set_map)
  with m(5) have "list_all2 (item_verified H (TDir (bt_insert x t es))) items checked"
    by (induction rule: list_all2_induct) (auto simp: item_verified_def)
  then show ?thesis using m assms(3) unfolding tree_verified_def by (auto simp: fun_upd_apply)
qed

section \<open>A publication that dies\<close>

text \<open>The process dies after the previous destination was renamed to the backup.\<close>

definition example_state :: FsState where
  "example_state = \<lparr>fs_root = Some (TDir [(''objects'', TDir [(''d'', TFile ''old'')]), (''src'', example_tree [])]), fs_calls = 0\<rparr>"

lemma example_run:
  "(case publish_tree example_artifacts [''src''] [''objects'', ''d''] example_digest example_state of
      (r, s') \<Rightarrow> r = Err ''stopped'' \<and> node_at example_fs [''objects'', ''d''] (fs_root s') = None)"
  by code_simp

theorem publish_tree_atomic_witness:
  "publish_undone example_artifacts [''objects''] ''d'' example_digest (Some (TFile ''old''))
     (fs_root (snd (publish_tree example_artifacts [''src''] [''objects'', ''d''] example_digest example_state))) \<and>
   node_at example_fs [''objects'', ''d'']
     (fs_root (snd (publish_tree example_artifacts [''src''] [''objects'', ''d''] example_digest example_state))) = None \<and>
   node_at example_fs [''src'']
     (fs_root (snd (publish_tree example_artifacts [''src''] [''objects'', ''d''] example_digest example_state))) = Some (example_tree [])"
proof -
  obtain r s' where run: "publish_tree example_artifacts [''src''] ([''objects''] @ [''d'']) example_digest example_state = (r, s')"
    by (cases "publish_tree example_artifacts [''src''] ([''objects''] @ [''d'']) example_digest example_state")
  have plain: "plain_path [''objects''] (fs_root example_state)" by (simp add: example_state_def)
  have names: "publishable example_artifacts [''objects''] ''d''" by (unfold publishable_def) code_simp
  have beside: "beside example_artifacts [''objects''] ''d'' (\<lambda>r. node_at example_fs [''src''] r = Some (example_tree []))"
    unfolding beside_def by (intro conjI spares_node) simp_all
  have src: "node_at example_fs [''src''] (fs_root example_state) = Some (example_tree [])" by (simp add: example_state_def)
  have prev: "node_at (ah_fs example_artifacts) ([''objects''] @ [''d'']) (fs_root example_state) = Some (TFile ''old'')"
    by (simp add: example_state_def)
  show ?thesis
    using publish_tree_atomic [where F = "\<lambda>r. node_at example_fs [''src''] r = Some (example_tree [])", OF plain names beside src run]
      example_run run prev by simp
qed

end
