(* ===== verification/Artifact_Record.thy ===== *)
theory Artifact_Record
  imports Artifact_Publish
begin

text \<open>
  Artifact records (\<open>crates/nxr-task/src/artifact.rs\<close>): parsing and printing, the
  catalog key made of their identity, what may be published, the field in which
  two identities differ, and the savings against earlier rebuilds.
\<close>

section \<open>Records\<close>

record ArtifactRecord =
  ar_name :: string
  ar_identity :: JsonValue
  ar_content_digest :: string
  ar_producer_run :: string
  ar_host :: string
  ar_physical_host :: string
  ar_facet :: string
  ar_consumer_input :: string
  ar_attempt_id :: string
  ar_output :: string

definition is_hex_digit :: "char \<Rightarrow> bool" where
  "is_hex_digit c \<longleftrightarrow> c \<in> set ''0123456789abcdefABCDEF''"

definition is_hex_digest :: "string \<Rightarrow> bool" where
  "is_hex_digest value' \<longleftrightarrow> length value' = 64 \<and> list_all is_hex_digit value'"

definition safe_segment :: "string \<Rightarrow> string \<Rightarrow> (string, unit) outcome" where
  "safe_segment value' label =
     (if value' = [] \<or> 200 < length value' \<or> str_contains value' ''/'' \<or> str_contains value' [CHR 0x5C] \<or>
         str_contains value' ''..'' \<or> str_contains value' [CHR 0x00] \<or> value' = ''.''
      then Err (label @ '' is not a single path segment'') else Ok ())"

definition str_or :: "string \<Rightarrow> JsonValue \<Rightarrow> string \<Rightarrow> string" where
  "str_or field value' d = (case str_field field value' of Some s \<Rightarrow> s | None \<Rightarrow> d)"

definition record_digest :: "JsonValue \<Rightarrow> string" where
  "record_digest value' =
     (case Option.bind (case json_get ''contentDigest'' value' of None \<Rightarrow> json_get ''bundleSha256'' value' | some \<Rightarrow> some) json_str of
        Some s \<Rightarrow> s | None \<Rightarrow> [])"

definition ArtifactRecord_from_value :: "JsonValue \<Rightarrow> (string, ArtifactRecord) outcome" where
  "ArtifactRecord_from_value value' =
     (if \<not> is_hex_digest (record_digest value') then Err ''artifact record has no content digest''
      else bind (safe_segment (str_or ''name'' value' []) ''artifact name'') (\<lambda>_.
           bind (safe_segment (str_or ''output'' value' ''bundle.tar'') ''artifact output'') (\<lambda>_.
           Ok \<lparr>ar_name = str_or ''name'' value' [],
               ar_identity = (case json_get ''identity'' value' of Some i \<Rightarrow> i | None \<Rightarrow> JObject []),
               ar_content_digest = record_digest value', ar_producer_run = str_or ''producerRun'' value' [],
               ar_host = str_or ''host'' value' [], ar_physical_host = str_or ''physicalHost'' value' [],
               ar_facet = str_or ''facet'' value' [], ar_consumer_input = str_or ''consumerInput'' value' [],
               ar_attempt_id = str_or ''attemptId'' value' [], ar_output = str_or ''output'' value' ''bundle.tar''\<rparr>)))"

text \<open>The body \<open>json!\<close> makes, its keys in order.\<close>

definition record_body :: "ArtifactRecord \<Rightarrow> JsonValue" where
  "record_body r = JObject
     [(''attemptId'', JString (ar_attempt_id r)), (''consumerInput'', JString (ar_consumer_input r)),
      (''contentDigest'', JString (ar_content_digest r)), (''facet'', JString (ar_facet r)),
      (''host'', JString (ar_host r)), (''identity'', ar_identity r), (''name'', JString (ar_name r)),
      (''output'', JString (ar_output r)), (''physicalHost'', JString (ar_physical_host r)),
      (''producerRun'', JString (ar_producer_run r))]"

section \<open>The catalog key\<close>

definition text_at :: "JsonValue \<Rightarrow> string \<Rightarrow> string option" where
  "text_at identity key = (case str_field key identity of Some s \<Rightarrow> if s = [] then None else Some s | None \<Rightarrow> None)"

definition object_text :: "(string \<times> JsonValue) list \<Rightarrow> string \<Rightarrow> string option" where
  "object_text obj key = text_at (JObject obj) key"

definition first_required :: "JsonValue \<Rightarrow> string list \<Rightarrow> string option" where
  "first_required identity keys = (case List.map_filter (text_at identity) keys of [] \<Rightarrow> None | s # _ \<Rightarrow> Some s)"

definition lockfile_keys :: "string list" where
  "lockfile_keys = [''lockfile'', ''lockfileDigest'', ''lockfile_digest'']"

definition dirty_keys :: "string list" where
  "dirty_keys = [''dirty'', ''dirtySource'', ''dirty_snapshot_id'', ''dirtySnapshot'']"

definition source_keys :: "string list" where
  "source_keys = [''sourceSet'', ''source_set'', ''source_set_id'']"

definition stargate_input_lines :: "JsonValue \<Rightarrow> string list option" where
  "stargate_input_lines identity =
     Option.bind (text_at identity ''commit'') (\<lambda>commit.
     Option.bind (text_at identity ''profile'') (\<lambda>profile.
     Option.bind (Option.bind (json_get ''toolchain'' identity) json_entries) (\<lambda>toolchain.
     Option.bind (object_text toolchain ''rustc'') (\<lambda>rustc.
     Option.bind (object_text toolchain ''wasmBindgen'') (\<lambda>wasm_bindgen.
     Option.bind (object_text toolchain ''binaryen'') (\<lambda>binaryen.
     Option.bind (first_required identity lockfile_keys) (\<lambda>lockfile.
     Option.bind (first_required identity dirty_keys) (\<lambda>dirty.
     Some [''stargate'', commit, profile, rustc, wasm_bindgen, binaryen, lockfile, dirty]))))))))"

fun canonical_fragment :: "Digests \<Rightarrow> JsonValue \<Rightarrow> string" where
  "canonical_fragment D (JString t) = t"
| "canonical_fragment D (JObject obj) =
     join [nl] (map snd (sort_key fst (map (\<lambda>(k, v). (k, k @ ''='' @ canonical_fragment D v)) obj)))"
| "canonical_fragment D (JArray items) = join [nl] (map (canonical_fragment D) items)"
| "canonical_fragment D v = json_scalar D v"

definition nonempty_fragment :: "Digests \<Rightarrow> JsonValue option \<Rightarrow> string option" where
  "nonempty_fragment D v = (case v of None \<Rightarrow> None | Some x \<Rightarrow> if canonical_fragment D x = [] then None else Some (canonical_fragment D x))"

definition generic_input_lines :: "Digests \<Rightarrow> JsonValue \<Rightarrow> string list option" where
  "generic_input_lines D identity =
     Option.bind (first_required identity source_keys) (\<lambda>source.
     Option.bind (nonempty_fragment D (json_get ''toolchain'' identity)) (\<lambda>toolchain.
     Option.bind (nonempty_fragment D (case json_get ''inputs'' identity of None \<Rightarrow> json_get ''inputDigests'' identity | some \<Rightarrow> some)) (\<lambda>inputs.
     Some [''source-set'', source, toolchain, inputs])))"

definition catalog_lines :: "Digests \<Rightarrow> JsonValue \<Rightarrow> string list option" where
  "catalog_lines D identity =
     (case stargate_input_lines identity of None \<Rightarrow> generic_input_lines D identity | some \<Rightarrow> some)"

definition catalog_key :: "ArtifactHost \<Rightarrow> ArtifactRecord \<Rightarrow> (string, string) outcome" where
  "catalog_key H r =
     bind (ok_or ''artifact record has no source identity'' (catalog_lines (ah_digests H) (ar_identity r))) (\<lambda>lines.
     Ok (artifact_hex H (join [nl] lines)))"

definition legacy_record_dirs :: "ArtifactRecord \<Rightarrow> string list" where
  "legacy_record_dirs r = ''unscoped'' # List.map_filter (\<lambda>field. case text_at (ar_identity r) field of
       Some v \<Rightarrow> if v \<noteq> ''unscoped'' \<and> safe_segment v ''source set'' = Ok () then Some v else None
     | None \<Rightarrow> None) source_keys"

section \<open>What may be published\<close>

definition reject_unknown_producer :: "JsonValue \<Rightarrow> (string, unit) outcome" where
  "reject_unknown_producer identity = (case str_field ''producer'' identity of
       None \<Rightarrow> Ok ()
     | Some kind \<Rightarrow> if kind = ''stargate'' \<or> kind = ''generic'' then Ok () else Err (''unknown producer kind: '' @ kind))"

definition check_input :: "JsonValue \<Rightarrow> string \<Rightarrow> (string, unit) outcome" where
  "check_input identity key = (case json_get key identity of
       None \<Rightarrow> Ok ()
     | Some v \<Rightarrow> (case json_str v of
          Some t \<Rightarrow> if trim t = [] then Err ''generic artifact inputs are not canonical'' else Ok ()
        | None \<Rightarrow> Err ''generic artifact inputs are not canonical''))"

definition reject_noncanonical_generic_inputs :: "JsonValue \<Rightarrow> (string, unit) outcome" where
  "reject_noncanonical_generic_inputs identity =
     (let kind = str_field ''producer'' identity
      in if kind = Some ''generic'' \<or>
            kind = None \<and> (json_get ''inputs'' identity \<noteq> None \<or> json_get ''inputDigests'' identity \<noteq> None)
         then for_each (check_input identity) [''inputs'', ''inputDigests''] else Ok ())"

fun sort_json :: "JsonValue \<Rightarrow> JsonValue" where
  "sort_json (JObject obj) = JObject (sort_key fst (map (\<lambda>(k, v). (k, sort_json v)) obj))"
| "sort_json (JArray items) = JArray (map sort_json items)"
| "sort_json v = v"

definition identity_with_schema :: "JsonValue \<Rightarrow> JsonValue" where
  "identity_with_schema identity =
     sort_json (case identity of JObject obj \<Rightarrow> JObject (bt_insert ''identitySchema'' (JNumber ''1'') obj) | _ \<Rightarrow> identity)"

definition prepare_publication :: "ArtifactRecord \<Rightarrow> (string, ArtifactRecord) outcome" where
  "prepare_publication r =
     bind (reject_unknown_producer (ar_identity r)) (\<lambda>_.
     bind (reject_noncanonical_generic_inputs (ar_identity r)) (\<lambda>_.
     Ok (r\<lparr>ar_identity := identity_with_schema (ar_identity r)\<rparr>)))"

section \<open>Changed fields\<close>

definition identity_value :: "JsonValue \<Rightarrow> string list \<Rightarrow> JsonValue option" where
  "identity_value identity keys = (case List.map_filter (\<lambda>k. json_get k identity) keys of [] \<Rightarrow> None | v # _ \<Rightarrow> Some v)"

definition identity_labels :: "(string \<times> string list) list" where
  "identity_labels = [(''commit'', [''commit'']), (''profile'', [''profile'']), (''toolchain'', [''toolchain'']),
     (''lockfile'', lockfile_keys), (''dirty'', dirty_keys), (''sourceSet'', source_keys), (''inputs'', [''inputs'', ''inputDigests''])]"

definition first_changed_field :: "JsonValue \<Rightarrow> JsonValue \<Rightarrow> string option" where
  "first_changed_field current stored =
     map_option fst (find (\<lambda>(label, keys). identity_value current keys \<noteq> identity_value stored keys \<and>
       (identity_value current keys \<noteq> None \<or> identity_value stored keys \<noteq> None)) identity_labels)"

section \<open>Savings\<close>

definition toolchain_digest :: "ArtifactHost \<Rightarrow> ArtifactRecord \<Rightarrow> string" where
  "toolchain_digest H r = artifact_hex H
     (case json_get ''toolchain'' (ar_identity r) of Some v \<Rightarrow> canonical_fragment (ah_digests H) v | None \<Rightarrow> [])"

definition BASELINE_SAMPLE_CAP :: nat where
  "BASELINE_SAMPLE_CAP = 16"

definition push_sample :: "JsonValue list \<Rightarrow> string \<Rightarrow> u64 \<Rightarrow> JsonValue list" where
  "push_sample samples input task_ms =
     (let samples = samples @ [JObject [(''input'', JString input), (''task_ms'', JNumber (show_nat (unat task_ms)))]]
      in if length samples > BASELINE_SAMPLE_CAP then drop (length samples - BASELINE_SAMPLE_CAP) samples else samples)"

definition median_ms :: "u64 list \<Rightarrow> u64 option" where
  "median_ms samples =
     (if samples = [] then None
      else let sorted = sort samples; mid = length sorted div 2
           in if length sorted mod 2 = 1 then Some (sorted ! mid)
              else Some (saturating_add (sorted ! (mid - 1)) (sorted ! mid) div 2))"

text \<open>\<open>i64::try_from(baseline).unwrap_or(i64::MAX) - i64::try_from(observed).unwrap_or(0)\<close>\<close>

definition signed_delta :: "u64 \<Rightarrow> u64 \<Rightarrow> int" where
  "signed_delta baseline observed =
     (if unat baseline < 2 ^ 63 then int (unat baseline) else 2 ^ 63 - 1) -
     (if unat observed < 2 ^ 63 then int (unat observed) else 0)"

definition sample_ms :: "JsonValue \<Rightarrow> u64 option" where
  "sample_ms sample = Option.bind (json_get ''task_ms'' sample) json_as_u64"

definition savings_of :: "JsonValue list \<Rightarrow> string \<Rightarrow> u64 \<Rightarrow> string \<times> int option" where
  "savings_of samples input task_ms =
     (case median_ms (List.map_filter sample_ms (filter (\<lambda>s. str_field ''input'' s = Some input) samples)) of
        Some median \<Rightarrow> (''measured'', Some (signed_delta median task_ms))
      | None \<Rightarrow> (case median_ms (List.map_filter sample_ms samples) of
          Some median \<Rightarrow> (''estimated'', Some (signed_delta median task_ms))
        | None \<Rightarrow> (''unavailable'', None)))"

end
