(* ===== verification/Artifact_Catalog.thy ===== *)
theory Artifact_Catalog
  imports Artifact_Record
begin

text \<open>
  The host-local catalog of artifacts and the materialization of a workflow's
  inputs (\<open>crates/nxr-task/src/artifact.rs\<close>).  The command that fetches a remote
  artifact is an argument: its exit code, and the entries of the archive it left.
\<close>

section \<open>Records of the catalog\<close>

text \<open>\<open>Result::ok\<close> of an operation.\<close>

definition op_ok :: "'a fs_op \<Rightarrow> 'a option fs_op" where
  "op_ok m s = (case m s of (Ok x, s1) \<Rightarrow> (Ok (Some x), s1) | (_, s1) \<Rightarrow> (Ok None, s1))"

definition json_file :: "string \<Rightarrow> string" where
  "json_file name = name @ ''.json''"

definition parse_record :: "ArtifactHost \<Rightarrow> string \<Rightarrow> (string, ArtifactRecord) outcome" where
  "parse_record H raw = bind (ah_parse H raw) ArtifactRecord_from_value"

definition read_record :: "ArtifactHost \<Rightarrow> path \<Rightarrow> ArtifactRecord fs_op" where
  "read_record H p = op_bind (fs_read_text (ah_fs H) p) (\<lambda>raw. op_lift (parse_record H raw))"

definition record_path :: "path \<Rightarrow> string \<Rightarrow> string \<Rightarrow> path" where
  "record_path C dir name = C @ [''records'', dir, json_file name]"

definition object_path :: "path \<Rightarrow> string \<Rightarrow> path" where
  "object_path C digest = C @ [''objects'', digest]"

definition stored_content_digest :: "ArtifactHost \<Rightarrow> path \<Rightarrow> string \<Rightarrow> string \<Rightarrow> string option fs_op" where
  "stored_content_digest H C dir name =
     op_bind (op_ok (read_record H (record_path C dir name))) (\<lambda>r. op_lift (Ok (map_option ar_content_digest r)))"

definition object_verified :: "ArtifactHost \<Rightarrow> path \<Rightarrow> string \<Rightarrow> bool fs_op" where
  "object_verified H C digest = verifies H (object_path C digest) digest"

fun legacy_object_ok :: "ArtifactHost \<Rightarrow> path \<Rightarrow> ArtifactRecord \<Rightarrow> string list \<Rightarrow> bool fs_op" where
  "legacy_object_ok H C r [] = op_lift (Ok False)"
| "legacy_object_ok H C r (dir # dirs) =
     op_bind (stored_content_digest H C dir (ar_name r)) (\<lambda>stored.
     op_bind (if stored = Some (ar_content_digest r) then object_verified H C (ar_content_digest r) else op_lift (Ok False)) (\<lambda>ok.
     if ok then op_lift (Ok True) else legacy_object_ok H C r dirs))"

definition catalog_object_ok :: "ArtifactHost \<Rightarrow> path \<Rightarrow> ArtifactRecord \<Rightarrow> bool fs_op" where
  "catalog_object_ok H C r = (case catalog_key H r of
       Ok key \<Rightarrow>
         op_bind (stored_content_digest H C key (ar_name r)) (\<lambda>stored. case stored of
           Some digest \<Rightarrow> if digest = ar_content_digest r then object_verified H C (ar_content_digest r) else op_lift (Ok False)
         | None \<Rightarrow> legacy_object_ok H C r (legacy_record_dirs r))
     | _ \<Rightarrow> op_lift (Ok False))"

section \<open>Publication to the catalog\<close>

definition atomic_replace :: "ArtifactHost \<Rightarrow> path \<Rightarrow> string \<Rightarrow> unit fs_op" where
  "atomic_replace H p body =
     (let temporary = butlast p @ [''.'' @ last p @ ''.'' @ show_nat (ah_pid H) @ ''.tmp''] in
      op_bind (create_dir_all (ah_fs H) (butlast p)) (\<lambda>_.
      op_bind (write_file (ah_fs H) temporary body) (\<lambda>_.
      or_else (rename_path (ah_fs H) temporary p) (\<lambda>e.
        op_bind (ignore_result (remove_file (ah_fs H) temporary)) (\<lambda>_. op_lift (Err e))))))"

definition record_text :: "ArtifactHost \<Rightarrow> ArtifactRecord \<Rightarrow> string" where
  "record_text H r = ah_print H (record_body r) @ [nl]"

definition publish_under_lock :: "ArtifactHost \<Rightarrow> path \<Rightarrow> string \<Rightarrow> ArtifactRecord \<Rightarrow> path \<Rightarrow> unit fs_op" where
  "publish_under_lock H C key r object =
     op_bind (stored_content_digest H C key (ar_name r)) (\<lambda>stored.
     if stored \<noteq> None \<and> stored \<noteq> Some (ar_content_digest r)
     then op_lift (Err (''catalog conflict for '' @ ar_name r @ '' at '' @ key @ '': stored '' @ the stored @
            '' does not match '' @ ar_content_digest r))
     else op_bind (publish_tree H object (object_path C (ar_content_digest r)) (ar_content_digest r)) (\<lambda>_.
          atomic_replace H (record_path C key (ar_name r)) (record_text H r)))"

definition publish_record_tree :: "ArtifactHost \<Rightarrow> path \<Rightarrow> ArtifactRecord \<Rightarrow> path \<Rightarrow> unit fs_op" where
  "publish_record_tree H C record object =
     op_bind (op_lift (prepare_publication record)) (\<lambda>r.
     op_bind (op_lift (catalog_key H r)) (\<lambda>key.
     op_bind (create_dir_all (ah_fs H) (C @ [''records'', key])) (\<lambda>_.
     with_exclusive_lock (ah_fs H) (C @ [''records'', key, ar_name r @ ''.lock''])
       (publish_under_lock H C key r object))))"

definition accept_catalog_publish :: "unit fs_op \<Rightarrow> unit fs_op" where
  "accept_catalog_publish m = or_else m (\<lambda>e.
     if str_contains e ''no source identity'' \<or> str_contains e ''catalog conflict'' then op_lift (Ok ()) else op_lift (Err e))"

text \<open>A record file of a checkout is published when it parses and its object verifies.\<close>

definition publish_checkout_record :: "ArtifactHost \<Rightarrow> path \<Rightarrow> path \<Rightarrow> string \<Rightarrow> unit fs_op" where
  "publish_checkout_record H C store file =
     (if file_extension file \<noteq> Some ''json'' then op_lift (Ok ())
      else op_bind (op_ok (read_record H (store @ [''records'', file]))) (\<lambda>r. case r of
        None \<Rightarrow> op_lift (Ok ())
      | Some record \<Rightarrow>
          let object = object_path store (ar_content_digest record) in
          op_bind (verifies H object (ar_content_digest record)) (\<lambda>ok.
          if \<not> ok then op_lift (Ok ())
          else or_else (publish_record_tree H C record object) (\<lambda>e.
            if str_contains e ''no source identity'' then op_lift (Ok ()) else op_lift (Err e)))))"

definition publish_checkout_catalog :: "ArtifactHost \<Rightarrow> path option \<Rightarrow> path \<Rightarrow> unit fs_op" where
  "publish_checkout_catalog H catalog root s = (case catalog of
       None \<Rightarrow> (Ok (), s)
     | Some C \<Rightarrow>
         let store = root @ [''.nxr'', ''artifacts''] in
         if \<not> is_dir (ah_fs H) (store @ [''records'']) s then (Ok (), s)
         else op_bind (read_dir (ah_fs H) (store @ [''records''])) (\<lambda>es.
              op_each (publish_checkout_record H C store) (map fst es)) s)"

section \<open>Fetching\<close>

datatype TarKind = TarFile | TarDir | TarOther

record TarEntry =
  te_path :: string
  te_kind :: TarKind
  te_size :: u64
  te_data :: string

definition UNPACK_LIMIT :: u64 where
  "UNPACK_LIMIT = 64 * 1024 * 1024"

definition ENTRY_LIMIT :: nat where
  "ENTRY_LIMIT = 10000"

definition entry_components :: "string \<Rightarrow> string list" where
  "entry_components p = filter (\<lambda>c. c \<noteq> [] \<and> c \<noteq> ''.'') (split_on CHR ''/'' p)"

definition unsafe_entry :: "TarEntry \<Rightarrow> bool" where
  "unsafe_entry e \<longleftrightarrow> te_path e = [] \<or> starts_with (te_path e) ''/'' \<or> ''..'' \<in> set (entry_components (te_path e)) \<or>
     te_kind e = TarOther"

text \<open>The caps, over the sizes the headers declare; the counts so far and after.\<close>

definition count_entry :: "TarEntry \<Rightarrow> u64 \<times> nat \<Rightarrow> (string, u64 \<times> nat) outcome" where
  "count_entry e counts = (case counts of (unpacked, seen) \<Rightarrow>
     let unpacked' = (if te_kind e = TarFile then saturating_add unpacked (te_size e) else unpacked)
     in if Suc seen > ENTRY_LIMIT \<or> te_kind e = TarFile \<and> unpacked' > UNPACK_LIMIT
        then Err ''archive exceeds the unpack cap'' else Ok (unpacked', Suc seen))"

text \<open>\<open>Entry::unpack\<close> to a path: the parent has to be there.\<close>

definition unpack_entry :: "FsHost \<Rightarrow> path \<Rightarrow> TarEntry \<Rightarrow> unit fs_op" where
  "unpack_entry H p e s = (case te_kind e of
       TarDir \<Rightarrow> if is_dir H (butlast p) s then create_dir_all H p s else (Err not_found, s)
     | _ \<Rightarrow> write_file H p (te_data e) s)"

text \<open>What exists at the target, when a link on the way leads out of the staging directory.\<close>

definition escapes :: "FsHost \<Rightarrow> path \<Rightarrow> string list \<Rightarrow> FsState \<Rightarrow> bool" where
  "escapes H staging cs s \<longleftrightarrow> fs_exists H (staging @ cs) s \<and> \<not> plain_path cs (node_at H staging (fs_root s))"

text \<open>An archive yields its entries one by one, each of them or an error.\<close>

type_synonym archive = "(string, (string, TarEntry) outcome list) outcome"

definition archive_err :: "string \<Rightarrow> string" where
  "archive_err e = ''archive: '' @ e"

fun extract_entries :: "FsHost \<Rightarrow> path \<Rightarrow> (string, TarEntry) outcome list \<Rightarrow> u64 \<times> nat \<Rightarrow> unit fs_op" where
  "extract_entries H staging [] counts = op_lift (Ok ())"
| "extract_entries H staging (r # rs) counts =
     op_bind (op_lift (map_err archive_err r)) (\<lambda>e.
     if unsafe_entry e then op_lift (Err (''unsafe archive entry '' @ te_path e))
     else op_bind (op_lift (count_entry e counts)) (\<lambda>counts'.
          op_bind (\<lambda>s. (if escapes H staging (entry_components (te_path e)) s
                        then Err (''unsafe archive entry '' @ te_path e) else Ok (), s)) (\<lambda>_.
          op_bind (map_fs_err archive_err (unpack_entry H (staging @ entry_components (te_path e)) e)) (\<lambda>_.
          extract_entries H staging rs counts'))))"

definition safe_extract :: "FsHost \<Rightarrow> archive \<Rightarrow> path \<Rightarrow> unit fs_op" where
  "safe_extract H archive staging =
     op_bind (op_lift archive) (\<lambda>es.
     op_bind (create_dir_all H staging) (\<lambda>_.
     op_bind (fs_call H) (\<lambda>_. extract_entries H staging es (0, 0))))"

text \<open>The command \<open>nixplane execution fetch\<close>: its exit code, none after a signal, and the archive.\<close>

type_synonym fetch_command = "string \<Rightarrow> string \<Rightarrow> (string, int option \<times> archive) outcome"

fun find_manifest :: "ArtifactHost \<Rightarrow> path \<Rightarrow> string list \<Rightarrow> FsState \<Rightarrow> path option" where
  "find_manifest H p [] s = None"
| "find_manifest H p (x # xs) s =
     (if is_file (ah_fs H) (p @ [x, ''manifest.json'']) s then Some (p @ [x]) else find_manifest H p xs s)"

definition unpacked_tree :: "ArtifactHost \<Rightarrow> path \<Rightarrow> path fs_op" where
  "unpacked_tree H p s =
     (if is_file (ah_fs H) (p @ [''manifest.json'']) s then (Ok p, s)
      else op_bind (read_dir (ah_fs H) p) (\<lambda>es s.
        (ok_or ''fetched bundle has no manifest'' (find_manifest H p (map fst es) s), s)) s)"

definition fetch_name :: "ArtifactHost \<Rightarrow> string \<Rightarrow> string" where
  "fetch_name H x = file_stem x @ ''.fetch-'' @ show_nat (ah_pid H)"

definition fetch_remote :: "ArtifactHost \<Rightarrow> fetch_command \<Rightarrow> ArtifactRecord \<Rightarrow> path \<Rightarrow> unit fs_op" where
  "fetch_remote H fetch r dst =
     (if ar_attempt_id r = [] then
        op_lift (Err (''artifact '' @ ar_name r @ '' is on '' @ ar_host r @ '' and has no attempt id''))
      else
        let staging = with_extension dst (''fetch-'' @ show_nat (ah_pid H)); unpacked = staging @ [''unpacked''] in
        op_bind (ignore_result (remove_dir_all (ah_fs H) staging)) (\<lambda>_.
        op_bind (create_dir_all (ah_fs H) staging) (\<lambda>_.
        op_bind (op_lift (map_err (\<lambda>e. ''nixplane execution fetch: '' @ e) (fetch (ar_attempt_id r) (ar_output r)))) (\<lambda>(code, archive).
        if code \<noteq> Some 0 then
          op_bind (ignore_result (remove_dir_all (ah_fs H) staging)) (\<lambda>_.
          op_lift (Err (''nixplane execution fetch failed with '' @
            show_nat (case code of None \<Rightarrow> 1 | Some c \<Rightarrow> nat c))))
        else
          op_bind (safe_extract (ah_fs H) archive unpacked) (\<lambda>_.
          op_bind (unpacked_tree H unpacked) (\<lambda>tree.
          op_bind (verify_tree H tree (ar_content_digest r)) (\<lambda>_ s.
            case publish_tree H tree dst (ar_content_digest r) s of
              (res, s1) \<Rightarrow> (res, snd (remove_dir_all (ah_fs H) staging s1)))))))))"

section \<open>Materialization\<close>

text \<open>The identity field in which the first record of the task that differs, differs.\<close>

fun changed_in :: "ArtifactHost \<Rightarrow> path \<Rightarrow> ArtifactRecord \<Rightarrow> string list \<Rightarrow> string option fs_op" where
  "changed_in H records r [] = op_lift (Ok None)"
| "changed_in H records r (dir # dirs) =
     op_bind (op_ok (read_record H (records @ [dir, json_file (ar_name r)]))) (\<lambda>stored.
     case Option.bind stored (\<lambda>x. first_changed_field (ar_identity r) (ar_identity x)) of
       Some field \<Rightarrow> op_lift (Ok (Some field))
     | None \<Rightarrow> changed_in H records r dirs)"

definition changed_identity_field :: "ArtifactHost \<Rightarrow> path \<Rightarrow> ArtifactRecord \<Rightarrow> string option fs_op" where
  "changed_identity_field H C r =
     op_bind (op_ok (read_dir (ah_fs H) (C @ [''records'']))) (\<lambda>es. case es of
       None \<Rightarrow> op_lift (Ok None)
     | Some entries \<Rightarrow> changed_in H (C @ [''records'']) r (sort (map fst entries)))"

definition load_artifact_record :: "ArtifactHost \<Rightarrow> path \<Rightarrow> string \<Rightarrow> ArtifactRecord fs_op" where
  "load_artifact_record H store name =
     (let p = store @ [''records'', json_file name] in
      op_bind (map_fs_err (\<lambda>_. ''no stored artifact for '' @ name @ '' at '' @ display_path p) (fs_read_text (ah_fs H) p)) (\<lambda>raw.
      op_bind (op_lift (map_err (\<lambda>e. ''artifact record for '' @ name @ '' is not json: '' @ e) (ah_parse H raw))) (\<lambda>v.
      op_lift (ArtifactRecord_from_value v))))"

definition recorded_tool :: "ArtifactHost \<Rightarrow> path \<Rightarrow> string \<Rightarrow> string \<Rightarrow> string fs_op" where
  "recorded_tool H store input tool =
     op_bind (op_ok (op_bind (fs_read_text (ah_fs H) (store @ [''receipts'', json_file input])) (\<lambda>raw. op_lift (ah_parse H raw)))) (\<lambda>v.
     op_lift (Ok (if Option.bind v (str_field tool) = Some ''reused'' then ''reused'' else ''not-recorded'')))"

definition decision_body :: "string \<Rightarrow> ArtifactRecord \<Rightarrow> string \<Rightarrow> string \<Rightarrow> string \<Rightarrow> string \<Rightarrow> string \<Rightarrow> JsonValue" where
  "decision_body input r transfer decision changed cargo sccache = JObject
     [(''artifact'', JString decision), (''cargo'', JString cargo), (''changedField'', JString changed),
      (''chunks_fetched'', JNumber ''0''), (''chunks_resumed'', JNumber ''0''), (''decision'', JString decision),
      (''digest'', JString (ar_content_digest r)), (''facet'', JString (ar_facet r)),
      (''identityFields'', JString (case json_entries (ar_identity r) of Some obj \<Rightarrow> join '','' (map fst obj) | None \<Rightarrow> [])),
      (''physicalHost'', JString (ar_physical_host r)), (''reason'', JString changed),
      (''savingsBasis'', JString ''unavailable''), (''sccache'', JString sccache), (''task'', JString input),
      (''transfer'', JString transfer)]"

definition write_materialize_decision ::
  "ArtifactHost \<Rightarrow> path \<Rightarrow> string \<Rightarrow> ArtifactRecord \<Rightarrow> string \<Rightarrow> string \<Rightarrow> string \<Rightarrow> unit fs_op" where
  "write_materialize_decision H store input r transfer decision changed =
     op_bind (create_dir_all (ah_fs H) (store @ [''decisions''])) (\<lambda>_.
     op_bind (recorded_tool H store input ''cargo'') (\<lambda>cargo.
     op_bind (recorded_tool H store input ''sccache'') (\<lambda>sccache.
     write_file (ah_fs H) (store @ [''decisions'', json_file input])
       (ah_print H (decision_body input r transfer decision changed cargo sccache) @ [nl]))))"

definition object_lock_path :: "path \<Rightarrow> string \<Rightarrow> path" where
  "object_lock_path C digest = C @ [''locks'', digest @ ''.lock'']"

definition restore_local :: "ArtifactHost \<Rightarrow> path \<Rightarrow> ArtifactRecord \<Rightarrow> path \<Rightarrow> unit fs_op" where
  "restore_local H store r dst = restore_object H (object_path store (ar_content_digest r)) dst (ar_content_digest r)"

definition publish_to :: "ArtifactHost \<Rightarrow> path option \<Rightarrow> ArtifactRecord \<Rightarrow> path \<Rightarrow> unit fs_op" where
  "publish_to H catalog r object = (case catalog of
       None \<Rightarrow> op_lift (Ok ())
     | Some C \<Rightarrow> accept_catalog_publish (publish_record_tree H C r object))"

text \<open>The checkout's object is good, or it is fetched, or there is an error.\<close>

definition materialize_own ::
  "ArtifactHost \<Rightarrow> fetch_command \<Rightarrow> path option \<Rightarrow> path \<Rightarrow> string \<Rightarrow> ArtifactRecord \<Rightarrow> string \<Rightarrow> unit fs_op" where
  "materialize_own H fetch catalog store input r changed =
     (let dst = store @ [''materialized'', input]; object = object_path store (ar_content_digest r) in
      op_bind (verifies H object (ar_content_digest r)) (\<lambda>own.
      if own then
        op_bind (publish_to H catalog r object) (\<lambda>_.
        op_bind (restore_local H store r dst) (\<lambda>_.
        write_materialize_decision H store input r ''local'' ''hit'' changed))
      else (\<lambda>s.
        let corrupt = is_file (ah_fs H) (object @ [''manifest.json'']) s in
        if ar_attempt_id r \<noteq> [] \<and> (corrupt \<or> \<not> fs_exists (ah_fs H) object s) then
          op_bind (fetch_remote H fetch r dst) (\<lambda>_.
          op_bind (verifies H dst (ar_content_digest r)) (\<lambda>good.
          op_bind (if good then op_bind (publish_tree H dst object (ar_content_digest r)) (\<lambda>_. publish_to H catalog r dst)
                   else op_lift (Ok ())) (\<lambda>_.
          write_materialize_decision H store input r ''fetch'' ''miss'' changed))) s
        else op_bind (if corrupt then verify_tree H object (ar_content_digest r) else op_lift (Ok ())) (\<lambda>_.
             op_lift (Err (''artifact '' @ input @ '' is not available locally and has no attempt id''))) s)))"

definition materialize_input :: "ArtifactHost \<Rightarrow> fetch_command \<Rightarrow> path option \<Rightarrow> path \<Rightarrow> string \<Rightarrow> unit fs_op" where
  "materialize_input H fetch catalog store input =
     op_bind (op_lift (safe_segment input ''artifact input'')) (\<lambda>_.
     op_bind (load_artifact_record H store input) (\<lambda>r.
     op_bind (case catalog of None \<Rightarrow> op_lift (Ok None) | Some C \<Rightarrow> changed_identity_field H C r) (\<lambda>field.
     let changed = (case field of Some f \<Rightarrow> f | None \<Rightarrow> []); digest = ar_content_digest r in
     op_bind (case catalog of None \<Rightarrow> op_lift (Ok False) | Some C \<Rightarrow> catalog_object_ok H C r) (\<lambda>cached.
     if cached then
       op_bind (with_exclusive_lock (ah_fs H) (object_lock_path (the catalog) digest)
         (publish_tree H (object_path (the catalog) digest) (object_path store digest) digest)) (\<lambda>_.
       op_bind (restore_local H store r (store @ [''materialized'', input])) (\<lambda>_.
       write_materialize_decision H store input r ''local'' ''hit'' changed))
     else materialize_own H fetch catalog store input r changed))))"

definition materialize_inputs_from ::
  "ArtifactHost \<Rightarrow> fetch_command \<Rightarrow> path option \<Rightarrow> path \<Rightarrow> string list \<Rightarrow> unit fs_op" where
  "materialize_inputs_from H fetch catalog root inputs =
     op_each (materialize_input H fetch catalog (root @ [''.nxr'', ''artifacts''])) inputs"

section \<open>Where the calls go\<close>

lemma within_op_ok [within_intros]: "within S m \<Longrightarrow> within S (op_ok m)"
  unfolding within_def
proof (intro allI impI tripleI)
  fix Q and s :: FsState
  assume m: "\<forall>Q. (\<forall>p \<in> S. spares p Q) \<longrightarrow> triple (\<lambda>s. Q (fs_root s)) m (\<lambda>_ s. Q (fs_root s)) (\<lambda>s. Q (fs_root s))"
    and Q: "\<forall>p \<in> S. spares p Q" "Q (fs_root s)"
  have "Q (fs_root (snd (m s)))" using triple_snd [of "\<lambda>s. Q (fs_root s)" m "\<lambda>s. Q (fs_root s)" s] m Q by blast
  then show "case op_ok m s of (Ok x, s) \<Rightarrow> Q (fs_root s) | (_, s) \<Rightarrow> Q (fs_root s)"
    by (cases "m s"; cases "fst (m s)") (simp_all add: op_ok_def)
qed

lemma within_or_else [within_intros]: "within S m \<Longrightarrow> (\<And>e. within S (f e)) \<Longrightarrow> within S (or_else m f)"
  unfolding within_def by (blast intro: triple_or_else)

lemma within_verify [within_intros]: "within S (verify_tree H dir d)" "within S (verifies H dir d)"
  unfolding within_def
  by (blast intro: triple_conseq [OF triple_verify] triple_conseq [OF triple_verifies])+

lemma within_if [within_intros]: "within S a \<Longrightarrow> within S b \<Longrightarrow> within S (if c then a else b)"
  by simp

lemma within_copy_dir [within_intros]: "below S dst \<Longrightarrow> within S (copy_dir H src dst)"
  unfolding within_def using triple_copy_dir below_spares by blast

lemma within_replace [within_intros]:
  assumes "below S (D @ [x])" and "below S (D @ [stage_name H x])" and "below S (D @ [backup_name H x])"
  shows "within S (replace_destination H (D @ [x]) d had)"
  unfolding replace_destination_def restore_backup_def stage_backup_paths
  by (intro within_bind within_or_else within_rename within_if within_ignore within_lift within_verify within_remove_dir assms)

lemma near_up: "below S (D @ q) \<Longrightarrow> near S D"
  unfolding below_def near_def prefix_def by (metis append_eq_append_conv2)

lemma within_publish_copy:
  assumes "below S (D @ [x])" and "below S (D @ [stage_name H x])" and "below S (D @ [backup_name H x])"
  shows "within S (publish_copy H src (D @ [x]) d)"
proof -
  have "within S (\<lambda>s. op_bind (if fs_exists (ah_fs H) (D @ [x]) s
      then op_bind (ignore_result (remove_dir_all (ah_fs H) (D @ [backup_name H x]))) (\<lambda>_.
           rename_path (ah_fs H) (D @ [x]) (D @ [backup_name H x]))
      else op_lift (Ok ())) (\<lambda>_. replace_destination H (D @ [x]) d (fs_exists (ah_fs H) (D @ [x]) s)) s)"
    by (rule withinI)
      (intro within_bind within_if within_ignore within_lift within_rename within_remove_dir within_replace assms)
  note last = this
  show ?thesis
    unfolding publish_copy_def stage_backup_paths butlast_snoc Let_def
    by (rule within_bind [OF within_create [OF near_up [OF assms(1)]]],
        rule within_bind [OF within_ignore [OF within_remove_dir [OF assms(2)]]],
        rule within_bind [OF within_copy_dir [OF assms(2)]], rule within_bind [OF within_verify(1)], rule last)
qed

lemma within_publish_tree [within_intros]:
  assumes "below S (D @ [x])" and "below S (D @ [stage_name H x])" and "below S (D @ [backup_name H x])"
  shows "within S (publish_tree H src (D @ [x]) d)"
proof -
  have "within S (\<lambda>s. (if fs_exists (ah_fs H) (D @ [x]) s
      then op_bind (verifies H (D @ [x]) d) (\<lambda>ok. if ok then op_lift (Ok ()) else publish_copy H src (D @ [x]) d)
      else publish_copy H src (D @ [x]) d) s)"
    by (rule withinI) (intro within_if within_bind within_verify within_lift within_publish_copy assms)
  moreover have "publish_tree H src (D @ [x]) d = (\<lambda>s. (if fs_exists (ah_fs H) (D @ [x]) s
      then op_bind (verifies H (D @ [x]) d) (\<lambda>ok. if ok then op_lift (Ok ()) else publish_copy H src (D @ [x]) d)
      else publish_copy H src (D @ [x]) d) s)"
    by (simp add: publish_tree_def fun_eq_iff)
  ultimately show ?thesis by simp
qed

end
