(* ===== verification/Artifact_Materialize.thy ===== *)
theory Artifact_Materialize
  imports Artifact_Catalog
begin

text \<open>
  Where the operations of the catalog and of materialization change the file
  system, and what materialized inputs hold.
\<close>

section \<open>Calls that succeed\<close>

text \<open>An operation that returns a result and changes nothing, from a state with the given tree.\<close>

definition yields :: "tree option \<Rightarrow> 'a fs_op \<Rightarrow> 'a \<Rightarrow> bool" where
  "yields root m x \<longleftrightarrow> (\<forall>s. fs_root s = root \<longrightarrow> fst (m s) = Ok x \<and> fs_root (snd (m s)) = root)"

definition never_fails :: "FsHost \<Rightarrow> bool" where
  "never_fails H \<longleftrightarrow> fh_fail H = (\<lambda>_. None)"

lemma yields_bind: "yields root m x \<Longrightarrow> yields root (f x) y \<Longrightarrow> yields root (op_bind m f) y"
  unfolding yields_def op_bind_def by (fastforce split: prod.splits outcome.splits)

lemma yields_lift: "r = Ok x \<Longrightarrow> yields root (op_lift r) x"
  by (simp add: yields_def op_lift_def)

lemma yields_err: "yields root m x \<Longrightarrow> yields root (map_fs_err f m) x"
  by (simp add: yields_def map_fs_err_def Let_def)

lemma yields_op_ok: "yields root m x \<Longrightarrow> yields root (op_ok m) (Some x)"
  unfolding yields_def op_ok_def by (fastforce split: prod.splits outcome.splits)

lemma yields_read:
  "never_fails H \<Longrightarrow> Option.bind (node_at H p root) (resolve H) = Some (TFile c) \<Longrightarrow> yields root (fs_read H p) c"
  by (simp add: yields_def fs_read_def op_bind_def fs_call_def stat_def never_fails_def)

lemma yields_text:
  "never_fails H \<Longrightarrow> Option.bind (node_at H p root) (resolve H) = Some (TFile c) \<Longrightarrow> valid_utf8 c \<Longrightarrow> yields root (fs_read_text H p) c"
  unfolding fs_read_text_def by (rule yields_bind [OF yields_read yields_lift]) auto

lemma yields_file:
  assumes "never_fails (ah_fs H)" and "node_at (ah_fs H) dir root = Some t" and "item_verified H t item x"
  shows "yields root (verify_file H dir item) x"
proof -
  obtain c where c: "listed_entry item = Ok x" "node_at (ah_fs H) (dir @ [fst x]) root = Some (TFile c)" "artifact_hex H c = snd x"
    using assms(2,3) by (auto simp: item_verified_def node_in)
  obtain name expect where x: "x = (name, expect)" by (cases x)
  have read: "yields root (sha256_file H (dir @ [name])) expect"
    unfolding sha256_file_def using assms(1) c(2,3) x
    by (intro yields_bind [OF yields_read yields_lift]) (simp_all add: resolve_def)
  have guard: "yields root (\<lambda>s. (if is_symlink (ah_fs H) (dir @ [name]) s \<or> \<not> is_file (ah_fs H) (dir @ [name]) s
      then Err e else Ok (), s)) ()" for e
    using c(2) x by (simp add: yields_def is_symlink_def is_file_def stat_def resolve_def)
  show ?thesis
    unfolding verify_file_def c(1) x op_bind_Ok prod.case
    by (rule yields_bind [OF guard yields_bind [OF read]]) (simp add: yields_lift)
qed

lemma yields_files:
  assumes "never_fails (ah_fs H)" and "node_at (ah_fs H) dir root = Some t" and "list_all2 (item_verified H t) items xs"
  shows "yields root (verify_files H dir items) xs"
  using assms(3)
proof (induction items xs rule: list_all2_induct)
  case (Cons item items x xs)
  then show ?case
    by (auto intro!: yields_bind [OF yields_file [OF assms(1,2)]] yields_bind [where x = xs] yields_lift)
qed (simp add: yields_lift)

text \<open>The check accepts every tree that verifies.\<close>

lemma yields_verify:
  assumes "never_fails (ah_fs H)" and "published H dir d root"
  shows "yields root (verify_tree H dir d) ()" and "yields root (verifies H dir d) True"
proof -
  obtain t raw body items checked where t: "node_at (ah_fs H) dir root = Some t"
      "Option.bind (map_of (entries_of (ah_fs H) t) ''manifest.json'') (resolve (ah_fs H)) = Some (TFile raw)"
      "valid_utf8 raw" "ah_parse H raw = Ok body" "manifest_files body d = Ok items"
      "list_all2 (item_verified H t) items checked" "canonical_digest H body checked = Ok d"
    using assms(2) unfolding published_def tree_verified_def by blast
  have raw: "Option.bind (node_at (ah_fs H) (dir @ [''manifest.json'']) root) (resolve (ah_fs H)) = Some (TFile raw)"
    using t(1,2) by (simp add: node_in)
  have digest: "text_field body ''bundleSha256'' = d"
    using t(5) by (simp add: manifest_files_def Let_def split: if_splits)
  show verified: "yields root (verify_tree H dir d) ()"
    unfolding verify_tree_def
    by (rule yields_bind [OF yields_err [OF yields_text [OF assms(1) raw t(3)]]])
      (simp add: t(4,5,7) digest yields_bind [OF yields_files [OF assms(1) t(1,6)]] yields_lift)
  then show "yields root (verifies H dir d) True" by (simp add: yields_def verifies_def Let_def)
qed

section \<open>Where the operations go\<close>

lemma within_option: "(\<And>y. x = Some y \<Longrightarrow> within S (g y)) \<Longrightarrow> within S f \<Longrightarrow> within S (case x of None \<Rightarrow> f | Some y \<Rightarrow> g y)"
  by (cases x) auto

lemma within_prod: "(\<And>a b. within S (f a b)) \<Longrightarrow> within S (case p of (a, b) \<Rightarrow> f a b)"
  by (cases p) auto

lemma below_deeper: "below S p \<Longrightarrow> below S (p @ q)"
  unfolding below_def by (metis prefix_prefix)

lemma near_deeper: "below S p \<Longrightarrow> near S (p @ q)"
  unfolding below_def near_def by (metis prefix_prefix)

lemma within_record_reads [within_intros]:
  "within S (read_record H p)" "within S (stored_content_digest H C dir name)" "within S (object_verified H C d)"
  "within S (legacy_object_ok H C r dirs)" "within S (load_artifact_record H store name)" "within S (recorded_tool H store input tool)"
proof -
  show r: "within S (read_record H p)" for p
    unfolding read_record_def by (intro within_bind within_read within_lift)
  show s: "within S (stored_content_digest H C dir name)" for dir name
    unfolding stored_content_digest_def by (intro within_bind within_op_ok within_lift r)
  show o: "within S (object_verified H C d)" for d
    unfolding object_verified_def by (rule within_verify)
  show "within S (legacy_object_ok H C r dirs)"
    by (induction dirs) (auto intro!: within_bind within_lift s o)
  show "within S (load_artifact_record H store name)"
    unfolding load_artifact_record_def Let_def by (intro within_bind within_err within_read within_lift)
  show "within S (recorded_tool H store input tool)"
    unfolding recorded_tool_def by (intro within_bind within_op_ok within_read within_lift)
qed

lemma within_catalog_reads [within_intros]: "within S (catalog_object_ok H C r)" "within S (changed_identity_field H C r)"
proof -
  show "within S (catalog_object_ok H C r)"
    unfolding catalog_object_ok_def
    by (cases "catalog_key H r") (auto intro!: within_bind within_record_reads within_lift within_option)
  have "within S (changed_in H p r dirs)" for p dirs
    by (induction dirs) (auto intro!: within_bind within_op_ok within_record_reads within_lift within_option)
  then show "within S (changed_identity_field H C r)"
    unfolding changed_identity_field_def
    by (intro within_bind within_op_ok within_read within_option within_lift)
qed

lemma within_atomic_replace [within_intros]:
  assumes "below S d"
  shows "within S (atomic_replace H (d @ [x]) b)"
  unfolding atomic_replace_def Let_def butlast_snoc last_snoc
  by (intro within_bind within_create within_write within_or_else within_rename within_ignore within_remove_file within_lift
      below_deeper assms near_deeper [OF assms, of "[]", simplified])

lemma within_publish_record [within_intros]:
  assumes "below S C"
  shows "within S (publish_record_tree H C r object)"
proof -
  have o: "object_path C d = (C @ [''objects'']) @ [d]" for d by (simp add: object_path_def)
  have p: "record_path C key n = (C @ [''records'', key]) @ [json_file n]" for key n by (simp add: record_path_def)
  have lock: "C @ [''records'', key, n] = (C @ [''records'', key]) @ [n]" for key n by simp
  have "within S (publish_under_lock H C key r object)" for key r
    unfolding publish_under_lock_def o p
    by (intro within_bind within_if within_record_reads within_lift within_publish_tree within_atomic_replace below_deeper assms)
  then show ?thesis
    unfolding publish_record_tree_def lock
    by (intro within_bind within_lift within_create within_lock near_deeper below_deeper assms)
      (simp only: butlast_snoc near_deeper assms)
qed

lemma within_publish_to [within_intros]:
  "(\<And>C. catalog = Some C \<Longrightarrow> below S C) \<Longrightarrow> within S (publish_to H catalog r object)"
  unfolding publish_to_def accept_catalog_publish_def
  by (intro within_option within_or_else within_publish_record within_if within_lift)

lemma within_decision [within_intros]:
  "below S (store @ [''decisions'']) \<Longrightarrow> within S (write_materialize_decision H store input r transfer decision changed)"
  unfolding write_materialize_decision_def
  using below_deeper [of S "store @ [''decisions'']" "[json_file input]"] near_deeper [of S "store @ [''decisions'']" "[]"]
  by (auto intro!: within_bind within_create within_record_reads within_write)

lemma within_extract [within_intros]:
  assumes "below S staging"
  shows "within S (safe_extract H archive staging)"
proof -
  have unpack: "within S (unpack_entry H (staging @ cs) e)" for cs e
  proof -
    have "within S (\<lambda>s. (if is_dir H (butlast (staging @ cs)) s then create_dir_all H (staging @ cs) else op_lift (Err not_found)) s)"
      by (rule withinI) (intro within_if within_create within_lift near_deeper assms)
    then have "within S (\<lambda>s. if is_dir H (butlast (staging @ cs)) s then create_dir_all H (staging @ cs) s else (Err not_found, s))"
      by (simp add: op_lift_def if_distrib [of "\<lambda>m. m _"] cong: if_cong)
    moreover have "within S (write_file H (staging @ cs) (te_data e))"
      by (intro within_write below_deeper assms)
    ultimately show ?thesis
      unfolding unpack_entry_def by (cases "te_kind e") simp_all
  qed
  have "within S (extract_entries H staging rs counts)" for rs counts
    by (induction rs arbitrary: counts)
      (auto intro!: within_bind within_lift within_err within_pure unpack)
  then show ?thesis
    unfolding safe_extract_def
    using near_deeper [OF assms, of "[]"] by (auto intro!: within_bind within_lift within_create within_call)
qed

lemma within_finally:
  "within S m \<Longrightarrow> within S f \<Longrightarrow> within S (\<lambda>s. case m s of (r, s1) \<Rightarrow> (r, snd (f s1)))"
  unfolding within_def
proof (intro allI impI tripleI)
  fix Q and s :: FsState
  assume m: "\<forall>Q. (\<forall>p \<in> S. spares p Q) \<longrightarrow> triple (\<lambda>s. Q (fs_root s)) m (\<lambda>_ s. Q (fs_root s)) (\<lambda>s. Q (fs_root s))"
    and f: "\<forall>Q. (\<forall>p \<in> S. spares p Q) \<longrightarrow> triple (\<lambda>s. Q (fs_root s)) f (\<lambda>_ s. Q (fs_root s)) (\<lambda>s. Q (fs_root s))"
    and Q: "\<forall>p \<in> S. spares p Q" "Q (fs_root s)"
  obtain r s1 where run: "m s = (r, s1)" by (cases "m s")
  have "Q (fs_root s1)" using triple_snd [of "\<lambda>s. Q (fs_root s)" m "\<lambda>s. Q (fs_root s)" s] m Q run by auto
  then have "Q (fs_root (snd (f s1)))" using triple_snd [of "\<lambda>s. Q (fs_root s)" f "\<lambda>s. Q (fs_root s)" s1] f Q(1) by blast
  then show "case (case m s of (r, s1) \<Rightarrow> (r, snd (f s1))) of (Ok x, s) \<Rightarrow> Q (fs_root s) | (_, s) \<Rightarrow> Q (fs_root s)"
    by (cases r) (simp_all add: run)
qed

section \<open>One input\<close>

text \<open>The record the checkout holds for an input.\<close>

definition record_of :: "ArtifactHost \<Rightarrow> path \<Rightarrow> string \<Rightarrow> tree option \<Rightarrow> ArtifactRecord option" where
  "record_of H store input root =
     (case Option.bind (node_at (ah_fs H) (store @ [''records'', json_file input]) root) (resolve (ah_fs H)) of
        Some (TFile raw) \<Rightarrow> (case parse_record H raw of Ok r \<Rightarrow> Some r | _ \<Rightarrow> None)
      | _ \<Rightarrow> None)"

lemma reads_record: "reads root (load_artifact_record H store input) (\<lambda>r. record_of H store input root = Some r)"
  unfolding load_artifact_record_def Let_def
proof (rule reads_bind [OF reads_err [OF reads_text]],
    rule reads_bind [OF reads_lift [where Q = "\<lambda>v. ah_parse H _ = Ok v"]], simp, rule reads_lift)
  fix raw v r
  assume "Option.bind (node_at (ah_fs H) (store @ [''records'', json_file input]) root) (resolve (ah_fs H)) = Some (TFile raw) \<and>
      valid_utf8 raw" and "ah_parse H raw = Ok v" and "ArtifactRecord_from_value v = Ok r"
  then show "record_of H store input root = Some r" by (simp add: record_of_def parse_record_def)
qed

lemma spares_ball: "(\<And>i. i \<in> A \<Longrightarrow> spares s (Q i)) \<Longrightarrow> spares s (\<lambda>r. \<forall>i \<in> A. Q i r)"
  unfolding spares_def by blast

lemma spares_published:
  "\<not> prefix s p \<Longrightarrow> \<not> prefix p s \<Longrightarrow> spares s (published H p d)"
  unfolding published_def by (rule spares_node)

lemma triple_publish_to:
  assumes "beside H D x F" and "publishable H D x" and "\<And>R. F R \<Longrightarrow> plain_path D R"
  shows "triple (\<lambda>s. F (fs_root s)) (publish_tree H src (D @ [x]) d)
    (\<lambda>_ s. F (fs_root s) \<and> published H (D @ [x]) d (fs_root s)) (\<lambda>s. F (fs_root s))"
proof (rule triple_pre)
  fix s :: FsState
  assume "F (fs_root s)"
  then show "triple (\<lambda>x. x = s) (publish_tree H src (D @ [x]) d)
      (\<lambda>_ s. F (fs_root s) \<and> published H (D @ [x]) d (fs_root s)) (\<lambda>s. F (fs_root s))"
    by (intro triple_conseq [OF triple_publish_tree [OF assms(1,2), of "node_at (ah_fs H) (D @ [x]) (fs_root s)"]])
      (auto simp: assms(3))
qed

lemma triple_within:
  "within S m \<Longrightarrow> (\<And>p. p \<in> S \<Longrightarrow> spares p F) \<Longrightarrow> (\<And>s. P s \<Longrightarrow> F (fs_root s)) \<Longrightarrow>
   triple P m (\<lambda>_ s. F (fs_root s)) (\<lambda>s. F (fs_root s))"
  by (rule triple_conseq [OF withinD [of S m F]]) auto

lemma triple_at: "(\<And>s. triple (\<lambda>x. x = s \<and> P s) (m s) Q E) \<Longrightarrow> triple P (\<lambda>s. m s s) Q E"
  by (simp add: triple_def)

lemma triple_restore:
  assumes "beside H D x F" and "publishable H D x" and "\<And>R. F R \<Longrightarrow> plain_path D R"
  shows "triple (\<lambda>s. F (fs_root s)) (restore_object H src (D @ [x]) d)
    (\<lambda>_ s. F (fs_root s) \<and> published H (D @ [x]) d (fs_root s)) (\<lambda>s. F (fs_root s))"
proof -
  let ?Q = "\<lambda>(_ :: unit) s. F (fs_root s) \<and> published H (D @ [x]) d (fs_root s)"
  note publish = triple_publish_to [OF assms, of src d]
  have check: "triple (\<lambda>s. F (fs_root s)) (op_bind (verifies H (D @ [x]) d)
      (\<lambda>ok. if ok then op_lift (Ok ()) else publish_tree H src (D @ [x]) d)) ?Q (\<lambda>s. F (fs_root s))"
  proof (rule triple_bind [OF triple_verifies])
    show "triple (\<lambda>s. F (fs_root s) \<and> (ok \<longrightarrow> (\<exists>t. node_at (ah_fs H) (D @ [x]) (fs_root s) = Some t \<and> tree_verified H t d)))
        (if ok then op_lift (Ok ()) else publish_tree H src (D @ [x]) d) ?Q (\<lambda>s. F (fs_root s))" for ok
      using triple_conseq [OF publish, of "\<lambda>s. F (fs_root s)"]
      by (cases ok) (auto intro!: triple_lift simp: published_def)
  qed
  have rest: "triple (\<lambda>s. F (fs_root s)) (\<lambda>s. if fs_exists (ah_fs H) (D @ [x]) s
      then op_bind (verifies H (D @ [x]) d) (\<lambda>ok. if ok then op_lift (Ok ()) else publish_tree H src (D @ [x]) d) s
      else publish_tree H src (D @ [x]) d s) ?Q (\<lambda>s. F (fs_root s))"
    by (rule tripleI) (use check publish in \<open>simp add: triple_def\<close>)
  show ?thesis
    unfolding restore_object_def
    by (rule triple_bind [OF triple_within [OF within_verify(1), of "{}"] rest]) simp_all
qed

lemma within_unpacked: "within S (unpacked_tree H p)"
proof -
  have "within S (\<lambda>s. (if is_file (ah_fs H) (p @ [''manifest.json'']) s then op_lift (Ok p)
    else op_bind (read_dir (ah_fs H) p) (\<lambda>es s. (ok_or ''fetched bundle has no manifest'' (find_manifest H p (map fst es) s), s))) s)"
    by (rule withinI) (intro within_if within_bind within_read within_lift within_pure)
  then show ?thesis
    by (simp add: unpacked_tree_def [abs_def] op_lift_def if_distrib [of "\<lambda>m. m _"] cong: if_cong)
qed

text \<open>A directory is removed after an operation whatever it returned.\<close>

lemma triple_then_remove:
  assumes "triple (\<lambda>s. F (fs_root s)) m (\<lambda>_ s. F (fs_root s) \<and> G (fs_root s)) (\<lambda>s. F (fs_root s))"
    and "spares p F" and "spares p (\<lambda>R. F R \<and> G R)"
  shows "triple (\<lambda>s. F (fs_root s)) (\<lambda>s. case m s of (res, s1) \<Rightarrow> (res, snd (remove_dir_all H p s1)))
    (\<lambda>_ s. F (fs_root s) \<and> G (fs_root s)) (\<lambda>s. F (fs_root s))"
proof (rule tripleI)
  fix s :: FsState
  assume s: "F (fs_root s)"
  obtain res s1 where run: "m s = (res, s1)" by (cases "m s")
  have p: "case (res, s1) of (Ok u, s1) \<Rightarrow> F (fs_root s1) \<and> G (fs_root s1) | (_, s1) \<Rightarrow> F (fs_root s1)"
    using tripleD [OF assms(1), of s] s by (simp add: run)
  have keep: "K (fs_root (snd (remove_dir_all H p s1)))" if "spares p K" "K (fs_root s1)" for K
    by (rule triple_snd [OF triple_remove_below [OF that(1)]]) (rule that(2))
  show "case (case m s of (res, s1) \<Rightarrow> (res, snd (remove_dir_all H p s1))) of
      (Ok u, s) \<Rightarrow> F (fs_root s) \<and> G (fs_root s) | (_, s) \<Rightarrow> F (fs_root s)"
    using p keep [OF assms(3)] keep [OF assms(2)] unfolding run by (cases res) simp_all
qed

text \<open>A fetched tree is verified before it replaces the destination.\<close>

lemma triple_fetch:
  assumes "beside H D x F" and "publishable H D x" and "\<And>R. F R \<Longrightarrow> plain_path D R"
    and "spares (D @ [fetch_name H x]) F" and "x \<noteq> fetch_name H x"
  shows "triple (\<lambda>s. F (fs_root s)) (fetch_remote H fetch r (D @ [x]))
    (\<lambda>_ s. F (fs_root s) \<and> published H (D @ [x]) (ar_content_digest r) (fs_root s)) (\<lambda>s. F (fs_root s))"
proof (cases "ar_attempt_id r = []")
  case True
  then show ?thesis by (simp add: fetch_remote_def triple_def op_lift_def)
next
  case False
  let ?st = "D @ [fetch_name H x]" and ?d = "ar_content_digest r"
  let ?Q = "\<lambda>(_ :: unit) s. F (fs_root s) \<and> published H (D @ [x]) ?d (fs_root s)" and ?E = "\<lambda>s. F (fs_root s)"
  define G where "G R \<longleftrightarrow> F R \<and> published H (D @ [x]) ?d R" for R
  have st: "with_extension (D @ [x]) (''fetch-'' @ show_nat (ah_pid H)) = ?st"
    by (simp add: with_extension_def fetch_name_def)
  have G: "spares ?st G"
    unfolding G_def using assms(4,5) by (auto intro!: spares_conj spares_published)
  have in_staging: "triple ?E m (\<lambda>_. ?E) ?E" if "within {?st} m" for m :: "'b fs_op"
    by (rule triple_within [OF that]) (use assms(4) in auto)
  have below: "below {?st} (?st @ q)" for q by (simp add: below_def)
  have near: "near {?st} ?st" by (simp add: near_def)
  have remove: "within {?st} (remove_dir_all (ah_fs H) ?st)"
    using within_remove_dir [OF below [of "[]"]] by simp
  have last: "triple ?E (\<lambda>s. case publish_tree H tree (D @ [x]) ?d s of (res, s1) \<Rightarrow> (res, snd (remove_dir_all (ah_fs H) ?st s1))) ?Q ?E"
    for tree
    by (rule triple_then_remove [OF triple_publish_to [OF assms(1-3)] assms(4) G [unfolded G_def]])
  have fetched: "triple ?E (op_bind (safe_extract (ah_fs H) archive (?st @ [''unpacked''])) (\<lambda>_.
      op_bind (unpacked_tree H (?st @ [''unpacked''])) (\<lambda>tree.
      op_bind (verify_tree H tree ?d) (\<lambda>_ s. case publish_tree H tree (D @ [x]) ?d s of
        (res, s1) \<Rightarrow> (res, snd (remove_dir_all (ah_fs H) ?st s1)))))) ?Q ?E" for archive
    by (rule triple_bind [OF in_staging [OF within_extract [OF below]]],
        rule triple_bind [OF in_staging [OF within_unpacked]], rule triple_bind [OF in_staging [OF within_verify(1)] last])
  have failed: "triple ?E (op_bind (ignore_result (remove_dir_all (ah_fs H) ?st)) (\<lambda>_. op_lift (Err e))) ?Q ?E" for e :: string
    by (rule triple_bind [OF in_staging [OF within_ignore [OF remove]]]) (rule triple_fail)
  show ?thesis
    unfolding fetch_remote_def Let_def st if_not_P [OF False]
  proof (rule triple_bind [OF in_staging [OF within_ignore [OF remove]]],
      rule triple_bind [OF in_staging [OF within_create [OF near]]], rule triple_bind [OF in_staging [OF within_lift]])
    fix answer
    show "triple ?E (case answer of (code, archive) \<Rightarrow>
        if code \<noteq> Some 0 then op_bind (ignore_result (remove_dir_all (ah_fs H) ?st)) (\<lambda>_.
          op_lift (Err (''nixplane execution fetch failed with '' @ show_nat (case code of None \<Rightarrow> 1 | Some c \<Rightarrow> nat c))))
        else op_bind (safe_extract (ah_fs H) archive (?st @ [''unpacked''])) (\<lambda>_.
          op_bind (unpacked_tree H (?st @ [''unpacked''])) (\<lambda>tree.
          op_bind (verify_tree H tree ?d) (\<lambda>_ s. case publish_tree H tree (D @ [x]) ?d s of
            (res, s1) \<Rightarrow> (res, snd (remove_dir_all (ah_fs H) ?st s1)))))) ?Q ?E"
      using fetched failed by (cases answer) simp
  qed
qed

text \<open>A property of the tree that the materialization of an input does not touch.\<close>

definition untouched :: "ArtifactHost \<Rightarrow> path option \<Rightarrow> path \<Rightarrow> string \<Rightarrow> (tree option \<Rightarrow> bool) \<Rightarrow> bool" where
  "untouched H catalog store x F \<longleftrightarrow> beside H (store @ [''materialized'']) x F \<and>
     spares (store @ [''materialized'', fetch_name H x]) F \<and> spares (store @ [''objects'']) F \<and>
     spares (store @ [''decisions'']) F \<and> (\<forall>C. catalog = Some C \<longrightarrow> spares C F)"

text \<open>The catalog lies apart from the store of the checkout.\<close>

definition apart :: "path option \<Rightarrow> path \<Rightarrow> bool" where
  "apart catalog store \<longleftrightarrow> (case catalog of None \<Rightarrow> True | Some C \<Rightarrow> \<not> prefix C store \<and> \<not> prefix store C)"

lemma apart_below: "apart (Some C) store \<Longrightarrow> \<not> prefix C (store @ q) \<and> \<not> prefix (store @ q) C"
  unfolding apart_def using prefix_same_cases [of C "store @ q" store] prefix_order.trans [of store "store @ q" C] by auto

text \<open>The names an input uses are no input's name.\<close>

definition own_name :: "ArtifactHost \<Rightarrow> string \<Rightarrow> bool" where
  "own_name H x \<longleftrightarrow> x \<noteq> stage_name H x \<and> x \<noteq> backup_name H x \<and> x \<noteq> fetch_name H x"

lemma triple_materialize_own:
  fixes store
  defines "D \<equiv> store @ [''materialized'']"
  assumes F: "untouched H catalog store x F" "\<And>R. F R \<Longrightarrow> plain_path D R"
    and names: "own_name H x" and catalog: "apart catalog store"
  shows "triple (\<lambda>s. F (fs_root s)) (materialize_own H fetch catalog store x r changed)
    (\<lambda>_ s. F (fs_root s) \<and> published H (D @ [x]) (ar_content_digest r) (fs_root s)) (\<lambda>s. F (fs_root s))"
proof -
  let ?d = "ar_content_digest r" and ?o = "object_path store (ar_content_digest r)"
  let ?E = "\<lambda>s. F (fs_root s)"
  define G where "G R \<longleftrightarrow> F R \<and> published H (D @ [x]) ?d R" for R
  let ?Q = "\<lambda>(_ :: unit) s. G (fs_root s)"
  define T where "T = {store @ [''objects''], store @ [''decisions'']} \<union> {C. catalog = Some C}"
  have FT: "p \<in> T \<Longrightarrow> spares p F" for p using F(1) by (auto simp: T_def untouched_def)
  have GT: "p \<in> T \<Longrightarrow> spares p G" for p
  proof -
    assume p: "p \<in> T"
    have "\<not> prefix p (D @ [x])" "\<not> prefix (D @ [x]) p"
      using p catalog apart_below [of p store "[''materialized'', x]"] by (auto simp: T_def D_def)
    then show ?thesis unfolding G_def by (intro spares_conj FT [OF p] spares_published)
  qed
  have beside: "beside H D x F" and fetch: "spares (D @ [fetch_name H x]) F" and publishable: "publishable H D x"
    using F(1) names by (auto simp: untouched_def D_def publishable_def own_name_def)
  have keepF: "triple ?E m (\<lambda>_. ?E) ?E" if "within T m" for m :: "'b fs_op"
    by (rule triple_within [OF that FT]) auto
  have keepG: "triple (\<lambda>s. G (fs_root s)) m (\<lambda>_ s. G (fs_root s)) ?E" if "within T m" for m :: "'b fs_op"
    by (rule triple_conseq [OF triple_within [OF that GT, of "\<lambda>s. G (fs_root s)"]]) (auto simp: G_def)
  have decision: "within T (write_materialize_decision H store x r transfer decision changed)" for transfer decision
    by (rule within_decision) (simp add: below_def T_def)
  have to_catalog: "within T (publish_to H catalog r p)" for p
    by (rule within_publish_to) (auto simp: below_def T_def)
  have object: "?o = (store @ [''objects'']) @ [?d]" by (simp add: object_path_def)
  have to_object: "within T (publish_tree H p ?o ?d)" for p
    unfolding object by (intro within_publish_tree) (auto simp: below_def T_def)
  have restored: "triple ?E (restore_object H src (D @ [x]) ?d) ?Q ?E" for src
    unfolding G_def by (rule triple_restore [OF beside publishable F(2)])
  have fetch_triple: "triple ?E (fetch_remote H fetch r (D @ [x])) ?Q ?E"
    unfolding G_def by (rule triple_fetch [OF beside publishable F(2) fetch]) (use names in \<open>simp_all add: own_name_def\<close>)
  have own: "triple ?E (op_bind (publish_to H catalog r ?o) (\<lambda>_.
      op_bind (restore_local H store r (D @ [x])) (\<lambda>_. write_materialize_decision H store x r ''local'' ''hit'' changed))) ?Q ?E"
    unfolding restore_local_def
    by (rule triple_bind [OF keepF [OF to_catalog]],
        rule triple_bind [OF restored keepG [OF decision]])
  have fetched: "triple ?E (op_bind (fetch_remote H fetch r (D @ [x])) (\<lambda>_.
      op_bind (verifies H (D @ [x]) ?d) (\<lambda>good.
      op_bind (if good then op_bind (publish_tree H (D @ [x]) ?o ?d) (\<lambda>_. publish_to H catalog r (D @ [x])) else op_lift (Ok ())) (\<lambda>_.
      write_materialize_decision H store x r ''fetch'' ''miss'' changed)))) ?Q ?E"
    by (rule triple_bind [OF fetch_triple])
      (intro keepG within_bind within_verify within_if to_object to_catalog within_lift decision)
  have refused: "triple ?E (op_bind (if corrupt then verify_tree H ?o ?d else op_lift (Ok ())) (\<lambda>_. op_lift (Err e))) ?Q ?E" for corrupt e
    by (rule triple_bind [OF keepF [OF within_if [OF within_verify(1) within_lift]]]) (rule triple_fail)
  have absent: "triple ?E (\<lambda>s. let corrupt = is_file (ah_fs H) (?o @ [''manifest.json'']) s in
      if ar_attempt_id r \<noteq> [] \<and> (corrupt \<or> \<not> fs_exists (ah_fs H) ?o s) then
        op_bind (fetch_remote H fetch r (D @ [x])) (\<lambda>_.
        op_bind (verifies H (D @ [x]) ?d) (\<lambda>good.
        op_bind (if good then op_bind (publish_tree H (D @ [x]) ?o ?d) (\<lambda>_. publish_to H catalog r (D @ [x])) else op_lift (Ok ())) (\<lambda>_.
        write_materialize_decision H store x r ''fetch'' ''miss'' changed))) s
      else op_bind (if corrupt then verify_tree H ?o ?d else op_lift (Ok ())) (\<lambda>_.
           op_lift (Err (''artifact '' @ x @ '' is not available locally and has no attempt id''))) s) ?Q ?E"
    by (rule tripleI, unfold Let_def, split if_split) (intro conjI impI tripleD [OF fetched] tripleD [OF refused])
  have D: "store @ [''materialized'', x] = D @ [x]" by (simp add: D_def)
  have "triple ?E (materialize_own H fetch catalog store x r changed) ?Q ?E"
    unfolding materialize_own_def D Let_def [of "D @ [x]"] Let_def [of ?o]
    by (rule triple_bind [OF keepF [OF within_verify(2)]]) (use own absent in \<open>simp split: if_split\<close>)
  then show ?thesis by (simp add: G_def)
qed

lemma triple_materialize_cached:
  fixes store
  defines "D \<equiv> store @ [''materialized'']"
  assumes F: "untouched H (Some C) store x F" "\<And>R. F R \<Longrightarrow> plain_path D R"
    and names: "own_name H x" and catalog: "apart (Some C) store"
  shows "triple (\<lambda>s. F (fs_root s))
    (op_bind (with_exclusive_lock (ah_fs H) (object_lock_path C (ar_content_digest r))
       (publish_tree H (object_path C (ar_content_digest r)) (object_path store (ar_content_digest r)) (ar_content_digest r))) (\<lambda>_.
     op_bind (restore_local H store r (D @ [x])) (\<lambda>_.
     write_materialize_decision H store x r ''local'' ''hit'' changed)))
    (\<lambda>_ s. F (fs_root s) \<and> published H (D @ [x]) (ar_content_digest r) (fs_root s)) (\<lambda>s. F (fs_root s))"
proof -
  let ?d = "ar_content_digest r" and ?T = "{store @ [''objects''], C}"
  let ?G = "\<lambda>R. F R \<and> published H (D @ [x]) ?d R"
  have object: "object_path store ?d = (store @ [''objects'']) @ [?d]" by (simp add: object_path_def)
  have lock: "object_lock_path C ?d = (C @ [''locks'']) @ [?d @ ''.lock'']" by (simp add: object_lock_path_def)
  have "within ?T (with_exclusive_lock (ah_fs H) (object_lock_path C ?d) (publish_tree H p (object_path store ?d) ?d))" for p
    unfolding object lock butlast_snoc
    by (intro within_lock within_publish_tree) (auto simp: below_def near_def butlast_append)
  then have locked: "triple (\<lambda>s. F (fs_root s)) (with_exclusive_lock (ah_fs H) (object_lock_path C ?d) (publish_tree H p (object_path store ?d) ?d))
      (\<lambda>_ s. F (fs_root s)) (\<lambda>s. F (fs_root s))" for p
    by (rule triple_within) (use F(1) in \<open>auto simp: untouched_def\<close>)
  have restored: "triple (\<lambda>s. F (fs_root s)) (restore_local H store r (D @ [x])) (\<lambda>_ s. ?G (fs_root s)) (\<lambda>s. F (fs_root s))"
    unfolding restore_local_def
    by (rule triple_restore) (use F names in \<open>auto simp: untouched_def D_def publishable_def own_name_def\<close>)
  have "spares (store @ [''decisions'']) ?G"
    using F(1) by (auto simp: untouched_def D_def intro!: spares_conj spares_published)
  then have "triple (\<lambda>s. ?G (fs_root s)) (write_materialize_decision H store x r ''local'' ''hit'' changed)
      (\<lambda>_ s. ?G (fs_root s)) (\<lambda>s. ?G (fs_root s))"
    by (intro triple_within [of "{store @ [''decisions'']}"] within_decision) (auto simp: below_def)
  then have decided: "triple (\<lambda>s. ?G (fs_root s)) (write_materialize_decision H store x r ''local'' ''hit'' changed)
      (\<lambda>_ s. ?G (fs_root s)) (\<lambda>s. F (fs_root s))"
    by (rule triple_conseq) auto
  show ?thesis by (rule triple_bind [OF locked triple_bind [OF restored decided]])
qed

lemma triple_pure: "(A \<Longrightarrow> triple P m Q E) \<Longrightarrow> triple (\<lambda>s. P s \<and> A) m Q E"
  by (simp add: triple_def)

lemma triple_materialize_input:
  fixes store
  defines "D \<equiv> store @ [''materialized'']"
  assumes F: "untouched H catalog store x F" "\<And>R. F R \<Longrightarrow> plain_path D R"
    and names: "own_name H x" and catalog: "apart catalog store"
    and rec: "\<And>R. F R \<Longrightarrow> record_of H store x R = rec"
  shows "triple (\<lambda>s. F (fs_root s)) (materialize_input H fetch catalog store x)
    (\<lambda>_ s. F (fs_root s) \<and> (\<exists>r. rec = Some r \<and> published H (D @ [x]) (ar_content_digest r) (fs_root s))) (\<lambda>s. F (fs_root s))"
    (is "triple ?E _ ?Q _")
proof -
  have D: "store @ [''materialized'', x] = D @ [x]" by (simp add: D_def)
  have keep: "triple ?E m (\<lambda>_. ?E) ?E" if "within {} m" for m :: "'b fs_op"
    by (rule triple_within [OF that]) auto
  have load: "triple ?E (load_artifact_record H store x) (\<lambda>r s. F (fs_root s) \<and> rec = Some r) ?E"
    by (rule triple_conseq [OF triple_reads [OF reads_record]]) (use rec in auto)
  have run: "triple ?E (if cached then
       op_bind (with_exclusive_lock (ah_fs H) (object_lock_path (the catalog) (ar_content_digest r))
         (publish_tree H (object_path (the catalog) (ar_content_digest r)) (object_path store (ar_content_digest r)) (ar_content_digest r))) (\<lambda>_.
       op_bind (restore_local H store r (D @ [x])) (\<lambda>_. write_materialize_decision H store x r ''local'' ''hit'' changed))
     else materialize_own H fetch catalog store x r changed) ?Q ?E"
    if r: "rec = Some r" and c: "cached \<Longrightarrow> catalog \<noteq> None" for r cached changed
  proof (cases cached)
    case True
    with c obtain C where "catalog = Some C" by auto
    then show ?thesis
      using True F names catalog r triple_conseq [OF triple_materialize_cached [of H C store x F r changed, folded D_def], where P' = ?E and Q' = ?Q and E' = ?E]
      by simp
  next
    case False
    have "triple ?E (materialize_own H fetch catalog store x r changed) ?Q ?E"
      by (rule triple_conseq [OF triple_materialize_own [OF F [unfolded D_def] names catalog]]) (auto simp: r D_def)
    then show ?thesis using False by simp
  qed
  have lookup: "triple ?E (case catalog of None \<Rightarrow> op_lift (Ok False) | Some C \<Rightarrow> catalog_object_ok H C r)
      (\<lambda>cached s. F (fs_root s) \<and> (cached \<longrightarrow> catalog \<noteq> None)) ?E" for r
    by (cases catalog) (auto intro: triple_lift triple_conseq [OF keep [OF within_catalog_reads(1)]])
  have rest: "triple (\<lambda>s. F (fs_root s) \<and> rec = Some r)
     (op_bind (case catalog of None \<Rightarrow> op_lift (Ok None) | Some C \<Rightarrow> changed_identity_field H C r) (\<lambda>field.
     let changed = (case field of Some f \<Rightarrow> f | None \<Rightarrow> []); digest = ar_content_digest r in
     op_bind (case catalog of None \<Rightarrow> op_lift (Ok False) | Some C \<Rightarrow> catalog_object_ok H C r) (\<lambda>cached.
     if cached then
       op_bind (with_exclusive_lock (ah_fs H) (object_lock_path (the catalog) digest)
         (publish_tree H (object_path (the catalog) digest) (object_path store digest) digest)) (\<lambda>_.
       op_bind (restore_local H store r (D @ [x])) (\<lambda>_.
       write_materialize_decision H store x r ''local'' ''hit'' changed))
     else materialize_own H fetch catalog store x r changed))) ?Q ?E" for r
    unfolding Let_def
    by (rule triple_pure, rule triple_bind [OF keep [OF within_option [OF within_catalog_reads(2) within_lift]]],
        rule triple_bind [OF lookup], rule triple_pure, rule run) auto
  show ?thesis
    unfolding materialize_input_def D
    by (rule triple_bind [OF keep [OF within_lift]], rule triple_bind [OF load rest])
qed

section \<open>All inputs\<close>

text \<open>No input is named like the stage, the backup or the fetched tree of another or of itself.\<close>

definition separate_names :: "ArtifactHost \<Rightarrow> string list \<Rightarrow> bool" where
  "separate_names H inputs \<longleftrightarrow>
     list_all (\<lambda>i. list_all (\<lambda>j. i \<noteq> stage_name H j \<and> i \<noteq> backup_name H j \<and> i \<noteq> fetch_name H j) inputs) inputs"

text \<open>The records are as at the start, and the inputs done so far are in place.\<close>

definition in_place ::
  "ArtifactHost \<Rightarrow> path \<Rightarrow> (string \<Rightarrow> ArtifactRecord option) \<Rightarrow> string list \<Rightarrow> string set \<Rightarrow> tree option \<Rightarrow> bool" where
  "in_place H store rec inputs done' R \<longleftrightarrow>
     plain_path (store @ [''materialized'']) R \<and> (\<forall>i \<in> set inputs. record_of H store i R = rec i) \<and>
     (\<forall>i \<in> done'. \<exists>r. rec i = Some r \<and> published H (store @ [''materialized'', i]) (ar_content_digest r) R)"

lemma in_place_untouched:
  assumes "separate_names H inputs" and "apart catalog store" and "x \<in> set inputs" and "A \<subseteq> set inputs"
  shows "untouched H catalog store x (in_place H store rec inputs (A - {x}))"
proof -
  let ?D = "store @ [''materialized'']"
  have spared: "spares p (in_place H store rec inputs (A - {x}))"
    if p: "\<not> prefix p ?D" "\<And>i. i \<in> set inputs \<Longrightarrow> \<not> prefix p (store @ [''records'', json_file i]) \<and> \<not> prefix (store @ [''records'', json_file i]) p"
      "\<And>i. i \<in> A - {x} \<Longrightarrow> \<not> prefix p (?D @ [i]) \<and> \<not> prefix (?D @ [i]) p" for p
  proof -
    have "spares p (\<lambda>R. \<exists>r. rec i = Some r \<and> published H (?D @ [i]) (ar_content_digest r) R)" if "i \<in> A - {x}" for i
      using p(3) [OF that] spares_published [of p "?D @ [i]" H] by (cases "rec i") (simp_all add: spares_const)
    moreover have "spares p (\<lambda>R. record_of H store i R = rec i)" if "i \<in> set inputs" for i
      unfolding record_of_def using p(2) [OF that] by (intro spares_node) auto
    ultimately show ?thesis
      unfolding in_place_def using p(1) by (intro spares_conj spares_plain spares_ball) simp_all
  qed
  have sibling: "spares (?D @ [y]) (in_place H store rec inputs (A - {x}))" if "\<And>i. i \<in> A - {x} \<Longrightarrow> i \<noteq> y" for y
    by (rule spared) (use that in auto)
  have other: "i \<noteq> stage_name H x" "i \<noteq> backup_name H x" "i \<noteq> fetch_name H x" if "i \<in> A" for i
    using that assms by (auto simp: separate_names_def list_all_iff)
  have "spares C (in_place H store rec inputs (A - {x}))" if "catalog = Some C" for C
    by (rule spared) (use assms(2) that apart_below [of C store] in auto)
  moreover have "spares (store @ [d]) (in_place H store rec inputs (A - {x}))" if "d = ''objects'' \<or> d = ''decisions''" for d
    by (rule spared) (use that in auto)
  ultimately show ?thesis
    using sibling [of x] sibling [of "stage_name H x"] sibling [of "backup_name H x"] sibling [of "fetch_name H x"] other
    unfolding untouched_def beside_def by auto
qed

lemma triple_materialize_each:
  assumes "separate_names H inputs" and "apart catalog store" and "set xs \<subseteq> set inputs" and "A \<subseteq> set inputs"
  shows "triple (\<lambda>s. in_place H store rec inputs A (fs_root s)) (op_each (materialize_input H fetch catalog store) xs)
    (\<lambda>_ s. in_place H store rec inputs (A \<union> set xs) (fs_root s)) (\<lambda>_. True)"
  using assms(3,4)
proof (induction xs arbitrary: A)
  case Nil
  then show ?case by (simp add: triple_def op_lift_def)
next
  case (Cons x xs)
  let ?F = "in_place H store rec inputs (A - {x})"
  have "own_name H x" using assms(1) Cons(2) by (auto simp: separate_names_def own_name_def list_all_iff)
  then have one: "triple (\<lambda>s. ?F (fs_root s)) (materialize_input H fetch catalog store x)
      (\<lambda>_ s. ?F (fs_root s) \<and> (\<exists>r. rec x = Some r \<and> published H (store @ [''materialized''] @ [x]) (ar_content_digest r) (fs_root s)))
      (\<lambda>s. ?F (fs_root s))"
    using triple_materialize_input [OF in_place_untouched [OF assms(1,2) _ Cons(3)], of x rec "rec x" fetch] assms(2) Cons(2)
    by (simp add: in_place_def)
  have "triple (\<lambda>s. in_place H store rec inputs A (fs_root s)) (materialize_input H fetch catalog store x)
      (\<lambda>_ s. in_place H store rec inputs (insert x A) (fs_root s)) (\<lambda>_. True)"
    by (rule triple_conseq [OF one]) (auto simp: in_place_def)
  moreover have "triple (\<lambda>s. in_place H store rec inputs (insert x A) (fs_root s)) (op_each (materialize_input H fetch catalog store) xs)
      (\<lambda>_ s. in_place H store rec inputs (A \<union> set (x # xs)) (fs_root s)) (\<lambda>_. True)"
    using Cons(1) [of "insert x A"] Cons(2,3) by simp
  ultimately show ?case by (auto intro: triple_bind)
qed

text \<open>
  C20: When the materialization of a workflow's inputs succeeds, from whatever the
  checkout, the catalog and the fetch command hold and whichever of their calls
  fail on the way, every input's destination holds a tree that verifies against
  the digest of the record the checkout had for that input.  The catalog lies
  apart from the checkout's store, no link is among the directories of the
  destinations, and no input is named like a stage, backup or fetched tree.
\<close>

theorem materialize_inputs_verified:
  assumes "materialize_inputs_from H fetch catalog root inputs s = (Ok (), s')" and "i \<in> set inputs"
    and "separate_names H inputs" and "apart catalog (root @ [''.nxr'', ''artifacts''])"
    and "plain_path (root @ [''.nxr'', ''artifacts'', ''materialized'']) (fs_root s)"
  shows "\<exists>r. record_of H (root @ [''.nxr'', ''artifacts'']) i (fs_root s) = Some r \<and>
    published H (root @ [''.nxr'', ''artifacts'', ''materialized'', i]) (ar_content_digest r) (fs_root s')"
proof -
  let ?store = "root @ [''.nxr'', ''artifacts'']" and ?rec = "\<lambda>i. record_of H (root @ [''.nxr'', ''artifacts'']) i (fs_root s)"
  have "in_place H ?store ?rec inputs {} (fs_root s)" using assms(5) by (simp add: in_place_def)
  then have "in_place H ?store ?rec inputs ({} \<union> set inputs) (fs_root s')"
    using triple_Ok [OF triple_materialize_each [OF assms(3,4) subset_refl empty_subsetI]] assms(1)
    unfolding materialize_inputs_from_def by blast
  then show ?thesis using assms(2) by (auto simp: in_place_def)
qed

text \<open>A checkout with one input, materialized before.\<close>

definition checkout_digest :: string where
  "checkout_digest = hex_digest (replicate 32 (CHR 0x00))"

definition checkout_manifest :: JsonValue where
  "checkout_manifest = JObject
     [(''bundleSha256'', JString checkout_digest), (''digestAlgorithm'', JString ''nxr-artifact-v1''),
      (''files'', JArray [JObject [(''name'', JString ''a''), (''sha256'', JString checkout_digest)]])]"

definition checkout_record :: JsonValue where
  "checkout_record = JObject [(''contentDigest'', JString checkout_digest), (''name'', JString ''in'')]"

definition checkout_artifacts :: ArtifactHost where
  "checkout_artifacts = \<lparr>ah_fs = example_fs\<lparr>fh_fail := (\<lambda>_. None)\<rparr>,
     ah_parse = (\<lambda>raw. Ok (if raw = ''m'' then checkout_manifest else checkout_record)),
     ah_print = (\<lambda>_. ''d''), ah_digests = \<lparr>sha256 = (\<lambda>_. replicate 32 (CHR 0x00)), json_scalar = (\<lambda>_. [])\<rparr>, ah_pid = 7\<rparr>"

definition checkout_tree :: "(string \<times> tree) list" where
  "checkout_tree =
     [(''materialized'', TDir [(''in'', example_tree [])]), (''objects'', TDir [(checkout_digest, example_tree [])]),
      (''records'', TDir [(''in.json'', TFile ''r'')])]"

definition checkout_state :: FsState where
  "checkout_state = \<lparr>fs_root = Some (TDir [(''.nxr'', TDir [(''artifacts'', TDir checkout_tree)])]), fs_calls = 0\<rparr>"

abbreviation checkout_store :: path where
  "checkout_store \<equiv> [''.nxr'', ''artifacts'']"

lemma checkout_host [simp]:
  "never_fails (ah_fs checkout_artifacts)" "ah_parse checkout_artifacts raw = Ok (if raw = ''m'' then checkout_manifest else checkout_record)"
  "artifact_hex checkout_artifacts c = checkout_digest"
  by (simp_all add: checkout_artifacts_def never_fails_def artifact_hex_def checkout_digest_def)

lemma checkout_verified:
  assumes "ah_parse H ''m'' = Ok checkout_manifest" and "artifact_hex H ''x'' = checkout_digest"
    and "artifact_hex H (digest_payload [''nxr-artifact-v1''] [(''a'', checkout_digest)]) = checkout_digest"
  shows "tree_verified H (example_tree []) checkout_digest"
proof -
  let ?item = "JObject [(''name'', JString ''a''), (''sha256'', JString checkout_digest)]"
  have "path_file_name ''a'' = Some ''a''" by code_simp
  then have "listed_entry ?item = Ok (''a'', checkout_digest)"
    by (simp add: listed_entry_def str_field_def json_str_def single_segment_def)
  then have item: "item_verified H (example_tree []) ?item (''a'', checkout_digest)"
    by (simp add: item_verified_def example_tree_def assms)
  have files: "manifest_files checkout_manifest checkout_digest = Ok [?item]"
    by (simp add: checkout_manifest_def manifest_files_def text_field_def str_field_def json_str_def json_items_def)
  have "header_lines checkout_manifest = Ok [''nxr-artifact-v1'']"
    by (simp add: header_lines_def is_stargate_manifest_def checkout_manifest_def text_field_def str_field_def json_str_def)
  then have digest: "canonical_digest H checkout_manifest [(''a'', checkout_digest)] = Ok checkout_digest"
    by (simp add: canonical_digest_def assms)
  have "valid_utf8 ''m''" by code_simp
  then show ?thesis
    unfolding tree_verified_def
    by (intro exI [of _ "''m''"] exI [of _ checkout_manifest] exI [of _ "[?item]"] exI [of _ "[(''a'', checkout_digest)]"])
      (simp add: item files digest assms, simp add: example_tree_def resolve_def)
qed

lemma checkout_places:
  "published checkout_artifacts (checkout_store @ [''materialized'', ''in'']) checkout_digest (fs_root checkout_state)"
  "published checkout_artifacts (object_path checkout_store checkout_digest) checkout_digest (fs_root checkout_state)"
  unfolding published_def
  by (intro exI [of _ "example_tree []"]; simp add: checkout_verified; simp add: object_path_def checkout_state_def checkout_tree_def)+

lemma checkout_digest_hex: "is_hex_digest checkout_digest"
  by code_simp

lemma checkout_segments: "safe_segment ''in'' label = Ok ()" "safe_segment ''bundle.tar'' label = Ok ()"
  by code_simp+

definition checkout_in :: ArtifactRecord where
  "checkout_in = \<lparr>ar_name = ''in'', ar_identity = JObject [], ar_content_digest = checkout_digest, ar_producer_run = [], ar_host = [],
     ar_physical_host = [], ar_facet = [], ar_consumer_input = [], ar_attempt_id = [], ar_output = ''bundle.tar''\<rparr>"

lemma checkout_parsed: "ArtifactRecord_from_value checkout_record = Ok checkout_in"
  by (simp add: ArtifactRecord_from_value_def record_digest_def checkout_record_def json_str_def str_or_def str_field_def
      checkout_digest_hex checkout_segments checkout_in_def)

lemma checkout_at: "Option.bind (node_at H (checkout_store @ [''records'', json_file ''in'']) (fs_root checkout_state)) (resolve H) = Some (TFile ''r'')"
  by (simp add: checkout_state_def checkout_tree_def json_file_def resolve_def)

lemma checkout_loads: "yields (fs_root checkout_state) (load_artifact_record checkout_artifacts checkout_store ''in'') checkout_in"
proof -
  have "valid_utf8 ''r''" by code_simp
  then show ?thesis
    unfolding load_artifact_record_def Let_def
    by (intro yields_bind [OF yields_err [OF yields_text [OF checkout_host(1) checkout_at]]] yields_bind [OF yields_lift [where x = checkout_record]] yields_lift)
      (simp_all add: checkout_parsed)
qed

lemma yields_restore:
  assumes "never_fails (ah_fs H)" and "published H src d root" and "published H dst d root" and "fs_exists (ah_fs H) dst \<lparr>fs_root = root, fs_calls = 0\<rparr>"
  shows "yields root (restore_object H src dst d) ()"
  unfolding restore_object_def
proof (rule yields_bind [OF yields_verify(1) [OF assms(1,2)]])
  have "yields root (op_bind (verifies H dst d) (\<lambda>ok. if ok then op_lift (Ok ()) else publish_tree H src dst d)) ()"
    by (rule yields_bind [OF yields_verify(2) [OF assms(1,3)]]) (simp add: yields_lift)
  then show "yields root (\<lambda>s. if fs_exists (ah_fs H) dst s
      then op_bind (verifies H dst d) (\<lambda>ok. if ok then op_lift (Ok ()) else publish_tree H src dst d) s else publish_tree H src dst d s) ()"
    using assms(4) by (simp add: yields_def fs_exists_def stat_def)
qed

lemma ends_bind:
  "yields root m x \<Longrightarrow> (\<And>s. fs_root s = root \<Longrightarrow> fst (f x s) = Ok y) \<Longrightarrow> fs_root s = root \<Longrightarrow> fst (op_bind m f s) = Ok y"
  unfolding yields_def op_bind_def by (fastforce split: prod.splits outcome.splits)

lemma checkout_decision:
  "fs_root s = fs_root checkout_state \<Longrightarrow>
   fst (write_materialize_decision checkout_artifacts checkout_store ''in'' checkout_in ''local'' ''hit'' [] s) = Ok ()"
proof -
  have "fst (write_materialize_decision checkout_artifacts checkout_store ''in'' checkout_in ''local'' ''hit'' []
      \<lparr>fs_root = fs_root checkout_state, fs_calls = n\<rparr>) = Ok ()" for n
    by code_simp
  then show "fs_root s = fs_root checkout_state \<Longrightarrow> ?thesis" by (cases s) (metis FsState.select_convs(1) old.unit.exhaust)
qed

lemma checkout_run: "fst (materialize_inputs_from checkout_artifacts (\<lambda>_ _. Err []) None [] [''in''] checkout_state) = Ok ()"
proof -
  let ?R = "fs_root checkout_state" and ?H = checkout_artifacts
  have d: "ar_content_digest checkout_in = checkout_digest" by (simp add: checkout_in_def)
  have restore: "yields ?R (restore_local ?H checkout_store checkout_in (checkout_store @ [''materialized'', ''in''])) ()"
    unfolding restore_local_def d
    by (rule yields_restore [OF checkout_host(1) checkout_places(2,1)]) code_simp
  have own: "fst (materialize_own ?H f None checkout_store ''in'' checkout_in [] s) = Ok ()" if "fs_root s = ?R" for s f
    unfolding materialize_own_def Let_def [of "_ @ _"] Let_def [of "object_path _ _"] d publish_to_def option.case(1)
    by (rule ends_bind [OF yields_verify(2) [OF checkout_host(1) checkout_places(2)] _ that], unfold if_True op_bind_Ok,
        rule ends_bind [OF restore], rule checkout_decision, assumption+)
  have "fst (materialize_input ?H f None checkout_store ''in'' checkout_state) = Ok ()" for f
    unfolding materialize_input_def checkout_segments op_bind_Ok option.case(1) Let_def if_False
    by (rule ends_bind [OF checkout_loads _ refl], rule own)
  then obtain s1 where "materialize_input ?H (\<lambda>_ _. Err []) None checkout_store ''in'' checkout_state = (Ok (), s1)"
    by (metis prod.collapse)
  then show ?thesis by (simp add: materialize_inputs_from_def op_bind_def op_lift_def)
qed

theorem materialize_inputs_verified_witness:
  "\<exists>r. record_of checkout_artifacts checkout_store ''in'' (fs_root checkout_state) = Some r \<and>
    published checkout_artifacts [''.nxr'', ''artifacts'', ''materialized'', ''in''] (ar_content_digest r)
      (fs_root (snd (materialize_inputs_from checkout_artifacts (\<lambda>_ _. Err []) None [] [''in''] checkout_state)))"
proof -
  obtain s' where run: "materialize_inputs_from checkout_artifacts (\<lambda>_ _. Err []) None [] [''in''] checkout_state = (Ok (), s')"
    using checkout_run by (cases "materialize_inputs_from checkout_artifacts (\<lambda>_ _. Err []) None [] [''in''] checkout_state") simp
  have "separate_names checkout_artifacts [''in'']" by code_simp
  moreover have "plain_path ([] @ [''.nxr'', ''artifacts'', ''materialized'']) (fs_root checkout_state)" by code_simp
  ultimately show ?thesis
    using materialize_inputs_verified [OF run] unfolding run by (simp add: apart_def)
qed

end
