(* ===== verification/Artifact_Lookup.thy ===== *)
theory Artifact_Lookup
  imports Artifact_Materialize
begin

text \<open>
  What a publication to the catalog leaves for a lookup: the record round trip,
  the catalog key before and after the record is prepared, and the object a
  later lookup finds; and what a publication that meets another digest does.
\<close>

section \<open>Records print and parse\<close>

definition valid_record :: "ArtifactRecord \<Rightarrow> bool" where
  "valid_record r \<longleftrightarrow> is_hex_digest (ar_content_digest r) \<and>
     safe_segment (ar_name r) ''artifact name'' = Ok () \<and> safe_segment (ar_output r) ''artifact output'' = Ok ()"

lemma parsed_record_valid: "ArtifactRecord_from_value v = Ok r \<Longrightarrow> valid_record r"
  by (auto simp: ArtifactRecord_from_value_def valid_record_def bind_eq_Ok split: if_splits)

lemma record_round_trip: "valid_record r \<Longrightarrow> ArtifactRecord_from_value (record_body r) = Ok r"
  by (cases r) (simp add: ArtifactRecord_from_value_def valid_record_def record_body_def record_digest_def str_or_def str_field_def json_str_def)

section \<open>The key of a prepared record\<close>

lemma sort_key_map: "(\<And>x. fst (f x) = fst x) \<Longrightarrow> sort_key fst (map f xs) = map f (sort_key fst xs)"
proof -
  assume f: "\<And>x. fst (f x) = fst x"
  have "insort_key fst (f x) (map f ys) = map f (insort_key fst x ys)" for x ys
    by (induction ys) (simp_all add: f)
  then show ?thesis by (induction xs) simp_all
qed

lemma sort_key_again: "sort_key fst (sort_key fst xs) = sort_key fst (xs :: (string \<times> 'a) list)"
  by (rule sort_key_id_if_sorted) (rule sorted_sort_key)

lemma map_of_sort_key [simp]: "map_of (sort_key fst xs) k = map_of (xs :: (string \<times> 'a) list) k"
proof -
  have "map_of (insort_key fst x ys) k = map_of (x # ys) k" if "sorted (map fst ys)" for x and ys :: "(string \<times> 'a) list"
    using that by (induction ys) auto
  then show ?thesis by (induction xs) auto
qed

lemma fragment_sort_json: "canonical_fragment D (sort_json v) = canonical_fragment D v"
proof (induction v rule: sort_json.induct)
  case (1 obj)
  have "sort_key fst (map (\<lambda>(k, v). (k, k @ ''='' @ canonical_fragment D v)) (sort_key fst (map (\<lambda>(k, v). (k, sort_json v)) obj))) =
      sort_key fst (map (\<lambda>(k, v). (k, k @ ''='' @ canonical_fragment D v)) (map (\<lambda>(k, v). (k, sort_json v)) obj))"
    by (subst (1 2) sort_key_map) (auto simp: sort_key_again)
  also have "map (\<lambda>(k, v). (k, k @ ''='' @ canonical_fragment D v)) (map (\<lambda>(k, v). (k, sort_json v)) obj) =
      map (\<lambda>(k, v). (k, k @ ''='' @ canonical_fragment D v)) obj"
    using 1 by auto
  finally show ?case by simp
qed (simp_all cong: map_cong)

lemma json_get_sort: "json_get k (sort_json v) = map_option sort_json (json_get k v)"
proof (cases v)
  case (JObject obj)
  have "map_of (map (\<lambda>(k, v). (k, sort_json v)) obj) k = map_option sort_json (map_of obj k)" by (induction obj) auto
  then show ?thesis by (simp add: JObject)
qed simp_all

lemma str_field_sort [simp]: "str_field k (sort_json v) = str_field k v"
proof -
  have "json_str (sort_json x) = json_str x" for x by (cases x) (simp_all add: json_str_def)
  then show ?thesis by (simp add: str_field_def json_get_sort bind_map_option comp_def)
qed

text \<open>The schema version is added beside the fields a key is made of.\<close>

definition versioned :: "JsonValue \<Rightarrow> JsonValue" where
  "versioned v = (case v of JObject obj \<Rightarrow> JObject (bt_insert ''identitySchema'' (JNumber ''1'') obj) | _ \<Rightarrow> v)"

lemma versioned_get: "k \<noteq> ''identitySchema'' \<Longrightarrow> json_get k (versioned v) = json_get k v"
  by (cases v) (simp_all add: versioned_def)

lemma prepared_get: "k \<noteq> ''identitySchema'' \<Longrightarrow> json_get k (identity_with_schema v) = map_option sort_json (json_get k v)"
  unfolding identity_with_schema_def versioned_def [symmetric] by (simp add: json_get_sort versioned_get)

lemma prepared_field: "k \<noteq> ''identitySchema'' \<Longrightarrow> str_field k (identity_with_schema v) = str_field k v"
  unfolding identity_with_schema_def versioned_def [symmetric] by (simp add: str_field_def [of k v] str_field_def [of k "versioned v"] versioned_get)

lemma prepared_text: "k \<noteq> ''identitySchema'' \<Longrightarrow> text_at (identity_with_schema v) k = text_at v k"
  by (simp add: text_at_def prepared_field)

lemma prepared_required: "''identitySchema'' \<notin> set keys \<Longrightarrow> first_required (identity_with_schema v) keys = first_required v keys"
proof -
  assume "''identitySchema'' \<notin> set keys"
  then have "List.map_filter (text_at (identity_with_schema v)) keys = List.map_filter (text_at v) keys"
    by (induction keys) (auto simp: List.map_filter_simps prepared_text split: option.split)
  then show ?thesis by (simp add: first_required_def)
qed

lemma prepared_lines: "catalog_lines D (identity_with_schema v) = catalog_lines D v"
proof -
  have entries: "json_entries (sort_json x) = map_option (\<lambda>obj. sort_key fst (map (\<lambda>(k, v). (k, sort_json v)) obj)) (json_entries x)" for x
    by (cases x) (simp_all add: json_entries_def)
  have toolchain: "object_text (sort_key fst (map (\<lambda>(k, v). (k, sort_json v)) obj)) k = object_text obj k" for obj k
    using str_field_sort [of k "JObject obj"] by (simp add: object_text_def text_at_def)
  have fragment: "nonempty_fragment D (map_option sort_json x) = nonempty_fragment D x" for x
    by (cases x) (simp_all add: nonempty_fragment_def fragment_sort_json)
  have "stargate_input_lines (identity_with_schema v) = stargate_input_lines v"
    by (simp add: stargate_input_lines_def prepared_text prepared_get prepared_required lockfile_keys_def dirty_keys_def
        entries bind_map_option comp_def toolchain)
  moreover have "generic_input_lines D (identity_with_schema v) = generic_input_lines D v"
    by (simp add: generic_input_lines_def prepared_get prepared_required source_keys_def fragment fragment [of "Some _", simplified]
        split: option.split)
  ultimately show ?thesis by (simp add: catalog_lines_def split: option.split)
qed

lemma prepared_key: "prepare_publication r = Ok r' \<Longrightarrow> catalog_key H r' = catalog_key H r"
  by (auto simp: prepare_publication_def catalog_key_def prepared_lines bind_eq_Ok)

lemma prepared_valid: "prepare_publication r = Ok r' \<Longrightarrow> valid_record r' = valid_record r \<and> ar_name r' = ar_name r \<and> ar_content_digest r' = ar_content_digest r"
  by (auto simp: prepare_publication_def valid_record_def bind_eq_Ok)

section \<open>What a publication leaves\<close>

definition no_link :: "tree option \<Rightarrow> bool" where
  "no_link o' \<longleftrightarrow> (case o' of Some (TLink _) \<Rightarrow> False | _ \<Rightarrow> True)"

text \<open>The name of the temporary file of a replacement.\<close>

definition temp_name :: "ArtifactHost \<Rightarrow> string \<Rightarrow> string" where
  "temp_name H x = ''.'' @ x @ ''.'' @ show_nat (ah_pid H) @ ''.tmp''"

lemma temp_other [simp]: "temp_name H x \<noteq> x" "x \<noteq> temp_name H x"
proof -
  have "length (temp_name H x) \<noteq> length x" by (simp add: temp_name_def)
  then show "temp_name H x \<noteq> x" "x \<noteq> temp_name H x" by metis+
qed

lemma triple_write_new:
  assumes "spares (D @ [t]) F"
  shows "triple (\<lambda>s. real_dir D (fs_root s) \<and> no_link (node_at H (D @ [t]) (fs_root s)) \<and> F (fs_root s)) (write_file H (D @ [t]) b)
    (\<lambda>_ s. real_dir D (fs_root s) \<and> node_at H (D @ [t]) (fs_root s) = Some (TFile b) \<and> F (fs_root s)) (\<lambda>s. F (fs_root s))"
proof (rule tripleI)
  fix s :: FsState
  assume s: "real_dir D (fs_root s) \<and> no_link (node_at H (D @ [t]) (fs_root s)) \<and> F (fs_root s)"
  have "real_dir D (alter (D @ [t]) f (fs_root s))" for f
    using s by (intro real_dir_alter) (auto simp: prefix_def)
  moreover have "put_file b (node_at H (D @ [t]) (fs_root s)) = Some (TFile b)"
    using s by (simp add: put_file_def no_link_def split: option.splits tree.splits)
  ultimately show "case write_file H (D @ [t]) b s of
      (Ok u, s) \<Rightarrow> real_dir D (fs_root s) \<and> node_at H (D @ [t]) (fs_root s) = Some (TFile b) \<and> F (fs_root s) | (_, s) \<Rightarrow> F (fs_root s)"
    using s spares_alter [OF assms] node_at_alter_same [of D "fs_root s" H t]
    by (simp add: write_file_def Let_def set_root_def split: option.split)
qed

lemma triple_replace_file:
  assumes "spares (D @ [x]) F" and "spares (D @ [temp_name H x]) F"
  shows "triple (\<lambda>s. plain_path D (fs_root s) \<and> no_link (node_at (ah_fs H) (D @ [temp_name H x]) (fs_root s)) \<and> F (fs_root s))
    (atomic_replace H (D @ [x]) b)
    (\<lambda>_ s. node_at (ah_fs H) (D @ [x]) (fs_root s) = Some (TFile b) \<and> F (fs_root s)) (\<lambda>s. F (fs_root s))"
proof -
  let ?t = "D @ [temp_name H x]" and ?N = "node_at (ah_fs H)"
  have dirs: "no_link (?N ?t (Some u)) \<and> F (Some u)"
    if "prefix p D" "no_link (?N ?t r) \<and> F r" "make_dirs (ah_fs H) p r = Some u" for p r u
  proof -
    have "\<not> prefix ?t p" "prefix p ?t" using that(1) by (auto simp: prefix_def)
    then show ?thesis
      using that(2,3) assms(2) make_dirs_node [OF that(3), of ?t "ah_fs H"] unfolding spares_def by metis
  qed
  have create: "triple (\<lambda>s. plain_path D (fs_root s) \<and> no_link (?N ?t (fs_root s)) \<and> F (fs_root s)) (create_dir_all (ah_fs H) D)
      (\<lambda>_ s. real_dir D (fs_root s) \<and> no_link (?N ?t (fs_root s)) \<and> F (fs_root s)) (\<lambda>s. F (fs_root s))"
    by (rule triple_conseq [OF triple_create_parent [of D "\<lambda>r. no_link (?N ?t r) \<and> F r" "ah_fs H", OF dirs]]) auto
  have rename: "triple (\<lambda>s. real_dir D (fs_root s) \<and> ?N ?t (fs_root s) = Some (TFile b) \<and> F (fs_root s))
      (or_else (rename_path (ah_fs H) ?t (D @ [x])) (\<lambda>e. op_bind (ignore_result (remove_file (ah_fs H) ?t)) (\<lambda>_. op_lift (Err e))))
      (\<lambda>_ s. ?N (D @ [x]) (fs_root s) = Some (TFile b) \<and> F (fs_root s)) (\<lambda>s. F (fs_root s))"
  proof (rule triple_or_else [where R = "\<lambda>s. F (fs_root s)"])
    show "triple (\<lambda>s. real_dir D (fs_root s) \<and> ?N ?t (fs_root s) = Some (TFile b) \<and> F (fs_root s)) (rename_path (ah_fs H) ?t (D @ [x]))
        (\<lambda>_ s. ?N (D @ [x]) (fs_root s) = Some (TFile b) \<and> F (fs_root s)) (\<lambda>s. F (fs_root s))"
    proof (rule triple_pre)
      fix s0 :: FsState
      assume "real_dir D (fs_root s0) \<and> ?N ?t (fs_root s0) = Some (TFile b) \<and> F (fs_root s0)"
      then show "triple (\<lambda>s. s = s0) (rename_path (ah_fs H) ?t (D @ [x]))
          (\<lambda>_ s. ?N (D @ [x]) (fs_root s) = Some (TFile b) \<and> F (fs_root s)) (\<lambda>s. F (fs_root s))"
        by (intro triple_conseq [OF triple_rename [OF temp_other(1) assms(2,1),
              of "ah_fs H" "Some (TFile b)" "?N (D @ [x]) (fs_root s0)"]]) auto
    qed
    have clean: "triple (\<lambda>s. F (fs_root s)) (ignore_result (remove_file (ah_fs H) ?t) :: unit fs_op) (\<lambda>_ s. F (fs_root s)) (\<lambda>s. F (fs_root s))"
      by (rule triple_within [of "{?t}"]) (use assms(2) in \<open>auto simp: below_def intro!: within_ignore within_remove_file\<close>)
    show "triple (\<lambda>s. F (fs_root s)) (op_bind (ignore_result (remove_file (ah_fs H) ?t)) (\<lambda>_. op_lift (Err e)))
        (\<lambda>_ s. ?N (D @ [x]) (fs_root s) = Some (TFile b) \<and> F (fs_root s)) (\<lambda>s. F (fs_root s))" for e :: string
      by (rule triple_bind [OF clean]) (rule triple_fail)
  qed auto
  show ?thesis
    unfolding atomic_replace_def Let_def butlast_snoc last_snoc temp_name_def [symmetric]
    by (rule triple_bind [OF create triple_bind [OF triple_write_new [OF assms(2)] rename]])
qed

lemma hex_publishable:
  assumes "is_hex_digest d"
  shows "publishable H D d"
proof -
  have "\<not> is_hex_digit CHR ''.''" by code_simp
  then have "CHR ''.'' \<notin> set d" using assms unfolding is_hex_digest_def list_all_iff by blast
  then have "dropWhile (\<lambda>x. x \<noteq> CHR ''.'') (rev d) = []" unfolding dropWhile_eq_Nil_conv set_rev by metis
  then have "rsplit_once CHR ''.'' d = None" by (simp only: rsplit_once_def list.case)
  then have "file_stem d = d" by (simp add: file_stem_def)
  then show ?thesis by (simp add: publishable_def stage_name_def backup_name_def)
qed

lemma hex_names:
  assumes "is_hex_digest d"
  shows "d \<noteq> stage_name H d" and "d \<noteq> backup_name H d"
  using hex_publishable [OF assms] by (simp_all add: publishable_def)

text \<open>The directories of the catalog are no links, and no link stands where the temporary file goes.\<close>

definition ready :: "ArtifactHost \<Rightarrow> path \<Rightarrow> string \<Rightarrow> string \<Rightarrow> tree option \<Rightarrow> bool" where
  "ready H C key name R \<longleftrightarrow> plain_path (C @ [''records'', key]) R \<and> plain_path (C @ [''objects'']) R \<and>
     no_link (node_at (ah_fs H) (C @ [''records'', key, temp_name H (json_file name)]) R)"

lemma lock_not_temp: "name @ ''.lock'' \<noteq> temp_name H (json_file name)"
proof -
  have "last (name @ ''.lock'') \<noteq> last (temp_name H (json_file name))" by (simp add: temp_name_def)
  then show ?thesis by metis
qed

lemma spares_ready:
  "\<not> prefix p (C @ [''records'', key]) \<Longrightarrow> \<not> prefix p (C @ [''objects'']) \<Longrightarrow>
   \<not> prefix p (C @ [''records'', key, temp_name H (json_file name)]) \<Longrightarrow>
   \<not> prefix (C @ [''records'', key, temp_name H (json_file name)]) p \<Longrightarrow> spares p (ready H C key name)"
  unfolding ready_def by (intro spares_conj spares_plain spares_node)

lemma triple_if: "triple P a Q E \<Longrightarrow> triple P b Q E \<Longrightarrow> triple P (if c then a else b) Q E"
  by simp

lemma triple_publish_record:
  assumes "prepare_publication r = Ok r'" and "catalog_key H r = Ok key" and "valid_record r"
  shows "triple (\<lambda>s. ready H C key (ar_name r) (fs_root s)) (publish_record_tree H C r object)
    (\<lambda>_ s. node_at (ah_fs H) (record_path C key (ar_name r)) (fs_root s) = Some (TFile (record_text H r')) \<and>
       published H (object_path C (ar_content_digest r)) (ar_content_digest r) (fs_root s)) (\<lambda>_. True)"
proof -
  let ?R = "C @ [''records'', key]" and ?O = "C @ [''objects'']" and ?d = "ar_content_digest r" and ?x = "json_file (ar_name r)"
  let ?lock = "?R @ [ar_name r @ ''.lock'']"
  define K where "K = ready H C key (ar_name r)"
  have r': "ar_name r' = ar_name r" "ar_content_digest r' = ?d" "catalog_key H r' = Ok key"
    using prepared_valid [OF assms(1)] prepared_key [OF assms(1), of H] assms(2) by simp_all
  have hex: "is_hex_digest ?d" using assms(3) by (simp add: valid_record_def)
  have lock: "spares ?lock K"
    unfolding K_def using lock_not_temp [of "ar_name r" H] by (intro spares_ready) (auto simp: append_eq_append_conv2)
  have keep: "triple (\<lambda>s. K (fs_root s)) m (\<lambda>_ s. K (fs_root s)) (\<lambda>_. True)" if "within {?lock} m" for m :: "'b fs_op"
    by (rule triple_conseq [OF triple_within [OF that, of K "\<lambda>s. K (fs_root s)"]]) (use lock in auto)
  have "beside H ?O ?d K"
    unfolding beside_def K_def by (intro conjI spares_ready) auto
  from triple_publish_to [OF this hex_publishable [OF hex]]
  have copied: "triple (\<lambda>s. K (fs_root s)) (publish_tree H object (?O @ [?d]) ?d)
      (\<lambda>_ s. K (fs_root s) \<and> published H (?O @ [?d]) ?d (fs_root s)) (\<lambda>_. True)"
    by (rule triple_conseq) (auto simp: K_def ready_def)
  have "spares (?R @ [y]) (published H (?O @ [?d]) ?d)" for y by (rule spares_published) auto
  then have replaced: "triple (\<lambda>s. K (fs_root s) \<and> published H (?O @ [?d]) ?d (fs_root s)) (atomic_replace H (?R @ [?x]) b)
      (\<lambda>_ s. node_at (ah_fs H) (?R @ [?x]) (fs_root s) = Some (TFile b) \<and> published H (?O @ [?d]) ?d (fs_root s)) (\<lambda>_. True)" for b
    by (intro triple_conseq [OF triple_replace_file [of ?R ?x "published H (?O @ [?d]) ?d" H]]) (auto simp: K_def ready_def)
  have o: "object_path C ?d = ?O @ [?d]" and p: "record_path C key (ar_name r) = ?R @ [?x]"
    and l: "C @ [''records'', key, ar_name r @ ''.lock''] = ?lock"
    by (simp_all add: object_path_def record_path_def)
  let ?Q = "\<lambda>(_ :: unit) s. node_at (ah_fs H) (?R @ [?x]) (fs_root s) = Some (TFile (record_text H r')) \<and> published H (?O @ [?d]) ?d (fs_root s)"
  have body: "triple (\<lambda>s. K (fs_root s)) (publish_under_lock H C key r' object) ?Q (\<lambda>_. True)"
    unfolding publish_under_lock_def r' o p
    by (rule triple_bind [OF keep [OF within_record_reads(2)]], rule triple_if)
      (rule triple_fail, rule TrueI, rule triple_bind [OF copied replaced])
  have made: "within {?lock} (create_dir_all (ah_fs H) ?R)" "within {?lock} (open_lock (ah_fs H) ?lock)"
    by (auto intro!: within_create within_open_lock simp: near_def below_def)
  have "triple (\<lambda>s. K (fs_root s)) (with_exclusive_lock (ah_fs H) ?lock (publish_under_lock H C key r' object)) ?Q (\<lambda>_. True)"
    unfolding with_exclusive_lock_def butlast_snoc
    by (rule triple_bind [OF keep [OF made(1)]], rule triple_bind [OF keep [OF made(2)]], rule triple_bind [OF keep [OF within_call] body])
  then have "triple (\<lambda>s. K (fs_root s)) (op_bind (create_dir_all (ah_fs H) ?R)
      (\<lambda>_. with_exclusive_lock (ah_fs H) ?lock (publish_under_lock H C key r' object))) ?Q (\<lambda>_. True)"
    by (rule triple_bind [OF keep [OF made(1)]])
  then show ?thesis
    unfolding publish_record_tree_def assms(1) op_bind_Ok r' l o p K_def .
qed

section \<open>A later lookup\<close>

text \<open>The same host when no call fails.\<close>

definition quiet :: "ArtifactHost \<Rightarrow> ArtifactHost" where
  "quiet H = H\<lparr>ah_fs := (ah_fs H)\<lparr>fh_fail := (\<lambda>_. None)\<rparr>\<rparr>"

lemma quiet_host [simp]:
  "never_fails (ah_fs (quiet H))" "ah_parse (quiet H) = ah_parse H" "ah_digests (quiet H) = ah_digests H"
  "artifact_hex (quiet H) = artifact_hex H" "resolve (ah_fs (quiet H)) = resolve (ah_fs H)"
  "entries_of (ah_fs (quiet H)) = entries_of (ah_fs H)" "node_at (ah_fs (quiet H)) = node_at (ah_fs H)"
proof -
  show r: "resolve (ah_fs (quiet H)) = resolve (ah_fs H)" by (simp add: quiet_def resolve_def fun_eq_iff split: tree.split)
  then show e: "entries_of (ah_fs (quiet H)) = entries_of (ah_fs H)" by (simp add: entries_of_def fun_eq_iff)
  have "node_at (ah_fs (quiet H)) p R = node_at (ah_fs H) p R" for p R
    by (induction p arbitrary: R) (simp_all add: e split: option.split)
  then show "node_at (ah_fs (quiet H)) = node_at (ah_fs H)" by (simp add: fun_eq_iff)
qed (simp_all add: quiet_def never_fails_def artifact_hex_def fun_eq_iff)

lemma quiet_published [simp]: "published (quiet H) p d R = published H p d R"
  by (simp add: published_def tree_verified_def item_verified_def [abs_def] canonical_digest_def)

lemma quiet_key [simp]: "catalog_key (quiet H) r = catalog_key H r"
  by (simp add: catalog_key_def)

lemma yields_stored:
  assumes "Option.bind (node_at (ah_fs H) (record_path C key name) root) (resolve (ah_fs H)) = Some (TFile raw)"
    and "valid_utf8 raw" and "parse_record H raw = Ok r"
  shows "yields root (read_record (quiet H) (record_path C key name)) r"
    and "yields root (stored_content_digest (quiet H) C key name) (Some (ar_content_digest r))"
proof -
  show r: "yields root (read_record (quiet H) (record_path C key name)) r"
    unfolding read_record_def
    by (rule yields_bind [OF yields_text [where c = raw]]) (use assms in \<open>simp_all add: yields_lift parse_record_def\<close>)
  show "yields root (stored_content_digest (quiet H) C key name) (Some (ar_content_digest r))"
    unfolding stored_content_digest_def
    by (rule yields_bind [OF yields_op_ok [OF r]]) (simp add: yields_lift)
qed

text \<open>
  C22: After a record was published to the catalog, whatever calls failed on the
  way that were not reported, reading the record file gives back the record that
  was published, with its schema version, and a lookup with the original record
  finds its object verified: the key is the same before and after the record is
  prepared.  The record came from parsing, the directories of the catalog are no
  links, and what is printed parses back.
\<close>

theorem published_record_found:
  assumes "publish_record_tree H C r object s = (Ok (), s')" and "ArtifactRecord_from_value v = Ok r"
    and "catalog_key H r = Ok key" and "prepare_publication r = Ok r'" and "ready H C key (ar_name r) (fs_root s)"
    and "ah_parse H (record_text H r') = Ok (record_body r')" and "valid_utf8 (record_text H r')"
  shows "fst (read_record (quiet H) (record_path C key (ar_name r)) s') = Ok r' \<and> fst (catalog_object_ok (quiet H) C r s') = Ok True"
proof -
  have r: "valid_record r" "valid_record r'" "ar_content_digest r' = ar_content_digest r"
    using parsed_record_valid [OF assms(2)] prepared_valid [OF assms(4)] by simp_all
  have s': "node_at (ah_fs H) (record_path C key (ar_name r)) (fs_root s') = Some (TFile (record_text H r'))"
    "published H (object_path C (ar_content_digest r)) (ar_content_digest r) (fs_root s')"
    using triple_Ok [OF triple_publish_record [OF assms(4,3) r(1)] assms(5,1)] by simp_all
  have parsed: "parse_record H (record_text H r') = Ok r'"
    by (simp add: parse_record_def assms(6) record_round_trip [OF r(2)])
  have raw: "Option.bind (node_at (ah_fs H) (record_path C key (ar_name r)) (fs_root s')) (resolve (ah_fs H)) = Some (TFile (record_text H r'))"
    by (simp add: s'(1) resolve_def)
  note stored = yields_stored [OF raw assms(7) parsed]
  have "yields (fs_root s') (catalog_object_ok (quiet H) C r) True"
    unfolding catalog_object_ok_def quiet_key assms(3) outcome.case
    by (rule yields_bind [OF stored(2)]) (simp add: r(3) object_verified_def yields_verify(2) s'(2))
  then show ?thesis using stored(1) by (simp add: yields_def)
qed

section \<open>Conflicts\<close>

text \<open>The content digest the catalog records under a key and a name.\<close>

definition entry_digest :: "ArtifactHost \<Rightarrow> path \<Rightarrow> string \<Rightarrow> string \<Rightarrow> tree option \<Rightarrow> string option" where
  "entry_digest H C key name root =
     (case Option.bind (node_at (ah_fs H) (record_path C key name) root) (resolve (ah_fs H)) of
        Some (TFile raw) \<Rightarrow> if valid_utf8 raw then (case parse_record H raw of Ok r \<Rightarrow> Some (ar_content_digest r) | _ \<Rightarrow> None) else None
      | _ \<Rightarrow> None)"

text \<open>A call that keeps a property of the tree and is one call of the file system.\<close>

lemma triple_count:
  assumes "within S m" and "\<And>p. p \<in> S \<Longrightarrow> spares p F" and "\<And>s x s1. m s = (Ok x, s1) \<Longrightarrow> fs_calls s1 = Suc (fs_calls s)"
  shows "triple (\<lambda>s. F (fs_root s) \<and> fs_calls s = n) m (\<lambda>_ s. F (fs_root s) \<and> fs_calls s = Suc n) (\<lambda>s. F (fs_root s))"
proof (rule tripleI)
  fix s :: FsState
  assume s: "F (fs_root s) \<and> fs_calls s = n"
  obtain r s1 where run: "m s = (r, s1)" by (cases "m s")
  have "case m s of (Ok x, s1) \<Rightarrow> F (fs_root s1) | (_, s1) \<Rightarrow> F (fs_root s1)"
    by (rule tripleD [OF withinD [OF assms(1,2)]]) (use s in auto)
  then show "case m s of (Ok x, s1) \<Rightarrow> F (fs_root s1) \<and> fs_calls s1 = Suc n | (_, s1) \<Rightarrow> F (fs_root s1)"
    using assms(3) [of s _ s1] s run by (cases r) auto
qed

lemma stored_read:
  assumes "entry_digest H C key name (fs_root s) = Some d" and "fh_fail (ah_fs H) (fs_calls s) = None"
  shows "fst (stored_content_digest H C key name s) = Ok (Some d)" and "fs_root (snd (stored_content_digest H C key name s)) = fs_root s"
  using assms
  by (auto simp: entry_digest_def stored_content_digest_def op_bind_def op_ok_def read_record_def fs_read_text_def fs_read_def fs_call_def
      stat_def op_lift_def split: option.splits tree.splits outcome.splits if_splits)

text \<open>A record file that cannot be read counts as none.\<close>

lemma unread_record_absent:
  "fh_fail (ah_fs H) (fs_calls s) = Some e \<Longrightarrow> fst (stored_content_digest H C key name s) = Ok None"
  by (simp add: stored_content_digest_def op_bind_def op_ok_def read_record_def fs_read_text_def fs_read_def fs_call_def op_lift_def)

lemma json_not_lock: "json_file name \<noteq> name @ ''.lock''"
  by (simp add: json_file_def)

lemma triple_conflict:
  assumes "fh_fail (ah_fs H) n = None" and "d \<noteq> ar_content_digest r"
  shows "triple (\<lambda>s. (F (fs_root s) \<and> entry_digest H C key (ar_name r) (fs_root s) = Some d) \<and> fs_calls s = n)
    (publish_under_lock H C key r object) (\<lambda>_ _. False) (\<lambda>s. F (fs_root s))"
proof (rule tripleI)
  fix s :: FsState
  assume s: "(F (fs_root s) \<and> entry_digest H C key (ar_name r) (fs_root s) = Some d) \<and> fs_calls s = n"
  then have "fst (stored_content_digest H C key (ar_name r) s) = Ok (Some d)" "fs_root (snd (stored_content_digest H C key (ar_name r) s)) = fs_root s"
    using stored_read [of H C key "ar_name r" s d] assms(1) by simp_all
  then obtain s1 where "stored_content_digest H C key (ar_name r) s = (Ok (Some d), s1)" "fs_root s1 = fs_root s"
    by (cases "stored_content_digest H C key (ar_name r) s") simp
  then show "case publish_under_lock H C key r object s of (Ok x, s1) \<Rightarrow> False | (_, s1) \<Rightarrow> F (fs_root s1)"
    using s assms(2) by (simp add: publish_under_lock_def op_bind_def op_lift_def)
qed

text \<open>
  C23: A publication that meets a record of the same key and name with another
  content digest, and whose read of that record does not fail, is an error, and
  it changes nothing but the lock file beside the record and the directories on
  the way to it, whichever of its calls fail.
\<close>

theorem conflicting_record_kept:
  assumes "publish_record_tree H C r object s = (res, s')" and "catalog_key H r = Ok key"
    and "entry_digest H C key (ar_name r) (fs_root s) = Some d" and "d \<noteq> ar_content_digest r"
    and "fh_fail (ah_fs H) (fs_calls s + 4) = None"
    and "spares (C @ [''records'', key, ar_name r @ ''.lock'']) F" and "F (fs_root s)"
  shows "res \<noteq> Ok () \<and> F (fs_root s') \<and> entry_digest H C key (ar_name r) (fs_root s') = Some d"
proof (cases "prepare_publication r")
  case (Ok r')
  let ?lock = "C @ [''records'', key, ar_name r @ ''.lock'']" and ?n = "fs_calls s"
  define G where "G R \<longleftrightarrow> F R \<and> entry_digest H C key (ar_name r) R = Some d" for R
  have r': "ar_name r' = ar_name r" "ar_content_digest r' = ar_content_digest r" "catalog_key H r' = Ok key"
    using prepared_valid [OF Ok] prepared_key [OF Ok, of H] assms(2) by simp_all
  have spared: "spares ?lock G"
    unfolding G_def entry_digest_def record_path_def using json_not_lock [of "ar_name r"]
    by (intro spares_conj assms(6) spares_node) (auto simp: append_eq_append_conv2)
  have step: "triple (\<lambda>s. G (fs_root s) \<and> fs_calls s = k) m (\<lambda>_ s. G (fs_root s) \<and> fs_calls s = Suc k) (\<lambda>s. G (fs_root s))"
    if "within {?lock} m" "\<And>s x s1. m s = (Ok x, s1) \<Longrightarrow> fs_calls s1 = Suc (fs_calls s)" for m :: "unit fs_op" and k
    by (rule triple_count [OF that(1)]) (use spared that(2) in auto)
  have made: "within {?lock} (create_dir_all (ah_fs H) (C @ [''records'', key]))" "within {?lock} (open_lock (ah_fs H) ?lock)"
    by (auto intro!: within_create within_open_lock simp: near_def below_def)
  have create: "fs_calls s1 = Suc (fs_calls s)" if "create_dir_all H' p s = (Ok x, s1)" for H' p s x s1
    using that by (auto simp: create_dir_all_def Let_def split: option.splits)
  have call: "fs_calls s1 = Suc (fs_calls s)" if "fs_call H' s = (Ok x, s1)" for H' s x s1
    using that by (auto simp: fs_call_def split: option.splits)
  have opened: "fs_calls s1 = Suc (fs_calls s)" if "open_lock H' p s = (Ok x, s1)" for H' p s x s1
    using that by (auto simp: open_lock_def op_bind_result set_root_def dest!: call split: if_splits)
  have last: "triple (\<lambda>s. G (fs_root s) \<and> fs_calls s = Suc (Suc (Suc (Suc ?n)))) (publish_under_lock H C key r' object) (\<lambda>_ _. False) (\<lambda>s. G (fs_root s))"
  proof -
    have four: "Suc (Suc (Suc (Suc ?n))) = ?n + 4" by simp
    show ?thesis
      unfolding four using triple_conflict [of H "?n + 4" d r' G C key object] assms(4,5) r' by (simp add: G_def conj_ac)
  qed
  have path: "butlast ?lock = C @ [''records'', key]" by (simp add: butlast_append)
  note dirs = step [OF made(1) create] and lock = step [OF made(2) opened] and held = step [OF within_call call]
  have "triple (\<lambda>s. G (fs_root s) \<and> fs_calls s = ?n) (publish_record_tree H C r object) (\<lambda>_ _. False) (\<lambda>s. G (fs_root s))"
    unfolding publish_record_tree_def Ok op_bind_Ok r' with_exclusive_lock_def path
    by (rule triple_bind [OF dirs triple_bind [OF dirs triple_bind [OF lock triple_bind [OF held last]]]])
  then show ?thesis
    using assms(1,3,7) by (cases res) (auto simp: triple_def G_def dest!: spec [of _ s])
qed (use assms(1,3,7) in \<open>auto simp: publish_record_tree_def op_bind_def op_lift_def\<close>)

section \<open>A catalog\<close>

definition catalog_identity :: JsonValue where
  "catalog_identity = JObject
     [(''commit'', JString ''c''), (''dirty'', JString ''d''), (''lockfile'', JString ''l''), (''profile'', JString ''p''),
      (''toolchain'', JObject [(''binaryen'', JString ''b''), (''rustc'', JString ''r''), (''wasmBindgen'', JString ''w'')])]"

definition catalog_record :: ArtifactRecord where
  "catalog_record = checkout_in\<lparr>ar_identity := catalog_identity\<rparr>"

definition catalog_prepared :: ArtifactRecord where
  "catalog_prepared = checkout_in\<lparr>ar_identity := identity_with_schema catalog_identity\<rparr>"

definition catalog_host :: ArtifactHost where
  "catalog_host = checkout_artifacts\<lparr>
     ah_parse := (\<lambda>raw. Ok (if raw = ''m'' then checkout_manifest
       else if raw = ''k'' then record_body (catalog_record\<lparr>ar_content_digest := hex_digest (replicate 32 (CHR 0x01))\<rparr>)
       else record_body catalog_prepared)),
     ah_print := (\<lambda>_. ''j''),
     ah_digests := \<lparr>sha256 = (\<lambda>s. if take 1 s = ''s'' then [CHR 0x00] else replicate 32 (CHR 0x00)), json_scalar = (\<lambda>_. [])\<rparr>\<rparr>"

definition catalog_tree :: "(string \<times> tree) list \<Rightarrow> tree option" where
  "catalog_tree records = Some (TDir [(''c'', TDir [(''objects'', TDir [(checkout_digest, example_tree [])]), (''records'', TDir records)])])"

lemma catalog_facts:
  "catalog_key catalog_host catalog_record = Ok ''00''" "prepare_publication catalog_record = Ok catalog_prepared"
  "ar_content_digest catalog_record = checkout_digest" "ar_name catalog_record = ''in''"
  by (code_simp, code_simp, simp_all add: catalog_record_def checkout_in_def)

lemma catalog_valid: "valid_record catalog_record"
  by (simp add: valid_record_def catalog_record_def checkout_in_def checkout_digest_hex checkout_segments)

lemma catalog_object: "published catalog_host [''c'', ''objects'', checkout_digest] checkout_digest (catalog_tree records)"
proof -
  have "ah_parse catalog_host ''m'' = Ok checkout_manifest" by (simp add: catalog_host_def)
  moreover have "artifact_hex catalog_host ''x'' = checkout_digest" by (simp add: artifact_hex_def catalog_host_def checkout_digest_def)
  moreover have "artifact_hex catalog_host (digest_payload [''nxr-artifact-v1''] [(''a'', checkout_digest)]) = checkout_digest"
    by (simp add: artifact_hex_def catalog_host_def checkout_digest_def digest_payload_def)
  ultimately have "tree_verified catalog_host (example_tree []) checkout_digest" by (rule checkout_verified)
  then show ?thesis by (simp add: published_def catalog_tree_def)
qed

abbreviation catalog_source :: path where
  "catalog_source \<equiv> [''c'', ''objects'', checkout_digest]"

definition locked_tree :: "tree option" where
  "locked_tree = catalog_tree [(''00'', TDir [(''in.lock'', TFile [])])]"

lemma catalog_locked:
  "op_bind (create_dir_all (ah_fs catalog_host) [''c'', ''records'', ''00'']) (\<lambda>_.
   op_bind (create_dir_all (ah_fs catalog_host) [''c'', ''records'', ''00'']) (\<lambda>_.
   op_bind (open_lock (ah_fs catalog_host) [''c'', ''records'', ''00'', ''in.lock'']) (\<lambda>_. fs_call (ah_fs catalog_host))))
     \<lparr>fs_root = catalog_tree [], fs_calls = 0\<rparr> = (Ok (), \<lparr>fs_root = locked_tree, fs_calls = 4\<rparr>)"
  by code_simp

lemma catalog_none: "stored_content_digest catalog_host [''c''] ''00'' ''in'' \<lparr>fs_root = locked_tree, fs_calls = n\<rparr> =
    (Ok None, \<lparr>fs_root = locked_tree, fs_calls = Suc n\<rparr>)"
  by code_simp

lemma catalog_replaced:
  "fst (atomic_replace catalog_host [''c'', ''records'', ''00'', ''in.json''] b \<lparr>fs_root = locked_tree, fs_calls = n\<rparr>) = Ok ()"
  by code_simp

lemma op_bind_assoc: "op_bind (op_bind m f) g = op_bind m (\<lambda>x. op_bind (f x) g)"
  by (auto simp: op_bind_def fun_eq_iff split: prod.split outcome.split)

lemma yields_publish:
  assumes "never_fails (ah_fs H)" and "published H dst d root" and "fs_exists (ah_fs H) dst \<lparr>fs_root = root, fs_calls = 0\<rparr>"
  shows "yields root (publish_tree H src dst d) ()"
proof -
  have "yields root (op_bind (verifies H dst d) (\<lambda>ok. if ok then op_lift (Ok ()) else publish_copy H src dst d)) ()"
    by (rule yields_bind [OF yields_verify(2) [OF assms(1,2)]]) (simp add: yields_lift)
  then show ?thesis using assms(3) by (simp add: yields_def publish_tree_def fs_exists_def stat_def)
qed

lemma yields_state: "(\<And>n. \<exists>k. m \<lparr>fs_root = root, fs_calls = n\<rparr> = (Ok x, \<lparr>fs_root = root, fs_calls = k\<rparr>)) \<Longrightarrow> yields root m x"
  unfolding yields_def by (metis (full_types) FsState.select_convs(1) FsState.surjective old.unit.exhaust prod.sel)

lemma catalog_run: "fst (publish_record_tree catalog_host [''c''] catalog_record src \<lparr>fs_root = catalog_tree [], fs_calls = 0\<rparr>) = Ok ()"
proof -
  let ?H = catalog_host and ?s = "\<lparr>fs_root = locked_tree, fs_calls = 4\<rparr>"
  have key: "catalog_key ?H catalog_prepared = Ok ''00''" using prepared_key [OF catalog_facts(2), of ?H] catalog_facts(1) by simp
  have r: "ar_name catalog_prepared = ''in''" "ar_content_digest catalog_prepared = checkout_digest"
    using prepared_valid [OF catalog_facts(2)] catalog_facts(3,4) by simp_all
  have none: "yields locked_tree (stored_content_digest ?H [''c''] ''00'' ''in'') None"
    by (rule yields_state) (simp add: catalog_none)
  have object: "yields locked_tree (publish_tree ?H src catalog_source checkout_digest) ()"
    by (rule yields_publish) (simp_all add: catalog_object locked_tree_def, simp_all add: catalog_host_def fs_exists_def stat_def catalog_tree_def resolve_def example_tree_def)
  have replaced: "fst (atomic_replace ?H [''c'', ''records'', ''00'', ''in.json''] b s) = Ok ()" if "fs_root s = locked_tree" for b s
    using catalog_replaced [of b "fs_calls s"] that by (cases s) simp
  have body: "fst (publish_under_lock ?H [''c''] ''00'' catalog_prepared src ?s) = Ok ()"
    unfolding publish_under_lock_def r record_path_def object_path_def
  proof (rule ends_bind [OF none])
    fix s :: FsState
    assume s: "fs_root s = locked_tree"
    have "fst (op_bind (publish_tree ?H src catalog_source checkout_digest)
        (\<lambda>_. atomic_replace ?H [''c'', ''records'', ''00'', ''in.json''] (record_text ?H catalog_prepared)) s) = Ok ()"
      by (rule ends_bind [OF object _ s]) (rule replaced)
    then show "fst ((if (None :: string option) \<noteq> None \<and> None \<noteq> Some checkout_digest
        then op_lift (Err (''catalog conflict for '' @ ''in'' @ '' at '' @ ''00'' @ '': stored '' @ the None @ '' does not match '' @ checkout_digest))
        else op_bind (publish_tree ?H src ([''c''] @ [''objects'', checkout_digest]) checkout_digest)
          (\<lambda>_. atomic_replace ?H ([''c''] @ [''records'', ''00'', json_file ''in'']) (record_text ?H catalog_prepared))) s) = Ok ()"
      by (simp add: json_file_def)
  qed simp
  have "fst (op_bind (op_bind (create_dir_all (ah_fs ?H) [''c'', ''records'', ''00'']) (\<lambda>_.
     op_bind (create_dir_all (ah_fs ?H) [''c'', ''records'', ''00'']) (\<lambda>_.
     op_bind (open_lock (ah_fs ?H) [''c'', ''records'', ''00'', ''in.lock'']) (\<lambda>_. fs_call (ah_fs ?H)))))
     (\<lambda>_. publish_under_lock ?H [''c''] ''00'' catalog_prepared src) \<lparr>fs_root = catalog_tree [], fs_calls = 0\<rparr>) = Ok ()"
    by (simp only: op_bind_def [of "op_bind _ _"] catalog_locked prod.case outcome.case body)
  then show ?thesis
    unfolding publish_record_tree_def catalog_facts(2) op_bind_Ok key r with_exclusive_lock_def
    by (simp add: op_bind_assoc)
qed

text \<open>The first publication of a record whose object the catalog holds.\<close>

theorem published_record_found_witness:
  "\<exists>s'. publish_record_tree catalog_host [''c''] catalog_record catalog_source \<lparr>fs_root = catalog_tree [], fs_calls = 0\<rparr> = (Ok (), s') \<and>
     fst (read_record (quiet catalog_host) (record_path [''c''] ''00'' (ar_name catalog_record)) s') = Ok catalog_prepared \<and>
     fst (catalog_object_ok (quiet catalog_host) [''c''] catalog_record s') = Ok True"
proof -
  obtain s' where run: "publish_record_tree catalog_host [''c''] catalog_record catalog_source \<lparr>fs_root = catalog_tree [], fs_calls = 0\<rparr> = (Ok (), s')"
    using catalog_run [of catalog_source] by (metis prod.collapse)
  have "record_text catalog_host catalog_prepared = ''j'' @ [nl]" by (simp add: record_text_def catalog_host_def)
  moreover have "valid_utf8 (''j'' @ [nl])" by code_simp
  moreover have "ah_parse catalog_host (''j'' @ [nl]) = Ok (record_body catalog_prepared)" by (simp add: catalog_host_def)
  moreover have "ready catalog_host [''c''] ''00'' (ar_name catalog_record) (fs_root \<lparr>fs_root = catalog_tree [], fs_calls = 0\<rparr>)"
    unfolding catalog_facts(4) by (simp add: ready_def catalog_tree_def no_link_def)
  ultimately show ?thesis
    using published_record_found [OF run record_round_trip [OF catalog_valid] catalog_facts(1,2)] run by simp
qed

text \<open>A record of the same key and name with another content digest.\<close>

theorem conflicting_record_kept_witness:
  "fst (publish_record_tree catalog_host [''c''] catalog_record catalog_source \<lparr>fs_root = catalog_tree [(''00'', TDir [(''in.json'', TFile ''k'')])], fs_calls = 0\<rparr>) \<noteq> Ok () \<and>
   published catalog_host catalog_source checkout_digest
     (fs_root (snd (publish_record_tree catalog_host [''c''] catalog_record catalog_source
       \<lparr>fs_root = catalog_tree [(''00'', TDir [(''in.json'', TFile ''k'')])], fs_calls = 0\<rparr>)))"
proof -
  let ?s = "\<lparr>fs_root = catalog_tree [(''00'', TDir [(''in.json'', TFile ''k'')])], fs_calls = 0\<rparr>"
  obtain res s' where run: "publish_record_tree catalog_host [''c''] catalog_record catalog_source ?s = (res, s')"
    by (cases "publish_record_tree catalog_host [''c''] catalog_record catalog_source ?s")
  have ones: "is_hex_digest (hex_digest (replicate 32 (CHR 0x01)))" by code_simp
  have "valid_utf8 ''k''" by code_simp
  moreover have "valid_record (catalog_record\<lparr>ar_content_digest := hex_digest (replicate 32 (CHR 0x01))\<rparr>)"
    using catalog_valid ones by (simp add: valid_record_def)
  ultimately have entry: "entry_digest catalog_host [''c''] ''00'' (ar_name catalog_record) (fs_root ?s) = Some (hex_digest (replicate 32 (CHR 0x01)))"
    by (simp add: entry_digest_def record_path_def catalog_tree_def catalog_facts(4) json_file_def resolve_def parse_record_def
        catalog_host_def record_round_trip)
  have other: "hex_digest (replicate 32 (CHR 0x01)) \<noteq> ar_content_digest catalog_record"
    unfolding catalog_facts(3) checkout_digest_def by code_simp
  have quiet: "fh_fail (ah_fs catalog_host) (fs_calls ?s + 4) = None" by (simp add: catalog_host_def checkout_artifacts_def)
  have "spares ([''c''] @ [''records'', ''00'', ar_name catalog_record @ ''.lock'']) (published catalog_host catalog_source checkout_digest)"
    by (rule spares_published) simp_all
  from conflicting_record_kept [OF run catalog_facts(1) entry other quiet this] catalog_object
  show ?thesis by (simp add: run)
qed

end
