(* ===== verification/Spec2Isabelle.thy ===== *)
theory Spec2Isabelle
  imports Scheduler_Progress Affected_Analysis Chunk_Coalesce Worker_Schedule Watch Schema_Parse Workflow_Plan Durable_Recovery Dirty_Inventory Run_Journal Execution_Owner Artifact_Lookup
begin

text \<open>
  A verification library for nxr, a command runner over Nix flake outputs written
  in Rust: a workspace of nine crates under \<open>crates/\<close>.

  \<^bold>\<open>The program.\<close>  A flake publishes a task document (\<open>nxr-task/src/schema.rs\<close>): tasks with
  dependencies, parameters, matrices, resource demands and inputs, process groups, and aliases.
  A command names tasks (\<open>resolve.rs\<close>, \<open>selectors.rs\<close>), the graph below them is built
  (\<open>graph.rs\<close>, \<open>matrix.rs\<close>), a serial plan is printed (\<open>planner.rs\<close>) or an execution plan built
  (\<open>plan_exec.rs\<close>), which the scheduler runs under pools of CPU tokens, memory and interactive
  slots (\<open>scheduler.rs\<close>), emitting events (\<open>events.rs\<close>) and coalesced output (\<open>nxr-process\<close>,
  \<open>chunk_coalesce.rs\<close>).  \<open>nxr-affected\<close> says which tasks a set of changed paths touches;
  \<open>nxr-watch\<close> turns file events into restarts.  A repository may also hold a graph of operations
  in \<open>.nxr/workflows.toml\<close> (\<open>workflows.rs\<close>); its leaves become execution specs pinned to a source
  set (\<open>identity.rs\<close>, \<open>execution_spec.rs\<close>) that a local consumer runs into a journal
  (\<open>run_journal.rs\<close>).  The inputs of a leaf are artifact trees, verified before they are put in
  place and shared through a catalog of the host (\<open>artifact.rs\<close>).  Sessions of the daemon own processes (\<open>execution_owner.rs\<close>) and keep durable
  metadata (\<open>durable_run.rs\<close>).  Nix itself, git, TOML and JSON texts, glob sets and hashes are
  other people's code.

  \<^bold>\<open>How the model corresponds to the code.\<close>  A struct is a record, an enum a datatype, a function
  a function of the same name; \<open>u32\<close>, \<open>u64\<close> and \<open>i32\<close> are words of that width, strings and paths
  lists of bytes.  A \<open>Result\<close> is \<open>outcome\<close>, whose third case is a panic.  \<open>BTreeMap\<close> is a sorted
  association list (\<open>btmap\<close>), \<open>HashMap\<close> an unordered one whose iteration order is an argument.
  Where the code talks to the outside the outside is an argument: a record of functions
  (\<open>Globset\<close>, \<open>Camino\<close>, \<open>Serde\<close>, \<open>WorkflowHost\<close>, \<open>Digests\<close>, \<open>Worktree\<close>, \<open>DurableHost\<close>,
  \<open>JournalHost\<close>, \<open>SpecMachine\<close>, \<open>OwnerHost\<close>, \<open>FsHost\<close>, \<open>ArtifactHost\<close>), the readings of the clock, the environment, the
  prompt, and the text \<open>debug_list\<close> prints.  A call that may fail is asked for by its number, so
  a theorem about all hosts is a theorem about all schedules of failures; the death of the
  process is a host that fails every later call.

  \<^bold>\<open>The theories.\<close>
  \<^item> \<open>Rust_Prelude\<close>, \<open>Rust_Strings\<close>, \<open>Rust_Hash\<close>, \<open>Rust_State\<close>, \<open>Search\<close>: outcomes, ordered and
    hashed maps, saturating words, the string functions of the standard library, failing
    operations on a state with their triples, and contracts of interfaces (\<open>ordered_map\<close>,
    \<open>token_pool\<close>, \<open>reach_search\<close> and their kin) as locales, each interpreted on the model's own
    definitions.
  \<^item> \<open>Task_Schema\<close>, \<open>Schema_Validate\<close>, \<open>Schema_Parse\<close>, \<open>Process_Graph\<close>: \<open>schema.rs\<close>, \<open>process.rs\<close>.
    Validation is equivalent to a declarative specification; a validated document always plans.
  \<^item> \<open>Task_Graph\<close>, \<open>Planner\<close>, \<open>Matrix\<close>, \<open>Parameters\<close>, \<open>Task_Select\<close>, \<open>Quantities\<close>: the graph is the
    reachable part of the document, plans are topological orders and errors real cycles,
    instances and parameters get exactly the declared values.
  \<^item> \<open>Plan_Exec\<close>, \<open>Events\<close>, \<open>Scheduler\<close>, \<open>Scheduler_Safety\<close>, \<open>Scheduler_Progress\<close>: the scheduler as
    a transition system; pools, slots and dependencies are respected in every reachable state,
    every run ends, and what ran and what did not is exactly what policy and failures say.
  \<^item> \<open>Affected_Paths\<close>, \<open>Affected\<close>, \<open>Affected_Analysis\<close>: \<open>nxr-affected\<close>.
  \<^item> \<open>Chunk_Coalesce\<close>, \<open>Worker_Schedule\<close>, \<open>Watch\<close>: output, leases of workers, watch mode.
  \<^item> \<open>Workflow_Waves\<close>, \<open>Workflows\<close>, \<open>Workflow_Plan\<close>, \<open>Identity\<close>, \<open>Execution_Spec\<close>,
    \<open>Dirty_Inventory\<close>, \<open>Run_Journal\<close>: workflow files, what an operation id identifies, admission
    of specs, the inventory of a checkout and the journal of a local run.
  \<^item> \<open>Durable_Run\<close>, \<open>Durable_Journal\<close>, \<open>Durable_Recovery\<close>, \<open>Execution_Owner\<close>: the journal of a
    run (no failure loses a committed line; failures other than those of a newline or of the removal
    of an emptied journal keep it whole), what a load after a crash gives, and sessions under a
    budget, whose steps are those of the durable journal.
  \<^item> \<open>File_Tree\<close>, \<open>Artifact_Tree\<close>, \<open>Artifact_Publish\<close>, \<open>Artifact_Record\<close>, \<open>Artifact_Catalog\<close>,
    \<open>Artifact_Materialize\<close>, \<open>Artifact_Lookup\<close>: \<open>artifact.rs\<close> over a file system that is a tree of
    files, directories and links, with the failing calls of \<open>std::fs\<close>; links lead outside the
    tree, and what is written through one is not tracked.  Publication of a tree is all or
    nothing, materialized inputs verify, a published record is found, a conflicting one is kept.
    \<open>within\<close> says below which paths an operation changes anything.

  \<^bold>\<open>Bounds and fuel.\<close>  \<open>detect_process_cycles\<close> runs its visit to the depth of the number of
  processes plus one, and no path of distinct processes is longer.  The loops of the planner, of
  the waves, of the graph walks and of the affected propagation are total functions with a
  measure.  The nesting of checkouts in an inventory is a bound that is an argument.  Sessions
  reconcile at most \<open>MAX_RECONCILE_PASSES = 8\<close> times and two passes are enough.  Counters of
  events, chunks and cursors are natural numbers where the code could not reach \<open>2 ^ 64\<close> of them.

  \<^bold>\<open>Where the code falls short.\<close>  Lemmas with a text of their own state behaviour that a comment
  or a caller does not expect: roots that are not aligned to path components, bursts that hide a
  change of metadata, renamed contents dropped from the dirty inventory, a second terminal sync
  that overrides a cancellation, a last journal line without its newline, a repair with stale
  text, budgets cut to 32 bits, a spawned process without a record, names with newlines and files
  a manifest does not list, a record that cannot be read taken for none, a task document that is
  an array, editor temporaries dropped without their final target, task names that hide a matrix
  instance.  A property that does not hold in such a case names the condition that leaves it out.

  \<^bold>\<open>Not modelled.\<close>  The terminal user interface and the commands of \<open>nxr-cli\<close> (argument parsing,
  printing, and calls of the functions above); the adapters of \<open>nxr-nix\<close> (building command lines,
  and reading what Nix prints); process supervision, signals, pipes and sessions of terminals in
  \<open>nxr-process\<close> (system calls and threads); the file watcher; the daemon's socket protocol; caches
  whose content is the answer of Nix; shell completion.  Serde derives are arguments.  Locks are
  taken to exclude each other, so that a body under a lock is one step.
\<close>

end
